(* ===== verification/Prelude.thy ===== *)
theory Prelude
  imports Main "HOL-Library.Code_Target_Nat"
begin

text \<open>
  Shared vocabulary of the development.

  \<^item> Results.  A JavaScript function that can throw is a value of the sum type
    \<open>'e + 'a\<close>: \<open>Inl e\<close> is the thrown error, \<open>Inr a\<close> the returned value;
    \<open>bindR\<close> sequences two such functions.
  \<^item> Stateful code.  A function that mutates state and can throw is a
    \<open>('s, 'e, 'a) act\<close>, a function from the state to a result and the state left
    behind (the state survives a throw, as in JavaScript).  \<open>bindM\<close>, \<open>tryM\<close> and
    \<open>finallyM\<close> are \<open>;\<close>, \<open>catch\<close> and \<open>finally\<close>.
  \<^item> Invariants.  \<open>keeps P m\<close> says that \<open>m\<close> keeps \<open>P\<close> whether it returns or
    throws, \<open>ensures P m Q\<close> that from \<open>P\<close> a normal return satisfies \<open>Q\<close>.  Their
    rules are in the collection \<open>act_rules\<close>, so that the invariant of a long
    sequential function is proved by applying the rules.
  \<^item> Machines.  The locale \<open>event_machine\<close> is the interface of every event-driven
    controller of the program: a step function that keeps an invariant.
\<close>

named_theorems act_rules "rules for keeps and ensures"
named_theorems act_defs "the combinators of stateful code"

section \<open>Results\<close>

definition bindR :: "'e + 'a \<Rightarrow> ('a \<Rightarrow> 'e + 'b) \<Rightarrow> 'e + 'b" where
  "bindR r f = (case r of Inl e \<Rightarrow> Inl e | Inr a \<Rightarrow> f a)"

lemma bindR_simps [simp]:
  "bindR (Inl e) f = Inl e"
  "bindR (Inr a) f = f a"
  by (simp_all add: bindR_def)

lemma bindR_eq_Inr [simp]: "bindR r f = Inr b \<longleftrightarrow> (\<exists>a. r = Inr a \<and> f a = Inr b)"
  by (cases r) auto

lemma bindR_cong [fundef_cong]:
  "r = r' \<Longrightarrow> (\<And>a. r' = Inr a \<Longrightarrow> f a = g a) \<Longrightarrow> bindR r f = bindR r' g"
  by (cases r') auto

fun mapR :: "('a \<Rightarrow> 'e + 'b) \<Rightarrow> 'a list \<Rightarrow> 'e + 'b list" where
  "mapR f [] = Inr []"
| "mapR f (x # xs) = bindR (f x) (\<lambda>y. bindR (mapR f xs) (\<lambda>ys. Inr (y # ys)))"

lemma mapR_Inr_iff: "mapR f xs = Inr ys \<longleftrightarrow> list_all2 (\<lambda>x y. f x = Inr y) xs ys"
proof (induction xs arbitrary: ys)
  case Nil
  then show ?case by auto
next
  case (Cons x xs)
  then show ?case by (cases ys) auto
qed

lemma mapR_length: "mapR f xs = Inr ys \<Longrightarrow> length ys = length xs"
  by (auto simp: mapR_Inr_iff dest: list_all2_lengthD)

section \<open>Stateful code that can throw\<close>

type_synonym ('s, 'e, 'a) act = "'s \<Rightarrow> ('e + 'a) \<times> 's"

definition retM :: "'a \<Rightarrow> ('s, 'e, 'a) act" where
  "retM a s = (Inr a, s)"

definition throwM :: "'e \<Rightarrow> ('s, 'e, 'a) act" where
  "throwM e s = (Inl e, s)"

definition bindM :: "('s, 'e, 'a) act \<Rightarrow> ('a \<Rightarrow> ('s, 'e, 'b) act) \<Rightarrow> ('s, 'e, 'b) act" where
  "bindM m f s = (case m s of (Inl e, s') \<Rightarrow> (Inl e, s') | (Inr a, s') \<Rightarrow> f a s')"

definition getM :: "('s, 'e, 's) act" where
  "getM s = (Inr s, s)"

definition modifyM :: "('s \<Rightarrow> 's) \<Rightarrow> ('s, 'e, unit) act" where
  "modifyM f s = (Inr (), f s)"

definition readM :: "('s \<Rightarrow> 'a) \<Rightarrow> ('s, 'e, 'a) act" where
  "readM f s = (Inr (f s), s)"

definition liftR :: "'e + 'a \<Rightarrow> ('s, 'e, 'a) act" where
  "liftR r s = (r, s)"

definition guardM :: "bool \<Rightarrow> 'e \<Rightarrow> ('s, 'e, unit) act" where
  "guardM b e = (if b then retM () else throwM e)"

definition tryM :: "('s, 'e, 'a) act \<Rightarrow> ('e \<Rightarrow> ('s, 'e, 'a) act) \<Rightarrow> ('s, 'e, 'a) act" where
  "tryM m h s = (case m s of (Inl e, s') \<Rightarrow> h e s' | (Inr a, s') \<Rightarrow> (Inr a, s'))"

text \<open>\<open>try m finally h\<close>: \<open>h\<close> runs either way, and its own throw replaces the outcome.\<close>

definition finallyM :: "('s, 'e, 'a) act \<Rightarrow> ('s, 'e, unit) act \<Rightarrow> ('s, 'e, 'a) act" where
  "finallyM m h s = (case m s of (r, s') \<Rightarrow>
     (case h s' of (Inl e, s'') \<Rightarrow> (Inl e, s'') | (Inr _, s'') \<Rightarrow> (r, s'')))"

fun forM :: "('a \<Rightarrow> ('s, 'e, unit) act) \<Rightarrow> 'a list \<Rightarrow> ('s, 'e, unit) act" where
  "forM f [] = retM ()"
| "forM f (x # xs) = bindM (f x) (\<lambda>_. forM f xs)"

lemmas act_combinators = retM_def throwM_def getM_def modifyM_def readM_def liftR_def
  guardM_def bindM_def tryM_def finallyM_def

declare act_combinators [act_defs]

lemma bindM_assoc: "bindM (bindM m f) g = bindM m (\<lambda>a. bindM (f a) g)"
  by (rule ext) (auto simp: bindM_def split: prod.splits sum.splits)

lemma bindM_retM [simp]: "bindM (retM a) f = f a"
  by (rule ext) (simp add: bindM_def retM_def)

lemma bindM_throwM [simp]: "bindM (throwM e) f = throwM e"
  by (rule ext) (simp add: bindM_def throwM_def)

lemma bindM_Inr_iff:
  "bindM m f s = (Inr b, t) \<longleftrightarrow> (\<exists>a u. m s = (Inr a, u) \<and> f a u = (Inr b, t))"
  by (auto simp: bindM_def split: prod.splits sum.splits)

text \<open>When the primitive steps return.\<close>

lemma act_Inr:
  "guardM b e w = (Inr u, v) \<longleftrightarrow> b \<and> v = w"
  "retM a w = (Inr c, v) \<longleftrightarrow> c = a \<and> v = w"
  "\<not> throwM e w = (Inr c, v)"
  "modifyM f w = (r, v) \<longleftrightarrow> r = Inr () \<and> v = f w"
  "readM g w = (q, v) \<longleftrightarrow> q = Inr (g w) \<and> v = w"
  "liftR x w = (Inr c, v) \<longleftrightarrow> x = Inr c \<and> v = w"
  by (auto simp: guardM_def retM_def throwM_def modifyM_def readM_def liftR_def)

lemma bindM_cong [fundef_cong]:
  "m s = m' s' \<Longrightarrow> s = s' \<Longrightarrow> (\<And>a t. m' s' = (Inr a, t) \<Longrightarrow> f a t = g a t) \<Longrightarrow>
   bindM m f s = bindM m' g s'"
  by (auto simp: bindM_def split: prod.splits sum.splits)

subsection \<open>Invariants of stateful code\<close>

definition keeps :: "('s \<Rightarrow> bool) \<Rightarrow> ('s, 'e, 'a) act \<Rightarrow> bool" where
  "keeps P m \<longleftrightarrow> (\<forall>s. P s \<longrightarrow> P (snd (m s)))"

definition ensures :: "('s \<Rightarrow> bool) \<Rightarrow> ('s, 'e, 'a) act \<Rightarrow> ('a \<Rightarrow> 's \<Rightarrow> bool) \<Rightarrow> bool" where
  "ensures P m Q \<longleftrightarrow> (\<forall>s a t. P s \<longrightarrow> m s = (Inr a, t) \<longrightarrow> Q a t)"

lemma keepsD: "keeps P m \<Longrightarrow> P s \<Longrightarrow> P (snd (m s))"
  by (simp add: keeps_def)

lemma keepsD2: "keeps P m \<Longrightarrow> P s \<Longrightarrow> m s = (r, t) \<Longrightarrow> P t"
  using keepsD [of P m s] by simp

lemma keepsI: "(\<And>s. P s \<Longrightarrow> P (snd (m s))) \<Longrightarrow> keeps P m"
  by (simp add: keeps_def)

lemma keeps_ret [act_rules]: "keeps P (retM a)"
  by (simp add: keeps_def retM_def)

lemma keeps_throw [act_rules]: "keeps P (throwM e)"
  by (simp add: keeps_def throwM_def)

lemma keeps_get [act_rules]: "keeps P getM"
  by (simp add: keeps_def getM_def)

lemma keeps_read [act_rules]: "keeps P (readM f)"
  by (simp add: keeps_def readM_def)

lemma keeps_lift [act_rules]: "keeps P (liftR r)"
  by (simp add: keeps_def liftR_def)

lemma keeps_guard [act_rules]: "keeps P (guardM b e)"
  by (simp add: keeps_def guardM_def retM_def throwM_def)

lemma keeps_modify: "(\<And>s. P s \<Longrightarrow> P (f s)) \<Longrightarrow> keeps P (modifyM f)"
  by (simp add: keeps_def modifyM_def)

lemma keeps_bind [act_rules]: "keeps P m \<Longrightarrow> (\<And>a. keeps P (f a)) \<Longrightarrow> keeps P (bindM m f)"
  unfolding keeps_def bindM_def by (fastforce split: prod.splits sum.splits)

lemma keeps_try [act_rules]: "keeps P m \<Longrightarrow> (\<And>e. keeps P (h e)) \<Longrightarrow> keeps P (tryM m h)"
  unfolding keeps_def tryM_def by (fastforce split: prod.splits sum.splits)

lemma keeps_finally [act_rules]: "keeps P m \<Longrightarrow> keeps P h \<Longrightarrow> keeps P (finallyM m h)"
  unfolding keeps_def finallyM_def by (fastforce split: prod.splits sum.splits)

lemma keeps_if [act_rules]: "(b \<Longrightarrow> keeps P m) \<Longrightarrow> (\<not> b \<Longrightarrow> keeps P n) \<Longrightarrow> keeps P (if b then m else n)"
  by simp

lemma keeps_case_option [act_rules]:
  "keeps P m \<Longrightarrow> (\<And>x. keeps P (f x)) \<Longrightarrow> keeps P (case v of None \<Rightarrow> m | Some x \<Rightarrow> f x)"
  by (cases v) auto

lemma keeps_for [act_rules]: "(\<And>x. keeps P (f x)) \<Longrightarrow> keeps P (forM f xs)"
  by (induction xs) (auto intro: keeps_ret keeps_bind)

lemma ensuresD: "ensures P m Q \<Longrightarrow> P s \<Longrightarrow> m s = (Inr a, t) \<Longrightarrow> Q a t"
  by (simp add: ensures_def)

lemma ensures_bind:
  "ensures P m Q \<Longrightarrow> (\<And>a. ensures (Q a) (f a) R) \<Longrightarrow> ensures P (bindM m f) R"
  unfolding ensures_def by (auto simp: bindM_Inr_iff)

subsection \<open>Triples with an exceptional postcondition\<close>

definition triple :: "('s \<Rightarrow> bool) \<Rightarrow> ('s, 'e, 'a) act \<Rightarrow> ('a \<Rightarrow> 's \<Rightarrow> bool) \<Rightarrow> ('s \<Rightarrow> bool) \<Rightarrow> bool" where
  "triple P m Q X \<longleftrightarrow> (\<forall>w. P w \<longrightarrow> (case m w of (Inr a, t) \<Rightarrow> Q a t | (Inl e, t) \<Rightarrow> X t))"

lemma triple_bind: "triple P m Q X \<Longrightarrow> (\<And>a. triple (Q a) (f a) R X) \<Longrightarrow> triple P (bindM m f) R X"
  unfolding triple_def bindM_def by (fastforce split: prod.splits sum.splits)

lemma triple_keeps: "keeps P m \<Longrightarrow> (\<And>w. P w \<Longrightarrow> X w) \<Longrightarrow> (\<And>a w. P w \<Longrightarrow> Q a w) \<Longrightarrow> triple P m Q X"
  unfolding triple_def by (auto dest: keepsD2 split: prod.splits sum.splits)

lemma triple_weaken:
  "triple P' m Q' X \<Longrightarrow> (\<And>w. P w \<Longrightarrow> P' w) \<Longrightarrow> (\<And>a w. Q' a w \<Longrightarrow> Q a w) \<Longrightarrow> triple P m Q X"
  unfolding triple_def by (fastforce split: prod.splits sum.splits)

lemma triple_except:
  assumes "triple P m Q X'" and "\<And>w. X' w \<Longrightarrow> X w"
  shows "triple P m Q X"
  unfolding triple_def
proof (intro allI impI)
  fix w assume "P w"
  then have "case m w of (Inr a, t) \<Rightarrow> Q a t | (Inl e, t) \<Rightarrow> X' t" by (rule assms(1) [unfolded triple_def, THEN spec, THEN mp])
  then show "case m w of (Inr a, t) \<Rightarrow> Q a t | (Inl e, t) \<Rightarrow> X t" using assms(2) by (auto split: prod.splits sum.splits)
qed

lemma triple_ret: "(\<And>w. P w \<Longrightarrow> Q a w) \<Longrightarrow> triple P (retM a) Q X"
  by (simp add: triple_def retM_def)

lemma triple_throw: "(\<And>w. P w \<Longrightarrow> X w) \<Longrightarrow> triple P (throwM e) Q X"
  by (simp add: triple_def throwM_def)

lemma triple_guard: "(\<And>w. P w \<Longrightarrow> \<not> b \<Longrightarrow> X w) \<Longrightarrow> (\<And>w. P w \<Longrightarrow> b \<Longrightarrow> Q () w) \<Longrightarrow> triple P (guardM b e) Q X"
  by (simp add: triple_def guardM_def retM_def throwM_def)

lemma triple_modify: "(\<And>w. P w \<Longrightarrow> Q () (f w)) \<Longrightarrow> triple P (modifyM f) Q X"
  by (simp add: triple_def modifyM_def)

lemma tripleD: "triple P m Q X \<Longrightarrow> P w \<Longrightarrow> m w = (r, t) \<Longrightarrow> (case r of Inr a \<Rightarrow> Q a t | Inl e \<Rightarrow> X t)"
  unfolding triple_def by (drule spec, drule mp, assumption) (simp split: sum.splits)

lemma triple_try:
  assumes "triple P m Q Y" and h: "\<And>e. triple Y (h e) Q X"
  shows "triple P (tryM m h) Q X"
  unfolding triple_def
proof (intro allI impI)
  fix w assume "P w"
  obtain r t where m: "m w = (r, t)" by fastforce
  note body = tripleD [OF assms(1) \<open>P w\<close> m]
  show "case tryM m h w of (Inr a, t) \<Rightarrow> Q a t | (Inl e, t) \<Rightarrow> X t"
  proof (cases r)
    case (Inl e)
    obtain r2 t2 where handled: "h e t = (r2, t2)" by fastforce
    show ?thesis using tripleD [OF h _ handled] body m Inl handled by (auto simp: tryM_def split: sum.splits)
  qed (use body m in \<open>simp add: tryM_def\<close>)
qed


lemma triple_ex:
  assumes "\<And>x. triple (P x) m Q X"
  shows "triple (\<lambda>w. \<exists>x. P x w) m Q X"
  unfolding triple_def
proof (intro allI impI)
  fix w assume "\<exists>x. P x w"
  then obtain x where "P x w" ..
  then show "case m w of (Inr a, t) \<Rightarrow> Q a t | (Inl e, t) \<Rightarrow> X t" by (rule assms [of x, unfolded triple_def, THEN spec, THEN mp])
qed

lemma triple_fact: "(b \<Longrightarrow> triple P m Q X) \<Longrightarrow> triple (\<lambda>w. P w \<and> b) m Q X"
  by (auto simp: triple_def)

section \<open>Event machines\<close>

text \<open>
  The interface of the event-driven controllers: a step function on states and events and
  an invariant it keeps.  A run is a list of events; the invariant holds after every run
  and, for a monotone observation, the observation only moves forward.
\<close>

locale event_machine =
  fixes step :: "'s \<Rightarrow> 'e \<Rightarrow> 's"
    and inv :: "'s \<Rightarrow> bool"
  assumes inv_step: "inv s \<Longrightarrow> inv (step s e)"
begin

lemma inv_run: "inv s \<Longrightarrow> inv (foldl step s es)"
  by (induction es arbitrary: s) (auto intro: inv_step)

lemma stable_run:
  assumes "\<And>s e. inv s \<Longrightarrow> p s \<Longrightarrow> p (step s e)" and "inv s" and "p s"
  shows "p (foldl step s es)"
  using assms(2,3) by (induction es arbitrary: s) (auto intro: inv_step assms(1))

lemma mono_run:
  fixes f :: "'s \<Rightarrow> 'n::order"
  assumes "\<And>s e. inv s \<Longrightarrow> f s \<le> f (step s e)" and "inv s"
  shows "f s \<le> f (foldl step s es)"
  using assms(2)
proof (induction es arbitrary: s)
  case Nil
  then show ?case by simp
next
  case (Cons e es)
  have "f s \<le> f (step s e)" using Cons.prems assms(1) by blast
  also have "\<dots> \<le> f (foldl step (step s e) es)"
    using Cons.IH [OF inv_step [OF Cons.prems]] .
  finally show ?case by simp
qed

end

section \<open>Lists\<close>

text \<open>\<open>split_on c s\<close> is JavaScript's \<open>s.split(c)\<close> for a one-unit separator.\<close>

fun split_on :: "'a \<Rightarrow> 'a list \<Rightarrow> 'a list list" where
  "split_on c [] = [[]]"
| "split_on c (x # xs) =
     (if x = c then [] # split_on c xs
      else (case split_on c xs of [] \<Rightarrow> [[x]] | p # ps \<Rightarrow> (x # p) # ps))"

fun join_with :: "'a \<Rightarrow> 'a list list \<Rightarrow> 'a list" where
  "join_with c [] = []"
| "join_with c [p] = p"
| "join_with c (p # q # ps) = p @ c # join_with c (q # ps)"

lemma split_on_not_Nil [simp]: "split_on c s \<noteq> []"
  by (induction s) (auto split: list.splits)

lemma join_split [simp]: "join_with c (split_on c s) = s"
proof (induction s)
  case (Cons x xs)
  obtain p ps where "split_on c xs = p # ps" by (cases "split_on c xs") auto
  with Cons show ?case by (cases ps) auto
qed simp

lemma split_on_no_sep: "p \<in> set (split_on c s) \<Longrightarrow> c \<notin> set p"
proof (induction s arbitrary: p)
  case (Cons x xs)
  obtain q qs where q: "split_on c xs = q # qs" by (cases "split_on c xs") auto
  show ?case
    using Cons q by (auto split: if_splits)
qed simp

lemma split_on_set: "p \<in> set (split_on c s) \<Longrightarrow> set p \<subseteq> set s"
proof (induction s arbitrary: p)
  case (Cons x xs)
  obtain q qs where q: "split_on c xs = q # qs" by (cases "split_on c xs") auto
  show ?case
    using Cons q by (fastforce split: if_splits)
qed simp

lemma split_on_notin: "c \<notin> set s \<Longrightarrow> split_on c s = [s]"
  by (induction s) auto

lemma split_on_append_sep: "split_on c (a @ c # b) = split_on c a @ split_on c b"
proof (induction a)
  case (Cons x xs)
  obtain q qs where q: "split_on c xs = q # qs" by (cases "split_on c xs") auto
  show ?case using Cons q by auto
qed simp

lemma split_on_join:
  "ps \<noteq> [] \<Longrightarrow> \<forall>p\<in>set ps. c \<notin> set p \<Longrightarrow> split_on c (join_with c ps) = ps"
  by (induction c ps rule: join_with.induct) (auto simp: split_on_notin split_on_append_sep)

lemma takeWhile_drop_eq: "takeWhile P xs @ drop (length (takeWhile P xs)) xs = xs"
  by (metis takeWhile_dropWhile_id dropWhile_eq_drop)

lemma foldl_invariant:
  "I s \<Longrightarrow> (\<And>s x. x \<in> set xs \<Longrightarrow> I s \<Longrightarrow> I (f s x)) \<Longrightarrow> I (foldl f s xs)"
  by (induction xs arbitrary: s) auto

text \<open>The slices \<open>xs.slice(offset, offset + n)\<close> of a loop \<open>offset += n\<close>.\<close>

fun pieces :: "nat \<Rightarrow> 'a list \<Rightarrow> 'a list list" where
  "pieces n s = (if n = 0 \<or> s = [] then [] else take n s # pieces n (drop n s))"

declare pieces.simps [simp del]

lemma concat_pieces: "0 < n \<Longrightarrow> concat (pieces n s) = s"
proof (induction n s rule: pieces.induct)
  case (1 n s)
  then show ?case by (subst pieces.simps) auto
qed

lemma pieces_length: "p \<in> set (pieces n s) \<Longrightarrow> p \<noteq> [] \<and> length p \<le> n"
proof (induction n s rule: pieces.induct)
  case (1 n s)
  then show ?case by (subst (asm) (2) pieces.simps) (auto split: if_splits)
qed

section \<open>State inside a larger state\<close>

text \<open>\<open>zoomM get put m\<close> runs \<open>m\<close> on a part of the state.\<close>

definition zoomM :: "('s \<Rightarrow> 't) \<Rightarrow> ('t \<Rightarrow> 's \<Rightarrow> 's) \<Rightarrow> ('t, 'e, 'a) act \<Rightarrow> ('s, 'e, 'a) act" where
  "zoomM get put m s = (case m (get s) of (r, t) \<Rightarrow> (r, put t s))"

end
