(* ===== verification/JsString.thy ===== *)
theory JsString
  imports Prelude
begin

text \<open>
  The JavaScript strings and numbers the program computes with.

  A string is its list of UTF-16 code units (\<open>jsstr\<close>, each unit below 65536).
  \<open>code_points\<close> is what \<open>Array.from\<close> and \<open>for...of\<close> iterate over (a lone
  surrogate is an element of its own), \<open>well_formed\<close> is \<open>isWellFormed()\<close>,
  \<open>utf8\<close> is \<open>Buffer.from(s, 'utf8')\<close> (a lone surrogate becomes EF BF BD) and
  \<open>utf8_decode\<close> is \<open>new TextDecoder('utf-8', { fatal: true, ignoreBOM: true })\<close>.
  Decimal and octal numerals are \<open>String(n)\<close>, \<open>n.toString(8)\<close>, \<open>Number(text)\<close>
  and \<open>parseInt(text, 8)\<close> on the digit strings the callers' regular expressions let
  through.
\<close>

type_synonym jsstr = "nat list"
type_synonym byte = nat

text \<open>\<open>js ''abc''\<close> is the JavaScript literal of an ASCII text.\<close>

definition js :: "string \<Rightarrow> jsstr" where
  "js t = map of_char t"

lemma js_simps [simp]: "js [] = []" "js (c # cs) = of_char c # js cs"
  by (simp_all add: js_def)

lemma length_js [simp]: "length (js t) = length t"
  by (simp add: js_def)

definition units :: "jsstr \<Rightarrow> bool" where
  "units s \<longleftrightarrow> (\<forall>u\<in>set s. u < 65536)"

section \<open>Surrogates and code points\<close>

definition is_hi :: "nat \<Rightarrow> bool" where
  "is_hi u \<longleftrightarrow> 55296 \<le> u \<and> u \<le> 56319"

definition is_lo :: "nat \<Rightarrow> bool" where
  "is_lo u \<longleftrightarrow> 56320 \<le> u \<and> u \<le> 57343"

definition is_surrogate :: "nat \<Rightarrow> bool" where
  "is_surrogate u \<longleftrightarrow> is_hi u \<or> is_lo u"

fun well_formed :: "jsstr \<Rightarrow> bool" where
  "well_formed [] = True"
| "well_formed [u] = (\<not> is_surrogate u)"
| "well_formed (u # v # s) =
     (if is_hi u \<and> is_lo v then well_formed s
      else \<not> is_surrogate u \<and> well_formed (v # s))"

fun code_points :: "jsstr \<Rightarrow> nat list" where
  "code_points [] = []"
| "code_points [u] = [u]"
| "code_points (u # v # s) =
     (if is_hi u \<and> is_lo v then (65536 + (u - 55296) * 1024 + (v - 56320)) # code_points s
      else u # code_points (v # s))"

definition units_of :: "nat \<Rightarrow> jsstr" where
  "units_of c = (if c < 65536 then [c]
     else [55296 + (c - 65536) div 1024, 56320 + (c - 65536) mod 1024])"

definition from_points :: "nat list \<Rightarrow> jsstr" where
  "from_points cs = concat (map units_of cs)"

lemma from_points_simps [simp]:
  "from_points [] = []" "from_points (c # cs) = units_of c @ from_points cs"
  "from_points (cs @ ds) = from_points cs @ from_points ds"
  by (simp_all add: from_points_def)

lemma units_of_pair:
  assumes "is_hi u" "is_lo v"
  shows "units_of (65536 + (u - 55296) * 1024 + (v - 56320)) = [u, v]"
proof -
  obtain a where a: "u = 55296 + a" "a < 1024"
    using assms(1) unfolding is_hi_def by (intro that [of "u - 55296"]) arith+
  obtain b where b: "v = 56320 + b" "b < 1024"
    using assms(2) unfolding is_lo_def by (intro that [of "v - 56320"]) arith+
  show ?thesis by (simp add: units_of_def a b)
qed

lemma from_code_points: "units s \<Longrightarrow> from_points (code_points s) = s"
proof (induction s rule: code_points.induct)
  case (3 u v s)
  show ?case
  proof (cases "is_hi u \<and> is_lo v")
    case True
    then have "units_of (65536 + (u - 55296) * 1024 + (v - 56320)) = [u, v]"
      by (simp only: units_of_pair)
    with True 3 show ?thesis by (simp add: units_def)
  next
    case False
    have "units_of u = [u]" using 3 by (simp add: units_def units_of_def)
    with False 3 show ?thesis by (auto simp: units_def)
  qed
qed (auto simp: units_def units_of_def)

text \<open>A scalar value is a code point that is no surrogate.\<close>

definition scalar :: "nat \<Rightarrow> bool" where
  "scalar c \<longleftrightarrow> c < 1114112 \<and> \<not> is_surrogate c"

lemma scalar_hi_lo: "scalar c \<Longrightarrow> c \<ge> 65536 \<Longrightarrow>
    is_hi (55296 + (c - 65536) div 1024) \<and> is_lo (56320 + (c - 65536) mod 1024)"
  by (auto simp: scalar_def is_hi_def is_lo_def)

lemma code_points_units_of:
  assumes "scalar c"
  shows "code_points (units_of c @ s) = c # code_points s"
proof (cases "c < 65536")
  case True
  then show ?thesis
    using assms by (cases s) (auto simp: units_of_def scalar_def is_surrogate_def)
next
  case False
  then have "65536 + ((c - 65536) div 1024) * 1024 + (c - 65536) mod 1024 = c" by simp
  with False show ?thesis
    using scalar_hi_lo [OF assms] by (simp add: units_of_def)
qed

lemma code_points_from: "\<forall>c\<in>set cs. scalar c \<Longrightarrow> code_points (from_points cs) = cs"
  by (induction cs) (auto simp: code_points_units_of)

lemma well_formed_units_of:
  assumes "scalar c"
  shows "well_formed (units_of c @ s) = well_formed s"
proof (cases "c < 65536")
  case True
  then show ?thesis
    using assms by (cases s) (auto simp: units_of_def scalar_def is_surrogate_def)
next
  case False
  then show ?thesis
    using scalar_hi_lo [OF assms] by (simp add: units_of_def)
qed

lemma well_formed_from: "\<forall>c\<in>set cs. scalar c \<Longrightarrow> well_formed (from_points cs)"
  by (induction cs) (auto simp: well_formed_units_of)

lemma code_points_scalar: "well_formed s \<Longrightarrow> units s \<Longrightarrow> c \<in> set (code_points s) \<Longrightarrow> scalar c"
proof (induction s rule: code_points.induct)
  case (3 u v s)
  show ?case
  proof (cases "is_hi u \<and> is_lo v")
    case True
    then have "u - 55296 \<le> 1023" "v - 56320 \<le> 1023" unfolding is_hi_def is_lo_def by arith+
    then have "65536 + (u - 55296) * 1024 + (v - 56320) < 1114112" by linarith
    moreover have "65536 + (u - 55296) * 1024 + (v - 56320) \<ge> 65536" by simp
    ultimately have "scalar (65536 + (u - 55296) * 1024 + (v - 56320))"
      by (simp add: scalar_def is_surrogate_def is_hi_def is_lo_def)
    with True 3 show ?thesis by (auto simp: units_def)
  next
    case False
    with 3 show ?thesis by (auto simp: units_def scalar_def split: if_splits)
  qed
qed (auto simp: scalar_def units_def)

lemma units_from: "\<forall>c\<in>set cs. scalar c \<Longrightarrow> units (from_points cs)"
proof (induction cs)
  case (Cons c cs)
  have "units (units_of c)"
    using Cons.prems scalar_hi_lo [of c]
    by (auto simp: units_of_def units_def is_hi_def is_lo_def)
  with Cons show ?case by (auto simp: units_def)
qed (simp add: units_def)

text \<open>Strings of non-surrogates are their own code points.\<close>

lemma code_points_plain: "\<forall>u\<in>set s. \<not> is_surrogate u \<Longrightarrow> code_points s = s"
  by (induction s rule: code_points.induct) (auto simp: is_surrogate_def)

lemma well_formed_plain: "\<forall>u\<in>set s. \<not> is_surrogate u \<Longrightarrow> well_formed s"
  by (induction s rule: well_formed.induct) auto

lemma code_points_Cons_plain: "\<not> is_hi u \<Longrightarrow> code_points (u # s) = u # code_points s"
  by (cases s) auto

lemma well_formed_Cons_plain: "\<not> is_surrogate u \<Longrightarrow> well_formed (u # s) = well_formed s"
  by (cases s) (auto simp: is_surrogate_def)

lemma code_points_append: "well_formed a \<Longrightarrow> code_points (a @ b) = code_points a @ code_points b"
proof (induction a rule: code_points.induct)
  case (2 u)
  then show ?case by (simp add: code_points_Cons_plain is_surrogate_def)
qed auto

lemma well_formed_append: "well_formed a \<Longrightarrow> well_formed (a @ b) = well_formed b"
proof (induction a rule: well_formed.induct)
  case (2 u)
  then show ?case by (simp add: well_formed_Cons_plain)
qed auto

section \<open>Character classes\<close>

text \<open>\<open>CONTROL = /[\u0000-\u001f\u007f-\u009f]/u\<close>, the same in four modules.\<close>

definition is_control :: "nat \<Rightarrow> bool" where
  "is_control u \<longleftrightarrow> u \<le> 31 \<or> 127 \<le> u \<and> u \<le> 159"

definition has_control :: "jsstr \<Rightarrow> bool" where
  "has_control s = list_ex is_control s"

lemma has_control_iff: "has_control s \<longleftrightarrow> (\<exists>u\<in>set s. is_control u)"
  by (simp add: has_control_def list_ex_iff)

text \<open>The class \<open>\s\<close>, and the trimming of \<open>String.prototype.trim\<close> with it.\<close>

definition is_space :: "nat \<Rightarrow> bool" where
  "is_space u \<longleftrightarrow> 9 \<le> u \<and> u \<le> 13 \<or> u = 32 \<or> u = 160 \<or> u = 5760 \<or> 8192 \<le> u \<and> u \<le> 8202
     \<or> u = 8232 \<or> u = 8233 \<or> u = 8239 \<or> u = 8287 \<or> u = 12288 \<or> u = 65279"

definition js_trim :: "jsstr \<Rightarrow> jsstr" where
  "js_trim s = rev (dropWhile is_space (rev (dropWhile is_space s)))"

text \<open>What \<open>.\<close> excludes in a regular expression without the \<open>s\<close> flag.\<close>

definition is_line_end :: "nat \<Rightarrow> bool" where
  "is_line_end u \<longleftrightarrow> u = 10 \<or> u = 13 \<or> u = 8232 \<or> u = 8233"

definition is_digit :: "nat \<Rightarrow> bool" where
  "is_digit u \<longleftrightarrow> 48 \<le> u \<and> u \<le> 57"

definition is_alpha :: "nat \<Rightarrow> bool" where
  "is_alpha u \<longleftrightarrow> 65 \<le> u \<and> u \<le> 90 \<or> 97 \<le> u \<and> u \<le> 122"

definition is_alnum :: "nat \<Rightarrow> bool" where
  "is_alnum u \<longleftrightarrow> is_alpha u \<or> is_digit u"

definition is_lower_hex :: "nat \<Rightarrow> bool" where
  "is_lower_hex u \<longleftrightarrow> is_digit u \<or> 97 \<le> u \<and> u \<le> 102"

definition starts_with :: "jsstr \<Rightarrow> jsstr \<Rightarrow> bool" where
  "starts_with s p = (take (length p) s = p)"

definition ends_with :: "jsstr \<Rightarrow> jsstr \<Rightarrow> bool" where
  "ends_with s p = (length p \<le> length s \<and> drop (length s - length p) s = p)"

lemma starts_with_append [simp]: "starts_with (p @ s) p"
  by (simp add: starts_with_def)

lemma starts_with_iff: "starts_with s p \<longleftrightarrow> (\<exists>t. s = p @ t)"
  unfolding starts_with_def by (metis append_eq_conv_conj append_take_drop_id)

lemma ends_with_iff: "ends_with s p \<longleftrightarrow> (\<exists>t. s = t @ p)"
proof
  assume "ends_with s p"
  then have "s = take (length s - length p) s @ p"
    unfolding ends_with_def by (metis append_take_drop_id)
  then show "\<exists>t. s = t @ p" ..
qed (auto simp: ends_with_def)

section \<open>UTF-8\<close>

definition utf8_point :: "nat \<Rightarrow> byte list" where
  "utf8_point c =
     (if is_surrogate c then [239, 191, 189]
      else if c < 128 then [c]
      else if c < 2048 then [192 + c div 64, 128 + c mod 64]
      else if c < 65536 then [224 + c div 4096, 128 + c div 64 mod 64, 128 + c mod 64]
      else [240 + c div 262144, 128 + c div 4096 mod 64, 128 + c div 64 mod 64, 128 + c mod 64])"

definition utf8 :: "jsstr \<Rightarrow> byte list" where
  "utf8 s = concat (map utf8_point (code_points s))"

definition byte_length :: "jsstr \<Rightarrow> nat" where
  "byte_length s = length (utf8 s)"

definition is_cont :: "byte \<Rightarrow> bool" where
  "is_cont b \<longleftrightarrow> 128 \<le> b \<and> b < 192"

text \<open>The fatal decoder: overlong forms, surrogates and values above U+10FFFF are errors.\<close>

fun utf8_points :: "byte list \<Rightarrow> nat list option" where
  "utf8_points [] = Some []"
| "utf8_points (b # bs) =
     (if b < 128 then map_option (Cons b) (utf8_points bs)
      else if 194 \<le> b \<and> b < 224 then
        (case bs of b1 # r \<Rightarrow>
           if is_cont b1 then map_option (Cons ((b - 192) * 64 + (b1 - 128))) (utf8_points r)
           else None
         | _ \<Rightarrow> None)
      else if 224 \<le> b \<and> b < 240 then
        (case bs of b1 # b2 # r \<Rightarrow>
           if is_cont b1 \<and> is_cont b2 \<and> (b = 224 \<longrightarrow> 160 \<le> b1) \<and> (b = 237 \<longrightarrow> b1 < 160)
           then map_option (Cons ((b - 224) * 4096 + (b1 - 128) * 64 + (b2 - 128))) (utf8_points r)
           else None
         | _ \<Rightarrow> None)
      else if 240 \<le> b \<and> b < 245 then
        (case bs of b1 # b2 # b3 # r \<Rightarrow>
           if is_cont b1 \<and> is_cont b2 \<and> is_cont b3 \<and> (b = 240 \<longrightarrow> 144 \<le> b1) \<and> (b = 244 \<longrightarrow> b1 < 144)
           then map_option (Cons ((b - 240) * 262144 + (b1 - 128) * 4096 + (b2 - 128) * 64 + (b3 - 128)))
                  (utf8_points r)
           else None
         | _ \<Rightarrow> None)
      else None)"

definition utf8_decode :: "byte list \<Rightarrow> jsstr option" where
  "utf8_decode bs = map_option from_points (utf8_points bs)"

lemma split64: obtains q r where "(c::nat) = q * 64 + r" "r < 64"
  by (metis div_mult_mod_eq mod_less_divisor zero_less_numeral)

lemma split64_eqs: "(c::nat) = q * 64 + r \<Longrightarrow> r < 64 \<Longrightarrow> c div 64 = q"
  "(c::nat) = q * 64 + r \<Longrightarrow> r < 64 \<Longrightarrow> c mod 64 = r"
  by simp_all

lemma utf8_points_step:
  assumes "scalar c"
  shows "utf8_points (utf8_point c @ bs) = map_option (Cons c) (utf8_points bs)"
proof -
  have ns: "\<not> is_surrogate c" "c < 1114112" using assms by (auto simp: scalar_def)
  consider "c < 128" | "128 \<le> c" "c < 2048" | "2048 \<le> c" "c < 65536" | "65536 \<le> c" by linarith
  then show ?thesis
  proof cases
    case 1 then show ?thesis using ns by (simp add: utf8_point_def)
  next
    case 2
    obtain q r where q: "c div 64 = q" "c mod 64 = r" by simp
    have "2 \<le> q" "q < 32" "r < 64" "q * 64 + r = c" using 2 q by auto
    then show ?thesis using 2 ns q by (simp add: utf8_point_def is_cont_def)
  next
    case 3
    obtain q r where c: "c = q * 64 + r" "r < 64" by (rule split64)
    obtain p t where q: "q = p * 64 + t" "t < 64" by (rule split64)
    note d = split64_eqs [OF c] split64_eqs [OF q]
    from d have d4: "c div 4096 = p" using div_mult2_eq [of c 64 64] by simp
    have bounds: "p < 16" "p = 0 \<Longrightarrow> 32 \<le> t" using 3 c q by linarith+
    have su: "p = 13 \<Longrightarrow> t < 32"
      using ns(1) 3 c q by (simp add: is_surrogate_def is_hi_def is_lo_def) linarith
    have e: "p * 4096 + t * 64 + r = c" using c q by simp
    have "utf8_point c = [224 + p, 128 + t, 128 + r]"
      using 3 ns(1) by (simp add: utf8_point_def d d4)
    then show ?thesis using c(2) q(2) bounds su by (simp add: is_cont_def e)
  next
    case 4
    obtain q r where c: "c = q * 64 + r" "r < 64" by (rule split64)
    obtain p t where q: "q = p * 64 + t" "t < 64" by (rule split64)
    obtain o' v where p: "p = o' * 64 + v" "v < 64" by (rule split64)
    note d = split64_eqs [OF c] split64_eqs [OF q] split64_eqs [OF p]
    from d have d4: "c div 4096 = p" "c div 262144 = o'"
      using div_mult2_eq [of c 64 64] div_mult2_eq [of c 4096 64] by simp_all
    have bounds: "o' < 5" "o' = 0 \<Longrightarrow> 16 \<le> v" "o' = 4 \<Longrightarrow> v < 16"
      using 4 ns(2) c q p by linarith+
    have e: "o' * 262144 + v * 4096 + t * 64 + r = c" using c q p by simp
    have "utf8_point c = [240 + o', 128 + v, 128 + t, 128 + r]"
      using 4 ns(1) by (simp add: utf8_point_def d d4)
    then show ?thesis using c(2) q(2) p(2) bounds by (simp add: is_cont_def e)
  qed
qed

lemma utf8_points_append:
  "\<forall>c\<in>set cs. scalar c \<Longrightarrow> utf8_points (concat (map utf8_point cs)) = Some cs"
  by (induction cs) (auto simp: utf8_points_step)

lemma utf8_roundtrip: "well_formed s \<Longrightarrow> units s \<Longrightarrow> utf8_decode (utf8 s) = Some s"
  unfolding utf8_decode_def utf8_def
  using utf8_points_append [of "code_points s"] code_points_scalar [of s]
  by (simp add: from_code_points)

lemma utf8_ascii: "\<forall>u\<in>set s. u < 128 \<Longrightarrow> utf8 s = s"
proof -
  assume a: "\<forall>u\<in>set s. u < 128"
  then have "code_points s = s"
    by (intro code_points_plain) (auto simp: is_surrogate_def is_hi_def is_lo_def)
  moreover have "concat (map utf8_point s) = s"
    using a by (induction s) (auto simp: utf8_point_def is_surrogate_def is_hi_def is_lo_def)
  ultimately show "utf8 s = s" by (simp add: utf8_def)
qed

lemma utf8_point_bytes: "c < 1114112 \<Longrightarrow> b \<in> set (utf8_point c) \<Longrightarrow> b < 256"
  by (auto simp: utf8_point_def split: if_splits)

lemma utf8_point_ascii_byte: "b \<in> set (utf8_point c) \<Longrightarrow> b < 128 \<Longrightarrow> c = b"
  by (auto simp: utf8_point_def split: if_splits)

lemma utf8_ascii_byte: "b \<in> set (utf8 s) \<Longrightarrow> b < 128 \<Longrightarrow> b \<in> set (code_points s)"
  unfolding utf8_def using utf8_point_ascii_byte by (auto simp: Bex_def)

lemma code_points_small: "c \<in> set (code_points s) \<Longrightarrow> c < 65536 \<Longrightarrow> c \<in> set s"
  by (induction s rule: code_points.induct) (auto split: if_splits)

lemma utf8_ascii_unit: "b \<in> set (utf8 s) \<Longrightarrow> b < 128 \<Longrightarrow> b \<in> set s"
  using code_points_small [OF utf8_ascii_byte, of b s] by simp

text \<open>Encoding distributes over a plain prefix.\<close>

lemma utf8_Cons_plain: "\<not> is_hi u \<Longrightarrow> utf8 (u # s) = utf8_point u @ utf8 s"
  by (simp add: utf8_def code_points_Cons_plain)

lemma utf8_append_ascii: "\<forall>u\<in>set p. u < 128 \<Longrightarrow> utf8 (p @ s) = p @ utf8 s"
  by (induction p) (auto simp: utf8_Cons_plain utf8_point_def is_surrogate_def is_hi_def is_lo_def)

lemma code_points_snoc_plain: "\<not> is_lo u \<Longrightarrow> code_points (s @ [u]) = code_points s @ [u]"
proof (induction s rule: code_points.induct)
  case (3 u v s)
  then show ?case by (cases s) auto
qed auto

lemma utf8_snoc_ascii: "u < 128 \<Longrightarrow> utf8 (s @ [u]) = utf8 s @ [u]"
  by (simp add: utf8_def code_points_snoc_plain is_lo_def utf8_point_def is_surrogate_def is_hi_def)

lemma well_formed_ascii_append: "\<forall>u\<in>set p. u < 128 \<Longrightarrow> well_formed (p @ s) = well_formed s"
  by (induction p) (auto simp: well_formed_Cons_plain is_surrogate_def is_hi_def is_lo_def)

lemma byte_length_append: "well_formed a \<Longrightarrow> byte_length (a @ b) = byte_length a + byte_length b"
  by (simp add: byte_length_def utf8_def code_points_append)

lemma byte_length_ascii_append: "\<forall>u\<in>set p. u < 128 \<Longrightarrow> byte_length (p @ s) = length p + byte_length s"
  by (simp add: byte_length_def utf8_append_ascii)

section \<open>Numerals\<close>

fun radix_digits :: "nat \<Rightarrow> nat \<Rightarrow> jsstr" where
  "radix_digits r n = (if r < 2 then [] else if n < r then [48 + n]
     else radix_digits r (n div r) @ [48 + n mod r])"

declare radix_digits.simps [simp del]

definition dec :: "nat \<Rightarrow> jsstr" where
  "dec n = radix_digits 10 n"

definition oct :: "nat \<Rightarrow> jsstr" where
  "oct n = radix_digits 8 n"

definition radix_value :: "nat \<Rightarrow> jsstr \<Rightarrow> nat" where
  "radix_value r s = foldl (\<lambda>n d. n * r + (d - 48)) 0 s"

definition pad_start :: "nat \<Rightarrow> nat \<Rightarrow> jsstr \<Rightarrow> jsstr" where
  "pad_start n c s = replicate (n - length s) c @ s"

lemma radix_digits_chars: "2 \<le> r \<Longrightarrow> d \<in> set (radix_digits r n) \<Longrightarrow> 48 \<le> d \<and> d < 48 + r"
proof (induction r n rule: radix_digits.induct)
  case (1 r n)
  have "n mod r < r" using 1 by simp
  with 1 show ?case
    by (subst (asm) radix_digits.simps) (auto split: if_splits)
qed

lemma radix_digits_not_Nil: "2 \<le> r \<Longrightarrow> radix_digits r n \<noteq> []"
  by (subst radix_digits.simps) auto

lemma radix_value_snoc: "radix_value r (s @ [d]) = radix_value r s * r + (d - 48)"
  by (simp add: radix_value_def)

lemma radix_roundtrip: "2 \<le> r \<Longrightarrow> radix_value r (radix_digits r n) = n"
proof (induction r n rule: radix_digits.induct)
  case (1 r n)
  show ?case
  proof (cases "n < r")
    case True
    with 1 show ?thesis by (subst radix_digits.simps) (simp add: radix_value_def)
  next
    case False
    with 1 show ?thesis
      by (subst radix_digits.simps) (simp add: radix_value_snoc)
  qed
qed

lemma radix_value_zeros: "radix_value r (replicate k 48 @ s) = radix_value r s"
  by (induction k) (auto simp: radix_value_def)

lemma radix_digits_length: "2 \<le> r \<Longrightarrow> n < r ^ k \<Longrightarrow> 0 < k \<Longrightarrow> length (radix_digits r n) \<le> k"
proof (induction k arbitrary: n)
  case (Suc k)
  show ?case
  proof (cases "n < r")
    case True
    then show ?thesis using Suc by (subst radix_digits.simps) auto
  next
    case False
    then have "k > 0" using Suc.prems by (cases k) auto
    have "n div r < r ^ k"
      using Suc.prems by (simp add: less_mult_imp_div_less mult.commute)
    then have "length (radix_digits r (n div r)) \<le> k" using Suc \<open>k > 0\<close> by blast
    then show ?thesis using False Suc.prems by (subst radix_digits.simps) auto
  qed
qed simp

lemma dec_digits: "d \<in> set (dec n) \<Longrightarrow> is_digit d"
  using radix_digits_chars [of 10 d n] by (auto simp: dec_def is_digit_def)

lemma dec_not_Nil [simp]: "dec n \<noteq> []"
  by (simp add: dec_def radix_digits_not_Nil)

lemma dec_roundtrip [simp]: "radix_value 10 (dec n) = n"
  by (simp add: dec_def radix_roundtrip)

lemma oct_pad_roundtrip [simp]: "radix_value 8 (pad_start k 48 (oct n)) = n"
  by (simp add: oct_def pad_start_def radix_value_zeros radix_roundtrip)

text \<open>\<open>Number.MAX_SAFE_INTEGER\<close>.  A double converted from a longer digit string is at
  least \<open>2 ^ 53\<close> exactly when the integer is, so the safe-integer test on the exact
  value is the program's test on the rounded one.\<close>

definition MAX_SAFE :: int where
  "MAX_SAFE = 9007199254740991"

end
