(* ===== verification/JsValue.thy ===== *)
theory JsValue
  imports JsString
begin

text \<open>
  Untyped JavaScript values, for the functions that check what they are given.
  \<open>JNum n\<close> is a number with an integral value, \<open>JFloat\<close> any other number (a
  fraction, an infinity or NaN): the code only ever tests such a number and rejects it.
  An object is the list of its own enumerable properties in insertion order; its
  prototype is a component of its own because one caller looks at it.
\<close>

datatype proto = ObjectProto | NullProto | OtherProto

datatype jsval = JUndef | JNull | JBool bool | JNum int | JFloat | JStr jsstr
  | JArr "jsval list" | JObj proto "(jsstr \<times> jsval) list"

definition is_safe_integer :: "jsval \<Rightarrow> bool" where
  "is_safe_integer v = (case v of JNum n \<Rightarrow> \<bar>n\<bar> \<le> MAX_SAFE | _ \<Rightarrow> False)"

definition nullish :: "jsval \<Rightarrow> bool" where
  "nullish v = (v = JUndef \<or> v = JNull)"

text \<open>Property access \<open>o.k\<close> on an object (\<open>JUndef\<close> when the property is missing).\<close>

definition getProp :: "jsval \<Rightarrow> jsstr \<Rightarrow> jsval" where
  "getProp v k = (case v of JObj _ ps \<Rightarrow> (case map_of ps k of Some x \<Rightarrow> x | None \<Rightarrow> JUndef) | _ \<Rightarrow> JUndef)"

definition in_range :: "jsval \<Rightarrow> int \<Rightarrow> int \<Rightarrow> bool" where
  "in_range v lo hi = (case v of JNum n \<Rightarrow> \<bar>n\<bar> \<le> MAX_SAFE \<and> lo \<le> n \<and> n \<le> hi | _ \<Rightarrow> False)"

lemma in_range_iff: "in_range v lo hi \<longleftrightarrow> (\<exists>n. v = JNum n \<and> \<bar>n\<bar> \<le> MAX_SAFE \<and> lo \<le> n \<and> n \<le> hi)"
  by (auto simp: in_range_def split: jsval.splits)

lemma is_safe_integer_iff: "is_safe_integer v \<longleftrightarrow> (\<exists>n. v = JNum n \<and> \<bar>n\<bar> \<le> MAX_SAFE)"
  by (auto simp: is_safe_integer_def split: jsval.splits)

end
