(* ===== verification/ScpCommand.thy ===== *)
theory ScpCommand
  imports JsValue
begin

text \<open>
  \<^verbatim>\<open>electron/scp/command-parser.js\<close>: the tokenizer of the remote command line
  (\<open>tokenize\<close>), the test of the executable (\<open>is_scp_executable\<close>), the recognition of
  the command's first word (\<open>scp_prefix\<close>) and \<open>parse_scp_command\<close>.
\<close>

definition MAX_COMMAND_BYTES :: nat where
  "MAX_COMMAND_BYTES = 32 * 1024"

section \<open>The tokenizer\<close>

text \<open>A word is paired with its glob pattern: the same text with every character that was
  quoted or escaped protected from globbing.\<close>

record tok =
  words :: "(jsstr \<times> jsstr) list"
  word :: jsstr
  globPattern :: jsstr
  started :: bool
  quote :: "nat option"

definition tok_init :: tok where
  "tok_init = \<lparr>words = [], word = [], globPattern = [], started = False, quote = None\<rparr>"

definition glob_char :: "nat \<Rightarrow> bool \<Rightarrow> jsstr" where
  "glob_char c literal =
     (if c = 92 \<or> literal \<and> c \<in> set (js ''*?[]'') then [92, c] else [c])"

definition tok_append :: "nat \<Rightarrow> bool \<Rightarrow> tok \<Rightarrow> tok" where
  "tok_append c literal t =
     t\<lparr>word := word t @ [c], globPattern := globPattern t @ glob_char c literal\<rparr>"

definition tok_finish :: "tok \<Rightarrow> tok" where
  "tok_finish t =
     t\<lparr>words := (if started t then words t @ [(word t, globPattern t)] else words t),
       word := [], globPattern := [], started := False\<rparr>"

text \<open>One iteration of the loop.  A backslash outside single quotes takes the next character
  with it; \<open>tok_escape\<close> is that branch and \<open>tok_step\<close> all the others.\<close>

definition tok_escape :: "nat \<Rightarrow> tok \<Rightarrow> tok" where
  "tok_escape n t =
     (tok_append n True
       (if quote t = Some 34 \<and> n \<notin> {36, 96, 34, 92} then tok_append 92 True t else t))
     \<lparr>started := True\<rparr>"

definition tok_step :: "nat \<Rightarrow> tok \<Rightarrow> string + tok" where
  "tok_step c t =
     (if quote t = Some 39 then
        (if c = 39 then Inr (t\<lparr>quote := None\<rparr>) else Inr (tok_append c True t))
      else if quote t = Some 34 then
        (if c = 34 then Inr (t\<lparr>quote := None\<rparr>)
         else if c = 36 \<or> c = 96 then Inl ''Shell expansion is not supported''
         else Inr (tok_append c True t))
      else if c = 32 \<or> c = 9 then Inr (tok_finish t)
      else if c = 39 \<or> c = 34 then Inr (t\<lparr>quote := Some c, started := True\<rparr>)
      else if c \<in> set (js '';&|<>(){}$`'') \<or> c = 126 \<and> \<not> started t \<or> c = 35 \<and> \<not> started t then
        Inl ''Shell operators and expansion are not supported''
      else Inr ((tok_append c False t)\<lparr>started := True\<rparr>))"

fun tok_run :: "jsstr \<Rightarrow> tok \<Rightarrow> string + tok" where
  "tok_run [] t = Inr t"
| "tok_run (c # cs) t =
     (if c = 92 \<and> quote t \<noteq> Some 39 then
        (case cs of
           [] \<Rightarrow> Inl ''Unterminated escape''
         | n # r \<Rightarrow> tok_run r (tok_escape n t))
      else bindR (tok_step c t) (tok_run cs))"

definition tokenize :: "jsstr \<Rightarrow> string + (jsstr \<times> jsstr) list" where
  "tokenize command =
     bindR (tok_run command tok_init) (\<lambda>t.
       if quote t \<noteq> None then Inl ''Unterminated quote'' else Inr (words (tok_finish t)))"

section \<open>Recognising the executable\<close>

text \<open>\<open>/^\/(?:[^/]+\/)*scp$/u\<close>: an absolute path whose last component is \<open>scp\<close>.\<close>

definition is_scp_executable :: "jsstr \<Rightarrow> bool" where
  "is_scp_executable v \<longleftrightarrow> v = js ''scp'' \<or>
     (case split_on 47 v of
        p # q # ps \<Rightarrow> p = [] \<and> last (q # ps) = js ''scp'' \<and> [] \<notin> set (butlast (q # ps))
      | _ \<Rightarrow> False)"

text \<open>The longest match of \<open>(?:[^\s'"\\;|&<>]|\\.|'[^']*'|"[^"]*")*\<close> at the start.\<close>

function word_span :: "jsstr \<Rightarrow> jsstr" where
  "word_span [] = []"
| "word_span (c # cs) =
     (if c = 92 then
        (case cs of [] \<Rightarrow> [] | n # r \<Rightarrow> if is_line_end n then [] else c # n # word_span r)
      else if c = 39 \<or> c = 34 then
        (if c \<in> set cs then
           c # takeWhile (\<lambda>d. d \<noteq> c) cs @ [c] @ word_span (tl (dropWhile (\<lambda>d. d \<noteq> c) cs))
         else [])
      else if is_space c \<or> c \<in> set (js '';|&<>'') then []
      else c # word_span cs)"
  by pat_completeness auto
termination
  by (relation "measure length")
     (auto simp: dropWhile_eq_drop intro: le_less_trans [OF diff_le_self])

definition scp_prefix :: "jsstr \<Rightarrow> jsstr option" where
  "scp_prefix command =
     (let p = word_span (dropWhile is_space command) in if p = [] then None else Some p)"

definition recognized :: "jsstr \<Rightarrow> bool" where
  "recognized command =
     (case scp_prefix command of
        None \<Rightarrow> False
      | Some p \<Rightarrow> (case tokenize p of Inr (w # _) \<Rightarrow> is_scp_executable (fst w) | _ \<Rightarrow> False))"

section \<open>Options and operands\<close>

datatype direction = Source | Sink

record scp_command =
  direction :: direction
  path :: jsstr
  recursive :: bool
  preserve :: bool
  targetDirectory :: bool
  glob_pattern :: "jsstr option"

datatype scp_parse = Invalid string | Parsed scp_command

record scp_options =
  o_direction :: "direction option"
  o_recursive :: bool
  o_preserve :: bool
  o_targetDirectory :: bool
  o_options :: bool
  o_paths :: "(jsstr \<times> jsstr) list"

definition options_init :: scp_options where
  "options_init = \<lparr>o_direction = None, o_recursive = False, o_preserve = False,
     o_targetDirectory = False, o_options = True, o_paths = []\<rparr>"

fun scan_flags :: "nat list \<Rightarrow> scp_options \<Rightarrow> string + scp_options" where
  "scan_flags [] st = Inr st"
| "scan_flags (flag # fs) st =
     (if flag = 102 \<or> flag = 116 then
        (let next = (if flag = 102 then Source else Sink) in
         if o_direction st \<noteq> None \<and> o_direction st \<noteq> Some next then Inl ''Conflicting SCP directions''
         else scan_flags fs (st\<lparr>o_direction := Some next\<rparr>))
      else if flag = 114 then scan_flags fs (st\<lparr>o_recursive := True\<rparr>)
      else if flag = 112 then scan_flags fs (st\<lparr>o_preserve := True\<rparr>)
      else if flag = 100 then scan_flags fs (st\<lparr>o_targetDirectory := True\<rparr>)
      else if flag \<noteq> 118 \<and> flag \<noteq> 113 then Inl ''Unsupported SCP option''
      else scan_flags fs st)"

fun scan_words :: "(jsstr \<times> jsstr) list \<Rightarrow> scp_options \<Rightarrow> string + scp_options" where
  "scan_words [] st = Inr st"
| "scan_words (token # ts) st =
     (if o_options st \<and> fst token = js ''--'' then scan_words ts (st\<lparr>o_options := False\<rparr>)
      else if o_options st \<and> starts_with (fst token) (js ''-'') \<and> fst token \<noteq> js ''-'' then
        bindR (scan_flags (code_points (tl (fst token))) st) (scan_words ts)
      else scan_words ts (st\<lparr>o_options := False, o_paths := o_paths st @ [token]\<rparr>))"

text \<open>\<open>/^[^/]*:/u\<close> and \<open>/^scp:\/\//iu\<close> (under \<open>iu\<close> an s also matches U+017F).\<close>

definition remote_spec :: "jsstr \<Rightarrow> bool" where
  "remote_spec p \<longleftrightarrow> 58 \<in> set (takeWhile (\<lambda>u. u \<noteq> 47) p) \<or>
     (case p of s # c # q # r \<Rightarrow>
        s \<in> {83, 115, 383} \<and> c \<in> {67, 99} \<and> q \<in> {80, 112} \<and> starts_with r (js ''://'')
      | _ \<Rightarrow> False)"

definition parse_words :: "(jsstr \<times> jsstr) list \<Rightarrow> scp_parse" where
  "parse_words ws =
     (case scan_words (tl ws) options_init of
        Inl e \<Rightarrow> Invalid e
      | Inr st \<Rightarrow>
          (case o_direction st of
             None \<Rightarrow> Invalid ''SCP requires exactly one remote direction''
           | Some d \<Rightarrow>
               (case o_paths st of
                  [(p, g)] \<Rightarrow>
                    if p = [] then Invalid ''SCP requires exactly one nonempty path''
                    else if has_control p then Invalid ''Invalid path characters''
                    else if remote_spec p then Invalid ''Remote-to-remote SCP is not supported''
                    else Parsed \<lparr>direction = d, path = p, recursive = o_recursive st,
                           preserve = o_preserve st, targetDirectory = o_targetDirectory st,
                           glob_pattern = (if d = Source then Some g else None)\<rparr>
                | _ \<Rightarrow> Invalid ''SCP requires exactly one nonempty path'')))"

definition parse_scp_command :: "jsval \<Rightarrow> scp_parse option" where
  "parse_scp_command v =
     (case v of
        JStr command \<Rightarrow>
          if \<not> recognized command then None
          else if byte_length command > MAX_COMMAND_BYTES then
            Some (Invalid ''SCP command exceeds the size limit'')
          else if has_control (filter (\<lambda>u. u \<noteq> 9) command) \<or> \<not> well_formed command then
            Some (Invalid ''Invalid command characters'')
          else (case tokenize command of
             Inl e \<Rightarrow> Some (Invalid e)
           | Inr ws \<Rightarrow>
               (case ws of
                  [] \<Rightarrow> None
                | w # _ \<Rightarrow> if is_scp_executable (fst w) then Some (parse_words ws) else None))
      | _ \<Rightarrow> None)"

section \<open>The tokenizer on prefixes\<close>

lemma tok_run_append: "tok_run p t = Inr t' \<Longrightarrow> tok_run (p @ r) t = tok_run r t'"
proof (induction p t rule: tok_run.induct)
  case (2 c cs t)
  show ?case
  proof (cases "c = 92 \<and> quote t \<noteq> Some 39")
    case True
    then obtain n q where "cs = n # q" using "2.prems" by (cases cs) auto
    with True 2 show ?thesis by simp
  next
    case False
    then obtain u where u: "tok_step c t = Inr u" "tok_run cs u = Inr t'" using "2.prems" by auto
    then show ?thesis using "2.IH"(2) [OF False u] False by auto
  qed
qed simp

lemma append_fields [simp]: "words (tok_append c b t) = words t" "quote (tok_append c b t) = quote t"
  "started (tok_append c b t) = started t"
  by (simp_all add: tok_append_def)

lemma finish_fields [simp]: "quote (tok_finish t) = quote t" "started (tok_finish t) = False"
  by (simp_all add: tok_finish_def)

lemma escape_fields [simp]: "words (tok_escape n t) = words t" "quote (tok_escape n t) = quote t"
  "started (tok_escape n t)"
  by (simp_all add: tok_escape_def)

lemma words_finish: "\<exists>ws. words (tok_finish t) = words t @ ws"
  by (simp add: tok_finish_def)

lemma tok_step_words: "tok_step c t = Inr t' \<Longrightarrow> \<exists>ws. words t' = words t @ ws"
  using words_finish [of t] by (auto simp: tok_step_def split: if_splits)

lemma tok_run_words: "tok_run s t = Inr t' \<Longrightarrow> \<exists>ws. words t' = words t @ ws"
proof (induction s t rule: tok_run.induct)
  case (2 c cs t)
  show ?case
  proof (cases "c = 92 \<and> quote t \<noteq> Some 39")
    case True
    then obtain n q where "cs = n # q" using "2.prems" by (cases cs) auto
    with True 2 show ?thesis by auto
  next
    case False
    then obtain u where u: "tok_step c t = Inr u" "tok_run cs u = Inr t'" using "2.prems" by auto
    then show ?thesis using "2.IH"(2) [OF False u] tok_step_words [OF u(1)] by auto
  qed
qed simp

lemma tok_step_quoted:
  "quote t = Some q \<Longrightarrow> q = 39 \<or> q = 34 \<Longrightarrow> c \<noteq> q \<Longrightarrow> tok_step c t = Inr t' \<Longrightarrow> quote t' = Some q"
  by (auto simp: tok_step_def split: if_splits)

lemma open_quote:
  "quote t = Some q \<Longrightarrow> q = 39 \<or> q = 34 \<Longrightarrow> q \<notin> set s \<Longrightarrow> tok_run s t = Inr t' \<Longrightarrow>
   quote t' = Some q"
proof (induction s t rule: tok_run.induct)
  case (2 c cs t)
  show ?case
  proof (cases "c = 92 \<and> quote t \<noteq> Some 39")
    case True
    then obtain n r where "cs = n # r" using 2 by (cases cs) auto
    with True 2 show ?thesis by auto
  next
    case False
    then obtain u where "tok_step c t = Inr u" "tok_run cs u = Inr t'" using 2 by auto
    with False 2 show ?thesis using tok_step_quoted [of t q c u] by auto
  qed
qed simp

definition span_stop :: "jsstr \<Rightarrow> bool" where
  "span_stop r = (case r of
     [] \<Rightarrow> True
   | c # cs \<Rightarrow> is_space c \<or> c \<in> set (js '';|&<>'')
       \<or> c = 92 \<and> (cs = [] \<or> is_line_end (hd cs))
       \<or> (c = 39 \<or> c = 34) \<and> c \<notin> set cs)"

lemma word_span_rest: "\<exists>r. s = word_span s @ r \<and> span_stop r"
proof (induction s rule: word_span.induct)
  case 1
  then show ?case by (simp add: span_stop_def)
next
  case (2 c cs)
  consider (esc) "c = 92" | (quo) "c = 39 \<or> c = 34"
    | (stop) "c \<noteq> 92" "c \<noteq> 39" "c \<noteq> 34" "is_space c \<or> c \<in> set (js '';|&<>'')"
    | (plain) "c \<noteq> 92" "c \<noteq> 39" "c \<noteq> 34" "\<not> (is_space c \<or> c \<in> set (js '';|&<>''))"
    by blast
  then show ?case
  proof cases
    case esc
    with 2 show ?thesis by (cases cs) (auto simp: span_stop_def)
  next
    case quo
    show ?thesis
    proof (cases "c \<in> set cs")
      case True
      then have "cs = takeWhile (\<lambda>d. d \<noteq> c) cs @ c # tl (dropWhile (\<lambda>d. d \<noteq> c) cs)"
        by (metis (mono_tags, lifting) dropWhile_eq_Nil_conv hd_Cons_tl hd_dropWhile takeWhile_dropWhile_id)
      moreover obtain r where
        "tl (dropWhile (\<lambda>d. d \<noteq> c) cs) = word_span (tl (dropWhile (\<lambda>d. d \<noteq> c) cs)) @ r" "span_stop r"
        using "2.IH"(2) quo True by auto
      ultimately show ?thesis
        using quo True by (intro exI [of _ r]) auto
    next
      case False
      with quo show ?thesis by (auto simp: span_stop_def)
    qed
  next
    case stop
    then show ?thesis by (auto simp: span_stop_def)
  next
    case plain
    with 2 show ?thesis by (auto simp: span_stop_def)
  qed
qed

lemma tok_run_spaces:
  "\<forall>u\<in>set sp. u = 32 \<or> u = 9 \<Longrightarrow> tok_run (sp @ s) tok_init = tok_run s tok_init"
  by (induction sp) (auto simp: tok_init_def tok_step_def tok_finish_def)

lemma dropWhile_split: "\<exists>sp. s = sp @ dropWhile P s \<and> (\<forall>u\<in>set sp. P u)"
  by (metis takeWhile_dropWhile_id set_takeWhileD)

text \<open>Where the executable's match stops, a tokenizer outside quotes either ends the word or
  fails.\<close>

lemma tok_run_stop:
  assumes stop: "span_stop r" and q: "quote t = None" and run: "tok_run r t = Inr t'"
    and closed: "quote t' = None"
    and sp: "\<forall>u\<in>set r. is_space u \<longrightarrow> u = 32 \<or> u = 9" and le: "\<forall>u\<in>set r. \<not> is_line_end u"
  shows "\<exists>ws. words (tok_finish t') = words (tok_finish t) @ ws"
proof (cases r)
  case Nil
  then show ?thesis using run by simp
next
  case (Cons c cs)
  consider "is_space c" | "c \<in> set (js '';|&<>'')" | "c = 92" "cs = []"
    | "c = 39 \<or> c = 34" "c \<notin> set cs"
    using stop le by (cases cs) (auto simp: span_stop_def Cons)
  then show ?thesis
  proof cases
    case 1
    then have "tok_step c t = Inr (tok_finish t)" "c \<noteq> 92" using sp q Cons by (auto simp: tok_step_def)
    then have "tok_run cs (tok_finish t) = Inr t'" using run Cons by simp
    then show ?thesis using tok_run_words words_finish by (metis append_assoc)
  next
    case 2
    then show ?thesis using run q Cons by (auto simp: tok_step_def)
  next
    case 3
    then show ?thesis using run q Cons by simp
  next
    case 4
    then have "tok_run cs (t\<lparr>quote := Some c, started := True\<rparr>) = Inr t'"
      using run q Cons by (auto simp: tok_step_def split: if_splits)
    from open_quote [OF _ 4(1) 4(2) this] closed show ?thesis by simp
  qed
qed

text \<open>Claim C9: a command whose executable is recognised as scp is always answered by this
  parser.  It is parsed or refused as invalid and never returned as \<open>null\<close>, which would
  hand it to the general-purpose exec bridge.  The one condition is that the white space of
  the command is ASCII.\<close>

theorem scp_never_falls_through:
  assumes rec: "recognized command" and ascii: "\<forall>u\<in>set command. is_space u \<longrightarrow> u < 128"
  shows "parse_scp_command (JStr command) \<noteq> None"
proof (cases "has_control (filter (\<lambda>u. u \<noteq> 9) command) \<or> (\<exists>e. tokenize command = Inl e)")
  case True
  then show ?thesis using rec by (auto simp: parse_scp_command_def)
next
  case False
  then obtain ws where ws: "tokenize command = Inr ws" by (cases "tokenize command") auto
  have sp: "u = 32 \<or> u = 9" if "u \<in> set command" "is_space u" for u
    using False ascii that by (auto simp: has_control_iff is_control_def is_space_def)
  have le: "\<not> is_line_end u" if "u \<in> set command" for u
    using sp [OF that] by (auto simp: is_line_end_def is_space_def)
  obtain p w vs where p: "scp_prefix command = Some p" "tokenize p = Inr (w # vs)"
    and exec: "is_scp_executable (fst w)"
    using rec by (auto simp: recognized_def split: option.splits sum.splits list.splits)
  obtain blank where blank: "command = blank @ dropWhile is_space command" "\<forall>u\<in>set blank. is_space u"
    using dropWhile_split [of command is_space] by blast
  obtain r where r: "dropWhile is_space command = p @ r" "span_stop r"
    using p word_span_rest [of "dropWhile is_space command"]
    by (auto simp: scp_prefix_def Let_def split: if_splits)
  have in_command: "u \<in> set command" if "u \<in> set blank \<or> u \<in> set r" for u
    using that blank r by (metis Un_iff set_append)
  obtain t where t: "tok_run p tok_init = Inr t" "quote t = None" "words (tok_finish t) = w # vs"
    using p(2) by (auto simp: tokenize_def split: if_splits)
  have "tok_run command tok_init = tok_run (p @ r) tok_init"
    using blank r sp in_command tok_run_spaces [of blank "p @ r"] by metis
  also have "\<dots> = tok_run r t" using t(1) by (rule tok_run_append)
  finally obtain t' where t': "tok_run r t = Inr t'" "quote t' = None" "ws = words (tok_finish t')"
    using ws by (auto simp: tokenize_def split: if_splits)
  obtain us where "ws = (w # vs) @ us"
    using tok_run_stop [OF r(2) t(2) t'(1,2)] sp le in_command t t'(3) by metis
  then show ?thesis using rec ws exec by (auto simp: parse_scp_command_def)
qed

lemma scp_never_falls_through_witness:
  "parse_scp_command (JStr (js ''/usr/bin/scp -Z'')) \<noteq> None"
proof (rule scp_never_falls_through)
  show "recognized (js ''/usr/bin/scp -Z'')" by code_simp
  show "\<forall>u\<in>set (js ''/usr/bin/scp -Z''). is_space u \<longrightarrow> u < 128" by code_simp
qed

lemma direction_cases: "d \<noteq> Source \<longleftrightarrow> d = Sink"
  by (cases d) auto

lemma parse_words_Parsed:
  assumes "parse_words ws = Parsed r"
  shows "path r \<noteq> [] \<and> \<not> has_control (path r) \<and> \<not> remote_spec (path r)
    \<and> (glob_pattern r = None \<longleftrightarrow> direction r = Sink)"
  using assms
  by (auto simp: parse_words_def direction_cases split: sum.splits option.splits list.splits if_splits)

lemma not_remote_spec: "\<not> remote_spec p \<Longrightarrow> 58 \<notin> set (takeWhile (\<lambda>u. u \<noteq> 47) p)"
  by (simp add: remote_spec_def)

text \<open>An accepted command names one nonempty path without control characters that
  is no remote specification (no colon before the first slash), its glob pattern is present
  exactly for downloads, and the whole command was within the size limit.\<close>

theorem scp_accepted_path:
  assumes "parse_scp_command v = Some (Parsed r)"
  shows "path r \<noteq> [] \<and> \<not> has_control (path r) \<and> 58 \<notin> set (takeWhile (\<lambda>u. u \<noteq> 47) (path r))
    \<and> (glob_pattern r = None \<longleftrightarrow> direction r = Sink)
    \<and> (\<exists>command. v = JStr command \<and> byte_length command \<le> 32768)"
proof -
  from assms obtain command ws where c: "v = JStr command" "byte_length command \<le> 32768"
      "parse_words ws = Parsed r"
    by (auto simp: parse_scp_command_def MAX_COMMAND_BYTES_def
        split: jsval.splits if_splits sum.splits list.splits)
  then show ?thesis using parse_words_Parsed [OF c(3)] not_remote_spec by auto
qed

definition parsed :: "scp_parse option \<Rightarrow> bool" where
  "parsed v = (case v of Some (Parsed r) \<Rightarrow> True | _ \<Rightarrow> False)"

lemma parsedE: "parsed v \<Longrightarrow> (\<And>r. v = Some (Parsed r) \<Longrightarrow> P) \<Longrightarrow> P"
  by (auto simp: parsed_def split: option.splits scp_parse.splits)

lemma scp_accepted_path_witness:
  "\<exists>r. parse_scp_command (JStr (js ''scp -r -f -- /tmp/x'')) = Some (Parsed r) \<and> path r \<noteq> []
     \<and> (glob_pattern r = None \<longleftrightarrow> direction r = Sink)"
proof -
  have "parsed (parse_scp_command (JStr (js ''scp -r -f -- /tmp/x'')))" by code_simp
  then obtain r where r: "parse_scp_command (JStr (js ''scp -r -f -- /tmp/x'')) = Some (Parsed r)"
    by (rule parsedE)
  from scp_accepted_path [OF r] r show ?thesis by metis
qed

end
