(* ===== verification/ScpGlob.thy ===== *)
theory ScpGlob
  imports JsValue
begin

text \<open>
  \<^verbatim>\<open>electron/scp/glob.js\<close>: the pattern parser (\<open>parse_pattern\<close>), the bounds of the
  matcher (\<open>options_with_limits\<close>) and its dynamic program (\<open>glob_row\<close>, \<open>glob_test\<close>).
  Characters are code points.  \<open>glob_language\<close> is the declarative meaning of a token
  list; the matcher is proved to decide it.
\<close>

section \<open>Limits\<close>

record glob_limits =
  maxPatternLength :: nat
  maxTokens :: nat
  maxNameLength :: nat

definition DEFAULT_GLOB_LIMITS :: glob_limits where
  "DEFAULT_GLOB_LIMITS = \<lparr>maxPatternLength = 4096, maxTokens = 256, maxNameLength = 4096\<rparr>"

text \<open>One key of the loop of \<open>optionsWithLimits\<close>: the caller's value, when there is one,
  replaces the default and must be an integer between 1 and the default.\<close>

definition glob_limit :: "jsval option \<Rightarrow> nat \<Rightarrow> string + nat" where
  "glob_limit v dflt =
     (let x = (case v of None \<Rightarrow> JNum (int dflt) | Some y \<Rightarrow> y) in
      if in_range x 1 (int dflt) then (case x of JNum n \<Rightarrow> Inr (nat n) | _ \<Rightarrow> Inl ''Invalid SCP glob limit'')
      else Inl ''Invalid SCP glob limit'')"

record glob_options =
  opt_maxPatternLength :: "jsval option"
  opt_maxTokens :: "jsval option"
  opt_maxNameLength :: "jsval option"

definition no_glob_options :: glob_options where
  "no_glob_options = \<lparr>opt_maxPatternLength = None, opt_maxTokens = None, opt_maxNameLength = None\<rparr>"

definition options_with_limits :: "glob_options \<Rightarrow> string + glob_limits" where
  "options_with_limits opts =
     bindR (glob_limit (opt_maxPatternLength opts) (maxPatternLength DEFAULT_GLOB_LIMITS)) (\<lambda>p.
     bindR (glob_limit (opt_maxTokens opts) (maxTokens DEFAULT_GLOB_LIMITS)) (\<lambda>t.
     bindR (glob_limit (opt_maxNameLength opts) (maxNameLength DEFAULT_GLOB_LIMITS)) (\<lambda>n.
       Inr \<lparr>maxPatternLength = p, maxTokens = t, maxNameLength = n\<rparr>)))"

section \<open>Patterns\<close>

datatype gtoken = Literal nat | Star | AnyChar | Class bool "(nat \<times> nat) list"

text \<open>The members of a class up to its closing bracket, with the mark of an escaped one, and
  the characters after the bracket.\<close>

fun class_members :: "nat list \<Rightarrow> (nat \<times> bool) list \<Rightarrow> string + (nat \<times> bool) list \<times> nat list" where
  "class_members [] ms = Inl ''Unterminated or empty SCP glob class''"
| "class_members (c # cs) ms =
     (if c = 93 then
        (if ms = [] then Inl ''Unterminated or empty SCP glob class'' else Inr (ms, cs))
      else if c = 92 then
        (case cs of
           [] \<Rightarrow> Inl ''Unterminated SCP glob escape''
         | d # r \<Rightarrow> class_members r (ms @ [(d, True)]))
      else class_members cs (ms @ [(c, False)]))"

fun class_ranges :: "(nat \<times> bool) list \<Rightarrow> string + (nat \<times> nat) list" where
  "class_ranges [] = Inr []"
| "class_ranges (m # d # e # ms) =
     (if d = (45, False) then
        (if fst e < fst m then Inl ''Reversed SCP glob range''
         else bindR (class_ranges ms) (\<lambda>rs. Inr ((fst m, fst e) # rs)))
      else bindR (class_ranges (d # e # ms)) (\<lambda>rs. Inr ((fst m, fst m) # rs)))"
| "class_ranges (m # ms) = bindR (class_ranges ms) (\<lambda>rs. Inr ((fst m, fst m) # rs))"

text \<open>After \<open>[\<close>: an optional negation, a \<open>]\<close> that is then a member, the members.\<close>

definition parse_class :: "nat list \<Rightarrow> string + gtoken \<times> nat list" where
  "parse_class cs =
     (let negative = (case cs of c # _ \<Rightarrow> c = 33 \<or> c = 94 | [] \<Rightarrow> False);
          rest = (if negative then tl cs else cs);
          first = (case rest of c # _ \<Rightarrow> c = 93 | [] \<Rightarrow> False)
      in bindR (if first then class_members (tl rest) [(93, False)] else class_members rest [])
           (\<lambda>(ms, r). bindR (class_ranges ms) (\<lambda>rs. Inr (Class negative rs, r))))"

lemma class_members_shorter: "class_members cs ms = Inr (ns, r) \<Longrightarrow> length r < length cs"
  by (induction cs ms rule: class_members.induct) (auto split: if_splits list.splits)

lemma parse_class_shorter: "parse_class cs = Inr (t, r) \<Longrightarrow> length r < length cs"
  unfolding parse_class_def Let_def
  by (auto dest!: class_members_shorter split: if_splits list.splits)

definition limit_tokens :: "glob_limits \<Rightarrow> gtoken list \<Rightarrow> string + gtoken list" where
  "limit_tokens lim ts = (if length ts > maxTokens lim then Inl ''SCP glob is too complex'' else Inr ts)"

function parse_tokens :: "glob_limits \<Rightarrow> nat list \<Rightarrow> gtoken list \<Rightarrow> bool \<Rightarrow> string + gtoken list \<times> bool" where
  "parse_tokens lim [] ts magic = Inr (ts, magic)"
| "parse_tokens lim (c # cs) ts magic =
     (if c = 92 then
        (case cs of
           [] \<Rightarrow> Inl ''Unterminated SCP glob escape''
         | d # r \<Rightarrow> bindR (limit_tokens lim (ts @ [Literal d])) (\<lambda>us. parse_tokens lim r us magic))
      else if c = 42 then
        (if ts \<noteq> [] \<and> last ts = Star then Inl ''Recursive SCP globbing is not supported''
         else bindR (limit_tokens lim (ts @ [Star])) (\<lambda>us. parse_tokens lim cs us True))
      else if c = 63 then
        bindR (limit_tokens lim (ts @ [AnyChar])) (\<lambda>us. parse_tokens lim cs us True)
      else if c = 91 then
        (case parse_class cs of
           Inl e \<Rightarrow> Inl e
         | Inr (t, r) \<Rightarrow> bindR (limit_tokens lim (ts @ [t])) (\<lambda>us. parse_tokens lim r us True))
      else bindR (limit_tokens lim (ts @ [Literal c])) (\<lambda>us. parse_tokens lim cs us magic))"
  by pat_completeness auto
termination
  by (relation "measure (\<lambda>(lim, cs, ts, magic). length cs)")
     (auto dest: parse_class_shorter)

definition parse_pattern :: "jsstr \<Rightarrow> glob_limits \<Rightarrow> string + gtoken list \<times> bool" where
  "parse_pattern pattern lim =
     (if pattern = [] \<or> length pattern > maxPatternLength lim \<or> \<not> well_formed pattern
         \<or> 47 \<in> set pattern \<or> has_control pattern
      then Inl ''Invalid SCP glob pattern''
      else parse_tokens lim (code_points pattern) [] False)"

section \<open>The matcher\<close>

definition token_matches :: "gtoken \<Rightarrow> nat \<Rightarrow> bool" where
  "token_matches t c =
     (case t of
        AnyChar \<Rightarrow> True
      | Literal d \<Rightarrow> d = c
      | Class negative ranges \<Rightarrow>
          (let included = list_ex (\<lambda>(a, b). c \<ge> a \<and> c \<le> b) ranges
           in if negative then \<not> included else included)
      | Star \<Rightarrow> False)"

text \<open>The inner loop fills \<open>next\<close> from left to right out of \<open>previous\<close>; the outer loop
  does so for every token and swaps the two arrays.\<close>

definition glob_cell :: "gtoken \<Rightarrow> nat list \<Rightarrow> bool list \<Rightarrow> bool list \<Rightarrow> nat \<Rightarrow> bool" where
  "glob_cell t chars previous next i =
     (if t = Star then previous ! i \<or> next ! (i - 1)
      else previous ! (i - 1) \<and> token_matches t (chars ! (i - 1)))"

definition glob_row :: "nat list \<Rightarrow> bool list \<Rightarrow> gtoken \<Rightarrow> bool list" where
  "glob_row chars previous t =
     foldl (\<lambda>next i. next[i := glob_cell t chars previous next i])
       ((replicate (length chars + 1) False)[0 := t = Star \<and> previous ! 0])
       [1..<length chars + 1]"

definition glob_run :: "gtoken list \<Rightarrow> nat list \<Rightarrow> bool" where
  "glob_run tokens chars =
     foldl (glob_row chars) ((replicate (length chars + 1) False)[0 := True]) tokens ! length chars"

definition valid_glob_name :: "glob_limits \<Rightarrow> jsstr \<Rightarrow> bool" where
  "valid_glob_name lim name \<longleftrightarrow>
     \<not> (name = [] \<or> length name > maxNameLength lim \<or> \<not> well_formed name \<or> 47 \<in> set name
        \<or> has_control name \<or> name = js ''.'' \<or> name = js ''..'')"

definition glob_test :: "glob_limits \<Rightarrow> gtoken list \<Rightarrow> jsstr \<Rightarrow> bool" where
  "glob_test lim tokens name =
     (if \<not> valid_glob_name lim name then False
      else if starts_with name (js ''.'') \<and> \<not> (tokens \<noteq> [] \<and> hd tokens = Literal 46) then False
      else glob_run tokens (code_points name))"

text \<open>\<open>compileGlob\<close> returns the flag \<open>magic\<close> and the closure \<open>test\<close>: here the flag, the
  tokens and the limits the closure captures.\<close>

record glob_matcher =
  magic :: bool
  tokens :: "gtoken list"
  bounds :: glob_limits

definition compile_glob :: "jsstr \<Rightarrow> glob_options \<Rightarrow> string + glob_matcher" where
  "compile_glob pattern opts =
     bindR (options_with_limits opts) (\<lambda>lim.
     bindR (parse_pattern pattern lim) (\<lambda>(ts, m). Inr \<lparr>magic = m, tokens = ts, bounds = lim\<rparr>))"

definition matcher_test :: "glob_matcher \<Rightarrow> jsstr \<Rightarrow> bool" where
  "matcher_test g name = glob_test (bounds g) (tokens g) name"

definition has_glob_magic :: "jsstr \<Rightarrow> glob_options \<Rightarrow> string + bool" where
  "has_glob_magic pattern opts =
     bindR (options_with_limits opts) (\<lambda>lim.
     bindR (parse_pattern pattern lim) (\<lambda>(ts, m). Inr m))"

definition match_glob :: "jsstr \<Rightarrow> jsstr \<Rightarrow> glob_options \<Rightarrow> string + bool" where
  "match_glob pattern name opts =
     bindR (compile_glob pattern opts) (\<lambda>g. Inr (matcher_test g name))"

section \<open>The declarative meaning of a pattern\<close>

text \<open>A name is in the language of a token list when it can be cut into one piece per token:
  any piece for a star, one matching character for every other token.\<close>

definition token_language :: "gtoken \<Rightarrow> nat list \<Rightarrow> bool" where
  "token_language t p \<longleftrightarrow> t = Star \<or> (\<exists>c. p = [c] \<and> token_matches t c)"

definition glob_language :: "gtoken list \<Rightarrow> nat list \<Rightarrow> bool" where
  "glob_language ts cs \<longleftrightarrow> (\<exists>ps. cs = concat ps \<and> list_all2 token_language ts ps)"

lemma glob_language_Nil [simp]: "glob_language [] cs \<longleftrightarrow> cs = []"
  by (auto simp: glob_language_def)

lemma glob_language_snoc:
  "glob_language (ts @ [t]) cs \<longleftrightarrow>
     (\<exists>as p. cs = as @ p \<and> glob_language ts as \<and> token_language t p)"
proof
  assume "glob_language (ts @ [t]) cs"
  then show "\<exists>as p. cs = as @ p \<and> glob_language ts as \<and> token_language t p"
    unfolding glob_language_def by (auto simp: list_all2_append1 list_all2_Cons1) blast
next
  assume "\<exists>as p. cs = as @ p \<and> glob_language ts as \<and> token_language t p"
  then obtain qs p where "cs = concat qs @ p" "list_all2 token_language ts qs" "token_language t p"
    unfolding glob_language_def by auto
  then show "glob_language (ts @ [t]) cs"
    unfolding glob_language_def by (intro exI [of _ "qs @ [p]"]) (auto simp: list_all2_appendI)
qed

section \<open>The dynamic program decides the language\<close>

definition row_spec :: "nat list \<Rightarrow> bool list \<Rightarrow> gtoken \<Rightarrow> nat \<Rightarrow> bool" where
  "row_spec chars previous t i =
     (if t = Star then \<exists>j\<le>i. previous ! j
      else 0 < i \<and> previous ! (i - 1) \<and> token_matches t (chars ! (i - 1)))"

lemma row_spec_0: "row_spec chars previous t 0 \<longleftrightarrow> t = Star \<and> previous ! 0"
  by (simp add: row_spec_def)

lemma row_spec_Suc: "row_spec chars previous t (Suc i) \<longleftrightarrow>
    (if t = Star then previous ! Suc i \<or> row_spec chars previous t i
     else previous ! i \<and> token_matches t (chars ! i))"
  by (auto simp: row_spec_def le_Suc_eq)

lemma glob_cell_Suc:
  "next ! k = row_spec chars previous t k \<Longrightarrow>
   glob_cell t chars previous next (Suc k) = row_spec chars previous t (Suc k)"
  by (simp add: glob_cell_def row_spec_Suc)

lemma glob_row_partial:
  fixes t :: gtoken and previous :: "bool list" and chars :: "nat list"
  assumes "k \<le> n"
  defines "init \<equiv> (replicate (n + 1) False)[0 := t = Star \<and> previous ! 0]"
  defines "row \<equiv> foldl (\<lambda>next i. next[i := glob_cell t chars previous next i]) init [1..<k + 1]"
  shows "length row = n + 1 \<and> (\<forall>i\<le>n. row ! i = (i \<le> k \<and> row_spec chars previous t i))"
  using assms(1) unfolding row_def
proof (induction k)
  case 0
  then show ?case
    by (auto simp: init_def row_spec_0 nth_list_update simp del: replicate_Suc)
next
  case (Suc k)
  let ?r = "foldl (\<lambda>next i. next[i := glob_cell t chars previous next i]) init [1..<k + 1]"
  have IH: "length ?r = n + 1" "\<And>i. i \<le> n \<Longrightarrow> ?r ! i = (i \<le> k \<and> row_spec chars previous t i)"
    using Suc by auto
  have "glob_cell t chars previous ?r (Suc k) = row_spec chars previous t (Suc k)"
    by (rule glob_cell_Suc) (use IH(2) [of k] Suc.prems in simp)
  moreover have "[1..<Suc k + 1] = [1..<k + 1] @ [Suc k]" by simp
  ultimately have "foldl (\<lambda>next i. next[i := glob_cell t chars previous next i]) init [1..<Suc k + 1]
      = ?r[Suc k := row_spec chars previous t (Suc k)]"
    by (simp only: foldl_append foldl.simps)
  then show ?case
    using IH Suc.prems by (auto simp: nth_list_update le_Suc_eq)
qed

lemma glob_row_spec:
  "length (glob_row chars previous t) = length chars + 1"
  "i \<le> length chars \<Longrightarrow> glob_row chars previous t ! i = row_spec chars previous t i"
  using glob_row_partial [where k = "length chars" and n = "length chars" and t = t
    and previous = previous and chars = chars]
  by (auto simp: glob_row_def)

lemma row_language:
  assumes prev: "\<And>j. j \<le> length chars \<Longrightarrow> previous ! j = glob_language ts (take j chars)"
    and i: "i \<le> length chars"
  shows "row_spec chars previous t i = glob_language (ts @ [t]) (take i chars)"
proof (cases "t = Star")
  case True
  have "(\<exists>j\<le>i. previous ! j) \<longleftrightarrow> (\<exists>j\<le>i. glob_language ts (take j chars))"
    using prev i by (meson order_trans)
  also have "\<dots> \<longleftrightarrow> (\<exists>as p. take i chars = as @ p \<and> glob_language ts as)" (is "?L = ?R")
  proof
    assume ?L
    then obtain j where j: "j \<le> i" "glob_language ts (take j chars)" by blast
    then have "take i chars = take j chars @ drop j (take i chars)"
      by (metis append_take_drop_id min.absorb1 take_take)
    with j show ?R by blast
  next
    assume ?R
    then obtain as p where a: "take i chars = as @ p" "glob_language ts as" by blast
    then have "length as \<le> i" using i by (metis length_append length_take le_add1 min.absorb2)
    moreover have "take (length as) chars = as"
      using a(1) \<open>length as \<le> i\<close> by (metis append_eq_conv_conj min.absorb1 take_take)
    ultimately show ?L using a(2) by metis
  qed
  finally show ?thesis using True by (simp add: row_spec_def glob_language_snoc token_language_def)
next
  case False
  show ?thesis
  proof (cases i)
    case 0
    with False show ?thesis by (auto simp: row_spec_def glob_language_snoc token_language_def)
  next
    case (Suc k)
    then have "take i chars = take k chars @ [chars ! k]" using i by (simp add: take_Suc_conv_app_nth)
    then show ?thesis using False Suc prev [of k] i
      by (auto simp: row_spec_def glob_language_snoc token_language_def)
  qed
qed

lemma glob_fold_language:
  assumes "i \<le> length chars"
  shows "foldl (glob_row chars) ((replicate (length chars + 1) False)[0 := True]) ts ! i
    = glob_language ts (take i chars)"
  using assms
proof (induction ts arbitrary: i rule: rev_induct)
  case Nil
  then show ?case by (cases i) (auto simp: nth_list_update simp del: replicate_Suc)
next
  case (snoc t ts)
  then show ?case using row_language [OF snoc.IH snoc.prems] by (simp add: glob_row_spec)
qed

lemma glob_run_language: "glob_run ts chars = glob_language ts chars"
  using glob_fold_language [of "length chars" chars ts] by (simp add: glob_run_def)

text \<open>Claim C10: the dynamic-programming matcher decides the declarative meaning of the
  pattern.  A name matches exactly when it is a valid entry name, its leading period is
  matched by a literal period, and it can be cut into one matching piece per token.\<close>

theorem glob_test_correct:
  "matcher_test g name \<longleftrightarrow>
     valid_glob_name (bounds g) name
     \<and> (starts_with name (js ''.'') \<longrightarrow> (\<exists>ts. tokens g = Literal 46 # ts))
     \<and> glob_language (tokens g) (code_points name)"
proof -
  have "tokens g \<noteq> [] \<and> hd (tokens g) = Literal 46 \<longleftrightarrow> (\<exists>ts. tokens g = Literal 46 # ts)"
    by (cases "tokens g") auto
  then show ?thesis by (simp add: matcher_test_def glob_test_def glob_run_language)
qed

definition demo_glob :: glob_matcher where
  "demo_glob = \<lparr>magic = True, tokens = [Star, Literal 116], bounds = DEFAULT_GLOB_LIMITS\<rparr>"

lemma glob_test_correct_witness: "glob_language (tokens demo_glob) (code_points (js ''at''))"
proof -
  have "matcher_test demo_glob (js ''at'')" by code_simp
  then show ?thesis using glob_test_correct by blast
qed

section \<open>Parsed patterns\<close>

lemma limit_tokens_Inr: "limit_tokens lim ts = Inr us \<longleftrightarrow> us = ts \<and> length ts \<le> maxTokens lim"
  by (auto simp: limit_tokens_def)

text \<open>The parser emits at most \<open>maxTokens\<close> tokens, never two stars in a row, and no star,
  wildcard or class when the pattern is not magic.\<close>

fun no_double_star :: "gtoken list \<Rightarrow> bool" where
  "no_double_star (s # t # ts) = (\<not> (s = Star \<and> t = Star) \<and> no_double_star (t # ts))"
| "no_double_star ts = True"

definition is_literal :: "gtoken \<Rightarrow> bool" where
  "is_literal t \<longleftrightarrow> (\<exists>c. t = Literal c)"

lemma no_double_star_snoc:
  "no_double_star (ts @ [t]) \<longleftrightarrow> no_double_star ts \<and> \<not> (ts \<noteq> [] \<and> last ts = Star \<and> t = Star)"
  by (induction ts rule: no_double_star.induct) auto

lemma parse_class_is_Class: "parse_class cs = Inr (t, r) \<Longrightarrow> \<exists>n rs. t = Class n rs"
  unfolding parse_class_def Let_def by (auto split: if_splits)

definition tokens_inv :: "glob_limits \<Rightarrow> gtoken list \<Rightarrow> bool \<Rightarrow> bool" where
  "tokens_inv lim ts m \<longleftrightarrow>
     length ts \<le> maxTokens lim \<and> no_double_star ts \<and> (m \<or> list_all is_literal ts)"

lemma tokens_inv_push:
  assumes "limit_tokens lim (ts @ [t]) = Inr us" "tokens_inv lim ts m"
    and "t = Star \<Longrightarrow> \<not> (ts \<noteq> [] \<and> last ts = Star)" and "n \<or> is_literal t \<and> n = m"
  shows "tokens_inv lim us n"
  using assms by (auto simp: tokens_inv_def limit_tokens_Inr no_double_star_snoc)

lemma parse_tokens_inv:
  "parse_tokens lim cs ts m = Inr (us, n) \<Longrightarrow> tokens_inv lim ts m \<Longrightarrow> tokens_inv lim us n"
proof (induction lim cs ts m rule: parse_tokens.induct)
  case (2 lim c cs ts magic)
  consider (esc) d r where "c = 92" "cs = d # r" | (star) "c = 42" "\<not> (ts \<noteq> [] \<and> last ts = Star)"
    | (any) "c = 63" | (cls) t r where "c = 91" "parse_class cs = Inr (t, r)"
    | (lit) "c \<noteq> 92" "c \<noteq> 42" "c \<noteq> 63" "c \<noteq> 91"
    using "2.prems"(1) by (auto split: if_splits list.splits sum.splits)
  then show ?case
  proof cases
    case esc
    then obtain vs where vs: "limit_tokens lim (ts @ [Literal d]) = Inr vs"
        "parse_tokens lim r vs magic = Inr (us, n)" using "2.prems"(1) by auto
    have "tokens_inv lim vs magic"
      by (rule tokens_inv_push [OF vs(1) "2.prems"(2)]) (auto simp: is_literal_def)
    then show ?thesis using "2.IH"(1) esc vs by auto
  next
    case star
    then obtain vs where "limit_tokens lim (ts @ [Star]) = Inr vs"
        "parse_tokens lim cs vs True = Inr (us, n)" using "2.prems"(1) by auto
    then show ?thesis using "2.IH"(2) star tokens_inv_push [OF _ "2.prems"(2)] by auto
  next
    case any
    then obtain vs where "limit_tokens lim (ts @ [AnyChar]) = Inr vs"
        "parse_tokens lim cs vs True = Inr (us, n)" using "2.prems"(1) by auto
    then show ?thesis using "2.IH"(3) any tokens_inv_push [OF _ "2.prems"(2)] by auto
  next
    case cls
    then obtain vs where "limit_tokens lim (ts @ [t]) = Inr vs"
        "parse_tokens lim r vs True = Inr (us, n)" using "2.prems"(1) by auto
    then show ?thesis using "2.IH"(4) cls tokens_inv_push [OF _ "2.prems"(2)] parse_class_is_Class
      by fastforce
  next
    case lit
    then obtain vs where "limit_tokens lim (ts @ [Literal c]) = Inr vs"
        "parse_tokens lim cs vs magic = Inr (us, n)" using "2.prems"(1) by auto
    then show ?thesis using "2.IH"(5) lit tokens_inv_push [OF _ "2.prems"(2)] by (auto simp: is_literal_def)
  qed
qed auto

text \<open>A pattern of literals only matches exactly the name it spells.\<close>

lemma glob_language_literals: "glob_language (map Literal cs) ds \<longleftrightarrow> ds = cs"
proof (induction cs arbitrary: ds rule: rev_induct)
  case (snoc c cs)
  then show ?case by (auto simp: glob_language_snoc token_language_def token_matches_def)
qed simp

lemma glob_limit_le: "glob_limit v d = Inr n \<Longrightarrow> 1 \<le> n \<and> n \<le> d"
  by (auto simp: glob_limit_def in_range_iff split: option.splits if_splits)

lemma options_with_limits_le:
  "options_with_limits opts = Inr lim \<Longrightarrow>
   maxPatternLength lim \<le> 4096 \<and> maxTokens lim \<le> 256 \<and> maxNameLength lim \<le> 4096"
  by (auto simp: options_with_limits_def DEFAULT_GLOB_LIMITS_def dest!: glob_limit_le)

lemma all_literals: "list_all is_literal ts \<Longrightarrow> \<exists>cs. ts = map Literal cs"
proof (induction ts)
  case (Cons t ts)
  then obtain c cs where "t = Literal c" "ts = map Literal cs" by (auto simp: is_literal_def)
  then show ?case by (intro exI [of _ "c # cs"]) simp
qed simp

lemma compile_glob_Inr:
  assumes "compile_glob pattern opts = Inr g"
  shows "options_with_limits opts = Inr (bounds g)"
    "parse_tokens (bounds g) (code_points pattern) [] False = Inr (tokens g, magic g)"
    "length pattern \<le> maxPatternLength (bounds g)"
    "47 \<notin> set pattern" "\<not> has_control pattern" "well_formed pattern" "pattern \<noteq> []"
  using assms by (auto simp: compile_glob_def parse_pattern_def split: if_splits)

lemma leading_period:
  assumes "well_formed name"
  shows "starts_with name (js ''.'') \<longleftrightarrow> (\<exists>cs. code_points name = 46 # cs)"
proof (cases name)
  case (Cons u v)
  show ?thesis
  proof (cases "is_hi u")
    case True
    then have "u \<noteq> 46" by (simp add: is_hi_def)
    moreover have "hd (code_points name) \<noteq> 46"
      using True assms Cons by (cases v) (auto simp: is_surrogate_def)
    ultimately show ?thesis using Cons by (auto simp: starts_with_def)
  next
    case False
    then show ?thesis using Cons by (auto simp: starts_with_def code_points_Cons_plain)
  qed
qed (simp add: starts_with_def)

text \<open>A compiled pattern stays within the fixed limits (so the matcher's table has at
  most 257 rows of at most 4097 cells) and never holds two adjacent stars; one without magic
  spells a single name and matches no other.\<close>

lemma compiled_glob_bounds:
  assumes "compile_glob pattern opts = Inr g"
  shows "length (tokens g) \<le> 256 \<and> maxNameLength (bounds g) \<le> 4096 \<and> no_double_star (tokens g)
    \<and> (\<not> magic g \<longrightarrow> (\<exists>cs. \<forall>name. matcher_test g name
           \<longleftrightarrow> valid_glob_name (bounds g) name \<and> code_points name = cs))"
proof -
  note c = compile_glob_Inr [OF assms] and l = options_with_limits_le [OF compile_glob_Inr(1) [OF assms]]
  have inv: "tokens_inv (bounds g) (tokens g) (magic g)"
    by (rule parse_tokens_inv [OF c(2)]) (simp add: tokens_inv_def)
  have "\<exists>cs. \<forall>name. matcher_test g name \<longleftrightarrow> valid_glob_name (bounds g) name \<and> code_points name = cs"
    if plain: "\<not> magic g"
  proof -
    obtain cs where cs: "tokens g = map Literal cs"
      using inv plain all_literals by (auto simp: tokens_inv_def)
    have "matcher_test g name \<longleftrightarrow> valid_glob_name (bounds g) name \<and> code_points name = cs" for name
      using leading_period [of name]
      by (auto simp: matcher_test_def glob_test_def glob_run_language cs glob_language_literals
          valid_glob_name_def hd_map)
    then show ?thesis by blast
  qed
  then show ?thesis using inv l by (auto simp: tokens_inv_def)
qed

lemma compiled_glob_bounds_witness:
  "\<exists>g. compile_glob (js ''*.t[x-z]t'') no_glob_options = Inr g \<and> length (tokens g) \<le> 256"
proof -
  have "\<not> isl (compile_glob (js ''*.t[x-z]t'') no_glob_options)" by code_simp
  then obtain g where "compile_glob (js ''*.t[x-z]t'') no_glob_options = Inr g"
    by (cases "compile_glob (js ''*.t[x-z]t'') no_glob_options") simp_all
  then show ?thesis using compiled_glob_bounds by blast
qed

section \<open>Protected text\<close>

definition protect :: "nat list \<Rightarrow> nat list" where
  "protect cs = concat (map (\<lambda>c. if c \<in> set (js ''*?[]'') \<or> c = 92 then [92, c] else [c]) cs)"

lemma protect_simps [simp]:
  "protect [] = []"
  "protect (c # cs) = (if c \<in> set (js ''*?[]'') \<or> c = 92 then [92, c] else [c]) @ protect cs"
  by (simp_all add: protect_def)

lemma parse_tokens_protect:
  "length ts + length cs \<le> maxTokens lim \<Longrightarrow>
   parse_tokens lim (protect cs) ts m = Inr (ts @ map Literal cs, m)"
  by (induction cs arbitrary: ts) (auto simp: limit_tokens_def)

lemma code_points_protect: "code_points (protect s) = protect (code_points s)"
proof (induction s rule: code_points.induct)
  case (3 u v s)
  show ?case
  proof (cases "is_hi u \<and> is_lo v")
    case True
    then have "u \<notin> set (js ''*?[]'')" "u \<noteq> 92" "v \<notin> set (js ''*?[]'')" "v \<noteq> 92"
      by (auto simp: is_hi_def is_lo_def)
    moreover have "65536 + (u - 55296) * 1024 + (v - 56320) \<notin> set (js ''*?[]'')"
      "65536 + (u - 55296) * 1024 + (v - 56320) \<noteq> 92" by auto
    ultimately show ?thesis using True 3 by simp
  next
    case False
    have "\<not> is_lo 92" "\<not> is_hi 92" "\<not> is_hi 42" "\<not> is_hi 63" "\<not> is_hi 91" "\<not> is_hi 93"
      by (simp_all add: is_lo_def is_hi_def)
    then show ?thesis using False 3
      by (cases "v \<in> set (js ''*?[]'') \<or> v = 92") (auto simp: code_points_Cons_plain)
  qed
qed (auto simp: code_points_Cons_plain is_hi_def)

end
