(* ===== verification/MarkerSearch.thy ===== *)
theory MarkerSearch
  imports Prelude
begin

text \<open>
  Searching a marker in a stream that arrives in pieces.  \<open>index_of\<close> is \<open>indexOf\<close>;
  \<open>overlap m d\<close> is the loop

  \<^verbatim>\<open>let keep = Math.min(m.length - 1, d.length); while (keep && !d.endsWith(m.slice(0, keep))) keep--;\<close>

  which finds how much of the end of \<open>d\<close> may be the start of a marker that has not arrived
  completely.  The two streaming lemmas say that keeping this tail, and only this tail, loses
  nothing: the next search finds what a search of the whole stream would find.
\<close>

fun index_of :: "'a list \<Rightarrow> 'a list \<Rightarrow> nat option" where
  "index_of m [] = (if m = [] then Some 0 else None)"
| "index_of m (x # xs) =
     (if take (length m) (x # xs) = m then Some 0 else map_option Suc (index_of m xs))"

fun shrink_keep :: "'a list \<Rightarrow> 'a list \<Rightarrow> nat \<Rightarrow> nat" where
  "shrink_keep m d 0 = 0"
| "shrink_keep m d (Suc k) =
     (if drop (length d - Suc k) d = take (Suc k) m then Suc k else shrink_keep m d k)"

definition overlap :: "'a list \<Rightarrow> 'a list \<Rightarrow> nat" where
  "overlap m d = shrink_keep m d (min (length m - 1) (length d))"

definition tail_of :: "nat \<Rightarrow> 'a list \<Rightarrow> 'a list" where
  "tail_of k d = drop (length d - k) d"

definition occurs :: "'a list \<Rightarrow> 'a list \<Rightarrow> nat \<Rightarrow> bool" where
  "occurs m d i \<longleftrightarrow> i + length m \<le> length d \<and> take (length m) (drop i d) = m"

lemma occurs_Cons_Suc: "occurs m (x # xs) (Suc i) \<longleftrightarrow> occurs m xs i"
  by (simp add: occurs_def)

lemma occurs_0: "occurs m d 0 \<longleftrightarrow> take (length m) d = m"
  unfolding occurs_def by simp (metis length_take min.absorb_iff2 min.commute)

lemma index_of_None: "index_of m d = None \<longleftrightarrow> (\<forall>i. \<not> occurs m d i)"
proof (induction d)
  case Nil
  then show ?case by (auto simp: occurs_def)
next
  case (Cons x xs)
  show ?case
  proof (cases "take (length m) (x # xs) = m")
    case True
    then show ?thesis by (auto simp: occurs_0 intro: exI [of _ 0])
  next
    case False
    have "\<not> occurs m (x # xs) i \<longleftrightarrow> (case i of 0 \<Rightarrow> True | Suc j \<Rightarrow> \<not> occurs m xs j)" for i
      using False by (cases i) (auto simp: occurs_0 occurs_Cons_Suc)
    then show ?thesis using False Cons by (auto split: nat.splits)
  qed
qed

lemma index_of_Some: "index_of m d = Some i \<longleftrightarrow> occurs m d i \<and> (\<forall>j<i. \<not> occurs m d j)"
proof (induction d arbitrary: i)
  case Nil
  then show ?case by (auto simp: occurs_def)
next
  case (Cons x xs)
  show ?case
  proof (cases "take (length m) (x # xs) = m")
    case True
    then have "occurs m (x # xs) 0" by (simp add: occurs_0)
    with True show ?thesis by (cases i) auto
  next
    case False
    then have n: "\<not> occurs m (x # xs) 0" by (simp add: occurs_0)
    show ?thesis
    proof (cases i)
      case 0
      then show ?thesis using False n by auto
    next
      case (Suc k)
      have "(\<forall>j<Suc k. \<not> occurs m (x # xs) j) \<longleftrightarrow> (\<forall>j<k. \<not> occurs m xs j)"
        using n by (auto simp: less_Suc_eq_0_disj occurs_Cons_Suc)
      then show ?thesis using False Suc Cons by (simp add: occurs_Cons_Suc)
    qed
  qed
qed

lemma index_of_bound: "index_of m d = Some i \<Longrightarrow> i + length m \<le> length d"
  by (simp add: index_of_Some occurs_def)

lemma index_of_split:
  assumes "index_of m d = Some i"
  shows "d = take i d @ m @ drop (i + length m) d"
proof -
  have "take (length m) (drop i d) = m" using assms by (simp add: index_of_Some occurs_def)
  then show ?thesis by (metis append_take_drop_id drop_drop add.commute)
qed

definition overlaps :: "'a list \<Rightarrow> 'a list \<Rightarrow> nat \<Rightarrow> bool" where
  "overlaps m d k \<longleftrightarrow> k \<le> length m - 1 \<and> k \<le> length d \<and> tail_of k d = take k m"

lemma shrink_keep_spec:
  "k \<le> length d \<Longrightarrow> shrink_keep m d k \<le> k \<and> tail_of (shrink_keep m d k) d = take (shrink_keep m d k) m
    \<and> (\<forall>j\<le>k. tail_of j d = take j m \<longrightarrow> j \<le> shrink_keep m d k)"
proof (induction k)
  case (Suc k)
  show ?case
  proof (cases "drop (length d - Suc k) d = take (Suc k) m")
    case False
    then have "tail_of j d = take j m \<Longrightarrow> j \<noteq> Suc k" for j by (auto simp: tail_of_def)
    then show ?thesis using Suc False by (auto simp: le_Suc_eq)
  qed (auto simp: tail_of_def)
qed (simp add: tail_of_def)

lemma overlap_spec: "overlaps m d (overlap m d)" "overlaps m d k \<Longrightarrow> k \<le> overlap m d"
  using shrink_keep_spec [of "min (length m - 1) (length d)" d m]
  by (auto simp: overlap_def overlaps_def)

lemma overlap_unique: "overlaps m d k \<Longrightarrow> (\<And>j. overlaps m d j \<Longrightarrow> j \<le> k) \<Longrightarrow> overlap m d = k"
  using overlap_spec by (metis le_antisym)

lemma length_tail_of [simp]: "k \<le> length d \<Longrightarrow> length (tail_of k d) = k"
  by (simp add: tail_of_def)

lemma overlap_le: "overlap m d \<le> length d" "overlap m d \<le> length m - 1"
  using overlap_spec(1) [of m d] by (auto simp: overlaps_def)

lemma drop_tail_append:
  "k \<le> length d \<Longrightarrow> length d - k \<le> i \<Longrightarrow> drop i (d @ t) = drop (i - (length d - k)) (tail_of k d @ t)"
  by (simp add: tail_of_def)

lemma occurs_stream:
  fixes m d t :: "'a list"
  assumes none: "\<forall>i. \<not> occurs m d i" and m: "m \<noteq> []"
  defines "k \<equiv> overlap m d"
  shows "occurs m (d @ t) i \<longleftrightarrow>
    length d - k \<le> i \<and> occurs m (tail_of k d @ t) (i - (length d - k))"
proof -
  have k: "k \<le> length d" unfolding k_def by (rule overlap_le)
  have "length d - k \<le> i" if occ: "occurs m (d @ t) i"
  proof (cases "length d \<le> i")
    case False
    have long: "length d < i + length m"
    proof (rule ccontr)
      assume "\<not> ?thesis"
      then have "occurs m d i" using occ False by (auto simp: occurs_def)
      with none show False by blast
    qed
    have "take (length m) (drop i d @ t) = m" using occ False by (simp add: occurs_def)
    then have "take (length d - i) (take (length m) (drop i d @ t)) = take (length d - i) m" by simp
    then have "drop i d = take (length d - i) m" using long False by simp
    then have "overlaps m d (length d - i)"
      using long False m by (simp add: overlaps_def tail_of_def)
    then have "length d - i \<le> k" unfolding k_def by (rule overlap_spec(2))
    then show ?thesis by simp
  qed simp
  moreover have "occurs m (d @ t) i \<longleftrightarrow> occurs m (tail_of k d @ t) (i - (length d - k))"
    if "length d - k \<le> i"
  proof -
    have "i + length m \<le> length (d @ t) \<longleftrightarrow> i - (length d - k) + length m \<le> length (tail_of k d @ t)"
      using k that by auto
    then show ?thesis unfolding occurs_def drop_tail_append [OF k that] by simp
  qed
  ultimately show ?thesis by blast
qed

lemma index_of_stream:
  fixes m d t :: "'a list"
  assumes none: "index_of m d = None" and m: "m \<noteq> []"
  defines "k \<equiv> overlap m d"
  shows "index_of m (d @ t) =
    map_option (\<lambda>i. i + (length d - k)) (index_of m (tail_of k d @ t))"
proof -
  have occ: "occurs m (d @ t) i \<longleftrightarrow>
      length d - k \<le> i \<and> occurs m (tail_of k d @ t) (i - (length d - k))" for i
    unfolding k_def using none m by (intro occurs_stream) (auto simp: index_of_None)
  show ?thesis
  proof (cases "index_of m (tail_of k d @ t)")
    case None
    then have "index_of m (d @ t) = None" using occ by (auto simp: index_of_None)
    then show ?thesis using None by simp
  next
    case (Some i)
    then have "index_of m (d @ t) = Some (i + (length d - k))"
      unfolding index_of_Some using occ by auto
    then show ?thesis using Some by simp
  qed
qed

lemma overlap_stream:
  fixes m d t :: "'a list"
  assumes "m \<noteq> []"
  defines "k \<equiv> overlap m d"
  shows "overlap m (d @ t) = overlap m (tail_of k d @ t)"
proof -
  have k: "k \<le> length d" unfolding k_def by (rule overlap_le)
  have tail: "tail_of j (d @ t) = tail_of j (tail_of k d @ t)" if "j \<le> k + length t" for j
    using that k by (auto simp: tail_of_def add.commute)
  have "overlaps m (d @ t) j \<longleftrightarrow> overlaps m (tail_of k d @ t) j" for j
  proof -
    have "j \<le> k + length t" if o: "overlaps m (d @ t) j"
    proof (rule ccontr)
      assume "\<not> ?thesis"
      then have j: "length t < j" "k < j - length t" by auto
      then have "tail_of j (d @ t) = tail_of (j - length t) d @ t"
        using o by (auto simp: tail_of_def overlaps_def)
      then have "tail_of (j - length t) d = take (j - length t) (take j m)"
        using o j by (metis append_eq_conv_conj length_tail_of overlaps_def diff_le_self le_diff_conv length_append)
      then have "overlaps m d (j - length t)" using o j by (auto simp: overlaps_def)
      then show False using overlap_spec(2) j(2) unfolding k_def by fastforce
    qed
    then show ?thesis using tail k by (auto simp: overlaps_def)
  qed
  then show ?thesis
    using overlap_spec by (intro overlap_unique) blast+
qed

end
