(* ===== verification/ExecCodec.thy ===== *)
theory ExecCodec
  imports JsValue MarkerSearch
begin

text \<open>
  \<^verbatim>\<open>electron/exec-codec.js\<close>: POSIX quoting, the bootstrap script sent to the remote shell,
  and the parser of the framed answer.  The parser looks for a READY and a START marker in
  the terminal text, then decodes base64 and looks for the END marker with the exit code.

  Its closure variables are the record \<open>exec_parser\<close>, the four callbacks append to
  \<open>events\<close> (an output buffer is the sequence of its bytes, so the granularity of
  \<open>onOutput\<close> is not part of the model), and \<open>fail\<close> records the failure and throws.
\<close>

definition MAX_CHUNK :: nat where
  "MAX_CHUNK = 64 * 1024"

section \<open>Quoting and the bootstrap\<close>

definition valid_nonce :: "jsstr \<Rightarrow> bool" where
  "valid_nonce n \<longleftrightarrow> length n = 64 \<and> list_all is_lower_hex n"

definition validate_nonce :: "jsval \<Rightarrow> string + jsstr" where
  "validate_nonce v = (case v of
     JStr n \<Rightarrow> if valid_nonce n then Inr n else Inl ''EXEC_SETUP_FAILED''
   | _ \<Rightarrow> Inl ''EXEC_SETUP_FAILED'')"

text \<open>\<open>text.replace(/'/g, "'\\''")\<close>\<close>

definition quote_body :: "jsstr \<Rightarrow> jsstr" where
  "quote_body s = concat (map (\<lambda>u. if u = 39 then [39, 92, 39, 39] else [u]) s)"

definition quote_posix :: "jsval \<Rightarrow> string + jsstr" where
  "quote_posix v = (case v of
     JStr s \<Rightarrow> if 0 \<in> set s then Inl ''EXEC_SETUP_FAILED'' else Inr ([39] @ quote_body s @ [39])
   | _ \<Rightarrow> Inl ''EXEC_SETUP_FAILED'')"

text \<open>\<open>printf '\036USSHTC_<nonce>:<what>\037'\<close> as the shell sees it.\<close>

definition printf_marker :: "jsstr \<Rightarrow> jsstr \<Rightarrow> jsstr" where
  "printf_marker nonce what =
     js ''printf '' @ [39, 92] @ js ''036USSHTC_'' @ nonce @ js '':'' @ what @ [92] @ js ''037'' @ [39]"

definition build_exec_bootstrap :: "jsval \<Rightarrow> string + jsstr" where
  "build_exec_bootstrap v =
     bindR (validate_nonce v) (\<lambda>nonce. Inr (join_with 10
       [js ''stty -echo -onlcr -icanon min 1 time 0 || exit 126'',
        js ''command -v base64 >/dev/null 2>&1 || exit 126'',
        printf_marker nonce (js ''READY''),
        js ''IFS= read -r __b64 || exit 126'',
        js ''__cmd=$(printf '' @ [39] @ js ''%s'' @ [39] @ js '' \"$__b64\" | base64 -d && printf ''
          @ [39] @ js ''.'' @ [39] @ js '') || exit 126'',
        js ''__cmd=${__cmd%.}'',
        printf_marker nonce (js ''START''),
        js ''{ sh -c \"$__cmd\" </dev/null 2>&1; __rc=$?; '' @ printf_marker nonce (js ''END:%s'')
          @ js '' \"$__rc\"; } | base64'']))"

section \<open>Base64\<close>

definition b64_value :: "nat \<Rightarrow> nat" where
  "b64_value u = (if 65 \<le> u \<and> u \<le> 90 then u - 65 else if 97 \<le> u \<and> u \<le> 122 then u - 71
     else if 48 \<le> u \<and> u \<le> 57 then u + 4 else if u = 43 then 62 else 63)"

definition b64_char :: "nat \<Rightarrow> nat" where
  "b64_char v = (if v < 26 then v + 65 else if v < 52 then v + 71 else if v < 62 then v - 4
     else if v = 62 then 43 else 47)"

definition is_b64 :: "nat \<Rightarrow> bool" where
  "is_b64 u \<longleftrightarrow> is_alnum u \<or> u = 43 \<or> u = 47"

text \<open>\<open>Buffer.from(groups, 'base64')\<close> on complete groups of four, and
  \<open>decoded.toString('base64')\<close>.\<close>

fun b64_decode :: "jsstr \<Rightarrow> byte list" where
  "b64_decode (a # b # c # d # r) =
     (let x = b64_value a; y = b64_value b; z = b64_value c; w = b64_value d in
      if c = 61 then [x * 4 + y div 16]
      else if d = 61 then [x * 4 + y div 16, y mod 16 * 16 + z div 4]
      else [x * 4 + y div 16, y mod 16 * 16 + z div 4, z mod 4 * 64 + w] @ b64_decode r)"
| "b64_decode _ = []"

fun b64_encode :: "byte list \<Rightarrow> jsstr" where
  "b64_encode [] = []"
| "b64_encode [x] = [b64_char (x div 4), b64_char (x mod 4 * 16), 61, 61]"
| "b64_encode [x, y] =
     [b64_char (x div 4), b64_char (x mod 4 * 16 + y div 16), b64_char (y mod 16 * 4), 61]"
| "b64_encode (x # y # z # r) =
     [b64_char (x div 4), b64_char (x mod 4 * 16 + y div 16), b64_char (y mod 16 * 4 + z div 64),
      b64_char (z mod 64)] @ b64_encode r"

section \<open>The parser\<close>

datatype exec_phase = PRELUDE | READY | START | BASE64_OUTPUT | COMPLETE

datatype exec_event = OnReady | OnStart | OnOutput byte | OnComplete nat

record exec_parser =
  nonce :: jsstr
  maxPreludeBytes :: nat
  maxOutputBytes :: nat
  maxEncodedBytes :: nat
  phase :: exec_phase
  preludeCarry :: jsstr
  preludeBytes :: nat
  encodedBytes :: nat
  outputBytes :: nat
  base64Carry :: jsstr
  padded :: bool
  decodedCarry :: "byte list"
  completeCode :: "nat option"
  failed :: "string option"
  events :: "exec_event list"

type_synonym 'a exec_act = "(exec_parser, string, 'a) act"

definition create_exec_parser :: "jsval \<Rightarrow> nat \<Rightarrow> nat \<Rightarrow> nat \<Rightarrow> string + exec_parser" where
  "create_exec_parser v maxPrelude maxOutput maxEncoded =
     bindR (validate_nonce v) (\<lambda>n. Inr \<lparr>nonce = n, maxPreludeBytes = maxPrelude,
       maxOutputBytes = maxOutput, maxEncodedBytes = maxEncoded, phase = PRELUDE,
       preludeCarry = [], preludeBytes = 0, encodedBytes = 0, outputBytes = 0, base64Carry = [],
       padded = False, decodedCarry = [], completeCode = None, failed = None, events = []\<rparr>)"

definition exec_marker :: "jsstr \<Rightarrow> jsstr \<Rightarrow> jsstr" where
  "exec_marker n what = [30] @ js ''USSHTC_'' @ n @ js '':'' @ what"

definition ready_marker :: "exec_parser \<Rightarrow> jsstr" where
  "ready_marker p = exec_marker (nonce p) (js ''READY'') @ [31]"

definition start_marker :: "exec_parser \<Rightarrow> jsstr" where
  "start_marker p = exec_marker (nonce p) (js ''START'') @ [31]"

definition end_prefix :: "exec_parser \<Rightarrow> byte list" where
  "end_prefix p = exec_marker (nonce p) (js ''END:'')"

definition fail :: "string \<Rightarrow> 'a exec_act" where
  "fail code p = (Inl code, p\<lparr>failed := Some code\<rparr>)"

definition emit :: "byte list \<Rightarrow> unit exec_act" where
  "emit bytes p =
     (if bytes = [] then (Inr (), p)
      else if outputBytes p + length bytes > maxOutputBytes p then fail ''EXEC_OUTPUT_LIMIT'' p
      else (Inr (), p\<lparr>outputBytes := outputBytes p + length bytes,
                      events := events p @ map OnOutput bytes\<rparr>))"

text \<open>\<open>/^(?:0|[1-9]\d{0,2})$/\<close> and at most 255\<close>

definition exit_code :: "byte list \<Rightarrow> nat option" where
  "exit_code t =
     (if (t = [48] \<or> t \<noteq> [] \<and> hd t \<noteq> 48 \<and> list_all is_digit t \<and> length t \<le> 3)
         \<and> radix_value 10 t \<le> 255
      then Some (radix_value 10 t) else None)"

definition decode_output :: "byte list \<Rightarrow> unit exec_act" where
  "decode_output bytes p =
     (let data = decodedCarry p @ bytes; m = end_prefix p in
      case index_of m data of
        Some marker \<Rightarrow>
          bindM (emit (take marker data)) (\<lambda>_ q.
            let suffix = drop (marker + length m) data in
            case index_of [31] suffix of
              None \<Rightarrow>
                if length suffix > 3 \<or> \<not> list_all is_digit suffix then fail ''EXEC_FRAMING_FAILED'' q
                else (Inr (), q\<lparr>decodedCarry := drop marker data\<rparr>)
            | Some terminator \<Rightarrow>
                (case exit_code (take terminator suffix) of
                   None \<Rightarrow> fail ''EXEC_FRAMING_FAILED'' q
                 | Some code \<Rightarrow>
                     if terminator \<noteq> length suffix - 1 then fail ''EXEC_FRAMING_FAILED'' q
                     else (Inr (), q\<lparr>completeCode := Some code, decodedCarry := []\<rparr>))) p
      | None \<Rightarrow>
          (let keep = overlap m data in
           bindM (emit (take (length data - keep) data)) (\<lambda>_ q.
             (Inr (), q\<lparr>decodedCarry := tail_of keep data\<rparr>)) p))"

definition is_b64_text :: "nat \<Rightarrow> bool" where
  "is_b64_text u \<longleftrightarrow> is_b64 u \<or> u = 61 \<or> u = 13 \<or> u = 10"

definition compact :: "jsstr \<Rightarrow> jsstr" where
  "compact text = filter (\<lambda>u. u \<noteq> 13 \<and> u \<noteq> 10) text"

text \<open>\<open>/^[A-Za-z0-9+/]*={0,2}$/\<close>\<close>

definition b64_shape :: "jsstr \<Rightarrow> bool" where
  "b64_shape data \<longleftrightarrow> dropWhile is_b64 data \<in> {[], [61], [61, 61]}"

definition consume_base64 :: "jsstr \<Rightarrow> unit exec_act" where
  "consume_base64 text p0 =
     (let p = p0\<lparr>encodedBytes := encodedBytes p0 + length text\<rparr> in
      if encodedBytes p > maxEncodedBytes p then fail ''EXEC_OUTPUT_LIMIT'' p
      else if \<not> list_all is_b64_text text then fail ''EXEC_FRAMING_FAILED'' p
      else if compact text = [] then (Inr (), p)
      else if padded p \<or> completeCode p \<noteq> None then fail ''EXEC_FRAMING_FAILED'' p
      else
        (let data = base64Carry p @ compact text in
         if \<not> b64_shape data then fail ''EXEC_FRAMING_FAILED'' p
         else
           (let n = length data - length data mod 4; q = p\<lparr>base64Carry := drop n data\<rparr> in
            if n = 0 then (Inr (), q)
            else
              (let groups = take n data in
               case index_of [61] groups of
                 None \<Rightarrow> decode_output (b64_decode groups) q
               | Some padding \<Rightarrow>
                   if base64Carry q \<noteq> [] \<or> padding < n - 2 then fail ''EXEC_FRAMING_FAILED'' q
                   else if b64_encode (b64_decode groups) \<noteq> groups then
                     fail ''EXEC_FRAMING_FAILED'' (q\<lparr>padded := True\<rparr>)
                   else decode_output (b64_decode groups) (q\<lparr>padded := True\<rparr>)))))"

text \<open>The search of one marker: the text after it, or \<open>None\<close> with the possible start of
  the marker kept for the next call.\<close>

definition seek :: "jsstr \<Rightarrow> jsstr \<Rightarrow> jsstr option exec_act" where
  "seek marker text p =
     (let data = preludeCarry p @ text in
      case index_of marker data of
        None \<Rightarrow>
          (let discarded = length data - overlap marker data;
               q = p\<lparr>preludeBytes := preludeBytes p + byte_length (take discarded data)\<rparr> in
           if preludeBytes q > maxPreludeBytes q then fail ''EXEC_OUTPUT_LIMIT'' q
           else (Inr None, q\<lparr>preludeCarry := drop discarded data\<rparr>))
      | Some index \<Rightarrow>
          (let q = p\<lparr>preludeBytes := preludeBytes p + byte_length (take index data)\<rparr> in
           if preludeBytes q > maxPreludeBytes q then fail ''EXEC_OUTPUT_LIMIT'' q
           else (Inr (Some (drop (index + length marker) data)), q\<lparr>preludeCarry := []\<rparr>)))"

text \<open>\<open>consume\<close>; each of its recursive calls is in the next phase, so they are written out.\<close>

definition consume_ready :: "jsstr \<Rightarrow> unit exec_act" where
  "consume_ready text p =
     bindM (seek (start_marker p) text) (\<lambda>found q.
       case found of
         None \<Rightarrow> (Inr (), q)
       | Some rest \<Rightarrow> consume_base64 rest (q\<lparr>phase := BASE64_OUTPUT, events := events q @ [OnStart]\<rparr>)) p"

definition consume_prelude :: "jsstr \<Rightarrow> unit exec_act" where
  "consume_prelude text p =
     bindM (seek (ready_marker p) text) (\<lambda>found q.
       case found of
         None \<Rightarrow> (Inr (), q)
       | Some rest \<Rightarrow> consume_ready rest (q\<lparr>phase := READY, events := events q @ [OnReady]\<rparr>)) p"

definition consume :: "jsstr \<Rightarrow> unit exec_act" where
  "consume text p =
     (case phase p of
        COMPLETE \<Rightarrow>
          if list_ex (\<lambda>u. u \<noteq> 13 \<and> u \<noteq> 10) text then fail ''EXEC_FRAMING_FAILED'' p else (Inr (), p)
      | PRELUDE \<Rightarrow> consume_prelude text p
      | READY \<Rightarrow> consume_ready text p
      | _ \<Rightarrow> consume_base64 text p)"

definition write_done :: "unit exec_act" where
  "write_done p =
     (case completeCode p of
        Some code \<Rightarrow>
          if phase p = COMPLETE then (Inr (), p)
          else if base64Carry p \<noteq> [] then fail ''EXEC_FRAMING_FAILED'' p
          else (Inr (), p\<lparr>phase := COMPLETE, events := events p @ [OnComplete code]\<rparr>)
      | None \<Rightarrow> (Inr (), p))"

definition exec_write :: "jsval \<Rightarrow> unit exec_act" where
  "exec_write v p =
     (case failed p of
        Some e \<Rightarrow> (Inl e, p)
      | None \<Rightarrow>
          (case v of
             JStr text \<Rightarrow> bindM (forM consume (pieces MAX_CHUNK text)) (\<lambda>_. write_done) p
           | _ \<Rightarrow> fail ''EXEC_FRAMING_FAILED'' p))"

definition exec_end :: "unit exec_act" where
  "exec_end p =
     (case failed p of
        Some e \<Rightarrow> (Inl e, p)
      | None \<Rightarrow>
          if phase p = COMPLETE then (Inr (), p)
          else if phase p = PRELUDE then fail ''EXEC_SETUP_FAILED'' p
          else fail ''EXEC_FRAMING_FAILED'' p)"

end
