(* ===== verification/ExecStream.thy ===== *)
theory ExecStream
  imports ExecCodec
begin

text \<open>
  The parser of \<open>ExecCodec\<close> does not depend on how the terminal text is cut into writes.
  Each layer satisfies a splitting law: whenever a whole text is consumed successfully,
  consuming any prefix and then the rest succeeds and reaches the same state, with the same
  bytes delivered in the same order.  The locale \<open>splittable\<close> is that contract and
  lifts it to any number of pieces.
\<close>

locale splittable =
  fixes feed :: "'c list \<Rightarrow> ('s, 'e, unit) act"
    and ok :: "'s \<Rightarrow> bool"
    and final :: "'s \<Rightarrow> bool"
    and good :: "'c list \<Rightarrow> bool"
  assumes good_append: "good (x @ y) \<longleftrightarrow> good x \<and> good y"
    and feed_Nil: "ok s \<Longrightarrow> feed [] s = (Inr (), t) \<Longrightarrow> t = s"
    and feed_split: "ok s \<Longrightarrow> good (x @ y) \<Longrightarrow> feed (x @ y) s = (Inr (), t) \<Longrightarrow> final t \<Longrightarrow>
      \<exists>u. feed x s = (Inr (), u) \<and> ok u \<and> feed y u = (Inr (), t)"
begin

lemma feed_pieces:
  "ok s \<Longrightarrow> good (concat xs) \<Longrightarrow> feed (concat xs) s = (Inr (), t) \<Longrightarrow> final t \<Longrightarrow>
   forM feed xs s = (Inr (), t)"
proof (induction xs arbitrary: s)
  case Nil
  then have "t = s" using feed_Nil [of s t] by simp
  then show ?case by (simp add: retM_def)
next
  case (Cons x xs)
  then obtain u where "feed x s = (Inr (), u)" "ok u" "feed (concat xs) u = (Inr (), t)"
    using feed_split [of s x "concat xs" t] by auto
  then show ?case using Cons by (simp add: bindM_def good_append)
qed

end

section \<open>Emission and the END marker\<close>

definition emitted :: "exec_parser \<Rightarrow> byte list \<Rightarrow> exec_parser" where
  "emitted p bs = p\<lparr>outputBytes := outputBytes p + length bs, events := events p @ map OnOutput bs\<rparr>"

lemma emitted_Nil [simp]: "emitted p [] = p"
  by (simp add: emitted_def)

lemma emitted_append: "emitted (emitted p a) b = emitted p (a @ b)"
  by (simp add: emitted_def)

lemma emitted_fields [simp]:
  "nonce (emitted p b) = nonce p" "decodedCarry (emitted p b) = decodedCarry p"
  "completeCode (emitted p b) = completeCode p" "maxOutputBytes (emitted p b) = maxOutputBytes p"
  "base64Carry (emitted p b) = base64Carry p" "padded (emitted p b) = padded p"
  "phase (emitted p b) = phase p" "failed (emitted p b) = failed p"
  "encodedBytes (emitted p b) = encodedBytes p" "maxEncodedBytes (emitted p b) = maxEncodedBytes p"
  "preludeCarry (emitted p b) = preludeCarry p" "preludeBytes (emitted p b) = preludeBytes p"
  "maxPreludeBytes (emitted p b) = maxPreludeBytes p"
  by (simp_all add: emitted_def)

lemma emitted_updates [simp]:
  "emitted (p\<lparr>decodedCarry := c\<rparr>) b = (emitted p b)\<lparr>decodedCarry := c\<rparr>"
  "emitted (p\<lparr>base64Carry := d\<rparr>) b = (emitted p b)\<lparr>base64Carry := d\<rparr>"
  "emitted (p\<lparr>padded := f\<rparr>) b = (emitted p b)\<lparr>padded := f\<rparr>"
  "emitted (p\<lparr>encodedBytes := n\<rparr>) b = (emitted p b)\<lparr>encodedBytes := n\<rparr>"
  "emitted (p\<lparr>completeCode := k\<rparr>) b = (emitted p b)\<lparr>completeCode := k\<rparr>"
  by (simp_all add: emitted_def)

definition room :: "exec_parser \<Rightarrow> byte list \<Rightarrow> bool" where
  "room p b \<longleftrightarrow> b = [] \<or> outputBytes p + length b \<le> maxOutputBytes p"

lemma emit_Inr: "emit b p = (Inr (), q) \<longleftrightarrow> room p b \<and> q = emitted p b"
  by (auto simp: emit_def fail_def room_def emitted_def)

lemma room_append: "room p (a @ b) \<Longrightarrow> room p a \<and> room (emitted p a) b"
  by (auto simp: room_def emitted_def)

lemma room_updates [simp]:
  "room (p\<lparr>decodedCarry := c\<rparr>) b = room p b" "room (p\<lparr>base64Carry := d\<rparr>) b = room p b"
  "room (p\<lparr>padded := f\<rparr>) b = room p b" "room (p\<lparr>encodedBytes := n\<rparr>) b = room p b"
  by (simp_all add: room_def)

text \<open>The outcome of \<open>decode_output\<close> on the bytes it has in hand, as a relation.\<close>

definition suffix_result :: "byte list \<Rightarrow> nat option option" where
  "suffix_result suffix =
     (case index_of [31] suffix of
        None \<Rightarrow> if length suffix > 3 \<or> \<not> list_all is_digit suffix then None else Some None
      | Some terminator \<Rightarrow>
          (case exit_code (take terminator suffix) of
             None \<Rightarrow> None
           | Some code \<Rightarrow> if terminator \<noteq> length suffix - 1 then None else Some (Some code)))"

definition decode_data :: "byte list \<Rightarrow> exec_parser \<Rightarrow> exec_parser \<Rightarrow> bool" where
  "decode_data data p q \<longleftrightarrow>
     (case index_of (end_prefix p) data of
        Some i \<Rightarrow> room p (take i data) \<and>
          (case suffix_result (drop (i + length (end_prefix p)) data) of
             None \<Rightarrow> False
           | Some None \<Rightarrow> q = (emitted p (take i data))\<lparr>decodedCarry := drop i data\<rparr>
           | Some (Some c) \<Rightarrow>
               q = (emitted p (take i data))\<lparr>completeCode := Some c, decodedCarry := []\<rparr>)
      | None \<Rightarrow>
          (let e = take (length data - overlap (end_prefix p) data) data in
           room p e \<and> q = (emitted p e)\<lparr>decodedCarry := tail_of (overlap (end_prefix p) data) data\<rparr>))"

lemma decode_output_Inr:
  "decode_output bytes p = (Inr (), q) \<longleftrightarrow> decode_data (decodedCarry p @ bytes) p q"
  unfolding decode_output_def Let_def suffix_result_def decode_data_def
  by (auto simp: bindM_Inr_iff emit_Inr fail_def split: option.splits if_splits)

lemma end_prefix_not_Nil [simp]: "end_prefix p \<noteq> []"
  by (simp add: end_prefix_def exec_marker_def)

lemma end_prefix_emitted [simp]: "end_prefix (emitted p b) = end_prefix p"
  "end_prefix (p\<lparr>decodedCarry := c\<rparr>) = end_prefix p"
  "end_prefix (p\<lparr>base64Carry := s\<rparr>) = end_prefix p" "end_prefix (p\<lparr>padded := f\<rparr>) = end_prefix p"
  "end_prefix (p\<lparr>encodedBytes := n\<rparr>) = end_prefix p"
  by (simp_all add: end_prefix_def)

lemma index_of_single: "index_of [c] d = Some i \<Longrightarrow> c \<notin> set (take i d) \<and> i < length d \<and> d ! i = c"
proof (induction d arbitrary: i)
  case (Cons x d)
  then show ?case by (cases i) (auto split: if_splits)
qed simp

lemma index_of_single_None: "index_of [c] d = None \<longleftrightarrow> c \<notin> set d"
  by (induction d) auto

lemma index_of_append: "index_of m d = Some i \<Longrightarrow> index_of m (d @ t) = Some i"
proof -
  assume a: "index_of m d = Some i"
  then have "occurs m (d @ t) i" by (auto simp: index_of_Some occurs_def)
  moreover have "\<not> occurs m (d @ t) j" if "j < i" for j
    using a that by (auto simp: index_of_Some occurs_def)
  ultimately show ?thesis by (simp add: index_of_Some)
qed

lemma exit_code_shape: "exit_code t = Some c \<Longrightarrow> length t \<le> 3 \<and> list_all is_digit t"
  by (auto simp: exit_code_def is_digit_def split: if_splits)

text \<open>A suffix that leads to a result has only acceptable prefixes.\<close>

lemma suffix_result_prefix:
  assumes "suffix_result (s @ y) = Some r"
  shows "suffix_result s = Some None \<or> y = []"
proof (cases "31 \<in> set s")
  case True
  then obtain i where i: "index_of [31] s = Some i" using index_of_single_None [of 31 s] by auto
  from index_of_append [OF i, of y] have "index_of [31] (s @ y) = Some i" .
  then have "i = length (s @ y) - 1"
    using assms by (auto simp: suffix_result_def split: option.splits if_splits)
  then show ?thesis using index_of_bound [OF i] by auto
next
  case False
  then have none: "index_of [31] s = None" by (simp add: index_of_single_None)
  have "length s \<le> 3 \<and> list_all is_digit s"
  proof (cases "index_of [31] (s @ y)")
    case None
    then show ?thesis using assms by (auto simp: suffix_result_def split: if_splits)
  next
    case (Some i)
    have "length s \<le> i"
      using index_of_single [OF Some] False by (metis in_set_conv_nth linorder_not_le nth_append)
    then have "take i (s @ y) = s @ take (i - length s) y" by simp
    moreover have "exit_code (take i (s @ y)) \<noteq> None"
      using assms Some by (auto simp: suffix_result_def split: option.splits)
    ultimately obtain c where "exit_code (s @ take (i - length s) y) = Some c" by auto
    from exit_code_shape [OF this] show ?thesis by simp
  qed
  then show ?thesis using none by (auto simp: suffix_result_def)
qed

lemma drop_drop_append: "i + n \<le> length d \<Longrightarrow> drop n (drop i d @ y) = drop (i + n) d @ y"
  by (simp add: add.commute)

lemma decode_data_split:
  assumes run: "decode_data (d @ y) p q" and y: "y \<noteq> []"
  shows "\<exists>u. decode_data d p u \<and> decode_data (decodedCarry u @ y) u q
    \<and> completeCode u = completeCode p"
proof -
  let ?m = "end_prefix p"
  show ?thesis
  proof (cases "index_of ?m d")
    case (Some i)
    have i: "i + length ?m \<le> length d" using index_of_bound [OF Some] .
    have whole: "index_of ?m (d @ y) = Some i" using index_of_append [OF Some] .
    have cut: "take i (d @ y) = take i d" "drop i (d @ y) = drop i d @ y"
      "drop (i + length ?m) (d @ y) = drop (i + length ?m) d @ y" using i by auto
    from run whole cut obtain r where room: "room p (take i d)"
      and r: "suffix_result (drop (i + length ?m) d @ y) = Some r"
      by (auto simp: decode_data_def split: option.splits)
    then have mid: "suffix_result (drop (i + length ?m) d) = Some None"
      using suffix_result_prefix y by blast
    define u where "u = (emitted p (take i d))\<lparr>decodedCarry := drop i d\<rparr>"
    have "decode_data d p u" using Some room mid by (simp add: decode_data_def u_def)
    moreover have "take (length ?m) (drop i d) = ?m"
      using Some by (simp add: index_of_Some occurs_def)
    then have start: "index_of ?m (drop i d @ y) = Some 0"
      using i by (simp add: index_of_Some occurs_0)
    have "decode_data (decodedCarry u @ y) u q"
      using run start whole cut r drop_drop_append [OF i]
      by (cases r) (simp_all add: decode_data_def u_def room_def del: take_append drop_append)
    ultimately show ?thesis by (auto simp: u_def)
  next
    case None
    let ?k = "overlap ?m d" let ?e = "take (length d - ?k) d" let ?c = "tail_of ?k d"
    have cat: "d @ y = ?e @ (?c @ y)" by (simp add: tail_of_def)
    have le: "length ?e = length d - ?k" by simp
    define u where "u = (emitted p ?e)\<lparr>decodedCarry := ?c\<rparr>"
    have index: "index_of ?m (d @ y) = map_option (\<lambda>i. i + (length d - ?k)) (index_of ?m (?c @ y))"
      by (rule index_of_stream [OF None]) simp
    have over: "overlap ?m (d @ y) = overlap ?m (?c @ y)" by (rule overlap_stream) simp
    have "room p ?e \<and> decode_data (?c @ y) u q"
    proof (cases "index_of ?m (?c @ y)")
      case (Some j)
      have t: "take (j + (length d - ?k)) (d @ y) = ?e @ take j (?c @ y)"
        "drop (j + (length d - ?k)) (d @ y) = drop j (?c @ y)"
        "drop (j + (length d - ?k) + length ?m) (d @ y) = drop (j + length ?m) (?c @ y)"
        unfolding cat using le by simp_all
      have w: "index_of ?m (d @ y) = Some (j + (length d - ?k))" using index Some by simp
      from run w t obtain r where "room p (?e @ take j (?c @ y))"
        and r: "suffix_result (drop (j + length ?m) (?c @ y)) = Some r"
        by (auto simp: decode_data_def simp del: take_append drop_append split: option.splits)
      from room_append [OF this(1)] show ?thesis
        using run w t Some r
          by (cases r) (simp_all add: decode_data_def u_def emitted_append del: take_append drop_append)
    next
      case None
      let ?o = "overlap ?m (?c @ y)"
      have "length (d @ y) - ?o = length ?e + (length (?c @ y) - ?o)"
        unfolding cat using overlap_le(1) [of ?m "?c @ y"] by simp
      then have t: "take (length (d @ y) - ?o) (d @ y) = ?e @ take (length (?c @ y) - ?o) (?c @ y)"
        "tail_of ?o (d @ y) = tail_of ?o (?c @ y)"
        unfolding tail_of_def cat by simp_all
      have w: "index_of ?m (d @ y) = None" using index None by simp
      from run w t over have "room p (?e @ take (length (?c @ y) - ?o) (?c @ y))"
        by (simp add: decode_data_def Let_def del: take_append drop_append)
      from room_append [OF this] show ?thesis
        using run w t over None
          by (simp add: decode_data_def Let_def u_def emitted_append del: take_append drop_append)
    qed
    moreover from this have "decode_data d p u"
      using None by (simp add: decode_data_def Let_def u_def)
    ultimately show ?thesis by (auto simp: u_def)
  qed
qed

lemma decode_output_split:
  assumes "decode_output (x @ y) p = (Inr (), q)" and "y \<noteq> []"
  shows "\<exists>u. decode_output x p = (Inr (), u) \<and> decode_output y u = (Inr (), q)
    \<and> completeCode u = completeCode p"
  using decode_data_split [of "decodedCarry p @ x" y p q] assms by (simp add: decode_output_Inr)

section \<open>The base64 layer\<close>

lemma b64_decode_append:
  "length g mod 4 = 0 \<Longrightarrow> 61 \<notin> set g \<Longrightarrow> b64_decode (g @ h) = b64_decode g @ b64_decode h"
  by (induction g rule: b64_decode.induct) (auto simp: Let_def)

lemma b64_decode_length:
  "length g mod 4 = 0 \<Longrightarrow> 61 \<notin> set g \<Longrightarrow> length (b64_decode g) = length g div 4 * 3"
  by (induction g rule: b64_decode.induct) (auto simp: Let_def)

lemma b64_decode_not_Nil: "4 \<le> length g \<Longrightarrow> b64_decode g \<noteq> []"
  by (cases g rule: b64_decode.cases) (auto simp: Let_def)

lemma b64_encode_append: "length x mod 3 = 0 \<Longrightarrow> b64_encode (x @ y) = b64_encode x @ b64_encode y"
  by (induction x rule: b64_encode.induct) auto

lemma b64_encode_length: "length x mod 3 = 0 \<Longrightarrow> length (b64_encode x) = length x div 3 * 4"
  by (induction x rule: b64_encode.induct) auto

lemma b64_canonical_suffix:
  assumes "b64_encode (b64_decode (g @ h)) = g @ h" "length g mod 4 = 0" "61 \<notin> set g"
  shows "b64_encode (b64_decode h) = h"
proof -
  have l: "length (b64_decode g) = length g div 4 * 3" using assms(2,3) by (rule b64_decode_length)
  then have m: "length (b64_decode g) mod 3 = 0" by simp
  have "b64_encode (b64_decode g) @ b64_encode (b64_decode h) = g @ h"
    using assms m by (simp add: b64_decode_append b64_encode_append)
  moreover have "length (b64_encode (b64_decode g)) = length g"
    using b64_encode_length [OF m] l assms(2) by auto
  ultimately show ?thesis by (simp add: append_eq_append_conv)
qed

lemma b64_shape_append: "b64_shape (x @ y) \<Longrightarrow> b64_shape x \<and> b64_shape y"
proof (induction x)
  case Nil
  then show ?case by (simp add: b64_shape_def)
next
  case (Cons c x)
  show ?case
  proof (cases "is_b64 c")
    case True
    with Cons show ?thesis by (simp add: b64_shape_def)
  next
    case False
    with Cons have "c = 61" "x @ y = [] \<or> x @ y = [61]" by (auto simp: b64_shape_def)
    moreover have "\<not> is_b64 61" by (simp add: is_b64_def is_alnum_def is_alpha_def is_digit_def)
    ultimately show ?thesis by (auto simp: b64_shape_def append_eq_Cons_conv)
  qed
qed

text \<open>One step on the collected data.\<close>

definition whole_groups :: "jsstr \<Rightarrow> nat" where
  "whole_groups data = length data - length data mod 4"

definition b64_step :: "jsstr \<Rightarrow> exec_parser \<Rightarrow> exec_parser \<Rightarrow> bool" where
  "b64_step data p t \<longleftrightarrow>
     b64_shape data \<and>
     (let n = whole_groups data; groups = take n data; rest = drop n data in
      if n = 0 then t = p\<lparr>base64Carry := rest\<rparr>
      else if 61 \<notin> set groups then decode_output (b64_decode groups) (p\<lparr>base64Carry := rest\<rparr>) = (Inr (), t)
      else rest = [] \<and> 61 \<notin> set (take (n - 2) groups) \<and> b64_encode (b64_decode groups) = groups
        \<and> decode_output (b64_decode groups) (p\<lparr>base64Carry := rest, padded := True\<rparr>) = (Inr (), t))"

lemma index_of_single_ge:
  assumes "index_of [c] d = Some i" shows "k \<le> i \<longleftrightarrow> c \<notin> set (take k d)"
proof
  assume "k \<le> i"
  then have "set (take k d) \<subseteq> set (take i d)" by (rule set_take_subset_set_take)
  then show "c \<notin> set (take k d)" using index_of_single [OF assms] by blast
next
  assume "c \<notin> set (take k d)"
  show "k \<le> i"
  proof (rule ccontr)
    assume "\<not> k \<le> i"
    then have "take k d ! i = c" "i < length (take k d)" using index_of_single [OF assms] by auto
    with \<open>c \<notin> set (take k d)\<close> show False by (metis nth_mem)
  qed
qed

lemma consume_base64_Inr:
  "consume_base64 text p0 = (Inr (), t) \<longleftrightarrow>
    (let p = p0\<lparr>encodedBytes := encodedBytes p0 + length text\<rparr> in
     encodedBytes p \<le> maxEncodedBytes p \<and> list_all is_b64_text text \<and>
     (if compact text = [] then t = p
      else \<not> padded p \<and> completeCode p = None \<and> b64_step (base64Carry p @ compact text) p t))"
proof -
  let ?p = "p0\<lparr>encodedBytes := encodedBytes p0 + length text\<rparr>"
  let ?d = "base64Carry ?p @ compact text" let ?n = "whole_groups ?d"
  have pad: "index_of [61] (take ?n ?d) = Some i \<Longrightarrow>
      61 \<in> set (take ?n ?d) \<and> (\<not> i < ?n - 2 \<longleftrightarrow> 61 \<notin> set (take (?n - 2) (take ?n ?d)))" for i
    using index_of_single [of 61 "take ?n ?d" i] index_of_single_ge [of 61 "take ?n ?d" i "?n - 2"]
    by (metis in_set_takeD index_of_single_None linorder_not_less option.distinct(1))
  show ?thesis
    unfolding consume_base64_def Let_def b64_step_def whole_groups_def [symmetric]
    using pad by (auto simp: fail_def index_of_single_None split: option.splits)
qed

lemma decode_data_frame:
  "decode_data d (p\<lparr>base64Carry := c\<rparr>) t \<longleftrightarrow> (\<exists>q. decode_data d p q \<and> t = q\<lparr>base64Carry := c\<rparr>)"
  "decode_data d (p\<lparr>padded := b\<rparr>) t \<longleftrightarrow> (\<exists>q. decode_data d p q \<and> t = q\<lparr>padded := b\<rparr>)"
  "decode_data d (p\<lparr>encodedBytes := e\<rparr>) t \<longleftrightarrow> (\<exists>q. decode_data d p q \<and> t = q\<lparr>encodedBytes := e\<rparr>)"
  unfolding decode_data_def by (auto simp: Let_def split: option.splits)

lemma decode_output_frame:
  "decode_output d (p\<lparr>base64Carry := c\<rparr>) = (Inr (), t) \<longleftrightarrow>
    (\<exists>q. decode_output d p = (Inr (), q) \<and> t = q\<lparr>base64Carry := c\<rparr>)"
  "decode_output d (p\<lparr>padded := b\<rparr>) = (Inr (), t) \<longleftrightarrow>
    (\<exists>q. decode_output d p = (Inr (), q) \<and> t = q\<lparr>padded := b\<rparr>)"
  "decode_output d (p\<lparr>encodedBytes := e\<rparr>) = (Inr (), t) \<longleftrightarrow>
    (\<exists>q. decode_output d p = (Inr (), q) \<and> t = q\<lparr>encodedBytes := e\<rparr>)"
  by (simp_all add: decode_output_Inr decode_data_frame)

lemma decode_data_same: "decode_data d p q \<Longrightarrow>
   base64Carry q = base64Carry p \<and> padded q = padded p \<and> encodedBytes q = encodedBytes p
   \<and> maxEncodedBytes q = maxEncodedBytes p \<and> phase q = phase p \<and> nonce q = nonce p
   \<and> failed q = failed p \<and> preludeCarry q = preludeCarry p"
  unfolding decode_data_def by (auto simp: Let_def split: option.splits)

lemmas decode_output_same = decode_data_same [of "decodedCarry p @ b" p q for p b q, folded decode_output_Inr]

lemma b64_step_frame:
  "b64_step d (p\<lparr>base64Carry := c\<rparr>) t \<longleftrightarrow> b64_step d p t"
  "b64_step d (p\<lparr>encodedBytes := e\<rparr>) t \<longleftrightarrow> (\<exists>q. b64_step d p q \<and> t = q\<lparr>encodedBytes := e\<rparr>)"
proof -
  show "b64_step d (p\<lparr>base64Carry := c\<rparr>) t \<longleftrightarrow> b64_step d p t" by (simp add: b64_step_def)
  show "b64_step d (p\<lparr>encodedBytes := e\<rparr>) t \<longleftrightarrow> (\<exists>q. b64_step d p q \<and> t = q\<lparr>encodedBytes := e\<rparr>)"
    unfolding b64_step_def Let_def decode_output_frame by auto
qed

lemma whole_groups_le: "whole_groups d \<le> length d" "length d < whole_groups d + 4"
  "whole_groups d mod 4 = 0"
  by (auto simp: whole_groups_def minus_mod_eq_mult_div)

lemma whole_groups_append:
  "whole_groups (d @ y) = whole_groups d + whole_groups (drop (whole_groups d) d @ y)"
proof -
  let ?n = "whole_groups d"
  have l: "length (d @ y) = ?n + length (drop ?n d @ y)" using whole_groups_le(1) [of d] by simp
  have "length (d @ y) mod 4 = length (drop ?n d @ y) mod 4"
    unfolding l using whole_groups_le(3) [of d] by presburger
  then show ?thesis unfolding whole_groups_def [of "d @ y"] whole_groups_def [of "drop ?n d @ y"]
    using l by (metis add_diff_assoc mod_less_eq_dividend)
qed

definition exec_final :: "exec_parser \<Rightarrow> bool" where
  "exec_final t \<longleftrightarrow> completeCode t = None \<or> base64Carry t = []"

lemma b64_step_split:
  assumes run: "b64_step (d @ y) p t" and y: "y \<noteq> []"
    and p: "\<not> padded p" "completeCode p = None" and final: "exec_final t"
  shows "\<exists>u. b64_step d p u \<and> \<not> padded u \<and> completeCode u = None \<and> b64_step (base64Carry u @ y) u t
    \<and> encodedBytes u = encodedBytes p \<and> maxEncodedBytes u = maxEncodedBytes p"
proof -
  define n where "n = whole_groups d"
  define r where "r = drop n d @ y"
  have n: "n \<le> length d" "length d < n + 4" "n mod 4 = 0" using whole_groups_le by (auto simp: n_def)
  have r: "whole_groups (d @ y) = n + whole_groups r" "drop n (d @ y) = r" "r \<noteq> []"
    using whole_groups_append [of d y] n y by (auto simp: n_def r_def)
  let ?g = "take n d" and ?h = "take (whole_groups r) r"
  have groups: "take (whole_groups (d @ y)) (d @ y) = ?g @ ?h"
      "drop (whole_groups (d @ y)) (d @ y) = drop (whole_groups r) r"
    using n by (simp_all add: r(1) r_def take_add add.commute)
  have cat: "?g @ r = d @ y" by (simp add: r_def flip: append_assoc)
  have "b64_shape (d @ y)" using run by (simp add: b64_step_def)
  then have shape: "b64_shape d" "b64_shape r"
    using b64_shape_append [of d y] b64_shape_append [of ?g r, unfolded cat] by simp_all
  have glen: "length ?g = n" "length ?g mod 4 = 0" using n by simp_all
  show ?thesis
  proof (cases "n = 0")
    case True
    define u where "u = p\<lparr>base64Carry := d\<rparr>"
    have "b64_step d p u" using shape True by (simp add: b64_step_def n_def [symmetric] u_def)
    moreover have "b64_step (base64Carry u @ y) u t" using run by (simp add: u_def b64_step_frame)
    ultimately show ?thesis using p by (intro exI [of _ u]) (auto simp: u_def)
  next
    case False
    then have n4: "4 \<le> n" using n(3) by presburger
    have nz: "n + whole_groups r \<noteq> 0" using False by simp
    note body = conjunct2 [OF run [unfolded b64_step_def Let_def groups, unfolded r(1) if_not_P [OF nz]]]
    have plain: "decode_output (b64_decode (?g @ ?h)) (p\<lparr>base64Carry := drop (whole_groups r) r\<rparr>) = (Inr (), t)"
      if "61 \<notin> set (?g @ ?h)"
      using body [unfolded if_P [OF that]] .
    have pads: "drop (whole_groups r) r = []" "61 \<notin> set (take (n + whole_groups r - 2) (?g @ ?h))"
      "b64_encode (b64_decode (?g @ ?h)) = ?g @ ?h"
      "decode_output (b64_decode (?g @ ?h)) (p\<lparr>base64Carry := drop (whole_groups r) r, padded := True\<rparr>)
        = (Inr (), t)"
      if "61 \<in> set (?g @ ?h)"
      using body [unfolded if_not_P [OF iffD2 [OF not_not that]]] by blast+
    show ?thesis
    proof (cases "whole_groups r = 0")
      case True
      have clear: "61 \<notin> set ?g" using pads(1) r(3) by (auto simp: True)
      then have "decode_output (b64_decode ?g) (p\<lparr>base64Carry := r\<rparr>) = (Inr (), t)"
        using plain by (simp add: True)
      then obtain q where q: "decode_output (b64_decode ?g) p = (Inr (), q)" "t = q\<lparr>base64Carry := r\<rparr>"
        by (auto simp: decode_output_frame)
      define u where "u = q\<lparr>base64Carry := drop n d\<rparr>"
      have "b64_step d p u"
        using q False clear shape
        by (simp add: b64_step_def Let_def n_def [symmetric] u_def decode_output_frame)
      moreover have "b64_step (base64Carry u @ y) u t"
        using True shape q by (simp add: b64_step_def Let_def u_def r_def)
      moreover have "completeCode q = None" using final r(3) by (simp add: exec_final_def q)
      ultimately show ?thesis
        using p decode_output_same [OF q(1)] by (intro exI [of _ u]) (auto simp: u_def)
    next
      case more: False
      have len: "length ?h = whole_groups r" using whole_groups_le(1) [of r] by simp
      have "4 \<le> whole_groups r" using more whole_groups_le(3) [of r] by presburger
      then have h: "?h \<noteq> []" "4 \<le> length ?h" using len by auto
      have "61 \<notin> set ?g"
      proof (cases "61 \<in> set (?g @ ?h)")
        case True
        then have "61 \<notin> set (take (n + whole_groups r - 2) (?g @ ?h))"
          by (rule pads(2))
        moreover have "n \<le> n + whole_groups r - 2" using h whole_groups_le [of r] by simp
        then have "set ?g \<subseteq> set (take (n + whole_groups r - 2) (?g @ ?h))"
          using glen(1) by (metis append_eq_conv_conj set_take_subset_set_take)
        ultimately show ?thesis by blast
      qed simp
      note clear = this
      have dec: "b64_decode (?g @ ?h) = b64_decode ?g @ b64_decode ?h"
        using glen(2) clear by (rule b64_decode_append)
      have nopad: "p\<lparr>base64Carry := c, padded := False\<rparr> = p\<lparr>base64Carry := c\<rparr>" for c
        using p(1) by (cases p) simp
      define pad where "pad = (61 \<in> set ?h)"
      have whole: "decode_output (b64_decode ?g @ b64_decode ?h)
          (p\<lparr>base64Carry := drop (whole_groups r) r, padded := pad\<rparr>) = (Inr (), t)"
        using plain pads(4) nopad clear dec by (cases pad) (simp_all add: pad_def del: take_append)
      have padding: "drop (whole_groups r) r = [] \<and> 61 \<notin> set (take (whole_groups r - 2) ?h)
          \<and> b64_encode (b64_decode ?h) = ?h" if pad
      proof -
        have c: "drop (whole_groups r) r = []" "61 \<notin> set (take (n + whole_groups r - 2) (?g @ ?h))"
          "b64_encode (b64_decode (?g @ ?h)) = ?g @ ?h"
          using pads(1-3) that by (simp_all add: pad_def del: take_append)
        have "n + whole_groups r - 2 = n + (whole_groups r - 2)" using h whole_groups_le [of r] by simp
        then have "take (n + whole_groups r - 2) (?g @ ?h) = ?g @ take (whole_groups r - 2) ?h"
          using n by simp
        with c(2) have "61 \<notin> set (take (whole_groups r - 2) ?h)" by (metis Un_iff set_append)
        then show ?thesis using c(1) b64_canonical_suffix [OF c(3) glen(2) clear] by blast
      qed
      from whole obtain q where q: "decode_output (b64_decode ?g @ b64_decode ?h) p = (Inr (), q)"
          "t = q\<lparr>base64Carry := drop (whole_groups r) r, padded := pad\<rparr>"
        by (auto simp: decode_output_frame)
      from decode_output_split [OF q(1) b64_decode_not_Nil [OF h(2)]]
      obtain v where v: "decode_output (b64_decode ?g) p = (Inr (), v)"
        "decode_output (b64_decode ?h) v = (Inr (), q)" "completeCode v = completeCode p" by blast
      define u where "u = v\<lparr>base64Carry := drop n d\<rparr>"
      have "b64_step d p u"
        using v False clear shape
        by (simp add: b64_step_def Let_def n_def [symmetric] u_def decode_output_frame)
      moreover have "padded v = False" using decode_output_same [OF v(1)] p by simp
      then have "b64_step (base64Carry u @ y) u t"
        using more shape padding v q decode_output_same [OF v(2)]
        by (cases pad) (auto simp: b64_step_def Let_def u_def r_def [symmetric] pad_def decode_output_frame)
      ultimately show ?thesis
        using p v decode_output_same [OF v(1)] by (intro exI [of _ u]) (auto simp: u_def)
    qed
  qed
qed

lemma compact_append [simp]: "compact (a @ b) = compact a @ compact b"
  by (simp add: compact_def)

lemma b64_step_same: "b64_step d p t \<Longrightarrow> encodedBytes t = encodedBytes p \<and> maxEncodedBytes t = maxEncodedBytes p
    \<and> phase t = phase p \<and> nonce t = nonce p \<and> failed t = failed p \<and> preludeCarry t = preludeCarry p"
  by (auto simp: b64_step_def Let_def split: if_splits dest: decode_output_same)

lemma consume_base64_split:
  assumes run: "consume_base64 (a @ b) s = (Inr (), t)" and final: "exec_final t"
  shows "\<exists>u. consume_base64 a s = (Inr (), u) \<and> consume_base64 b u = (Inr (), t)"
proof -
  let ?p = "s\<lparr>encodedBytes := encodedBytes s + length a\<rparr>"
  let ?q = "s\<lparr>encodedBytes := encodedBytes s + length a + length b\<rparr>"
  have lim: "encodedBytes s + length a + length b \<le> maxEncodedBytes s"
    and chars: "list_all is_b64_text a" "list_all is_b64_text b"
    using run by (auto simp: consume_base64_Inr Let_def add.assoc)
  have step: "compact a @ compact b \<noteq> [] \<Longrightarrow>
      \<not> padded s \<and> completeCode s = None \<and> b64_step (base64Carry s @ compact a @ compact b) ?q t"
    and none: "compact a = [] \<Longrightarrow> compact b = [] \<Longrightarrow> t = ?q"
    using run by (auto simp: consume_base64_Inr Let_def add.assoc split: if_splits)
  show ?thesis
  proof (cases "compact a = []")
    case True
    then have "consume_base64 a s = (Inr (), ?p)"
      using lim chars by (simp add: consume_base64_Inr Let_def)
    moreover have "consume_base64 b ?p = (Inr (), t)"
      using True step none lim chars by (auto simp: consume_base64_Inr Let_def)
    ultimately show ?thesis by blast
  next
    case False
    have q: "?q = ?p\<lparr>encodedBytes := encodedBytes s + length a + length b\<rparr>" by simp
    have st: "\<not> padded s" "completeCode s = None"
      "b64_step (base64Carry s @ compact a @ compact b) ?q t" using step False by auto
    from st(3) obtain v where v: "b64_step (base64Carry s @ compact a @ compact b) ?p v"
      "t = v\<lparr>encodedBytes := encodedBytes s + length a + length b\<rparr>"
      unfolding q b64_step_frame by blast
    have fin: "exec_final v" using final v(2) by (simp add: exec_final_def)
    show ?thesis
    proof (cases "compact b = []")
      case True
      then have "b64_step (base64Carry ?p @ compact a) ?p v" using v(1) by simp
      then have "consume_base64 a s = (Inr (), v)"
        using lim chars st False by (simp add: consume_base64_Inr Let_def)
      moreover have "consume_base64 b v = (Inr (), t)"
        using True lim chars v(2) b64_step_same [OF v(1)] by (simp add: consume_base64_Inr Let_def)
      ultimately show ?thesis by blast
    next
      case more: False
      have "b64_step ((base64Carry s @ compact a) @ compact b) ?p v" using v(1) by simp
      from b64_step_split [OF this more _ _ fin] st obtain u where u:
        "b64_step (base64Carry s @ compact a) ?p u" "\<not> padded u" "completeCode u = None"
        "b64_step (base64Carry u @ compact b) u v"
        "encodedBytes u = encodedBytes ?p" "maxEncodedBytes u = maxEncodedBytes ?p" by auto
      have "consume_base64 a s = (Inr (), u)"
        using u(1) lim chars st False by (simp add: consume_base64_Inr Let_def)
      moreover have "b64_step (base64Carry u @ compact b)
          (u\<lparr>encodedBytes := encodedBytes s + length a + length b\<rparr>) t"
        using u(4) v(2) unfolding b64_step_frame(2) by blast
      then have "consume_base64 b u = (Inr (), t)"
        using u lim chars more by (simp add: consume_base64_Inr Let_def)
      ultimately show ?thesis by blast
    qed
  qed
qed

section \<open>The markers\<close>

definition ascii :: "jsstr \<Rightarrow> bool" where
  "ascii s \<longleftrightarrow> (\<forall>u\<in>set s. u < 128)"

lemma ascii_append [simp]: "ascii (a @ b) \<longleftrightarrow> ascii a \<and> ascii b"
  by (auto simp: ascii_def)

lemma ascii_take: "ascii s \<Longrightarrow> ascii (take n s)" and ascii_drop: "ascii s \<Longrightarrow> ascii (drop n s)"
  by (auto simp: ascii_def dest: in_set_takeD in_set_dropD)

lemma byte_length_ascii: "ascii s \<Longrightarrow> byte_length s = length s"
  by (simp add: byte_length_def ascii_def utf8_ascii)

text \<open>The carry of a search in progress is a proper prefix of its marker.\<close>

definition partial :: "jsstr \<Rightarrow> jsstr \<Rightarrow> bool" where
  "partial marker c \<longleftrightarrow> length c < length marker \<and> c = take (length c) marker"

lemma partial_tail: "marker \<noteq> [] \<Longrightarrow> partial marker (tail_of (overlap marker d) d)"
  using overlap_spec(1) [of marker d] by (cases marker) (auto simp: partial_def overlaps_def)

lemma partial_index: "partial marker c \<Longrightarrow> index_of marker c = None"
  by (auto simp: partial_def index_of_None occurs_def)

lemma partial_overlap: "partial marker c \<Longrightarrow> overlap marker c = length c"
  by (rule overlap_unique) (auto simp: partial_def overlaps_def tail_of_def)

lemma partial_ascii: "partial marker c \<Longrightarrow> ascii marker \<Longrightarrow> ascii c"
  unfolding partial_def by (metis ascii_take)

lemma seek_Inr:
  "seek marker text p = (Inr r, t) \<longleftrightarrow>
    (let data = preludeCarry p @ text;
         cut = (case index_of marker data of Some i \<Rightarrow> i | None \<Rightarrow> length data - overlap marker data) in
     preludeBytes p + byte_length (take cut data) \<le> maxPreludeBytes p \<and>
     (case index_of marker data of
        Some i \<Rightarrow> r = Some (drop (i + length marker) data)
          \<and> t = p\<lparr>preludeBytes := preludeBytes p + byte_length (take cut data), preludeCarry := []\<rparr>
      | None \<Rightarrow> r = None
          \<and> t = p\<lparr>preludeBytes := preludeBytes p + byte_length (take cut data), preludeCarry := drop cut data\<rparr>))"
  unfolding seek_def Let_def by (auto simp: fail_def split: option.splits)

lemma seek_split:
  assumes run: "seek marker (a @ b) p = (Inr r, t)" and m: "marker \<noteq> []"
    and asc: "ascii (preludeCarry p)" "ascii (a @ b)"
  shows "(\<exists>rest. seek marker a p = (Inr (Some rest), t) \<and> r = Some (rest @ b)) \<or>
    (\<exists>u. seek marker a p = (Inr None, u) \<and> seek marker b u = (Inr r, t))"
proof -
  obtain d where d: "preludeCarry p @ a = d" "ascii d" using asc by simp
  have db: "preludeCarry p @ a @ b = d @ b" "ascii (d @ b)" using d asc by auto
  have bl: "byte_length (take n d) = length (take n d)" "byte_length (take n (d @ b)) = length (take n (d @ b))" for n
    using byte_length_ascii ascii_take d(2) db(2) by blast+
  show ?thesis
  proof (cases "index_of marker d")
    case (Some i)
    have i: "i + length marker \<le> length d" using index_of_bound [OF Some] .
    have "index_of marker (d @ b) = Some i" using index_of_append [OF Some] .
    with run Some i bl show ?thesis by (auto simp: seek_Inr Let_def d db)
  next
    case None
    define k where "k = overlap marker d"
    define c where "c = tail_of k d"
    have le: "k \<le> length d" unfolding k_def by (rule overlap_le)
    obtain h where h: "length d = h + k" using le by (metis le_add_diff_inverse2)
    have cat: "d @ b = take h d @ (c @ b)" and cd: "drop h d = c" and lc: "length (take h d) = h"
      by (simp_all add: c_def tail_of_def h)
    define u where "u = p\<lparr>preludeBytes := preludeBytes p + h, preludeCarry := c\<rparr>"
    have index: "index_of marker (d @ b) = map_option (\<lambda>i. i + h) (index_of marker (c @ b))"
      using index_of_stream [OF None m, of b] by (simp add: c_def k_def [symmetric] h)
    have over: "overlap marker (d @ b) = overlap marker (c @ b)"
      unfolding c_def k_def by (rule overlap_stream [OF m])
    have "ascii (c @ b)" using db(2) unfolding cat by simp
    then have cl: "byte_length (take n (c @ b)) = length (take n (c @ b))" for n
      using byte_length_ascii ascii_take by blast
    have cut: "take (h + n) (d @ b) = take h d @ take n (c @ b)" "drop (h + n) (d @ b) = drop n (c @ b)" for n
      unfolding cat using lc by simp_all
    have len: "length (take (h + n) (d @ b)) = h + length (take n (c @ b))" for n
      unfolding cut using lc by simp
    have first: "seek marker a p = (Inr None, u)" if "preludeBytes p + h \<le> maxPreludeBytes p"
      using None that bl lc by (simp add: seek_Inr Let_def d u_def h cd flip: k_def)
    have "preludeBytes p + h \<le> maxPreludeBytes p \<and> seek marker b u = (Inr r, t)"
    proof (cases "index_of marker (c @ b)")
      case (Some j)
      have w: "index_of marker (d @ b) = Some (h + j)" using index Some by (simp add: add.commute)
      from run w have "preludeBytes p + (h + length (take j (c @ b))) \<le> maxPreludeBytes p"
        "r = Some (drop (j + length marker) (c @ b))"
        "t = p\<lparr>preludeBytes := preludeBytes p + (h + length (take j (c @ b))), preludeCarry := []\<rparr>"
        using cut(2) [of "j + length marker"]
        by (simp_all add: seek_Inr Let_def db bl len add.assoc del: length_take length_append take_append drop_append)
      then show ?thesis using Some cl
        by (simp add: seek_Inr Let_def u_def add.assoc del: length_take take_append drop_append)
    next
      case n: None
      define e where "e = length (c @ b) - overlap marker (c @ b)"
      have w: "index_of marker (d @ b) = None" using index n by simp
      have ld: "length (d @ b) - overlap marker (d @ b) = h + e"
        using overlap_le(1) [of marker "c @ b"] lc unfolding over e_def by (simp add: cat)
      from run w have "preludeBytes p + (h + length (take e (c @ b))) \<le> maxPreludeBytes p"
        "r = None" "t = p\<lparr>preludeBytes := preludeBytes p + (h + length (take e (c @ b))),
          preludeCarry := drop e (c @ b)\<rparr>"
        using cut(2) [of e]
        by (simp_all add: seek_Inr Let_def db bl len ld add.assoc del: length_take length_append take_append drop_append)
      then show ?thesis using n cl
        by (simp add: seek_Inr Let_def u_def add.assoc e_def [symmetric]
            del: length_append length_take take_append drop_append)
    qed
    with first have "seek marker a p = (Inr None, u) \<and> seek marker b u = (Inr r, t)" by blast
    then show ?thesis by blast
  qed
qed

end
