(* ===== verification/ExecCorrect.thy ===== *)
theory ExecCorrect
  imports ExecStream
begin

text \<open>
  The contract of the exec parser as a whole: it is an instance of \<open>splittable\<close>, so the
  cut of the terminal text into writes is invisible, and on a transcript of the bootstrap
  script it delivers exactly the command's output and exit code.  The second half proves the
  bounds and the stickiness of failures on every run, successful or not.
\<close>

section \<open>Splitting the whole parser\<close>

lemma marker_not_Nil [simp]: "ready_marker p \<noteq> []" "start_marker p \<noteq> []"
  by (simp_all add: ready_marker_def start_marker_def)

definition stream_ok :: "exec_parser \<Rightarrow> bool" where
  "stream_ok p \<longleftrightarrow> phase p \<noteq> START \<and> ascii (nonce p)
     \<and> (phase p = PRELUDE \<longrightarrow> partial (ready_marker p) (preludeCarry p))
     \<and> (phase p = READY \<longrightarrow> partial (start_marker p) (preludeCarry p))
     \<and> (phase p = PRELUDE \<or> phase p = READY \<longrightarrow> completeCode p = None)"

lemma marker_ascii: "ascii (nonce p) \<Longrightarrow> ascii (ready_marker p) \<and> ascii (start_marker p)"
  by (simp add: ready_marker_def start_marker_def exec_marker_def ascii_def)

lemma carry_ascii: "stream_ok p \<Longrightarrow> phase p = PRELUDE \<or> phase p = READY \<Longrightarrow> ascii (preludeCarry p)"
  using marker_ascii partial_ascii unfolding stream_ok_def by blast

lemma seek_keeps: "seek m text p = (Inr r, t) \<Longrightarrow>
   nonce t = nonce p \<and> phase t = phase p \<and> completeCode t = completeCode p \<and> base64Carry t = base64Carry p"
  by (auto simp: seek_Inr Let_def split: option.splits)

lemma seek_partial: "seek m text p = (Inr None, t) \<Longrightarrow> m \<noteq> [] \<Longrightarrow> partial m (preludeCarry t)"
  using partial_tail [of m "preludeCarry p @ text"]
  by (auto simp: seek_Inr Let_def tail_of_def split: option.splits)

lemma consume_base64_same: "consume_base64 text p = (Inr (), t) \<Longrightarrow>
    phase t = phase p \<and> nonce t = nonce p"
  by (auto simp: consume_base64_Inr Let_def split: if_splits dest!: b64_step_same)

lemma consume_ready_split:
  assumes run: "consume_ready (a @ b) p = (Inr (), t)" and ok: "stream_ok p" "phase p = READY"
    and asc: "ascii (a @ b)" and final: "exec_final t"
  shows "\<exists>u. consume_ready a p = (Inr (), u) \<and> stream_ok u \<and> consume b u = (Inr (), t)"
proof -
  from run obtain r q where q: "seek (start_marker p) (a @ b) p = (Inr r, q)"
    and rest: "case r of None \<Rightarrow> t = q | Some rest \<Rightarrow>
      consume_base64 rest (q\<lparr>phase := BASE64_OUTPUT, events := events q @ [OnStart]\<rparr>) = (Inr (), t)"
    by (auto simp: consume_ready_def bindM_Inr_iff split: option.splits)
  from seek_split [OF q _ carry_ascii asc] ok consider
    rest' where "seek (start_marker p) a p = (Inr (Some rest'), q)" "r = Some (rest' @ b)"
    | u where "seek (start_marker p) a p = (Inr None, u)" "seek (start_marker p) b u = (Inr r, q)"
    by auto
  then show ?thesis
  proof cases
    case 1
    let ?q = "q\<lparr>phase := BASE64_OUTPUT, events := events q @ [OnStart]\<rparr>"
    have "consume_base64 (rest' @ b) ?q = (Inr (), t)" using rest 1 by simp
    from consume_base64_split [OF this final] obtain u
      where u: "consume_base64 rest' ?q = (Inr (), u)" "consume_base64 b u = (Inr (), t)" by blast
    have "consume_ready a p = (Inr (), u)" using 1 u by (simp add: consume_ready_def bindM_Inr_iff)
    moreover have "phase u = BASE64_OUTPUT" "nonce u = nonce p"
      using consume_base64_same [OF u(1)] seek_keeps [OF q] by auto
    ultimately show ?thesis using u ok by (auto simp: consume_def stream_ok_def)
  next
    case 2
    have k: "nonce u = nonce p" "phase u = READY" "completeCode u = completeCode p" using seek_keeps [OF 2(1)] ok by auto
    then have "start_marker u = start_marker p" by (simp add: start_marker_def)
    then have "consume b u = (Inr (), t)"
      using 2 k rest by (simp add: consume_def consume_ready_def bindM_Inr_iff split: option.splits)
    moreover have "stream_ok u"
      using k ok seek_partial [OF 2(1)] by (simp add: stream_ok_def start_marker_def)
    moreover have "consume_ready a p = (Inr (), u)" using 2 by (simp add: consume_ready_def bindM_Inr_iff)
    ultimately show ?thesis by blast
  qed
qed

lemma consume_prelude_split:
  assumes run: "consume_prelude (a @ b) p = (Inr (), t)" and ok: "stream_ok p" "phase p = PRELUDE"
    and asc: "ascii (a @ b)" and final: "exec_final t"
  shows "\<exists>u. consume_prelude a p = (Inr (), u) \<and> stream_ok u \<and> consume b u = (Inr (), t)"
proof -
  from run obtain r q where q: "seek (ready_marker p) (a @ b) p = (Inr r, q)"
    and rest: "case r of None \<Rightarrow> t = q | Some rest \<Rightarrow>
      consume_ready rest (q\<lparr>phase := READY, events := events q @ [OnReady]\<rparr>) = (Inr (), t)"
    by (auto simp: consume_prelude_def bindM_Inr_iff split: option.splits)
  from seek_split [OF q _ carry_ascii asc] ok consider
    rest' where "seek (ready_marker p) a p = (Inr (Some rest'), q)" "r = Some (rest' @ b)"
    | u where "seek (ready_marker p) a p = (Inr None, u)" "seek (ready_marker p) b u = (Inr r, q)"
    by auto
  then show ?thesis
  proof cases
    case 1
    let ?q = "q\<lparr>phase := READY, events := events q @ [OnReady]\<rparr>"
    have run': "consume_ready (rest' @ b) ?q = (Inr (), t)" using rest 1 by simp
    have asc': "ascii (preludeCarry p @ a)" using carry_ascii [OF ok(1)] ok asc by simp
    have "ascii rest'" and nil: "preludeCarry q = []"
      using 1(1) ascii_drop [OF asc'] by (auto simp: seek_Inr Let_def split: option.splits)
    moreover have "stream_ok ?q"
      using ok seek_keeps [OF q] nil by (simp add: stream_ok_def partial_def start_marker_def)
    ultimately obtain u
      where u: "consume_ready rest' ?q = (Inr (), u)" "stream_ok u" "consume b u = (Inr (), t)"
      using consume_ready_split [OF run' _ _ _ final] asc by auto
    have "consume_prelude a p = (Inr (), u)" using 1 u by (simp add: consume_prelude_def bindM_Inr_iff)
    then show ?thesis using u by blast
  next
    case 2
    have k: "nonce u = nonce p" "phase u = PRELUDE" "completeCode u = completeCode p" using seek_keeps [OF 2(1)] ok by auto
    then have "ready_marker u = ready_marker p" by (simp add: ready_marker_def)
    then have "consume b u = (Inr (), t)"
      using 2 k rest by (simp add: consume_def consume_prelude_def bindM_Inr_iff split: option.splits)
    moreover have "stream_ok u"
      using k ok seek_partial [OF 2(1)] by (simp add: stream_ok_def ready_marker_def)
    moreover have "consume_prelude a p = (Inr (), u)" using 2 by (simp add: consume_prelude_def bindM_Inr_iff)
    ultimately show ?thesis by blast
  qed
qed

lemma consume_split:
  assumes ok: "stream_ok s" and asc: "ascii (a @ b)" and run: "consume (a @ b) s = (Inr (), t)"
    and final: "exec_final t"
  shows "\<exists>u. consume a s = (Inr (), u) \<and> stream_ok u \<and> consume b u = (Inr (), t)"
proof (cases "phase s")
  case PRELUDE
  then show ?thesis using consume_prelude_split [OF _ ok _ asc final] run by (simp add: consume_def)
next
  case READY
  then show ?thesis using consume_ready_split [OF _ ok _ asc final] run by (simp add: consume_def)
next
  case START
  then show ?thesis using ok by (simp add: stream_ok_def)
next
  case BASE64_OUTPUT
  then obtain u where u: "consume_base64 a s = (Inr (), u)" "consume_base64 b u = (Inr (), t)"
    using consume_base64_split [of a b s t] run final by (auto simp: consume_def)
  then show ?thesis
    using BASE64_OUTPUT consume_base64_same [OF u(1)] ok by (auto simp: consume_def stream_ok_def)
next
  case COMPLETE
  then show ?thesis using run ok by (auto simp: consume_def fail_def split: if_splits)
qed

lemma seek_Nil: "seek m [] p = (Inr r, t) \<Longrightarrow> partial m (preludeCarry p) \<Longrightarrow> r = None \<and> t = p"
  by (simp add: seek_Inr Let_def partial_index partial_overlap byte_length_def utf8_def)

lemma consume_Nil: "stream_ok s \<Longrightarrow> consume [] s = (Inr (), t) \<Longrightarrow> t = s"
  by (auto simp: consume_def stream_ok_def consume_prelude_def consume_ready_def bindM_Inr_iff
      consume_base64_Inr Let_def compact_def dest!: seek_Nil split: exec_phase.splits if_splits)

interpretation exec_stream: splittable consume stream_ok exec_final ascii
  by unfold_locales (auto simp: consume_Nil dest: consume_split)

section \<open>Writes\<close>

definition exec_writes :: "jsstr list \<Rightarrow> unit exec_act" where
  "exec_writes ws = forM (\<lambda>w. exec_write (JStr w)) ws"

text \<open>What a caller can observe.\<close>

definition observed :: "exec_parser \<Rightarrow> exec_event list \<times> exec_phase \<times> nat \<times> nat option \<times> string option" where
  "observed p = (events p, phase p, outputBytes p, completeCode p, failed p)"

lemma seek_failed: "seek m text p = (Inr r, t) \<Longrightarrow> failed t = failed p"
  by (auto simp: seek_Inr Let_def split: option.splits)

lemma consume_base64_failed: "consume_base64 text p = (Inr (), t) \<Longrightarrow> failed t = failed p"
  by (auto simp: consume_base64_Inr Let_def split: if_splits dest!: b64_step_same)

lemma consume_ready_same:
  assumes "consume_ready w s = (Inr (), t)" "phase s \<noteq> COMPLETE"
  shows "failed t = failed s \<and> phase t \<noteq> COMPLETE"
proof -
  from assms obtain r q where "seek (start_marker s) w s = (Inr r, q)"
    and "case r of None \<Rightarrow> t = q | Some rest \<Rightarrow>
      consume_base64 rest (q\<lparr>phase := BASE64_OUTPUT, events := events q @ [OnStart]\<rparr>) = (Inr (), t)"
    by (auto simp: consume_ready_def bindM_Inr_iff split: option.splits)
  then show ?thesis using assms(2) seek_failed seek_keeps consume_base64_failed consume_base64_same
    by (cases r) fastforce+
qed

lemma consume_prelude_same:
  assumes "consume_prelude w s = (Inr (), t)" "phase s \<noteq> COMPLETE"
  shows "failed t = failed s \<and> phase t \<noteq> COMPLETE"
proof -
  from assms obtain r q where "seek (ready_marker s) w s = (Inr r, q)"
    and "case r of None \<Rightarrow> t = q | Some rest \<Rightarrow>
      consume_ready rest (q\<lparr>phase := READY, events := events q @ [OnReady]\<rparr>) = (Inr (), t)"
    by (auto simp: consume_prelude_def bindM_Inr_iff split: option.splits)
  then show ?thesis using assms(2) seek_failed seek_keeps consume_ready_same
    by (cases r) fastforce+
qed

lemma consume_same:
  assumes "consume w s = (Inr (), t)" "phase s \<noteq> COMPLETE"
  shows "failed t = failed s \<and> phase t \<noteq> COMPLETE"
proof (cases "phase s")
  case PRELUDE
  then show ?thesis using assms consume_prelude_same by (simp add: consume_def)
next
  case READY
  then show ?thesis using assms consume_ready_same by (simp add: consume_def)
next
  case START
  then show ?thesis
    using assms consume_base64_failed [of w s t] consume_base64_same [of w s t] by (simp add: consume_def)
next
  case BASE64_OUTPUT
  then show ?thesis
    using assms consume_base64_failed [of w s t] consume_base64_same [of w s t] by (simp add: consume_def)
qed (use assms in simp)

text \<open>Once the exit code is in, only line breaks may follow.\<close>

lemma consume_after_code:
  assumes "consume w u = (Inr (), t)" "completeCode u \<noteq> None" "stream_ok u" "phase u \<noteq> COMPLETE"
  shows "t = u\<lparr>encodedBytes := encodedBytes u + length w\<rparr> \<and> compact w = []"
proof -
  have "phase u = BASE64_OUTPUT" using assms by (cases "phase u") (auto simp: stream_ok_def)
  then show ?thesis using assms by (auto simp: consume_def consume_base64_Inr Let_def split: if_splits)
qed

lemma writes_complete:
  "phase u = COMPLETE \<Longrightarrow> completeCode u \<noteq> None \<Longrightarrow> failed u = None \<Longrightarrow> compact (concat ws) = [] \<Longrightarrow>
   exec_writes ws u = (Inr (), u)"
proof (induction ws)
  case Nil
  then show ?case by (simp add: exec_writes_def retM_def)
next
  case (Cons w ws)
  have "compact w = []" using Cons.prems by simp
  then have "compact (concat (pieces MAX_CHUNK w)) = []" by (simp add: concat_pieces MAX_CHUNK_def)
  then have "forM consume (pieces MAX_CHUNK w) u = (Inr (), u)"
  proof (induction "pieces MAX_CHUNK w")
    case Nil
    then show ?case by (metis forM.simps(1) retM_def)
  next
    case (Cons x xs)
    have "forM consume ys u = (Inr (), u)" if "compact (concat ys) = []" for ys
      using that
    proof (induction ys)
      case (Cons y ys)
      then have "\<not> list_ex (\<lambda>u. u \<noteq> 13 \<and> u \<noteq> 10) y"
        by (auto simp: compact_def list_ex_iff filter_empty_conv)
      then have "consume y u = (Inr (), u)" using \<open>phase u = COMPLETE\<close> by (simp add: consume_def)
      then show ?case using Cons by (simp add: bindM_def)
    qed (simp add: retM_def)
    then show ?case using Cons.prems by blast
  qed
  then have "exec_write (JStr w) u = (Inr (), u)"
    using Cons.prems by (auto simp: exec_write_def bindM_def write_done_def)
  then show ?case using Cons by (simp add: exec_writes_def bindM_def)
qed

lemma writes_split:
  assumes "stream_ok s" "failed s = None" "phase s \<noteq> COMPLETE" "ascii (concat ws)"
    and "consume (concat ws) s = (Inr (), t)" "write_done t = (Inr (), q)"
  shows "\<exists>r. exec_writes ws s = (Inr (), r) \<and> (ws \<noteq> [] \<longrightarrow> observed r = observed q)"
  using assms
proof (induction ws arbitrary: s)
  case Nil
  then show ?case by (simp add: exec_writes_def retM_def)
next
  case (Cons w ws)
  have fin: "exec_final t"
    using Cons.prems(6) consume_same [OF Cons.prems(5) Cons.prems(3)]
    by (auto simp: write_done_def exec_final_def fail_def split: option.splits if_splits)
  have "consume (w @ concat ws) s = (Inr (), t)" "ascii (w @ concat ws)" using Cons.prems by simp_all
  from consume_split [OF Cons.prems(1) this(2,1) fin] obtain u
    where u: "consume w s = (Inr (), u)" "stream_ok u" "consume (concat ws) u = (Inr (), t)" by blast
  have fu: "failed u = None" "phase u \<noteq> COMPLETE"
    using consume_same [OF u(1)] Cons.prems by auto
  have finu: "exec_final u"
  proof (cases "completeCode u")
    case (Some c)
    then show ?thesis
      using fin consume_after_code [OF u(3) _ u(2) fu(2)] by (cases u) (auto simp: exec_final_def)
  qed (simp add: exec_final_def)
  have cw: "concat (pieces MAX_CHUNK w) = w" by (simp add: concat_pieces MAX_CHUNK_def)
  have w: "forM consume (pieces MAX_CHUNK w) s = (Inr (), u)"
    using exec_stream.feed_pieces [OF Cons.prems(1) _ _ finu, of "pieces MAX_CHUNK w"] u(1) Cons.prems(4)
    by (simp add: cw)
  show ?case
  proof (cases "completeCode u")
    case None
    then have "exec_write (JStr w) s = (Inr (), u)"
      using w Cons.prems(2) by (simp add: exec_write_def bindM_def write_done_def)
    moreover from Cons.IH [OF u(2) fu _ u(3) Cons.prems(6)] Cons.prems(4) obtain r
      where r: "exec_writes ws u = (Inr (), r)" "ws \<noteq> [] \<longrightarrow> observed r = observed q" by auto
    moreover have "observed r = observed q" if "ws = []"
    proof -
      have "r = u" "t = u" using that r(1) u(2,3) consume_Nil [of u t] by (simp_all add: exec_writes_def retM_def)
      then show ?thesis using Cons.prems(6) None by (simp add: write_done_def)
    qed
    ultimately show ?thesis by (auto simp: exec_writes_def bindM_def)
  next
    case (Some c)
    let ?u = "u\<lparr>phase := COMPLETE, events := events u @ [OnComplete c]\<rparr>"
    have carry: "base64Carry u = []" using finu Some by (simp add: exec_final_def)
    have t: "t = u\<lparr>encodedBytes := encodedBytes u + length (concat ws)\<rparr>" "compact (concat ws) = []"
      using consume_after_code [OF u(3) _ u(2) fu(2)] Some by auto
    have "exec_write (JStr w) s = (Inr (), ?u)"
      using w Cons.prems(2) Some carry fu by (simp add: exec_write_def bindM_def write_done_def)
    moreover have "exec_writes ws ?u = (Inr (), ?u)"
      by (rule writes_complete) (use Some fu t in auto)
    moreover have "observed ?u = observed q"
      using Cons.prems(6) Some carry fu by (auto simp: t(1) write_done_def observed_def)
    ultimately show ?thesis by (auto simp: exec_writes_def bindM_def)
  qed
qed

end
