(* ===== verification/ExecTranscript.thy ===== *)
theory ExecTranscript
  imports ExecCorrect
begin

text \<open>
  The exec parser against the transcript its bootstrap script produces, and its safety on
  arbitrary input.  Markers start with the control character 30, which they do not contain
  again, so a marker that is absent from a text is first found where the text ends.
\<close>

section \<open>Base64 round trip\<close>

lemma b64_value_char [simp]: "v < 64 \<Longrightarrow> b64_value (b64_char v) = v"
  by (auto simp: b64_value_def b64_char_def)

lemma b64_char_is [simp]: "v < 64 \<Longrightarrow> is_b64 (b64_char v)"
  by (auto simp: is_b64_def b64_char_def is_alnum_def is_alpha_def is_digit_def)

lemma b64_char_pad [simp]: "v < 64 \<Longrightarrow> b64_char v \<noteq> 61"
  by (auto simp: b64_char_def)

lemma byte_parts [simp]:
  fixes y :: nat
  assumes "y < 256"
  shows "y div 4 < 64" "y div 16 < 16" "y div 64 < 4"
  using assms by (simp_all add: less_mult_imp_div_less)

lemma byte_parts_mod [simp]:
  fixes y :: nat
  assumes "y < 256"
  shows "y div 16 mod 16 = y div 16" "y div 16 div 16 = 0" "y div 64 mod 4 = y div 64" "y div 64 div 4 = 0"
  using byte_parts [OF assms] by simp_all

lemma scaled_mod: "(x::nat) mod 4 * 16 \<le> 48" "(x::nat) mod 16 * 4 \<le> 60"
  using mod_less_divisor [of 4 x] mod_less_divisor [of 16 x] by linarith+

lemma sextets [simp]: "(x::nat) mod 4 * 16 < 64" "(x::nat) mod 16 * 4 < 64"
  "(y::nat) < 256 \<Longrightarrow> x mod 4 * 16 + y div 16 < 64" "(y::nat) < 256 \<Longrightarrow> x mod 16 * 4 + y div 64 < 64"
  using scaled_mod [of x] byte_parts [of y] by linarith+

lemma b64_roundtrip: "\<forall>b\<in>set bs. b < 256 \<Longrightarrow> b64_decode (b64_encode bs) = bs"
  by (induction bs rule: b64_encode.induct) (simp_all add: Let_def)

lemma pad_not_b64 [simp]: "\<not> is_b64 61"
  by (simp add: is_b64_def is_alnum_def is_alpha_def is_digit_def)

lemma b64_encode_shape: "\<forall>b\<in>set bs. b < 256 \<Longrightarrow> b64_shape (b64_encode bs)"
  by (induction bs rule: b64_encode.induct) (simp_all add: b64_shape_def)

lemma b64_encode_mod4: "length (b64_encode bs) mod 4 = 0"
  by (induction bs rule: b64_encode.induct) simp_all

lemma b64_encode_Nil [simp]: "b64_encode bs = [] \<longleftrightarrow> bs = []"
  by (cases bs rule: b64_encode.cases) simp_all

lemma padding_position:
  assumes "b64_shape d" "index_of [61] d = Some i"
  shows "length d - 2 \<le> i"
proof -
  have d: "d = takeWhile is_b64 d @ dropWhile is_b64 d" by simp
  have "length (dropWhile is_b64 d) \<in> length ` {[], [61 :: nat], [61, 61]}"
    using assms(1) unfolding b64_shape_def by (rule imageI)
  then have "length (dropWhile is_b64 d) \<le> 2" by (auto simp del: dropWhile_eq_Nil_conv)
  then have "length d - 2 \<le> length (takeWhile is_b64 d)"
    by (metis d length_append add_le_imp_le_diff diff_le_mono add.commute le_diff_conv nat_add_left_cancel_le)
  moreover have "length (takeWhile is_b64 d) \<le> i"
  proof (rule ccontr)
    assume "\<not> length (takeWhile is_b64 d) \<le> i"
    then have i: "i < length (takeWhile is_b64 d)" by simp
    then have "takeWhile is_b64 d ! i = d ! i" by (simp add: takeWhile_nth)
    moreover have "is_b64 (takeWhile is_b64 d ! i)" using nth_mem [OF i] by (auto dest: set_takeWhileD)
    moreover have "d ! i = 61" using assms(2)
      by (auto simp: index_of_Some occurs_def take_Suc hd_drop_conv_nth)
    ultimately show False by simp
  qed
  ultimately show ?thesis by simp
qed

section \<open>The first occurrence of a marker\<close>

lemma index_of_marker:
  assumes none: "index_of (h # m) out = None" and h: "h \<notin> set m"
  shows "index_of (h # m) (out @ (h # m) @ rest) = Some (length out)"
  unfolding index_of_Some
proof (intro conjI allI impI notI)
  show "occurs (h # m) (out @ (h # m) @ rest) (length out)" by (simp add: occurs_def)
next
  fix j assume j: "j < length out" and o: "occurs (h # m) (out @ (h # m) @ rest) j"
  show False
  proof (cases "j + length (h # m) \<le> length out")
    case True
    then have "occurs (h # m) out j" using o j by (simp add: occurs_def)
    then show ?thesis using none index_of_None by blast
  next
    case False
    define k where "k = length out - j"
    then have k: "0 < k" "k \<le> length m" "j + k = length out" using False j by auto
    have "(take (length (h # m)) (drop j (out @ (h # m) @ rest))) ! k = (h # m) ! k"
      using o by (simp only: occurs_def)
    then have "(out @ (h # m) @ rest) ! (j + k) = (h # m) ! k" using k by (simp del: drop_append take_append)
    then have "h = m ! (k - 1)" using k by (simp add: nth_Cons')
    then show ?thesis using h k nth_mem [of "k - 1" m] by simp
  qed
qed

lemma nonce_ordinary: "valid_nonce n \<Longrightarrow> u \<in> set n \<Longrightarrow> 48 \<le> u \<and> u \<le> 102"
  by (auto simp: valid_nonce_def list_all_iff is_lower_hex_def is_digit_def)

lemma marker_shape:
  assumes "valid_nonce (nonce p)"
  shows "\<exists>m. ready_marker p = 30 # m \<and> 30 \<notin> set m" "\<exists>m. start_marker p = 30 # m \<and> 30 \<notin> set m"
    "\<exists>m. end_prefix p = 30 # m \<and> 30 \<notin> set m"
  using nonce_ordinary [OF assms, of 30]
  by (auto simp: ready_marker_def start_marker_def end_prefix_def exec_marker_def js_def)

lemmas marker_first = index_of_marker [where h = "30 :: nat"]

lemma seek_found:
  assumes "index_of m pre = None" "m = 30 # m'" "30 \<notin> set m'" "preludeCarry p = []" "ascii pre"
    and "preludeBytes p + length pre \<le> maxPreludeBytes p"
  shows "seek m (pre @ m @ rest) p =
    (Inr (Some rest), p\<lparr>preludeBytes := preludeBytes p + length pre, preludeCarry := []\<rparr>)"
proof -
  have "index_of m (pre @ m @ rest) = Some (length pre)" using assms marker_first by simp
  moreover have "byte_length pre = length pre"
    using assms(5) utf8_ascii [of pre] by (simp add: byte_length_def ascii_def)
  ultimately show ?thesis using assms(4,6) by (simp add: seek_def Let_def)
qed

section \<open>The exit code\<close>

lemma dec_hd: "0 < n \<Longrightarrow> hd (dec n) \<noteq> 48"
  unfolding dec_def
proof (induction n rule: less_induct)
  case (less n)
  show ?case
  proof (cases "n < 10")
    case False
    then have "hd (radix_digits 10 (n div 10)) \<noteq> 48" using less by simp
    then show ?thesis using False radix_digits_not_Nil [of 10 "n div 10"]
      by (subst radix_digits.simps) simp
  qed (use less in \<open>subst radix_digits.simps, simp\<close>)
qed

lemma exit_code_dec: "c \<le> 255 \<Longrightarrow> exit_code (dec c) = Some c"
proof -
  assume c: "c \<le> 255"
  have l: "length (dec c) \<le> 3" using radix_digits_length [of 10 c 3] c by (simp add: dec_def)
  have d: "list_all is_digit (dec c)" by (simp add: list_all_iff dec_digits)
  have z: "dec 0 = [48]" by (simp add: dec_def radix_digits.simps)
  show ?thesis
  proof (cases "c = 0")
    case True
    then show ?thesis by (simp add: exit_code_def z radix_value_def)
  next
    case False
    then show ?thesis using c l d dec_hd by (simp add: exit_code_def)
  qed
qed

lemma dec_terminator: "index_of [31] (dec c @ [31]) = Some (length (dec c))"
proof -
  have "31 \<notin> set (dec c)" using dec_digits [of 31 c] by (auto simp: is_digit_def)
  then have "index_of [31] (dec c) = None"
    by (auto simp: index_of_None occurs_def take_Suc hd_drop_conv_nth Suc_le_eq) (metis nth_mem)
  from index_of_marker [OF this, of "[]"] show ?thesis by simp
qed

lemma decode_transcript:
  assumes "index_of (end_prefix p) out = None" "valid_nonce (nonce p)" "decodedCarry p = []"
    and "outputBytes p + length out \<le> maxOutputBytes p" "c \<le> 255"
  shows "decode_output (out @ end_prefix p @ dec c @ [31]) p =
    (Inr (), (emitted p out)\<lparr>completeCode := Some c, decodedCarry := []\<rparr>)"
proof -
  obtain m where m: "end_prefix p = 30 # m" "30 \<notin> set m" using marker_shape(3) assms(2) by blast
  have i: "index_of (end_prefix p) (out @ end_prefix p @ dec c @ [31]) = Some (length out)"
    using marker_first assms(1) m by simp
  have e: "emit out p = (Inr (), emitted p out)" using assms(4) by (simp add: emit_Inr room_def)
  show ?thesis
    using i e assms(3) by (simp add: decode_output_def bindM_def Let_def dec_terminator exit_code_dec [OF assms(5)])
qed

section \<open>The whole transcript\<close>

lemma compact_chars: "compact b64 = enc \<Longrightarrow> list_all (\<lambda>u. is_b64 u \<or> u = 61) enc \<Longrightarrow> list_all is_b64_text b64"
  by (auto simp: compact_def list_all_iff is_b64_text_def)

lemma b64_encode_chars: "\<forall>b\<in>set bs. b < 256 \<Longrightarrow> list_all (\<lambda>u. is_b64 u \<or> u = 61) (b64_encode bs)"
  by (induction bs rule: b64_encode.induct) simp_all

lemma consume_encoded:
  assumes b64: "compact b64 = b64_encode bs" and bytes: "\<forall>b\<in>set bs. b < 256" and bs: "bs \<noteq> []"
    and fresh: "\<not> padded p" "completeCode p = None" "base64Carry p = []"
    and fits: "encodedBytes p + length b64 \<le> maxEncodedBytes p"
  shows "\<exists>f. consume_base64 b64 p =
    decode_output bs (p\<lparr>encodedBytes := encodedBytes p + length b64, base64Carry := [], padded := f\<rparr>)"
proof -
  let ?e = "b64_encode bs" and ?p = "p\<lparr>encodedBytes := encodedBytes p + length b64\<rparr>"
  have e: "b64_shape ?e" "length ?e mod 4 = 0" "?e \<noteq> []" "list_all is_b64_text b64" "b64_decode ?e = bs"
    using b64_encode_shape [OF bytes] b64_encode_mod4 bs compact_chars [OF b64 b64_encode_chars [OF bytes]]
      b64_roundtrip [OF bytes] by auto
  have unpadded: "?p\<lparr>base64Carry := [], padded := False\<rparr> = ?p\<lparr>base64Carry := []\<rparr>" using fresh by simp
  show ?thesis
  proof (cases "index_of [61] ?e")
    case None
    then have "consume_base64 b64 p = decode_output bs (?p\<lparr>base64Carry := []\<rparr>)"
      using e b64 fresh fits by (simp add: consume_base64_def Let_def)
    then show ?thesis using unpadded by metis
  next
    case (Some i)
    then have "\<not> i < length ?e - 2" using padding_position [OF e(1)] by fastforce
    then have "consume_base64 b64 p = decode_output bs (?p\<lparr>base64Carry := [], padded := True\<rparr>)"
      using Some e b64 fresh fits by (simp add: consume_base64_def Let_def)
    then show ?thesis by auto
  qed
qed

text \<open>What the bootstrap script prints: a preamble, READY, the echo of the command line,
  START and the base64 text of the output followed by END, the exit code and the terminator.\<close>

definition transcript :: "jsstr \<Rightarrow> jsstr \<Rightarrow> jsstr \<Rightarrow> jsstr \<Rightarrow> jsstr" where
  "transcript n pre mid b64 =
     pre @ exec_marker n (js ''READY'') @ [31] @ mid @ exec_marker n (js ''START'') @ [31] @ b64"

definition framed_output :: "jsstr \<Rightarrow> byte list \<Rightarrow> nat \<Rightarrow> byte list" where
  "framed_output n out c = out @ exec_marker n (js ''END:'') @ dec c @ [31]"

lemma create_Inr:
  "create_exec_parser (JStr n) mp mo me = Inr p \<longleftrightarrow> valid_nonce n \<and>
     p = \<lparr>nonce = n, maxPreludeBytes = mp, maxOutputBytes = mo, maxEncodedBytes = me, phase = PRELUDE,
       preludeCarry = [], preludeBytes = 0, encodedBytes = 0, outputBytes = 0, base64Carry = [],
       padded = False, decodedCarry = [], completeCode = None, failed = None, events = []\<rparr>"
  by (auto simp: create_exec_parser_def validate_nonce_def)

lemma consume_transcript:
  assumes p: "create_exec_parser (JStr n) mp mo me = Inr p"
    and pre: "ascii pre" "index_of (exec_marker n (js ''READY'') @ [31]) pre = None"
    and mid: "ascii mid" "index_of (exec_marker n (js ''START'') @ [31]) mid = None"
    and out: "\<forall>b\<in>set out. b < 256" "index_of (exec_marker n (js ''END:'')) out = None"
    and b64: "compact b64 = b64_encode (framed_output n out c)" and c: "c \<le> 255"
    and fits: "length pre + length mid \<le> mp" "length out \<le> mo" "length b64 \<le> me"
  shows "\<exists>t. consume (transcript n pre mid b64) p = (Inr (), t) \<and> completeCode t = Some c
    \<and> base64Carry t = [] \<and> phase t = BASE64_OUTPUT \<and> failed t = None
    \<and> events t = [OnReady, OnStart] @ map OnOutput out \<and> outputBytes t = length out"
proof -
  note P = p [unfolded create_Inr]
  have nonce: "nonce p = n" "valid_nonce n" using P by auto
  have markers: "ready_marker q = exec_marker n (js ''READY'') @ [31]"
    "start_marker q = exec_marker n (js ''START'') @ [31]"
    "end_prefix q = exec_marker n (js ''END:'')" if "nonce q = n" for q
    using that by (simp_all add: ready_marker_def start_marker_def end_prefix_def)
  have bytes: "\<forall>b\<in>set (framed_output n out c). b < 256" "framed_output n out c \<noteq> []"
    using out(1) nonce_ordinary [OF nonce(2)] dec_digits [of _ c]
    by (fastforce simp: framed_output_def exec_marker_def js_def is_digit_def)+
  obtain r s where r: "exec_marker n (js ''READY'') @ [31] = 30 # r" "30 \<notin> set r"
    and s: "exec_marker n (js ''START'') @ [31] = 30 # s" "30 \<notin> set s"
    using marker_shape [of p] nonce markers [of p] by auto
  let ?q = "p\<lparr>preludeBytes := length pre, preludeCarry := [], phase := READY, events := [OnReady]\<rparr>"
  let ?u = "?q\<lparr>preludeBytes := length pre + length mid, phase := BASE64_OUTPUT, events := [OnReady, OnStart]\<rparr>"
  have seek1: "seek (ready_marker p) (transcript n pre mid b64) p =
    (Inr (Some (mid @ start_marker p @ b64)), p\<lparr>preludeBytes := length pre, preludeCarry := []\<rparr>)"
    using seek_found [OF pre(2) r _ pre(1), of p "mid @ start_marker p @ b64"] P fits
    by (simp add: transcript_def markers)
  have seek2: "seek (start_marker ?q) (mid @ start_marker p @ b64) ?q =
    (Inr (Some b64), ?q\<lparr>preludeBytes := length pre + length mid, preludeCarry := []\<rparr>)"
    using seek_found [OF mid(2) s _ mid(1), of ?q b64] P fits by (simp add: markers)
  obtain f where f: "consume_base64 b64 ?u =
      decode_output (framed_output n out c) (?u\<lparr>encodedBytes := length b64, base64Carry := [], padded := f\<rparr>)"
    using consume_encoded [OF b64 bytes, of ?u] P fits by auto
  let ?v = "?u\<lparr>encodedBytes := length b64, base64Carry := [], padded := f\<rparr>"
  have v: "decode_output (framed_output n out c) ?v =
      (Inr (), (emitted ?v out)\<lparr>completeCode := Some c, decodedCarry := []\<rparr>)"
    using decode_transcript [of ?v out c] P out fits c by (simp add: framed_output_def markers)
  have "consume (transcript n pre mid b64) p = consume_base64 b64 ?u"
    using P seek1 seek2 by (simp add: consume_def consume_prelude_def consume_ready_def bindM_def)
  then show ?thesis using f v P by (simp add: emitted_def)
qed

text \<open>
  Claim C1: Correctness of the exec parser on the transcript of its bootstrap script.  However
  the terminal text is cut into writes, the callbacks are exactly READY, START, the bytes of
  the command's output in order and the exit code, the parser is COMPLETE and \<open>end()\<close>
  succeeds, provided the text fits the configured limits and the three markers do not occur
  in the texts before them.
\<close>

theorem exec_transcript_decoded:
  assumes p: "create_exec_parser (JStr n) mp mo me = Inr p"
    and ws: "concat ws = transcript n pre mid b64"
    and pre: "ascii pre" "index_of (exec_marker n (js ''READY'') @ [31]) pre = None"
    and mid: "ascii mid" "index_of (exec_marker n (js ''START'') @ [31]) mid = None"
    and out: "\<forall>b\<in>set out. b < 256" "index_of (exec_marker n (js ''END:'')) out = None"
    and b64: "compact b64 = b64_encode (framed_output n out c)" and c: "c \<le> 255"
    and fits: "length pre + length mid \<le> mp" "length out \<le> mo" "length b64 \<le> me"
  shows "\<exists>q. exec_writes ws p = (Inr (), q) \<and> phase q = COMPLETE
    \<and> events q = [OnReady, OnStart] @ map OnOutput out @ [OnComplete c] \<and> outputBytes q = length out
    \<and> exec_end q = (Inr (), q)"
proof -
  note P = p [unfolded create_Inr]
  obtain t where t: "consume (transcript n pre mid b64) p = (Inr (), t)" "completeCode t = Some c"
    "base64Carry t = []" "phase t = BASE64_OUTPUT" "failed t = None"
    "events t = [OnReady, OnStart] @ map OnOutput out" "outputBytes t = length out"
    using consume_transcript [OF p pre mid out b64 c fits] by blast
  let ?q = "t\<lparr>phase := COMPLETE, events := events t @ [OnComplete c]\<rparr>"
  have fin: "write_done t = (Inr (), ?q)" using t by (simp add: write_done_def)
  have "list_all is_b64_text b64"
    using compact_chars [OF b64 b64_encode_chars] out nonce_ordinary [of n] P dec_digits [of _ c]
    by (fastforce simp: framed_output_def exec_marker_def js_def is_digit_def)
  then have "ascii b64"
    by (auto simp: list_all_iff ascii_def is_b64_text_def is_b64_def is_alnum_def is_alpha_def is_digit_def)
  moreover have "ascii (exec_marker n w)" if "ascii w" for w
    using nonce_ordinary [of n] P that by (fastforce simp: exec_marker_def js_def ascii_def)
  moreover have "ascii (js ''READY'')" "ascii (js ''START'')" "ascii [31]" by (simp_all add: js_def ascii_def)
  ultimately have asc: "ascii (concat ws)" using pre(1) mid(1) by (simp only: ws transcript_def ascii_append)
  have ok: "stream_ok p" using P nonce_ordinary [of n]
    by (fastforce simp: stream_ok_def partial_def ready_marker_def exec_marker_def ascii_def)
  have "ws \<noteq> []" using ws by (auto simp: transcript_def)
  with writes_split [OF ok _ _ asc, of t ?q] P t(1) fin ws obtain r
    where r: "exec_writes ws p = (Inr (), r)" "observed r = observed ?q" by auto
  have "phase r = COMPLETE" "failed r = None" "events r = events ?q" "outputBytes r = outputBytes ?q"
    using r(2) t by (auto simp: observed_def)
  then show ?thesis using r(1) t by (simp add: exec_end_def)
qed

definition demo_nonce :: jsstr where "demo_nonce = replicate 64 97"
definition demo_text :: jsstr where
 "demo_text = transcript demo_nonce (js ''motd'') (js ''echo'') (b64_encode (framed_output demo_nonce [104, 255] 3))"

lemma exec_transcript_decoded_witness:
  "\<exists>p q. create_exec_parser (JStr demo_nonce) 8 2 200 = Inr p
     \<and> exec_writes [take 70 demo_text, drop 70 demo_text] p = (Inr (), q)
     \<and> events q = [OnReady, OnStart, OnOutput 104, OnOutput 255, OnComplete 3]"
proof -
  obtain p where p: "create_exec_parser (JStr demo_nonce) 8 2 200 = Inr p"
    unfolding create_Inr by (simp add: valid_nonce_def demo_nonce_def list_all_iff is_lower_hex_def)
  let ?b = "b64_encode (framed_output demo_nonce [104, 255] 3)"
  have "\<exists>q. exec_writes [take 70 demo_text, drop 70 demo_text] p = (Inr (), q) \<and> phase q = COMPLETE
    \<and> events q = [OnReady, OnStart] @ map OnOutput [104, 255] @ [OnComplete 3] \<and> outputBytes q = length [104, 255 :: nat]
    \<and> exec_end q = (Inr (), q)"
  proof (rule exec_transcript_decoded [OF p, where pre = "js ''motd''" and mid = "js ''echo''" and ?b64.0 = ?b])
    show "concat [take 70 demo_text, drop 70 demo_text] = transcript demo_nonce (js ''motd'') (js ''echo'') ?b"
      by (simp add: demo_text_def)
  qed code_simp+
  then show ?thesis using p by auto
qed

section \<open>Safety on arbitrary input\<close>

definition protocol_events :: "exec_phase \<Rightarrow> nat option \<Rightarrow> byte list \<Rightarrow> exec_event list \<Rightarrow> bool" where
  "protocol_events ph code out es \<longleftrightarrow>
     (case ph of
        PRELUDE \<Rightarrow> es = [] \<and> out = [] \<and> code = None
      | READY \<Rightarrow> es = [OnReady] \<and> out = [] \<and> code = None
      | START \<Rightarrow> False
      | BASE64_OUTPUT \<Rightarrow> es = [OnReady, OnStart] @ map OnOutput out
      | COMPLETE \<Rightarrow> (\<exists>c\<le>255. code = Some c \<and> es = [OnReady, OnStart] @ map OnOutput out @ [OnComplete c]))"

definition exec_inv :: "exec_parser \<Rightarrow> bool" where
  "exec_inv p \<longleftrightarrow> valid_nonce (nonce p)
     \<and> (\<exists>out. protocol_events (phase p) (completeCode p) out (events p) \<and> outputBytes p = length out)
     \<and> outputBytes p \<le> maxOutputBytes p
     \<and> (\<forall>c. completeCode p = Some c \<longrightarrow> c \<le> 255)
     \<and> length (preludeCarry p) \<le> 78 \<and> length (base64Carry p) \<le> 3 \<and> length (decodedCarry p) \<le> 80"

lemma exec_inv_created: "create_exec_parser v mp mo me = Inr p \<Longrightarrow> exec_inv p"
  by (auto simp: create_exec_parser_def validate_nonce_def exec_inv_def protocol_events_def
      split: jsval.splits if_splits)

text \<open>The invariant while output is decoded.\<close>

definition decoding :: "exec_parser \<Rightarrow> bool" where
  "decoding p \<longleftrightarrow> exec_inv p \<and> phase p = BASE64_OUTPUT"

lemma decoding_updates [simp]:
  "decoding (p\<lparr>failed := e\<rparr>) = decoding p" "decoding (p\<lparr>encodedBytes := n\<rparr>) = decoding p"
  "decoding (p\<lparr>padded := f\<rparr>) = decoding p"
  by (simp_all add: decoding_def exec_inv_def)

lemma exec_inv_updates [simp]:
  "exec_inv (p\<lparr>failed := e\<rparr>) = exec_inv p" "exec_inv (p\<lparr>preludeBytes := n\<rparr>) = exec_inv p"
  by (simp_all add: exec_inv_def)

lemma keeps_fail: "(\<And>s. P s \<Longrightarrow> P (s\<lparr>failed := Some e\<rparr>)) \<Longrightarrow> keeps P (fail e)"
  by (simp add: keeps_def fail_def)

lemma emit_decoding: "keeps decoding (emit bs)"
proof (rule keepsI)
  fix s assume s: "decoding s"
  then obtain out where "events s = [OnReady, OnStart] @ map OnOutput out" "outputBytes s = length out"
    by (auto simp: decoding_def exec_inv_def protocol_events_def)
  then have "events s @ map OnOutput bs = [OnReady, OnStart] @ map OnOutput (out @ bs)
      \<and> outputBytes s + length bs = length (out @ bs)" by simp
  then have "protocol_events BASE64_OUTPUT (completeCode s) (out @ bs) (events s @ map OnOutput bs)
      \<and> outputBytes s + length bs = length (out @ bs)" by (simp add: protocol_events_def)
  then have "\<exists>out. protocol_events BASE64_OUTPUT (completeCode s) out (events s @ map OnOutput bs)
      \<and> outputBytes s + length bs = length out" by blast
  then show "decoding (snd (emit bs s))"
    using s by (auto simp: emit_def fail_def decoding_def exec_inv_def simp del: length_append)
qed

lemma end_prefix_length: "exec_inv p \<Longrightarrow> length (end_prefix p) = 77 \<and> length (ready_marker p) = 79 \<and> length (start_marker p) = 79"
  by (simp add: exec_inv_def valid_nonce_def end_prefix_def ready_marker_def start_marker_def exec_marker_def js_def)

lemma decoding_carry: "decoding p \<Longrightarrow> length d \<le> 80 \<Longrightarrow> decoding (p\<lparr>decodedCarry := d\<rparr>)"
  by (auto simp: decoding_def exec_inv_def)

lemma decoding_base64: "decoding p \<Longrightarrow> length d \<le> 3 \<Longrightarrow> decoding (p\<lparr>base64Carry := d\<rparr>)"
  by (auto simp: decoding_def exec_inv_def)

lemma decoding_complete: "decoding p \<Longrightarrow> c \<le> 255 \<Longrightarrow> decoding (p\<lparr>completeCode := Some c, decodedCarry := []\<rparr>)"
  by (auto simp: decoding_def exec_inv_def protocol_events_def)

lemma exit_code_bound: "exit_code t = Some c \<Longrightarrow> c \<le> 255"
  by (auto simp: exit_code_def split: if_splits)

lemma emit_same: "emit bs p = (Inr u, q) \<Longrightarrow> nonce q = nonce p"
  by (auto simp: emit_def fail_def split: if_splits)

lemma decode_decoding: "keeps decoding (decode_output bs)"
proof (rule keepsI)
  fix s assume s: "decoding s"
  let ?m = "end_prefix s" and ?d = "decodedCarry s @ bs"
  have l: "length ?m = 77" using s end_prefix_length by (simp add: decoding_def)
  show "decoding (snd (decode_output bs s))"
  proof (cases "index_of ?m ?d")
    case None
    have "length (tail_of (overlap ?m ?d) ?d) \<le> 80"
      using overlap_le [of ?m ?d] l by simp
    then show ?thesis
      using None keepsD [OF emit_decoding s]
      by (auto simp: decode_output_def Let_def bindM_def fail_def split: prod.splits sum.splits
          intro!: decoding_carry elim: keepsD2 [OF emit_decoding s])
  next
    case (Some i)
    let ?r = "drop (i + length ?m) ?d"
    have "length (drop i ?d) = 77 + length ?r" using index_of_bound [OF Some] l by simp
    then have c: "length ?r \<le> 3 \<Longrightarrow> length (drop i ?d) \<le> 80" by linarith
    obtain x q where e: "emit (take i ?d) s = (x, q)" by force
    then have q: "decoding q" using keepsD2 [OF emit_decoding s] by blast
    show ?thesis
      using Some e q c
      by (auto simp: decode_output_def Let_def bindM_def fail_def split: sum.splits option.splits
          intro!: decoding_carry decoding_complete dest: exit_code_bound simp del: drop_append take_append)
  qed
qed

lemma keeps_consume_base64: "keeps decoding (consume_base64 x)"
proof (rule keepsI)
  fix s assume s: "decoding s"
  let ?d = "base64Carry s @ compact x" and ?s = "s\<lparr>encodedBytes := encodedBytes s + length x\<rparr>"
  have "length (drop (length ?d - length ?d mod 4) ?d) \<le> 3" by simp
  then have c: "decoding (?s\<lparr>base64Carry := drop (length ?d - length ?d mod 4) ?d\<rparr>)"
    using s by (intro decoding_base64) simp
  have d: "decoding (snd (decode_output bs t))" if "decoding t" for bs t
    using keepsD [OF decode_decoding that] .
  show "decoding (snd (consume_base64 x s))"
    using s c by (auto simp: consume_base64_def Let_def fail_def split: option.splits intro!: d
        simp del: drop_append take_append length_append)
qed

lemma seek_inv: "exec_inv p \<Longrightarrow> length m \<le> 79 \<Longrightarrow> seek m x p = (r, q) \<Longrightarrow>
    exec_inv q \<and> phase q = phase p \<and> events q = events p"
  using overlap_le [of m "preludeCarry p @ x"]
  by (auto simp: seek_def Let_def fail_def exec_inv_def split: option.splits if_splits simp del: drop_append take_append)

lemma consume_ready_inv: "exec_inv p \<Longrightarrow> phase p = READY \<Longrightarrow> exec_inv (snd (consume_ready x p))"
proof -
  assume p: "exec_inv p" "phase p = READY"
  obtain r q where q: "seek (start_marker p) x p = (r, q)" by force
  have k: "exec_inv q" "phase q = READY" "events q = events p"
    using seek_inv [OF p(1) _ q] end_prefix_length [OF p(1)] p(2) by auto
  then have "decoding (q\<lparr>phase := BASE64_OUTPUT, events := events q @ [OnStart]\<rparr>)"
    by (auto simp: decoding_def exec_inv_def protocol_events_def)
  from keepsD [OF keeps_consume_base64 this] show ?thesis
    using q k by (auto simp: consume_ready_def bindM_def decoding_def split: sum.splits option.splits)
qed

lemma consume_prelude_inv: "exec_inv p \<Longrightarrow> phase p = PRELUDE \<Longrightarrow> exec_inv (snd (consume_prelude x p))"
proof -
  assume p: "exec_inv p" "phase p = PRELUDE"
  obtain r q where q: "seek (ready_marker p) x p = (r, q)" by force
  have k: "exec_inv q" "phase q = PRELUDE" "events q = events p"
    using seek_inv [OF p(1) _ q] end_prefix_length [OF p(1)] p(2) by auto
  then have "exec_inv (q\<lparr>phase := READY, events := events q @ [OnReady]\<rparr>)"
    by (auto simp: exec_inv_def protocol_events_def)
  from consume_ready_inv [OF this] show ?thesis
    using q k by (auto simp: consume_prelude_def bindM_def split: sum.splits option.splits)
qed

lemma keeps_consume: "keeps exec_inv (consume x)"
proof (rule keepsI)
  fix s assume s: "exec_inv s"
  show "exec_inv (snd (consume x s))"
    using s consume_prelude_inv [OF s] consume_ready_inv [OF s] keepsD [OF keeps_consume_base64, of s x]
    by (cases "phase s") (auto simp: consume_def fail_def decoding_def exec_inv_def [of s] protocol_events_def)
qed

lemma keeps_write_done: "keeps exec_inv write_done"
proof (rule keepsI)
  fix s assume "exec_inv s"
  then show "exec_inv (snd (write_done s))"
    by (cases "phase s") (auto simp: write_done_def fail_def exec_inv_def protocol_events_def split: option.splits)
qed

lemma keeps_exec_write: "keeps exec_inv (exec_write v)"
proof -
  have "keeps exec_inv (bindM (forM consume (pieces MAX_CHUNK x)) (\<lambda>_. write_done))" for x
    by (intro act_rules keeps_consume keeps_write_done)
  then show ?thesis by (auto simp: keeps_def exec_write_def fail_def split: option.splits jsval.splits)
qed

definition exec_step :: "exec_parser \<Rightarrow> jsval \<Rightarrow> exec_parser" where
  "exec_step p v = snd (exec_write v p)"

interpretation exec_machine: event_machine exec_step exec_inv
  by unfold_locales (simp add: exec_step_def keepsD [OF keeps_exec_write])

text \<open>
  Claim C2: Safety of the exec parser on arbitrary writes, strings or not, well framed or not.
  After every sequence of writes the callbacks made so far are a prefix of the protocol
  (READY, START, output, exit code), the output delivered is within \<open>maxOutputBytes\<close>,
  the exit code is at most 255, and the text retained between writes is bounded.
\<close>

theorem exec_writes_safe:
  assumes "create_exec_parser v mp mo me = Inr p"
  shows "let q = foldl exec_step p vs in
    (\<exists>out. protocol_events (phase q) (completeCode q) out (events q) \<and> outputBytes q = length out)
    \<and> outputBytes q \<le> maxOutputBytes q
    \<and> length (preludeCarry q) \<le> 78 \<and> length (base64Carry q) \<le> 3 \<and> length (decodedCarry q) \<le> 80"
  using exec_machine.inv_run [OF exec_inv_created [OF assms], of vs] by (simp add: exec_inv_def Let_def)

lemma exec_writes_safe_witness:
  "\<exists>p. create_exec_parser (JStr demo_nonce) 8 2 200 = Inr p
     \<and> outputBytes (foldl exec_step p [JStr demo_text, JNull]) \<le> maxOutputBytes (foldl exec_step p [JStr demo_text, JNull])"
proof -
  obtain p where p: "create_exec_parser (JStr demo_nonce) 8 2 200 = Inr p"
    unfolding create_Inr by (simp add: valid_nonce_def demo_nonce_def list_all_iff is_lower_hex_def)
  from exec_writes_safe [OF p, of "[JStr demo_text, JNull]"] p show ?thesis by (simp add: Let_def)
qed

subsection \<open>Failures\<close>

definition records_failure :: "'a exec_act \<Rightarrow> bool" where
  "records_failure m \<longleftrightarrow> (\<forall>s e t. m s = (Inl e, t) \<longrightarrow> failed t = Some e)"

lemma records_fail: "records_failure (fail e)"
  by (simp add: records_failure_def fail_def)

lemma records_bind: "records_failure m \<Longrightarrow> (\<And>a. records_failure (f a)) \<Longrightarrow> records_failure (bindM m f)"
  by (fastforce simp: records_failure_def bindM_def split: prod.splits sum.splits)

lemma records_ret: "records_failure (retM a)"
  by (simp add: records_failure_def retM_def)

lemma records_for: "(\<And>x. records_failure (f x)) \<Longrightarrow> records_failure (forM f xs)"
  by (induction xs) (simp_all add: records_ret records_bind)

lemma records_emit: "records_failure (emit bs)"
  by (auto simp: records_failure_def emit_def fail_def split: if_splits)

lemma records_decode: "records_failure (decode_output bs)"
  using records_emit
  by (auto simp: records_failure_def decode_output_def Let_def bindM_def fail_def
      split: prod.splits sum.splits option.splits if_splits)

lemma records_base64: "records_failure (consume_base64 x)"
  using records_decode
  by (auto simp: records_failure_def consume_base64_def Let_def fail_def split: option.splits if_splits)

lemma records_seek: "records_failure (seek m x)"
  by (auto simp: records_failure_def seek_def Let_def fail_def split: option.splits if_splits)

lemma records_ready: "records_failure (consume_ready x)"
  using records_base64 records_seek
  by (fastforce simp: records_failure_def consume_ready_def bindM_def split: prod.splits sum.splits option.splits)

lemma records_prelude: "records_failure (consume_prelude x)"
  using records_ready records_seek
  by (fastforce simp: records_failure_def consume_prelude_def bindM_def split: prod.splits sum.splits option.splits)

lemma records_consume: "records_failure (consume x)"
  using records_prelude [of x] records_ready [of x] records_base64 [of x]
  by (auto simp: records_failure_def consume_def fail_def split: exec_phase.splits if_splits)

lemma records_write: "records_failure (exec_write v)"
proof -
  have "records_failure write_done"
    by (auto simp: records_failure_def write_done_def fail_def split: option.splits if_splits)
  then have "records_failure (bindM (forM consume (pieces MAX_CHUNK x)) (\<lambda>_. write_done))" for x
    by (intro records_bind records_for records_consume)
  then show ?thesis
    by (auto simp: records_failure_def exec_write_def fail_def split: option.splits jsval.splits)
qed

lemma write_after_failure: "failed p = Some e \<Longrightarrow> exec_write v p = (Inl e, p)"
  by (simp add: exec_write_def)

text \<open>
  A failure is final.  Once a write has thrown, every later write and \<open>end()\<close>
  throws the same error and no callback is made any more.
\<close>

theorem exec_failure_final:
  assumes "exec_write v p = (Inl e, q)"
  shows "foldl exec_step q vs = q \<and> exec_write w q = (Inl e, q) \<and> exec_end q = (Inl e, q)"
proof -
  have f: "failed q = Some e" using records_write assms by (simp add: records_failure_def)
  have "foldl exec_step q vs = q"
    by (induction vs) (simp_all add: exec_step_def write_after_failure [OF f])
  then show ?thesis using f by (simp add: write_after_failure exec_end_def)
qed

lemma exec_failure_final_witness:
  "\<exists>p q. create_exec_parser (JStr demo_nonce) 8 2 200 = Inr p \<and> exec_write JNull p = (Inl ''EXEC_FRAMING_FAILED'', q)
     \<and> exec_write (JStr demo_text) q = (Inl ''EXEC_FRAMING_FAILED'', q)"
proof -
  obtain p where p: "create_exec_parser (JStr demo_nonce) 8 2 200 = Inr p" "failed p = None"
    unfolding create_Inr by (simp add: valid_nonce_def demo_nonce_def list_all_iff is_lower_hex_def)
  then obtain q where q: "exec_write JNull p = (Inl ''EXEC_FRAMING_FAILED'', q)" by (simp add: exec_write_def fail_def)
  from exec_failure_final [OF q, of "[]" "JStr demo_text"] p q show ?thesis by blast
qed

end
