(* ===== verification/ScpProtocol.thy ===== *)
theory ScpProtocol
  imports JsValue
begin

text \<open>
  \<^verbatim>\<open>electron/scp/protocol.js\<close>: the legacy SCP wire protocol over an SSH channel.

  \<open>ProtocolEndpoint\<close> and its two subclasses are records that extend one another.  Streams
  are part of the state: the reader's record holds the bytes Node has buffered (\<open>pending\<close>),
  the end-of-input and destroyed flags, and the \<open>script\<close> of events the environment still
  has in store; a wait takes the next event of the script and runs its handler.  Between two
  operations (and in a payload consumer, which is an action of its own) the environment may
  run further events with \<open>deliver\<close>.  When the script has run out, a wait ends by the
  endpoint's timeout, or never (\<open>Unsettled\<close>) when the timeout is 0.
\<close>

section \<open>Errors and limits\<close>

text \<open>\<open>Fail code message\<close> is a \<open>ScpProtocolError\<close>, \<open>Plain\<close> any other exception,
  \<open>Unsettled\<close> a promise that never settles.\<close>

datatype scp_error = Fail string string | Plain string | Unsettled

definition protocol_error :: "string \<Rightarrow> scp_error" where
  "protocol_error message = Fail ''SCP_PROTOCOL_ERROR'' message"

definition safe_name :: "jsstr \<Rightarrow> bool" where
  "safe_name n \<longleftrightarrow> n \<noteq> [] \<and> well_formed n \<and> n \<noteq> js ''.'' \<and> n \<noteq> js ''..'' \<and> 47 \<notin> set n \<and> \<not> has_control n"

definition validate_name :: "jsval \<Rightarrow> scp_error + jsstr" where
  "validate_name v =
     (case v of
        JStr n \<Rightarrow> if safe_name n then Inr n else Inl (protocol_error ''Invalid SCP entry name'')
      | _ \<Rightarrow> Inl (protocol_error ''Invalid SCP entry name''))"

definition decode_text :: "byte list \<Rightarrow> scp_error + jsstr" where
  "decode_text bs = (case utf8_decode bs of
     Some s \<Rightarrow> Inr s
   | None \<Rightarrow> Inl (protocol_error ''Invalid SCP UTF-8''))"

text \<open>\<open>integer(value, label, maximum)\<close>\<close>

definition checked_integer :: "jsval \<Rightarrow> string \<Rightarrow> nat \<Rightarrow> scp_error + nat" where
  "checked_integer v label maximum =
     (case v of
        JNum n \<Rightarrow> if \<bar>n\<bar> \<le> MAX_SAFE \<and> 0 \<le> n \<and> n \<le> int maximum then Inr (nat n)
          else Inl (protocol_error (''Invalid SCP '' @ label))
      | _ \<Rightarrow> Inl (protocol_error (''Invalid SCP '' @ label)))"

definition SAFE_NAT :: nat where
  "SAFE_NAT = nat MAX_SAFE"

record scp_limits =
  timeoutMs :: nat
  maxBufferBytes :: nat
  maxLineBytes :: nat
  maxChunkBytes :: nat
  maxFileBytes :: nat

definition SSH_RECEIVE_WINDOW_BYTES :: nat where
  "SSH_RECEIVE_WINDOW_BYTES = 2 * 1024 * 1024"

definition DEFAULT_LIMITS :: scp_limits where
  "DEFAULT_LIMITS = \<lparr>timeoutMs = 30000, maxBufferBytes = 2 * SSH_RECEIVE_WINDOW_BYTES,
     maxLineBytes = 16 * 1024, maxChunkBytes = 64 * 1024, maxFileBytes = SAFE_NAT\<rparr>"

text \<open>The caller's options: \<open>None\<close> is a missing key, which the spread leaves at its default.\<close>

record limit_options =
  o_timeoutMs :: "jsval option"
  o_maxBufferBytes :: "jsval option"
  o_maxLineBytes :: "jsval option"
  o_maxChunkBytes :: "jsval option"
  o_maxFileBytes :: "jsval option"

definition spread :: "jsval option \<Rightarrow> nat \<Rightarrow> jsval" where
  "spread v d = (case v of None \<Rightarrow> JNum (int d) | Some x \<Rightarrow> x)"

text \<open>\<open>Math.min\<close>; on anything but two integers the result is refused below either way.\<close>

definition js_min :: "jsval \<Rightarrow> jsval \<Rightarrow> jsval" where
  "js_min a b = (case a of JNum x \<Rightarrow> (case b of JNum y \<Rightarrow> JNum (min x y) | _ \<Rightarrow> JFloat) | _ \<Rightarrow> JFloat)"

definition capped :: "jsval option \<Rightarrow> nat \<Rightarrow> jsval \<Rightarrow> jsval" where
  "capped v d buffer = (if v = None \<or> v = Some JUndef then js_min (spread v d) buffer else spread v d)"

definition positive :: "jsval \<Rightarrow> string \<Rightarrow> scp_error + nat" where
  "positive v key = bindR (checked_integer v key SAFE_NAT) (\<lambda>n.
     if n = 0 then Inl (protocol_error (''Invalid SCP '' @ key)) else Inr n)"

definition limits :: "limit_options \<Rightarrow> scp_error + scp_limits" where
  "limits o' =
     (let d = DEFAULT_LIMITS; buffer = spread (o_maxBufferBytes o') (maxBufferBytes d) in
      bindR (checked_integer (spread (o_timeoutMs o') (timeoutMs d)) ''timeoutMs'' SAFE_NAT) (\<lambda>t.
      bindR (positive buffer ''maxBufferBytes'') (\<lambda>b.
      bindR (positive (capped (o_maxLineBytes o') (maxLineBytes d) buffer) ''maxLineBytes'') (\<lambda>l.
      bindR (positive (capped (o_maxChunkBytes o') (maxChunkBytes d) buffer) ''maxChunkBytes'') (\<lambda>c.
      bindR (positive (spread (o_maxFileBytes o') (maxFileBytes d)) ''maxFileBytes'') (\<lambda>f.
        if c > b \<or> l > b then Inl (protocol_error ''SCP limits exceed the buffer bound'')
        else Inr \<lparr>timeoutMs = t, maxBufferBytes = b, maxLineBytes = l, maxChunkBytes = c, maxFileBytes = f\<rparr>))))))"

section \<open>ProtocolEndpoint\<close>

record endpoint =
  opts :: scp_limits
  failure :: "scp_error option"
  closed :: bool
  busy :: bool

type_synonym ('x, 'a) endpoint_act = "('x endpoint_scheme, scp_error, 'a) act"

definition check :: "('x, unit) endpoint_act" where
  "check e =
     (case failure e of
        Some x \<Rightarrow> (Inl x, e)
      | None \<Rightarrow> if closed e then (Inl (Fail ''SCP_CLOSED'' ''SCP endpoint is closed''), e) else (Inr (), e))"

text \<open>\<open>fail(error)\<close>: the first failure stays (the waiters it wakes are the wait at hand).\<close>

definition fail_with :: "scp_error \<Rightarrow> 'x endpoint_scheme \<Rightarrow> 'x endpoint_scheme" where
  "fail_with x e = (if failure e = None then e\<lparr>failure := Some x\<rparr> else e)"

text \<open>\<open>operation(fn)\<close>, for an \<open>fn\<close> that may act on a larger state of which the endpoint is a
  part, and the plain case.\<close>

definition operation_in :: "('s \<Rightarrow> 'x endpoint_scheme) \<Rightarrow> ('x endpoint_scheme \<Rightarrow> 's \<Rightarrow> 's)
    \<Rightarrow> ('s, scp_error, 'a) act \<Rightarrow> ('s, scp_error, 'a) act" where
  "operation_in get put f =
     bindM (zoomM get put check) (\<lambda>_ s.
       if busy (get s) then (Inl (protocol_error ''Concurrent SCP operations are not supported''), s)
       else (case bindM f (\<lambda>result. bindM (zoomM get put check) (\<lambda>_. retM result)) (put ((get s)\<lparr>busy := True\<rparr>) s) of
               (Inl Unsettled, t) \<Rightarrow> (Inl Unsettled, t)
             | (r, t) \<Rightarrow> (r, put ((get t)\<lparr>busy := False\<rparr>) t)))"

definition operation :: "('x, 'a) endpoint_act \<Rightarrow> ('x, 'a) endpoint_act" where
  "operation = operation_in (\<lambda>e. e) (\<lambda>e _. e)"

definition ABORTED :: scp_error where
  "ABORTED = Fail ''ABORT_ERR'' ''SCP transfer aborted''"

definition STREAM_FAILED :: scp_error where
  "STREAM_FAILED = Fail ''SCP_STREAM_ERROR'' ''SCP stream failed''"

definition TIMED_OUT :: scp_error where
  "TIMED_OUT = Fail ''SCP_TIMEOUT'' ''SCP operation timed out''"

definition BUFFER_EXCEEDED :: scp_error where
  "BUFFER_EXCEEDED = Fail ''SCP_BUFFER_LIMIT'' ''SCP input buffer limit exceeded''"

definition EOF_ERROR :: "string \<Rightarrow> scp_error" where
  "EOF_ERROR message = Fail ''SCP_UNEXPECTED_EOF'' message"

text \<open>The end of a wait whose promise settles no more: the timer, if there is one.\<close>

definition expire :: "('x, 'a) endpoint_act" where
  "expire e = (if timeoutMs (opts e) = 0 then (Inl Unsettled, e) else (Inl TIMED_OUT, fail_with TIMED_OUT e))"

section \<open>ScpProtocolReader\<close>

text \<open>Events of the input stream, the abort signal and the owner of the endpoint.\<close>

datatype input_event = Arrive "byte list" | InputEnd | InputError | InputClose | Abort | OwnerClose

record reader = endpoint +
  buffer :: "byte list option"
  offset :: nat
  pending :: "byte list"
  input_ended :: bool
  input_destroyed :: bool
  script :: "input_event list"

type_synonym 'a read_act = "(reader, scp_error, 'a) act"

text \<open>\<open>readableEnded\<close>: Node emits \<open>end\<close> once the buffered bytes have been read.\<close>

definition readable_ended :: "reader \<Rightarrow> bool" where
  "readable_ended r \<longleftrightarrow> input_ended r \<and> pending r = []"

definition on_readable :: "reader \<Rightarrow> reader" where
  "on_readable r = (if length (pending r) > maxBufferBytes (opts r) then fail_with BUFFER_EXCEEDED r else r)"

definition on_close :: "reader \<Rightarrow> reader" where
  "on_close r = on_readable
     (if readable_ended r then r else fail_with (EOF_ERROR ''SCP stream closed unexpectedly'') r)"

definition reader_close :: "reader \<Rightarrow> reader" where
  "reader_close r = r\<lparr>closed := True, buffer := None\<rparr>"

text \<open>One event: the change of the stream, then the handler unless \<open>close()\<close> has removed it.\<close>

definition deliver :: "input_event \<Rightarrow> reader \<Rightarrow> reader" where
  "deliver ev r =
     (case ev of
        Arrive bs \<Rightarrow> (let q = r\<lparr>pending := pending r @ bs\<rparr> in if closed r then q else on_readable q)
      | InputEnd \<Rightarrow> (let q = r\<lparr>input_ended := True\<rparr> in if closed r then q else on_readable q)
      | InputError \<Rightarrow> if closed r then r else fail_with STREAM_FAILED r
      | InputClose \<Rightarrow> (let q = r\<lparr>input_destroyed := True\<rparr> in if closed r then q else on_close q)
      | Abort \<Rightarrow> if closed r then r else fail_with ABORTED r
      | OwnerClose \<Rightarrow> reader_close r)"

definition create_reader :: "limit_options \<Rightarrow> bool \<Rightarrow> bool \<Rightarrow> byte list \<Rightarrow> input_event list \<Rightarrow> scp_error + reader" where
  "create_reader o' byte_stream aborted buffered events =
     (if \<not> byte_stream then Inl (protocol_error ''SCP input must be a byte stream'')
      else bindR (limits o') (\<lambda>lim.
        let r = \<lparr>opts = lim, failure = None, closed = False, busy = False, buffer = None, offset = 0,
                pending = buffered, input_ended = False, input_destroyed = False, script = events\<rparr>
        in Inr (on_readable (if aborted then fail_with ABORTED r else r))))"

text \<open>The unread part of the current chunk; \<open>None\<close> and an exhausted chunk both have none.\<close>

definition unread :: "reader \<Rightarrow> byte list" where
  "unread r = (case buffer r of None \<Rightarrow> [] | Some b \<Rightarrow> drop (offset r) b)"

lemma unread_updates [simp]:
  "unread (r\<lparr>failure := x\<rparr>) = unread r" "unread (r\<lparr>script := e\<rparr>) = unread r"
  "unread (r\<lparr>pending := p\<rparr>) = unread r" "unread (r\<lparr>busy := b\<rparr>) = unread r"
  "unread (r\<lparr>input_ended := b\<rparr>) = unread r" "unread (r\<lparr>input_destroyed := b\<rparr>) = unread r"
  "unread (r\<lparr>buffer := Some c, offset := 0\<rparr>) = c"
  "unread (r\<lparr>buffer := Some c, offset := 0, pending := p\<rparr>) = c"
  "unread (r\<lparr>offset := offset r + n\<rparr>) = drop n (unread r)"
  "unread (r\<lparr>offset := Suc (offset r)\<rparr>) = drop 1 (unread r)"
  by (auto simp: unread_def drop_drop add.commute split: option.splits)

function fill :: "bool read_act" where
  "fill r =
     (case check r of
        (Inl x, _) \<Rightarrow> (Inl x, r)
      | (Inr _, _) \<Rightarrow>
          if unread r \<noteq> [] then (Inr True, r)
          else if length (pending r) > maxBufferBytes (opts r) then
            (let q = fail_with BUFFER_EXCEEDED r in (Inl BUFFER_EXCEEDED, q))
          else if pending r \<noteq> [] then
            (let n = max 1 (min (length (pending r)) (maxChunkBytes (opts r))) in
             (Inr True, r\<lparr>buffer := Some (take n (pending r)), offset := 0, pending := drop n (pending r)\<rparr>))
          else if readable_ended r then (Inr False, r)
          else if input_destroyed r then (Inl (EOF_ERROR ''Unexpected SCP EOF''), r)
          else (case script r of
                  [] \<Rightarrow> expire r
                | ev # evs \<Rightarrow> fill (deliver ev (r\<lparr>script := evs\<rparr>))))"
  by pat_completeness auto

lemma script_deliver [simp]: "script (deliver ev r) = script r"
  by (simp add: deliver_def on_readable_def on_close_def fail_with_def reader_close_def Let_def split: input_event.splits)

termination fill
  by (relation "measure (\<lambda>r. length (script r))") auto

declare fill.simps [simp del]

definition read_byte :: "bool \<Rightarrow> nat option read_act" where
  "read_byte allowEof =
     bindM fill (\<lambda>filled.
       if \<not> filled then
         (if allowEof then retM None else throwM (EOF_ERROR ''Unexpected SCP EOF''))
       else bindM check (\<lambda>_ r. (Inr (Some (hd (unread r))), r\<lparr>offset := offset r + 1\<rparr>)))"

text \<open>The bytes still to come; a fill moves them but adds none.\<close>

definition arriving :: "input_event list \<Rightarrow> byte list" where
  "arriving evs = concat (map (\<lambda>ev. case ev of Arrive bs \<Rightarrow> bs | _ \<Rightarrow> []) evs)"

definition to_come :: "reader \<Rightarrow> byte list" where
  "to_come r = unread r @ pending r @ arriving (script r)"

lemma to_come_deliver:
  "script r = ev # evs \<Longrightarrow> length (to_come (deliver ev (r\<lparr>script := evs\<rparr>))) \<le> length (to_come r)"
  by (cases ev) (auto simp: to_come_def arriving_def deliver_def on_readable_def on_close_def fail_with_def
      reader_close_def unread_def Let_def split: option.splits)

lemma fill_to_come: "fill r = (x, t) \<Longrightarrow> length (to_come t) \<le> length (to_come r)"
proof (induction r rule: fill.induct)
  case (1 r)
  have step: "length (to_come t) \<le> length (to_come r)"
    if "script r = ev # evs" "length (to_come t) \<le> length (to_come (deliver ev (r\<lparr>script := evs\<rparr>)))" for ev evs
    using that(2) to_come_deliver [OF that(1)] by linarith
  show ?case
    using 1 step
    by (subst (asm) (2) fill.simps)
      (auto simp: expire_def fail_with_def to_come_def Let_def split: prod.splits sum.splits if_splits list.splits)
qed

function line_loop :: "byte list \<Rightarrow> jsstr read_act" where
  "line_loop acc r =
     (case fill r of
        (Inl x, q) \<Rightarrow> (Inl x, q)
      | (Inr filled, q) \<Rightarrow>
          if \<not> filled then (Inl (EOF_ERROR ''Truncated SCP record''), q)
          else (case check q of
            (Inl x, _) \<Rightarrow> (Inl x, q)
          | (Inr _, _) \<Rightarrow>
              (let part = takeWhile (\<lambda>b. b \<noteq> 10) (unread q) in
               if length acc + length part > maxLineBytes (opts q) then
                 (Inl (Fail ''SCP_BUFFER_LIMIT'' ''SCP record exceeds line limit''), q)
               else if length part < length (unread q) then
                 (decode_text (acc @ part), q\<lparr>offset := offset q + length part + 1\<rparr>)
               else line_loop (acc @ part) (q\<lparr>offset := offset q + length part\<rparr>))))"
  by pat_completeness auto

lemma fill_unread: "fill r = (Inr True, t) \<Longrightarrow> unread t \<noteq> []"
proof (induction r rule: fill.induct)
  case (1 r)
  then show ?case
    by (subst (asm) (2) fill.simps)
      (auto simp: expire_def Let_def split: prod.splits sum.splits if_splits list.splits)
qed

lemma fill_advance:
  assumes "fill r = (Inr True, q)" "length (unread q) \<le> n"
  shows "length (to_come (q\<lparr>offset := offset q + n\<rparr>)) < length (to_come r)"
proof -
  have "unread (q\<lparr>offset := offset q + n\<rparr>) = []"
    using assms(2) by simp
  then have "length (to_come (q\<lparr>offset := offset q + n\<rparr>)) + length (unread q) = length (to_come q)"
    by (simp add: to_come_def)
  then show ?thesis using fill_unread [OF assms(1)] fill_to_come [OF assms(1)] by (cases "unread q") auto
qed

termination line_loop
  by (relation "measure (\<lambda>(acc, r). length (to_come r))") (auto intro: fill_advance)

declare line_loop.simps [simp del]

definition read_line :: "jsstr read_act" where
  "read_line = line_loop []"
section \<open>Records\<close>

datatype scp_record = RAck | REnd | RError bool jsstr | RFile nat nat jsstr | RDir nat nat jsstr
  | RTime nat nat nat nat

definition is_octal :: "nat \<Rightarrow> bool" where
  "is_octal u \<longleftrightarrow> 48 \<le> u \<and> u \<le> 55"

text \<open>\<open>/^([0-7]{4}) ([0-9]+) (.+)$/u\<close> and \<open>/^([0-9]+) ([0-9]+) ([0-9]+) ([0-9]+)$/u\<close>\<close>

definition entry_fields :: "jsstr \<Rightarrow> (jsstr \<times> jsstr \<times> jsstr) option" where
  "entry_fields s =
     (let r = drop 5 s; d = takeWhile is_digit r; q = drop (length d) r in
      if take 4 s @ [32] = take 5 s \<and> list_all is_octal (take 4 s) \<and> length s > 4 \<and> d \<noteq> []
         \<and> q \<noteq> [] \<and> hd q = 32 \<and> tl q \<noteq> [] \<and> \<not> list_ex is_line_end (tl q)
      then Some (take 4 s, d, tl q) else None)"

definition time_fields :: "jsstr \<Rightarrow> jsstr list option" where
  "time_fields s =
     (let ps = split_on 32 s in
      if length ps = 4 \<and> list_all (\<lambda>p. p \<noteq> [] \<and> list_all is_digit p) ps then Some ps else None)"

text \<open>\<open>Number(digits)\<close>; see the note at \<open>MAX_SAFE\<close>.\<close>

definition js_number :: "jsstr \<Rightarrow> jsval" where
  "js_number d = JNum (int (radix_value 10 d))"

definition parse_record :: "scp_limits \<Rightarrow> nat \<Rightarrow> jsstr \<Rightarrow> scp_error + scp_record" where
  "parse_record lim type line =
     (if has_control line then Inl (protocol_error ''Invalid SCP record characters'')
      else if type = 1 \<or> type = 2 then Inr (RError (type = 2) line)
      else if type = 69 \<and> line = [] then Inr REnd
      else if type = 67 \<or> type = 68 then
        (case entry_fields line of
           None \<Rightarrow> Inl (protocol_error ''Malformed SCP entry record'')
         | Some (m, d, n) \<Rightarrow>
             bindR (checked_integer (js_number d) ''file size'' (maxFileBytes lim)) (\<lambda>size.
               if type = 68 \<and> size \<noteq> 0 then Inl (protocol_error ''SCP directory size must be zero'')
               else bindR (validate_name (JStr n)) (\<lambda>name.
                 Inr (if type = 67 then RFile (radix_value 8 m) size name else RDir (radix_value 8 m) size name))))
      else if type = 84 then
        (case time_fields line of
           Some [a, b, c, d] \<Rightarrow>
             bindR (checked_integer (js_number a) ''mtime'' SAFE_NAT) (\<lambda>mtime.
             bindR (checked_integer (js_number b) ''mtime microseconds'' 999999) (\<lambda>mtimeUsec.
             bindR (checked_integer (js_number c) ''atime'' SAFE_NAT) (\<lambda>atime.
             bindR (checked_integer (js_number d) ''atime microseconds'' 999999) (\<lambda>atimeUsec.
               Inr (RTime mtime mtimeUsec atime atimeUsec)))))
         | _ \<Rightarrow> Inl (protocol_error ''Malformed SCP time record''))
      else Inl (protocol_error ''Unknown SCP record''))"

text \<open>\<open>None\<close> is the \<open>null\<close> of an end of input between records.\<close>

definition read_record :: "scp_record option read_act" where
  "read_record = operation
     (bindM (read_byte True) (\<lambda>b.
       case b of
         None \<Rightarrow> retM None
       | Some type \<Rightarrow>
           if type = 0 then retM (Some RAck)
           else bindM read_line (\<lambda>line r. liftR (bindR (parse_record (opts r) type line) (\<lambda>x. Inr (Some x))) r)))"

definition read_ack :: "unit read_act" where
  "read_ack = bindM read_record (\<lambda>rec.
     case rec of
       Some (RError fatal _) \<Rightarrow>
         throwM (Fail (if fatal then ''SCP_PEER_FATAL'' else ''SCP_PEER_ERROR'') ''SCP peer rejected the operation'')
     | None \<Rightarrow> throwM (EOF_ERROR ''Unexpected SCP EOF'')
     | Some RAck \<Rightarrow> retM ()
     | Some _ \<Rightarrow> throwM (protocol_error ''Expected SCP acknowledgement''))"

section \<open>Payload\<close>

text \<open>\<open>waitFor(promise)\<close>: a failure of the endpoint while the promise was pending wins over
  its outcome, and a promise that never settles ends with the timer.\<close>

definition wait_for :: "('s \<Rightarrow> 'x endpoint_scheme) \<Rightarrow> ('x endpoint_scheme \<Rightarrow> 's \<Rightarrow> 's)
    \<Rightarrow> ('s, scp_error, 'a) act \<Rightarrow> ('s, scp_error, 'a) act" where
  "wait_for get put m s =
     (case m s of (r, t) \<Rightarrow>
        (case check (get t) of
           (Inl x, _) \<Rightarrow> (Inl x, t)
         | (Inr _, _) \<Rightarrow>
             (case r of Inl Unsettled \<Rightarrow> zoomM get put expire t | _ \<Rightarrow> (r, t))))"

text \<open>One block for the consumer: at most \<open>remaining\<close> bytes of the current chunk.\<close>

definition next_block :: "nat \<Rightarrow> byte list read_act" where
  "next_block remaining =
     bindM fill (\<lambda>filled.
       if \<not> filled then throwM (EOF_ERROR ''Truncated SCP payload'')
       else bindM check (\<lambda>_ r. (Inr (take remaining (unread r)),
              r\<lparr>offset := offset r + min remaining (length (unread r))\<rparr>)))"

text \<open>The state of the loop is any state the reader is part of, so that the consumer can be
  an action of the session; \<open>max 1\<close> is for termination, no block is empty.\<close>

function payload_loop :: "('s \<Rightarrow> reader) \<Rightarrow> (reader \<Rightarrow> 's \<Rightarrow> 's) \<Rightarrow> (byte list \<Rightarrow> ('s, scp_error, unit) act)
    \<Rightarrow> nat \<Rightarrow> ('s, scp_error, unit) act" where
  "payload_loop get put onChunk remaining =
     (if remaining = 0 then retM ()
      else bindM (zoomM get put (next_block remaining)) (\<lambda>part.
             bindM (wait_for get put (onChunk part)) (\<lambda>_.
               payload_loop get put onChunk (remaining - max 1 (length part)))))"
  by pat_completeness auto
termination payload_loop
  by (relation "measure (\<lambda>(_, _, _, n). n)") auto

declare payload_loop.simps [simp del]

definition read_payload :: "('s \<Rightarrow> reader) \<Rightarrow> (reader \<Rightarrow> 's \<Rightarrow> 's) \<Rightarrow> jsval \<Rightarrow> (byte list \<Rightarrow> ('s, scp_error, unit) act)
    \<Rightarrow> ('s, scp_error, unit) act" where
  "read_payload get put bytes onChunk = operation_in get put (\<lambda>s.
     bindM (liftR (checked_integer bytes ''payload size'' (maxFileBytes (opts (get s))))) (\<lambda>n.
       payload_loop get put onChunk n) s)"

section \<open>ScpProtocolWriter\<close>

text \<open>
  A write is complete when its callback has run and, when \<open>write\<close> returned false (the queue
  had reached the high-water mark), the \<open>drain\<close> event has come too.  \<open>queued\<close> is
  \<open>writableLength\<close>, \<open>sent\<close> the chunks handed to \<open>stream.write\<close>.
\<close>

datatype output_event = Callback | Drain | CallbackError | WriteThrows | OutputError | OutputClose
  | OutputAbort | OutputOwnerClose

record writer = endpoint +
  out_destroyed :: bool
  out_ended :: bool
  high_water :: nat
  queued :: nat
  sent :: "byte list list"
  out_script :: "output_event list"

type_synonym 'a write_act = "(writer, scp_error, 'a) act"

definition WRITE_FAILED :: scp_error where
  "WRITE_FAILED = Fail ''SCP_STREAM_ERROR'' ''SCP write failed''"

definition deliver_out :: "output_event \<Rightarrow> writer \<Rightarrow> writer" where
  "deliver_out ev w =
     (case ev of
        OutputError \<Rightarrow> if closed w then w else fail_with STREAM_FAILED w
      | OutputClose \<Rightarrow>
          (let q = w\<lparr>out_destroyed := True\<rparr> in
           if closed w then q
           else fail_with (Fail ''SCP_STREAM_ERROR'' ''SCP output closed unexpectedly'') q)
      | OutputAbort \<Rightarrow> if closed w then w else fail_with ABORTED w
      | OutputOwnerClose \<Rightarrow> w\<lparr>closed := True\<rparr>
      | _ \<Rightarrow> w)"

text \<open>The wait of one write of \<open>n\<close> bytes: \<open>called\<close> when the callback has run, \<open>drained\<close> when
  no drain is awaited any more.\<close>

function await_write :: "nat \<Rightarrow> bool \<Rightarrow> bool \<Rightarrow> unit write_act" where
  "await_write n called drained w =
     (case check w of
        (Inl x, _) \<Rightarrow> (Inl x, w)
      | (Inr _, _) \<Rightarrow>
          if called \<and> drained then (Inr (), w)
          else (case out_script w of
                  [] \<Rightarrow> expire w
                | ev # evs \<Rightarrow>
                    (let q = w\<lparr>out_script := evs\<rparr> in
                     case ev of
                       Callback \<Rightarrow> await_write n True drained (q\<lparr>queued := queued q - n\<rparr>)
                     | Drain \<Rightarrow> await_write n called True q
                     | CallbackError \<Rightarrow> (Inl WRITE_FAILED, q)
                     | _ \<Rightarrow> await_write n called drained (deliver_out ev q))))"
  by pat_completeness auto

lemma out_script_deliver [simp]: "out_script (deliver_out ev w) = out_script w"
  by (cases ev) (simp_all add: deliver_out_def fail_with_def Let_def)

termination await_write
  by (relation "measure (\<lambda>(_, _, _, w). length (out_script w))") auto

declare await_write.simps [simp del]

definition write_chunk :: "byte list \<Rightarrow> unit write_act" where
  "write_chunk chunk = bindM check (\<lambda>_ w.
     if out_destroyed w \<or> out_ended w then (Inl (Fail ''SCP_STREAM_ERROR'' ''SCP output is not writable''), w)
     else if queued w + length chunk > maxBufferBytes (opts w) then
       (Inl (Fail ''SCP_BUFFER_LIMIT'' ''SCP output buffer limit exceeded''), w)
     else (case out_script w of
             WriteThrows # evs \<Rightarrow> (Inl WRITE_FAILED, w\<lparr>out_script := evs\<rparr>)
           | _ \<Rightarrow>
               (let q = w\<lparr>queued := queued w + length chunk, sent := sent w @ [chunk]\<rparr> in
                await_write (length chunk) False (queued q < high_water q) q)))"

text \<open>\<open>None\<close> is an argument that is no byte array.\<close>

definition write_payload :: "byte list option \<Rightarrow> unit write_act" where
  "write_payload bytes = operation (\<lambda>w.
     case bytes of
       None \<Rightarrow> (Inl (Plain ''SCP payload must contain bytes''), w)
     | Some bs \<Rightarrow>
         bindM (liftR (checked_integer (JNum (int (length bs))) ''payload size'' (maxFileBytes (opts w)))) (\<lambda>_.
           forM write_chunk (pieces (maxChunkBytes (opts w)) bs)) w)"

text \<open>The argument of \<open>writeRecord\<close>: the field values are unchecked.\<close>

datatype wire_record = WNone | WAck | WEnd | WFile jsval jsval jsval | WDir jsval jsval jsval
  | WTime jsval jsval jsval jsval | WError bool jsval | WUnknown

definition or_else :: "jsval \<Rightarrow> jsval \<Rightarrow> jsval" where
  "or_else v d = (if nullish v then d else v)"

definition entry_line :: "scp_limits \<Rightarrow> bool \<Rightarrow> jsval \<Rightarrow> jsval \<Rightarrow> jsval \<Rightarrow> scp_error + jsstr" where
  "entry_line lim dir mode bytes name =
     bindR (checked_integer mode ''mode'' 4095) (\<lambda>m.
     bindR (checked_integer bytes ''file size'' (maxFileBytes lim)) (\<lambda>n.
       if dir \<and> n \<noteq> 0 then Inl (protocol_error ''SCP directory size must be zero'')
       else bindR (validate_name name) (\<lambda>nm.
         Inr ((if dir then 68 else 67) # pad_start 4 48 (oct m) @ [32] @ dec n @ [32] @ nm))))"

definition time_line :: "jsval \<Rightarrow> jsval \<Rightarrow> jsval \<Rightarrow> jsval \<Rightarrow> scp_error + jsstr" where
  "time_line mtime mtimeUsec atime atimeUsec =
     bindR (checked_integer mtime ''mtime'' SAFE_NAT) (\<lambda>a.
     bindR (checked_integer (or_else mtimeUsec (JNum 0)) ''mtime microseconds'' 999999) (\<lambda>b.
     bindR (checked_integer atime ''atime'' SAFE_NAT) (\<lambda>c.
     bindR (checked_integer (or_else atimeUsec (JNum 0)) ''atime microseconds'' 999999) (\<lambda>d.
       Inr (84 # dec a @ [32] @ dec b @ [32] @ dec c @ [32] @ dec d)))))"

definition error_line :: "bool \<Rightarrow> jsval \<Rightarrow> scp_error + jsstr" where
  "error_line fatal message =
     (case or_else message (JStr (js ''SCP transfer failed'')) of
        JStr m \<Rightarrow>
          if m = [] \<or> \<not> well_formed m \<or> has_control m then Inl (protocol_error ''Invalid SCP error message'')
          else Inr ((if fatal then 2 else 1) # m)
      | _ \<Rightarrow> Inl (protocol_error ''Invalid SCP error message''))"

text \<open>The bytes of a record.\<close>

definition encode_record :: "scp_limits \<Rightarrow> wire_record \<Rightarrow> scp_error + byte list" where
  "encode_record lim rec =
     (let text_line = (\<lambda>line.
            if byte_length line - 1 > maxLineBytes lim then
              Inl (Fail ''SCP_BUFFER_LIMIT'' ''SCP record exceeds line limit'')
            else Inr (utf8 (line @ [10]))) in
      case rec of
        WNone \<Rightarrow> Inl (protocol_error ''Invalid SCP record'')
      | WAck \<Rightarrow> Inr [0]
      | WEnd \<Rightarrow> text_line [69]
      | WFile mode bytes name \<Rightarrow> bindR (entry_line lim False mode bytes name) text_line
      | WDir mode bytes name \<Rightarrow> bindR (entry_line lim True mode bytes name) text_line
      | WTime a b c d \<Rightarrow> bindR (time_line a b c d) text_line
      | WError fatal message \<Rightarrow> bindR (error_line fatal message) text_line
      | WUnknown \<Rightarrow> Inl (protocol_error ''Unknown SCP record''))"

text \<open>An acknowledgement is one chunk; every other record is cut like a payload.\<close>

definition write_record :: "wire_record \<Rightarrow> unit write_act" where
  "write_record rec = operation (\<lambda>w.
     bindM (liftR (encode_record (opts w) rec)) (\<lambda>bytes.
       if rec = WAck then write_chunk bytes
       else forM write_chunk (pieces (maxChunkBytes (opts w)) bytes)) w)"

definition write_ack :: "unit write_act" where
  "write_ack = write_record WAck"

definition write_error :: "jsval \<Rightarrow> bool \<Rightarrow> unit write_act" where
  "write_error message fatal = write_record (WError fatal message)"

definition writer_close :: "writer \<Rightarrow> writer" where
  "writer_close w = w\<lparr>closed := True\<rparr>"

definition create_writer :: "limit_options \<Rightarrow> bool \<Rightarrow> nat \<Rightarrow> output_event list \<Rightarrow> scp_error + writer" where
  "create_writer o' aborted hwm events = bindR (limits o') (\<lambda>lim.
     let w = \<lparr>opts = lim, failure = None, closed = False, busy = False, out_destroyed = False,
              out_ended = False, high_water = hwm, queued = 0, sent = [], out_script = events\<rparr>
     in Inr (if aborted then fail_with ABORTED w else w))"

end
