(* ===== verification/ScpReader.thy ===== *)
theory ScpReader
  imports ScpProtocol
begin

text \<open>
  The reader refines a parser of the flat byte sequence: how the channel cuts the bytes into
  chunks, and how they are spread over the current chunk, Node's buffer and the events still
  to come, does not change any result.  The refinement is stated for a \<open>steady\<close> reader, one
  whose peer sends data within the receive window and then ends its side.
\<close>

section \<open>The flat parser\<close>

text \<open>A line of which \<open>acc\<close> has been read already.\<close>

definition flat_line_from :: "scp_limits \<Rightarrow> byte list \<Rightarrow> byte list \<Rightarrow> scp_error + jsstr \<times> byte list" where
  "flat_line_from lim acc bs =
     (let part = takeWhile (\<lambda>b. b \<noteq> 10) bs in
      if length acc + length part > maxLineBytes lim then
        Inl (Fail ''SCP_BUFFER_LIMIT'' ''SCP record exceeds line limit'')
      else if length part = length bs then Inl (EOF_ERROR ''Truncated SCP record'')
      else bindR (decode_text (acc @ part)) (\<lambda>line. Inr (line, drop (length part + 1) bs)))"

definition flat_line :: "scp_limits \<Rightarrow> byte list \<Rightarrow> scp_error + jsstr \<times> byte list" where
  "flat_line lim = flat_line_from lim []"

definition flat_record :: "scp_limits \<Rightarrow> byte list \<Rightarrow> scp_error + scp_record option \<times> byte list" where
  "flat_record lim bs =
     (case bs of
        [] \<Rightarrow> Inr (None, [])
      | type # rest \<Rightarrow>
          if type = 0 then Inr (Some RAck, rest)
          else bindR (flat_line lim rest) (\<lambda>(line, after).
                 bindR (parse_record lim type line) (\<lambda>rec. Inr (Some rec, after))))"

section \<open>Steady readers\<close>

definition steady :: "reader \<Rightarrow> bool" where
  "steady r \<longleftrightarrow> failure r = None \<and> \<not> closed r \<and> \<not> input_destroyed r
     \<and> length (pending r) \<le> maxBufferBytes (opts r)
     \<and> (input_ended r \<and> script r = []
        \<or> \<not> input_ended r \<and> (\<exists>cs. script r = map Arrive cs @ [InputEnd]
             \<and> (\<forall>c\<in>set cs. length c \<le> maxBufferBytes (opts r))))"

lemma steady_check [simp]: "steady r \<Longrightarrow> check r = (Inr (), r)"
  by (simp add: steady_def check_def)

lemma steady_updates [simp]:
  "steady (r\<lparr>offset := n\<rparr>) = steady r" "steady (r\<lparr>busy := b\<rparr>) = steady r" "steady (r\<lparr>buffer := c\<rparr>) = steady r"
  by (simp_all add: steady_def)

lemma to_come_offset [simp]:
  "n \<le> length (unread r) \<Longrightarrow> to_come (r\<lparr>offset := offset r + n\<rparr>) = drop n (to_come r)"
  "to_come (r\<lparr>busy := b\<rparr>) = to_come r"
  "unread r \<noteq> [] \<Longrightarrow> to_come (r\<lparr>offset := Suc (offset r)\<rparr>) = tl (to_come r)"
  by (simp_all add: to_come_def drop_Suc tl_append split: list.splits)

lemma arriving_simps [simp]:
  "arriving [] = []" "arriving (Arrive c # evs) = c @ arriving evs" "arriving (InputEnd # evs) = arriving evs"
  by (simp_all add: arriving_def)

lemma fill_steady:
  "steady r \<Longrightarrow> \<exists>t. fill r = (Inr (to_come r \<noteq> []), t) \<and> steady t \<and> to_come t = to_come r
     \<and> opts t = opts r \<and> busy t = busy r \<and> (to_come r \<noteq> [] \<longrightarrow> unread t \<noteq> [])"
proof (induction r rule: fill.induct)
  case (1 r)
  note steady = 1(2)
  have window: "\<not> maxBufferBytes (opts r) < length (pending r)" using steady by (simp add: steady_def)
  consider "unread r \<noteq> []" | "unread r = []" "pending r \<noteq> []" | "unread r = []" "pending r = []" "input_ended r"
    | "unread r = []" "pending r = []" "\<not> input_ended r" by blast
  then show ?case
  proof cases
    case 1
    then show ?thesis using steady by (subst fill.simps) (auto simp: to_come_def)
  next
    case 2
    then show ?thesis
      using steady window by (subst fill.simps) (auto simp: Let_def to_come_def steady_def)
  next
    case 3
    then show ?thesis
      using steady by (subst fill.simps) (auto simp: to_come_def readable_ended_def steady_def)
  next
    case 4
    then obtain ev evs where ev: "script r = ev # evs"
      using steady by (cases "script r") (auto simp: steady_def)
    let ?q = "deliver ev (r\<lparr>script := evs\<rparr>)"
    have q: "steady ?q" "to_come ?q = to_come r" "opts ?q = opts r" "busy ?q = busy r"
      using steady 4 ev
      by (auto simp: steady_def to_come_def deliver_def on_readable_def Let_def arriving_def Cons_eq_append_conv
          append_eq_Cons_conv Cons_eq_map_conv map_eq_Cons_conv)
    have "fill r = fill ?q"
      using steady 4 ev by (subst fill.simps) (auto simp: readable_ended_def steady_def)
    moreover have "\<exists>t. fill ?q = (Inr (to_come ?q \<noteq> []), t) \<and> steady t \<and> to_come t = to_come ?q
        \<and> opts t = opts ?q \<and> busy t = busy ?q \<and> (to_come ?q \<noteq> [] \<longrightarrow> unread t \<noteq> [])"
      by (rule 1(1)) (use steady 4 ev q in \<open>auto simp: readable_ended_def steady_def [of r]\<close>)
    ultimately show ?thesis using q by simp
  qed
qed

lemma read_byte_steady:
  assumes "steady r"
  shows "\<exists>t. read_byte True r = (Inr (case to_come r of [] \<Rightarrow> None | b # _ \<Rightarrow> Some b), t)
     \<and> steady t \<and> to_come t = tl (to_come r) \<and> opts t = opts r \<and> busy t = busy r"
proof -
  obtain t where t: "fill r = (Inr (to_come r \<noteq> []), t)" "steady t" "to_come t = to_come r" "opts t = opts r"
    "busy t = busy r" "to_come r \<noteq> [] \<longrightarrow> unread t \<noteq> []" using fill_steady [OF assms] by blast
  show ?thesis
  proof (cases "to_come r")
    case Nil
    then show ?thesis using t by (auto simp: read_byte_def bindM_def retM_def)
  next
    case (Cons b bs)
    then have u: "unread t \<noteq> []" "hd (unread t) = b" using t by (cases "unread t"; simp add: to_come_def)+
    then show ?thesis using Cons t by (auto simp: read_byte_def bindM_def)
  qed
qed

definition outcome :: "'e + 'a \<times> 'b \<Rightarrow> 'e + 'a" where
  "outcome x = (case x of Inl e \<Rightarrow> Inl e | Inr (a, _) \<Rightarrow> Inr a)"

lemma outcome_simps [simp]: "outcome (Inl e) = Inl e" "outcome (Inr (a, b)) = Inr a"
  "outcome (bindR x (\<lambda>a. Inr (a, b))) = x"
  by (simp_all add: outcome_def bindR_def split: sum.splits)

lemma takeWhile_newline: "c \<in> set u \<Longrightarrow> length (takeWhile (\<lambda>b. b \<noteq> c) u) < length u"
  by (induction u) auto

lemma flat_line_newline:
  assumes "10 \<in> set u" "length acc + length (takeWhile (\<lambda>b. b \<noteq> 10) u) \<le> maxLineBytes lim"
  shows "flat_line_from lim acc (u @ m) =
    bindR (decode_text (acc @ takeWhile (\<lambda>b. b \<noteq> 10) u))
      (\<lambda>line. Inr (line, drop (length (takeWhile (\<lambda>b. b \<noteq> 10) u) + 1) u @ m))"
proof -
  have tw: "takeWhile (\<lambda>b. b \<noteq> 10) (u @ m) = takeWhile (\<lambda>b. b \<noteq> 10) u"
    by (rule takeWhile_append1 [OF assms(1)]) simp
  have "length (takeWhile (\<lambda>b. b \<noteq> 10) u) < length u"
    using assms(1) by (rule takeWhile_newline)
  then show ?thesis using assms(2) unfolding flat_line_from_def Let_def tw by simp
qed

lemma takeWhile_prefix_length: "length (takeWhile P u) \<le> length (takeWhile P (u @ m))"
  by (induction u) auto

lemma flat_line_over:
  "length acc + length (takeWhile (\<lambda>b. b \<noteq> 10) u) > maxLineBytes lim \<Longrightarrow>
   flat_line_from lim acc (u @ m) = Inl (Fail ''SCP_BUFFER_LIMIT'' ''SCP record exceeds line limit'')"
  using takeWhile_prefix_length [of "\<lambda>b. b \<noteq> 10" u m] by (simp add: flat_line_from_def Let_def)

lemma flat_line_on:
  "10 \<notin> set u \<Longrightarrow> flat_line_from lim (acc @ u) m = flat_line_from lim acc (u @ m)"
proof -
  assume "10 \<notin> set u"
  then have tw: "takeWhile (\<lambda>b. b \<noteq> 10) (u @ m) = u @ takeWhile (\<lambda>b. b \<noteq> 10) m"
    by (intro takeWhile_append2) auto
  show ?thesis unfolding flat_line_from_def Let_def tw by (simp add: add.assoc)
qed

lemma line_steady:
  "steady r \<Longrightarrow> length acc \<le> maxLineBytes (opts r) \<Longrightarrow>
   \<exists>t. line_loop acc r = (outcome (flat_line_from (opts r) acc (to_come r)), t)
     \<and> (\<forall>line rest. flat_line_from (opts r) acc (to_come r) = Inr (line, rest) \<longrightarrow>
          steady t \<and> to_come t = rest \<and> opts t = opts r \<and> busy t = busy r)"
proof (induction acc r rule: line_loop.induct)
  case (1 acc r)
  note steady = 1(2) and acc = 1(3)
  obtain q where q: "fill r = (Inr (to_come r \<noteq> []), q)" "steady q" "to_come q = to_come r" "opts q = opts r"
    "busy q = busy r" "to_come r \<noteq> [] \<longrightarrow> unread q \<noteq> []" using fill_steady [OF steady] by blast
  let ?u = "unread q" and ?m = "pending q @ arriving (script q)"
  let ?part = "takeWhile (\<lambda>b. b \<noteq> 10) ?u"
  have all: "to_come r = ?u @ ?m" using q(3) by (simp add: to_come_def)
  consider "to_come r = []" | "to_come r \<noteq> []" "length acc + length ?part > maxLineBytes (opts r)"
    | "to_come r \<noteq> []" "length acc + length ?part \<le> maxLineBytes (opts r)" "10 \<in> set ?u"
    | "to_come r \<noteq> []" "length acc + length ?part \<le> maxLineBytes (opts r)" "10 \<notin> set ?u" by fastforce
  then show ?case
  proof cases
    case 1
    then show ?thesis using q acc by (subst line_loop.simps) (simp add: flat_line_from_def)
  next
    case 2
    have "flat_line_from (opts r) acc (to_come r) = Inl (Fail ''SCP_BUFFER_LIMIT'' ''SCP record exceeds line limit'')"
      unfolding all by (rule flat_line_over) (rule 2(2))
    then show ?thesis using q 2
      by (subst line_loop.simps) (simp add: Let_def)
  next
    case 3
    have less: "length ?part < length ?u" using 3(3) by (rule takeWhile_newline)
    have rest: "to_come (q\<lparr>offset := Suc (offset q + length ?part)\<rparr>) = drop (Suc (length ?part)) ?u @ ?m"
      using to_come_offset(1) [of "Suc (length ?part)" q] less q(3) by (simp add: all)
    have run: "line_loop acc r = (decode_text (acc @ ?part), q\<lparr>offset := Suc (offset q + length ?part)\<rparr>)"
      by (subst line_loop.simps) (use q(1,2,4) less 3(1,2) in \<open>simp add: Let_def\<close>)
    have flat: "flat_line_from (opts r) acc (to_come r) =
        bindR (decode_text (acc @ ?part)) (\<lambda>line. Inr (line, drop (Suc (length ?part)) ?u @ ?m))"
      unfolding all using flat_line_newline [OF 3(3,2), of ?m] by simp
    show ?thesis
      unfolding run flat using q(2,4,5) rest by (cases "decode_text (acc @ ?part)") simp_all
  next
    case 4
    let ?q = "q\<lparr>offset := offset q + length ?u\<rparr>"
    have part: "?part = ?u" using 4(3) by (auto simp: takeWhile_eq_all_conv)
    have rest: "to_come ?q = ?m" using to_come_offset(1) [of "length ?u" q] q(3) by (simp add: all)
    have step: "line_loop acc r = line_loop (acc @ ?u) ?q"
      by (subst line_loop.simps) (use q(1,2,4) 4(1,2) part in \<open>simp add: Let_def part\<close>)
    have dm: "drop (length ?u) (to_come q) = ?m" by (simp add: to_come_def)
    have "\<exists>t. line_loop (acc @ ?u) ?q = (outcome (flat_line_from (opts r) (acc @ ?u) ?m), t)
     \<and> (\<forall>line rest. flat_line_from (opts r) (acc @ ?u) ?m = Inr (line, rest) \<longrightarrow>
          steady t \<and> to_come t = rest \<and> opts t = opts r \<and> busy t = busy r)"
      using 1(1) [of "Inr True" q True "Inr ()" q "()" ?u] q(1,2,4) 4(1,2)
      by (simp add: part dm q(5))
    then show ?thesis unfolding step flat_line_on [OF 4(3)] all .
  qed
qed

section \<open>Records\<close>

lemma zoom_id [simp]: "zoomM (\<lambda>e. e) (\<lambda>e _. e) m = m"
  by (rule ext) (simp add: zoomM_def split: prod.splits)

lemma steady_ops: "steady r \<Longrightarrow> \<not> busy r \<Longrightarrow>
   operation f r = (case bindM f (\<lambda>result. bindM check (\<lambda>_. retM result)) (r\<lparr>busy := True\<rparr>) of
     (Inl Unsettled, t) \<Rightarrow> (Inl Unsettled, t) | (x, t) \<Rightarrow> (x, t\<lparr>busy := False\<rparr>))"
  by (simp add: operation_def operation_in_def bindM_def [of check])

lemma settles_bind: "x \<noteq> Inl Unsettled \<Longrightarrow> (\<And>a. f a \<noteq> Inl Unsettled) \<Longrightarrow> bindR x f \<noteq> Inl Unsettled"
  by (cases x) auto

lemma settles_basic: "checked_integer v l m \<noteq> Inl Unsettled" "validate_name v \<noteq> Inl Unsettled"
  "decode_text bs \<noteq> Inl Unsettled"
  by (simp_all add: checked_integer_def validate_name_def decode_text_def protocol_error_def split: jsval.splits option.splits)

lemma flat_line_settles: "flat_line lim bs \<noteq> Inl Unsettled"
  by (simp add: flat_line_def flat_line_from_def Let_def EOF_ERROR_def settles_bind settles_basic)

lemma parse_record_settles: "parse_record lim type line \<noteq> Inl Unsettled"
proof -
  have inl: "bindR x f = Inl e \<longleftrightarrow> x = Inl e \<or> (\<exists>a. x = Inr a \<and> f a = Inl e)" for x f and e :: scp_error
    by (cases x) auto
  show ?thesis
    by (auto simp: parse_record_def protocol_error_def inl settles_basic split: option.splits list.splits)
qed

lemma read_record_steady:
  assumes "steady r" "\<not> busy r"
  shows "\<exists>t. read_record r = (outcome (flat_record (opts r) (to_come r)), t)
     \<and> (\<forall>rec rest. flat_record (opts r) (to_come r) = Inr (rec, rest) \<longrightarrow>
          steady t \<and> to_come t = rest \<and> opts t = opts r \<and> \<not> busy t)"
proof -
  let ?r = "r\<lparr>busy := True\<rparr>"
  obtain t where t: "read_byte True ?r = (Inr (case to_come r of [] \<Rightarrow> None | b # _ \<Rightarrow> Some b), t)"
    "steady t" "to_come t = tl (to_come r)" "opts t = opts r" "busy t"
    using read_byte_steady [of ?r] assms by auto
  note ops = steady_ops [OF assms]
  show ?thesis
  proof (cases "to_come r")
    case Nil
    then show ?thesis using t by (simp add: read_record_def ops bindM_def retM_def flat_record_def)
  next
    case (Cons type bs)
    show ?thesis
    proof (cases "type = 0")
      case True
      then show ?thesis using t Cons by (simp add: read_record_def ops bindM_def retM_def flat_record_def)
    next
      case False
      obtain u where u: "line_loop [] t = (outcome (flat_line (opts r) bs), u)"
        "\<forall>line rest. flat_line (opts r) bs = Inr (line, rest) \<longrightarrow>
           steady u \<and> to_come u = rest \<and> opts u = opts r \<and> busy u"
        using line_steady [OF t(2), of "[]"] t Cons by (auto simp: flat_line_def)
      note nu = flat_line_settles [of "opts r" bs] and np = parse_record_settles [of "opts r" type]
      show ?thesis
      proof (cases "flat_line (opts r) bs")
        case (Inl e)
        then show ?thesis using t u Cons False nu
          by (auto simp: read_record_def ops bindM_def retM_def flat_record_def read_line_def split: scp_error.splits)
      next
        case (Inr x)
        then obtain line rest where x: "flat_line (opts r) bs = Inr (line, rest)" by (cases x) auto
        show ?thesis using t u Cons False x np [of line]
          by (cases "parse_record (opts r) type line")
            (auto simp: read_record_def ops bindM_def retM_def liftR_def flat_record_def read_line_def split: scp_error.splits)
      qed
    qed
  qed
qed

end
