(* ===== verification/ScpWire.thy ===== *)
theory ScpWire
  imports ScpReader
begin

text \<open>
  What the two ends of the SCP protocol agree on: a record that the writer accepts is read back
  as the same record, a payload reaches its consumer byte for byte, and the writer respects its
  chunk and buffer limits.
\<close>

section \<open>Records round trip\<close>

lemma int_result: "checked_integer v l m = Inr n \<longleftrightarrow> v = JNum (int n) \<and> n \<le> m \<and> n \<le> SAFE_NAT"
  by (auto simp: checked_integer_def SAFE_NAT_def MAX_SAFE_def split: jsval.splits if_splits)

lemma int_accepts: "checked_integer (js_number (dec n)) l m = Inr n \<longleftrightarrow> n \<le> m \<and> n \<le> SAFE_NAT"
  by (simp add: int_result js_number_def)

lemma dec_ascii: "u \<in> set (dec n) \<Longrightarrow> is_digit u \<and> u < 128 \<and> u \<noteq> 32 \<and> \<not> is_control u"
  using dec_digits [of u n] by (auto simp: is_digit_def is_control_def)

lemma oct_pad:
  assumes "m \<le> 4095"
  shows "length (pad_start 4 48 (oct m)) = 4" "u \<in> set (pad_start 4 48 (oct m)) \<Longrightarrow> is_octal u"
proof -
  have "length (oct m) \<le> 4" using radix_digits_length [of 8 m 4] assms by (simp add: oct_def)
  then show "length (pad_start 4 48 (oct m)) = 4" by (simp add: pad_start_def)
  show "is_octal u" if "u \<in> set (pad_start 4 48 (oct m))"
    using that radix_digits_chars [of 8 u m] by (auto simp: pad_start_def oct_def is_octal_def split: if_splits)
qed

lemma entry_fields_line:
  assumes "m \<le> 4095" "n \<noteq> []" "\<not> list_ex is_line_end n"
  shows "entry_fields (pad_start 4 48 (oct m) @ 32 # dec k @ 32 # n) = Some (pad_start 4 48 (oct m), dec k, n)"
proof -
  let ?p = "pad_start 4 48 (oct m)"
  have p: "length ?p = 4" "list_all is_octal ?p" using oct_pad [OF assms(1)] by (auto simp: list_all_iff)
  then have t: "take 4 (?p @ 32 # x) = ?p" "take 5 (?p @ 32 # x) = ?p @ [32]" "drop 5 (?p @ 32 # x) = x" for x
    by (simp_all add: take_Cons' drop_Cons')
  have d: "takeWhile is_digit (dec k @ 32 # n) = dec k"
    using dec_ascii [of _ k] by (subst takeWhile_append2) (auto simp: is_digit_def)
  show ?thesis using p assms by (simp add: entry_fields_def Let_def t d)
qed

lemma time_fields_line:
  "time_fields (dec a @ 32 # dec b @ 32 # dec c @ 32 # dec d) = Some [dec a, dec b, dec c, dec d]"
proof -
  have n: "32 \<notin> set (dec k)" for k using dec_ascii [of 32 k] by auto
  have dg: "list_all is_digit (dec k)" for k using dec_ascii by (auto simp: list_all_iff)
  show ?thesis by (simp add: time_fields_def Let_def split_on_append_sep split_on_notin n dg)
qed

text \<open>The record a wire record stands for.\<close>

definition value_nat :: "jsval \<Rightarrow> nat" where
  "value_nat v = (case v of JNum n \<Rightarrow> nat n | _ \<Rightarrow> 0)"

definition value_str :: "jsval \<Rightarrow> jsstr" where
  "value_str v = (case v of JStr s \<Rightarrow> s | _ \<Rightarrow> [])"

definition record_of :: "wire_record \<Rightarrow> scp_record" where
  "record_of w = (case w of
     WEnd \<Rightarrow> REnd
   | WFile m n name \<Rightarrow> RFile (value_nat m) (value_nat n) (value_str name)
   | WDir m n name \<Rightarrow> RDir (value_nat m) (value_nat n) (value_str name)
   | WTime a b c d \<Rightarrow> RTime (value_nat a) (value_nat (or_else b (JNum 0))) (value_nat c) (value_nat (or_else d (JNum 0)))
   | WError fatal m \<Rightarrow> RError fatal (value_str (or_else m (JStr (js ''SCP transfer failed''))))
   | _ \<Rightarrow> RAck)"

text \<open>Strings of the record are JavaScript strings, and no entry name has the two line
  separators U+2028 and U+2029, which the reader's pattern refuses and the writer's check
  does not.\<close>

definition wire_texts :: "wire_record \<Rightarrow> bool" where
  "wire_texts w \<longleftrightarrow> (case w of
     WFile _ _ (JStr n) \<Rightarrow> units n \<and> 8232 \<notin> set n \<and> 8233 \<notin> set n
   | WDir _ _ (JStr n) \<Rightarrow> units n \<and> 8232 \<notin> set n \<and> 8233 \<notin> set n
   | WError _ (JStr m) \<Rightarrow> units m
   | _ \<Rightarrow> True)"

lemma no_line_end: "\<not> has_control n \<Longrightarrow> 8232 \<notin> set n \<Longrightarrow> 8233 \<notin> set n \<Longrightarrow> \<not> list_ex is_line_end n"
  by (auto simp: list_ex_iff is_line_end_def has_control_iff is_control_def)

text \<open>The part of an encoded line behind the type byte.\<close>

lemma flat_record_line:
  assumes "t \<noteq> 0" "t < 128" "well_formed line" "units line" "\<not> has_control line"
    and "\<not> byte_length (t # line) - 1 > maxLineBytes lim"
  shows "flat_record lim (utf8 (t # line @ [10]) @ rest) =
    bindR (parse_record lim t line) (\<lambda>rec. Inr (Some rec, rest))"
proof -
  have u: "utf8 (t # line @ [10]) = t # utf8 line @ [10]" "byte_length (t # line) = Suc (length (utf8 line))"
    using utf8_append_ascii [of "[t]" "line @ [10]"] utf8_append_ascii [of "[t]" line] utf8_snoc_ascii [of 10 line] assms(2)
    by (simp_all add: byte_length_def)
  have no: "10 \<notin> set (utf8 line)"
    using utf8_ascii_unit [of 10 line] assms(5) by (force simp: has_control_iff is_control_def)
  then have tw: "takeWhile (\<lambda>b. b \<noteq> 10) (utf8 line @ 10 # rest) = utf8 line" by (subst takeWhile_append2) auto
  have d: "decode_text (utf8 line) = Inr line"
    using utf8_roundtrip [OF assms(3,4)] by (simp add: decode_text_def)
  show ?thesis using assms(1,6)
    by (simp add: flat_record_def u flat_line_def flat_line_from_def Let_def tw d)
qed

lemma has_control_append [simp]: "has_control (a @ b) \<longleftrightarrow> has_control a \<or> has_control b"
  "has_control (u # s) \<longleftrightarrow> is_control u \<or> has_control s" "\<not> has_control []"
  by (auto simp: has_control_iff)

lemma units_append [simp]: "units (a @ b) \<longleftrightarrow> units a \<and> units b" "units (u # s) \<longleftrightarrow> u < 65536 \<and> units s" "units []"
  by (auto simp: units_def)

lemma digits_plain [simp]: "units (dec n)" "\<not> has_control (dec n)"
  using dec_ascii [of _ n] by (force simp: units_def has_control_iff)+

lemma oct_plain: "m \<le> 4095 \<Longrightarrow> units (pad_start 4 48 (oct m)) \<and> \<not> has_control (pad_start 4 48 (oct m))
    \<and> (\<forall>u\<in>set (pad_start 4 48 (oct m)). u < 128)"
  using oct_pad(2) [of m] by (force simp: units_def has_control_iff is_octal_def is_control_def)

lemma control_32 [simp]: "\<not> is_control 32"
  by (simp add: is_control_def)

lemma entry_roundtrip:
  assumes line: "entry_line lim dir mode bytes name = Inr line"
    and name: "name = JStr n" "units n" "8232 \<notin> set n" "8233 \<notin> set n"
    and fits: "\<not> byte_length line - 1 > maxLineBytes lim"
  shows "flat_record lim (utf8 (line @ [10]) @ rest) =
    Inr (Some ((if dir then RDir else RFile) (value_nat mode) (value_nat bytes) n), rest)"
proof -
  from line name obtain m k where m: "mode = JNum (int m)" "m \<le> 4095" "bytes = JNum (int k)"
      "k \<le> maxFileBytes lim" "k \<le> SAFE_NAT" "dir \<longrightarrow> k = 0" and n: "safe_name n"
    and l: "line = (if dir then 68 else 67) # pad_start 4 48 (oct m) @ 32 # dec k @ 32 # n"
    by (auto simp: entry_line_def validate_name_def int_result split: if_splits)
  let ?t = "if dir then 68 else 67 :: nat" and ?l = "pad_start 4 48 (oct m) @ 32 # dec k @ 32 # n"
  have wf: "well_formed ?l" "units ?l" "\<not> has_control ?l"
    using n oct_plain [OF m(2)] dec_ascii [of _ k] name
      well_formed_ascii_append [of "pad_start 4 48 (oct m) @ 32 # dec k @ [32]" n]
    by (auto simp: safe_name_def)
  have "flat_record lim (utf8 (?t # ?l @ [10]) @ rest) = bindR (parse_record lim ?t ?l) (\<lambda>rec. Inr (Some rec, rest))"
    by (rule flat_record_line) (use wf fits in \<open>simp_all add: l\<close>)
  moreover have "parse_record lim ?t ?l = Inr ((if dir then RDir else RFile) m k n)"
    using m n wf(3) name entry_fields_line [of m n k] no_line_end [of n]
    by (auto simp: parse_record_def safe_name_def validate_name_def int_accepts)
  ultimately show ?thesis by (simp add: l m value_nat_def)
qed

lemma time_roundtrip:
  assumes line: "time_line a b c d = Inr line" and fits: "\<not> byte_length line - 1 > maxLineBytes lim"
  shows "flat_record lim (utf8 (line @ [10]) @ rest) = Inr (Some (record_of (WTime a b c d)), rest)"
proof -
  from line obtain p q r s where v: "a = JNum (int p)" "or_else b (JNum 0) = JNum (int q)" "c = JNum (int r)"
      "or_else d (JNum 0) = JNum (int s)" "p \<le> SAFE_NAT" "q \<le> 999999" "r \<le> SAFE_NAT" "s \<le> 999999"
      "q \<le> SAFE_NAT" "s \<le> SAFE_NAT"
    and l: "line = 84 # dec p @ 32 # dec q @ 32 # dec r @ 32 # dec s"
    by (auto simp: time_line_def int_result)
  let ?l = "dec p @ 32 # dec q @ 32 # dec r @ 32 # dec s"
  have "well_formed ?l" using well_formed_ascii_append [of ?l "[]"] dec_ascii by auto
  then have "flat_record lim (utf8 (84 # ?l @ [10]) @ rest) = bindR (parse_record lim 84 ?l) (\<lambda>rec. Inr (Some rec, rest))"
    by (intro flat_record_line) (use fits in \<open>simp_all add: l\<close>)
  moreover have "parse_record lim 84 ?l = Inr (RTime p q r s)"
    using v by (simp add: parse_record_def time_fields_line int_accepts)
  ultimately show ?thesis using v by (simp add: l record_of_def value_nat_def)
qed

lemma error_roundtrip:
  assumes line: "error_line fatal msg = Inr line" and fits: "\<not> byte_length line - 1 > maxLineBytes lim"
    and str: "\<And>m. msg = JStr m \<Longrightarrow> units m"
  shows "flat_record lim (utf8 (line @ [10]) @ rest) = Inr (Some (record_of (WError fatal msg)), rest)"
proof -
  from line obtain m where m: "or_else msg (JStr (js ''SCP transfer failed'')) = JStr m" "well_formed m" "\<not> has_control m"
    and l: "line = (if fatal then 2 else 1) # m"
    by (auto simp: error_line_def split: jsval.splits if_splits)
  have "units m" using m(1) str by (auto simp: or_else_def js_def units_def split: if_splits)
  then have "flat_record lim (utf8 ((if fatal then 2 else 1) # m @ [10]) @ rest) =
      bindR (parse_record lim (if fatal then 2 else 1) m) (\<lambda>rec. Inr (Some rec, rest))"
    by (intro flat_record_line) (use fits m in \<open>simp_all add: l\<close>)
  then show ?thesis using m by (simp add: l parse_record_def record_of_def value_str_def)
qed

lemma record_roundtrip:
  assumes enc: "encode_record lim w = Inr bytes" and texts: "wire_texts w"
  shows "flat_record lim (bytes @ rest) = Inr (Some (record_of w), rest)"
proof (cases w)
  case WAck
  then show ?thesis using enc by (auto simp: encode_record_def flat_record_def record_of_def)
next
  case WEnd
  have "flat_record lim (utf8 (69 # [] @ [10]) @ rest) = bindR (parse_record lim 69 []) (\<lambda>rec. Inr (Some rec, rest))"
    by (rule flat_record_line) (use enc WEnd in \<open>simp_all add: encode_record_def split: if_splits\<close>)
  then show ?thesis using enc WEnd
    by (auto simp: encode_record_def parse_record_def record_of_def split: if_splits)
next
  case (WFile mode size name)
  then obtain line where l: "entry_line lim False mode size name = Inr line" "bytes = utf8 (line @ [10])"
      "\<not> byte_length line - 1 > maxLineBytes lim"
    using enc by (auto simp: encode_record_def split: if_splits)
  obtain n where n: "name = JStr n" using l(1)
    by (auto simp: entry_line_def validate_name_def split: jsval.splits)
  show ?thesis using entry_roundtrip [OF l(1) n _ _ _ l(3)] texts WFile n l(2)
    by (simp add: wire_texts_def record_of_def value_str_def)
next
  case (WDir mode size name)
  then obtain line where l: "entry_line lim True mode size name = Inr line" "bytes = utf8 (line @ [10])"
      "\<not> byte_length line - 1 > maxLineBytes lim"
    using enc by (auto simp: encode_record_def split: if_splits)
  obtain n where n: "name = JStr n" using l(1)
    by (auto simp: entry_line_def validate_name_def split: jsval.splits if_splits)
  show ?thesis using entry_roundtrip [OF l(1) n _ _ _ l(3)] texts WDir n l(2)
    by (simp add: wire_texts_def record_of_def value_str_def)
next
  case (WTime a b c d)
  then show ?thesis using enc time_roundtrip [of a b c d _ lim rest]
    by (auto simp: encode_record_def split: if_splits)
next
  case (WError fatal msg)
  then show ?thesis using enc texts error_roundtrip [of fatal msg _ lim rest]
    by (auto simp: encode_record_def wire_texts_def split: if_splits jsval.splits)
qed (use enc in \<open>simp_all add: encode_record_def\<close>)

text \<open>
  Claim C3: The reader refines a parser of the flat byte sequence.  For a peer that sends data
  within the receive window and then ends its side, \<open>readRecord\<close> returns what the flat parser
  returns on the bytes to come, error or record, and leaves exactly the rest, however the
  channel cut the bytes into chunks.
\<close>

theorem reader_refines_flat_parser:
  assumes "steady r" "\<not> busy r"
  shows "\<exists>t. read_record r = (outcome (flat_record (opts r) (to_come r)), t)
     \<and> (\<forall>rec rest. flat_record (opts r) (to_come r) = Inr (rec, rest) \<longrightarrow>
          steady t \<and> \<not> busy t \<and> opts t = opts r \<and> to_come t = rest)"
  using read_record_steady [OF assms] by blast

text \<open>
  Claim C4: Every record the writer accepts is read back as the same record by a peer with the
  same limits, whatever the chunking, and the bytes behind it are left for the next record.
  The one exception are entry names with U+2028 or U+2029, which the writer's check admits.
\<close>

theorem scp_record_roundtrip:
  assumes "encode_record (opts r) w = Inr bytes" "wire_texts w"
    and "steady r" "\<not> busy r" "to_come r = bytes @ rest"
  shows "\<exists>t. read_record r = (Inr (Some (record_of w)), t) \<and> steady t \<and> \<not> busy t \<and> to_come t = rest"
  using read_record_steady [OF assms(3,4)] record_roundtrip [OF assms(1,2), of rest] assms(5) by fastforce

text \<open>The exception: \<open>validateName\<close> accepts the name, \<open>readRecord\<close> refuses the line.\<close>

text \<open>
  An entry name with the line separator U+2028 passes \<open>validateName\<close>, so that the
  writer sends its record, but the reader's pattern refuses the line it receives.
\<close>

lemma line_separator_name_refused:
  "validate_name (JStr [97, 8232]) = Inr [97, 8232]
   \<and> (\<exists>bytes. encode_record DEFAULT_LIMITS (WFile (JNum 420) (JNum 0) (JStr [97, 8232])) = Inr bytes
        \<and> flat_record DEFAULT_LIMITS bytes = Inl (protocol_error ''Malformed SCP entry record''))"
proof -
  have e: "encode_record DEFAULT_LIMITS (WFile (JNum 420) (JNum 0) (JStr [97, 8232])) =
      Inr [67, 48, 54, 52, 52, 32, 48, 32, 97, 226, 128, 168, 10]" by code_simp
  have "flat_record DEFAULT_LIMITS [67, 48, 54, 52, 52, 32, 48, 32, 97, 226, 128, 168, 10] =
      Inl (protocol_error ''Malformed SCP entry record'')" by code_simp
  moreover have "validate_name (JStr [97, 8232]) = Inr [97, 8232]" by code_simp
  ultimately show ?thesis using e by blast
qed

section \<open>Accepted records\<close>

definition sound_record :: "scp_limits \<Rightarrow> scp_record \<Rightarrow> bool" where
  "sound_record lim rec \<longleftrightarrow> (case rec of
     RFile m n name \<Rightarrow> m \<le> 4095 \<and> n \<le> maxFileBytes lim \<and> n \<le> SAFE_NAT \<and> safe_name name
   | RDir m n name \<Rightarrow> m \<le> 4095 \<and> n = 0 \<and> safe_name name
   | RTime a b c d \<Rightarrow> a \<le> SAFE_NAT \<and> b \<le> 999999 \<and> c \<le> SAFE_NAT \<and> d \<le> 999999
   | RError _ m \<Rightarrow> \<not> has_control m
   | _ \<Rightarrow> True)"

lemma octal_bound: "list_all is_octal s \<Longrightarrow> radix_value 8 s < 8 ^ length s"
proof (induction s rule: rev_induct)
  case (snoc d s)
  then show ?case by (auto simp: radix_value_snoc is_octal_def)
qed (simp add: radix_value_def)

lemma parse_record_sound: "parse_record lim t line = Inr rec \<Longrightarrow> sound_record lim rec"
proof -
  assume p: "parse_record lim t line = Inr rec"
  have "radix_value 8 m \<le> 4095" if "entry_fields line = Some (m, d, n)" for m d n
  proof -
    have "list_all is_octal m" "length m \<le> 4"
      using that by (auto simp: entry_fields_def Let_def split: if_splits)
    then have "radix_value 8 m < 8 ^ length m" "(8::nat) ^ length m \<le> 8 ^ 4"
      using octal_bound by (blast, intro power_increasing) auto
    then show ?thesis by simp
  qed
  then show ?thesis using p
    by (auto simp: parse_record_def sound_record_def validate_name_def int_result
        split: if_splits option.splits list.splits)
qed

lemma operation_Inr:
  "operation f r = (Inr a, t) \<Longrightarrow> \<exists>u. f (r\<lparr>busy := True\<rparr>) = (Inr a, u) \<and> t = u\<lparr>busy := False\<rparr>"
  by (auto simp: operation_def operation_in_def bindM_def check_def retM_def
      split: prod.splits sum.splits if_splits option.splits scp_error.splits)

lemma deliver_opts [simp]: "opts (deliver ev r) = opts r"
  by (cases ev) (auto simp: deliver_def on_readable_def on_close_def fail_with_def reader_close_def Let_def)

lemma fill_opts: "fill r = (x, t) \<Longrightarrow> opts t = opts r"
proof (induction r rule: fill.induct)
  case (1 r)
  then show ?case
    by (subst (asm) (2) fill.simps)
      (auto simp: expire_def fail_with_def Let_def split: prod.splits sum.splits if_splits list.splits)
qed

lemma check_snd: "snd (check e) = e"
  by (simp add: check_def split: option.splits)

lemma line_opts: "line_loop acc r = (x, t) \<Longrightarrow> opts t = opts r"
proof (induction acc r rule: line_loop.induct)
  case (1 acc r)
  obtain y q where q: "fill r = (y, q)" by force
  then have o: "opts q = opts r" by (rule fill_opts)
  obtain z where z: "check q = (z, q)" by (metis check_snd prod.collapse)
  show ?case
  proof (cases "\<exists>b c. y = Inr b \<and> b \<and> z = Inr c \<and> \<not> maxLineBytes (opts q) < length acc + length (takeWhile (\<lambda>b. b \<noteq> 10) (unread q))
      \<and> \<not> length (takeWhile (\<lambda>b. b \<noteq> 10) (unread q)) < length (unread q)")
    case True
    then show ?thesis using 1(1) [of y q True z q "()"] 1(2) q z o
      by (subst (asm) (2) line_loop.simps) (auto simp: Let_def)
  next
    case False
    then show ?thesis using 1(2) q z o
      by (subst (asm) line_loop.simps) (auto simp: Let_def split: sum.splits if_splits)
  qed
qed

text \<open>
  Whatever the peer sends, a record that \<open>readRecord\<close> returns is sound: the mode has
  at most four octal digits, the size is within the file limit (zero for a directory), the name
  is one path component that is neither \<open>.\<close> nor \<open>..\<close>, has no slash and no control character,
  and is well-formed Unicode.
\<close>

theorem read_record_sound:
  assumes "read_record r = (Inr (Some rec), t)"
  shows "sound_record (opts r) rec"
proof -
  from operation_Inr [OF assms [unfolded read_record_def]] obtain u where
    "bindM (read_byte True) (\<lambda>b. case b of None \<Rightarrow> retM None | Some type \<Rightarrow>
       if type = 0 then retM (Some RAck)
       else bindM read_line (\<lambda>line r. liftR (bindR (parse_record (opts r) type line) (\<lambda>x. Inr (Some x))) r))
     (r\<lparr>busy := True\<rparr>) = (Inr (Some rec), u)" by blast
  then obtain b q where b: "read_byte True (r\<lparr>busy := True\<rparr>) = (Inr b, q)"
    and rest: "(case b of None \<Rightarrow> retM None | Some type \<Rightarrow>
       if type = 0 then retM (Some RAck)
       else bindM read_line (\<lambda>line r. liftR (bindR (parse_record (opts r) type line) (\<lambda>x. Inr (Some x))) r)) q
       = (Inr (Some rec), u)" by (auto simp: bindM_Inr_iff)
  have "opts q = opts r"
    using b by (auto simp: read_byte_def bindM_Inr_iff check_def retM_def throwM_def dest!: fill_opts
        split: if_splits option.splits)
  then show ?thesis
    using rest by (auto simp: retM_def bindM_Inr_iff liftR_def read_line_def sound_record_def [of _ RAck]
        split: option.splits if_splits dest!: line_opts parse_record_sound)
qed

section \<open>Payload\<close>

text \<open>The interface the payload loop relies on: a reader that is part of a larger state, and a
  consumer that changes the rest of the state only.\<close>

locale reader_part =
  fixes get :: "'s \<Rightarrow> reader" and put :: "reader \<Rightarrow> 's \<Rightarrow> 's" and eat :: "byte list \<Rightarrow> 's \<Rightarrow> 's"
  assumes get_put: "get (put r s) = r"
    and put_put: "put r (put q s) = put r s"
    and put_get: "put (get s) s = s"
    and eat_put: "eat b (put r s) = put r (eat b s)"
    and get_eat: "get (eat b s) = get s"
begin

lemma next_block_steady:
  assumes "steady r" "0 < n"
  shows "if to_come r = [] then \<exists>t. next_block n r = (Inl (EOF_ERROR ''Truncated SCP payload''), t)
     else \<exists>b t. next_block n r = (Inr b, t) \<and> b \<noteq> [] \<and> length b \<le> n \<and> steady t \<and> to_come r = b @ to_come t
        \<and> opts t = opts r \<and> busy t = busy r"
proof -
  obtain q where q: "fill r = (Inr (to_come r \<noteq> []), q)" "steady q" "to_come q = to_come r" "opts q = opts r"
    "busy q = busy r" "to_come r \<noteq> [] \<longrightarrow> unread q \<noteq> []" using fill_steady [OF assms(1)] by blast
  have "to_come (q\<lparr>offset := offset q + min n (length (unread q))\<rparr>) = drop (min n (length (unread q))) (to_come q)"
    by simp
  moreover have "to_come q = take n (unread q) @ drop (min n (length (unread q))) (to_come q)"
    unfolding to_come_def by (cases "n \<le> length (unread q)") (simp_all add: min_def)
  ultimately show ?thesis using q assms(2)
    by (auto simp: next_block_def bindM_def throwM_def)
qed

lemma payload_steady:
  "steady (get s) \<Longrightarrow> n \<le> length (to_come (get s)) \<Longrightarrow>
   \<exists>bs t. payload_loop get put (\<lambda>b s. (Inr (), eat b s)) n s = (Inr (), put t (fold eat bs s))
     \<and> concat bs = take n (to_come (get s)) \<and> [] \<notin> set bs
     \<and> steady t \<and> to_come t = drop n (to_come (get s)) \<and> opts t = opts (get s) \<and> busy t = busy (get s)"
proof (induction n arbitrary: s rule: less_induct)
  case (less n)
  show ?case
  proof (cases "n = 0")
    case True
    then have "payload_loop get put (\<lambda>b s. (Inr (), eat b s)) n s = (Inr (), put (get s) (fold eat [] s))"
      by (subst payload_loop.simps) (simp add: retM_def put_get)
    then show ?thesis using True less.prems by (intro exI [of _ "[]"] exI [of _ "get s"]) auto
  next
    case False
    then have "to_come (get s) \<noteq> []" using less.prems by auto
    then obtain b t where b: "next_block n (get s) = (Inr b, t)" "b \<noteq> []" "length b \<le> n" "steady t"
      "to_come (get s) = b @ to_come t" "opts t = opts (get s)" "busy t = busy (get s)"
      using next_block_steady [OF less.prems(1), of n] False by auto
    let ?s = "put t (eat b s)"
    have get: "get ?s = t" by (rule get_put)
    have step: "payload_loop get put (\<lambda>b s. (Inr (), eat b s)) n s =
        payload_loop get put (\<lambda>b s. (Inr (), eat b s)) (n - length b) ?s"
      using False b by (subst payload_loop.simps)
        (cases b, simp_all add: bindM_def zoomM_def wait_for_def get_put eat_put get_eat)
    have "n - length b < n" using b False by (cases b) auto
    moreover have "steady (get ?s)" "n - length b \<le> length (to_come (get ?s))"
      using b less.prems(2) by (auto simp: get)
    ultimately obtain bs u where u:
      "payload_loop get put (\<lambda>b s. (Inr (), eat b s)) (n - length b) ?s = (Inr (), put u (fold eat bs ?s))"
      "concat bs = take (n - length b) (to_come t)" "[] \<notin> set bs" "steady u"
      "to_come u = drop (n - length b) (to_come t)" "opts u = opts t" "busy u = busy t"
      using less.IH [of "n - length b" ?s] by (auto simp: get)
    have "fold eat bs (put t x) = put t (fold eat bs x)" for x
      by (induction bs arbitrary: x) (simp_all add: eat_put)
    then have "put u (fold eat bs ?s) = put u (fold eat (b # bs) s)" by (simp add: put_put)
    then show ?thesis using step u b
      by (intro exI [of _ "b # bs"] exI [of _ u]) auto
  qed
qed

lemma payload_short:
  "steady (get s) \<Longrightarrow> length (to_come (get s)) < n \<Longrightarrow>
   \<exists>t. payload_loop get put (\<lambda>b s. (Inr (), eat b s)) n s = (Inl (EOF_ERROR ''Truncated SCP payload''), t)"
proof (induction n arbitrary: s rule: less_induct)
  case (less n)
  show ?case
  proof (cases "to_come (get s) = []")
    case True
    then show ?thesis using next_block_steady [OF less.prems(1), of n] less.prems(2)
      by (subst payload_loop.simps) (auto simp: bindM_def zoomM_def)
  next
    case False
    then obtain b t where b: "next_block n (get s) = (Inr b, t)" "b \<noteq> []" "length b \<le> n" "steady t"
      "to_come (get s) = b @ to_come t"
      using next_block_steady [OF less.prems(1), of n] less.prems(2) by auto
    let ?s = "put t (eat b s)"
    have get: "get ?s = t" by (rule get_put)
    have step: "payload_loop get put (\<lambda>b s. (Inr (), eat b s)) n s =
        payload_loop get put (\<lambda>b s. (Inr (), eat b s)) (n - length b) ?s"
      using less.prems(2) b by (subst payload_loop.simps)
        (cases b, simp_all add: bindM_def zoomM_def wait_for_def get_put eat_put get_eat)
    have "n - length b < n" using b less.prems(2) by (cases b) auto
    then show ?thesis using less.IH [of "n - length b" ?s] step b less.prems(2) by (auto simp: get)
  qed
qed

end

text \<open>A consumer that collects its blocks, next to the reader.\<close>

definition collect :: "byte list \<Rightarrow> reader \<times> byte list \<Rightarrow> reader \<times> byte list" where
  "collect b s = (fst s, snd s @ b)"

interpretation collecting: reader_part fst "\<lambda>r s. (r, snd s)" collect
  by unfold_locales (auto simp: collect_def)

lemma collect_all: "fold collect bs s = (fst s, snd s @ concat bs)"
  by (induction bs arbitrary: s) (auto simp: collect_def)

text \<open>
  Claim C5: \<open>readPayload\<close> hands its consumer exactly the next \<open>n\<close> bytes of the stream, in
  order, and leaves the bytes behind them; a stream that ends earlier is a truncation error.
\<close>

theorem payload_exact:
  assumes "steady r" "\<not> busy r" "n \<le> maxFileBytes (opts r)" "n \<le> SAFE_NAT"
  shows "if n \<le> length (to_come r)
     then \<exists>t. read_payload fst (\<lambda>r s. (r, snd s)) (JNum (int n)) (\<lambda>b s. (Inr (), collect b s)) (r, []) =
                (Inr (), (t, take n (to_come r)))
            \<and> steady t \<and> \<not> busy t \<and> to_come t = drop n (to_come r)
     else \<exists>t. read_payload fst (\<lambda>r s. (r, snd s)) (JNum (int n)) (\<lambda>b s. (Inr (), collect b s)) (r, []) =
                (Inl (EOF_ERROR ''Truncated SCP payload''), t)"
proof -
  let ?r = "r\<lparr>busy := True\<rparr>"
  have int: "checked_integer (JNum (int n)) ''payload size'' (maxFileBytes (opts ?r)) = Inr n"
    using assms(3,4) by (simp add: int_result)
  show ?thesis
  proof (cases "n \<le> length (to_come r)")
    case True
    then obtain bs t where t: "payload_loop fst (\<lambda>r s. (r, snd s)) (\<lambda>b s. (Inr (), collect b s)) n (?r, []) =
        (Inr (), (t, snd (fold collect bs (?r, []))))" "concat bs = take n (to_come r)" "steady t" "to_come t = drop n (to_come r)"
      using collecting.payload_steady [of "(?r, [])" n] assms(1) by auto
    then show ?thesis using True int assms(1,2)
      by (auto simp: read_payload_def operation_in_def bindM_def zoomM_def liftR_def retM_def collect_all)
  next
    case False
    then obtain t where "payload_loop fst (\<lambda>r s. (r, snd s)) (\<lambda>b s. (Inr (), collect b s)) n (?r, []) =
        (Inl (EOF_ERROR ''Truncated SCP payload''), t)"
      using collecting.payload_short [of "(?r, [])" n] assms(1) by auto
    then show ?thesis using False int assms(1,2)
      by (simp add: read_payload_def operation_in_def bindM_def zoomM_def liftR_def EOF_ERROR_def)
  qed
qed

section \<open>The writer\<close>

definition await_next :: "nat \<Rightarrow> output_event \<Rightarrow> writer \<Rightarrow> writer" where
  "await_next n ev w = (case ev of
     Callback \<Rightarrow> w\<lparr>queued := queued w - n\<rparr> | Drain \<Rightarrow> w | _ \<Rightarrow> deliver_out ev w)"

lemma await_step:
  "await_write n a b w =
     (case fst (check w) of
        Inl x \<Rightarrow> (Inl x, w)
      | Inr _ \<Rightarrow>
          if a \<and> b then (Inr (), w)
          else (case out_script w of
                  [] \<Rightarrow> expire w
                | ev # evs \<Rightarrow>
                    if ev = CallbackError then (Inl WRITE_FAILED, w\<lparr>out_script := evs\<rparr>)
                    else await_write n (a \<or> ev = Callback) (b \<or> ev = Drain) (await_next n ev (w\<lparr>out_script := evs\<rparr>))))"
proof -
  obtain z where z: "check w = (z, w)" by (metis check_snd prod.collapse)
  have "await_write n a b w = (case z of Inl x \<Rightarrow> (Inl x, w) | Inr _ \<Rightarrow>
          if a \<and> b then (Inr (), w)
          else (case out_script w of [] \<Rightarrow> expire w | ev # evs \<Rightarrow>
                    (let q = w\<lparr>out_script := evs\<rparr> in
                     case ev of
                       Callback \<Rightarrow> await_write n True b (q\<lparr>queued := queued q - n\<rparr>)
                     | Drain \<Rightarrow> await_write n a True q
                     | CallbackError \<Rightarrow> (Inl WRITE_FAILED, q)
                     | _ \<Rightarrow> await_write n a b (deliver_out ev q))))"
    by (subst await_write.simps) (simp add: z)
  also have "\<dots> = (case z of Inl x \<Rightarrow> (Inl x, w) | Inr _ \<Rightarrow>
          if a \<and> b then (Inr (), w)
          else (case out_script w of [] \<Rightarrow> expire w | ev # evs \<Rightarrow>
                    if ev = CallbackError then (Inl WRITE_FAILED, w\<lparr>out_script := evs\<rparr>)
                    else await_write n (a \<or> ev = Callback) (b \<or> ev = Drain) (await_next n ev (w\<lparr>out_script := evs\<rparr>))))"
    by (cases z; cases "out_script w"; cases "hd (out_script w)") (simp_all add: Let_def await_next_def)
  finally show ?thesis by (simp add: z)
qed

lemma await_next_frame: "sent (await_next n ev w) = sent w" "opts (await_next n ev w) = opts w"
  "queued (await_next n ev w) \<le> queued w" "out_script (await_next n ev w) = out_script w"
  by (cases ev; simp add: await_next_def deliver_out_def fail_with_def Let_def)+

lemma await_frame: "await_write n a b w = (x, t) \<Longrightarrow> sent t = sent w \<and> opts t = opts w \<and> queued t \<le> queued w"
proof (induction "out_script w" arbitrary: a b w)
  case Nil
  then show ?case
    by (subst (asm) await_step) (auto simp: expire_def fail_with_def split: sum.splits if_splits)
next
  case (Cons ev evs)
  let ?q = "await_next n ev (w\<lparr>out_script := evs\<rparr>)"
  have f: "sent ?q = sent w" "opts ?q = opts w" "queued ?q \<le> queued w" "out_script ?q = evs"
    using await_next_frame(3) [of n ev "w\<lparr>out_script := evs\<rparr>"] by (simp_all add: await_next_frame)
  show ?case
  proof (cases "await_write n a b w = await_write n (a \<or> ev = Callback) (b \<or> ev = Drain) ?q")
    case True
    with Cons.hyps(1) [OF f(4) [symmetric]] Cons.prems have "sent t = sent ?q \<and> opts t = opts ?q \<and> queued t \<le> queued ?q"
      by metis
    then show ?thesis using f by auto
  next
    case False
    then show ?thesis using Cons.prems Cons.hyps(2) [symmetric]
      by (subst (asm) (1 2) await_step) (auto split: sum.splits if_splits)
  qed
qed

lemma write_chunk_frame:
  assumes "write_chunk c w = (x, t)"
  shows "opts t = opts w \<and> (sent t = sent w \<and> x \<noteq> Inr () \<or> sent t = sent w @ [c])
    \<and> (queued w \<le> maxBufferBytes (opts w) \<longrightarrow> queued t \<le> maxBufferBytes (opts w))"
proof -
  obtain z where z: "check w = (z, w)" by (metis check_snd prod.collapse)
  show ?thesis using assms z
    by (auto simp: write_chunk_def bindM_def Let_def split: sum.splits if_splits list.splits output_event.splits
        dest!: await_frame)
qed

lemma chunks_frame:
  "forM write_chunk cs w = (x, t) \<Longrightarrow> opts t = opts w
    \<and> (\<exists>k. sent t = sent w @ take k cs) \<and> (x = Inr () \<longrightarrow> sent t = sent w @ cs)
    \<and> (queued w \<le> maxBufferBytes (opts w) \<longrightarrow> queued t \<le> maxBufferBytes (opts w))"
proof (induction cs arbitrary: w)
  case Nil
  then show ?case by (auto simp: retM_def)
next
  case (Cons c cs)
  obtain y u where u: "write_chunk c w = (y, u)" by force
  note f = write_chunk_frame [OF u]
  show ?case
  proof (cases y)
    case (Inl e)
    then have "x = Inl e" "t = u" using Cons.prems u by (auto simp: bindM_def)
    moreover have "\<exists>k. sent u = sent w @ take k (c # cs)"
      using f by (auto intro: exI [of _ 0] exI [of _ 1])
    ultimately show ?thesis using f by simp
  next
    case (Inr v)
    then have n: "forM write_chunk cs u = (x, t)" using Cons.prems u by (simp add: bindM_def)
    then obtain k where "sent t = sent u @ take k cs" using Cons.IH by blast
    then have "\<exists>k. sent t = sent w @ take k (c # cs)" using f Inr by (intro exI [of _ "Suc k"]) auto
    then show ?thesis using f Inr Cons.IH [OF n] by auto
  qed
qed

lemma operation_frame:
  assumes "operation f w = (x, t)"
  shows "t = w \<and> x \<noteq> Inr a \<or> (\<exists>y u. f (w\<lparr>busy := True\<rparr>) = (y, u) \<and> (x = Inr a \<longrightarrow> y = Inr a)
    \<and> (t = u \<or> t = u\<lparr>busy := False\<rparr>))"
proof -
  obtain z where z: "check w = (z, w)" by (metis check_snd prod.collapse)
  obtain y u where u: "f (w\<lparr>busy := True\<rparr>) = (y, u)" by force
  obtain z' where z': "check u = (z', u)" by (metis check_snd prod.collapse)
  show ?thesis using assms z u z'
    by (auto simp: operation_def operation_in_def bindM_def retM_def split: sum.splits if_splits scp_error.splits)
qed

lemma forM_single: "forM f [x] = f x"
  by (rule ext) (auto simp: bindM_def retM_def split: prod.splits sum.splits)

text \<open>The chunks a record or payload is sent in, \<open>None\<close> when it is refused.\<close>

definition record_chunks :: "scp_limits \<Rightarrow> wire_record \<Rightarrow> byte list list option" where
  "record_chunks lim rec = (case encode_record lim rec of
     Inl _ \<Rightarrow> None
   | Inr bytes \<Rightarrow> Some (if rec = WAck then [bytes] else pieces (maxChunkBytes lim) bytes))"

lemma write_record_frame:
  assumes "write_record rec w = (x, t)"
  shows "opts t = opts w \<and> (\<exists>k. sent t = sent w @ (case record_chunks (opts w) rec of None \<Rightarrow> [] | Some cs \<Rightarrow> take k cs))
    \<and> (x = Inr () \<longrightarrow> (\<exists>cs. record_chunks (opts w) rec = Some cs \<and> sent t = sent w @ cs))
    \<and> (queued w \<le> maxBufferBytes (opts w) \<longrightarrow> queued t \<le> maxBufferBytes (opts w))"
proof -
  let ?w = "w\<lparr>busy := True\<rparr>"
  let ?f = "\<lambda>w. bindM (liftR (encode_record (opts w) rec)) (\<lambda>bytes.
       if rec = WAck then write_chunk bytes else forM write_chunk (pieces (maxChunkBytes (opts w)) bytes)) w"
  have run: "opts u = opts w \<and> (\<exists>k. sent u = sent w @ (case record_chunks (opts w) rec of None \<Rightarrow> [] | Some cs \<Rightarrow> take k cs))
    \<and> (y = Inr () \<longrightarrow> (\<exists>cs. record_chunks (opts w) rec = Some cs \<and> sent u = sent w @ cs))
    \<and> (queued w \<le> maxBufferBytes (opts w) \<longrightarrow> queued u \<le> maxBufferBytes (opts w))"
    if "?f ?w = (y, u)" for y u
  proof (cases "encode_record (opts w) rec")
    case (Inl e)
    then show ?thesis using that by (auto simp: bindM_def liftR_def record_chunks_def)
  next
    case (Inr bytes)
    then have run: "forM write_chunk (if rec = WAck then [bytes] else pieces (maxChunkBytes (opts w)) bytes) ?w = (y, u)"
      using that by (cases "rec = WAck") (simp_all add: bindM_def liftR_def forM_single del: forM.simps)
    show ?thesis
      using Inr chunks_frame [OF run] by (cases "rec = WAck") (simp_all add: record_chunks_def)
  qed
  from operation_frame [where a = "()", OF assms [unfolded write_record_def]]
  consider "t = w" "x \<noteq> Inr ()"
    | y u where "?f ?w = (y, u)" "x = Inr () \<longrightarrow> y = Inr ()" "t = u \<or> t = u\<lparr>busy := False\<rparr>" by blast
  then show ?thesis
  proof cases
    case 1
    then show ?thesis by (auto intro: exI [of _ 0] split: option.splits)
  next
    case 2
    have same: "opts t = opts u" "sent t = sent u" "queued t = queued u" using 2(3) by auto
    show ?thesis unfolding same using run [OF 2(1)] 2(2) by blast
  qed
qed

lemma encode_ack: "encode_record lim WAck = Inr [0]"
  by (simp add: encode_record_def)

lemma record_chunks_bytes:
  assumes "record_chunks lim rec = Some cs" "0 < maxChunkBytes lim"
  shows "encode_record lim rec = Inr (concat cs)" "c \<in> set cs \<Longrightarrow> length c \<le> maxChunkBytes lim"
  using assms pieces_length [of c "maxChunkBytes lim"]
  by (auto simp: record_chunks_def encode_ack concat_pieces split: sum.splits if_splits)

text \<open>
  Claim C6: \<open>writeRecord\<close> puts exactly the record's encoding on the wire.  Whatever the stream
  does, the chunks handed to it are a prefix of the encoding, each within \<open>maxChunkBytes\<close>, and
  nothing at all for a record it refuses; when the call succeeds they are the whole encoding.
\<close>

theorem writer_sends_encoding:
  assumes "write_record rec w = (x, t)" "0 < maxChunkBytes (opts w)"
  shows "\<exists>cs more. sent t = sent w @ cs \<and> (\<forall>c\<in>set cs. length c \<le> maxChunkBytes (opts w))
    \<and> (case encode_record (opts w) rec of
         Inl _ \<Rightarrow> cs = [] \<and> x \<noteq> Inr ()
       | Inr bytes \<Rightarrow> concat cs @ more = bytes \<and> (x = Inr () \<longrightarrow> more = []))"
proof (cases "record_chunks (opts w) rec")
  case None
  then show ?thesis using write_record_frame [OF assms(1)]
    by (auto simp: record_chunks_def split: sum.splits)
next
  case (Some cs)
  note f = write_record_frame [OF assms(1)]
  obtain k where k: "sent t = sent w @ take k cs" using f Some by auto
  have bound: "\<forall>c\<in>set (take k cs). length c \<le> maxChunkBytes (opts w)"
    using record_chunks_bytes(2) [OF Some assms(2)] by (auto dest: in_set_takeD)
  have "concat (take k cs) @ concat (drop k cs) = concat cs" by (metis append_take_drop_id concat_append)
  moreover have "x = Inr () \<longrightarrow> drop k cs = []" using f Some k by auto
  ultimately show ?thesis using k bound record_chunks_bytes(1) [OF Some assms(2)]
    by (intro exI [of _ "take k cs"] exI [of _ "concat (drop k cs)"]) auto
qed

section \<open>Endpoints over whole runs\<close>

text \<open>The owner's calls and the environment's events, in any order.  The consumer of a payload is called
  with each block: some events happen before its promise settles, and it may throw.\<close>

type_synonym payload_consumer = "byte list \<Rightarrow> input_event list \<times> scp_error option"

definition feed :: "payload_consumer \<Rightarrow> byte list \<Rightarrow> unit read_act" where
  "feed f part r = (case snd (f part) of None \<Rightarrow> Inr () | Some e \<Rightarrow> Inl e, foldl (\<lambda>q ev. deliver ev q) r (fst (f part)))"

definition read_payload_into :: "jsval \<Rightarrow> payload_consumer \<Rightarrow> unit read_act" where
  "read_payload_into bytes f = read_payload (\<lambda>r. r) (\<lambda>r _. r) bytes (feed f)"

datatype reader_call = ReadRecord | ReadAck | ReadPayload jsval payload_consumer | Happens input_event

definition reader_step :: "reader \<Rightarrow> reader_call \<Rightarrow> reader" where
  "reader_step r c = (case c of
     ReadRecord \<Rightarrow> snd (read_record r) | ReadAck \<Rightarrow> snd (read_ack r)
   | ReadPayload bytes f \<Rightarrow> snd (read_payload_into bytes f r) | Happens ev \<Rightarrow> deliver ev r)"

datatype writer_call = WriteRecord wire_record | WritePayload "byte list option" | HappensOut output_event

definition writer_step :: "writer \<Rightarrow> writer_call \<Rightarrow> writer" where
  "writer_step w c = (case c of WriteRecord rec \<Rightarrow> snd (write_record rec w)
     | WritePayload bytes \<Rightarrow> snd (write_payload bytes w) | HappensOut ev \<Rightarrow> deliver_out ev w)"

text \<open>A live reader holds at most \<open>maxBufferBytes\<close> buffered bytes and one chunk.\<close>

definition reader_bounded :: "reader \<Rightarrow> bool" where
  "reader_bounded r \<longleftrightarrow> 0 < maxChunkBytes (opts r) \<and> length (unread r) \<le> maxChunkBytes (opts r)
     \<and> (closed r \<or> failure r \<noteq> None \<or> length (pending r) \<le> maxBufferBytes (opts r))"

definition writer_bounded :: "writer \<Rightarrow> bool" where
  "writer_bounded w \<longleftrightarrow> queued w \<le> maxBufferBytes (opts w)"

lemma unread_None [simp]: "unread (r\<lparr>closed := c, buffer := None\<rparr>) = []"
  by (simp add: unread_def)

lemma deliver_bounded: "reader_bounded r \<Longrightarrow> reader_bounded (deliver ev r)"
  by (cases ev) (auto simp: reader_bounded_def deliver_def on_readable_def on_close_def fail_with_def reader_close_def Let_def)

lemma bounded_updates [simp]: "reader_bounded (r\<lparr>script := e\<rparr>) = reader_bounded r" "reader_bounded (r\<lparr>busy := b\<rparr>) = reader_bounded r"
  by (simp_all add: reader_bounded_def)

lemma bounded_offset: "reader_bounded r \<Longrightarrow> reader_bounded (r\<lparr>offset := offset r + n\<rparr>)" "reader_bounded r \<Longrightarrow> reader_bounded (r\<lparr>offset := Suc (offset r)\<rparr>)"
  by (auto simp: reader_bounded_def)

lemma fill_bounded: "reader_bounded r \<Longrightarrow> fill r = (x, t) \<Longrightarrow> reader_bounded t"
proof (induction r rule: fill.induct)
  case (1 r)
  have d: "reader_bounded (deliver ev (r\<lparr>script := evs\<rparr>))" for ev evs
    using deliver_bounded [of "r\<lparr>script := evs\<rparr>"] 1(2) by simp
  show ?case
    using 1(1,2) d 1(3) by (subst (asm) (2) fill.simps)
      (auto simp: expire_def fail_with_def Let_def reader_bounded_def split: prod.splits sum.splits if_splits list.splits)
qed

lemma keeps_fill: "keeps reader_bounded fill"
  by (auto simp: keeps_def intro: fill_bounded [OF _ surjective_pairing])

lemma keeps_check: "keeps P check"
  by (simp add: keeps_def check_snd)

lemma line_bounded: "reader_bounded r \<Longrightarrow> line_loop acc r = (x, t) \<Longrightarrow> reader_bounded t"
proof (induction acc r rule: line_loop.induct)
  case (1 acc r)
  obtain y q where q: "fill r = (y, q)" by force
  then have o: "reader_bounded q" using 1(2) fill_bounded by blast
  obtain z where z: "check q = (z, q)" by (metis check_snd prod.collapse)
  let ?part = "takeWhile (\<lambda>b. b \<noteq> 10) (unread q)"
  show ?case
  proof (cases "\<exists>b c. y = Inr b \<and> b \<and> z = Inr c \<and> \<not> maxLineBytes (opts q) < length acc + length ?part
      \<and> \<not> length ?part < length (unread q)")
    case True
    then show ?thesis using 1(1) [of y q True z q "()"] 1(3) q z bounded_offset [OF o]
      by (subst (asm) (2) line_loop.simps) (auto simp: Let_def)
  next
    case False
    then show ?thesis using 1(3) q z o bounded_offset(1) [OF o, of "Suc (length ?part)"]
      by (subst (asm) line_loop.simps) (auto simp: Let_def split: sum.splits if_splits)
  qed
qed

lemma keeps_line: "keeps reader_bounded read_line"
  by (auto simp: keeps_def read_line_def intro: line_bounded [OF _ surjective_pairing])

lemma keeps_byte: "keeps reader_bounded (read_byte eof)"
  unfolding read_byte_def
  by (intro act_rules keeps_fill keeps_check) (auto simp: keeps_def bounded_offset)

lemma keeps_operation:
  assumes "keeps P f" "\<And>s b. P (s\<lparr>busy := b\<rparr>) = P s"
  shows "keeps P (operation f)"
proof (rule keepsI)
  fix s assume "P s"
  then have "P (snd (f (s\<lparr>busy := True\<rparr>)))" using assms by (simp add: keepsD)
  then show "P (snd (operation f s))"
    using operation_frame [of f s "fst (operation f s)" "snd (operation f s)" undefined] \<open>P s\<close> assms(2)
    by fastforce
qed

lemma keeps_parse: "keeps P (\<lambda>r. liftR (g r) r)"
  by (simp add: keeps_def liftR_def)

lemma keeps_read_record: "keeps reader_bounded read_record"
  unfolding read_record_def
  by (intro keeps_operation act_rules keeps_byte keeps_line keeps_parse) simp

lemma keeps_read_ack: "keeps reader_bounded read_ack"
  unfolding read_ack_def
  by (intro act_rules keeps_read_record) (auto simp: keeps_def throwM_def retM_def split: option.splits scp_record.splits)

lemma keeps_expire: "keeps reader_bounded expire"
  by (auto simp: keeps_def expire_def fail_with_def reader_bounded_def)

lemma keeps_feed: "keeps reader_bounded (feed f part)"
  by (auto simp: keeps_def feed_def intro!: foldl_invariant [where I = reader_bounded] deliver_bounded)

lemma keeps_wait: "keeps reader_bounded m \<Longrightarrow> keeps reader_bounded (wait_for (\<lambda>r. r) (\<lambda>r _. r) m)"
  unfolding wait_for_def keeps_def
  by (auto simp: split_beta dest: keepsD [OF keeps_expire] split: prod.split sum.split scp_error.split)

lemma keeps_next_block: "keeps reader_bounded (next_block n)"
  unfolding next_block_def
  by (intro act_rules keeps_fill keeps_check) (auto simp: keeps_def bounded_offset)

lemma keeps_payload: "keeps reader_bounded (payload_loop (\<lambda>r. r) (\<lambda>r _. r) (feed f) n)"
proof (induction n rule: less_induct)
  case (less n)
  show ?case
    by (subst payload_loop.simps) (auto intro!: act_rules keeps_next_block keeps_wait keeps_feed less simp: Let_def)
qed

lemma keeps_read_payload: "keeps reader_bounded (read_payload_into v f)"
proof -
  have "keeps reader_bounded (\<lambda>r. bindM (liftR (g r)) h r)" if "\<And>n. keeps reader_bounded (h n)" for g and h :: "nat \<Rightarrow> unit read_act"
    using that by (auto simp: keeps_def bindM_def liftR_def split: sum.split)
  then show ?thesis unfolding read_payload_into_def read_payload_def operation_def [symmetric]
    by (intro keeps_operation) (simp_all add: keeps_payload)
qed

interpretation reader_machine: event_machine reader_step reader_bounded
  by unfold_locales (auto simp: reader_step_def deliver_bounded keepsD [OF keeps_read_record] keepsD [OF keeps_read_ack]
    keepsD [OF keeps_read_payload] split: reader_call.splits)

lemma keeps_write_payload: "keeps writer_bounded (write_payload bytes)"
  unfolding write_payload_def
proof (rule keeps_operation)
  show "keeps writer_bounded (\<lambda>w. case bytes of
       None \<Rightarrow> (Inl (Plain ''SCP payload must contain bytes''), w)
     | Some bs \<Rightarrow> bindM (liftR (checked_integer (JNum (int (length bs))) ''payload size'' (maxFileBytes (opts w)))) (\<lambda>_.
           forM write_chunk (pieces (maxChunkBytes (opts w)) bs)) w)"
  proof (rule keepsI)
    fix w assume w: "writer_bounded w"
    have "writer_bounded (snd (forM write_chunk cs w))" for cs
      using chunks_frame [of cs w, OF surjective_pairing] w by (simp add: writer_bounded_def)
    then show "writer_bounded (snd (case bytes of
       None \<Rightarrow> (Inl (Plain ''SCP payload must contain bytes''), w)
     | Some bs \<Rightarrow> bindM (liftR (checked_integer (JNum (int (length bs))) ''payload size'' (maxFileBytes (opts w)))) (\<lambda>_.
           forM write_chunk (pieces (maxChunkBytes (opts w)) bs)) w))"
      using w by (auto simp: bindM_def liftR_def split: option.split sum.split)
  qed
qed (simp add: writer_bounded_def)

interpretation writer_machine: event_machine writer_step writer_bounded
proof
  fix w c assume w: "writer_bounded w"
  have d: "writer_bounded (deliver_out ev w)" for ev
    using w by (cases ev; simp add: writer_bounded_def deliver_out_def fail_with_def Let_def)
  have "writer_bounded (snd (write_record rec w))" for rec
    using write_record_frame [of rec w, OF surjective_pairing] w by (simp add: writer_bounded_def)
  then show "writer_bounded (writer_step w c)" using d keepsD [OF keeps_write_payload w] by (simp add: writer_step_def split: writer_call.splits)
qed

lemma limits_positive: "limits o' = Inr lim \<Longrightarrow> 0 < maxChunkBytes lim \<and> maxChunkBytes lim \<le> maxBufferBytes lim
    \<and> 0 < maxLineBytes lim \<and> maxLineBytes lim \<le> maxBufferBytes lim \<and> 0 < maxFileBytes lim \<and> maxFileBytes lim \<le> SAFE_NAT"
  by (auto simp: limits_def positive_def Let_def int_result split: if_splits)

text \<open>
  Claim C7: Memory bounds.  From creation with any accepted options, over every sequence of
  calls (of records, acknowledgements and payloads) and channel events, also those while a payload is consumed, a reader that has not failed or been closed holds at most
  \<open>maxBufferBytes\<close> of unread channel data and one chunk, and a writer never has more than
  \<open>maxBufferBytes\<close> queued.
\<close>

theorem endpoints_bounded:
  assumes "create_reader ro True ra data ev = Inr r" "create_writer wo wa hwm oev = Inr w"
  shows "let q = foldl reader_step r calls; p = foldl writer_step w ocalls in
      length (unread q) \<le> maxChunkBytes (opts q)
      \<and> (closed q \<or> failure q \<noteq> None \<or> length (pending q) \<le> maxBufferBytes (opts q))
      \<and> queued p \<le> maxBufferBytes (opts p)"
proof -
  have "reader_bounded r" using assms(1)
    by (auto simp: create_reader_def reader_bounded_def on_readable_def fail_with_def unread_def Let_def dest!: limits_positive split: if_splits)
  then have q: "reader_bounded (foldl reader_step r calls)" by (rule reader_machine.inv_run)
  have "writer_bounded w" using assms(2)
    by (auto simp: create_writer_def writer_bounded_def fail_with_def Let_def split: if_splits)
  then have "writer_bounded (foldl writer_step w ocalls)" by (rule writer_machine.inv_run)
  with q show ?thesis by (simp add: reader_bounded_def writer_bounded_def Let_def)
qed

lemma failed_read: "failure r = Some e \<Longrightarrow> read_record r = (Inl e, r)" "failure r = Some e \<Longrightarrow> read_ack r = (Inl e, r)"
    "failure r = Some e \<Longrightarrow> read_payload_into v f r = (Inl e, r)"
  by (simp_all add: read_ack_def read_record_def read_payload_into_def read_payload_def operation_def operation_in_def bindM_def
      check_def zoomM_def)

lemma failed_step: "failure r = Some e \<Longrightarrow> failure (reader_step r c) = Some e"
  by (cases c; (simp add: reader_step_def failed_read)?)
    (auto simp: reader_step_def deliver_def on_readable_def on_close_def fail_with_def reader_close_def Let_def split: input_event.splits)

text \<open>
  Claim C8: The first failure of a reader is final: whatever calls (of records, acknowledgements and
  payloads) and events follow, every read throws that same error without touching the reader, also after
  data has arrived, the stream has failed again or the owner has closed the endpoint.
\<close>

theorem first_failure_final:
  assumes "failure r = Some e"
  shows "let q = foldl reader_step r calls in
    read_record q = (Inl e, q) \<and> read_ack q = (Inl e, q) \<and> read_payload_into v f q = (Inl e, q)"
proof -
  have "failure (foldl reader_step r calls) = Some e"
    by (rule foldl_invariant [where I = "\<lambda>r. failure r = Some e"]) (use assms failed_step in auto)
  then show ?thesis by (simp add: failed_read)
qed

section \<open>Witnesses\<close>

text \<open>The record \<open>C0644 2 ab\<close> and two payload bytes, cut in the middle of the line.\<close>

definition demo_record :: wire_record where
  "demo_record = WFile (JNum 420) (JNum 2) (JStr (js ''ab''))"

definition demo_bytes :: "byte list" where
  "demo_bytes = [67, 48, 54, 52, 52, 32, 50, 32, 97, 98, 10]"

definition demo_reader :: reader where
  "demo_reader = \<lparr>opts = DEFAULT_LIMITS, failure = None, closed = False, busy = False, buffer = None, offset = 0,
     pending = [], input_ended = False, input_destroyed = False,
     script = [Arrive [67, 48, 54, 52, 52], Arrive [32, 50, 32, 97, 98, 10, 7], Arrive [9], InputEnd]\<rparr>"

definition demo_writer :: writer where
  "demo_writer = \<lparr>opts = DEFAULT_LIMITS, failure = None, closed = False, busy = False, out_destroyed = False,
     out_ended = False, high_water = 16, queued = 0, sent = [], out_script = [Callback]\<rparr>"

lemma demo_steady: "steady demo_reader" "\<not> busy demo_reader" "to_come demo_reader = demo_bytes @ [7, 9]"
proof -
  have "script demo_reader = map Arrive [[67, 48, 54, 52, 52], [32, 50, 32, 97, 98, 10, 7], [9]] @ [InputEnd]"
    by (simp add: demo_reader_def)
  then show "steady demo_reader"
    unfolding steady_def
    by (intro conjI disjI2 exI [of _ "[[67, 48, 54, 52, 52], [32, 50, 32, 97, 98, 10, 7], [9]]"])
      (simp_all add: demo_reader_def DEFAULT_LIMITS_def SSH_RECEIVE_WINDOW_BYTES_def)
qed (simp_all add: demo_reader_def to_come_def unread_def demo_bytes_def)

lemma demo_encoded: "encode_record (opts demo_reader) demo_record = Inr demo_bytes" "wire_texts demo_record"
  "0 < maxChunkBytes (opts demo_writer)"
  by code_simp+

lemma reader_refines_flat_parser_witness:
  "\<exists>t. read_record demo_reader = (outcome (flat_record (opts demo_reader) (to_come demo_reader)), t)"
  using reader_refines_flat_parser [OF demo_steady(1,2)] by blast

lemma scp_record_roundtrip_witness:
  "\<exists>t. read_record demo_reader = (Inr (Some (RFile 420 2 (js ''ab''))), t) \<and> to_come t = [7, 9]"
  using scp_record_roundtrip [OF demo_encoded(1,2) demo_steady]
  by (auto simp: demo_record_def record_of_def value_nat_def value_str_def)

lemma read_record_sound_witness: "\<exists>rec. sound_record (opts demo_reader) rec \<and> rec \<noteq> RAck"
proof -
  obtain t where t: "read_record demo_reader = (Inr (Some (record_of demo_record)), t)"
    using read_record_steady [OF demo_steady(1,2)] record_roundtrip [OF demo_encoded(1,2), of "[7, 9]"] demo_steady(3) by auto
  from read_record_sound [OF t] show ?thesis by (auto simp: demo_record_def record_of_def)
qed

lemma payload_exact_witness:
  "\<exists>t. read_payload fst (\<lambda>r s. (r, snd s)) (JNum 3) (\<lambda>b s. (Inr (), collect b s)) (demo_reader, []) = (Inr (), (t, [67, 48, 54]))"
proof -
  have "3 \<le> maxFileBytes (opts demo_reader)" "(3 :: nat) \<le> SAFE_NAT"
    by (simp_all add: demo_reader_def DEFAULT_LIMITS_def SAFE_NAT_def MAX_SAFE_def)
  from payload_exact [OF demo_steady(1,2) this] show ?thesis by (auto simp: demo_steady(3) demo_bytes_def)
qed

lemma writer_sends_encoding_witness: "\<exists>cs more. sent (snd (write_record demo_record demo_writer)) = sent demo_writer @ cs
    \<and> concat cs @ more = demo_bytes"
proof -
  have "encode_record (opts demo_writer) demo_record = Inr demo_bytes" by code_simp
  with writer_sends_encoding [of demo_record demo_writer, OF surjective_pairing demo_encoded(3)]
  show ?thesis by auto
qed

definition no_limits :: limit_options where
  "no_limits = \<lparr>o_timeoutMs = None, o_maxBufferBytes = None, o_maxLineBytes = None, o_maxChunkBytes = None, o_maxFileBytes = None\<rparr>"

lemma default_limits: "limits no_limits = Inr DEFAULT_LIMITS"
  by code_simp

lemma endpoints_bounded_witness:
  "\<exists>r w. create_reader no_limits True False [1, 2] [Arrive [3]] = Inr r \<and> create_writer no_limits False 16 [Callback] = Inr w
     \<and> queued (foldl writer_step w [WriteRecord WAck, WritePayload (Some [1])]) \<le> maxBufferBytes (opts (foldl writer_step w [WriteRecord WAck, WritePayload (Some [1])]))"
proof -
  obtain r where r: "create_reader no_limits True False [1, 2] [Arrive [3]] = Inr r"
    by (simp add: create_reader_def default_limits Let_def)
  obtain w where w: "create_writer no_limits False 16 [Callback] = Inr w"
    by (simp add: create_writer_def default_limits Let_def)
  from endpoints_bounded [OF r w, of "[]" "[WriteRecord WAck, WritePayload (Some [1])]"] r w show ?thesis unfolding Let_def by blast
qed

lemma first_failure_final_witness:
  "fst (read_record (foldl reader_step (deliver Abort demo_reader) [Happens (Arrive [0]), ReadRecord])) = Inl ABORTED"
proof -
  have "failure (deliver Abort demo_reader) = Some ABORTED" by (simp add: deliver_def demo_reader_def fail_with_def)
  from first_failure_final [OF this, of "[Happens (Arrive [0]), ReadRecord]"] show ?thesis by (simp add: Let_def)
qed

end
