(* ===== verification/SettingsSchema.thy ===== *)
theory SettingsSchema
  imports JsValue MarkerSearch
begin

text \<open>
  \<^verbatim>\<open>shared/settings-schema.mjs\<close>: the settings contract shared by the main process and the
  renderer.  A parser returns the accepted value or an error code; a patch is accepted as a
  whole or not at all.
\<close>

section \<open>Parsers\<close>

definition CONTROL_CHARACTERS :: "jsstr \<Rightarrow> bool" where
  "CONTROL_CHARACTERS s \<longleftrightarrow> list_ex (\<lambda>u. is_control u \<or> u = 8232 \<or> u = 8233) s"

definition clean_string :: "jsval \<Rightarrow> string \<Rightarrow> string + jsstr" where
  "clean_string v code =
     (case v of
        JStr s \<Rightarrow>
          if CONTROL_CHARACTERS s then Inl code
          else if js_trim s = [] then Inl ''required'' else Inr (js_trim s)
      | _ \<Rightarrow> Inl (if nullish v then ''required'' else code))"

text \<open>\<open>/^[+-]?\d+$/\<close> and \<open>Number\<close> on it\<close>

definition signed_digits :: "jsstr \<Rightarrow> int option" where
  "signed_digits s =
     (let d = (if s \<noteq> [] \<and> (hd s = 43 \<or> hd s = 45) then tl s else s) in
      if d \<noteq> [] \<and> list_all is_digit d then
        Some (if hd s = 45 then - int (radix_value 10 d) else int (radix_value 10 d))
      else None)"

definition parse_integer :: "jsval \<Rightarrow> int \<Rightarrow> int \<Rightarrow> string + jsval" where
  "parse_integer v lo hi =
     (if nullish v then Inl ''required''
      else bindR (case v of
                    JStr _ \<Rightarrow> bindR (clean_string v ''integer_range'') (\<lambda>t.
                      case signed_digits t of None \<Rightarrow> Inl ''integer_range'' | Some n \<Rightarrow> Inr (JNum n))
                  | _ \<Rightarrow> Inr v)
           (\<lambda>parsed. case parsed of
              JNum n \<Rightarrow> if n < lo \<or> n > hi then Inl ''integer_range'' else Inr (JNum n)
            | _ \<Rightarrow> Inl ''integer_range''))"

definition token_char :: "nat \<Rightarrow> bool" where
  "token_char u \<longleftrightarrow> is_alnum u \<or> u = 46 \<or> u = 95 \<or> u = 45"

definition parse_token :: "jsval \<Rightarrow> nat \<Rightarrow> string + jsval" where
  "parse_token v maxLength = bindR (clean_string v ''invalid_token'') (\<lambda>t.
     if length t > maxLength \<or> \<not> list_all token_char t then Inl ''invalid_token'' else Inr (JStr t))"

text \<open>\<open>/^(?:0|[1-9]\d{0,2})$/\<close> and at most 255\<close>

definition decimal_octet :: "jsstr \<Rightarrow> bool" where
  "decimal_octet p \<longleftrightarrow> (p = [48] \<or> p \<noteq> [] \<and> hd p \<noteq> 48 \<and> list_all is_digit p \<and> length p \<le> 3)
     \<and> radix_value 10 p \<le> 255"

definition is_ipv4 :: "jsstr \<Rightarrow> bool" where
  "is_ipv4 s \<longleftrightarrow> (let parts = split_on 46 s in length parts = 4 \<and> list_all decimal_octet parts)"

definition is_hex :: "nat \<Rightarrow> bool" where
  "is_hex u \<longleftrightarrow> is_digit u \<or> 65 \<le> u \<and> u \<le> 70 \<or> 97 \<le> u \<and> u \<le> 102"

definition hex_group :: "jsstr \<Rightarrow> bool" where
  "hex_group g \<longleftrightarrow> 1 \<le> length g \<and> length g \<le> 4 \<and> list_all is_hex g"

text \<open>The address with an IPv4 suffix replaced by two groups; \<open>None\<close> when the suffix is bad.\<close>

definition ipv4_suffix :: "jsstr \<Rightarrow> jsstr option" where
  "ipv4_suffix s =
     (if 46 \<notin> set s then Some s
      else (let after = rev (takeWhile (\<lambda>u. u \<noteq> 58) (rev s)) in
            if 58 \<notin> set s \<or> \<not> is_ipv4 after then None
            else Some (take (length s - length after) s @ [48, 58, 48])))"

definition ipv6_groups :: "jsstr \<Rightarrow> jsstr list" where
  "ipv6_groups s = (if s = [] then [] else split_on 58 s)"

definition is_ipv6 :: "jsstr \<Rightarrow> bool" where
  "is_ipv6 s =
     (case ipv4_suffix s of
        None \<Rightarrow> False
      | Some address \<Rightarrow>
          if address = [] \<or> \<not> list_all (\<lambda>u. is_hex u \<or> u = 58) address then False
          else (case index_of [58, 58] address of
                  Some compression \<Rightarrow>
                    if index_of [58, 58] (drop (compression + 2) address) \<noteq> None then False
                    else (let groups = ipv6_groups (take compression address)
                                @ ipv6_groups (drop (compression + 2) address) in
                          length groups < 8 \<and> list_all hex_group groups)
                | None \<Rightarrow> (let groups = split_on 58 address in
                    length groups = 8 \<and> list_all hex_group groups)))"

definition dns_label :: "jsstr \<Rightarrow> bool" where
  "dns_label l \<longleftrightarrow> 0 < length l \<and> length l \<le> 63 \<and> is_alnum (hd l) \<and> is_alnum (last l)
     \<and> list_all (\<lambda>u. is_alnum u \<or> u = 45) l"

definition parse_host :: "jsval \<Rightarrow> string + jsval" where
  "parse_host v = bindR (clean_string v ''invalid_host'') (\<lambda>t.
     if length t > 253 \<or> list_ex is_space t then Inl ''invalid_host''
     else if 58 \<in> set t then (if is_ipv6 t then Inr (JStr t) else Inl ''invalid_host'')
     else if list_all (\<lambda>u. is_digit u \<or> u = 46) t \<and> 46 \<in> set t then
       (if is_ipv4 t then Inr (JStr t) else Inl ''invalid_host'')
     else if list_all dns_label (split_on 46 t) then Inr (JStr t) else Inl ''invalid_host'')"

definition parse_boolean :: "jsval \<Rightarrow> string + jsval" where
  "parse_boolean v =
     (if v = JBool True \<or> v = JStr (js ''true'') then Inr (JBool True)
      else if v = JBool False \<or> v = JStr (js ''false'') then Inr (JBool False)
      else Inl ''invalid_boolean'')"

definition parse_enum :: "jsval \<Rightarrow> jsstr list \<Rightarrow> string + jsval" where
  "parse_enum v choices = (if v \<in> JStr ` set choices then Inr v else Inl ''invalid_enum'')"

definition parse_path :: "jsval \<Rightarrow> string + jsval" where
  "parse_path v =
     (case v of
        JStr s \<Rightarrow> if length s > 1024 \<or> CONTROL_CHARACTERS s then Inl ''invalid_path'' else Inr v
      | _ \<Rightarrow> Inl ''invalid_path'')"

definition TMUX_STARTUP_COMMAND :: jsstr where
  "TMUX_STARTUP_COMMAND = js ''tmux new -A -s usshtc''"

definition parse_startup_command :: "jsval \<Rightarrow> string + jsval" where
  "parse_startup_command v =
     (if v \<noteq> JStr [] \<and> v \<noteq> JStr TMUX_STARTUP_COMMAND then Inl ''invalid_startup_command'' else Inr v)"

section \<open>Settings\<close>

type_synonym settings = "(jsstr \<times> jsval) list"

definition APP_DEFAULTS :: settings where
  "APP_DEFAULTS =
     [(js ''startMinimized'', JBool False), (js ''theme'', JStr (js ''dark'')), (js ''locale'', JStr (js ''en'')),
      (js ''launchAtLogin'', JBool False), (js ''reconnectOnResume'', JBool True),
      (js ''autoCheckUpdates'', JBool True), (js ''notifyConnections'', JBool True),
      (js ''notifyAuth'', JBool True), (js ''notifyRecovery'', JBool True), (js ''notifyUpdates'', JBool True)]"

definition PROFILE_DEFAULTS :: settings where
  "PROFILE_DEFAULTS =
     [(js ''port'', JNum 3000), (js ''host'', JStr (js ''127.0.0.1'')), (js ''cluster'', JStr (js ''training'')),
      (js ''loginNode'', JStr (js ''11.11.10.202'')), (js ''path'', JStr []), (js ''startupCommand'', JStr []),
      (js ''healthProbeEnabled'', JBool False), (js ''validateTokenPeriodically'', JBool False),
      (js ''scpMaxFileBytes'', JNum 1073741824), (js ''scpNoOverwrite'', JBool False),
      (js ''cols'', JNum 80), (js ''rows'', JNum 24), (js ''useRoot'', JBool False),
      (js ''autoConnect'', JBool True), (js ''sshAlias'', JStr (js ''usshtc107''))]"

definition APP_SETTING_KEYS :: "jsstr list" where
  "APP_SETTING_KEYS = map fst APP_DEFAULTS"

definition PROFILE_SETTING_KEYS :: "jsstr list" where
  "PROFILE_SETTING_KEYS = map fst PROFILE_DEFAULTS"

definition validators :: "(jsstr \<times> (jsval \<Rightarrow> string + jsval)) list" where
  "validators =
     [(js ''port'', \<lambda>v. parse_integer v 1 65535), (js ''host'', parse_host),
      (js ''cluster'', \<lambda>v. parse_token v 128), (js ''loginNode'', parse_host), (js ''path'', parse_path),
      (js ''startupCommand'', parse_startup_command), (js ''healthProbeEnabled'', parse_boolean),
      (js ''validateTokenPeriodically'', parse_boolean),
      (js ''scpMaxFileBytes'', \<lambda>v. parse_integer v 1 1073741824), (js ''scpNoOverwrite'', parse_boolean),
      (js ''cols'', \<lambda>v. parse_integer v 40 500), (js ''rows'', \<lambda>v. parse_integer v 10 200),
      (js ''useRoot'', parse_boolean), (js ''autoConnect'', parse_boolean),
      (js ''sshAlias'', \<lambda>v. parse_token v 64), (js ''startMinimized'', parse_boolean),
      (js ''theme'', \<lambda>v. parse_enum v [js ''dark'', js ''light'']),
      (js ''locale'', \<lambda>v. parse_enum v [js ''en'', js ''zh'']),
      (js ''launchAtLogin'', parse_boolean), (js ''reconnectOnResume'', parse_boolean),
      (js ''autoCheckUpdates'', parse_boolean), (js ''notifyConnections'', parse_boolean),
      (js ''notifyAuth'', parse_boolean), (js ''notifyRecovery'', parse_boolean),
      (js ''notifyUpdates'', parse_boolean)]"

section \<open>Patches\<close>

datatype patch_result = Rejected "(jsstr \<times> string) list" | Accepted settings

fun put_setting :: "jsstr \<Rightarrow> jsval \<Rightarrow> settings \<Rightarrow> settings" where
  "put_setting k v [] = [(k, v)]"
| "put_setting k v ((k', v') # s) = (if k = k' then (k, v) # s else (k', v') # put_setting k v s)"

fun apply_patch :: "(jsstr \<times> jsval) list \<Rightarrow> settings \<Rightarrow> (jsstr \<times> string) list \<Rightarrow> settings \<times> (jsstr \<times> string) list" where
  "apply_patch [] v errs = (v, errs)"
| "apply_patch ((key, x) # ps) v errs =
     (case map_of validators key of
        None \<Rightarrow> apply_patch ps v (errs @ [(key, ''unknown_key'')])
      | Some parse \<Rightarrow>
          (case parse x of
             Inr y \<Rightarrow> apply_patch ps (put_setting key y v) errs
           | Inl code \<Rightarrow> apply_patch ps v (errs @ [(key, code)])))"

definition validate_settings_patch :: "jsval \<Rightarrow> settings \<Rightarrow> patch_result" where
  "validate_settings_patch input current =
     (case input of
        JObj pr ps \<Rightarrow>
          if pr = OtherProto then Rejected [(js ''settings'', ''unknown_key'')]
          else (case apply_patch ps current [] of
                  (v, errs) \<Rightarrow> if errs \<noteq> [] then Rejected errs else Accepted v)
      | _ \<Rightarrow> Rejected [(js ''settings'', if nullish input then ''required'' else ''unknown_key'')])"

section \<open>Accepted values are fixed points\<close>

lemma trim_idem [simp]: "js_trim (js_trim s) = js_trim s"
proof -
  have d: "dropWhile is_space (dropWhile is_space x) = dropWhile is_space x" for x
    by (induction x) auto
  have "dropWhile is_space (rev (dropWhile is_space (rev t))) = rev (dropWhile is_space (rev t))"
    if "dropWhile is_space t = t" for t
  proof (cases "rev (dropWhile is_space (rev t))")
    case (Cons a b)
    obtain r where "rev t = r @ dropWhile is_space (rev t)" by (metis takeWhile_dropWhile_id)
    then have "t = rev (dropWhile is_space (rev t)) @ rev r" by (metis rev_append rev_rev_ident)
    then have "hd t = a" "t \<noteq> []" using Cons by auto
    then have "\<not> is_space a" using that hd_dropWhile [of is_space t] by metis
    then show ?thesis using Cons by simp
  next
    case Nil
    then show ?thesis by (simp only: dropWhile.simps)
  qed
  then show ?thesis by (simp add: js_trim_def d)
qed

lemma set_trim: "set (js_trim s) \<subseteq> set s"
  by (auto simp: js_trim_def dest!: set_dropWhileD)

lemma clean_fixed: "clean_string v c = Inr t \<Longrightarrow> clean_string (JStr t) c' = Inr t"
  using set_trim by (fastforce simp: clean_string_def CONTROL_CHARACTERS_def list_ex_iff split: jsval.splits if_splits)

definition fixing :: "(jsval \<Rightarrow> string + jsval) \<Rightarrow> bool" where
  "fixing p \<longleftrightarrow> (\<forall>v y. p v = Inr y \<longrightarrow> p y = Inr y)"

lemma integer_result:
  assumes "parse_integer v lo hi = Inr y"
  shows "\<exists>n. y = JNum n \<and> lo \<le> n \<and> n \<le> hi"
proof -
  obtain a where "(case a of JNum n \<Rightarrow> if n < lo \<or> n > hi then Inl ''integer_range'' else Inr (JNum n)
      | _ \<Rightarrow> Inl ''integer_range'') = Inr y"
    using assms by (auto simp: parse_integer_def split: if_splits)
  then show ?thesis by (cases a) (auto split: if_splits)
qed

lemma integer_fixing: "fixing (\<lambda>v. parse_integer v lo hi)"
proof -
  have "parse_integer (JNum n) lo hi = Inr (JNum n)" if "lo \<le> n" "n \<le> hi" for n
    using that by (simp add: parse_integer_def nullish_def)
  then show ?thesis using integer_result by (fastforce simp: fixing_def)
qed

lemma cleaned_fixing:
  assumes "\<And>t y. f t = Inr y \<Longrightarrow> y = JStr t"
  shows "fixing (\<lambda>v. bindR (clean_string v c) f)"
  unfolding fixing_def
proof (intro allI impI)
  fix v y assume "bindR (clean_string v c) f = Inr y"
  then obtain t where t: "clean_string v c = Inr t" "f t = Inr y" by auto
  then have "y = JStr t" using assms by blast
  then show "bindR (clean_string y c) f = Inr y" using t clean_fixed [OF t(1)] by simp
qed

lemma token_fixing: "fixing (\<lambda>v. parse_token v n)"
  unfolding parse_token_def by (rule cleaned_fixing) (simp split: if_splits)

lemma host_fixing: "fixing parse_host"
  unfolding parse_host_def [abs_def] by (rule cleaned_fixing) (simp split: if_splits)

lemma basic_fixing: "fixing parse_boolean" "fixing (\<lambda>v. parse_enum v cs)" "fixing parse_path" "fixing parse_startup_command"
  by (auto simp: fixing_def parse_boolean_def parse_enum_def parse_path_def parse_startup_command_def
      split: if_splits jsval.splits)

lemma validators_fixing: "map_of validators k = Some p \<Longrightarrow> fixing p"
  by (drule map_of_SomeD) (auto simp: validators_def integer_fixing token_fixing host_fixing basic_fixing)

section \<open>Patches are all or nothing\<close>

definition valid_setting :: "jsstr \<Rightarrow> jsval \<Rightarrow> bool" where
  "valid_setting k v \<longleftrightarrow> (case map_of validators k of None \<Rightarrow> False | Some p \<Rightarrow> p v = Inr v)"

definition valid_settings :: "settings \<Rightarrow> bool" where
  "valid_settings s \<longleftrightarrow> (\<forall>(k, v)\<in>set s. valid_setting k v)"

lemma put_setting_lookup [simp]: "map_of (put_setting k v s) k' = (if k' = k then Some v else map_of s k')"
  by (induction k v s rule: put_setting.induct) auto

lemma put_setting_set: "set (put_setting k v s) \<subseteq> insert (k, v) (set s)"
  by (induction k v s rule: put_setting.induct) auto

lemma put_setting_keys: "distinct (map fst s) \<Longrightarrow> distinct (map fst (put_setting k v s))
    \<and> set (map fst (put_setting k v s)) = insert k (set (map fst s))"
  by (induction k v s rule: put_setting.induct) auto

text \<open>What a key of the patch contributes, and the error it causes.\<close>

definition checked :: "jsstr \<Rightarrow> jsval \<Rightarrow> string + jsval" where
  "checked k x = (case map_of validators k of None \<Rightarrow> Inl ''unknown_key'' | Some p \<Rightarrow> p x)"

lemma apply_patch_spec:
  "distinct (map fst ps) \<Longrightarrow> apply_patch ps v errs = (w, es) \<Longrightarrow>
     es = errs @ [(k, c). (k, x) \<leftarrow> ps, c \<leftarrow> (case checked k x of Inl c \<Rightarrow> [c] | Inr _ \<Rightarrow> [])]
     \<and> (\<forall>k. map_of w k = (case map_of ps k of
              Some x \<Rightarrow> (case checked k x of Inr y \<Rightarrow> Some y | Inl _ \<Rightarrow> map_of v k)
            | None \<Rightarrow> map_of v k))
     \<and> (valid_settings v \<longrightarrow> valid_settings w)"
proof (induction ps arbitrary: v errs)
  case Nil
  then show ?case by simp
next
  case (Cons p ps)
  obtain k x where p: "p = (k, x)" by force
  have nk: "map_of ps k = None" using Cons.prems(1) p by (force simp: map_of_eq_None_iff)
  show ?case
  proof (cases "checked k x")
    case (Inl c)
    then have "apply_patch ps v (errs @ [(k, c)]) = (w, es)"
      using Cons.prems(2) p by (auto simp: checked_def split: option.splits sum.splits)
    from Cons.IH [OF _ this] Cons.prems(1) p Inl nk show ?thesis by auto
  next
    case (Inr y)
    then obtain f where f: "map_of validators k = Some f" "f x = Inr y"
      by (auto simp: checked_def split: option.splits)
    then have "f y = Inr y" using validators_fixing by (auto simp: fixing_def)
    then have valid: "valid_settings v \<Longrightarrow> valid_settings (put_setting k y v)"
      using put_setting_set [of k y v] f by (auto simp: valid_settings_def valid_setting_def)
    have "apply_patch ps (put_setting k y v) errs = (w, es)" using Cons.prems(2) p f by simp
    from Cons.IH [OF _ this] Cons.prems(1) p Inr nk valid show ?thesis
      by (auto split: option.split sum.split)
  qed
qed

lemma patch_errors:
  "[(k, c). (k, x) \<leftarrow> ps, c \<leftarrow> (case checked k x of Inl c \<Rightarrow> [c] | Inr _ \<Rightarrow> [])] = [] \<longleftrightarrow>
     (\<forall>(k, x)\<in>set ps. \<exists>y. checked k x = Inr y)"
  by (induction ps) (auto split: sum.splits)

lemma patch_error_lookup:
  "distinct (map fst ps) \<Longrightarrow>
   map_of [(k, c). (k, x) \<leftarrow> ps, c \<leftarrow> (case checked k x of Inl c \<Rightarrow> [c] | Inr _ \<Rightarrow> [])] k =
     (case map_of ps k of Some x \<Rightarrow> (case checked k x of Inl c \<Rightarrow> Some c | Inr _ \<Rightarrow> None) | None \<Rightarrow> None)"
proof (induction ps)
  case (Cons p ps)
  then have "map_of ps (fst p) = None" by (auto simp: map_of_eq_None_iff)
  then show ?case using Cons by (cases p) (auto simp: map_add_def split: sum.splits option.splits)
qed simp

text \<open>
  Claim C11: A settings patch is applied as a whole or not at all.  It is accepted exactly when
  every key is known and its value passes its validator; then each key of the patch has its
  validated value and every other setting is untouched.  Otherwise the answer names, for
  exactly the offending keys, the error of each.
\<close>

theorem settings_patch_atomic:
  assumes "pr \<noteq> OtherProto" "distinct (map fst ps)"
  shows "if \<forall>(k, x)\<in>set ps. \<exists>y. checked k x = Inr y
     then \<exists>w. validate_settings_patch (JObj pr ps) current = Accepted w
       \<and> (\<forall>k. map_of w k = (case map_of ps k of
             Some x \<Rightarrow> (case checked k x of Inr y \<Rightarrow> Some y | Inl _ \<Rightarrow> None) | None \<Rightarrow> map_of current k))
     else \<exists>es. validate_settings_patch (JObj pr ps) current = Rejected es
       \<and> (\<forall>k. map_of es k = (case map_of ps k of
             Some x \<Rightarrow> (case checked k x of Inl c \<Rightarrow> Some c | Inr _ \<Rightarrow> None) | None \<Rightarrow> None))"
proof -
  obtain w es where p: "apply_patch ps current [] = (w, es)" by force
  note spec = apply_patch_spec [OF assms(2) p]
  show ?thesis
  proof (cases "\<forall>(k, x)\<in>set ps. \<exists>y. checked k x = Inr y")
    case True
    then have "es = []" using spec patch_errors [of ps] by simp
    moreover have "map_of w k = (case map_of ps k of
             Some x \<Rightarrow> (case checked k x of Inr y \<Rightarrow> Some y | Inl _ \<Rightarrow> None) | None \<Rightarrow> map_of current k)" for k
      using spec True by (force split: option.splits sum.splits dest: map_of_SomeD)
    ultimately show ?thesis using True assms(1) p by (auto simp: validate_settings_patch_def)
  next
    case False
    then have "es \<noteq> []" using spec patch_errors [of ps] by simp
    moreover have "map_of es k = (case map_of ps k of
        Some x \<Rightarrow> (case checked k x of Inl c \<Rightarrow> Some c | Inr _ \<Rightarrow> None) | None \<Rightarrow> None)" for k
      using spec patch_error_lookup [OF assms(2)] by simp
    ultimately show ?thesis using False assms(1) p unfolding validate_settings_patch_def by simp
  qed
qed

lemma put_same: "map_of w k = Some v \<Longrightarrow> put_setting k v w = w"
  by (induction k v w rule: put_setting.induct) (auto split: if_splits)

lemma apply_patch_same:
  "\<forall>(k, x)\<in>set ps. checked k x = Inr x \<and> map_of w k = Some x \<Longrightarrow> apply_patch ps w [] = (w, [])"
  by (induction ps) (auto simp: checked_def put_same split: option.splits)

lemma validate_valid:
  assumes "valid_settings current" "distinct (map fst ps)" "validate_settings_patch (JObj pr ps) current = Accepted w"
  shows "valid_settings w"
proof -
  have "apply_patch ps current [] = (w, [])"
    using assms(3) by (auto simp: validate_settings_patch_def split: if_splits prod.splits)
  with apply_patch_spec [OF assms(2) this] assms(1) show ?thesis by simp
qed

lemma apply_patch_keys: "distinct (map fst v) \<Longrightarrow> distinct (map fst (fst (apply_patch ps v errs)))"
  by (induction ps v errs rule: apply_patch.induct) (auto simp: put_setting_keys split: option.splits sum.splits)

text \<open>
  The accepted settings are valid, and validation is idempotent: submitting the
  accepted document again, on top of itself, is accepted and changes nothing.
\<close>

theorem settings_validation_idempotent:
  assumes "valid_settings current" "distinct (map fst current)" "distinct (map fst ps)"
    and "validate_settings_patch (JObj pr ps) current = Accepted w"
  shows "valid_settings w \<and> validate_settings_patch (JObj ObjectProto w) w = Accepted w"
proof -
  have v: "valid_settings w" by (rule validate_valid [OF assms(1,3,4)])
  have "apply_patch ps current [] = (w, [])"
    using assms(4) by (auto simp: validate_settings_patch_def split: if_splits prod.splits)
  then have "distinct (map fst w)" using apply_patch_keys [OF assms(2), of ps "[]"] by simp
  then have "\<forall>(k, x)\<in>set w. checked k x = Inr x \<and> map_of w k = Some x"
    using v by (auto simp: valid_settings_def valid_setting_def checked_def split: option.splits)
  from apply_patch_same [OF this] v show ?thesis by (simp add: validate_settings_patch_def)
qed

section \<open>What valid values look like\<close>

definition host_char :: "nat \<Rightarrow> bool" where
  "host_char u \<longleftrightarrow> is_alnum u \<or> u = 45 \<or> u = 46 \<or> u = 58"

lemma octet_digits: "decimal_octet p \<Longrightarrow> u \<in> set p \<Longrightarrow> is_digit u"
  by (auto simp: decimal_octet_def list_all_iff is_digit_def)

lemma split_chars: "u \<in> set s \<Longrightarrow> u = c \<or> (\<exists>p\<in>set (split_on c s). u \<in> set p)"
  by (induction s) (auto split: list.splits)

lemma ipv4_chars: "is_ipv4 s \<Longrightarrow> u \<in> set s \<Longrightarrow> host_char u"
  using split_chars [of u s 46] octet_digits [of _ u]
  by (auto simp: is_ipv4_def Let_def list_all_iff host_char_def is_alnum_def)

lemma hex_host: "is_hex u \<Longrightarrow> host_char u"
  by (auto simp: is_hex_def host_char_def is_alnum_def is_alpha_def)

lemma ipv6_chars:
  assumes "is_ipv6 s" "u \<in> set s"
  shows "host_char u"
proof -
  obtain a where a: "ipv4_suffix s = Some a" "list_all (\<lambda>u. is_hex u \<or> u = 58) a"
    using assms(1) by (auto simp: is_ipv6_def split: option.splits if_splits)
  show ?thesis
  proof (cases "46 \<in> set s")
    case True
    let ?r = "rev (takeWhile (\<lambda>u. u \<noteq> 58) (rev s))"
    have r: "is_ipv4 ?r" "a = take (length s - length ?r) s @ [48, 58, 48]"
      using a(1) True by (auto simp: ipv4_suffix_def Let_def split: if_splits)
    have "s = take (length s - length ?r) s @ ?r"
    proof -
      have "rev s = takeWhile (\<lambda>u. u \<noteq> 58) (rev s) @ dropWhile (\<lambda>u. u \<noteq> 58) (rev s)" by simp
      then have "s = rev (dropWhile (\<lambda>u. u \<noteq> 58) (rev s)) @ ?r" by (metis rev_append rev_rev_ident)
      then show ?thesis by (metis append_eq_conv_conj diff_add_inverse2 length_append)
    qed
    then have "u \<in> set (take (length s - length ?r) s) \<or> u \<in> set ?r" using assms(2) by (metis Un_iff set_append)
    then show ?thesis using ipv4_chars [OF r(1)] a(2) r(2) hex_host by (auto simp: list_all_iff host_char_def)
  qed (use a assms(2) hex_host in \<open>auto simp: ipv4_suffix_def list_all_iff host_char_def\<close>)
qed

lemma host_chars:
  assumes "parse_host v = Inr y"
  shows "\<exists>t. y = JStr t \<and> t \<noteq> [] \<and> length t \<le> 253 \<and> list_all host_char t"
proof -
  obtain t where t: "clean_string v ''invalid_host'' = Inr t" "y = JStr t" "length t \<le> 253"
    and ok: "58 \<in> set t \<and> is_ipv6 t \<or> is_ipv4 t \<or> list_all dns_label (split_on 46 t)"
    using assms unfolding parse_host_def by (auto split: if_splits)
  have "host_char u" if u: "u \<in> set t" for u
    using ok split_chars [OF u, of 46] ipv4_chars [OF _ u] ipv6_chars [OF _ u]
    by (auto simp: dns_label_def list_all_iff host_char_def)
  moreover have "t \<noteq> []" using t(1) by (auto simp: clean_string_def split: jsval.splits if_splits)
  ultimately show ?thesis using t by (auto simp: list_all_iff)
qed

lemma token_chars: "parse_token v n = Inr y \<Longrightarrow> \<exists>t. y = JStr t \<and> t \<noteq> [] \<and> length t \<le> n \<and> list_all token_char t"
  by (auto simp: parse_token_def clean_string_def split: if_splits jsval.splits)

lemma validator_of:
  "map_of validators (js ''port'') = Some (\<lambda>v. parse_integer v 1 65535)"
  "map_of validators (js ''scpMaxFileBytes'') = Some (\<lambda>v. parse_integer v 1 1073741824)"
  "map_of validators (js ''cols'') = Some (\<lambda>v. parse_integer v 40 500)"
  "map_of validators (js ''rows'') = Some (\<lambda>v. parse_integer v 10 200)"
  "map_of validators (js ''host'') = Some parse_host" "map_of validators (js ''loginNode'') = Some parse_host"
  "map_of validators (js ''cluster'') = Some (\<lambda>v. parse_token v 128)"
  "map_of validators (js ''sshAlias'') = Some (\<lambda>v. parse_token v 64)"
  "map_of validators (js ''path'') = Some parse_path"
  "map_of validators (js ''startupCommand'') = Some parse_startup_command"
  by (simp_all add: validators_def)

text \<open>
  Claim C12: Valid settings are safe to use: the numbers are in their ranges, the host names
  and the cluster and alias tokens consist of harmless characters only (no white space,
  quote or shell metacharacter), the path has no control character, and the startup command
  is empty or the one reviewed command.
\<close>

theorem valid_settings_safe:
  assumes "valid_settings s" "map_of s k = Some v"
  shows "(k = js ''port'' \<longrightarrow> (\<exists>n. v = JNum n \<and> 1 \<le> n \<and> n \<le> 65535))
    \<and> (k = js ''scpMaxFileBytes'' \<longrightarrow> (\<exists>n. v = JNum n \<and> 1 \<le> n \<and> n \<le> 1073741824))
    \<and> (k = js ''cols'' \<longrightarrow> (\<exists>n. v = JNum n \<and> 40 \<le> n \<and> n \<le> 500))
    \<and> (k = js ''rows'' \<longrightarrow> (\<exists>n. v = JNum n \<and> 10 \<le> n \<and> n \<le> 200))
    \<and> (k = js ''host'' \<or> k = js ''loginNode'' \<longrightarrow>
         (\<exists>t. v = JStr t \<and> t \<noteq> [] \<and> length t \<le> 253 \<and> list_all host_char t))
    \<and> (k = js ''cluster'' \<longrightarrow> (\<exists>t. v = JStr t \<and> t \<noteq> [] \<and> length t \<le> 128 \<and> list_all token_char t))
    \<and> (k = js ''sshAlias'' \<longrightarrow> (\<exists>t. v = JStr t \<and> t \<noteq> [] \<and> length t \<le> 64 \<and> list_all token_char t))
    \<and> (k = js ''path'' \<longrightarrow> (\<exists>t. v = JStr t \<and> length t \<le> 1024 \<and> \<not> CONTROL_CHARACTERS t))
    \<and> (k = js ''startupCommand'' \<longrightarrow> v = JStr [] \<or> v = JStr TMUX_STARTUP_COMMAND)"
proof -
  have "valid_setting k v" using assms map_of_SomeD by (fastforce simp: valid_settings_def)
  then obtain p where p: "map_of validators k = Some p" "p v = Inr v"
    by (auto simp: valid_setting_def split: option.splits)
  have path: "\<exists>t. v = JStr t \<and> length t \<le> 1024 \<and> \<not> CONTROL_CHARACTERS t" if "parse_path v = Inr v"
    using that by (auto simp: parse_path_def split: jsval.splits if_splits)
  have startup: "v = JStr [] \<or> v = JStr TMUX_STARTUP_COMMAND" if "parse_startup_command v = Inr v"
    using that by (auto simp: parse_startup_command_def split: if_splits)
  show ?thesis
    using p integer_result [of v _ _ v] host_chars [of v v] token_chars [of v _ v] path startup
    by (intro conjI impI) (auto simp: validator_of [simplified])
qed

lemma defaults_valid: "valid_settings (APP_DEFAULTS @ PROFILE_DEFAULTS)"
  by code_simp

section \<open>Witnesses\<close>

definition demo_patch :: "(jsstr \<times> jsval) list" where
  "demo_patch = [(js ''port'', JStr (js '' 8080 '')), (js ''host'', JStr (js ''::ffff:10.0.0.1'')), (js ''theme'', JStr (js ''light''))]"

definition DEFAULTS :: settings where
  "DEFAULTS = APP_DEFAULTS @ PROFILE_DEFAULTS"

definition accepted_settings :: "patch_result \<Rightarrow> settings" where
  "accepted_settings r = (case r of Accepted w \<Rightarrow> w | Rejected _ \<Rightarrow> [])"

lemma demo_accepted: "validate_settings_patch (JObj ObjectProto demo_patch) DEFAULTS =
    Accepted (accepted_settings (validate_settings_patch (JObj ObjectProto demo_patch) DEFAULTS))"
  by code_simp

lemma demo_distinct: "distinct (map fst demo_patch)" "distinct (map fst DEFAULTS)" "valid_settings DEFAULTS"
  by code_simp+

lemma settings_patch_atomic_witness:
  "\<exists>es. validate_settings_patch (JObj ObjectProto [(js ''port'', JNum 0), (js ''x'', JNull)]) DEFAULTS = Rejected es
     \<and> map_of es (js ''port'') = Some ''integer_range'' \<and> map_of es (js ''x'') = Some ''unknown_key''"
proof -
  let ?ps = "[(js ''port'', JNum 0), (js ''x'', JNull)]"
  have c: "checked (js ''port'') (JNum 0) = Inl ''integer_range''" "checked (js ''x'') JNull = Inl ''unknown_key''"
    by code_simp+
  have "distinct (map fst ?ps)" by (simp add: js_def)
  from settings_patch_atomic [OF _ this, of ObjectProto DEFAULTS] c show ?thesis by (auto simp: js_def)
qed

lemma settings_validation_idempotent_witness:
  "\<exists>w. validate_settings_patch (JObj ObjectProto demo_patch) DEFAULTS = Accepted w
     \<and> validate_settings_patch (JObj ObjectProto w) w = Accepted w"
  using settings_validation_idempotent [OF demo_distinct(3,2,1) demo_accepted] demo_accepted by blast

lemma valid_settings_safe_witness: "\<exists>n. map_of DEFAULTS (js ''port'') = Some (JNum n) \<and> 1 \<le> n \<and> n \<le> 65535"
proof -
  have "map_of DEFAULTS (js ''port'') = Some (JNum 3000)" by code_simp
  from valid_settings_safe [OF demo_distinct(3) this] this show ?thesis by auto
qed

end
