(* ===== verification/Json.thy ===== *)
theory Json
  imports JsValue
begin

text \<open>
  \<open>JSON.stringify(value, null, 2)\<close> of the JavaScript standard library, which the stores use to
  measure and write their documents.  A non-integral number is not part of any stored document;
  \<open>JFloat\<close> prints the way NaN and the infinities do.
\<close>

definition hex_digit :: "nat \<Rightarrow> nat" where
  "hex_digit d = (if d < 10 then 48 + d else 87 + d)"

definition unicode_escape :: "nat \<Rightarrow> jsstr" where
  "unicode_escape u = [92, 117, hex_digit (u div 4096 mod 16), hex_digit (u div 256 mod 16),
     hex_digit (u div 16 mod 16), hex_digit (u mod 16)]"

definition escape_unit :: "nat \<Rightarrow> jsstr" where
  "escape_unit u =
     (if u = 34 then [92, 34] else if u = 92 then [92, 92] else if u = 8 then [92, 98]
      else if u = 12 then [92, 102] else if u = 10 then [92, 110] else if u = 13 then [92, 114]
      else if u = 9 then [92, 116] else if u < 32 \<or> is_surrogate u then unicode_escape u else [u])"

fun json_body :: "jsstr \<Rightarrow> jsstr" where
  "json_body [] = []"
| "json_body [u] = escape_unit u"
| "json_body (u # v # s) =
     (if is_hi u \<and> is_lo v then [u, v] @ json_body s else escape_unit u @ json_body (v # s))"

definition json_quote :: "jsstr \<Rightarrow> jsstr" where
  "json_quote s = [34] @ json_body s @ [34]"

definition int_text :: "int \<Rightarrow> jsstr" where
  "int_text n = (if n < 0 then 45 # dec (nat (- n)) else dec (nat n))"

text \<open>Items on lines of their own between two brackets.\<close>

definition bracketed :: "nat \<Rightarrow> nat \<Rightarrow> jsstr \<Rightarrow> jsstr list \<Rightarrow> jsstr" where
  "bracketed l r ind items =
     (case items of
        [] \<Rightarrow> [l, r]
      | i # is \<Rightarrow> [l, 10] @ ind @ js ''  '' @ i @ concat (map (\<lambda>x. [44, 10] @ ind @ js ''  '' @ x) is) @ [10] @ ind @ [r])"

fun json_pretty :: "jsstr \<Rightarrow> jsval \<Rightarrow> jsstr" where
  "json_pretty ind (JBool b) = (if b then js ''true'' else js ''false'')"
| "json_pretty ind (JNum n) = int_text n"
| "json_pretty ind (JStr s) = json_quote s"
| "json_pretty ind (JArr vs) = bracketed 91 93 ind (map (json_pretty (ind @ js ''  '')) vs)"
| "json_pretty ind (JObj _ ps) = bracketed 123 125 ind
     (map (\<lambda>(k, v). json_quote k @ js '': '' @ json_pretty (ind @ js ''  '') v) (filter (\<lambda>(k, v). v \<noteq> JUndef) ps))"
| "json_pretty ind _ = js ''null''"

definition serialized_json :: "jsval \<Rightarrow> jsstr" where
  "serialized_json v = json_pretty [] v @ [10]"

section \<open>The text is well-formed\<close>

lemma ascii_well_formed: "\<forall>u\<in>set s. u < 128 \<Longrightarrow> well_formed s"
  by (rule well_formed_plain) (auto simp: is_surrogate_def is_hi_def is_lo_def)

lemma escape_well_formed: "well_formed (escape_unit u)"
proof (cases "escape_unit u = [u]")
  case False
  have d: "hex_digit (d mod 16) < 128" for d
    using mod_less_divisor [of 16 d] by (auto simp: hex_digit_def split: if_splits)
  have "\<forall>x\<in>set (escape_unit u). x < 128"
    using False d by (auto simp: escape_unit_def unicode_escape_def split: if_splits)
  then show ?thesis by (rule ascii_well_formed)
next
  case True
  then have "\<not> is_surrogate u" by (auto simp: escape_unit_def unicode_escape_def split: if_splits)
  then show ?thesis unfolding True by simp
qed

lemma body_well_formed: "well_formed (json_body s)"
  by (induction s rule: json_body.induct) (auto simp: escape_well_formed well_formed_append)

lemma quote_well_formed [simp]: "well_formed (json_quote s)"
  using body_well_formed [of s] by (simp add: json_quote_def well_formed_append well_formed_Cons_plain is_surrogate_def is_hi_def is_lo_def)

lemma int_text_ascii: "u \<in> set (int_text n) \<Longrightarrow> u < 128"
  using dec_digits [of u] by (fastforce simp: int_text_def is_digit_def split: if_splits)

lemma well_formed_concat: "\<forall>x\<in>set xs. well_formed x \<Longrightarrow> well_formed (concat xs)"
  by (induction xs) (auto simp: well_formed_append)

lemma bracketed_well_formed:
  assumes "l < 128" "r < 128" "\<forall>u\<in>set ind. u < 128" "\<forall>i\<in>set items. well_formed i"
  shows "well_formed (bracketed l r ind items)"
proof -
  have wf: "well_formed ind" "well_formed (js ''  '')" "well_formed [44, 10]" "well_formed [l, 10]" "well_formed [10]" "well_formed [r]"
    using assms by (simp_all add: ascii_well_formed js_def del: well_formed.simps)
  show ?thesis
  proof (cases items)
    case Nil
    then show ?thesis using assms by (simp add: bracketed_def ascii_well_formed del: well_formed.simps)
  next
    case (Cons i rest)
    have "well_formed ([44, 10] @ ind @ js ''  '' @ x)" if "well_formed x" for x
      by (simp only: well_formed_append wf that)
    then have c: "well_formed (concat (map (\<lambda>x. [44, 10] @ ind @ js ''  '' @ x) rest))"
      using assms(4) Cons by (intro well_formed_concat) auto
    have i: "well_formed i" using assms(4) Cons by simp
    show ?thesis unfolding Cons bracketed_def list.case by (simp only: well_formed_append wf c i)
  qed
qed

lemma json_pretty_well_formed: "\<forall>u\<in>set ind. u < 128 \<Longrightarrow> well_formed (json_pretty ind v)"
proof (induction ind v rule: json_pretty.induct)
  case (2 ind n)
  show ?case by (rule ascii_well_formed) (use int_text_ascii in auto)
next
  case (4 ind vs)
  then show ?case unfolding json_pretty.simps by (intro bracketed_well_formed) auto
next
  case (5 ind p ps)
  have field: "well_formed (json_quote k @ js '': '' @ w)" if "well_formed w" for k w
    using that by (simp add: well_formed_append well_formed_Cons_plain is_surrogate_def is_hi_def is_lo_def)
  show ?case
    unfolding json_pretty.simps
    by (rule bracketed_well_formed) (use 5 in \<open>auto intro!: field [simplified]\<close>)
qed (auto simp: js_def well_formed_plain is_surrogate_def is_hi_def is_lo_def)

end
