(* ===== verification/SessionHistory.thy ===== *)
theory SessionHistory
  imports Json "HOL-Library.Product_Lexorder"
begin

text \<open>
  \<^verbatim>\<open>electron/session-history-store.js\<close>: the persistent history of proxy sessions.

  The store's fields are the record \<open>hist\<close>.  The objects of \<open>this.registered\<close> are the same
  objects as those of \<open>this.sessions\<close>; as ids are unique (an invariant below), the map is
  modelled by its keys and its records are found in \<open>sessions\<close>.  The outcomes of the file
  operations come from the scripts \<open>outcomes\<close> (of a backup or a write) and \<open>reads\<close>
  (what reading the file gives).  A write can fail before or after it has renamed the new
  document into place.  \<open>disk\<close> is the document the store has put into place last, \<open>None\<close> as long as
  the file is the one it found.
\<close>

section \<open>Records and the document\<close>

definition MAX_HISTORY_BYTES :: nat where
  "MAX_HISTORY_BYTES = 1024 * 1024"

definition MAX_HISTORY_SESSIONS :: nat where
  "MAX_HISTORY_SESSIONS = 1000"

definition HISTORY_RETENTION_MS :: nat where
  "HISTORY_RETENTION_MS = 30 * 24 * 60 * 60 * 1000"

definition HISTORY_REASONS :: "jsstr list" where
  "HISTORY_REASONS = [js ''completed'', js ''user_disconnect'', js ''proxy_stop'', js ''network_error'',
     js ''auth_error'', js ''remote_not_ready'', js ''timeout'', js ''output_limit'', js ''app_exit'',
     js ''interrupted'']"

record hist_record =
  hid :: jsstr
  hprofile :: jsstr
  hkind :: jsstr
  hstarted :: nat
  hended :: "nat option"
  hsent :: nat
  hreceived :: nat
  hexit :: "nat option"
  hreason :: "jsstr option"

definition RECORD_FIELDS :: "jsstr list" where
  "RECORD_FIELDS = [js ''id'', js ''profileId'', js ''kind'', js ''startedAt'', js ''endedAt'', js ''bytesSent'',
     js ''bytesReceived'', js ''exitCode'', js ''reason'']"

definition counter :: "jsval \<Rightarrow> nat option" where
  "counter v = (case v of JNum n \<Rightarrow> if 0 \<le> n \<and> n \<le> MAX_SAFE then Some (nat n) else None | _ \<Rightarrow> None)"

definition token_text :: "nat \<Rightarrow> jsstr \<Rightarrow> bool" where
  "token_text maxLength s \<longleftrightarrow> 0 < length s \<and> length s \<le> maxLength \<and> \<not> list_ex (\<lambda>u. is_space u \<or> u \<le> 31 \<or> u = 127) s"

definition token_value :: "nat \<Rightarrow> jsval \<Rightarrow> jsstr option" where
  "token_value maxLength v = (case v of JStr s \<Rightarrow> if token_text maxLength s then Some s else None | _ \<Rightarrow> None)"

definition kind_value :: "jsval \<Rightarrow> jsstr option" where
  "kind_value v = (case v of JStr s \<Rightarrow> if s = js ''shell'' \<or> s = js ''exec'' then Some s else None | _ \<Rightarrow> None)"

definition reason_value :: "jsval \<Rightarrow> jsstr option" where
  "reason_value v = (case v of JStr s \<Rightarrow> if s \<in> set HISTORY_REASONS then Some s else None | _ \<Rightarrow> None)"

text \<open>\<open>isExitCode\<close>: \<open>null\<close> or an integer from 0 to 255.\<close>

definition exit_value :: "jsval \<Rightarrow> nat option option" where
  "exit_value v = (case v of JNull \<Rightarrow> Some None
     | JNum n \<Rightarrow> if 0 \<le> n \<and> n \<le> 255 then Some (Some (nat n)) else None | _ \<Rightarrow> None)"

definition record_from :: "jsval \<Rightarrow> hist_record option" where
  "record_from v =
     (case v of
        JObj _ ps \<Rightarrow>
          if length ps \<noteq> length RECORD_FIELDS \<or> list_ex (\<lambda>k. k \<notin> set (map fst ps)) RECORD_FIELDS then None
          else
            (case (token_value 1024 (getProp v (js ''id'')), token_value 256 (getProp v (js ''profileId'')),
                   kind_value (getProp v (js ''kind'')), counter (getProp v (js ''startedAt'')),
                   counter (getProp v (js ''bytesSent'')), counter (getProp v (js ''bytesReceived'')),
                   exit_value (getProp v (js ''exitCode''))) of
               (Some i, Some p, Some k, Some st, Some bs, Some br, Some ex) \<Rightarrow>
                 if getProp v (js ''endedAt'') = JNull then
                   (if ex \<noteq> None \<or> getProp v (js ''reason'') \<noteq> JNull then None
                    else Some \<lparr>hid = i, hprofile = p, hkind = k, hstarted = st, hended = None, hsent = bs,
                               hreceived = br, hexit = None, hreason = None\<rparr>)
                 else
                   (case (counter (getProp v (js ''endedAt'')), reason_value (getProp v (js ''reason''))) of
                      (Some en, Some re) \<Rightarrow>
                        if en < st then None
                        else Some \<lparr>hid = i, hprofile = p, hkind = k, hstarted = st, hended = Some en, hsent = bs,
                                   hreceived = br, hexit = ex, hreason = Some re\<rparr>
                    | _ \<Rightarrow> None)
             | _ \<Rightarrow> None)
      | _ \<Rightarrow> None)"

fun records_from :: "jsval list \<Rightarrow> jsstr list \<Rightarrow> hist_record list option" where
  "records_from [] ids = Some []"
| "records_from (v # vs) ids =
     (case record_from v of
        None \<Rightarrow> None
      | Some r \<Rightarrow>
          if hid r \<in> set ids then None
          else map_option (Cons r) (records_from vs (hid r # ids)))"

definition validate_document :: "jsval \<Rightarrow> hist_record list option" where
  "validate_document v =
     (case v of
        JObj _ ps \<Rightarrow>
          if list_ex (\<lambda>(k, _). k \<noteq> js ''schemaVersion'' \<and> k \<noteq> js ''sessions'') ps
             \<or> getProp v (js ''schemaVersion'') \<noteq> JNum 1 then None
          else (case getProp v (js ''sessions'') of JArr vs \<Rightarrow> records_from vs [] | _ \<Rightarrow> None)
      | _ \<Rightarrow> None)"

definition nat_value :: "nat \<Rightarrow> jsval" where
  "nat_value n = JNum (int n)"

definition nullable :: "('a \<Rightarrow> jsval) \<Rightarrow> 'a option \<Rightarrow> jsval" where
  "nullable f x = (case x of None \<Rightarrow> JNull | Some y \<Rightarrow> f y)"

definition record_value :: "hist_record \<Rightarrow> jsval" where
  "record_value r = JObj ObjectProto
     [(js ''id'', JStr (hid r)), (js ''profileId'', JStr (hprofile r)), (js ''kind'', JStr (hkind r)),
      (js ''startedAt'', nat_value (hstarted r)), (js ''endedAt'', nullable nat_value (hended r)),
      (js ''bytesSent'', nat_value (hsent r)), (js ''bytesReceived'', nat_value (hreceived r)),
      (js ''exitCode'', nullable nat_value (hexit r)), (js ''reason'', nullable JStr (hreason r))]"

definition document_for :: "hist_record list \<Rightarrow> jsval" where
  "document_for ss = JObj ObjectProto [(js ''schemaVersion'', JNum 1), (js ''sessions'', JArr (map record_value ss))]"

definition serialized_bytes :: "hist_record list \<Rightarrow> nat" where
  "serialized_bytes ss = byte_length (serialized_json (document_for ss))"

section \<open>The store\<close>

datatype hist_read = Missing | ParsedText jsval | UnparsedText | BadUtf8 bool | Unreadable

datatype file_outcome = Succeeds | FailsBefore | FailsAfterRename

datatype hist_notice = StateChange bool | Warning string

record hist =
  sessions :: "hist_record list"
  registered :: "jsstr list"
  clearedProfiles :: "jsstr list"
  hist_error :: bool
  hdirty :: bool
  htimer :: bool
  hdisposed :: bool
  needsRead :: bool
  pendingCorrupt :: bool
  disk :: "hist_record list option"
  hnow :: nat
  outcomes :: "file_outcome list"
  reads :: "hist_read list"
  notices :: "hist_notice list"

definition changed :: "hist \<Rightarrow> hist" where
  "changed s = s\<lparr>notices := notices s @ [StateChange (hist_error s)]\<rparr>"

definition set_error :: "bool \<Rightarrow> hist \<Rightarrow> hist" where
  "set_error e s =
     (if hist_error s = e then s
      else s\<lparr>hist_error := e,
             notices := notices s @ [StateChange e] @ (if e then [Warning ''HISTORY_STORAGE_FAILED''] else [])\<rparr>)"

definition schedule :: "hist \<Rightarrow> hist" where
  "schedule s = (let t = s\<lparr>hdirty := True\<rparr> in if htimer t \<or> hdisposed t then t else t\<lparr>htimer := True\<rparr>)"

text \<open>\<open>_prune\<close>: drop what is past retention, sort, then drop the oldest ended sessions until the
  document fits, keeping the size up to date instead of serializing again.\<close>

definition within_retention :: "nat \<Rightarrow> hist_record \<Rightarrow> bool" where
  "within_retention now r =
     (case hended r of None \<Rightarrow> True | Some e \<Rightarrow> int e \<ge> int now - int HISTORY_RETENTION_MS)"

definition last_time :: "hist_record \<Rightarrow> nat" where
  "last_time r = (case hended r of None \<Rightarrow> hstarted r | Some e \<Rightarrow> e)"

definition first_ended :: "hist_record list \<Rightarrow> nat" where
  "first_ended ss = length (takeWhile (\<lambda>r. hended r = None) ss)"

function prune_loop :: "hist_record list \<Rightarrow> int \<Rightarrow> hist_record list \<times> int" where
  "prune_loop kept bytes =
     (if length kept > MAX_HISTORY_SESSIONS \<or> bytes > int MAX_HISTORY_BYTES then
        (let i = first_ended kept in
         if i < length kept then
           (let removed = int (serialized_bytes [kept ! i]) - int (serialized_bytes []) in
            prune_loop (take i kept @ drop (Suc i) kept)
              (bytes - (removed - (if length kept > 1 then 2 else 0))))
         else (kept, bytes))
      else (kept, bytes))"
  by pat_completeness auto
termination prune_loop
  by (relation "measure (\<lambda>(kept, _). length kept)") auto

declare prune_loop.simps [simp del]

definition prune :: "hist \<Rightarrow> bool \<times> hist" where
  "prune s =
     (let sorted = sort_key (\<lambda>r. (last_time r, hstarted r)) (filter (within_retention (hnow s)) (sessions s));
          (kept, bytes) = prune_loop sorted (int (serialized_bytes sorted)) in
      (length kept \<le> MAX_HISTORY_SESSIONS \<and> bytes \<le> int MAX_HISTORY_BYTES,
       s\<lparr>hdirty := hdirty s \<or> length kept \<noteq> length (sessions s), sessions := kept\<rparr>))"

text \<open>The next outcome of a file operation; an exhausted script fails.\<close>

definition attempt :: "hist \<Rightarrow> file_outcome \<times> hist" where
  "attempt s = (case outcomes s of [] \<Rightarrow> (FailsBefore, s) | b # bs \<Rightarrow> (b, s\<lparr>outcomes := bs\<rparr>))"

text \<open>\<open>atomicWriteJson\<close> also refuses a document above \<open>maxBytes\<close>.\<close>

definition flush :: "hist \<Rightarrow> hist" where
  "flush s0 =
     (let s = snd (prune (s0\<lparr>htimer := False\<rparr>)) in
      if needsRead s \<or> pendingCorrupt s then s
      else if hdirty s \<or> hist_error s then
        (case (if serialized_bytes (sessions s) > MAX_HISTORY_BYTES then (FailsBefore, s) else attempt s) of
           (Succeeds, t) \<Rightarrow> set_error False (t\<lparr>disk := Some (sessions t), hdirty := False, clearedProfiles := []\<rparr>)
         | (FailsBefore, t) \<Rightarrow> set_error True (t\<lparr>hdirty := True\<rparr>)
         | (FailsAfterRename, t) \<Rightarrow> set_error True (t\<lparr>disk := Some (sessions t), hdirty := True\<rparr>))
      else s)"

definition backup_corrupt :: "hist \<Rightarrow> bool \<times> hist" where
  "backup_corrupt s =
     (case attempt s of
        (Succeeds, t) \<Rightarrow> (True, t\<lparr>notices := notices t @ [Warning ''HISTORY_CORRUPT'']\<rparr>)
      | (_, t) \<Rightarrow> (False, set_error True t))"

definition next_read :: "hist \<Rightarrow> hist_read \<times> hist" where
  "next_read s = (case reads s of [] \<Rightarrow> (Unreadable, s) | r # rs \<Rightarrow> (r, s\<lparr>reads := rs\<rparr>))"

definition interrupted :: "nat \<Rightarrow> hist_record \<Rightarrow> hist_record" where
  "interrupted now r = r\<lparr>hended := Some (max (hstarted r) now), hreason := Some (js ''interrupted''), hexit := None\<rparr>"

definition adopt :: "jsstr list \<Rightarrow> hist \<Rightarrow> hist_record \<Rightarrow> hist" where
  "adopt existing s r =
     (if hprofile r \<in> set (clearedProfiles s) then s\<lparr>hdirty := True\<rparr>
      else if hid r \<in> set existing then s
      else if hended r = None then s\<lparr>hdirty := True, sessions := sessions s @ [interrupted (hnow s) r]\<rparr>
      else s\<lparr>sessions := sessions s @ [r]\<rparr>)"

definition corrupt_text :: "hist \<Rightarrow> hist" where
  "corrupt_text s =
     (case backup_corrupt (s\<lparr>needsRead := False\<rparr>) of
        (False, t) \<Rightarrow> t\<lparr>pendingCorrupt := True\<rparr>
      | (True, t) \<Rightarrow> flush (t\<lparr>hdirty := True\<rparr>))"

definition load :: "hist \<Rightarrow> hist" where
  "load s0 =
     (case next_read s0 of
        (Missing, s) \<Rightarrow> s\<lparr>needsRead := False\<rparr>
      | (BadUtf8 True, s) \<Rightarrow>
          (case backup_corrupt (s\<lparr>needsRead := False\<rparr>) of
             (ok, t) \<Rightarrow> flush ((if ok then t else t\<lparr>pendingCorrupt := True\<rparr>)\<lparr>hdirty := True\<rparr>))
      | (BadUtf8 False, s) \<Rightarrow> set_error True (s\<lparr>needsRead := True\<rparr>)
      | (Unreadable, s) \<Rightarrow> set_error True (s\<lparr>needsRead := True\<rparr>)
      | (UnparsedText, s) \<Rightarrow> corrupt_text s
      | (ParsedText v, s) \<Rightarrow>
          (case validate_document v of
             None \<Rightarrow> corrupt_text s
           | Some loaded \<Rightarrow>
               (let t = foldl (adopt (map hid (sessions s))) (s\<lparr>needsRead := False\<rparr>) loaded;
                    u = snd (prune t) in
                if hdirty u then flush u else u)))"

definition find_record :: "jsstr \<Rightarrow> hist \<Rightarrow> hist_record option" where
  "find_record i s = (if i \<in> set (registered s) then find (\<lambda>r. hid r = i) (sessions s) else None)"

definition update_record :: "jsstr \<Rightarrow> (hist_record \<Rightarrow> hist_record) \<Rightarrow> hist \<Rightarrow> hist" where
  "update_record i f s = s\<lparr>sessions := map (\<lambda>r. if hid r = i then f r else r) (sessions s)\<rparr>"

text \<open>A parameter default applies to \<open>undefined\<close> only.\<close>

definition default_to :: "jsval \<Rightarrow> jsval \<Rightarrow> jsval" where
  "default_to d v = (if v = JUndef then d else v)"

definition register :: "jsval \<Rightarrow> jsval \<Rightarrow> jsval \<Rightarrow> jsval \<Rightarrow> jsval \<Rightarrow> jsval \<Rightarrow> hist \<Rightarrow> bool \<times> hist" where
  "register sessionKey profileId kind startedAt sent received s =
     (case (token_value 1024 sessionKey, token_value 256 profileId, kind_value kind, counter startedAt,
            counter (default_to (JNum 0) sent), counter (default_to (JNum 0) received)) of
        (Some i, Some p, Some k, Some st, Some bs, Some br) \<Rightarrow>
          if hdisposed s \<or> i \<in> hid ` set (sessions s) then (False, s)
          else
            (let r = \<lparr>hid = i, hprofile = p, hkind = k, hstarted = st, hended = None, hsent = bs, hreceived = br,
                      hexit = None, hreason = None\<rparr> in
             case prune (s\<lparr>sessions := sessions s @ [r]\<rparr>) of
               (False, t) \<Rightarrow> (False, t\<lparr>sessions := filter (\<lambda>x. hid x \<noteq> i) (sessions t)\<rparr>)
             | (True, t) \<Rightarrow> (True, changed (schedule (t\<lparr>registered := registered t @ [i]\<rparr>))))
      | _ \<Rightarrow> (False, s))"

definition sample :: "jsstr \<Rightarrow> jsval \<Rightarrow> jsval \<Rightarrow> hist \<Rightarrow> bool \<times> hist" where
  "sample i sent received s =
     (case (find_record i s, counter sent, counter received) of
        (Some r, Some bs, Some br) \<Rightarrow>
          if hdisposed s \<or> bs < hsent r \<or> br < hreceived r then (False, s)
          else if hsent r \<noteq> bs \<or> hreceived r \<noteq> br then
            (True, changed (schedule (update_record i (\<lambda>r. r\<lparr>hsent := bs, hreceived := br\<rparr>) s)))
          else (True, s)
      | _ \<Rightarrow> (False, s))"

text \<open>\<open>bytesSent ?? record.bytesSent\<close> after the check that lets \<open>undefined\<close> pass.\<close>

definition raised :: "jsval \<Rightarrow> nat \<Rightarrow> nat option" where
  "raised v old = (if v = JUndef then Some old else map_option (max old) (counter v))"

definition finalize :: "jsstr \<Rightarrow> jsval \<Rightarrow> jsval \<Rightarrow> jsval \<Rightarrow> jsval \<Rightarrow> jsval \<Rightarrow> hist \<Rightarrow> bool \<times> hist" where
  "finalize i endedAt sent received exitCode reason s =
     (case find_record i s of
        None \<Rightarrow> (False, s)
      | Some r \<Rightarrow>
          (case (counter (default_to (nat_value (hnow s)) endedAt), raised sent (hsent r), raised received (hreceived r),
                 exit_value (default_to JNull exitCode), reason_value reason) of
             (Some en, Some bs, Some br, Some ex, Some re) \<Rightarrow>
               if hdisposed s then (False, s)
               else (True, flush (changed
                 ((update_record i (\<lambda>r. r\<lparr>hended := Some (max (hstarted r) en), hsent := bs, hreceived := br,
                                          hexit := ex, hreason := Some re\<rparr>) s)
                  \<lparr>registered := filter (\<lambda>k. k \<noteq> i) (registered s), hdirty := True\<rparr>)))
           | _ \<Rightarrow> (False, s)))"

definition get_sessions :: "jsstr \<Rightarrow> jsval \<Rightarrow> hist \<Rightarrow> hist_record list \<times> hist" where
  "get_sessions p days s0 =
     (let s = snd (prune s0); cutoff = int (hnow s) - (if days = JNum 7 then 7 else 30) * 24 * 60 * 60 * 1000 in
      (rev (filter (\<lambda>r. hprofile r = p \<and> int (last_time r) \<ge> cutoff) (sessions s)), s))"

definition clear :: "jsstr \<Rightarrow> hist \<Rightarrow> hist" where
  "clear p s =
     flush (changed (s\<lparr>clearedProfiles := (if p \<in> set (clearedProfiles s) then clearedProfiles s else clearedProfiles s @ [p]),
       registered := filter (\<lambda>i. \<not> (\<exists>r\<in>set (sessions s). hid r = i \<and> hprofile r = p)) (registered s),
       sessions := filter (\<lambda>r. hprofile r \<noteq> p) (sessions s), hdirty := True\<rparr>))"

definition retry :: "hist \<Rightarrow> hist" where
  "retry s =
     (let t = (if needsRead s then load s else s) in
      if pendingCorrupt t then
        (case backup_corrupt t of
           (True, u) \<Rightarrow> flush (u\<lparr>pendingCorrupt := False, hdirty := True\<rparr>)
         | (False, u) \<Rightarrow> flush u)
      else flush t)"

definition dispose :: "hist \<Rightarrow> hist" where
  "dispose s = (flush s)\<lparr>hdisposed := True\<rparr>"

definition timer_fires :: "hist \<Rightarrow> hist" where
  "timer_fires s = (if htimer s then flush s else s)"

definition create_store :: "nat \<Rightarrow> file_outcome list \<Rightarrow> hist_read list \<Rightarrow> hist" where
  "create_store now bs rs = load \<lparr>sessions = [], registered = [], clearedProfiles = [], hist_error = False, hdirty = False,
     htimer = False, hdisposed = False, needsRead = False, pendingCorrupt = False, disk = None, hnow = now,
     outcomes = bs, reads = rs, notices = []\<rparr>"


section \<open>Events\<close>

text \<open>The calls the controllers make, the timer and the clock.\<close>

datatype hist_call =
    Register jsval jsval jsval jsval jsval jsval
  | Sample jsstr jsval jsval
  | Finalize jsstr jsval jsval jsval jsval jsval
  | GetSessions jsstr jsval
  | Clear jsstr
  | Flush
  | Retry
  | Dispose
  | Timer
  | Clock nat

fun hist_step :: "hist \<Rightarrow> hist_call \<Rightarrow> hist" where
  "hist_step s (Register i p k st bs br) = snd (register i p k st bs br s)"
| "hist_step s (Sample i bs br) = snd (sample i bs br s)"
| "hist_step s (Finalize i en bs br ex re) = snd (finalize i en bs br ex re s)"
| "hist_step s (GetSessions p d) = snd (get_sessions p d s)"
| "hist_step s (Clear p) = clear p s"
| "hist_step s Flush = flush s"
| "hist_step s Retry = retry s"
| "hist_step s Dispose = dispose s"
| "hist_step s Timer = timer_fires s"
| "hist_step s (Clock n) = s\<lparr>hnow := min n (nat MAX_SAFE)\<rparr>"

section \<open>The size of the document\<close>

definition record_text :: "hist_record \<Rightarrow> jsstr" where
  "record_text r = json_pretty (js ''    '') (record_value r)"

lemma record_text_well_formed [simp]: "well_formed (record_text r)"
  unfolding record_text_def by (rule json_pretty_well_formed) simp

definition sessions_text :: "hist_record list \<Rightarrow> jsstr" where
  "sessions_text ss = bracketed 91 93 (js ''  '') (map record_text ss)"

lemma sessions_text_well_formed: "well_formed (sessions_text ss)"
  unfolding sessions_text_def by (rule bracketed_well_formed) auto

lemma byte_length_Cons_ascii: "u < 128 \<Longrightarrow> byte_length (u # s) = Suc (byte_length s)"
  using byte_length_ascii_append [of "[u]" s] by simp

lemma serialized_bytes_split: "\<exists>n. \<forall>ss. serialized_bytes ss = n + byte_length (sessions_text ss)"
proof -
  define pre where "pre = [123, 10] @ js ''  '' @ (json_quote (js ''schemaVersion'') @ js '': '' @ js ''1'') @
    [44, 10] @ js ''  '' @ json_quote (js ''sessions'') @ js '': ''"
  define post where "post = [10] @ [125] @ [10::nat]"
  have pre: "u < 128" if "u \<in> set pre" for u
    using that unfolding pre_def by (simp add: json_quote_def escape_unit_def is_surrogate_def is_hi_def is_lo_def) auto
  have one: "json_pretty (js ''  '') (JNum 1) = js ''1''"
    by code_simp
  have int_one: "int_text 1 = [49]"
    by code_simp
  have "serialized_json (document_for ss) = pre @ sessions_text ss @ post" for ss
    unfolding serialized_json_def document_for_def pre_def post_def sessions_text_def record_text_def [abs_def]
    by (simp add: bracketed_def [of 123] int_one) (simp add: comp_def)
  moreover have "byte_length (sessions_text ss @ post) = byte_length (sessions_text ss) + byte_length post" for ss
    by (rule byte_length_append [OF sessions_text_well_formed])
  ultimately have "serialized_bytes ss = (length pre + byte_length post) + byte_length (sessions_text ss)" for ss
    using pre by (simp add: serialized_bytes_def byte_length_ascii_append)
  then show ?thesis by blast
qed

definition EMPTY_BYTES :: nat where
  "EMPTY_BYTES = serialized_bytes []"

lemma byte_length_concat_map:
  "\<forall>x\<in>set xs. well_formed (f x) \<Longrightarrow> byte_length (concat (map f xs)) = (\<Sum>x\<leftarrow>xs. byte_length (f x))"
  by (induction xs) (auto simp: byte_length_append well_formed_concat, simp add: byte_length_def utf8_def)

text \<open>The document of one more record is longer by a constant and the text of the record.\<close>

definition record_bytes :: "hist_record \<Rightarrow> nat" where
  "record_bytes r = byte_length (record_text r) + 6"

lemma serialized_bytes_sum:
  "serialized_bytes ss = EMPTY_BYTES + (\<Sum>r\<leftarrow>ss. record_bytes r) + (if ss = [] then 0 else 2)"
proof -
  have item: "well_formed ([44, 10] @ js ''  '' @ js ''  '' @ record_text r)" for r
    by (simp add: well_formed_Cons_plain is_surrogate_def is_hi_def is_lo_def)
  have rest: "byte_length (concat (map (\<lambda>r. [44, 10] @ js ''  '' @ js ''  '' @ record_text r) rs) @ t) =
      (\<Sum>r\<leftarrow>rs. record_bytes r) + byte_length t" for rs t
  proof -
    have "byte_length ([44, 10] @ js ''  '' @ js ''  '' @ record_text r) = record_bytes r" for r
      by (simp add: byte_length_Cons_ascii record_bytes_def)
    then show ?thesis
      using item by (subst byte_length_append) (auto intro!: well_formed_concat simp: byte_length_concat_map simp del: append.simps)
  qed
  have body: "byte_length (sessions_text ss) =
      byte_length (sessions_text []) + (\<Sum>r\<leftarrow>ss. record_bytes r) + (if ss = [] then 0 else 2)"
  proof (cases ss)
    case (Cons r rs)
    then show ?thesis
      using rest [of rs "[10, 32, 32, 93]"]
      by (simp add: sessions_text_def bracketed_def comp_def byte_length_Cons_ascii byte_length_append record_bytes_def)
  qed simp
  obtain n where n: "serialized_bytes ss = n + byte_length (sessions_text ss)" for ss
    using serialized_bytes_split by blast
  show ?thesis using body n [of ss] n [of "[]"] by (simp add: EMPTY_BYTES_def)
qed

section \<open>Pruning\<close>

definition unfinished :: "hist_record \<Rightarrow> bool" where
  "unfinished r \<longleftrightarrow> hended r = None"

definition record_key :: "hist_record \<Rightarrow> nat \<times> nat" where
  "record_key r = (last_time r, hstarted r)"

lemma first_ended_split:
  assumes "first_ended kept < length kept"
  obtains as x bs where "kept = as @ x # bs" "first_ended kept = length as" "\<forall>r\<in>set as. unfinished r" "\<not> unfinished x"
proof -
  let ?as = "takeWhile (\<lambda>r. hended r = None) kept"
  have "dropWhile (\<lambda>r. hended r = None) kept \<noteq> []"
    using assms unfolding first_ended_def by (metis append.right_neutral nat_less_le takeWhile_dropWhile_id)
  then obtain x bs where d: "dropWhile (\<lambda>r. hended r = None) kept = x # bs" by (meson neq_Nil_conv)
  show thesis
  proof (rule that)
    show "kept = ?as @ x # bs" using d by (metis takeWhile_dropWhile_id)
    show "first_ended kept = length ?as" by (simp add: first_ended_def)
    show "\<forall>r\<in>set ?as. unfinished r" by (auto simp: unfinished_def dest: set_takeWhileD)
    show "\<not> unfinished x" using d by (auto simp: unfinished_def dropWhile_eq_Cons_conv)
  qed
qed

lemma first_ended_all:
  assumes "\<not> first_ended kept < length kept"
  shows "\<forall>r\<in>set kept. unfinished r"
proof -
  have "length (takeWhile (\<lambda>r. hended r = None) kept) = length kept"
    using assms length_takeWhile_le [of "\<lambda>r. hended r = None" kept] unfolding first_ended_def by linarith
  then have "takeWhile (\<lambda>r. hended r = None) kept = kept"
    using takeWhile_eq_take [of "\<lambda>r. hended r = None" kept] by simp
  then show ?thesis unfolding takeWhile_eq_all_conv unfinished_def .
qed

lemma prune_loop_spec:
  assumes "prune_loop kept bytes = (k, b)" "bytes = int (serialized_bytes kept)" "sorted (map record_key kept)"
    "distinct (map hid kept)"
  shows "b = int (serialized_bytes k) \<and> set k \<subseteq> set kept \<and> distinct (map hid k) \<and> sorted (map record_key k)
    \<and> filter unfinished k = filter unfinished kept
    \<and> (\<forall>d\<in>set kept - set k. \<not> unfinished d \<and> (\<forall>r\<in>set k. \<not> unfinished r \<longrightarrow> record_key d \<le> record_key r))
    \<and> (length k \<le> MAX_HISTORY_SESSIONS \<and> b \<le> int MAX_HISTORY_BYTES \<or> (\<forall>r\<in>set k. unfinished r))"
  using assms
proof (induction kept bytes rule: prune_loop.induct)
  case (1 kept bytes)
  let ?over = "length kept > MAX_HISTORY_SESSIONS \<or> bytes > int MAX_HISTORY_BYTES"
  show ?case
  proof (cases "?over \<and> first_ended kept < length kept")
    case False
    then have "k = kept \<and> b = bytes"
      using 1(2) by (subst (asm) prune_loop.simps) (auto simp: Let_def split: if_splits)
    moreover have "(\<forall>r\<in>set kept. unfinished r) \<or> \<not> ?over"
      using False first_ended_all by blast
    ultimately show ?thesis using 1(3-5) by auto
  next
    case True
    then obtain as x bs where s: "kept = as @ x # bs" "first_ended kept = length as"
        "\<forall>r\<in>set as. unfinished r" "\<not> unfinished x"
      using first_ended_split by blast
    define smaller where "smaller = bytes - (int (serialized_bytes [x]) - int (serialized_bytes []) -
      (if length kept > 1 then 2 else 0))"
    have cut: "take (first_ended kept) kept @ drop (Suc (first_ended kept)) kept = as @ bs" "kept ! first_ended kept = x"
      unfolding s(2) by (simp_all add: s(1))
    have run: "prune_loop (as @ bs) smaller = (k, b)"
      using 1(2) True unfolding prune_loop.simps [of kept] Let_def cut smaller_def by simp
    have size: "smaller = int (serialized_bytes (as @ bs))"
      unfolding smaller_def 1(3) by (cases as; cases bs) (simp_all add: s serialized_bytes_sum)
    have IH: "b = int (serialized_bytes k) \<and> set k \<subseteq> set (as @ bs) \<and> distinct (map hid k) \<and> sorted (map record_key k)
      \<and> filter unfinished k = filter unfinished (as @ bs)
      \<and> (\<forall>d\<in>set (as @ bs) - set k. \<not> unfinished d \<and> (\<forall>r\<in>set k. \<not> unfinished r \<longrightarrow> record_key d \<le> record_key r))
      \<and> (length k \<le> MAX_HISTORY_SESSIONS \<and> b \<le> int MAX_HISTORY_BYTES \<or> (\<forall>r\<in>set k. unfinished r))"
    proof (rule 1(1) [OF _ refl _ refl, unfolded cut, folded smaller_def, OF _ _ run size])
      show "?over" "first_ended kept < length kept" using True by auto
      show "sorted (map record_key (as @ bs))" "distinct (map hid (as @ bs))"
        using 1(4,5) by (simp_all add: s(1) sorted_append)
    qed
    have "record_key x \<le> record_key r" if "r \<in> set k" "\<not> unfinished r" for r
    proof -
      have "r \<in> set bs" using that IH s(3) by auto
      then show ?thesis using 1(4) unfolding s by (simp add: sorted_append)
    qed
    then have first: "\<forall>d\<in>set kept - set k. \<not> unfinished d \<and> (\<forall>r\<in>set k. \<not> unfinished r \<longrightarrow> record_key d \<le> record_key r)"
      using IH s(4) unfolding s(1) set_append list.set by blast
    have "filter unfinished k = filter unfinished kept" "set k \<subseteq> set kept"
      using IH s(4) unfolding s by auto
    with first IH show ?thesis by blast
  qed
qed

text \<open>What pruning does to the store.\<close>

lemma prune_spec:
  assumes "prune s = (ok, t)" "distinct (map hid (sessions s))"
  shows "ok \<longleftrightarrow> length (sessions t) \<le> MAX_HISTORY_SESSIONS \<and> serialized_bytes (sessions t) \<le> MAX_HISTORY_BYTES"
    and "set (sessions t) \<subseteq> set (sessions s)"
    and "distinct (map hid (sessions t))"
    and "r \<in> set (sessions s) \<Longrightarrow> unfinished r \<Longrightarrow> r \<in> set (sessions t)"
    and "\<not> ok \<Longrightarrow> r \<in> set (sessions t) \<Longrightarrow> unfinished r"
    and "d \<in> set (sessions s) - set (sessions t) \<Longrightarrow> \<not> unfinished d \<and>
      (within_retention (hnow s) d \<longrightarrow> (\<forall>r\<in>set (sessions t). \<not> unfinished r \<longrightarrow> record_key d \<le> record_key r))"
    and "\<forall>r\<in>set (sessions t). within_retention (hnow s) r"
    and "sorted (map record_key (sessions t))"
    and "t = s\<lparr>hdirty := hdirty s \<or> length (sessions t) \<noteq> length (sessions s), sessions := sessions t\<rparr>"
proof -
  let ?in = "filter (within_retention (hnow s)) (sessions s)"
  let ?sorted = "sort_key (\<lambda>r. (last_time r, hstarted r)) ?in"
  obtain k b where loop: "prune_loop ?sorted (int (serialized_bytes ?sorted)) = (k, b)" by fastforce
  then have ok: "ok \<longleftrightarrow> length k \<le> MAX_HISTORY_SESSIONS \<and> b \<le> int MAX_HISTORY_BYTES" and
      t: "t = s\<lparr>hdirty := hdirty s \<or> length k \<noteq> length (sessions s), sessions := k\<rparr>"
    using assms(1) by (auto simp: prune_def Let_def)
  have d: "distinct (map hid ?sorted)"
  proof -
    have "distinct (map hid ?in)" using assms(2) by (rule distinct_map_filter)
    then show ?thesis by (simp add: distinct_map)
  qed
  have so: "sorted (map record_key ?sorted)"
    using sorted_sort_key unfolding record_key_def [abs_def] .
  note P = prune_loop_spec [OF loop refl so d]
  have sub: "set k \<subseteq> set (sessions s) \<and> (\<forall>r\<in>set k. within_retention (hnow s) r)"
    using P by auto
  have keep: "r \<in> set k" if "r \<in> set (sessions s)" "unfinished r" for r
  proof -
    have "r \<in> set ?sorted" using that by (simp add: within_retention_def unfinished_def)
    then show ?thesis using P that(2) by (metis DiffI)
  qed
  have drop: "\<not> unfinished d \<and>
      (within_retention (hnow s) d \<longrightarrow> (\<forall>r\<in>set k. \<not> unfinished r \<longrightarrow> record_key d \<le> record_key r))"
    if "d \<in> set (sessions s) - set k" for d
    using that keep P by (metis (no_types, lifting) DiffD1 DiffD2 DiffI mem_Collect_eq set_filter set_sort)
  show "ok \<longleftrightarrow> length (sessions t) \<le> MAX_HISTORY_SESSIONS \<and> serialized_bytes (sessions t) \<le> MAX_HISTORY_BYTES"
    using P ok t by simp
  show "set (sessions t) \<subseteq> set (sessions s)" using sub t by simp
  show "distinct (map hid (sessions t))" using P t by simp
  show "r \<in> set (sessions s) \<Longrightarrow> unfinished r \<Longrightarrow> r \<in> set (sessions t)" using keep t by simp
  show "\<not> ok \<Longrightarrow> r \<in> set (sessions t) \<Longrightarrow> unfinished r" using P ok t by auto
  show "d \<in> set (sessions s) - set (sessions t) \<Longrightarrow> \<not> unfinished d \<and>
      (within_retention (hnow s) d \<longrightarrow> (\<forall>r\<in>set (sessions t). \<not> unfinished r \<longrightarrow> record_key d \<le> record_key r))"
    using drop t by simp
  show "\<forall>r\<in>set (sessions t). within_retention (hnow s) r" using sub t by simp
  show "sorted (map record_key (sessions t))" using P t by simp
  show "t = s\<lparr>hdirty := hdirty s \<or> length (sessions t) \<noteq> length (sessions s), sessions := sessions t\<rparr>"
    using t by simp
qed

section \<open>The invariant\<close>

definition record_ok :: "hist_record \<Rightarrow> bool" where
  "record_ok r \<longleftrightarrow> token_text 1024 (hid r) \<and> token_text 256 (hprofile r) \<and> hkind r \<in> {js ''shell'', js ''exec''}
     \<and> int (hstarted r) \<le> MAX_SAFE \<and> int (hsent r) \<le> MAX_SAFE \<and> int (hreceived r) \<le> MAX_SAFE
     \<and> (case hended r of
          None \<Rightarrow> hexit r = None \<and> hreason r = None
        | Some en \<Rightarrow> hstarted r \<le> en \<and> int en \<le> MAX_SAFE \<and> (\<forall>c. hexit r = Some c \<longrightarrow> c \<le> 255)
            \<and> (\<exists>w\<in>set HISTORY_REASONS. hreason r = Some w))"

definition records_ok :: "hist_record list \<Rightarrow> bool" where
  "records_ok ss \<longleftrightarrow> distinct (map hid ss) \<and> (\<forall>r\<in>set ss. record_ok r)"

definition hist_ok :: "hist \<Rightarrow> bool" where
  "hist_ok s \<longleftrightarrow> records_ok (sessions s) \<and> set (registered s) = hid ` {r \<in> set (sessions s). unfinished r}
     \<and> int (hnow s) \<le> MAX_SAFE
     \<and> (\<forall>d. disk s = Some d \<longrightarrow> records_ok d \<and> serialized_bytes d \<le> MAX_HISTORY_BYTES)"

lemma hist_ok_cong:
  "hist_ok s \<Longrightarrow> sessions t = sessions s \<Longrightarrow> registered t = registered s \<Longrightarrow> hnow t = hnow s \<Longrightarrow> disk t = disk s \<Longrightarrow> hist_ok t"
  by (simp add: hist_ok_def)

lemma keep_fields [simp]:
  "sessions (changed s) = sessions s" "registered (changed s) = registered s" "hnow (changed s) = hnow s" "disk (changed s) = disk s"
  "sessions (schedule s) = sessions s" "registered (schedule s) = registered s" "hnow (schedule s) = hnow s" "disk (schedule s) = disk s"
  "sessions (set_error e s) = sessions s" "registered (set_error e s) = registered s" "hnow (set_error e s) = hnow s" "disk (set_error e s) = disk s"
  "sessions (snd (attempt s)) = sessions s" "registered (snd (attempt s)) = registered s" "hnow (snd (attempt s)) = hnow s" "disk (snd (attempt s)) = disk s"
  "sessions (snd (backup_corrupt s)) = sessions s" "registered (snd (backup_corrupt s)) = registered s"
  "hnow (snd (backup_corrupt s)) = hnow s" "disk (snd (backup_corrupt s)) = disk s"
  "sessions (snd (next_read s)) = sessions s" "registered (snd (next_read s)) = registered s"
  "hnow (snd (next_read s)) = hnow s" "disk (snd (next_read s)) = disk s"
  by (auto simp: changed_def schedule_def set_error_def Let_def attempt_def backup_corrupt_def next_read_def
      split: list.splits file_outcome.splits)

end
