(* ===== verification/HistoryRuns.thy ===== *)
theory HistoryRuns
  imports SessionHistory
begin

text \<open>
  The invariant of the session history over every run, and what no run can change: a finished
  session.  \<open>thinner\<close> is the effect of pruning, and of everything that only prunes.
\<close>

section \<open>Documents\<close>

lemma counter_Some [simp]: "counter v = Some n \<longleftrightarrow> v = JNum (int n) \<and> int n \<le> MAX_SAFE"
  by (auto simp: counter_def split: jsval.splits if_splits)

lemma token_value_Some [simp]: "token_value m v = Some s \<longleftrightarrow> v = JStr s \<and> token_text m s"
  by (auto simp: token_value_def split: jsval.splits if_splits)

lemma kind_value_Some [simp]: "kind_value v = Some s \<longleftrightarrow> v = JStr s \<and> s \<in> {js ''shell'', js ''exec''}"
  by (auto simp: kind_value_def split: jsval.splits if_splits)

lemma reason_value_Some [simp]: "reason_value v = Some s \<longleftrightarrow> v = JStr s \<and> s \<in> set HISTORY_REASONS"
  by (auto simp: reason_value_def split: jsval.splits if_splits)

lemma exit_value_Some [simp]: "exit_value v = Some x \<longleftrightarrow> v = nullable nat_value x \<and> (\<forall>c. x = Some c \<longrightarrow> c \<le> 255)"
  by (cases x) (auto simp: exit_value_def nullable_def nat_value_def split: jsval.splits if_splits)

lemma record_from_ok: "record_from v = Some r \<Longrightarrow> record_ok r"
  unfolding record_from_def record_ok_def
  by (auto split: jsval.splits if_splits option.splits)

lemma records_from_ok:
  "records_from vs ids = Some ss \<Longrightarrow> records_ok ss \<and> (\<forall>r\<in>set ss. hid r \<notin> set ids)"
proof (induction vs arbitrary: ids ss)
  case Nil
  then show ?case by (simp add: records_ok_def)
next
  case (Cons v vs)
  then obtain r rest where r: "record_from v = Some r" "hid r \<notin> set ids" "ss = r # rest"
      "records_from vs (hid r # ids) = Some rest"
    by (auto split: option.splits if_splits)
  have "records_ok rest" "\<forall>x\<in>set rest. hid x \<notin> set (hid r # ids)" using Cons.IH [OF r(4)] by auto
  then show ?case using r(1-3) record_from_ok by (auto simp: records_ok_def)
qed

lemma validate_document_ok: "validate_document v = Some ss \<Longrightarrow> records_ok ss"
  by (auto simp: validate_document_def records_from_ok split: jsval.splits if_splits)

lemma record_value_props:
  "getProp (record_value r) (js ''id'') = JStr (hid r)"
  "getProp (record_value r) (js ''profileId'') = JStr (hprofile r)"
  "getProp (record_value r) (js ''kind'') = JStr (hkind r)"
  "getProp (record_value r) (js ''startedAt'') = nat_value (hstarted r)"
  "getProp (record_value r) (js ''endedAt'') = nullable nat_value (hended r)"
  "getProp (record_value r) (js ''bytesSent'') = nat_value (hsent r)"
  "getProp (record_value r) (js ''bytesReceived'') = nat_value (hreceived r)"
  "getProp (record_value r) (js ''exitCode'') = nullable nat_value (hexit r)"
  "getProp (record_value r) (js ''reason'') = nullable JStr (hreason r)"
  by (simp_all add: record_value_def getProp_def)

lemma record_value_from:
  assumes "record_ok r"
  shows "record_from (record_value r) = Some r"
proof -
  obtain ps where v: "record_value r = JObj ObjectProto ps" "length ps = length RECORD_FIELDS" "map fst ps = RECORD_FIELDS"
    by (simp add: record_value_def RECORD_FIELDS_def)
  have fields: "token_value 1024 (JStr (hid r)) = Some (hid r)" "token_value 256 (JStr (hprofile r)) = Some (hprofile r)"
    "kind_value (JStr (hkind r)) = Some (hkind r)" "counter (nat_value (hstarted r)) = Some (hstarted r)"
    "counter (nat_value (hsent r)) = Some (hsent r)" "counter (nat_value (hreceived r)) = Some (hreceived r)"
    "exit_value (nullable nat_value (hexit r)) = Some (hexit r)"
    using assms by (auto simp: record_ok_def nat_value_def split: option.splits)
  have shape: "\<not> (length ps \<noteq> length RECORD_FIELDS \<or> list_ex (\<lambda>k. k \<notin> set (map fst ps)) RECORD_FIELDS)"
    using v by (simp add: list_ex_iff)
  show ?thesis
  proof (cases "hended r")
    case None
    then have "hexit r = None" "hreason r = None" using assms by (simp_all add: record_ok_def)
    then show ?thesis
      unfolding record_from_def record_value_props fields
      using shape None by (simp add: v(1) nullable_def)
  next
    case (Some en)
    then obtain w where w: "hreason r = Some w" "w \<in> set HISTORY_REASONS" "hstarted r \<le> en" "int en \<le> MAX_SAFE"
      using assms by (auto simp: record_ok_def)
    have "reason_value (JStr w) = Some w" "counter (nat_value en) = Some en"
      using w by (simp_all add: nat_value_def)
    then show ?thesis
      unfolding record_from_def record_value_props fields
      using shape Some w by (simp add: v(1) nullable_def nat_value_def del: counter_Some reason_value_Some)
  qed
qed

lemma records_values_from:
  "records_ok ss \<Longrightarrow> \<forall>r\<in>set ss. hid r \<notin> set ids \<Longrightarrow> records_from (map record_value ss) ids = Some ss"
proof (induction ss arbitrary: ids)
  case (Cons r rest)
  then have "records_ok rest" "record_ok r" "hid r \<notin> set ids"
    by (simp_all add: records_ok_def)
  moreover have "\<forall>x\<in>set rest. hid x \<notin> set (hid r # ids)"
    using Cons.prems by (fastforce simp: records_ok_def image_iff)
  ultimately show ?case using Cons.IH by (simp add: record_value_from)
qed simp

lemma document_roundtrip: "records_ok ss \<Longrightarrow> validate_document (document_for ss) = Some ss"
  by (simp add: validate_document_def document_for_def getProp_def records_values_from)

section \<open>Pruning and writing\<close>

definition thinner :: "hist \<Rightarrow> hist \<Rightarrow> bool" where
  "thinner s t \<longleftrightarrow> set (sessions t) \<subseteq> set (sessions s) \<and> hist_ok t"

lemma thinner_trans: "thinner s t \<Longrightarrow> thinner t u \<Longrightarrow> thinner s u"
  by (auto simp: thinner_def)

lemma thinner_same:
  "hist_ok s \<Longrightarrow> sessions t = sessions s \<Longrightarrow> registered t = registered s \<Longrightarrow> hnow t = hnow s \<Longrightarrow> disk t = disk s \<Longrightarrow> thinner s t"
  using hist_ok_cong [of s t] by (simp add: thinner_def)

lemma prune_thinner: "hist_ok s \<Longrightarrow> thinner s (snd (prune s))"
proof -
  assume s: "hist_ok s"
  obtain ok t where p: "prune s = (ok, t)" by fastforce
  have d: "distinct (map hid (sessions s))" using s by (simp add: hist_ok_def records_ok_def)
  note P = prune_spec [OF p d]
  have "registered t = registered s" "hnow t = hnow s" "disk t = disk s" 
    using arg_cong [OF P(9), of registered] arg_cong [OF P(9), of hnow] arg_cong [OF P(9), of disk] by simp_all
  moreover have "{r \<in> set (sessions t). unfinished r} = {r \<in> set (sessions s). unfinished r}"
    using P(2,4) by auto
  ultimately show ?thesis
    using s P(2,3) by (auto simp: thinner_def hist_ok_def records_ok_def p)
qed

lemma flush_thinner: "hist_ok s \<Longrightarrow> thinner s (flush s)"
proof -
  assume s: "hist_ok s"
  let ?u = "snd (prune (s\<lparr>htimer := False\<rparr>))"
  have u: "thinner s ?u"
    using thinner_trans [OF thinner_same [OF s] prune_thinner] hist_ok_cong [OF s] by simp
  then have ok: "hist_ok ?u" by (simp add: thinner_def)
  obtain b t where a: "attempt ?u = (b, t)" by fastforce
  have t: "sessions t = sessions ?u" "registered t = registered ?u" "hnow t = hnow ?u" "disk t = disk ?u"
    using keep_fields [where s = ?u] a by simp_all
  define u where "u = ?u"
  note ok = ok [folded u_def] and t = t [folded u_def] and a = a [folded u_def]
  have big: "thinner u (set_error True (u\<lparr>hdirty := True\<rparr>))"
    by (rule thinner_same [OF ok]) simp_all
  have no: "thinner u (set_error True (t\<lparr>hdirty := True\<rparr>))"
    by (rule thinner_same [OF ok]) (simp_all add: t)
  have yes: "thinner u (set_error False (t\<lparr>disk := Some (sessions t), hdirty := False, clearedProfiles := []\<rparr>))"
    if "serialized_bytes (sessions u) \<le> MAX_HISTORY_BYTES"
    using ok that unfolding thinner_def hist_ok_def by (simp add: t)
  have late: "thinner u (set_error True (t\<lparr>disk := Some (sessions t), hdirty := True\<rparr>))"
    if "serialized_bytes (sessions u) \<le> MAX_HISTORY_BYTES"
    using ok that unfolding thinner_def hist_ok_def by (simp add: t)
  have "thinner u (flush s)"
    using big no yes late thinner_same [OF ok refl refl refl refl]
    by (auto simp: flush_def Let_def u_def [symmetric] a not_less split: file_outcome.splits)
  then show ?thesis using u thinner_trans unfolding u_def by blast
qed

section \<open>Evolution of the records\<close>

definition later :: "hist_record \<Rightarrow> hist_record \<Rightarrow> bool" where
  "later r r' \<longleftrightarrow> hid r' = hid r \<and> hprofile r' = hprofile r \<and> hkind r' = hkind r \<and> hstarted r' = hstarted r
     \<and> hsent r \<le> hsent r' \<and> hreceived r \<le> hreceived r' \<and> (\<not> unfinished r \<longrightarrow> r' = r)"

definition evolves :: "hist \<Rightarrow> hist \<Rightarrow> bool" where
  "evolves s t \<longleftrightarrow> hist_ok t \<and>
     (\<forall>r'\<in>set (sessions t). hid r' \<notin> hid ` set (sessions s) \<or> (\<exists>r\<in>set (sessions s). later r r'))"

lemma later_refl [simp]: "later r r"
  by (simp add: later_def)

lemma later_in: "x \<in> S \<Longrightarrow> \<exists>y\<in>S. later y x"
  by (rule bexI [where x = x]) simp_all

lemma thinner_evolves: "thinner s t \<Longrightarrow> evolves s t"
  unfolding thinner_def evolves_def using later_refl by blast

lemma evolves_thinner: "evolves s t \<Longrightarrow> thinner t u \<Longrightarrow> evolves s u"
  unfolding thinner_def evolves_def by blast

lemma evolves_ok: "evolves s t \<Longrightarrow> hist_ok t"
  by (simp add: evolves_def)

lemma evolves_flush: "evolves s t \<Longrightarrow> evolves s (flush t)"
  by (rule evolves_thinner [OF _ flush_thinner [OF evolves_ok]])

lemma evolves_same:
  "evolves s t \<Longrightarrow> sessions u = sessions t \<Longrightarrow> registered u = registered t \<Longrightarrow> hnow u = hnow t \<Longrightarrow> disk u = disk t \<Longrightarrow> evolves s u"
  by (rule evolves_thinner [OF _ thinner_same [OF evolves_ok]])

lemma evolves_refl: "hist_ok s \<Longrightarrow> evolves s s"
  by (rule thinner_evolves) (simp add: thinner_def)

subsection \<open>Loading\<close>

definition adopted :: "nat \<Rightarrow> hist_record \<Rightarrow> hist_record" where
  "adopted now r = (if unfinished r then interrupted now r else r)"

lemma adopt_fields [simp]:
  "registered (adopt E s r) = registered s" "hnow (adopt E s r) = hnow s" "disk (adopt E s r) = disk s"
  "clearedProfiles (adopt E s r) = clearedProfiles s"
  by (simp_all add: adopt_def)

lemma adopt_fold_fields [simp]:
  "registered (foldl (adopt E) s rs) = registered s" "hnow (foldl (adopt E) s rs) = hnow s" "disk (foldl (adopt E) s rs) = disk s"
  by (induction rs arbitrary: s) simp_all

lemma adopt_sessions:
  "sessions (adopt E s r) = sessions s @
     (if hprofile r \<notin> set (clearedProfiles s) \<and> hid r \<notin> set E then [adopted (hnow s) r] else [])"
  by (simp add: adopt_def adopted_def unfinished_def)

lemma adopt_fold:
  "sessions (foldl (adopt E) s rs) =
     sessions s @ map (adopted (hnow s)) (filter (\<lambda>r. hprofile r \<notin> set (clearedProfiles s) \<and> hid r \<notin> set E) rs)"
  by (induction rs arbitrary: s) (simp_all add: adopt_sessions)

lemma adopted_simps [simp]: "hid (adopted now r) = hid r" "\<not> unfinished (adopted now r)"
  by (auto simp: adopted_def interrupted_def unfinished_def)

lemma reason_interrupted: "js ''interrupted'' \<in> set HISTORY_REASONS"
  unfolding HISTORY_REASONS_def set_simps by blast

lemma adopted_ok: "record_ok r \<Longrightarrow> int now \<le> MAX_SAFE \<Longrightarrow> record_ok (adopted now r)"
  using reason_interrupted by (auto simp: record_ok_def adopted_def interrupted_def unfinished_def simp del: js_simps)

lemma adopt_evolves:
  assumes s: "hist_ok s" and rs: "records_ok rs"
  shows "evolves s (foldl (adopt (map hid (sessions s))) s rs)"
proof -
  define new where "new = map (adopted (hnow s))
    (filter (\<lambda>r. hprofile r \<notin> set (clearedProfiles s) \<and> hid r \<notin> set (map hid (sessions s))) rs)"
  define t where "t = foldl (adopt (map hid (sessions s))) s rs"
  have t: "sessions t = sessions s @ new" unfolding t_def new_def by (rule adopt_fold)
  have ids: "map hid new = map hid (filter (\<lambda>r. hprofile r \<notin> set (clearedProfiles s) \<and> hid r \<notin> set (map hid (sessions s))) rs)"
    by (simp add: new_def comp_def)
  have d: "distinct (map hid new)"
    unfolding ids using rs by (simp add: records_ok_def distinct_map_filter)
  have new: "hid r \<notin> hid ` set (sessions s)" "record_ok r" "\<not> unfinished r" if "r \<in> set new" for r
    using that rs s adopted_ok unfolding new_def records_ok_def hist_ok_def by fastforce+
  have "hid ` set new \<inter> hid ` set (sessions s) = {}" using new(1) by blast
  then have "records_ok (sessions t)"
    using s d new(2) by (auto simp: t hist_ok_def records_ok_def)
  moreover have "{r \<in> set (sessions t). unfinished r} = {r \<in> set (sessions s). unfinished r}"
    using new(3) by (auto simp: t)
  ultimately have "hist_ok t" using s by (simp add: hist_ok_def t_def)
  then have "evolves s t"
    unfolding evolves_def t set_append using new(1) later_refl by blast
  then show ?thesis by (simp add: t_def)
qed

lemma corrupt_evolves: "evolves s t \<Longrightarrow> evolves s (corrupt_text t)"
proof -
  assume e: "evolves s t"
  obtain b u where a: "backup_corrupt (t\<lparr>needsRead := False\<rparr>) = (b, u)" by fastforce
  have u: "sessions u = sessions t" "registered u = registered t" "hnow u = hnow t" "disk u = disk t"
    using keep_fields [where s = "t\<lparr>needsRead := False\<rparr>"] a by simp_all
  show ?thesis
    unfolding corrupt_text_def a
    using evolves_flush [OF evolves_same [OF e, of "u\<lparr>hdirty := True\<rparr>"]] evolves_same [OF e, of "u\<lparr>pendingCorrupt := True\<rparr>"] u
    by (simp split: bool.split)
qed

lemma load_evolves: "hist_ok s \<Longrightarrow> evolves s (load s)"
proof -
  assume s: "hist_ok s"
  obtain rd t where n: "next_read s = (rd, t)" by fastforce
  have t: "sessions t = sessions s" "registered t = registered s" "hnow t = hnow s" "disk t = disk s"
    using keep_fields [where s = s] n by simp_all
  have e: "evolves s t" using evolves_same [OF evolves_refl [OF s]] t by simp
  have e': "evolves s u" if "sessions u = sessions t" "registered u = registered t" "hnow u = hnow t" "disk u = disk t" for u
    using evolves_same [OF e] that by simp
  have c: "evolves s (corrupt_text t)" using corrupt_evolves [OF e] .
  show ?thesis
  proof (cases rd)
    case Missing
    then show ?thesis using e' by (simp add: load_def n)
  next
    case (ParsedText v)
    show ?thesis
    proof (cases "validate_document v")
      case None
      then show ?thesis using c by (simp add: load_def n ParsedText)
    next
      case (Some loaded)
      define u where "u = foldl (adopt (map hid (sessions t))) (t\<lparr>needsRead := False\<rparr>) loaded"
      have "evolves (t\<lparr>needsRead := False\<rparr>) u"
        using adopt_evolves [of "t\<lparr>needsRead := False\<rparr>" loaded] validate_document_ok [OF Some] e'
        unfolding u_def evolves_def by simp
      then have u: "evolves s u" by (simp add: evolves_def t)
      have p: "evolves s (snd (prune u))"
        using evolves_thinner [OF u prune_thinner] u by (simp add: evolves_def)
      show ?thesis
        using p evolves_flush [OF p] by (simp add: load_def n ParsedText Some u_def [symmetric] Let_def)
    qed
  next
    case UnparsedText
    then show ?thesis using c by (simp add: load_def n)
  next
    case (BadUtf8 b)
    obtain k u where a: "backup_corrupt (t\<lparr>needsRead := False\<rparr>) = (k, u)" by fastforce
    have u: "sessions u = sessions t" "registered u = registered t" "hnow u = hnow t" "disk u = disk t"
      using keep_fields [where s = "t\<lparr>needsRead := False\<rparr>"] a by simp_all
    have f: "evolves s (flush w)" if "sessions w = sessions u" "registered w = registered u" "hnow w = hnow u" "disk w = disk u" for w
      using evolves_flush [OF e'] that u by simp
    show ?thesis using e' f by (simp add: load_def n BadUtf8 a split: bool.split)
  next
    case Unreadable
    then show ?thesis using e' by (simp add: load_def n)
  qed
qed

subsection \<open>The calls\<close>

lemma find_record_Some:
  assumes "hist_ok s" "find_record i s = Some r"
  shows "r \<in> set (sessions s)" "hid r = i" "unfinished r" "i \<in> set (registered s)"
proof -
  have f: "i \<in> set (registered s)" "find (\<lambda>r. hid r = i) (sessions s) = Some r"
    using assms(2) by (auto simp: find_record_def split: if_splits)
  then show r: "r \<in> set (sessions s)" "hid r = i" "i \<in> set (registered s)" by (auto simp: find_Some_iff)
  obtain r' where r': "r' \<in> set (sessions s)" "unfinished r'" "hid r' = i"
    using assms(1) f(1) by (auto simp: hist_ok_def)
  have "inj_on hid (set (sessions s))" using assms(1) by (simp add: hist_ok_def records_ok_def distinct_map)
  then have "r' = r" using r r' by (simp add: inj_on_def)
  then show "unfinished r" using r' by simp
qed

lemma update_evolves:
  assumes s: "hist_ok s" and r: "find_record i s = Some r" and f: "later r (f r)" "record_ok (f r)"
  shows "evolves s ((update_record i f s)\<lparr>registered := if unfinished (f r) then registered s
     else filter (\<lambda>k. k \<noteq> i) (registered s)\<rparr>)" (is "evolves s ?t")
proof -
  note R = find_record_Some [OF s r]
  have inj: "inj_on hid (set (sessions s))" using s by (simp add: hist_ok_def records_ok_def distinct_map)
  have only: "x = r" if "x \<in> set (sessions s)" "hid x = i" for x
    using inj that R(1,2) by (simp add: inj_on_def)
  have fid: "hid (f r) = i" using f(1) R(2) by (simp add: later_def)
  have ids: "map hid (sessions ?t) = map hid (sessions s)"
    using fid by (auto simp: update_record_def dest: only)
  have "set (sessions ?t) = (\<lambda>x. if hid x = i then f x else x) ` set (sessions s)"
    by (simp add: update_record_def)
  also have "\<dots> = (\<lambda>x. if hid x = i then f x else x) ` insert r (set (sessions s) - {r})"
    using R(1) by (simp add: insert_absorb)
  also have "\<dots> = insert (f r) ((\<lambda>x. x) ` (set (sessions s) - {r}))"
    unfolding image_insert using R(2) by (intro arg_cong2 [where f = insert] image_cong) (auto dest: only)
  also have "\<dots> = insert (f r) (set (sessions s) - {r})" by simp
  finally have el: "set (sessions ?t) = insert (f r) (set (sessions s) - {r})" .
  have "records_ok (sessions ?t)"
    unfolding records_ok_def ids el using s f(2) unfolding hist_ok_def records_ok_def by blast
  moreover have "set (registered ?t) = hid ` {x \<in> set (sessions ?t). unfinished x}"
  proof -
    have "inj_on hid {x \<in> set (sessions s). unfinished x}" using inj by (rule inj_on_subset) auto
    then have "hid ` ({x \<in> set (sessions s). unfinished x} - {r}) = hid ` {x \<in> set (sessions s). unfinished x} - {i}"
      using inj_on_image_set_diff [of hid "{x \<in> set (sessions s). unfinished x}" "{x \<in> set (sessions s). unfinished x}" "{r}"] R by simp
    moreover have "{x \<in> set (sessions s). unfinished x} - {r} = {x \<in> set (sessions s) - {r}. unfinished x}" by auto
    ultimately have others: "hid ` {x \<in> set (sessions s) - {r}. unfinished x} = hid ` {x \<in> set (sessions s). unfinished x} - {i}"
      by simp
    have "{x \<in> set (sessions ?t). unfinished x} =
        (if unfinished (f r) then {f r} else {}) \<union> {x \<in> set (sessions s) - {r}. unfinished x}"
      unfolding el by auto
    then show ?thesis
      using s R(4) fid by (simp only: image_Un others) (auto simp: hist_ok_def)
  qed
  ultimately have "hist_ok ?t" using s by (simp add: hist_ok_def update_record_def)
  moreover have "\<exists>y\<in>set (sessions s). later y x" if "x \<in> set (sessions ?t)" for x
    using that f(1) R(1) later_refl unfolding el by blast
  ultimately show ?thesis by (simp add: evolves_def)
qed

lemma prune_registered: "prune (s\<lparr>registered := x\<rparr>) = (fst (prune s), (snd (prune s))\<lparr>registered := x\<rparr>)"
  by (simp add: prune_def Let_def split: prod.split)

lemma register_evolves:
  assumes s: "hist_ok s"
  shows "evolves s (snd (register a b c d e g s))"
proof (cases "\<exists>i p k st bs br. token_value 1024 a = Some i \<and> token_value 256 b = Some p \<and> kind_value c = Some k \<and>
    counter d = Some st \<and> counter (default_to (JNum 0) e) = Some bs \<and> counter (default_to (JNum 0) g) = Some br \<and>
    i \<notin> hid ` set (sessions s) \<and> \<not> hdisposed s")
  case False
  then have "snd (register a b c d e g s) = s"
    by (auto simp: register_def simp del: counter_Some token_value_Some kind_value_Some split: option.splits)
  then show ?thesis using evolves_refl [OF s] by simp
next
  case True
  then obtain i p k st bs br where v: "token_value 1024 a = Some i" "token_value 256 b = Some p" "kind_value c = Some k"
      "counter d = Some st" "counter (default_to (JNum 0) e) = Some bs" "counter (default_to (JNum 0) g) = Some br"
      "i \<notin> hid ` set (sessions s)" "\<not> hdisposed s" by blast
  define r where "r = \<lparr>hid = i, hprofile = p, hkind = k, hstarted = st, hended = None, hsent = bs, hreceived = br,
    hexit = None, hreason = None\<rparr>"
  define u where "u = s\<lparr>sessions := sessions s @ [r], registered := registered s @ [i]\<rparr>"
  have ok: "record_ok r" using v(1-6) by (auto simp: record_ok_def r_def)
  have unf: "unfinished r" "hid r = i" by (simp_all add: r_def unfinished_def)
  have hu: "hist_ok u"
    using s ok v(7) unf by (auto simp: hist_ok_def records_ok_def u_def)
  have eu: "evolves s u"
  proof -
    have "set (sessions u) = insert r (set (sessions s))" by (auto simp: u_def)
    then have "hid x \<notin> hid ` set (sessions s) \<or> (\<exists>y\<in>set (sessions s). later y x)" if "x \<in> set (sessions u)" for x
      using that v(7) unf(2) by (cases "x = r") (auto intro: later_in)
    then show ?thesis using hu unfolding evolves_def by (rule_tac conjI) auto
  qed
  obtain fits t where pr: "prune (s\<lparr>sessions := sessions s @ [r]\<rparr>) = (fits, t)" by fastforce
  have t: "snd (prune u) = t\<lparr>registered := registered s @ [i]\<rparr>"
    using prune_registered [where s = "s\<lparr>sessions := sessions s @ [r]\<rparr>"] pr by (simp add: u_def)
  have reg: "registered t = registered s" "hnow t = hnow s" "disk t = disk s"
    using pr by (auto simp: prune_def Let_def split: prod.splits)
  have et: "evolves s (t\<lparr>registered := registered s @ [i]\<rparr>)"
    using evolves_thinner [OF eu prune_thinner [OF hu]] t by simp
  have run: "snd (register a b c d e g s) =
      (if fits then changed (schedule (t\<lparr>registered := registered t @ [i]\<rparr>))
       else t\<lparr>sessions := filter (\<lambda>x. hid x \<noteq> i) (sessions t)\<rparr>)"
    unfolding register_def v using v(7,8) by (simp add: r_def [symmetric] pr split: bool.split)
  show ?thesis
  proof (cases fits)
    case True
    then show ?thesis unfolding run using evolves_same [OF et] reg by simp
  next
    case False
    define w where "w = t\<lparr>sessions := filter (\<lambda>x. hid x \<noteq> i) (sessions t)\<rparr>"
    have ht: "hist_ok (t\<lparr>registered := registered s @ [i]\<rparr>)" using evolves_ok [OF et] .
    have "i \<notin> set (registered s)" using s v(7) by (auto simp: hist_ok_def)
    then have "set (registered w) = hid ` {x \<in> set (sessions w). unfinished x}"
      using ht reg by (auto simp: hist_ok_def w_def)
    then have "hist_ok w"
      using ht by (auto simp: hist_ok_def records_ok_def w_def distinct_map_filter)
    then have "thinner (t\<lparr>registered := registered s @ [i]\<rparr>) w" by (auto simp: thinner_def w_def)
    then show ?thesis unfolding run using evolves_thinner [OF et] False by (simp add: w_def)
  qed
qed

lemma counters_later: "hsent r \<le> a \<Longrightarrow> hreceived r \<le> b \<Longrightarrow> unfinished r \<Longrightarrow> later r (r\<lparr>hsent := a, hreceived := b\<rparr>)"
  by (simp add: later_def)

lemma sample_evolves:
  assumes s: "hist_ok s"
  shows "evolves s (snd (sample i a b s))"
proof (cases "\<exists>r bs br. find_record i s = Some r \<and> counter a = Some bs \<and> counter b = Some br \<and> hsent r \<le> bs \<and> hreceived r \<le> br")
  case False
  then have "snd (sample i a b s) = s"
    by (force simp: sample_def not_less simp del: counter_Some split: option.splits)
  then show ?thesis using evolves_refl [OF s] by simp
next
  case True
  then obtain r bs br where v: "find_record i s = Some r" "counter a = Some bs" "counter b = Some br" "hsent r \<le> bs" "hreceived r \<le> br"
    by blast
  note R = find_record_Some [OF s v(1)]
  let ?f = "\<lambda>r. r\<lparr>hsent := bs, hreceived := br\<rparr>"
  have "record_ok r" using s R(1) by (simp add: hist_ok_def records_ok_def)
  then have "record_ok (?f r)" using v(2,3) by (simp add: record_ok_def split: option.splits)
  from update_evolves [OF s v(1), of ?f, OF counters_later [OF v(4,5) R(3)] this]
  have e: "evolves s (update_record i ?f s)"
    using R(3) by (simp add: unfinished_def update_record_def)
  have "evolves s (changed (schedule (update_record i ?f s)))"
    by (rule evolves_same [OF e]) simp_all
  then show ?thesis
    using v evolves_refl [OF s] by (simp add: sample_def del: counter_Some)
qed

lemma raised_Some: "raised v old = Some n \<Longrightarrow> int old \<le> MAX_SAFE \<Longrightarrow> old \<le> n \<and> int n \<le> MAX_SAFE"
  by (auto simp: raised_def split: if_splits)

lemma finalize_evolves:
  assumes s: "hist_ok s"
  shows "evolves s (snd (finalize i a b c d e s))"
proof (cases "\<exists>r en bs br ex re. find_record i s = Some r \<and> counter (default_to (nat_value (hnow s)) a) = Some en \<and>
    raised b (hsent r) = Some bs \<and> raised c (hreceived r) = Some br \<and> exit_value (default_to JNull d) = Some ex \<and>
    reason_value e = Some re \<and> \<not> hdisposed s")
  case False
  then have "snd (finalize i a b c d e s) = s"
    by (auto simp: finalize_def simp del: counter_Some exit_value_Some reason_value_Some split: option.splits)
  then show ?thesis using evolves_refl [OF s] by simp
next
  case True
  then obtain r en bs br ex re where v: "find_record i s = Some r" "counter (default_to (nat_value (hnow s)) a) = Some en"
      "raised b (hsent r) = Some bs" "raised c (hreceived r) = Some br" "exit_value (default_to JNull d) = Some ex"
      "reason_value e = Some re" "\<not> hdisposed s"
    by blast
  note R = find_record_Some [OF s v(1)]
  let ?f = "\<lambda>r. r\<lparr>hended := Some (max (hstarted r) en), hsent := bs, hreceived := br, hexit := ex, hreason := Some re\<rparr>"
  have ok: "record_ok r" using s R(1) by (simp add: hist_ok_def records_ok_def)
  have bounds: "hsent r \<le> bs" "int bs \<le> MAX_SAFE" "hreceived r \<le> br" "int br \<le> MAX_SAFE"
    using raised_Some v(3,4) ok by (auto simp: record_ok_def)
  have ended: "int en \<le> MAX_SAFE" "\<forall>n. ex = Some n \<longrightarrow> n \<le> 255" "re \<in> set HISTORY_REASONS"
    using v(2,5,6) by auto
  have "later r (?f r)" using R(3) bounds by (simp add: later_def)
  moreover have "record_ok (?f r)" using ok bounds ended by (auto simp: record_ok_def max_def)
  ultimately have e: "evolves s ((update_record i ?f s)\<lparr>registered := filter (\<lambda>k. k \<noteq> i) (registered s)\<rparr>)" (is "evolves s ?u")
    using update_evolves [OF s v(1), of ?f] by (simp add: unfinished_def)
  have "snd (finalize i a b c d e s) = flush (changed (?u\<lparr>hdirty := True\<rparr>))"
    unfolding finalize_def v option.case prod.case using v(7) by simp
  moreover have "evolves s (changed (?u\<lparr>hdirty := True\<rparr>))"
    by (rule evolves_same [OF e]) simp_all
  ultimately show ?thesis using evolves_flush by simp
qed

lemma clear_evolves:
  assumes s: "hist_ok s"
  shows "evolves s (clear p s)"
proof -
  define t where "t = s\<lparr>clearedProfiles := (if p \<in> set (clearedProfiles s) then clearedProfiles s else clearedProfiles s @ [p]),
    registered := filter (\<lambda>i. \<not> (\<exists>r\<in>set (sessions s). hid r = i \<and> hprofile r = p)) (registered s),
    sessions := filter (\<lambda>r. hprofile r \<noteq> p) (sessions s), hdirty := True\<rparr>"
  have inj: "inj_on hid (set (sessions s))" using s by (simp add: hist_ok_def records_ok_def distinct_map)
  have "set (registered t) = {i \<in> set (registered s). \<not> (\<exists>r\<in>set (sessions s). hid r = i \<and> hprofile r = p)}"
    by (simp add: t_def)
  also have "\<dots> = hid ` {x \<in> set (sessions s). hprofile x \<noteq> p \<and> unfinished x}"
    using s inj by (auto simp: hist_ok_def dest: inj_onD)
  finally have "hist_ok t" using s by (simp add: hist_ok_def records_ok_def distinct_map_filter t_def)
  then have "thinner s t" by (auto simp: thinner_def t_def)
  then have "evolves s t" by (rule thinner_evolves)
  then have "evolves s (changed t)" using evolves_same by simp
  then show ?thesis unfolding clear_def t_def [symmetric] by (rule evolves_flush)
qed

lemma retry_evolves:
  assumes s: "hist_ok s"
  shows "evolves s (retry s)"
proof -
  define t where "t = (if needsRead s then load s else s)"
  have t: "evolves s t" using load_evolves [OF s] evolves_refl [OF s] by (simp add: t_def)
  obtain b u where a: "backup_corrupt t = (b, u)" by fastforce
  have u: "sessions u = sessions t" "registered u = registered t" "hnow u = hnow t" "disk u = disk t"
    using keep_fields [where s = t] a by simp_all
  have 1: "evolves s (flush u)" by (rule evolves_flush, rule evolves_same [OF t]) (simp_all add: u)
  have 2: "evolves s (flush (u\<lparr>pendingCorrupt := False, hdirty := True\<rparr>))"
    by (rule evolves_flush, rule evolves_same [OF t]) (simp_all add: u)
  show ?thesis
    unfolding retry_def Let_def t_def [symmetric] a using 1 2 evolves_flush [OF t] by (simp split: bool.split)
qed

lemma step_evolves: "hist_ok s \<Longrightarrow> evolves s (hist_step s c)"
proof (cases c)
  case (GetSessions p d)
  moreover assume "hist_ok s"
  ultimately show ?thesis
    using thinner_evolves [OF prune_thinner] by (simp add: get_sessions_def Let_def)
next
  case Flush
  moreover assume "hist_ok s"
  ultimately show ?thesis using evolves_flush [OF evolves_refl] by simp
next
  case Dispose
  moreover assume "hist_ok s"
  ultimately show ?thesis using evolves_same [OF evolves_flush [OF evolves_refl]] by (simp add: dispose_def)
next
  case Timer
  moreover assume "hist_ok s"
  ultimately show ?thesis using evolves_flush [OF evolves_refl] evolves_refl by (simp add: timer_fires_def)
next
  case (Clock n)
  moreover assume "hist_ok s"
  ultimately show ?thesis by (auto simp: evolves_def hist_ok_def MAX_SAFE_def intro: later_in)
qed (simp_all add: register_evolves sample_evolves finalize_evolves clear_evolves retry_evolves)

interpretation history: event_machine hist_step hist_ok
  by unfold_locales (rule evolves_ok [OF step_evolves])

lemma create_ok: "int now \<le> MAX_SAFE \<Longrightarrow> hist_ok (create_store now bs rs)"
  unfolding create_store_def
  by (rule evolves_ok [OF load_evolves]) (simp add: hist_ok_def records_ok_def)

section \<open>Properties\<close>

text \<open>Claim C13: over every run of the session history store (calls, timer, clock) the ids of its
  sessions are unique, exactly the unfinished ones are registered, and the document it has put on
  disk last, by a write that succeeded or by one that failed after the rename, is within the size limit and
  loads back as the same sessions.\<close>

theorem history_invariant:
  assumes "int now \<le> MAX_SAFE" and "s = foldl hist_step (create_store now bs rs) cs"
  shows "distinct (map hid (sessions s))
    \<and> set (registered s) = hid ` {r \<in> set (sessions s). hended r = None}
    \<and> validate_document (document_for (sessions s)) = Some (sessions s)
    \<and> (\<forall>d. disk s = Some d \<longrightarrow> validate_document (document_for d) = Some d \<and> serialized_bytes d \<le> MAX_HISTORY_BYTES)"
proof -
  have "hist_ok s" unfolding assms(2) by (rule history.inv_run [OF create_ok [OF assms(1)]])
  then show ?thesis unfolding hist_ok_def unfinished_def
    using document_roundtrip by (auto simp: records_ok_def)
qed

text \<open>Claim C14: after any run of the session history store, one more call leaves every finished session
  that it keeps as it was, and of an unfinished one changes neither identity nor start while its byte
  counters only grow.\<close>

theorem finished_sessions_final:
  assumes "int now \<le> MAX_SAFE" and "s = foldl hist_step (create_store now bs rs) cs"
    and "r \<in> set (sessions s)" and "r' \<in> set (sessions (hist_step s c))" and "hid r' = hid r"
  shows "hprofile r' = hprofile r \<and> hkind r' = hkind r \<and> hstarted r' = hstarted r
     \<and> hsent r \<le> hsent r' \<and> hreceived r \<le> hreceived r' \<and> (hended r \<noteq> None \<longrightarrow> r' = r)"
proof -
  have ok: "hist_ok s" unfolding assms(2) by (rule history.inv_run [OF create_ok [OF assms(1)]])
  have "evolves s (hist_step s c)" by (rule step_evolves [OF ok])
  then obtain x where x: "x \<in> set (sessions s)" "later x r'"
    using assms(3-5) unfolding evolves_def by force
  have "inj_on hid (set (sessions s))" using ok by (simp add: hist_ok_def records_ok_def distinct_map)
  then have "x = r" using x assms(3,5) by (auto simp: later_def inj_on_def)
  then show ?thesis using x(2) by (simp add: later_def unfinished_def)
qed

text \<open>Claim C15: pruning the session history, whose loop keeps the size of the document up to date instead of
  serializing it again, never drops an unfinished session, drops finished ones oldest first, and
  reports true exactly when the document it leaves is within the limits; it fails only when every
  session left is unfinished.\<close>

theorem prune_exact:
  assumes "distinct (map hid (sessions s))" and "prune s = (fits, t)"
  shows "(fits \<longleftrightarrow> length (sessions t) \<le> MAX_HISTORY_SESSIONS \<and> byte_length (serialized_json (document_for (sessions t))) \<le> MAX_HISTORY_BYTES)
    \<and> (\<forall>r\<in>set (sessions s). hended r = None \<longrightarrow> r \<in> set (sessions t))
    \<and> (fits \<or> (\<forall>r\<in>set (sessions t). hended r = None))
    \<and> (\<forall>d\<in>set (sessions s) - set (sessions t). within_retention (hnow s) d \<longrightarrow>
         (\<forall>r\<in>set (sessions t). hended r \<noteq> None \<longrightarrow> last_time d \<le> last_time r))"
proof -
  note P = prune_spec [OF assms(2,1)]
  have "last_time d \<le> last_time r" if "d \<in> set (sessions s) - set (sessions t)" "within_retention (hnow s) d"
      "r \<in> set (sessions t)" "hended r \<noteq> None" for d r
  proof -
    have "record_key d \<le> record_key r" using P(6) [of d] that by (simp add: unfinished_def)
    then show ?thesis by (auto simp: record_key_def)
  qed
  then show ?thesis using P(1,4,5) unfolding serialized_bytes_def unfinished_def by blast
qed

section \<open>Witnesses\<close>

definition demo_calls :: "hist_call list" where
  "demo_calls = [Register (JStr (js ''a'')) (JStr (js ''p'')) (JStr (js ''shell'')) (JNum 5) JUndef JUndef,
     Sample (js ''a'') (JNum 3) (JNum 4), Finalize (js ''a'') JUndef JUndef JUndef (JNum 0) (JStr (js ''completed''))]"

definition demo_record :: hist_record where
  "demo_record = \<lparr>hid = js ''a'', hprofile = js ''p'', hkind = js ''shell'', hstarted = 5, hended = Some 10, hsent = 3,
     hreceived = 4, hexit = Some 0, hreason = Some (js ''completed'')\<rparr>"

lemma demo_run: "sessions (foldl hist_step (create_store 10 [Succeeds] [Missing]) demo_calls) = [demo_record]"
  "disk (foldl hist_step (create_store 10 [Succeeds] [Missing]) demo_calls) = Some [demo_record]"
  by code_simp+

lemma history_invariant_witness:
  "validate_document (document_for [demo_record]) = Some [demo_record] \<and> serialized_bytes [demo_record] \<le> MAX_HISTORY_BYTES"
  using history_invariant [of 10 _ "[Succeeds]" "[Missing]" demo_calls, OF _ refl] demo_run by (simp add: MAX_SAFE_def)

lemma demo_flushed: "sessions (hist_step (foldl hist_step (create_store 10 [Succeeds] [Missing]) demo_calls) Flush) = [demo_record]"
  by code_simp

lemma finished_sessions_final_witness:
  "\<exists>r'\<in>set (sessions (hist_step (foldl hist_step (create_store 10 [Succeeds] [Missing]) demo_calls) Flush)).
     hid r' = js ''a'' \<and> r' = demo_record"
proof -
  let ?s = "foldl hist_step (create_store 10 [Succeeds] [Missing]) demo_calls"
  obtain r' where r': "r' \<in> set (sessions (hist_step ?s Flush))" "hid r' = hid demo_record"
    using demo_flushed by auto
  have "r' = demo_record"
    using finished_sessions_final [of 10 ?s "[Succeeds]" "[Missing]" demo_calls demo_record r' Flush] r' demo_run
    by (simp add: MAX_SAFE_def demo_record_def)
  then show ?thesis using r' by (auto simp: demo_record_def)
qed

lemma prune_exact_witness:
  "\<exists>fits t. prune (foldl hist_step (create_store 10 [Succeeds] [Missing]) demo_calls) = (fits, t)
     \<and> (fits \<or> (\<forall>r\<in>set (sessions t). hended r = None))"
proof -
  let ?s = "foldl hist_step (create_store 10 [Succeeds] [Missing]) demo_calls"
  have "distinct (map hid (sessions ?s))" by (simp add: demo_run)
  from prune_exact [OF this surjective_pairing] show ?thesis
    by (metis surjective_pairing)
qed

end
