(* ===== verification/JsBuffer.thy ===== *)
theory JsBuffer
  imports ExecCodec
begin

text \<open>
  What the program uses of Node's \<open>Buffer\<close> beyond \<open>utf8\<close>: the lenient decoders.
  \<open>Buffer.from(s, 'base64')\<close> skips what is not in the alphabet (the URL-safe characters are)
  and drops an incomplete last byte; \<open>buffer.toString('utf8')\<close> decodes as the WHATWG decoder does
  and replaces each ill-formed part by U+FFFD.
\<close>

definition b64_any_value :: "nat \<Rightarrow> nat" where
  "b64_any_value u = (if u = 45 then 62 else if u = 95 then 63 else b64_value u)"

fun b64_groups :: "nat list \<Rightarrow> byte list" where
  "b64_groups (x # y # z # w # r) = [x * 4 + y div 16, y mod 16 * 16 + z div 4, z mod 4 * 64 + w] @ b64_groups r"
| "b64_groups [x, y, z] = [x * 4 + y div 16, y mod 16 * 16 + z div 4]"
| "b64_groups [x, y] = [x * 4 + y div 16]"
| "b64_groups _ = []"

definition from_base64 :: "jsstr \<Rightarrow> byte list" where
  "from_base64 s = b64_groups (map b64_any_value (filter (\<lambda>u. is_b64 u \<or> u = 45 \<or> u = 95) s))"

lemma b64_char_value: "v < 64 \<Longrightarrow> b64_any_value (b64_char v) = v \<and> is_b64 (b64_char v) \<and> b64_char v \<noteq> 61"
  by (auto simp: b64_any_value_def b64_char_def b64_value_def is_b64_def is_alnum_def is_alpha_def is_digit_def)

lemma not_b64_pad: "\<not> is_b64 61"
  by (simp add: is_b64_def is_alnum_def is_alpha_def is_digit_def)

lemma b64_parts:
  fixes x y z :: nat
  assumes "x < 256" "y < 256" "z < 256"
  shows "x div 4 < 64" "x mod 4 * 16 + y div 16 < 64" "y mod 16 * 4 + z div 64 < 64" "z mod 64 < 64"
    "x mod 4 * 16 < 64" "y mod 16 * 4 < 64"
    "(x div 4) * 4 + (x mod 4 * 16 + y div 16) div 16 = x"
    "(x mod 4 * 16 + y div 16) mod 16 * 16 + (y mod 16 * 4 + z div 64) div 4 = y"
    "(y mod 16 * 4 + z div 64) mod 4 * 64 + z mod 64 = z"
    "(x div 4) * 4 + (x mod 4 * 16) div 16 = x"
    "(x mod 4 * 16 + y div 16) mod 16 * 16 + (y mod 16 * 4) div 4 = y"
proof -
  have "x mod 4 < 4" "y mod 16 < 16" "y div 16 < 16" "z div 64 < 4" using assms by auto
  moreover have "(x mod 4 * 16 + y div 16) div 16 = x mod 4" "(x mod 4 * 16 + y div 16) mod 16 = y div 16"
    "(y mod 16 * 4 + z div 64) div 4 = y mod 16" "(y mod 16 * 4 + z div 64) mod 4 = z div 64"
    using \<open>y div 16 < 16\<close> \<open>z div 64 < 4\<close> by (simp_all add: div_mult2_eq mod_mult2_eq)
  ultimately show "x div 4 < 64" "x mod 4 * 16 + y div 16 < 64" "y mod 16 * 4 + z div 64 < 64" "z mod 64 < 64"
    "x mod 4 * 16 < 64" "y mod 16 * 4 < 64"
    "(x div 4) * 4 + (x mod 4 * 16 + y div 16) div 16 = x"
    "(x mod 4 * 16 + y div 16) mod 16 * 16 + (y mod 16 * 4 + z div 64) div 4 = y"
    "(y mod 16 * 4 + z div 64) mod 4 * 64 + z mod 64 = z"
    "(x div 4) * 4 + (x mod 4 * 16) div 16 = x"
    "(x mod 4 * 16 + y div 16) mod 16 * 16 + (y mod 16 * 4) div 4 = y"
    using assms by (simp_all add: div_mult_mod_eq)
qed

lemma from_base64_groups:
  assumes "a < 64" "b < 64" "c < 64" "d < 64"
  shows "from_base64 (b64_char a # b64_char b # b64_char c # b64_char d # s) =
      [a * 4 + b div 16, b mod 16 * 16 + c div 4, c mod 4 * 64 + d] @ from_base64 s"
    and "from_base64 [b64_char a, b64_char b, b64_char c, 61] = [a * 4 + b div 16, b mod 16 * 16 + c div 4]"
    and "from_base64 [b64_char a, b64_char b, 61, 61] = [a * 4 + b div 16]"
  using assms by (simp_all add: from_base64_def b64_char_value not_b64_pad)

lemma from_base64_roundtrip: "\<forall>b\<in>set bs. b < 256 \<Longrightarrow> from_base64 (b64_encode bs) = bs"
proof (induction bs rule: b64_encode.induct)
  case 1
  then show ?case by (simp add: from_base64_def)
next
  case (2 x)
  then have x: "x < 256" by simp
  note p = b64_parts [OF x x x]
  show ?case unfolding b64_encode.simps from_base64_groups(3) [OF p(1,5) p(1,5)] p ..
next
  case (3 x y)
  then have x: "x < 256" and y: "y < 256" by simp_all
  note p = b64_parts [OF x y y]
  show ?case unfolding b64_encode.simps from_base64_groups(2) [OF p(1,2,6,6)] p ..
next
  case (4 x y z r)
  then have x: "x < 256" and y: "y < 256" and z: "z < 256" and IH: "from_base64 (b64_encode r) = r" by simp_all
  note p = b64_parts [OF x y z]
  show ?case
    unfolding b64_encode.simps append.simps from_base64_groups(1) [OF p(1,2,3,4)] p IH ..
qed

lemma from_base64_mod4: "length (b64_encode bs) mod 4 = 0"
  by (induction bs rule: b64_encode.induct) auto

lemma base64_padding: "\<forall>b\<in>set bs. b < 256 \<Longrightarrow> dropWhile is_b64 (b64_encode bs) \<in> {[], [61], [61, 61]}"
proof (induction bs rule: b64_encode.induct)
  case (2 x)
  then have x: "x < 256" by simp
  note p = b64_parts [OF x x x]
  show ?case
    unfolding b64_encode.simps by (simp only: dropWhile.simps p b64_char_value if_True) (simp add: not_b64_pad)
next
  case (3 x y)
  then have x: "x < 256" and y: "y < 256" by simp_all
  note p = b64_parts [OF x y y]
  show ?case
    unfolding b64_encode.simps by (simp only: dropWhile.simps p b64_char_value if_True) (simp add: not_b64_pad)
next
  case (4 x y z r)
  then have x: "x < 256" and y: "y < 256" and z: "z < 256" by simp_all
  note p = b64_parts [OF x y z]
  have IH: "dropWhile is_b64 (b64_encode r) \<in> {[], [61], [61, 61]}" using 4 by simp
  show ?case
    unfolding b64_encode.simps append.simps by (simp only: dropWhile.simps p b64_char_value if_True) (rule IH)
qed simp

lemma base64_size: "length (b64_encode bs) = (length bs + 2) div 3 * 4"
proof (induction bs rule: b64_encode.induct)
  case (4 x y z r)
  have "(length r + 5) div 3 = Suc ((length r + 2) div 3)" by presburger
  then show ?case using 4 by (simp add: add.commute)
qed simp_all

section \<open>Lossy UTF-8\<close>

function utf8_lossy_run :: "nat \<Rightarrow> nat \<Rightarrow> nat \<Rightarrow> nat \<Rightarrow> byte list \<Rightarrow> nat list" where
  "utf8_lossy_run needed lo hi c [] = (if needed = 0 then [] else [65533])"
| "utf8_lossy_run needed lo hi c (b # bs) =
     (if needed = 0 then
        (if b < 128 then b # utf8_lossy_run 0 128 191 0 bs
         else if 194 \<le> b \<and> b \<le> 223 then utf8_lossy_run 1 128 191 (b - 192) bs
         else if 224 \<le> b \<and> b \<le> 239 then
           utf8_lossy_run 2 (if b = 224 then 160 else 128) (if b = 237 then 159 else 191) (b - 224) bs
         else if 240 \<le> b \<and> b \<le> 244 then
           utf8_lossy_run 3 (if b = 240 then 144 else 128) (if b = 244 then 143 else 191) (b - 240) bs
         else 65533 # utf8_lossy_run 0 128 191 0 bs)
      else if b < lo \<or> hi < b then 65533 # utf8_lossy_run 0 128 191 0 (b # bs)
      else if needed = 1 then (c * 64 + (b - 128)) # utf8_lossy_run 0 128 191 0 bs
      else utf8_lossy_run (needed - 1) 128 191 (c * 64 + (b - 128)) bs)"
  by pat_completeness auto
termination utf8_lossy_run
  by (relation "measure (\<lambda>(needed, _, _, _, bs). 2 * length bs + (if needed = 0 then 0 else 1))") auto

definition utf8_lossy :: "byte list \<Rightarrow> jsstr" where
  "utf8_lossy bs = from_points (utf8_lossy_run 0 128 191 0 bs)"

end
