(* ===== verification/Credentials.thy ===== *)
theory Credentials
  imports JsBuffer JsValue
begin

text \<open>
  \<^verbatim>\<open>electron/credential-store.js\<close>: the secrets of a profile, and \<^verbatim>\<open>electron/auth-state.js\<close>,
  the login state they authorise.

  The operating system's key ring (Electron's \<open>safeStorage\<close>) is a parameter: a record of the
  functions \<open>encrypt\<close> and \<open>decrypt\<close>, \<open>None\<close> where they throw.  Whether it is available is part of
  the state, because it can change while the program runs.  \<open>commitSecrets\<close>, which writes the
  settings, answers from the script \<open>commits\<close>.
\<close>

section \<open>Limits\<close>

definition MAX_COOKIE_BYTES :: nat where
  "MAX_COOKIE_BYTES = 64 * 1024"

definition MAX_ENCRYPTED_SECRET_BYTES :: nat where
  "MAX_ENCRYPTED_SECRET_BYTES = 256 * 1024"

definition MAX_SSO_USERNAME_CHARS :: nat where
  "MAX_SSO_USERNAME_CHARS = 128"

definition MAX_SSO_USERNAME_BYTES :: nat where
  "MAX_SSO_USERNAME_BYTES = 512"

definition MAX_SSO_PASSWORD_BYTES :: nat where
  "MAX_SSO_PASSWORD_BYTES = 4096"

datatype cred_error =
    InvalidType string
  | LimitExceeded string nat
  | StorageUnavailable
  | KeyringFailed
  | Persistence string

definition validate_cookie :: "jsval \<Rightarrow> cred_error + jsstr" where
  "validate_cookie v =
     (case v of
        JStr s \<Rightarrow> if byte_length s > MAX_COOKIE_BYTES then Inl (LimitExceeded ''cookie'' MAX_COOKIE_BYTES) else Inr s
      | _ \<Rightarrow> Inl (InvalidType ''cookie must be a string''))"

text \<open>What Node's \<open>validateHeaderValue\<close> accepts.\<close>

definition header_value_ok :: "jsstr \<Rightarrow> bool" where
  "header_value_ok s \<longleftrightarrow> list_all (\<lambda>u. u = 9 \<or> 32 \<le> u \<and> u \<le> 126 \<or> 128 \<le> u \<and> u \<le> 255) s"

definition normalize_username :: "jsval \<Rightarrow> cred_error + jsstr" where
  "normalize_username v =
     (case v of
        JStr s \<Rightarrow>
          if length s > MAX_SSO_USERNAME_CHARS \<or> byte_length s > MAX_SSO_USERNAME_BYTES
             \<or> list_ex (\<lambda>u. u \<le> 31 \<or> 127 \<le> u \<and> u \<le> 159 \<or> u = 8232 \<or> u = 8233) s
          then Inl (InvalidType ''username is invalid'')
          else Inr (js_trim s)
      | _ \<Rightarrow> Inl (InvalidType ''username is invalid''))"

definition validate_password :: "jsval \<Rightarrow> cred_error + jsstr" where
  "validate_password v =
     (case v of
        JStr s \<Rightarrow>
          if byte_length s > MAX_SSO_PASSWORD_BYTES then Inl (LimitExceeded ''password'' MAX_SSO_PASSWORD_BYTES) else Inr s
      | _ \<Rightarrow> Inl (InvalidType ''password is invalid''))"

definition validate_encrypted_secret :: "jsval \<Rightarrow> cred_error + jsstr" where
  "validate_encrypted_secret v =
     (case v of
        JStr s \<Rightarrow>
          if byte_length s > (MAX_ENCRYPTED_SECRET_BYTES + 2) div 3 * 4 \<or> length (from_base64 s) > MAX_ENCRYPTED_SECRET_BYTES
          then Inl (LimitExceeded ''encrypted credential'' MAX_ENCRYPTED_SECRET_BYTES)
          else Inr s
      | _ \<Rightarrow> Inl (InvalidType ''encrypted credential is invalid''))"

section \<open>The store\<close>

record keyring =
  encrypt :: "jsstr \<Rightarrow> byte list option"
  decrypt :: "byte list \<Rightarrow> jsstr option"

text \<open>The selected backend: no such function, a function that throws, or its answer.\<close>

datatype backend = NoBackendQuery | BackendThrows | Backend string

record secrets =
  ssoUsername :: jsstr
  ssoPassword :: jsstr
  savedCookie :: jsstr

datatype secret_patch = SetUsername jsstr | SetPassword jsstr | SetCookie jsstr

datatype commit_result = Committed bool string | NotCommitted string | CommitUnknown bool string

record cred =
  stored :: secrets
  ephemeralCookie :: jsstr
  cookieRevoked :: bool
  os_available :: "bool option"
  os_backend :: backend
  on_linux :: bool
  commits :: "commit_result list"
  cred_warnings :: "string list"

definition encryption_available :: "cred \<Rightarrow> bool" where
  "encryption_available s =
     (case os_available s of
        None \<Rightarrow> False
      | Some False \<Rightarrow> False
      | Some True \<Rightarrow>
          if on_linux s then
            (case os_backend s of NoBackendQuery \<Rightarrow> True | BackendThrows \<Rightarrow> False
             | Backend b \<Rightarrow> b \<noteq> ''basic_text'' \<and> b \<noteq> ''unknown'')
          else True)"

definition seal :: "keyring \<Rightarrow> jsval \<Rightarrow> cred \<Rightarrow> cred_error + jsstr" where
  "seal k v s =
     (if \<not> encryption_available s then Inl StorageUnavailable
      else case v of
        JStr t \<Rightarrow>
          (case encrypt k t of
             None \<Rightarrow> Inl KeyringFailed
           | Some c \<Rightarrow>
               if length c > MAX_ENCRYPTED_SECRET_BYTES
               then Inl (LimitExceeded ''encrypted credential'' MAX_ENCRYPTED_SECRET_BYTES)
               else Inr (b64_encode c))
      | _ \<Rightarrow> Inl (InvalidType ''secret must be a string''))"

definition unseal :: "keyring \<Rightarrow> jsstr \<Rightarrow> cred \<Rightarrow> cred_error + jsstr" where
  "unseal k w s =
     bindR (validate_encrypted_secret (JStr w)) (\<lambda>_.
       if \<not> encryption_available s then Inl StorageUnavailable
       else if w = [] \<or> length w mod 4 \<noteq> 0 \<or> dropWhile is_b64 w \<notin> {[], [61], [61, 61]}
         then Inl (InvalidType ''encrypted credential is invalid'')
       else case decrypt k (from_base64 w) of None \<Rightarrow> Inl KeyringFailed | Some v \<Rightarrow> Inr v)"

fun apply_secret :: "secrets \<Rightarrow> secret_patch \<Rightarrow> secrets" where
  "apply_secret x (SetUsername u) = x\<lparr>ssoUsername := u\<rparr>"
| "apply_secret x (SetPassword p) = x\<lparr>ssoPassword := p\<rparr>"
| "apply_secret x (SetCookie c) = x\<lparr>savedCookie := c\<rparr>"

text \<open>An exhausted script is a failed commit.\<close>

definition next_commit :: "cred \<Rightarrow> commit_result \<times> cred" where
  "next_commit s = (case commits s of [] \<Rightarrow> (NotCommitted '''', s) | c # cs \<Rightarrow> (c, s\<lparr>commits := cs\<rparr>))"

definition persistence_error :: "string \<Rightarrow> cred_error" where
  "persistence_error code = Persistence (if code = [] then ''SETTINGS_SAVE_FAILED'' else code)"

definition commit :: "secret_patch list \<Rightarrow> (cred, cred_error, unit) act" where
  "commit patch s =
     (let ps = (if cookieRevoked s then patch @ [SetCookie []] else patch) in
      case next_commit s of
        (Committed durable code, t) \<Rightarrow>
          (if durable then Inr () else Inl (persistence_error ''''), t\<lparr>stored := foldl apply_secret (stored t) ps\<rparr>)
      | (NotCommitted code, t) \<Rightarrow> (Inl (persistence_error code), t)
      | (CommitUnknown applied code, t) \<Rightarrow>
          (Inl (persistence_error code), if applied then t\<lparr>stored := foldl apply_secret (stored t) ps\<rparr> else t))"

definition warn :: "string \<Rightarrow> cred \<Rightarrow> cred" where
  "warn w s = s\<lparr>cred_warnings := cred_warnings s @ [w]\<rparr>"

definition restore_ephemeral :: "jsval \<Rightarrow> (cred, cred_error, unit) act" where
  "restore_ephemeral v = bindM (liftR (validate_cookie v)) (\<lambda>c. modifyM (\<lambda>s. s\<lparr>ephemeralCookie := c, cookieRevoked := False\<rparr>))"

definition get_cookie :: "keyring \<Rightarrow> cred \<Rightarrow> jsstr \<times> cred" where
  "get_cookie k s =
     (if cookieRevoked s then ([], s)
      else if ephemeralCookie s \<noteq> [] then (ephemeralCookie s, s)
      else if savedCookie (stored s) = [] then ([], s)
      else case bindR (unseal k (savedCookie (stored s)) s) (\<lambda>v. validate_cookie (JStr v)) of
        Inr v \<Rightarrow> (v, s)
      | Inl _ \<Rightarrow> ([], warn ''Saved Cookie could not be decrypted'' s))"

definition clear_cookie :: "(cred, cred_error, bool) act" where
  "clear_cookie =
     bindM (modifyM (\<lambda>s. s\<lparr>cookieRevoked := True, ephemeralCookie := []\<rparr>)) (\<lambda>_.
     bindM (commit [SetCookie []]) (\<lambda>_. retM True))"

definition save_cookie :: "keyring \<Rightarrow> jsval \<Rightarrow> (cred, cred_error, bool) act" where
  "save_cookie k v =
     (if v = JStr [] then clear_cookie
      else
        bindM (liftR (validate_cookie v)) (\<lambda>cookie.
        bindM getM (\<lambda>s.
        bindM (if encryption_available s then liftR (seal k v s) else retM []) (\<lambda>encrypted.
        bindM (commit [SetCookie encrypted]) (\<lambda>_.
        bindM (modifyM (\<lambda>s. s\<lparr>ephemeralCookie := cookie, cookieRevoked := False\<rparr>)) (\<lambda>_.
        retM (encrypted \<noteq> [])))))))"

record sso_status =
  status_username :: jsstr
  status_password :: bool
  status_storage :: bool

definition get_sso_status :: "cred \<Rightarrow> sso_status" where
  "get_sso_status s =
     \<lparr>status_username = (case normalize_username (JStr (ssoUsername (stored s))) of Inr u \<Rightarrow> u | Inl _ \<Rightarrow> []),
      status_password = ssoPassword (stored s) \<noteq> [], status_storage = encryption_available s\<rparr>"

definition get_sso_password :: "keyring \<Rightarrow> cred \<Rightarrow> jsstr \<times> cred" where
  "get_sso_password k s =
     (let password = ssoPassword (stored s) in
      if password = [] \<or> starts_with password (js ''xor:'') then ([], s)
      else case bindR (unseal k password s) (\<lambda>v. validate_password (JStr v)) of
        Inr v \<Rightarrow> (v, s)
      | Inl _ \<Rightarrow> ([], warn ''SSO password could not be decrypted'' s))"

definition truthy_text :: "jsval \<Rightarrow> bool" where
  "truthy_text v \<longleftrightarrow> v \<noteq> JStr []"

definition save_sso :: "keyring \<Rightarrow> jsval \<Rightarrow> jsval \<Rightarrow> bool \<Rightarrow> (cred, cred_error, sso_status) act" where
  "save_sso k username password clearPassword =
     bindM (liftR (normalize_username username)) (\<lambda>u.
     bindM (if password = JUndef then retM [] else liftR (validate_password password)) (\<lambda>_.
     bindM getM (\<lambda>s.
     bindM (if clearPassword then retM [SetPassword []]
            else if password \<noteq> JUndef \<and> truthy_text password then
              bindM (liftR (seal k password s)) (\<lambda>w. retM [SetPassword w])
            else retM []) (\<lambda>ps.
     bindM (commit (SetUsername u # ps)) (\<lambda>_. readM get_sso_status)))))"

definition clear_sso :: "(cred, cred_error, sso_status) act" where
  "clear_sso = bindM (commit [SetUsername [], SetPassword []]) (\<lambda>_. readM get_sso_status)"

section \<open>Legacy secrets\<close>

fun xor_with :: "byte list \<Rightarrow> nat \<Rightarrow> byte list \<Rightarrow> byte list" where
  "xor_with key i [] = []"
| "xor_with key i (b # bs) = (xor b (key ! (i mod length key))) # xor_with key (Suc i) bs"

text \<open>\<open>raw\<close> is the parsed settings file of an earlier release; \<open>key\<close> is the MD5 digest of
  \<open>userDataPath\<close>, a parameter.  The policy store only tells whether the key ring is available.\<close>

definition legacy_default :: "jsval \<Rightarrow> jsval" where
  "legacy_default v = (if nullish v then JStr [] else v)"

definition migrate_password :: "keyring \<Rightarrow> byte list \<Rightarrow> jsval \<Rightarrow> (cred, cred_error, jsstr) act" where
  "migrate_password k key password =
     (case password of
        JStr p \<Rightarrow>
          if starts_with p (js ''xor:'') then
            bindM (liftR (validate_encrypted_secret (JStr (drop 4 p)))) (\<lambda>_.
            bindM (liftR (validate_password (JStr (utf8_lossy (xor_with key 0 (from_base64 (drop 4 p))))))) (\<lambda>plain.
            bindM getM (\<lambda>s.
              if encryption_available s then liftR (seal k (JStr plain) s)
              else bindM (modifyM (warn ''Removed a legacy-obfuscated SSO password because OS encryption is unavailable''))
                     (\<lambda>_. retM []))))
          else liftR (validate_encrypted_secret password)
      | _ \<Rightarrow> throwM (InvalidType ''password is invalid''))"

definition has_prop :: "jsval \<Rightarrow> jsstr \<Rightarrow> bool" where
  "has_prop v k = (case v of JObj _ ps \<Rightarrow> k \<in> set (map fst ps) | _ \<Rightarrow> False)"

definition migrate_cookie :: "keyring \<Rightarrow> jsval \<Rightarrow> jsstr \<Rightarrow> (cred, cred_error, jsstr \<times> jsstr) act" where
  "migrate_cookie k raw saved =
     (if saved = [] \<and> has_prop raw (js ''savedCookie'') then
        bindM (liftR (validate_cookie (getProp raw (js ''savedCookie'')))) (\<lambda>cookie.
        bindM getM (\<lambda>s.
          if encryption_available s then bindM (liftR (seal k (JStr cookie) s)) (\<lambda>w. retM (w, cookie))
          else bindM (modifyM (warn ''Removed a plaintext saved Cookie because OS encryption is unavailable''))
                 (\<lambda>_. retM (saved, cookie))))
      else retM (saved, []))"

definition migrate_legacy_secrets :: "keyring \<Rightarrow> byte list \<Rightarrow> jsval \<Rightarrow> (cred, cred_error, secrets \<times> jsstr) act" where
  "migrate_legacy_secrets k key raw =
     bindM (liftR (normalize_username (legacy_default (getProp raw (js ''ssoUsername''))))) (\<lambda>u.
     bindM (liftR (validate_encrypted_secret (legacy_default (getProp raw (js ''savedCookieEncrypted''))))) (\<lambda>saved.
     bindM (migrate_password k key (legacy_default (getProp raw (js ''ssoPassword'')))) (\<lambda>p.
     bindM (migrate_cookie k raw saved) (\<lambda>(w, cookie).
     retM (\<lparr>ssoUsername = u, ssoPassword = p, savedCookie = w\<rparr>, cookie)))))"

section \<open>Runs\<close>

datatype cred_call =
    Restore jsval
  | GetCookie
  | SaveCookie jsval
  | ClearCookie
  | GetPassword
  | SaveSso jsval jsval bool
  | ClearSso
  | KeyringChange "bool option" backend

fun cred_step :: "keyring \<Rightarrow> cred \<Rightarrow> cred_call \<Rightarrow> cred" where
  "cred_step k s (Restore v) = snd (restore_ephemeral v s)"
| "cred_step k s GetCookie = snd (get_cookie k s)"
| "cred_step k s (SaveCookie v) = snd (save_cookie k v s)"
| "cred_step k s ClearCookie = snd (clear_cookie s)"
| "cred_step k s GetPassword = snd (get_sso_password k s)"
| "cred_step k s (SaveSso u p c) = snd (save_sso k u p c s)"
| "cred_step k s ClearSso = snd (clear_sso s)"
| "cred_step k s (KeyringChange a b) = s\<lparr>os_available := a, os_backend := b\<rparr>"

text \<open>A call that gives the store a cookie again: a save or a restore that returned.\<close>

definition grants :: "keyring \<Rightarrow> cred \<Rightarrow> cred_call \<Rightarrow> bool" where
  "grants k s c =
     (case c of
        Restore v \<Rightarrow> (case fst (restore_ephemeral v s) of Inr _ \<Rightarrow> True | Inl _ \<Rightarrow> False)
      | SaveCookie v \<Rightarrow> v \<noteq> JStr [] \<and> (case fst (save_cookie k v s) of Inr _ \<Rightarrow> True | Inl _ \<Rightarrow> False)
      | _ \<Rightarrow> False)"

fun ungranted :: "keyring \<Rightarrow> cred \<Rightarrow> cred_call list \<Rightarrow> bool" where
  "ungranted k s [] = True"
| "ungranted k s (c # cs) = (\<not> grants k s c \<and> ungranted k (cred_step k s c) cs)"

section \<open>Sealing\<close>

text \<open>What the documentation of the key ring promises: a ciphertext is a nonempty string of bytes
  that decrypts to the text it was made of.\<close>

definition keyring_ok :: "keyring \<Rightarrow> bool" where
  "keyring_ok k \<longleftrightarrow> (\<forall>v c. encrypt k v = Some c \<longrightarrow> c \<noteq> [] \<and> (\<forall>b\<in>set c. b < 256) \<and> decrypt k c = Some v)"

lemma b64_encode_bytes: "\<forall>b\<in>set bs. b < 256 \<Longrightarrow> byte_length (b64_encode bs) = length (b64_encode bs)"
proof -
  assume b: "\<forall>b\<in>set bs. b < 256"
  have "\<forall>u\<in>set (b64_encode bs). u < 128"
  proof
    fix u assume u: "u \<in> set (b64_encode bs)"
    have "u \<in> set (takeWhile is_b64 (b64_encode bs)) \<or> u \<in> set (dropWhile is_b64 (b64_encode bs))"
      using u by (metis UnE set_append takeWhile_dropWhile_id)
    then show "u < 128"
    proof
      assume "u \<in> set (takeWhile is_b64 (b64_encode bs))"
      then have "is_b64 u" by (auto dest: set_takeWhileD)
      then show ?thesis by (auto simp: is_b64_def is_alnum_def is_alpha_def is_digit_def)
    next
      assume "u \<in> set (dropWhile is_b64 (b64_encode bs))"
      then show ?thesis using base64_padding [OF b] by (auto simp del: dropWhile_eq_Nil_conv)
    qed
  qed
  then show ?thesis by (simp add: byte_length_def utf8_ascii)
qed

text \<open>What the store seals it unseals, whatever the key ring's ciphertext, as long as the key ring
  is available: the base64 text passes every check of \<open>unseal\<close>.\<close>

theorem secret_roundtrip:
  assumes "keyring_ok k" and "seal k (JStr v) s = Inr w"
  shows "unseal k w s = Inr v"
proof -
  obtain c where c: "encryption_available s" "encrypt k v = Some c" "length c \<le> MAX_ENCRYPTED_SECRET_BYTES" "w = b64_encode c"
    using assms(2) by (auto simp: seal_def split: if_splits option.splits)
  have k: "c \<noteq> []" "\<forall>b\<in>set c. b < 256" "decrypt k c = Some v" using assms(1) c(2) by (auto simp: keyring_ok_def)
  have w: "from_base64 w = c" "length w mod 4 = 0" "dropWhile is_b64 w \<in> {[], [61], [61, 61]}"
    using k(2) c(4) from_base64_roundtrip from_base64_mod4 base64_padding by auto
  have "w \<noteq> []" using k(1) c(4) base64_size [of c] by (cases c) auto
  moreover have "byte_length w \<le> (MAX_ENCRYPTED_SECRET_BYTES + 2) div 3 * 4"
    using c(3) unfolding c(4) b64_encode_bytes [OF k(2)] base64_size by (intro mult_right_mono div_le_mono) auto
  ultimately show ?thesis
    using c(1,3) w k(3) by (simp add: unseal_def validate_encrypted_secret_def bindR_def not_less)
qed

section \<open>What is stored\<close>

definition sealed_text :: "keyring \<Rightarrow> jsstr \<Rightarrow> bool" where
  "sealed_text k w \<longleftrightarrow> w = [] \<or> (\<exists>v c. encrypt k v = Some c \<and> w = b64_encode c)"

definition only_sealed :: "keyring \<Rightarrow> cred \<Rightarrow> bool" where
  "only_sealed k s \<longleftrightarrow> sealed_text k (ssoPassword (stored s)) \<and> sealed_text k (savedCookie (stored s))"

fun sealed_patch :: "keyring \<Rightarrow> secret_patch \<Rightarrow> bool" where
  "sealed_patch k (SetUsername _) = True"
| "sealed_patch k (SetPassword w) = sealed_text k w"
| "sealed_patch k (SetCookie w) = sealed_text k w"

lemma seal_sealed: "seal k v s = Inr w \<Longrightarrow> sealed_text k w"
  by (auto simp: seal_def sealed_text_def split: if_splits option.splits jsval.splits)

lemma sealed_empty [simp]: "sealed_text k []"
  by (simp add: sealed_text_def)

lemma apply_sealed:
  assumes "\<forall>p\<in>set ps. sealed_patch k p" "sealed_text k (ssoPassword x)" "sealed_text k (savedCookie x)"
  shows "sealed_text k (ssoPassword (foldl apply_secret x ps)) \<and> sealed_text k (savedCookie (foldl apply_secret x ps))"
  using assms
proof (induction ps arbitrary: x)
  case (Cons p ps)
  show ?case using Cons.prems by (cases p) (simp_all add: Cons.IH)
qed simp

lemma next_commit_fields: "next_commit s = (c, t) \<Longrightarrow> stored t = stored s \<and> cookieRevoked t = cookieRevoked s"
  by (auto simp: next_commit_def split: list.splits)

lemma commit_sealed: "\<forall>p\<in>set ps. sealed_patch k p \<Longrightarrow> keeps (only_sealed k) (commit ps)"
proof (rule keepsI)
  fix s assume ps: "\<forall>p\<in>set ps. sealed_patch k p" and s: "only_sealed k s"
  obtain c t where n: "next_commit s = (c, t)" by fastforce
  have "\<forall>p\<in>set (if cookieRevoked s then ps @ [SetCookie []] else ps). sealed_patch k p" using ps by auto
  from apply_sealed [OF this] show "only_sealed k (snd (commit ps s))"
    using s next_commit_fields [OF n] unfolding only_sealed_def commit_def n by (cases c) (simp_all add: Let_def)
qed

lemma only_sealed_modify: "(\<And>s. stored (f s) = stored s) \<Longrightarrow> keeps (only_sealed k) (modifyM f)"
  by (rule keeps_modify) (simp add: only_sealed_def)

lemma clear_cookie_sealed: "keeps (only_sealed k) clear_cookie"
  unfolding clear_cookie_def by (intro act_rules only_sealed_modify commit_sealed) auto

lemma keeps_sealing: "(\<And>w. seal k v s = Inr w \<Longrightarrow> keeps P (f w)) \<Longrightarrow> keeps P (bindM (liftR (seal k v s)) f)"
  by (auto simp: keeps_def bindM_def liftR_def split: sum.splits)

lemma keeps_bind_result:
  "keeps P m \<Longrightarrow> (\<And>s a t. m s = (Inr a, t) \<Longrightarrow> R a) \<Longrightarrow> (\<And>a. R a \<Longrightarrow> keeps P (f a)) \<Longrightarrow> keeps P (bindM m f)"
  unfolding keeps_def bindM_def by (fastforce split: prod.splits sum.splits)

lemma save_cookie_sealed: "keeps (only_sealed k) (save_cookie k v)"
proof -
  have rest: "keeps (only_sealed k) (bindM (commit [SetCookie w]) (\<lambda>_.
      bindM (modifyM (\<lambda>s. s\<lparr>ephemeralCookie := c, cookieRevoked := False\<rparr>)) (\<lambda>_. retM (w \<noteq> []))))"
    if "sealed_text k w" for w c
    using that by (intro act_rules only_sealed_modify commit_sealed) auto
  show ?thesis
    unfolding save_cookie_def
    by (intro keeps_if clear_cookie_sealed keeps_bind [OF keeps_lift] keeps_bind [OF keeps_get]
        keeps_bind_result [where R = "sealed_text k", OF _ _ rest] keeps_ret keeps_lift)
      (auto simp: liftR_def retM_def split: if_splits dest: seal_sealed)
qed

lemma save_sso_sealed: "keeps (only_sealed k) (save_sso k u p c)"
proof -
  have rest: "keeps (only_sealed k) (bindM (commit (SetUsername n # ps)) (\<lambda>_. readM get_sso_status))"
    if "\<forall>q\<in>set ps. sealed_patch k q" for n ps
    using that by (intro act_rules commit_sealed) auto
  show ?thesis
    unfolding save_sso_def
    by (intro keeps_bind [OF keeps_lift] keeps_bind [OF keeps_get] keeps_bind [OF keeps_if [OF keeps_ret keeps_lift]]
        keeps_bind_result [where R = "\<lambda>ps. \<forall>q\<in>set ps. sealed_patch k q", OF _ _ rest] keeps_if keeps_ret keeps_bind keeps_lift)
      (auto simp: liftR_def retM_def bindM_def split: if_splits sum.splits dest: seal_sealed)
qed

lemma step_sealed: "only_sealed k s \<Longrightarrow> only_sealed k (cred_step k s c)"
proof (cases c)
  case (Restore v)
  have "keeps (only_sealed k) (restore_ephemeral v)"
    unfolding restore_ephemeral_def by (intro act_rules only_sealed_modify) simp
  moreover assume "only_sealed k s"
  ultimately show ?thesis using Restore by (simp add: keepsD)
next
  case ClearSso
  have "keeps (only_sealed k) clear_sso"
    unfolding clear_sso_def by (intro act_rules commit_sealed) auto
  moreover assume "only_sealed k s"
  ultimately show ?thesis using ClearSso by (simp add: keepsD)
next
  case GetCookie
  moreover assume "only_sealed k s"
  ultimately show ?thesis by (auto simp: only_sealed_def get_cookie_def warn_def split: sum.splits)
next
  case GetPassword
  moreover assume "only_sealed k s"
  ultimately show ?thesis by (auto simp: only_sealed_def get_sso_password_def warn_def Let_def split: sum.splits)
next
  case (KeyringChange a b)
  moreover assume "only_sealed k s"
  ultimately show ?thesis by (simp add: only_sealed_def)
qed (simp_all add: keepsD [OF save_cookie_sealed] keepsD [OF save_sso_sealed] keepsD [OF clear_cookie_sealed])

interpretation credentials: event_machine "cred_step k" "only_sealed k"
  by unfold_locales (rule step_sealed)

text \<open>Claim C16: no secret reaches the settings in the clear: whatever calls are made, in whatever order,
  while the key ring comes and goes and commits fail, the stored password and Cookie are empty or the
  base64 text of a ciphertext of the key ring.\<close>

theorem secrets_stored_sealed:
  assumes "ssoPassword (stored s) = []" and "savedCookie (stored s) = []" and "t = foldl (cred_step k) s cs"
    and "w = ssoPassword (stored t) \<or> w = savedCookie (stored t)" and "w \<noteq> []"
  shows "\<exists>v c. encrypt k v = Some c \<and> w = b64_encode c"
proof -
  have "only_sealed k t" unfolding assms(3) by (rule credentials.inv_run) (simp add: only_sealed_def assms(1,2))
  then show ?thesis using assms(4,5) by (auto simp: only_sealed_def sealed_text_def)
qed

section \<open>Revocation\<close>

definition revoked :: "cred \<Rightarrow> bool" where
  "revoked s \<longleftrightarrow> cookieRevoked s \<and> ephemeralCookie s = []"

lemma commit_revoked:
  assumes "cookieRevoked s" "commit ps s = (r, t)"
  shows "cookieRevoked t \<and> ephemeralCookie t = ephemeralCookie s
    \<and> (savedCookie (stored t) = savedCookie (stored s) \<or> savedCookie (stored t) = [])"
proof -
  obtain c u where n: "next_commit s = (c, u)" by fastforce
  have u: "stored u = stored s" "cookieRevoked u = cookieRevoked s" "ephemeralCookie u = ephemeralCookie s"
    using n by (auto simp: next_commit_def split: list.splits)
  have e: "savedCookie (foldl apply_secret x (ps @ [SetCookie []])) = []" for x by simp
  have "t = u \<or> t = u\<lparr>stored := foldl apply_secret (stored u) (ps @ [SetCookie []])\<rparr>"
    using assms by (cases c) (simp_all add: commit_def n del: foldl_append split: if_splits)
  then show ?thesis
  proof
    assume "t = u"
    then show ?thesis using u assms(1) by simp
  next
    assume "t = u\<lparr>stored := foldl apply_secret (stored u) (ps @ [SetCookie []])\<rparr>"
    then show ?thesis using u(2,3) assms(1) e by (simp del: foldl_append)
  qed
qed

lemma keeps_revoked_commit: "keeps revoked (commit ps)"
proof (rule keepsI)
  fix s assume s: "revoked s"
  obtain r t where "commit ps s = (r, t)" by fastforce
  then show "revoked (snd (commit ps s))" using commit_revoked [of s ps r t] s by (simp add: revoked_def)
qed

lemma step_revoked: "revoked s \<Longrightarrow> \<not> grants k s c \<Longrightarrow> revoked (cred_step k s c)"
proof (cases c)
  case (Restore v)
  assume "revoked s" "\<not> grants k s c"
  then show ?thesis using Restore
    by (auto simp: grants_def restore_ephemeral_def bindM_def liftR_def modifyM_def split: sum.splits)
next
  case (SaveCookie v)
  assume s: "revoked s" and g: "\<not> grants k s c"
  show ?thesis
  proof (cases "v = JStr []")
    case True
    have "keeps revoked clear_cookie"
      unfolding clear_cookie_def by (intro act_rules keeps_revoked_commit keeps_modify) (simp add: revoked_def)
    then show ?thesis using s SaveCookie True by (simp add: keepsD save_cookie_def)
  next
    case False
    obtain e t where r: "save_cookie k v s = (Inl e, t)"
      using g SaveCookie False by (cases "save_cookie k v s") (auto simp: grants_def split: sum.splits)
    have "t = s \<or> (\<exists>w. t = snd (commit [SetCookie w] s))"
      using r False
      by (auto simp: save_cookie_def bindM_def liftR_def getM_def retM_def modifyM_def split: sum.splits if_splits prod.splits)
        (metis snd_conv)+
    then show ?thesis using s r SaveCookie keepsD [OF keeps_revoked_commit] by auto
  qed
next
  case ClearCookie
  assume s: "revoked s"
  have "keeps revoked clear_cookie"
    unfolding clear_cookie_def by (intro act_rules keeps_revoked_commit keeps_modify) (simp add: revoked_def)
  then show ?thesis using s ClearCookie by (simp add: keepsD)
next
  case (SaveSso u p b)
  assume s: "revoked s"
  have "keeps revoked (save_sso k u p b)"
    unfolding save_sso_def by (intro act_rules keeps_revoked_commit)
  then show ?thesis using s SaveSso by (simp add: keepsD)
next
  case ClearSso
  assume s: "revoked s"
  have "keeps revoked clear_sso"
    unfolding clear_sso_def by (intro act_rules keeps_revoked_commit)
  then show ?thesis using s ClearSso by (simp add: keepsD)
qed (auto simp: revoked_def get_cookie_def get_sso_password_def warn_def Let_def split: sum.splits)

lemma run_revoked: "revoked s \<Longrightarrow> ungranted k s cs \<Longrightarrow> revoked (foldl (cred_step k) s cs)"
  by (induction cs arbitrary: s) (auto intro: step_revoked)

lemma revoked_no_cookie: "revoked s \<Longrightarrow> fst (get_cookie k s) = []"
  by (simp add: get_cookie_def revoked_def)

lemma clear_cookie_revokes: "revoked (snd (clear_cookie s))"
proof -
  have "snd (clear_cookie s) = snd (commit [SetCookie []] (s\<lparr>cookieRevoked := True, ephemeralCookie := []\<rparr>))"
    by (auto simp: clear_cookie_def bindM_def modifyM_def retM_def split: prod.splits sum.splits)
  then show ?thesis
    using keepsD [OF keeps_revoked_commit, of "s\<lparr>cookieRevoked := True, ephemeralCookie := []\<rparr>"] by (simp add: revoked_def)
qed

section \<open>The login state\<close>

text \<open>\<open>createAuthStateController\<close> with the credential store as its \<open>clearStoredCookie\<close>.  The calls of its
  other collaborators are logged.\<close>

datatype auth_effect = QueriesInvalidated | Published string | StateChanged | ClearFailed cred_error

record auth =
  login_status :: string
  login_stage :: "string option"
  cookie_valid :: bool
  cookie_count :: nat
  captured_cookie :: jsstr
  credentials :: cred
  effects :: "auth_effect list"

definition LOGIN_STATUSES :: "string list" where
  "LOGIN_STATUSES = [''idle'', ''pending'', ''sso_done'', ''success'', ''failure'']"

definition deactivate :: "string \<Rightarrow> (auth, string, unit) act" where
  "deactivate status =
     bindM (guardM (status \<in> set LOGIN_STATUSES \<and> status \<noteq> ''success'') ''invalid authentication status'') (\<lambda>_.
     modifyM (\<lambda>s. s\<lparr>login_status := status, login_stage := None, cookie_valid := False, cookie_count := 0,
       captured_cookie := [], effects := effects s @ [QueriesInvalidated, Published status, StateChanged]\<rparr>))"

definition invalidate :: "string \<Rightarrow> (auth, string, bool) act" where
  "invalidate status =
     bindM (deactivate status) (\<lambda>_ s.
       case clear_cookie (credentials s) of
         (Inr _, c) \<Rightarrow> (Inr True, s\<lparr>credentials := c\<rparr>)
       | (Inl e, c) \<Rightarrow> (Inr False, s\<lparr>credentials := c, effects := effects s @ [ClearFailed e]\<rparr>))"

definition can_start_proxy :: "auth \<Rightarrow> bool" where
  "can_start_proxy s \<longleftrightarrow> login_status s = ''success'' \<and> cookie_valid s"

definition expire_cookie :: "(auth, string, bool) act" where
  "expire_cookie s = invalidate (if login_status s = ''success'' then ''failure'' else login_status s) s"

text \<open>Claim C17: revoking an authorization takes effect in memory first: when \<open>invalidate\<close> returns, whether or
  not the stored Cookie could be erased, the proxy cannot be started, the captured Cookie is gone, and
  the credential store answers no Cookie after any further calls until one of them saves or restores
  a Cookie successfully.\<close>

theorem revocation_memory_first:
  assumes "invalidate status s = (Inr erased, t)" and "ungranted k (credentials t) cs"
  shows "\<not> can_start_proxy t \<and> captured_cookie t = []
    \<and> fst (get_cookie k (foldl (cred_step k) (credentials t) cs)) = []
    \<and> (erased \<longrightarrow> savedCookie (stored (credentials t)) = [])"
proof -
  obtain u where u: "deactivate status s = (Inr (), u)"
    using assms(1) by (auto simp: invalidate_def bindM_Inr_iff)
  then have
      inv: "(case clear_cookie (credentials u) of (Inr _, c) \<Rightarrow> (Inr True, u\<lparr>credentials := c\<rparr>)
       | (Inl e, c) \<Rightarrow> (Inr False, u\<lparr>credentials := c, effects := effects u @ [ClearFailed e]\<rparr>)) = ((Inr erased :: string + bool), t)"
    using assms(1) by (simp add: invalidate_def bindM_def)
  have st: "login_status u \<noteq> ''success''" "captured_cookie u = []"
    using u by (auto simp: deactivate_def bindM_def guardM_def retM_def throwM_def modifyM_def split: if_splits)
  obtain r c where cc: "clear_cookie (credentials u) = (r, c)" by fastforce
  then have t: "credentials t = c" "login_status t = login_status u" "captured_cookie t = captured_cookie u"
    using inv by (auto split: sum.splits)
  have "revoked (credentials t)" using clear_cookie_revokes [of "credentials u"] by (simp add: t cc)
  then have "fst (get_cookie k (foldl (cred_step k) (credentials t) cs)) = []"
    by (intro revoked_no_cookie run_revoked assms(2))
  moreover have "savedCookie (stored c) = []" if er: erased
  proof -
    obtain b where "r = Inr b" using inv er cc by (cases r) auto
    then show ?thesis using cc
      by (auto simp: clear_cookie_def bindM_def modifyM_def retM_def commit_def Let_def next_commit_def
          split: prod.splits sum.splits list.splits commit_result.splits if_splits)
  qed
  ultimately show ?thesis using st by (simp add: t can_start_proxy_def)
qed

section \<open>Witnesses\<close>

definition demo_keyring :: keyring where
  "demo_keyring = \<lparr>encrypt = (\<lambda>v. if list_all (\<lambda>u. u < 128) v then Some (7 # map (\<lambda>u. u + 1) v) else None),
     decrypt = (\<lambda>c. Some (map (\<lambda>u. u - 1) (tl c)))\<rparr>"

definition demo_cred :: cred where
  "demo_cred = \<lparr>stored = \<lparr>ssoUsername = [], ssoPassword = [], savedCookie = []\<rparr>, ephemeralCookie = [], cookieRevoked = False,
     os_available = Some True, os_backend = Backend ''gnome_libsecret'', on_linux = True,
     commits = [Committed True [], NotCommitted ''SETTINGS_LOCKED'', Committed True []], cred_warnings = []\<rparr>"

lemma demo_keyring_ok: "keyring_ok demo_keyring"
  by (auto simp: keyring_ok_def demo_keyring_def list_all_iff comp_def split: if_splits)

lemma secret_roundtrip_witness:
  "unseal demo_keyring (b64_encode (7 # map Suc (js ''secret''))) demo_cred = Inr (js ''secret'')"
proof -
  have "seal demo_keyring (JStr (js ''secret'')) demo_cred = Inr (b64_encode (7 # map Suc (js ''secret'')))"
    by code_simp
  then show ?thesis by (rule secret_roundtrip [OF demo_keyring_ok])
qed

definition demo_saved :: cred where
  "demo_saved = foldl (cred_step demo_keyring) demo_cred [SaveCookie (JStr (js ''token''))]"

lemma demo_saved_cookie: "savedCookie (stored demo_saved) \<noteq> []" "fst (get_cookie demo_keyring demo_saved) = js ''token''"
  by code_simp+

lemma secrets_stored_sealed_witness:
  "\<exists>v c. encrypt demo_keyring v = Some c \<and> savedCookie (stored demo_saved) = b64_encode c"
proof (rule secrets_stored_sealed [OF _ _ demo_saved_def _ demo_saved_cookie(1)])
  show "ssoPassword (stored demo_cred) = []" "savedCookie (stored demo_cred) = []" by (simp_all add: demo_cred_def)
qed simp

definition demo_auth :: auth where
  "demo_auth = \<lparr>login_status = ''success'', login_stage = None, cookie_valid = True, cookie_count = 3,
     captured_cookie = js ''token'', credentials = demo_saved, effects = []\<rparr>"

lemma revocation_memory_first_witness:
  "can_start_proxy demo_auth \<and> \<not> can_start_proxy (snd (invalidate ''failure'' demo_auth))
   \<and> fst (get_cookie demo_keyring (foldl (cred_step demo_keyring) (credentials (snd (invalidate ''failure'' demo_auth))) [GetCookie, ClearSso])) = []"
proof -
  have r: "invalidate ''failure'' demo_auth = (Inr False, snd (invalidate ''failure'' demo_auth))" by code_simp
  have u: "ungranted demo_keyring (credentials (snd (invalidate ''failure'' demo_auth))) [GetCookie, ClearSso]" by code_simp
  have "can_start_proxy demo_auth" by code_simp
  then show ?thesis using revocation_memory_first [OF r u] by simp
qed

end
