(* ===== verification/SettingsDocument.thy ===== *)
theory SettingsDocument
  imports SettingsSchema Credentials Json
begin

text \<open>
  The settings document of \<^verbatim>\<open>electron/settings-store.js\<close>: what \<open>validateRoot\<close> accepts.  A check that
  throws returns \<open>Inl\<close> of the error's code; an error without a code has the empty code.  Property
  keys of an object are distinct, as they are in JavaScript.
\<close>

definition MAX_SETTINGS_FILE_BYTES :: nat where
  "MAX_SETTINGS_FILE_BYTES = 1024 * 1024"

definition MAX_PROFILES :: nat where
  "MAX_PROFILES = 8"

definition PUBLIC_SETTING_KEYS :: "jsstr list" where
  "PUBLIC_SETTING_KEYS = PROFILE_SETTING_KEYS @ APP_SETTING_KEYS"

definition ROOT_KEYS :: "jsstr list" where
  "ROOT_KEYS = [js ''schemaVersion'', js ''activeProfileId'', js ''app'', js ''profiles'', js ''keys'', js ''keyTransaction'']"

definition SECRET_KEYS :: "jsstr list" where
  "SECRET_KEYS = [js ''ssoUsername'', js ''ssoPassword'', js ''savedCookieEncrypted'']"

type_synonym check = "string + unit"

definition require :: "bool \<Rightarrow> string \<Rightarrow> check" where
  "require b code = (if b then Inr () else Inl code)"

lemma require_Inr [simp]: "require b code = Inr u \<longleftrightarrow> b"
  by (simp add: require_def)

definition also_check :: "check \<Rightarrow> check \<Rightarrow> check" where
  "also_check a b = bindR a (\<lambda>_. b)"

lemma also_check_Inr [simp]: "also_check a b = Inr u \<longleftrightarrow> a = Inr () \<and> b = Inr ()"
  by (auto simp: also_check_def)

fun checks :: "check list \<Rightarrow> check" where
  "checks [] = Inr ()"
| "checks (c # cs) = also_check c (checks cs)"

lemma checks_Inr [simp]: "checks cs = Inr u \<longleftrightarrow> (\<forall>c\<in>set cs. c = Inr ())"
  by (induction cs) auto

definition code_of :: "cred_error \<Rightarrow> string" where
  "code_of e = (case e of LimitExceeded _ _ \<Rightarrow> ''CREDENTIAL_LIMIT_EXCEEDED'' | StorageUnavailable \<Rightarrow> ''SECURE_STORAGE_UNAVAILABLE''
     | Persistence c \<Rightarrow> c | _ \<Rightarrow> [])"

definition coded :: "cred_error + 'a \<Rightarrow> string + 'a" where
  "coded r = (case r of Inl e \<Rightarrow> Inl (code_of e) | Inr a \<Rightarrow> Inr a)"

section \<open>Parts of the document\<close>

definition is_plain_object :: "jsval \<Rightarrow> bool" where
  "is_plain_object v = (case v of JObj pr _ \<Rightarrow> pr \<noteq> OtherProto | _ \<Rightarrow> False)"

definition own_keys :: "jsval \<Rightarrow> jsstr list" where
  "own_keys v = (case v of JObj _ ps \<Rightarrow> map fst ps | _ \<Rightarrow> [])"

definition exact_keys :: "jsval \<Rightarrow> jsstr list \<Rightarrow> check" where
  "exact_keys v keys =
     require (is_plain_object v \<and> length (own_keys v) = length keys \<and> list_all (\<lambda>k. k \<in> set (own_keys v)) keys) ''SETTINGS_INVALID''"

definition validate_profile_name :: "jsval \<Rightarrow> string + jsstr" where
  "validate_profile_name v =
     (case v of
        JStr s \<Rightarrow>
          if CONTROL_CHARACTERS s then Inl ''PROFILE_NAME_INVALID''
          else if length (code_points (js_trim s)) > 64 then Inl ''PROFILE_NAME_INVALID''
          else if js_trim s = [] \<or> byte_length (js_trim s) > 256 then Inl ''PROFILE_NAME_INVALID''
          else Inr (js_trim s)
      | _ \<Rightarrow> Inl ''PROFILE_NAME_INVALID'')"

definition fingerprint_text :: "jsstr \<Rightarrow> bool" where
  "fingerprint_text s \<longleftrightarrow> take 7 s = js ''SHA256:'' \<and> length s = 50 \<and> list_all is_b64 (drop 7 s)"

definition validate_fingerprint :: "jsval \<Rightarrow> check" where
  "validate_fingerprint v =
     require (case v of JNull \<Rightarrow> True | JStr s \<Rightarrow> fingerprint_text s | _ \<Rightarrow> False) ''SETTINGS_INVALID''"

definition validate_fingerprints :: "jsval \<Rightarrow> check" where
  "validate_fingerprints v =
     checks [exact_keys v [js ''clientFingerprint'', js ''hostFingerprint''],
       validate_fingerprint (getProp v (js ''clientFingerprint'')), validate_fingerprint (getProp v (js ''hostFingerprint''))]"

text \<open>\<open>String(v)\<close>, which a regular expression test and a template literal apply to their argument.\<close>

fun js_text :: "jsval \<Rightarrow> jsstr" where
  "js_text JUndef = js ''undefined''"
| "js_text JNull = js ''null''"
| "js_text (JBool b) = (if b then js ''true'' else js ''false'')"
| "js_text (JNum n) = int_text n"
| "js_text JFloat = js ''NaN''"
| "js_text (JStr s) = s"
| "js_text (JArr vs) = join_with 44 (map (\<lambda>v. if v = JUndef \<or> v = JNull then [] else js_text v) vs)"
| "js_text (JObj _ _) = js ''[object Object]''"

definition uuid_text :: "jsstr \<Rightarrow> bool" where
  "uuid_text s \<longleftrightarrow> (case split_on 45 s of
     [a, b, c, d, e] \<Rightarrow> length a = 8 \<and> length b = 4 \<and> length c = 4 \<and> length d = 4 \<and> length e = 12
       \<and> list_all is_hex (a @ b @ c @ d @ e)
   | _ \<Rightarrow> False)"

definition sha256_text :: "jsval \<Rightarrow> bool" where
  "sha256_text v = (case v of JStr s \<Rightarrow> length s = 64 \<and> list_all is_lower_hex s | _ \<Rightarrow> False)"

definition one_of :: "jsval \<Rightarrow> string list \<Rightarrow> bool" where
  "one_of v choices \<longleftrightarrow> v \<in> (\<lambda>c. JStr (js c)) ` set choices"

section \<open>The key transaction\<close>

definition basenames :: "(jsstr \<times> jsstr) list" where
  "basenames = [(js ''client-private'', js ''usshtc107_ed25519''), (js ''client-public'', js ''usshtc107_ed25519.pub''),
     (js ''host-private'', js ''proxy_host_ed25519'')]"

definition transaction_file :: "jsval \<Rightarrow> jsval \<Rightarrow> jsval list \<Rightarrow> jsval \<Rightarrow> check" where
  "transaction_file uid target roles f =
     checks [exact_keys f [js ''role'', js ''existed'', js ''oldSha256'', js ''newSha256'', js ''stageBasename'', js ''rollbackBasename''],
       (case map_of basenames (js_text (getProp f (js ''role''))) of
          None \<Rightarrow> Inl ''SETTINGS_INVALID''
        | Some basename \<Rightarrow>
            require (getProp f (js ''role'') \<notin> set roles
              \<and> (case getProp f (js ''existed'') of
                   JBool b \<Rightarrow> (if b then sha256_text (getProp f (js ''oldSha256'')) else getProp f (js ''oldSha256'') = JNull)
                 | _ \<Rightarrow> False)
              \<and> sha256_text (getProp f (js ''newSha256''))
              \<and> getProp f (js ''stageBasename'') = JStr (basename @ js ''.usshtc107-txn-'' @ js_text uid @ js ''.new'')
              \<and> getProp f (js ''rollbackBasename'') = JStr (basename @ js ''.usshtc107-txn-'' @ js_text uid @ js ''.old'')
              \<and> (target = JStr (js ''host'') \<longrightarrow> getProp f (js ''role'') = JStr (js ''host-private''))
              \<and> (target = JStr (js ''client'') \<longrightarrow> getProp f (js ''role'') \<noteq> JStr (js ''host-private''))) ''SETTINGS_INVALID'')]"

fun transaction_files :: "jsval \<Rightarrow> jsval \<Rightarrow> jsval list \<Rightarrow> jsval list \<Rightarrow> string + jsval list" where
  "transaction_files uid target roles [] = Inr roles"
| "transaction_files uid target roles (f # fs) =
     bindR (transaction_file uid target roles f) (\<lambda>_. transaction_files uid target (roles @ [getProp f (js ''role'')]) fs)"

definition expected_roles :: "jsval \<Rightarrow> jsval list" where
  "expected_roles target =
     map (\<lambda>c. JStr (js c))
      (if target = JStr (js ''host'') then [''host-private'']
       else if target = JStr (js ''client'') then [''client-private'', ''client-public'']
       else [''client-private'', ''client-public'', ''host-private''])"

definition validate_key_transaction :: "jsval \<Rightarrow> check" where
  "validate_key_transaction t =
     (if t = JNull then Inr ()
      else
        (let p = getProp t; before = getProp t (js ''before''); after = getProp t (js ''after''); target = getProp t (js ''target'') in
         also_check (checks [exact_keys t [js ''id'', js ''target'', js ''phase'', js ''before'', js ''after'', js ''files''],
           require (uuid_text (js_text (p (js ''id''))) \<and> one_of target [''client'', ''host'', ''both'']
             \<and> one_of (p (js ''phase'')) [''prepared'', ''installed'', ''committed'']) ''SETTINGS_INVALID'',
           validate_fingerprints before, validate_fingerprints after,
           require (getProp after (js ''clientFingerprint'') \<noteq> JNull \<and> getProp after (js ''hostFingerprint'') \<noteq> JNull
             \<and> \<not> (target = JStr (js ''client'') \<and> getProp before (js ''hostFingerprint'') \<noteq> JNull
                   \<and> getProp before (js ''hostFingerprint'') \<noteq> getProp after (js ''hostFingerprint''))
             \<and> \<not> (target = JStr (js ''host'') \<and> getProp before (js ''clientFingerprint'') \<noteq> JNull
                   \<and> getProp before (js ''clientFingerprint'') \<noteq> getProp after (js ''clientFingerprint''))) ''SETTINGS_INVALID''])
         (case p (js ''files'') of
            JArr fs \<Rightarrow>
              if length fs < 1 \<or> length fs > 3 then Inl ''SETTINGS_INVALID''
              else bindR (transaction_files (p (js ''id'')) target [] fs) (\<lambda>roles.
                require (length roles = length (expected_roles target) \<and> list_all (\<lambda>r. r \<in> set roles) (expected_roles target))
                  ''SETTINGS_INVALID'')
          | _ \<Rightarrow> Inl ''SETTINGS_INVALID'')))"

section \<open>The root\<close>

definition validated_settings :: "jsval \<Rightarrow> settings \<Rightarrow> jsstr list \<Rightarrow> check" where
  "validated_settings v defaults keys =
     also_check (exact_keys v keys)
      (case validate_settings_patch v defaults of
         Rejected _ \<Rightarrow> Inl ''SETTINGS_INVALID''
       | Accepted w \<Rightarrow>
           require (list_all (\<lambda>k. (case map_of w k of Some x \<Rightarrow> x | None \<Rightarrow> JUndef) = getProp v k) keys) ''SETTINGS_INVALID'')"

definition lower_unit :: "nat \<Rightarrow> nat" where
  "lower_unit u = (if 65 \<le> u \<and> u \<le> 90 then u + 32 else u)"

text \<open>\<open>toLowerCase\<close> of an alias, which is ASCII once the settings are valid.\<close>

definition alias_of :: "jsval \<Rightarrow> jsstr" where
  "alias_of profile = (case getProp (getProp profile (js ''settings'')) (js ''sshAlias'') of JStr s \<Rightarrow> map lower_unit s | _ \<Rightarrow> [])"

definition id_of :: "jsval \<Rightarrow> jsstr" where
  "id_of profile = (case getProp profile (js ''id'') of JStr s \<Rightarrow> s | _ \<Rightarrow> [])"

definition validate_profile :: "jsval \<Rightarrow> jsstr list \<Rightarrow> jsstr list \<Rightarrow> check" where
  "validate_profile profile ids aliases =
     (let secrets = getProp profile (js ''secrets''); onboarding = getProp profile (js ''onboarding'') in
      checks [exact_keys profile [js ''id'', js ''name'', js ''settings'', js ''secrets'', js ''onboarding''],
        require (case getProp profile (js ''id'') of JStr s \<Rightarrow> (s = js ''default'' \<or> uuid_text s) \<and> s \<notin> set ids | _ \<Rightarrow> False) ''SETTINGS_INVALID'',
        bindR (validate_profile_name (getProp profile (js ''name''))) (\<lambda>n. require (JStr n = getProp profile (js ''name'')) ''SETTINGS_INVALID''),
        validated_settings (getProp profile (js ''settings'')) PROFILE_DEFAULTS PROFILE_SETTING_KEYS,
        require (alias_of profile \<notin> set aliases) ''PROFILE_ALIAS_CONFLICT'',
        exact_keys secrets SECRET_KEYS,
        bindR (coded (normalize_username (getProp secrets (js ''ssoUsername''))))
          (\<lambda>u. require (JStr u = getProp secrets (js ''ssoUsername'')) ''SETTINGS_INVALID''),
        bindR (coded (validate_encrypted_secret (getProp secrets (js ''ssoPassword''))))
          (\<lambda>p. require (\<not> starts_with p (js ''xor:'')) ''SETTINGS_INVALID''),
        bindR (coded (validate_encrypted_secret (getProp secrets (js ''savedCookieEncrypted'')))) (\<lambda>_. Inr ()),
        exact_keys onboarding [js ''status'', js ''step''],
        require (one_of (getProp onboarding (js ''status'')) [''new'', ''dismissed'', ''completed'']
          \<and> one_of (getProp onboarding (js ''step'')) [''login'', ''config'', ''connect'', ''verify'']) ''SETTINGS_INVALID''])"

fun validate_profiles :: "jsval list \<Rightarrow> jsstr list \<Rightarrow> jsstr list \<Rightarrow> string + jsstr list" where
  "validate_profiles [] ids aliases = Inr ids"
| "validate_profiles (p # ps) ids aliases =
     bindR (validate_profile p ids aliases) (\<lambda>_. validate_profiles ps (ids @ [id_of p]) (aliases @ [alias_of p]))"

definition newer_version :: "jsval \<Rightarrow> bool" where
  "newer_version v = (case v of JNum n \<Rightarrow> n > 2 | _ \<Rightarrow> False)"

definition validate_root :: "jsval \<Rightarrow> check" where
  "validate_root root =
     (let version = getProp root (js ''schemaVersion''); keys = getProp root (js ''keys''); txn = getProp root (js ''keyTransaction'');
          client = getProp keys (js ''clientFingerprint''); host = getProp keys (js ''hostFingerprint'') in
      also_check (checks [
        require (\<not> (is_plain_object root \<and> newer_version version)) ''SETTINGS_VERSION_UNSUPPORTED'',
        exact_keys root ROOT_KEYS,
        require (version = JNum 2) (if newer_version version then ''SETTINGS_VERSION_UNSUPPORTED'' else ''SETTINGS_INVALID''),
        validated_settings (getProp root (js ''app'')) APP_DEFAULTS APP_SETTING_KEYS])
      (case getProp root (js ''profiles'') of
         JArr ps \<Rightarrow>
           if length ps < 1 \<or> length ps > MAX_PROFILES then Inl ''SETTINGS_INVALID''
           else bindR (validate_profiles ps [] []) (\<lambda>ids.
             checks [
               require (getProp root (js ''activeProfileId'') \<in> JStr ` set ids) ''SETTINGS_INVALID'',
               exact_keys keys [js ''initialized'', js ''clientFingerprint'', js ''hostFingerprint''],
               require (getProp keys (js ''initialized'') \<in> {JBool True, JBool False}) ''SETTINGS_INVALID'',
               validate_fingerprint client, validate_fingerprint host, validate_key_transaction txn,
               require (getProp keys (js ''initialized'') = JBool True \<or> client = JNull \<and> host = JNull) ''SETTINGS_INVALID'',
               (if txn = JNull then Inr ()
                else
                  (let expected = getProp txn (if getProp txn (js ''phase'') = JStr (js ''committed'') then js ''after'' else js ''before'') in
                   require (getProp keys (js ''initialized'') = JBool True \<and> client = getProp expected (js ''clientFingerprint'')
                     \<and> host = getProp expected (js ''hostFingerprint'')) ''SETTINGS_INVALID'')),
               require (byte_length (serialized_json root) \<le> MAX_SETTINGS_FILE_BYTES) ''SETTINGS_FILE_TOO_LARGE''])
       | _ \<Rightarrow> Inl ''SETTINGS_INVALID''))"

definition overlay :: "settings \<Rightarrow> settings \<Rightarrow> settings" where
  "overlay base defaults = map (\<lambda>(k, v). (k, case map_of defaults k of Some x \<Rightarrow> x | None \<Rightarrow> v)) base"

definition create_default_root :: "settings \<Rightarrow> jsval" where
  "create_default_root defaults =
     JObj ObjectProto [(js ''schemaVersion'', JNum 2), (js ''activeProfileId'', JStr (js ''default'')),
       (js ''app'', JObj ObjectProto (overlay APP_DEFAULTS defaults)),
       (js ''profiles'', JArr [JObj ObjectProto [(js ''id'', JStr (js ''default'')), (js ''name'', JStr (js ''Default'')),
          (js ''settings'', JObj ObjectProto (overlay PROFILE_DEFAULTS defaults)),
          (js ''secrets'', JObj ObjectProto [(js ''ssoUsername'', JStr []), (js ''ssoPassword'', JStr []), (js ''savedCookieEncrypted'', JStr [])]),
          (js ''onboarding'', JObj ObjectProto [(js ''status'', JStr (js ''new'')), (js ''step'', JStr (js ''login''))])]]),
       (js ''keys'', JObj ObjectProto [(js ''initialized'', JBool False), (js ''clientFingerprint'', JNull), (js ''hostFingerprint'', JNull)]),
       (js ''keyTransaction'', JNull)]"

definition public_settings :: "jsval \<Rightarrow> jsval \<Rightarrow> string + settings" where
  "public_settings root i =
     (let ps = (case getProp root (js ''profiles'') of JArr ps \<Rightarrow> ps | _ \<Rightarrow> []) in
      case find (\<lambda>p. getProp p (js ''id'') = i) ps of
        None \<Rightarrow> Inl ''PROFILE_CHANGED''
      | Some p \<Rightarrow>
          Inr (map (\<lambda>k. (k, if k \<in> set (own_keys (getProp root (js ''app''))) then getProp (getProp root (js ''app'')) k
                            else getProp (getProp p (js ''settings'')) k)) PUBLIC_SETTING_KEYS))"

section \<open>What an accepted document is\<close>

lemma validate_profiles_spec:
  "validate_profiles ps ids aliases = Inr out \<Longrightarrow>
     out = ids @ map id_of ps
     \<and> (distinct ids \<longrightarrow> distinct out) \<and> (distinct aliases \<longrightarrow> distinct (aliases @ map alias_of ps))
     \<and> (\<forall>p\<in>set ps. \<exists>ids aliases. validate_profile p ids aliases = Inr ())"
proof (induction ps arbitrary: ids aliases)
  case (Cons p ps)
  then have p: "validate_profile p ids aliases = Inr ()" and
    rest: "validate_profiles ps (ids @ [id_of p]) (aliases @ [alias_of p]) = Inr out" by auto
  have n: "id_of p \<notin> set ids" "alias_of p \<notin> set aliases"
    using p by (auto simp: validate_profile_def Let_def id_of_def split: jsval.splits)
  note I = Cons.IH [OF rest]
  have "distinct (ids @ [id_of p])" if "distinct ids" using n that by simp
  then have "distinct ids \<longrightarrow> distinct out" using I by blast
  moreover have "distinct (aliases @ [alias_of p])" if "distinct aliases" using n that by simp
  then have "distinct aliases \<longrightarrow> distinct ((aliases @ [alias_of p]) @ map alias_of ps)" using I by blast
  then have "distinct aliases \<longrightarrow> distinct (aliases @ map alias_of (p # ps))" by simp
  moreover have "out = ids @ map id_of (p # ps)" using I by simp
  moreover have "\<forall>q\<in>set (p # ps). \<exists>ids aliases. validate_profile q ids aliases = Inr ()"
    unfolding set_simps using I p by blast
  ultimately show ?case by blast
qed auto

lemma exact_keys_distinct:
  assumes "exact_keys v keys = Inr ()" and "distinct keys"
  shows "distinct (own_keys v)"
proof -
  have "length (own_keys v) = length keys" "set keys \<subseteq> set (own_keys v)"
    using assms(1) by (auto simp: exact_keys_def list_all_iff)
  moreover have "card (set keys) = length keys" using assms(2) by (rule distinct_card)
  ultimately have "length (own_keys v) \<le> card (set (own_keys v))" by (metis card_mono List.finite_set)
  then show ?thesis by (intro card_distinct) (simp add: card_length le_antisym)
qed

lemma keys_distinct [simp]: "distinct PROFILE_SETTING_KEYS" "distinct APP_SETTING_KEYS"
  unfolding PROFILE_SETTING_KEYS_def APP_SETTING_KEYS_def by code_simp+

lemma validated_settings_valid:
  assumes "validated_settings v defaults keys = Inr ()" and "distinct keys" and "k \<in> set keys"
  shows "valid_setting k (getProp v k)"
proof -
  have e: "exact_keys v keys = Inr ()" using assms(1) by (simp add: validated_settings_def)
  then obtain pr ps where v: "v = JObj pr ps" "pr \<noteq> OtherProto"
    by (auto simp: exact_keys_def is_plain_object_def split: jsval.splits)
  have d: "distinct (map fst ps)" using exact_keys_distinct [OF e assms(2)] by (simp add: v own_keys_def)
  obtain w es where p: "apply_patch ps defaults [] = (w, es)" by force
  note spec = apply_patch_spec [OF d p]
  have es: "es = []" and same: "(case map_of w k of Some x \<Rightarrow> x | None \<Rightarrow> JUndef) = getProp v k"
    using assms(1,3) v p by (auto simp: validated_settings_def validate_settings_patch_def list_all_iff split: if_splits)
  have "k \<in> set (map fst ps)" using e assms(3) by (auto simp: exact_keys_def v own_keys_def list_all_iff)
  then obtain x where x: "map_of ps k = Some x" by (metis map_of_eq_None_iff not_None_eq list.set_map)
  then obtain y where y: "checked k x = Inr y"
    using spec es patch_errors [of ps] map_of_SomeD [OF x] by fastforce
  then have "map_of w k = Some y" using spec x by simp
  then have "y = x" using same x by (simp add: v getProp_def)
  then show ?thesis using y x by (auto simp: valid_setting_def checked_def v getProp_def split: option.splits)
qed

text \<open>The parts of an accepted document.\<close>

lemma root_parts:
  assumes "validate_root root = Inr ()"
  obtains ps where "getProp root (js ''profiles'') = JArr ps" "1 \<le> length ps" "length ps \<le> 8" "validate_profiles ps [] [] = Inr (map id_of ps)"
    "distinct (map id_of ps)" "distinct (map alias_of ps)" "\<forall>p\<in>set ps. \<exists>ids aliases. validate_profile p ids aliases = Inr ()"
    "getProp root (js ''activeProfileId'') \<in> JStr ` set (map id_of ps)"
proof -
  obtain ps where arr: "getProp root (js ''profiles'') = JArr ps"
    using assms by (cases "getProp root (js ''profiles'')") (simp_all add: validate_root_def Let_def del: js_simps)
  have len: "\<not> (length ps < 1 \<or> length ps > MAX_PROFILES)"
    using assms arr by (auto simp: validate_root_def Let_def simp del: js_simps)
  obtain ids where ids: "validate_profiles ps [] [] = Inr ids"
    using assms arr len by (cases "validate_profiles ps [] []") (simp_all add: validate_root_def Let_def del: js_simps)
  note S = validate_profiles_spec [OF ids, unfolded append_Nil distinct.simps(1) simp_thms]
  from S have i: "ids = map id_of ps" by (elim conjE)
  from S have d1: "distinct ids" by (elim conjE)
  from S have d2: "distinct (map alias_of ps)" by (elim conjE)
  from S have each: "\<forall>p\<in>set ps. \<exists>ids aliases. validate_profile p ids aliases = Inr ()" by (elim conjE)
  have active: "getProp root (js ''activeProfileId'') \<in> JStr ` set ids"
    using assms arr len ids by (simp_all add: validate_root_def Let_def del: js_simps)
  have "1 \<le> length ps" "length ps \<le> 8" using len unfolding MAX_PROFILES_def by linarith+
  then show ?thesis by (rule that [OF arr _ _ ids [unfolded i] d1 [unfolded i] d2 each active [unfolded i]])
qed

lemma profile_sound:
  assumes "validate_profile p xs ys = Inr ()"
  shows "(\<forall>k\<in>set PROFILE_SETTING_KEYS. valid_setting k (getProp (getProp p (js ''settings'')) k))
    \<and> (\<exists>w. getProp (getProp p (js ''secrets'')) (js ''ssoPassword'') = JStr w \<and> \<not> starts_with w (js ''xor:''))"
proof -
  from assms have set1: "validated_settings (getProp p (js ''settings'')) PROFILE_DEFAULTS PROFILE_SETTING_KEYS = Inr ()"
    and pw: "bindR (coded (validate_encrypted_secret (getProp (getProp p (js ''secrets'')) (js ''ssoPassword''))))
        (\<lambda>p. require (\<not> starts_with p (js ''xor:'')) ''SETTINGS_INVALID'') = Inr ()"
    unfolding validate_profile_def Let_def checks.simps also_check_Inr by - (elim conjE, assumption)+
  from pw have "\<exists>w. getProp (getProp p (js ''secrets'')) (js ''ssoPassword'') = JStr w \<and> \<not> starts_with w (js ''xor:'')"
    by (auto simp: validate_encrypted_secret_def coded_def bindR_def simp del: js_simps bindR_eq_Inr split: jsval.splits sum.splits if_splits)
  then show ?thesis using validated_settings_valid [OF set1 keys_distinct(1)] by blast
qed

text \<open>The pair of fingerprints the document must record: during a transaction those of its phase.\<close>

definition expected_fingerprints :: "jsval \<Rightarrow> jsval" where
  "expected_fingerprints txn = getProp txn (if getProp txn (js ''phase'') = JStr (js ''committed'') then js ''after'' else js ''before'')"

definition fingerprints_sound :: "jsval \<Rightarrow> bool" where
  "fingerprints_sound root \<longleftrightarrow>
     (let keys = getProp root (js ''keys''); txn = getProp root (js ''keyTransaction'');
          client = getProp keys (js ''clientFingerprint''); host = getProp keys (js ''hostFingerprint'') in
      (\<forall>f\<in>{client, host}. f = JNull \<or> (\<exists>s. f = JStr s \<and> fingerprint_text s))
      \<and> (getProp keys (js ''initialized'') \<noteq> JBool True \<longrightarrow> client = JNull \<and> host = JNull \<and> txn = JNull)
      \<and> (txn \<noteq> JNull \<longrightarrow> client = getProp (expected_fingerprints txn) (js ''clientFingerprint'')
           \<and> host = getProp (expected_fingerprints txn) (js ''hostFingerprint'')))"

lemma validate_fingerprint_Inr: "validate_fingerprint v = Inr () \<longleftrightarrow> v = JNull \<or> (\<exists>s. v = JStr s \<and> fingerprint_text s)"
  by (cases v) (simp_all add: validate_fingerprint_def)

lemma root_fingerprints:
  assumes "validate_root root = Inr ()"
  shows "fingerprints_sound root"
proof -
  obtain ps where ps: "getProp root (js ''profiles'') = JArr ps" "1 \<le> length ps" "length ps \<le> 8" "validate_profiles ps [] [] = Inr (map id_of ps)"
    using root_parts [OF assms] by blast
  then have len: "\<not> (length ps < 1 \<or> MAX_PROFILES < length ps)" by (auto simp: MAX_PROFILES_def)
  let ?keys = "getProp root (js ''keys'')" and ?txn = "getProp root (js ''keyTransaction'')"
  have f: "validate_fingerprint (getProp ?keys (js ''clientFingerprint'')) = Inr ()" "validate_fingerprint (getProp ?keys (js ''hostFingerprint'')) = Inr ()"
    using assms ps(1,4) len by (simp_all add: validate_root_def Let_def del: js_simps)
  have i: "getProp ?keys (js ''initialized'') = JBool True \<or> getProp ?keys (js ''clientFingerprint'') = JNull \<and> getProp ?keys (js ''hostFingerprint'') = JNull"
    using assms ps(1,4) len by (simp add: validate_root_def Let_def del: js_simps)
  have t: "?txn \<noteq> JNull \<Longrightarrow> getProp ?keys (js ''initialized'') = JBool True"
      "?txn \<noteq> JNull \<Longrightarrow> getProp ?keys (js ''clientFingerprint'') = getProp (expected_fingerprints ?txn) (js ''clientFingerprint'')"
      "?txn \<noteq> JNull \<Longrightarrow> getProp ?keys (js ''hostFingerprint'') = getProp (expected_fingerprints ?txn) (js ''hostFingerprint'')"
    using assms ps(1,4) len by (simp_all add: validate_root_def Let_def expected_fingerprints_def del: js_simps)
  show ?thesis unfolding fingerprints_sound_def Let_def using f i t by (simp add: validate_fingerprint_Inr del: js_simps) blast
qed

text \<open>Claim C18: an accepted settings document has between one and eight profiles with distinct ids and with
  aliases distinct whatever their case, its active profile is one of them, every setting of every profile
  and of the application passes its validator unchanged, no stored password is in the legacy
  obfuscated form, and its text is within the size limit.  Both key fingerprints are null or well formed, null
  as long as the keys are not initialized, and during a key transaction, which only initialized keys can have,
  both are those the transaction's phase prescribes.\<close>

theorem valid_root_sound:
  assumes "validate_root root = Inr ()"
  shows "\<exists>ps. getProp root (js ''profiles'') = JArr ps \<and> 1 \<le> length ps \<and> length ps \<le> 8
    \<and> distinct (map id_of ps) \<and> distinct (map alias_of ps)
    \<and> getProp root (js ''activeProfileId'') \<in> (JStr \<circ> id_of) ` set ps
    \<and> (\<forall>p\<in>set ps. (\<forall>k\<in>set PROFILE_SETTING_KEYS. valid_setting k (getProp (getProp p (js ''settings'')) k))
         \<and> (\<exists>w. getProp (getProp p (js ''secrets'')) (js ''ssoPassword'') = JStr w \<and> \<not> starts_with w (js ''xor:'')))
    \<and> (\<forall>k\<in>set APP_SETTING_KEYS. valid_setting k (getProp (getProp root (js ''app'')) k))
    \<and> byte_length (serialized_json root) \<le> MAX_SETTINGS_FILE_BYTES
    \<and> fingerprints_sound root"
proof -
  obtain ps where ps: "getProp root (js ''profiles'') = JArr ps" "1 \<le> length ps" "length ps \<le> 8" "validate_profiles ps [] [] = Inr (map id_of ps)"
      "distinct (map id_of ps)" "distinct (map alias_of ps)" "\<forall>p\<in>set ps. \<exists>ids aliases. validate_profile p ids aliases = Inr ()"
      "getProp root (js ''activeProfileId'') \<in> JStr ` set (map id_of ps)"
    by (rule root_parts [OF assms])
  then have len: "\<not> (length ps < 1 \<or> MAX_PROFILES < length ps)" by (auto simp: MAX_PROFILES_def)
  have rest: "byte_length (serialized_json root) \<le> MAX_SETTINGS_FILE_BYTES"
      "validated_settings (getProp root (js ''app'')) APP_DEFAULTS APP_SETTING_KEYS = Inr ()"
    using assms ps(1,4) len by (simp_all add: validate_root_def Let_def del: js_simps)
  show ?thesis
    using ps rest profile_sound root_fingerprints [OF assms] validated_settings_valid [OF rest(2) keys_distinct(2)]
    by (intro exI [of _ ps] conjI) (simp_all add: image_image del: js_simps, blast)
qed

lemma default_root_valid: "validate_root (create_default_root []) = Inr ()"
  by code_simp

lemma valid_root_sound_witness:
  "\<exists>ps. getProp (create_default_root []) (js ''profiles'') = JArr ps \<and> 1 \<le> length ps \<and> distinct (map id_of ps)"
  using valid_root_sound [OF default_root_valid] by blast

end
