(* ===== verification/SettingsStore.thy ===== *)
theory SettingsStore
  imports SettingsDocument
begin

text \<open>
  The store of \<^verbatim>\<open>electron/settings-store.js\<close>: reading, the atomic write, and the state machine of
  \<open>load\<close>, \<open>save\<close> and \<open>retryLoad\<close> with its locks.

  The file system is part of the state: the bytes of the settings file and, for each system call
  in turn, the outcome the script \<open>io\<close> gives: it works, it throws without effect, or it throws
  after its effect took place (a rename whose error is reported late).  An exhausted script works.
  Another process can write the file between calls (\<open>External\<close> below).  \<open>sha\<close> (SHA-256),
  \<open>parse\<close> (\<open>JSON.parse\<close>) and the two functions the constructor is given are parameters.
\<close>

datatype io_outcome = Works | Throws string | ThrowsLate string

datatype replacement = NotReplaced | UnknownReplaced | Replaced

record store_env =
  sha :: "jsstr \<Rightarrow> jsstr"
  parse :: "jsstr \<Rightarrow> jsval option"
  migrate_secrets :: "(jsval \<Rightarrow> string + (jsval \<times> jsstr)) option"
  inspect_identity :: "jsval \<Rightarrow> jsval option"
  store_defaults :: settings

record store =
  st_root :: jsval
  known_hash :: "jsstr option"
  storage_error :: "string option"
  corrupt_hash :: "jsstr option"
  migrated_cookie :: jsstr
  disk_file :: "byte list option"
  io :: "io_outcome list"
  backups :: "jsstr list"

definition next_io :: "store \<Rightarrow> io_outcome \<times> store" where
  "next_io s = (case io s of [] \<Rightarrow> (Works, s) | o1 # os \<Rightarrow> (o1, s\<lparr>io := os\<rparr>))"

text \<open>A system call with an effect on the file.\<close>

definition syscall :: "(byte list option \<Rightarrow> byte list option) \<Rightarrow> (store, string, unit) act" where
  "syscall effect s =
     (case next_io s of
        (Works, t) \<Rightarrow> (Inr (), t\<lparr>disk_file := effect (disk_file t)\<rparr>)
      | (Throws code, t) \<Rightarrow> (Inl code, t)
      | (ThrowsLate code, t) \<Rightarrow> (Inl code, t\<lparr>disk_file := effect (disk_file t)\<rparr>))"

abbreviation harmless :: "(store, string, unit) act" where
  "harmless \<equiv> syscall (\<lambda>f. f)"

section \<open>Reading\<close>

text \<open>The loop of \<open>readUtf8FileLimited\<close>: blocks of 64 KiB, one byte more than the limit at most.\<close>

function read_blocks :: "nat \<Rightarrow> nat \<Rightarrow> byte list \<Rightarrow> byte list \<Rightarrow> string + byte list" where
  "read_blocks maxBytes got bytes acc =
     (let block = take (min 65536 (maxBytes - got + 1)) bytes in
      if block = [] then Inr acc
      else if got + length block > maxBytes then Inl ''SETTINGS_FILE_TOO_LARGE''
      else read_blocks maxBytes (got + length block) (drop (length block) bytes) (acc @ block))"
  by pat_completeness auto
termination read_blocks
  by (relation "measure (\<lambda>(_, _, bytes, _). length bytes)") (auto simp: Let_def)

declare read_blocks.simps [simp del]

text \<open>A missing file has the code \<open>ENOENT\<close>, which no other failure of these calls has; the decoder's
  \<open>TypeError\<close> has no code.\<close>

definition read_failure :: "string \<Rightarrow> string" where
  "read_failure code = (if code = ''ENOENT'' then [] else code)"

definition read_utf8_file_limited :: "nat \<Rightarrow> (store, string, jsstr) act" where
  "read_utf8_file_limited maxBytes s =
     (case disk_file s of
        None \<Rightarrow> (Inl ''ENOENT'', s)
      | Some bytes \<Rightarrow>
          (case harmless s of
             (Inl code, t) \<Rightarrow> (Inl (read_failure code), t)
           | (Inr _, t) \<Rightarrow>
               (bindR (read_blocks maxBytes 0 bytes []) (\<lambda>bs.
                  (case utf8_decode bs of None \<Rightarrow> Inl [] | Some x \<Rightarrow> Inr x)), t)))"

definition read_settings :: "(store, string, jsstr) act" where
  "read_settings = read_utf8_file_limited MAX_SETTINGS_FILE_BYTES"

text \<open>\<open>syncDirectory\<close>: opening, syncing and closing the directory, where the platform can.\<close>

definition sync_directory :: "(store, string, unit) act" where
  "sync_directory = harmless"

section \<open>The atomic write\<close>

record write_error =
  we_code :: string
  we_replacement :: replacement
  we_hash :: jsstr

text \<open>The calls before the rename only touch the temporary file: \<open>mkdir\<close>, \<open>open\<close>, \<open>fchmod\<close>, \<open>write\<close>,
  \<open>fsync\<close>, \<open>close\<close>.\<close>

definition prepare_temporary :: "(store, string, unit) act" where
  "prepare_temporary = forM (\<lambda>_. harmless) [''mkdir'', ''open'', ''fchmod'', ''write'', ''fsync'', ''close'']"

definition failed_write :: "replacement \<Rightarrow> jsstr \<Rightarrow> string \<Rightarrow> write_error" where
  "failed_write r h code = \<lparr>we_code = (if code = [] then ''SETTINGS_SAVE_FAILED'' else code), we_replacement = r, we_hash = h\<rparr>"

definition atomic_write_json :: "store_env \<Rightarrow> nat \<Rightarrow> jsval \<Rightarrow> store \<Rightarrow> (write_error + jsstr) \<times> store" where
  "atomic_write_json env maxBytes v s =
     (let serialized = serialized_json v; candidate = sha env serialized in
      if byte_length serialized > maxBytes then (Inl (failed_write NotReplaced candidate ''SETTINGS_FILE_TOO_LARGE''), s)
      else case prepare_temporary s of
        (Inl code, t) \<Rightarrow> (Inl (failed_write NotReplaced candidate code), t)
      | (Inr _, t) \<Rightarrow>
          (case syscall (\<lambda>_. Some (utf8 serialized)) t of
             (Inl code, u) \<Rightarrow> (Inl (failed_write UnknownReplaced candidate code), u)
           | (Inr _, u) \<Rightarrow>
               (case sync_directory u of
                  (Inl code, w) \<Rightarrow> (Inl (failed_write Replaced candidate code), w)
                | (Inr _, w) \<Rightarrow> (Inr candidate, w))))"

section \<open>The store's operations\<close>

definition is_locked :: "store \<Rightarrow> bool" where
  "is_locked s \<longleftrightarrow> storage_error s \<noteq> None"

definition take_migrated_cookie :: "store \<Rightarrow> jsstr \<times> store" where
  "take_migrated_cookie s = (if is_locked s then [] else migrated_cookie s, s\<lparr>migrated_cookie := []\<rparr>)"

text \<open>\<open>throw this._lock(code)\<close>\<close>

definition lock_throw :: "string \<Rightarrow> (store, string, 'a) act" where
  "lock_throw code s = (Inl code, s\<lparr>storage_error := Some code\<rparr>)"

definition truthy :: "jsval \<Rightarrow> bool" where
  "truthy v \<longleftrightarrow> v \<notin> {JUndef, JNull, JBool False, JNum 0, JStr []}"

definition set_prop :: "jsstr \<Rightarrow> jsval \<Rightarrow> jsval \<Rightarrow> jsval" where
  "set_prop k x v = (case v of JObj pr ps \<Rightarrow> JObj pr (put_setting k x ps) | _ \<Rightarrow> v)"

definition cached_identity :: "jsval \<Rightarrow> bool" where
  "cached_identity raw \<longleftrightarrow> truthy (getProp raw (js ''sshPublicKey'')) \<or> truthy (getProp raw (js ''sshPublicKeyRaw''))"

definition existing_keys :: "store_env \<Rightarrow> jsval \<Rightarrow> jsval" where
  "existing_keys env raw =
     (case inspect_identity env raw of
        Some keys \<Rightarrow>
          set_prop (js ''initialized'')
            (if truthy (getProp keys (js ''initialized'')) then getProp keys (js ''initialized'') else JBool (cached_identity raw)) keys
      | None \<Rightarrow> JObj ObjectProto [(js ''initialized'', JBool (cached_identity raw)),
                  (js ''clientFingerprint'', JNull), (js ''hostFingerprint'', JNull)])"

definition map_first_profile :: "(jsval \<Rightarrow> jsval) \<Rightarrow> jsval \<Rightarrow> jsval" where
  "map_first_profile f root =
     (case getProp root (js ''profiles'') of JArr (p # ps) \<Rightarrow> set_prop (js ''profiles'') (JArr (f p # ps)) root | _ \<Rightarrow> root)"

definition first_profile :: "jsval \<Rightarrow> jsval" where
  "first_profile root = (case getProp root (js ''profiles'') of JArr (p # _) \<Rightarrow> p | _ \<Rightarrow> JUndef)"

definition pick :: "settings \<Rightarrow> jsstr list \<Rightarrow> jsval" where
  "pick s keys = JObj ObjectProto (map (\<lambda>k. (k, case map_of s k of Some x \<Rightarrow> x | None \<Rightarrow> JUndef)) keys)"

definition settings_of :: "jsval \<Rightarrow> settings" where
  "settings_of v = (case v of JObj _ ps \<Rightarrow> ps | _ \<Rightarrow> [])"

text \<open>Without \<open>migrateLegacySecrets\<close>, legacy secrets cannot be taken over.\<close>

definition plain_migration :: "jsval \<Rightarrow> string + (jsval \<times> jsstr)" where
  "plain_migration raw =
     (let field = (\<lambda>k. legacy_default (getProp raw k)) in
      if truthy (getProp raw (js ''savedCookie'')) then Inl ''SETTINGS_MIGRATION_FAILED''
      else case getProp raw (js ''ssoPassword'') of
        JStr p \<Rightarrow>
          if starts_with p (js ''xor:'') then Inl ''SETTINGS_MIGRATION_FAILED''
          else Inr (JObj ObjectProto (map (\<lambda>k. (k, field k)) SECRET_KEYS), [])
      | v \<Rightarrow> if nullish v then Inr (JObj ObjectProto (map (\<lambda>k. (k, field k)) SECRET_KEYS), []) else Inl [])"

definition migrate :: "store_env \<Rightarrow> jsval \<Rightarrow> string + (jsval \<times> jsstr)" where
  "migrate env raw =
     (if \<not> is_plain_object raw then Inl ''SETTINGS_INVALID''
      else
        (let root = create_default_root (store_defaults env);
             patch = map (\<lambda>k. (k, getProp raw k)) (filter (\<lambda>k. k \<in> set (own_keys raw)) PUBLIC_SETTING_KEYS);
             base = settings_of (getProp root (js ''app'')) @ settings_of (getProp (first_profile root) (js ''settings'')) in
         case validate_settings_patch (JObj ObjectProto patch) base of
           Rejected _ \<Rightarrow> Inl ''SETTINGS_MIGRATION_FAILED''
         | Accepted w \<Rightarrow>
             bindR ((case migrate_secrets env of Some f \<Rightarrow> f | None \<Rightarrow> plain_migration) raw) (\<lambda>(secrets, cookie).
               (let profile = (\<lambda>p. set_prop (js ''onboarding'')
                      (set_prop (js ''status'') (JStr (js ''dismissed'')) (getProp p (js ''onboarding'')))
                      (set_prop (js ''secrets'') secrets (set_prop (js ''settings'') (pick w PROFILE_SETTING_KEYS) p)));
                    candidate = set_prop (js ''keys'') (existing_keys env raw)
                      (map_first_profile profile (set_prop (js ''app'') (pick w APP_SETTING_KEYS) root)) in
                bindR (validate_root candidate) (\<lambda>_. Inr (candidate, cookie))))))"

text \<open>\<open>_backupCorrupt\<close> swallows its errors; \<open>backups\<close> are the texts it wrote.\<close>

definition backup_text :: "jsstr \<Rightarrow> store \<Rightarrow> store" where
  "backup_text t s =
     (case forM (\<lambda>_. harmless) [''open'', ''fchmod'', ''write'', ''fsync''] s of
        (Inr _, u) \<Rightarrow> u\<lparr>backups := backups u @ [t]\<rparr>
      | (Inl _, u) \<Rightarrow> u)"

text \<open>\<open>JSON.parse(JSON.stringify(v))\<close>: plain objects, without undefined members.\<close>

fun json_copy :: "jsval \<Rightarrow> jsval" where
  "json_copy (JArr vs) = JArr (map json_copy vs)"
| "json_copy (JObj pr ps) = JObj ObjectProto (map (\<lambda>(k, v). (k, json_copy v)) (filter (\<lambda>(k, v). v \<noteq> JUndef) ps))"
| "json_copy JFloat = JNull"
| "json_copy JUndef = JNull"
| "json_copy v = v"

datatype save_state = SaveCommitted | SaveNotCommitted | SaveUnknown

record save_result =
  save_state :: save_state
  save_durable :: bool
  save_code :: "string option"

definition refused :: "save_state \<Rightarrow> string \<Rightarrow> save_result" where
  "refused st code = \<lparr>save_state = st, save_durable = False, save_code = Some code\<rparr>"

text \<open>What is on disk after a failed write: \<open>Some None\<close> that there is no file, \<open>None\<close> unknown.\<close>

definition actual_hash :: "store_env \<Rightarrow> store \<Rightarrow> jsstr option option \<times> store" where
  "actual_hash env s =
     (case read_settings s of
        (Inr t, u) \<Rightarrow> (Some (Some (sha env t)), u)
      | (Inl code, u) \<Rightarrow> (if code = ''ENOENT'' then Some None else None, u))"

definition save :: "store_env \<Rightarrow> jsval \<Rightarrow> store \<Rightarrow> save_result \<times> store" where
  "save env candidate s =
     (if is_locked s then (refused SaveNotCommitted ''SETTINGS_LOCKED'', s)
      else case validate_root candidate of
        Inl code \<Rightarrow> (refused SaveNotCommitted (if code = [] then ''SETTINGS_INVALID'' else code), s)
      | Inr _ \<Rightarrow>
          (let adopted = json_copy candidate in
           case atomic_write_json env MAX_SETTINGS_FILE_BYTES adopted s of
             (Inr h, t) \<Rightarrow>
               (\<lparr>save_state = SaveCommitted, save_durable = True, save_code = None\<rparr>,
                t\<lparr>st_root := adopted, known_hash := Some h\<rparr>)
           | (Inl e, t) \<Rightarrow>
               (case actual_hash env t of
                  (actual, u) \<Rightarrow>
                    if actual = Some (Some (we_hash e)) then
                      (refused SaveCommitted ''SETTINGS_DURABILITY_UNCERTAIN'',
                       u\<lparr>st_root := adopted, known_hash := Some (we_hash e), storage_error := Some ''SETTINGS_DURABILITY_UNCERTAIN''\<rparr>)
                    else if actual = Some (known_hash u) then
                      (refused SaveNotCommitted (if we_code e = ''SETTINGS_FILE_TOO_LARGE'' then we_code e else ''SETTINGS_SAVE_FAILED''), u)
                    else
                      (refused SaveUnknown ''SETTINGS_COMMIT_UNKNOWN'', u\<lparr>storage_error := Some ''SETTINGS_COMMIT_UNKNOWN''\<rparr>))))"

definition missing_key :: "jsstr \<Rightarrow> jsval \<Rightarrow> bool" where
  "missing_key k v \<longleftrightarrow> k \<notin> set (own_keys v)"

definition backfill_keys :: "jsstr list" where
  "backfill_keys = [js ''path'', js ''startupCommand'', js ''healthProbeEnabled'', js ''validateTokenPeriodically'',
     js ''scpMaxFileBytes'', js ''scpNoOverwrite'']"

definition backfill_profile :: "jsval \<Rightarrow> jsval" where
  "backfill_profile p =
     (let st = getProp p (js ''settings'') in
      if is_plain_object st then
        set_prop (js ''settings'')
          (foldl (\<lambda>v k. if missing_key k v then set_prop k (case map_of PROFILE_DEFAULTS k of Some x \<Rightarrow> x | None \<Rightarrow> JUndef) v else v)
            st backfill_keys) p
      else p)"

definition backfill :: "jsval \<Rightarrow> jsval" where
  "backfill raw =
     (case getProp raw (js ''profiles'') of
        JArr ps \<Rightarrow>
          if getProp raw (js ''schemaVersion'') = JNum 2 then set_prop (js ''profiles'') (JArr (map backfill_profile ps)) raw else raw
      | _ \<Rightarrow> raw)"

definition or_code :: "string option \<Rightarrow> string \<Rightarrow> string" where
  "or_code c d = (case c of None \<Rightarrow> d | Some x \<Rightarrow> if x = [] then d else x)"

definition fresh_root :: "store_env \<Rightarrow> jsval" where
  "fresh_root env = set_prop (js ''keys'') (existing_keys env JUndef) (create_default_root (store_defaults env))"

text \<open>A parsed document: a legacy one is migrated and saved, a current one is adopted.\<close>

definition adopt_document :: "store_env \<Rightarrow> jsstr \<Rightarrow> jsval \<Rightarrow> (store, string, unit) act" where
  "adopt_document env t raw s =
     (if \<not> is_plain_object raw then (Inl ''SETTINGS_INVALID'', s)
      else if missing_key (js ''schemaVersion'') raw then
        (case migrate env raw of
           Inl code \<Rightarrow> (Inl code, s)
         | Inr (candidate, cookie) \<Rightarrow>
             (case save env candidate (s\<lparr>known_hash := Some (sha env t), storage_error := None\<rparr>) of
                (r, u) \<Rightarrow>
                  if save_state r = SaveCommitted \<and> save_durable r then (Inr (), u\<lparr>migrated_cookie := cookie\<rparr>)
                  else (Inl (or_code (save_code r) ''SETTINGS_MIGRATION_FAILED''), u)))
      else
        (let doc = backfill raw in
         case validate_root doc of
           Inl code \<Rightarrow> (Inl code, s)
         | Inr _ \<Rightarrow>
             (case (if is_locked s then sync_directory s else (Inr (), s)) of
                (Inl code, u) \<Rightarrow> (Inl code, u)
              | (Inr _, u) \<Rightarrow> (Inr (), u\<lparr>st_root := doc, known_hash := Some (sha env t), storage_error := None\<rparr>))))"

definition load :: "store_env \<Rightarrow> (store, string, jsval) act" where
  "load env s0 =
     (case read_settings s0 of
        (Inl code, s) \<Rightarrow>
          if code = ''ENOENT'' then
            (case storage_error s of
               Some c \<Rightarrow> lock_throw c s
             | None \<Rightarrow>
                 (case validate_root (fresh_root env) of
                    Inl c \<Rightarrow> lock_throw (or_code (Some c) ''SETTINGS_INVALID'') s
                  | Inr _ \<Rightarrow> (Inr (fresh_root env), s\<lparr>st_root := fresh_root env, known_hash := None\<rparr>)))
          else lock_throw (if code = ''SETTINGS_FILE_TOO_LARGE'' then code else ''SETTINGS_LOAD_FAILED'') s
      | (Inr t, s) \<Rightarrow>
          (case parse env t of
             None \<Rightarrow>
               lock_throw ''SETTINGS_RECOVERY_REQUIRED''
                 ((if corrupt_hash s = Some (sha env t) then s else backup_text t s)\<lparr>corrupt_hash := Some (sha env t)\<rparr>)
           | Some raw \<Rightarrow>
               (case adopt_document env t raw s of
                  (Inr _, u) \<Rightarrow> (Inr (st_root u), u\<lparr>corrupt_hash := None\<rparr>)
                | (Inl code, u) \<Rightarrow> lock_throw (or_code (storage_error u) (or_code (Some code) ''SETTINGS_INVALID'')) u)))"

definition recover_corrupt :: "store_env \<Rightarrow> (store, string, unit) act" where
  "recover_corrupt env s0 =
     (case read_settings s0 of
        (Inl _, s) \<Rightarrow> lock_throw ''SETTINGS_LOAD_FAILED'' s
      | (Inr t, s) \<Rightarrow>
          if Some (sha env t) = corrupt_hash s then
            (case save env (fresh_root env) (s\<lparr>known_hash := corrupt_hash s, storage_error := None\<rparr>) of
               (r, u) \<Rightarrow>
                 if save_state r = SaveCommitted \<and> save_durable r then (Inr (), u\<lparr>corrupt_hash := None\<rparr>)
                 else lock_throw (or_code (save_code r) ''SETTINGS_RECOVERY_REQUIRED'') u)
          else (case load env s of (Inl c, u) \<Rightarrow> (Inl c, u) | (Inr _, u) \<Rightarrow> (Inr (), u)))"

definition retry_load :: "store_env \<Rightarrow> bool \<Rightarrow> (store, string, jsval) act" where
  "retry_load env allowCorruptRecovery s =
     bindM (if allowCorruptRecovery \<and> storage_error s = Some ''SETTINGS_RECOVERY_REQUIRED'' \<and> corrupt_hash s \<noteq> None
            then recover_corrupt env else bindM (load env) (\<lambda>_. retM ())) (\<lambda>_.
     bindM (tryM sync_directory (\<lambda>_. lock_throw ''SETTINGS_DURABILITY_UNCERTAIN'')) (\<lambda>_.
     bindM (modifyM (\<lambda>s. s\<lparr>storage_error := None\<rparr>)) (\<lambda>_. readM st_root))) s"

section \<open>Facts about the file\<close>

fun js_units :: "jsval \<Rightarrow> bool" where
  "js_units (JStr s) = units s"
| "js_units (JArr vs) = list_all js_units vs"
| "js_units (JObj _ ps) = list_all (\<lambda>(k, v). units k \<and> js_units v) ps"
| "js_units _ = True"

lemma encoded_units_append [simp]: "units (a @ b) \<longleftrightarrow> units a \<and> units b"
  by (auto simp: units_def)

lemma units_Cons [simp]: "units (u # s) \<longleftrightarrow> u < 65536 \<and> units s"
  by (auto simp: units_def)

lemma units_Nil [simp]: "units []"
  by (simp add: units_def)

lemma units_escape: "u < 65536 \<Longrightarrow> units (escape_unit u)"
proof -
  assume u: "u < 65536"
  have d: "hex_digit d < 65536" if "d < 65000" for d
    using that by (simp add: hex_digit_def)
  have "u div 4096 < 65000" "x mod 16 < 65000" for x :: nat using u by (auto intro: less_trans [of _ 16])
  then show ?thesis using u d by (simp add: escape_unit_def unicode_escape_def)
qed

lemma units_body: "units s \<Longrightarrow> units (json_body s)"
  by (induction s rule: json_body.induct) (auto simp: units_escape)

lemma units_concat: "\<forall>x\<in>set xs. units x \<Longrightarrow> units (concat xs)"
  by (induction xs) auto

lemma units_bracketed:
  assumes "l < 65536" "r < 65536" "units ind" "\<forall>i\<in>set items. units i"
  shows "units (bracketed l r ind items)"
  using assms by (cases items) (auto simp: bracketed_def intro!: units_concat)

lemma units_int: "units (int_text n)"
  using int_text_ascii [of _ n] by (fastforce simp: units_def)

lemma units_pretty: "js_units v \<Longrightarrow> units ind \<Longrightarrow> units (json_pretty ind v)"
proof (induction ind v rule: json_pretty.induct)
  case (4 ind vs)
  then show ?case unfolding json_pretty.simps by (intro units_bracketed) (auto simp: list_all_iff)
next
  case (5 ind p ps)
  then show ?case unfolding json_pretty.simps
    by (intro units_bracketed) (fastforce simp: list_all_iff json_quote_def units_body)+
qed (auto simp: json_quote_def units_body units_int)

lemma units_copy: "js_units v \<Longrightarrow> js_units (json_copy v)"
  by (induction v rule: json_copy.induct) (auto simp: list_all_iff)

lemma decode_serialized: "js_units v \<Longrightarrow> utf8_decode (utf8 (serialized_json v)) = Some (serialized_json v)"
  by (rule utf8_roundtrip)
    (simp_all add: serialized_json_def well_formed_append json_pretty_well_formed units_pretty
      is_surrogate_def is_hi_def is_lo_def well_formed_Cons_plain)


definition file_text :: "store \<Rightarrow> jsstr option" where
  "file_text s = (case disk_file s of None \<Rightarrow> None | Some bs \<Rightarrow> utf8_decode bs)"

lemma read_blocks_all: "read_blocks m g bytes acc = Inr bs \<Longrightarrow> bs = acc @ bytes"
proof (induction m g bytes acc rule: read_blocks.induct)
  case (1 m g bytes acc)
  let ?block = "take (min 65536 (m - g + 1)) bytes"
  have step: "read_blocks m g bytes acc = (if ?block = [] then Inr acc else if g + length ?block > m then Inl ''SETTINGS_FILE_TOO_LARGE''
      else read_blocks m (g + length ?block) (drop (length ?block) bytes) (acc @ ?block))"
    unfolding read_blocks.simps [of m g bytes acc] Let_def ..
  show ?case
  proof (cases "?block = []")
    case True
    then have "bytes = []" by (cases bytes) (auto simp: min_def split: if_splits)
    then show ?thesis using "1.prems" step by simp
  next
    case False
    then have no: "\<not> g + length ?block > m" and rec: "read_blocks m (g + length ?block) (drop (length ?block) bytes) (acc @ ?block) = Inr bs"
      using "1.prems" step by (auto split: if_splits)
    have "bs = (acc @ ?block) @ drop (length ?block) bytes"
      using "1.IH" [OF refl False no rec] .
    moreover have "take n bytes @ drop (length (take n bytes)) bytes = bytes" for n
      by (cases "n \<le> length bytes") simp_all
    ultimately show ?thesis unfolding append_assoc by metis
  qed
qed

lemma harmless_file: "harmless s = (r, t) \<Longrightarrow> t = s\<lparr>io := io t\<rparr>"
  by (auto simp: syscall_def next_io_def split: list.splits io_outcome.splits)

lemma syscall_frame: "syscall e s = (r, t) \<Longrightarrow> t = s\<lparr>io := io t, disk_file := disk_file t\<rparr> \<and> disk_file t \<in> {disk_file s, e (disk_file s)}
    \<and> (r = Inr () \<longrightarrow> disk_file t = e (disk_file s))"
  by (auto simp: syscall_def next_io_def split: list.splits io_outcome.splits)

lemma harmless_for: "forM (\<lambda>_. harmless) xs s = (r, t) \<Longrightarrow> t = s\<lparr>io := io t\<rparr>"
proof (induction xs arbitrary: s)
  case Nil
  then show ?case by (simp add: retM_def)
next
  case (Cons x xs)
  obtain a u where h: "harmless s = (a, u)" by fastforce
  have u: "u = s\<lparr>io := io u\<rparr>" using harmless_file [OF h] .
  show ?case
  proof (cases a)
    case (Inl e)
    then show ?thesis using Cons.prems h u by (auto simp: bindM_def)
  next
    case (Inr b)
    then have "forM (\<lambda>_. harmless) xs u = (r, t)" using Cons.prems h by (simp add: bindM_def)
    then have "t = u\<lparr>io := io t\<rparr>" by (rule Cons.IH)
    then show ?thesis using u by (metis store.surjective store.update_convs(7) store.select_convs(7))
  qed
qed

lemma read_blocks_code: "read_blocks m g bytes acc = Inl c \<Longrightarrow> c = ''SETTINGS_FILE_TOO_LARGE''"
proof (induction m g bytes acc rule: read_blocks.induct)
  case (1 m g bytes acc)
  then show ?case by (subst (asm) (2) read_blocks.simps) (auto simp: Let_def split: if_splits)
qed

lemma read_frame:
  assumes "read_settings s = (r, t)"
  shows "t = s\<lparr>io := io t\<rparr>" and "r = Inr x \<Longrightarrow> file_text s = Some x" and "r = Inl ''ENOENT'' \<longleftrightarrow> disk_file s = None"
proof -
  obtain a u where h: "harmless s = (a, u)" by fastforce
  have u: "u = s\<lparr>io := io u\<rparr>" using harmless_file [OF h] .
  show "t = s\<lparr>io := io t\<rparr>"
    using assms h u by (auto simp: read_settings_def read_utf8_file_limited_def split: option.splits sum.splits)
  show "r = Inr x \<Longrightarrow> file_text s = Some x"
    using assms h by (auto simp: read_settings_def read_utf8_file_limited_def file_text_def
        split: option.splits sum.splits dest!: read_blocks_all)
  show "r = Inl ''ENOENT'' \<longleftrightarrow> disk_file s = None"
    using assms h by (auto simp: read_settings_def read_utf8_file_limited_def read_failure_def bindR_def
        split: option.splits sum.splits if_splits dest!: read_blocks_code)
qed

lemma atomic_write_frame:
  assumes "atomic_write_json env m v s = (r, t)"
  shows "t = s\<lparr>io := io t, disk_file := disk_file t\<rparr>"
    and "disk_file t \<in> {disk_file s, Some (utf8 (serialized_json v))}"
    and "\<And>h. r = Inr h \<Longrightarrow> disk_file t = Some (utf8 (serialized_json v)) \<and> h = sha env (serialized_json v)"
    and "\<And>e. r = Inl e \<Longrightarrow> we_hash e = sha env (serialized_json v)"
    and "\<And>e. r = Inl e \<Longrightarrow> we_replacement e = NotReplaced \<Longrightarrow> disk_file t = disk_file s"
proof -
  let ?new = "Some (utf8 (serialized_json v))"
  obtain a u where p: "prepare_temporary s = (a, u)" by fastforce
  have u: "u = s\<lparr>io := io u\<rparr>" using harmless_for p unfolding prepare_temporary_def by blast
  obtain b w where rn: "syscall (\<lambda>_. ?new) u = (b, w)" by fastforce
  note w = syscall_frame [OF rn]
  obtain c x where sd: "sync_directory w = (c, x)" by fastforce
  have x: "x = w\<lparr>io := io x\<rparr>" using harmless_file sd unfolding sync_directory_def by blast
  have frames: "u = s\<lparr>io := io u, disk_file := disk_file u\<rparr>" "disk_file u = disk_file s"
    "w = s\<lparr>io := io w, disk_file := disk_file w\<rparr>" "disk_file w \<in> {disk_file s, ?new}"
    "x = s\<lparr>io := io x, disk_file := disk_file x\<rparr>" "disk_file x = disk_file w"
    using u w x by (cases s; cases u; cases w; cases x; auto)+
  consider (big) "byte_length (serialized_json v) > m" "t = s" "r = Inl (failed_write NotReplaced (sha env (serialized_json v)) ''SETTINGS_FILE_TOO_LARGE'')"
    | (prep) code where "t = u" "r = Inl (failed_write NotReplaced (sha env (serialized_json v)) code)"
    | (ren) code where "t = w" "r = Inl (failed_write UnknownReplaced (sha env (serialized_json v)) code)"
    | (sync) code where "t = x" "b = Inr ()" "r = Inl (failed_write Replaced (sha env (serialized_json v)) code)"
    | (ok) "t = x" "b = Inr ()" "r = Inr (sha env (serialized_json v))"
    using assms by (auto simp: atomic_write_json_def Let_def p rn sd split: if_splits sum.splits)
  note C = this
  show "t = s\<lparr>io := io t, disk_file := disk_file t\<rparr>" using C frames by cases auto
  show "disk_file t \<in> {disk_file s, ?new}" using C frames by cases auto
  show "disk_file t = ?new \<and> h = sha env (serialized_json v)" if "r = Inr h" for h
    using C that frames w by cases auto
  show "we_hash e = sha env (serialized_json v)" if "r = Inl e" for e
    using C that by cases (auto simp: failed_write_def)
  show "disk_file t = disk_file s" if "r = Inl e" "we_replacement e = NotReplaced" for e
    using C that frames by cases (auto simp: failed_write_def)
qed

lemma actual_hash_frame:
  assumes "actual_hash env s = (a, t)"
  shows "t = s\<lparr>io := io t\<rparr>" and "a = Some (Some h) \<Longrightarrow> \<exists>x. file_text s = Some x \<and> h = sha env x"
    and "a = Some None \<Longrightarrow> disk_file s = None"
proof -
  obtain r u where rd: "read_settings s = (r, u)" by fastforce
  note R = read_frame [OF rd]
  have au: "t = u" and a: "a = (case r of Inr x \<Rightarrow> Some (Some (sha env x)) | Inl code \<Rightarrow> if code = ''ENOENT'' then Some None else None)"
    using assms rd by (auto simp: actual_hash_def split: sum.splits)
  show "t = s\<lparr>io := io t\<rparr>" using R(1) au by simp
  show "a = Some (Some h) \<Longrightarrow> \<exists>x. file_text s = Some x \<and> h = sha env x"
    using a R(2) by (auto split: sum.splits if_splits)
  show "a = Some None \<Longrightarrow> disk_file s = None"
    using a R(3) by (auto split: sum.splits if_splits)
qed

section \<open>Saving\<close>

text \<open>What \<open>save\<close> returns when the write has failed, by what it then finds in the file.\<close>

lemma save_after_failure:
  assumes "\<not> is_locked s" "validate_root candidate = Inr ()"
    and "atomic_write_json env MAX_SETTINGS_FILE_BYTES (json_copy candidate) s = (Inl e, u)" "actual_hash env u = (a, x)"
  shows "save env candidate s =
    (if a = Some (Some (we_hash e)) then
       (refused SaveCommitted ''SETTINGS_DURABILITY_UNCERTAIN'',
        x\<lparr>st_root := json_copy candidate, known_hash := Some (we_hash e), storage_error := Some ''SETTINGS_DURABILITY_UNCERTAIN''\<rparr>)
     else if a = Some (known_hash x) then
       (refused SaveNotCommitted (if we_code e = ''SETTINGS_FILE_TOO_LARGE'' then we_code e else ''SETTINGS_SAVE_FAILED''), x)
     else (refused SaveUnknown ''SETTINGS_COMMIT_UNKNOWN'', x\<lparr>storage_error := Some ''SETTINGS_COMMIT_UNKNOWN''\<rparr>))"
  unfolding save_def using assms by simp

text \<open>A file whose hash is known and not the candidate's has not been replaced.\<close>

lemma known_file_kept:
  assumes "js_units candidate" "atomic_write_json env m (json_copy candidate) s = (Inl e, u)" "actual_hash env u = (a, x)"
    and "a \<noteq> Some (Some (we_hash e))" "a = Some h"
  shows "disk_file u = disk_file s"
proof (rule ccontr)
  let ?new = "serialized_json (json_copy candidate)"
  note W = atomic_write_frame [OF assms(2)] and A = actual_hash_frame [OF assms(3)]
  assume "disk_file u \<noteq> disk_file s"
  then have f: "file_text u = Some ?new"
    using W(2) decode_serialized [OF units_copy [OF assms(1)]] by (auto simp: file_text_def)
  then have "h \<noteq> None" using A(3) assms(5) by (cases h) (auto simp: file_text_def)
  then show False using A(2) [of "the h"] f W(4) [OF refl] assms(4,5) by auto
qed

text \<open>
  Claim C19: saving the settings is atomic.  Whatever the file system's calls do, afterwards the file
  is what it was or the whole text of the candidate.  A result \<open>committed\<close> means that the store has the
  candidate's value and the file its text (or, if it was not replaced, an old text with the same SHA-256,
  which is all the code compares), and a durable one that the text was synced;
  \<open>not_committed\<close> means that neither the file nor the store's value changed; \<open>unknown\<close> leaves the
  value and locks the store; and a locked store writes nothing at all.
\<close>

theorem save_atomic:
  assumes "js_units candidate" and "save env candidate s = (r, t)"
  shows "disk_file t \<in> {disk_file s, Some (utf8 (serialized_json (json_copy candidate)))}
    \<and> (save_state r = SaveCommitted \<longrightarrow> st_root t = json_copy candidate
         \<and> (file_text t = Some (serialized_json (json_copy candidate))
            \<or> disk_file t = disk_file s \<and> (\<exists>x. file_text s = Some x \<and> sha env x = sha env (serialized_json (json_copy candidate)))))
    \<and> (save_durable r \<longrightarrow> save_state r = SaveCommitted \<and> disk_file t = Some (utf8 (serialized_json (json_copy candidate))))
    \<and> (save_state r = SaveNotCommitted \<longrightarrow> st_root t = st_root s \<and> disk_file t = disk_file s)
    \<and> (save_state r = SaveUnknown \<longrightarrow> st_root t = st_root s \<and> is_locked t)
    \<and> (is_locked s \<longrightarrow> t = s \<and> save_state r = SaveNotCommitted)"
proof (cases "is_locked s \<or> (\<exists>code. validate_root candidate = Inl code)")
  case True
  then show ?thesis using assms(2) by (auto simp: save_def refused_def split: if_splits)
next
  case False
  then have unl: "\<not> is_locked s" "validate_root candidate = Inr ()" by (auto simp: sum.case_eq_if) (metis old.unit.exhaust sum.exhaust)
  obtain w u where aw: "atomic_write_json env MAX_SETTINGS_FILE_BYTES (json_copy candidate) s = (w, u)" by fastforce
  note W = atomic_write_frame [OF aw]
  have dec: "utf8_decode (utf8 (serialized_json (json_copy candidate))) = Some (serialized_json (json_copy candidate))"
    by (rule decode_serialized [OF units_copy [OF assms(1)]])
  have keep: "st_root u = st_root s" using arg_cong [OF W(1), of st_root] by simp
  show ?thesis
  proof (cases w)
    case (Inr h)
    then show ?thesis using assms(2) unl aw W(3) [OF Inr] dec by (auto simp: save_def file_text_def Let_def)
  next
    case (Inl e)
    obtain a x where ah: "actual_hash env u = (a, x)" by fastforce
    note A = actual_hash_frame [OF ah] and aw = aw [unfolded Inl]
    have x: "disk_file x = disk_file u" "st_root x = st_root u" "file_text x = file_text u"
      using arg_cong [OF A(1), of disk_file] arg_cong [OF A(1), of st_root] by (simp_all add: file_text_def)
    have same: "file_text u = Some (serialized_json (json_copy candidate))
        \<or> disk_file u = disk_file s \<and> (\<exists>y. file_text s = Some y \<and> sha env y = sha env (serialized_json (json_copy candidate)))"
      if "a = Some (Some (we_hash e))"
      using A(2) [OF that] W(2,4) Inl dec by (auto simp: file_text_def)
    note run = assms(2) [unfolded save_after_failure [OF unl aw ah]]
    consider (committed) "a = Some (Some (we_hash e))" | (known) "a \<noteq> Some (Some (we_hash e))" "a = Some (known_hash x)"
      | (unknown) "a \<noteq> Some (Some (we_hash e))" "a \<noteq> Some (known_hash x)" by blast
    then show ?thesis
    proof cases
      case committed
      with run have "save_state r = SaveCommitted" "\<not> save_durable r" "st_root t = json_copy candidate" "disk_file t = disk_file u" "file_text t = file_text u"
        using x by (auto simp: refused_def file_text_def)
      then show ?thesis using same [OF committed] W(2) unl(1) by auto
    next
      case known
      with run have "save_state r = SaveNotCommitted" "\<not> save_durable r" "st_root t = st_root s" "disk_file t = disk_file u"
        using x keep by (auto simp: refused_def)
      then show ?thesis using known_file_kept [OF assms(1) aw ah known] unl(1) by auto
    next
      case unknown
      with run have "save_state r = SaveUnknown" "\<not> save_durable r" "st_root t = st_root s" "disk_file t = disk_file u" "is_locked t"
        using x keep by (auto simp: refused_def is_locked_def)
      then show ?thesis using W(2) unl(1) by auto
    qed
  qed
qed

section \<open>Loading\<close>

lemma save_disk:
  assumes "save env c s = (r, t)"
  shows "disk_file t \<in> {disk_file s, Some (utf8 (serialized_json (json_copy c)))}"
    and "save_durable r \<Longrightarrow> \<not> is_locked t \<and> st_root t = json_copy c"
proof -
  obtain w u where aw: "atomic_write_json env MAX_SETTINGS_FILE_BYTES (json_copy c) s = (w, u)" by fastforce
  note W = atomic_write_frame [OF aw]
  have lk: "storage_error u = storage_error s" using arg_cong [OF W(1), of storage_error] by simp
  have x: "disk_file x = disk_file u" if "actual_hash env u = (a, x)" for a x
    using arg_cong [OF actual_hash_frame(1) [OF that], of disk_file] by simp
  show "disk_file t \<in> {disk_file s, Some (utf8 (serialized_json (json_copy c)))}"
    using assms aw W(2) by (auto simp: save_def Let_def dest!: x split: if_splits sum.splits prod.splits)
  show "save_durable r \<Longrightarrow> \<not> is_locked t \<and> st_root t = json_copy c"
    using assms aw lk by (auto simp: save_def refused_def is_locked_def Let_def split: if_splits sum.splits prod.splits)
qed

lemma harmless_fields: "harmless s = (r, t) \<Longrightarrow> disk_file t = disk_file s \<and> storage_error t = storage_error s \<and> st_root t = st_root s"
  by (drule harmless_file) (metis store.surjective store.update_convs(7) store.select_convs(1,3,6))

lemma backup_fields: "disk_file (backup_text x s) = disk_file s"
proof -
  obtain r t where f: "forM (\<lambda>_. harmless) [''open'', ''fchmod'', ''write'', ''fsync''] s = (r, t)" by fastforce
  have "disk_file t = disk_file s" using arg_cong [OF harmless_for [OF f], of disk_file] by simp
  then show ?thesis unfolding backup_text_def f by (cases r) simp_all
qed

definition migrated_file :: "store_env \<Rightarrow> store \<Rightarrow> byte list option \<Rightarrow> bool" where
  "migrated_file env s f \<longleftrightarrow> (\<exists>x raw candidate cookie. file_text s = Some x \<and> parse env x = Some raw
     \<and> missing_key (js ''schemaVersion'') raw \<and> migrate env raw = Inr (candidate, cookie)
     \<and> f = Some (utf8 (serialized_json (json_copy candidate))))"

lemma adopt_document_disk:
  assumes "adopt_document env x raw s = (r, t)"
  shows "disk_file t = disk_file s \<or> (\<exists>candidate cookie. missing_key (js ''schemaVersion'') raw \<and> migrate env raw = Inr (candidate, cookie)
      \<and> disk_file t = Some (utf8 (serialized_json (json_copy candidate))))"
    and "r = Inr () \<Longrightarrow> \<not> is_locked t"
proof -
  have sd: "disk_file u = disk_file s" if "sync_directory s = (a, u)" for a u
    using that harmless_fields by (auto simp: sync_directory_def)
  show "disk_file t = disk_file s \<or> (\<exists>candidate cookie. missing_key (js ''schemaVersion'') raw \<and> migrate env raw = Inr (candidate, cookie)
      \<and> disk_file t = Some (utf8 (serialized_json (json_copy candidate))))"
    using assms
    by (auto simp: adopt_document_def Let_def simp del: js_simps split: if_splits sum.splits prod.splits dest!: save_disk(1) sd)
  show "r = Inr () \<Longrightarrow> \<not> is_locked t"
    using assms save_disk(2)
    by (fastforce simp: adopt_document_def Let_def is_locked_def simp del: js_simps split: if_splits sum.splits prod.splits)
qed

text \<open>Claim C20: loading the settings never destroys a file it cannot use.  Afterwards the file is as it was,
  unless it held a legacy document (an object without \<open>schemaVersion\<close>) that migrates to a valid one,
  which then replaces it.  If \<open>load\<close> throws, the store is locked with the code thrown; if it
  returns, the store is not locked.\<close>

theorem load_preserves_file:
  assumes "load env s = (r, t)"
  shows "(disk_file t = disk_file s \<or> migrated_file env s (disk_file t))
    \<and> (case r of Inl code \<Rightarrow> storage_error t = Some code | Inr v \<Rightarrow> \<not> is_locked t \<and> st_root t = v)"
proof -
  obtain a u where rd: "read_settings s = (a, u)" by fastforce
  note R = read_frame [OF rd]
  have u: "disk_file u = disk_file s" "file_text u = file_text s"
    using arg_cong [OF R(1), of disk_file] by (simp_all add: file_text_def)
  show ?thesis
  proof (cases a)
    case (Inl code)
    then show ?thesis using assms rd u
      by (auto simp: load_def lock_throw_def is_locked_def split: if_splits option.splits sum.splits)
  next
    case (Inr x)
    show ?thesis
    proof (cases "parse env x")
      case None
      then show ?thesis using assms rd u Inr by (auto simp: load_def lock_throw_def backup_fields)
    next
      case (Some raw)
      obtain b w where ad: "adopt_document env x raw u = (b, w)" by fastforce
      note A = adopt_document_disk [OF ad]
      have f: "disk_file w = disk_file s \<or> migrated_file env s (disk_file w)"
        using A(1) R(2) [OF Inr] Some u unfolding migrated_file_def by metis
      show ?thesis
        using assms rd Inr Some ad f A(2)
        by (cases b) (auto simp: load_def lock_throw_def is_locked_def)
    qed
  qed
qed

section \<open>Witnesses\<close>

definition demo_env :: store_env where
  "demo_env = \<lparr>sha = (\<lambda>t. dec (length t)), parse = (\<lambda>t. if t = serialized_json (create_default_root []) then Some (create_default_root []) else None),
     migrate_secrets = None, inspect_identity = (\<lambda>_. None), store_defaults = []\<rparr>"

definition demo_store :: "io_outcome list \<Rightarrow> store" where
  "demo_store script = \<lparr>st_root = create_default_root [], known_hash = None, storage_error = None, corrupt_hash = None,
     migrated_cookie = [], disk_file = None, io = script, backups = []\<rparr>"

text \<open>A rename that reports its error after it took effect.\<close>

definition demo_script :: "io_outcome list" where
  "demo_script = replicate 6 Works @ [ThrowsLate ''EIO'']"

lemma demo_units: "js_units (create_default_root [])"
  by code_simp

lemma demo_copy: "json_copy (create_default_root []) = create_default_root []"
  by code_simp

lemma save_atomic_witness:
  "disk_file (snd (save demo_env (create_default_root []) (demo_store demo_script)))
     \<in> {None, Some (utf8 (serialized_json (create_default_root [])))}"
  using save_atomic [of "create_default_root []" demo_env "demo_store demo_script", OF demo_units surjective_pairing]
  by (simp add: demo_copy demo_store_def)

lemma load_preserves_file_witness:
  "disk_file (snd (load demo_env (demo_store []))) = None
   \<or> migrated_file demo_env (demo_store []) (disk_file (snd (load demo_env (demo_store []))))"
  using load_preserves_file [of demo_env "demo_store []", OF surjective_pairing] by (simp add: demo_store_def)

end
