(* ===== verification/PortalClient.thy ===== *)
theory PortalClient
  imports SettingsDocument "HOL-Library.AList"
begin

text \<open>
  \<^verbatim>\<open>electron/portal-api/client.js\<close>: one HTTPS request to the portal at a time per call of \<open>perform\<close>, with
  its deadline, its cancellation and its limits.

  \<^item> \<open>perform\<close> is written in the state and error combinators over the record \<open>pcall\<close>: what the call
    owns (timer, abort listener, its entry in \<open>active\<close>), and what the environment does.
  \<^item> Nothing happens to a call while it runs synchronously.  At every \<open>await\<close> the next entry of
    \<open>p_waits\<close> is a list of interrupts: the deadline, an abort, the disposal of the client, a scope
    that becomes stale, an upload that fails early.
  \<^item> The server's answer, its body in chunks and the chunks of an uploaded stream are scripts.
    A stream that has been destroyed ends with the failure it was destroyed with.
  \<^item> The client's authority (\<open>baseUrl\<close>, \<open>allowedHosts\<close>, \<open>tlsCa\<close>) goes through Node's \<open>URL\<close> and TLS and is
    not modelled; a request is what is handed to \<open>https.request\<close> for that authority.
\<close>

section \<open>Errors\<close>

datatype portal_kind = AUTH | NETWORK | TIMEOUT | PERMISSION | NOT_FOUND | UNIMPLEMENTED | QUOTA | UNKNOWN | CANCELLED

type_synonym portal_error = "portal_kind \<times> nat option"

definition portal_code :: "portal_kind \<Rightarrow> string" where
  "portal_code k = (case k of AUTH \<Rightarrow> ''PORTAL_AUTH'' | NETWORK \<Rightarrow> ''PORTAL_NETWORK'' | TIMEOUT \<Rightarrow> ''PORTAL_TIMEOUT''
     | PERMISSION \<Rightarrow> ''PORTAL_PERMISSION'' | NOT_FOUND \<Rightarrow> ''PORTAL_NOT_FOUND'' | UNIMPLEMENTED \<Rightarrow> ''PORTAL_UNIMPLEMENTED''
     | QUOTA \<Rightarrow> ''PORTAL_QUOTA'' | UNKNOWN \<Rightarrow> ''PORTAL_UNKNOWN'' | CANCELLED \<Rightarrow> ''PORTAL_CANCELLED'')"

section \<open>The token of a Cookie\<close>

definition token_name :: jsstr where
  "token_name = js ''SCOW_USER=''"

text \<open>\<open>cookie.replace(/; */g, ';')\<close>\<close>

function strip_separators :: "jsstr \<Rightarrow> jsstr" where
  "strip_separators [] = []"
| "strip_separators (u # s) = (if u = 59 then 59 # strip_separators (dropWhile (\<lambda>v. v = 32) s) else u # strip_separators s)"
  by pat_completeness auto

termination strip_separators
  by (relation "measure length") (auto simp: le_imp_less_Suc length_dropWhile_le)

definition token_unit_bad :: "nat \<Rightarrow> bool" where
  "token_unit_bad u \<longleftrightarrow> is_space u \<or> u = 59 \<or> u = 44 \<or> u = 34 \<or> u = 92"

definition extract_scow_token :: "jsval \<Rightarrow> portal_kind + jsstr option" where
  "extract_scow_token cookie =
     (case validate_cookie cookie of
        Inl _ \<Rightarrow> Inl UNKNOWN
      | Inr s \<Rightarrow>
          if list_ex (\<lambda>u. u \<le> 32 \<or> 127 \<le> u \<and> u \<le> 159) (strip_separators s) then Inl UNKNOWN
          else
            (case filter (\<lambda>p. starts_with p token_name) (map js_trim (split_on 59 s)) of
               [] \<Rightarrow> Inr None
             | [m] \<Rightarrow>
                 (let token = drop (length token_name) m in
                  if token = [] \<or> list_ex token_unit_bad token then Inl UNKNOWN else Inr (Some token))
             | _ \<Rightarrow> Inl UNKNOWN))"

section \<open>The meaning of an error status\<close>

definition VALIDATE_PATH :: jsstr where
  "VALIDATE_PATH = js ''/api/auth/validateToken''"

definition lower_ascii :: "nat \<Rightarrow> nat" where
  "lower_ascii u = (if 65 \<le> u \<and> u \<le> 90 then u + 32 else u)"

text \<open>\<open>/^application\/json(?:\s*;|$)/i\<close>\<close>

definition json_type :: "jsstr \<Rightarrow> bool" where
  "json_type s \<longleftrightarrow> (let p = js ''application/json''; rest = drop (length p) s in
     map lower_ascii (take (length p) s) = p \<and> (rest = [] \<or> take 1 (dropWhile is_space rest) = [59]))"

type_synonym parser = "jsstr \<Rightarrow> jsval option"

definition classify_status :: "parser \<Rightarrow> nat \<Rightarrow> byte list \<Rightarrow> jsstr \<Rightarrow> jsstr option \<Rightarrow> portal_kind" where
  "classify_status parse status body path content_type =
     (let value = parse (utf8_lossy body);
          code = (case value of None \<Rightarrow> JUndef | Some v \<Rightarrow> getProp v (js ''code'')) in
      if status = 401 then AUTH
      else if status = 403 then
        (let empty_json = (body = [] \<and> json_type (case content_type of None \<Rightarrow> [] | Some t \<Rightarrow> t)) in
         if path = VALIDATE_PATH \<and> (value = Some JNull \<or> empty_json) then AUTH else PERMISSION)
      else if status = 404 then NOT_FOUND
      else if status = 501 then UNIMPLEMENTED
      else if status \<in> {413, 429, 507} \<or> code \<in> {JStr (js ''QUOTA_EXCEEDED''), JStr (js ''TOO_MANY_DESKTOPS'')} then QUOTA
      else UNKNOWN)"

section \<open>One call\<close>

definition MAX_JSON_BYTES :: nat where
  "MAX_JSON_BYTES = 1024 * 1024"

definition DEFAULT_STREAM_BYTES :: nat where
  "DEFAULT_STREAM_BYTES = 64 * 1024 * 1024"

datatype pmode = ModeJson | ModeText | ModeEmpty | ModeStream

text \<open>The body of a request: none, text, bytes, a value to encode, or a stream with its chunks (\<open>None\<close>: it fails).\<close>

datatype pbody = NoBody | TextBody jsstr | BytesBody "byte list" | ValueBody jsval | StreamBody "byte list option list"

record poptions =
  o_method :: string
  o_query :: "(jsstr \<times> jsval) list"
  o_headers :: "(jsstr \<times> jsval) list"
  o_authenticated :: jsval
  o_body :: pbody
  o_max :: jsval
  o_timeout :: jsval
  o_expected :: "nat list option"

record prequest =
  q_method :: string
  q_path :: jsstr
  q_query :: "(jsstr \<times> jsstr) list"
  q_headers :: "(jsstr \<times> jsstr) list"
  q_body :: "byte list option"

record presponse =
  s_status :: nat
  s_encoding :: "jsstr option"
  s_type :: "jsstr option"
  s_length :: "jsstr option"
  s_complete :: bool

datatype interrupt = DeadlineFires | AbortSignal | ClientDisposed | ScopeStale | UploadFails portal_kind

record pcall =
  p_failure :: "portal_error option"
  p_disposed :: bool
  p_aborted :: bool
  p_stale :: bool
  p_active :: bool
  p_listening :: bool
  p_timer :: "nat option"
  p_waits :: "interrupt list list"
  p_answer :: "presponse option"
  p_chunks :: "byte list option list"
  p_requests :: "prequest list"
  p_uploading :: bool
  p_uploaded :: "byte list option"

type_synonym 'a portal = "(pcall, portal_error, 'a) act"

definition release :: "pcall \<Rightarrow> pcall" where
  "release w = w\<lparr>p_timer := None, p_listening := False, p_active := False\<rparr>"

definition stop :: "portal_kind \<Rightarrow> pcall \<Rightarrow> pcall" where
  "stop k w = release (w\<lparr>p_failure := (case p_failure w of None \<Rightarrow> Some (k, None) | f \<Rightarrow> f)\<rparr>)"

fun interrupted :: "pcall \<Rightarrow> interrupt \<Rightarrow> pcall" where
  "interrupted w DeadlineFires = (if p_timer w \<noteq> None then stop TIMEOUT w else w)"
| "interrupted w AbortSignal = (let v = w\<lparr>p_aborted := True\<rparr> in if p_listening w then stop CANCELLED v else v)"
| "interrupted w ClientDisposed = (let v = w\<lparr>p_disposed := True\<rparr> in if p_active w then stop CANCELLED v else v)"
| "interrupted w ScopeStale = w\<lparr>p_stale := True\<rparr>"
| "interrupted w (UploadFails k) =
     (if p_uploading w then w\<lparr>p_failure := (case p_failure w of None \<Rightarrow> Some (k, None) | f \<Rightarrow> f)\<rparr> else w)"

definition await :: "unit portal" where
  "await w = (Inr (), case p_waits w of [] \<Rightarrow> w | is # rest \<Rightarrow> foldl interrupted (w\<lparr>p_waits := rest\<rparr>) is)"

definition fail :: "portal_kind \<Rightarrow> 'a portal" where
  "fail k = throwM (k, None)"

definition raise_failure :: "unit portal" where
  "raise_failure = bindM (readM p_failure) (\<lambda>f. case f of Some e \<Rightarrow> throwM e | None \<Rightarrow> retM ())"

definition check :: "unit portal" where
  "check = bindM raise_failure (\<lambda>_. bindM (readM (\<lambda>w. p_disposed w \<or> p_aborted w \<or> p_stale w)) (\<lambda>b. guardM (\<not> b) (CANCELLED, None)))"

text \<open>\<open>normalized\<close>: the first failure of the call explains every later error.\<close>

definition normalized :: "portal_error \<Rightarrow> 'a portal" where
  "normalized e = bindM (readM p_failure) (\<lambda>f. throwM (case f of Some x \<Rightarrow> x | None \<Rightarrow> e))"

text \<open>\<open>receive(limit)\<close>, its chunks collected.\<close>

primrec receive_chunks :: "presponse \<Rightarrow> nat \<Rightarrow> nat \<Rightarrow> byte list option list \<Rightarrow> byte list portal" where
  "receive_chunks r limit count [] =
     bindM await (\<lambda>_. bindM raise_failure (\<lambda>_. bindM check (\<lambda>_. if s_complete r then retM [] else fail NETWORK)))"
| "receive_chunks r limit count (c # cs) =
     bindM await (\<lambda>_. bindM raise_failure (\<lambda>_.
       case c of
         None \<Rightarrow> fail NETWORK
       | Some bs \<Rightarrow>
           bindM check (\<lambda>_. if limit < count + length bs then fail QUOTA
             else bindM (receive_chunks r limit (count + length bs) cs) (\<lambda>rest. retM (bs @ rest)))))"

definition collect :: "presponse \<Rightarrow> nat \<Rightarrow> byte list portal" where
  "collect r limit = bindM (readM p_chunks) (\<lambda>cs. tryM (receive_chunks r limit 0 cs) normalized)"

text \<open>The upload of a stream: exactly the announced number of bytes.\<close>

primrec counted :: "nat \<Rightarrow> nat \<Rightarrow> byte list option list \<Rightarrow> byte list portal" where
  "counted expected sent [] = (if sent = expected then retM [] else fail UNKNOWN)"
| "counted expected sent (c # cs) =
     bindM await (\<lambda>_. case c of
       None \<Rightarrow> fail NETWORK
     | Some bs \<Rightarrow> bindM check (\<lambda>_. if expected < sent + length bs then fail UNKNOWN
         else bindM (counted expected (sent + length bs) cs) (\<lambda>rest. retM (bs @ rest))))"

definition finish_upload :: "pbody \<Rightarrow> nat \<Rightarrow> unit portal" where
  "finish_upload body expected =
     (case body of
        StreamBody cs \<Rightarrow>
          bindM raise_failure (\<lambda>_. bindM (tryM (counted expected 0 cs) normalized)
            (\<lambda>bs. modifyM (\<lambda>w. w\<lparr>p_uploaded := Some bs\<rparr>)))
      | _ \<Rightarrow> retM ())"

section \<open>The request\<close>

definition API_METHODS :: "string list" where
  "API_METHODS = [''GET'', ''POST'', ''PATCH'']"

definition path_unit :: "nat \<Rightarrow> bool" where
  "path_unit u \<longleftrightarrow> is_alnum u \<or> u = 47 \<or> u = 95 \<or> u = 45"

definition api_path :: "jsstr \<Rightarrow> bool" where
  "api_path p \<longleftrightarrow> starts_with p (js ''/api/'') \<and> drop 5 p \<noteq> [] \<and> list_all path_unit (drop 5 p)"

fun query_pairs :: "(jsstr \<times> jsval) list \<Rightarrow> (jsstr \<times> jsstr) list \<Rightarrow> (jsstr \<times> jsstr) list" where
  "query_pairs [] acc = acc"
| "query_pairs ((k, v) # qs) acc = query_pairs qs (if nullish v then acc else AList.update k (js_text v) acc)"

definition EXTRA_HEADERS :: "jsstr list" where
  "EXTRA_HEADERS = [js ''content-type'', js ''content-length'', js ''accept'']"

fun extra_headers :: "(jsstr \<times> jsval) list \<Rightarrow> (jsstr \<times> jsstr) list \<Rightarrow> portal_kind + (jsstr \<times> jsstr) list" where
  "extra_headers [] acc = Inr acc"
| "extra_headers ((name, v) # hs) acc =
     (let key = map lower_ascii name in
      if key \<notin> set EXTRA_HEADERS then Inl UNKNOWN
      else if \<not> header_value_ok (js_text v) then Inl UNKNOWN
      else extra_headers hs (AList.update key (js_text v) acc))"

definition base_headers :: "pmode \<Rightarrow> (jsstr \<times> jsstr) list" where
  "base_headers mode =
     [(js ''Accept'', if mode = ModeStream then js ''application/octet-stream'' else js ''application/json''),
      (js ''Accept-Encoding'', js ''identity'')]"

text \<open>\<open>JSON.stringify(v)\<close> without indentation.\<close>

definition joined :: "nat \<Rightarrow> nat \<Rightarrow> jsstr list \<Rightarrow> jsstr" where
  "joined l r items = [l] @ join_with 44 items @ [r]"

fun json_line :: "jsval \<Rightarrow> jsstr" where
  "json_line (JBool b) = (if b then js ''true'' else js ''false'')"
| "json_line (JNum n) = int_text n"
| "json_line (JStr s) = json_quote s"
| "json_line (JArr vs) = joined 91 93 (map json_line vs)"
| "json_line (JObj _ ps) = joined 123 125 (map (\<lambda>(k, v). json_quote k @ [58] @ json_line v) (filter (\<lambda>(k, v). v \<noteq> JUndef) ps))"
| "json_line _ = js ''null''"

text \<open>\<open>/^(?:0|[1-9]\d*)$/\<close> and a safe integer.\<close>

definition length_text :: "jsstr \<Rightarrow> nat option" where
  "length_text s =
     (if s = [48] \<or> (s \<noteq> [] \<and> list_all is_digit s \<and> hd s \<noteq> 48)
      then (let n = radix_value 10 s in if int n \<le> MAX_SAFE then Some n else None) else None)"

definition header :: "(jsstr \<times> jsstr) list \<Rightarrow> string \<Rightarrow> jsstr" where
  "header hs k = (case map_of hs (js k) of None \<Rightarrow> [] | Some v \<Rightarrow> v)"

definition body_bytes :: "pbody \<Rightarrow> byte list option" where
  "body_bytes b = (case b of TextBody s \<Rightarrow> Some (utf8 s) | BytesBody bs \<Rightarrow> Some bs | ValueBody v \<Rightarrow> Some (utf8 (json_line v)) | _ \<Rightarrow> None)"

text \<open>The headers that depend on the body, and the announced length of a stream.\<close>

definition body_headers :: "pbody \<Rightarrow> (jsstr \<times> jsstr) list \<Rightarrow> portal_kind + (jsstr \<times> jsstr) list \<times> nat" where
  "body_headers body hs =
     (case body of
        NoBody \<Rightarrow> Inr (hs, 0)
      | StreamBody _ \<Rightarrow> (case length_text (header hs ''content-length'') of None \<Rightarrow> Inl UNKNOWN | Some n \<Rightarrow> Inr (hs, n))
      | _ \<Rightarrow>
          (let hs = (case body of ValueBody _ \<Rightarrow> if header hs ''content-type'' = [] then AList.update (js ''content-type'') (js ''application/json'') hs else hs
                       | _ \<Rightarrow> hs) in
           Inr (AList.update (js ''content-length'') (dec (length (the (body_bytes body)))) hs, 0)))"

definition default_to :: "nat \<Rightarrow> jsval \<Rightarrow> jsval" where
  "default_to n v = (if nullish v then JNum (int n) else v)"

definition positive :: "jsval \<Rightarrow> nat option" where
  "positive v = (case v of JNum n \<Rightarrow> if n \<le> MAX_SAFE \<and> 1 \<le> n then Some (nat n) else None | _ \<Rightarrow> None)"

record pplan =
  l_request :: prequest
  l_announced :: nat
  l_maximum :: nat
  l_duration :: nat

text \<open>What \<open>perform\<close> checks and builds before it touches the network.\<close>

definition plan :: "jsstr option \<Rightarrow> jsval \<Rightarrow> jsstr \<Rightarrow> poptions \<Rightarrow> pmode \<Rightarrow> portal_kind + pplan" where
  "plan token timeout path opt mode =
     (let method = (if o_method opt = [] then ''GET'' else o_method opt) in
      if method \<notin> set API_METHODS \<or> \<not> api_path path then Inl UNKNOWN
      else bindR (extra_headers (o_headers opt) (base_headers mode)) (\<lambda>hs.
        bindR (if o_authenticated opt = JBool False then Inr hs
               else case token of None \<Rightarrow> Inl AUTH | Some t \<Rightarrow> Inr (AList.update (js ''Cookie'') (token_name @ t) hs)) (\<lambda>hs.
        bindR (body_headers (o_body opt) hs) (\<lambda>(hs, announced).
        case (positive (default_to (if mode = ModeStream then DEFAULT_STREAM_BYTES else MAX_JSON_BYTES) (o_max opt)),
              positive (if nullish (o_timeout opt) then (if mode = ModeStream then JNum 600000 else timeout) else o_timeout opt)) of
          (Some maximum, Some duration) \<Rightarrow>
            Inr \<lparr>l_request = \<lparr>q_method = method, q_path = path, q_query = query_pairs (o_query opt) [], q_headers = hs, q_body = body_bytes (o_body opt)\<rparr>,
                 l_announced = announced, l_maximum = maximum, l_duration = duration\<rparr>
        | _ \<Rightarrow> Inl UNKNOWN))))"

section \<open>The exchange\<close>

definition is_stream_body :: "pbody \<Rightarrow> bool" where
  "is_stream_body b = (case b of StreamBody _ \<Rightarrow> True | _ \<Rightarrow> False)"

datatype presult = JsonResult jsval | TextResult jsstr | NoResult | StreamResult presponse "nat option" jsstr nat

definition send :: "bool \<Rightarrow> prequest \<Rightarrow> presponse portal" where
  "send uploading q =
     bindM (modifyM (\<lambda>w. w\<lparr>p_requests := p_requests w @ [q], p_uploading := uploading\<rparr>)) (\<lambda>_.
     bindM await (\<lambda>_. bindM raise_failure (\<lambda>_.
     bindM (readM p_answer) (\<lambda>a. case a of None \<Rightarrow> fail NETWORK | Some r \<Rightarrow> retM r))))"

definition success :: "nat \<Rightarrow> bool" where
  "success status \<longleftrightarrow> 200 \<le> status \<and> status < 300"

definition refuse_status :: "parser \<Rightarrow> jsstr \<Rightarrow> presponse \<Rightarrow> 'a portal" where
  "refuse_status parse path r =
     bindM (collect r MAX_JSON_BYTES) (\<lambda>body.
     let e = (classify_status parse (s_status r) body path (s_type r), Some (s_status r)) in
     bindM (modifyM (\<lambda>w. w\<lparr>p_failure := Some e\<rparr>)) (\<lambda>_. throwM e))"

definition stream_result :: "presponse \<Rightarrow> nat \<Rightarrow> presult portal" where
  "stream_result r maximum =
     (let content_type = take 256 (case s_type r of None \<Rightarrow> [] | Some t \<Rightarrow> t) in
      case s_length r of
        None \<Rightarrow> retM (StreamResult r None content_type maximum)
      | Some raw \<Rightarrow>
          (case length_text raw of
             None \<Rightarrow> fail UNKNOWN
           | Some n \<Rightarrow> if maximum < n then fail QUOTA else retM (StreamResult r (Some n) content_type maximum)))"

definition body_result :: "parser \<Rightarrow> pmode \<Rightarrow> nat \<Rightarrow> byte list \<Rightarrow> presult portal" where
  "body_result parse mode status bs =
     (if mode = ModeEmpty then retM NoResult
      else if mode = ModeText then retM (TextResult (utf8_lossy bs))
      else if bs = [] \<and> status = 204 then retM (JsonResult JNull)
      else case parse (utf8_lossy bs) of None \<Rightarrow> fail UNKNOWN | Some v \<Rightarrow> retM (JsonResult v))"

definition exchange :: "parser \<Rightarrow> pmode \<Rightarrow> poptions \<Rightarrow> pplan \<Rightarrow> presult portal" where
  "exchange parse mode opt l =
     bindM check (\<lambda>_.
     bindM (modifyM (\<lambda>w. w\<lparr>p_active := True, p_listening := True, p_timer := Some (l_duration l)\<rparr>)) (\<lambda>_.
     bindM check (\<lambda>_.
     bindM (send (is_stream_body (o_body opt)) (l_request l)) (\<lambda>r.
     bindM check (\<lambda>_.
     bindM (guardM (s_encoding r \<in> {None, Some [], Some (js ''identity'')}) (UNKNOWN, None)) (\<lambda>_.
     if \<not> success (s_status r) then refuse_status parse (q_path (l_request l)) r
     else
       bindM (guardM (case o_expected opt of None \<Rightarrow> True | Some ss \<Rightarrow> s_status r \<in> set ss) (UNKNOWN, Some (s_status r))) (\<lambda>_.
       bindM (finish_upload (o_body opt) (l_announced l)) (\<lambda>_.
       bindM await (\<lambda>_.
       bindM check (\<lambda>_.
       if mode = ModeStream then stream_result r (l_maximum l)
       else bindM (collect r (min (l_maximum l) MAX_JSON_BYTES)) (body_result parse mode (s_status r))))))))))))"

definition is_stream :: "presult \<Rightarrow> bool" where
  "is_stream r = (case r of StreamResult _ _ _ _ \<Rightarrow> True | _ \<Rightarrow> False)"

definition released :: "'a portal \<Rightarrow> 'a portal" where
  "released m = finallyM m (modifyM release)"

text \<open>\<open>finally { if (!streamed) release(); }\<close>\<close>

definition unless_streamed :: "presult portal \<Rightarrow> presult portal" where
  "unless_streamed m w =
     (case m w of (Inr r, v) \<Rightarrow> (Inr r, if is_stream r then v else release v) | (Inl e, v) \<Rightarrow> (Inl e, release v))"

definition new_call :: "pcall \<Rightarrow> pcall" where
  "new_call w = w\<lparr>p_failure := None, p_active := False, p_listening := False, p_timer := None, p_uploading := False, p_uploaded := None\<rparr>"

definition perform :: "parser \<Rightarrow> jsval \<Rightarrow> jsstr option \<Rightarrow> jsstr \<Rightarrow> poptions \<Rightarrow> pmode \<Rightarrow> presult portal" where
  "perform parse timeout token path opt mode =
     bindM (readM p_disposed) (\<lambda>d. if d then fail CANCELLED
     else case plan token timeout path opt mode of
       Inl k \<Rightarrow> fail k
     | Inr l \<Rightarrow>
         bindM (modifyM new_call) (\<lambda>_. unless_streamed (tryM (exchange parse mode opt l) normalized)))"

text \<open>Reading the body of a stream; \<open>guarded\<close> releases the call when it ends, fails or is closed.\<close>

definition read_stream :: "presponse \<Rightarrow> nat \<Rightarrow> byte list portal" where
  "read_stream r maximum = released (collect r maximum)"

definition cancel_stream :: "unit portal" where
  "cancel_stream = modifyM (stop CANCELLED)"

end
