(* ===== verification/PortalAuth.thy ===== *)
theory PortalAuth
  imports PortalClient
begin

text \<open>
  \<^verbatim>\<open>electron/portal-api/auth-api.js\<close> and \<^verbatim>\<open>electron/portal-preflight.js\<close>: ask the portal whether the
  token of a Cookie is still good, and let it set up the account, before a proxy is started.  The calls run
  over the client of \<^verbatim>\<open>PortalClient\<close>; \<open>stale\<close> is the code \<open>assertCurrent\<close> throws, \<open>base_ok\<close> says whether
  the client accepts its base URL.
\<close>

section \<open>The API\<close>

datatype token_status = TokenValid | TokenInvalid string | TokenUnknown string

definition token_text_bad :: "nat \<Rightarrow> bool" where
  "token_text_bad u \<longleftrightarrow> token_unit_bad u \<or> u \<le> 31 \<or> u = 127"

definition get_options :: "poptions" where
  "get_options = \<lparr>o_method = ''GET'', o_query = [], o_headers = [], o_authenticated = JBool False, o_body = NoBody,
     o_max = JUndef, o_timeout = JUndef, o_expected = Some [200]\<rparr>"

definition identity_answer_ok :: "presult \<Rightarrow> bool" where
  "identity_answer_ok r = (case r of
     JsonResult v \<Rightarrow> (case getProp v (js ''identityId'') of JStr s \<Rightarrow> s \<noteq> [] | _ \<Rightarrow> False)
       \<and> (case getProp v (js ''name'') of JUndef \<Rightarrow> True | JStr _ \<Rightarrow> True | _ \<Rightarrow> False)
   | _ \<Rightarrow> False)"

definition validate_failure :: "portal_kind \<Rightarrow> token_status" where
  "validate_failure k = (if k = CANCELLED then TokenUnknown ''OPERATION_CANCELLED''
     else if k = AUTH then TokenInvalid ''AUTH_REQUIRED'' else TokenUnknown (portal_code k))"

definition validate_token :: "parser \<Rightarrow> jsstr option \<Rightarrow> jsstr \<Rightarrow> (pcall, string, token_status) act" where
  "validate_token parse own token =
     (if token = [] \<or> list_ex token_text_bad token then retM (TokenInvalid ''AUTH_REQUIRED'')
      else (\<lambda>w. case perform parse (JNum 10000) own VALIDATE_PATH (get_options\<lparr>o_query := [(js ''token'', JStr token)]\<rparr>) ModeJson w of
          (Inl (k, _), w) \<Rightarrow> (Inr (validate_failure k), w)
        | (Inr r, w) \<Rightarrow> (Inr (if identity_answer_ok r then TokenValid else validate_failure UNKNOWN), w)))"

definition setup_failure :: "portal_kind \<Rightarrow> string" where
  "setup_failure k = (if k = CANCELLED then ''OPERATION_CANCELLED'' else if k = TIMEOUT then ''PORTAL_TIMEOUT'' else ''PORTAL_NETWORK'')"

text \<open>The result is the error code, if any.\<close>

definition setup_call :: "parser \<Rightarrow> jsstr option \<Rightarrow> jsval \<Rightarrow> (pcall, string, string option) act" where
  "setup_call parse own timeout = (\<lambda>w.
     case perform parse (JNum 10000) own (js ''/api/setup'')
         (get_options\<lparr>o_timeout := (if nullish timeout then JNum 4000 else timeout)\<rparr>) ModeText w of
       (Inl (k, _), w) \<Rightarrow> (Inr (Some (setup_failure k)), w)
     | (Inr (TextResult t), w) \<Rightarrow>
         (Inr (if js_trim t \<in> {js ''Setup complete'', js ''Already setup''} then None else Some (setup_failure UNKNOWN)), w)
     | (Inr _, w) \<Rightarrow> (Inr (Some (setup_failure UNKNOWN)), w))"

section \<open>The preflight\<close>

definition OPERATIONAL_CODES :: "string list" where
  "OPERATIONAL_CODES = [''PORTAL_NETWORK'', ''PORTAL_TIMEOUT'', ''PORTAL_PERMISSION'', ''PORTAL_NOT_FOUND'', ''PORTAL_UNIMPLEMENTED'',
     ''PORTAL_QUOTA'', ''PORTAL_UNKNOWN'', ''OPERATION_CANCELLED'']"

definition operational_code :: "string \<Rightarrow> string" where
  "operational_code code = (if code \<in> set OPERATIONAL_CODES then code else ''PORTAL_NETWORK'')"

definition assert_fresh :: "string \<Rightarrow> (pcall, string, unit) act" where
  "assert_fresh stale = bindM (readM p_aborted) (\<lambda>a. if a then throwM ''OPERATION_CANCELLED''
     else bindM (readM p_stale) (\<lambda>b. guardM (\<not> b) stale))"

text \<open>The client exists only for the call: \<open>client.dispose()\<close> in \<open>finally\<close>.\<close>

definition dispose_client :: "pcall \<Rightarrow> pcall" where
  "dispose_client w = interrupted w ClientDisposed"

definition call_portal :: "bool \<Rightarrow> string \<Rightarrow> jsval \<Rightarrow> (jsstr option \<Rightarrow> (pcall, string, 'a) act) \<Rightarrow> (pcall, string, 'a) act" where
  "call_portal base_ok stale cookie execute =
     bindM (assert_fresh stale) (\<lambda>_.
       case (if base_ok then extract_scow_token cookie else Inl UNKNOWN) of
         Inl k \<Rightarrow> throwM (portal_code k)
       | Inr own \<Rightarrow>
           bindM (modifyM (\<lambda>w. w\<lparr>p_disposed := False\<rparr>)) (\<lambda>_.
           finallyM (bindM (execute own) (\<lambda>r. bindM (assert_fresh stale) (\<lambda>_. retM r))) (modifyM dispose_client)))"

definition run_validate :: "parser \<Rightarrow> bool \<Rightarrow> string \<Rightarrow> jsval \<Rightarrow> (pcall, string, token_status) act" where
  "run_validate parse base_ok stale cookie =
     (case extract_scow_token cookie of
        Inr (Some token) \<Rightarrow>
          tryM (call_portal base_ok stale cookie (\<lambda>own. validate_token parse own token)) (\<lambda>code. retM (TokenUnknown (operational_code code)))
      | _ \<Rightarrow> retM (TokenInvalid ''AUTH_REQUIRED''))"

definition run_setup :: "parser \<Rightarrow> bool \<Rightarrow> string \<Rightarrow> jsval \<Rightarrow> (pcall, string, string option) act" where
  "run_setup parse base_ok stale cookie =
     tryM (call_portal base_ok stale cookie (\<lambda>own. setup_call parse own (JNum 4000)))
       (\<lambda>code. retM (Some (if code \<in> {''OPERATION_CANCELLED'', ''PORTAL_TIMEOUT''} then code else ''PORTAL_NETWORK'')))"

definition run_preflight :: "parser \<Rightarrow> bool \<Rightarrow> string \<Rightarrow> jsval \<Rightarrow> (pcall, string, unit) act" where
  "run_preflight parse base_ok stale cookie =
     bindM (run_validate parse base_ok stale cookie) (\<lambda>token.
     case token of
       TokenInvalid _ \<Rightarrow> throwM ''AUTH_REQUIRED''
     | TokenUnknown code \<Rightarrow> throwM (operational_code code)
     | TokenValid \<Rightarrow>
         bindM (run_setup parse base_ok stale cookie) (\<lambda>result.
         case result of
           None \<Rightarrow> retM ()
         | Some code \<Rightarrow> throwM (if code \<in> {''OPERATION_CANCELLED'', ''PORTAL_TIMEOUT''} then code else ''PORTAL_NETWORK'')))"

end
