(* ===== verification/Recovery.thy ===== *)
theory Recovery
  imports PortalAuth
begin

text \<open>
  \<^verbatim>\<open>electron/recovery-controller.js\<close>: when the remote side is unreachable, probe it with growing
  delays, and start the proxy again once a probe has succeeded.

  \<^item> What the controller asks of its dependencies (the snapshot, the configuration, the Cookie, the
    preference, the network hint) is the record \<open>renv\<close>, part of the state and changed by the event
    \<open>EnvChange\<close>; \<open>e_url_ok\<close> is the verdict of \<open>new URL(buildWssUrl(config))\<close>, a library.
    The keys the code builds with \<open>JSON.stringify\<close> are the tuples they encode.
  \<^item> Every round the controller ever creates keeps its index in \<open>rounds\<close>; the promise of a round is
    \<open>r_result\<close>, settled at most once; \<open>r_timer\<close> is the delay its pending timer was armed with.  An attempt in flight is its \<open>r_phase\<close>; each \<open>await\<close> of the code is
    a separate event, and any other event can come in between.
  \<^item> A callback of the controller runs inside its caller and may change the environment and call
    the controller back (\<open>main.js\<close> calls \<open>cancel\<close> from it, later \<open>update\<close>).  The operations take the
    observer as a parameter; \<open>observer n\<close> answers a notice from a script of reactions whose own
    callbacks are answered down to depth \<open>n\<close>.
\<close>

section \<open>Contexts\<close>

definition RETRY_DELAYS_MS :: "nat list" where
  "RETRY_DELAYS_MS = [1000, 2000, 4000, 8000, 16000, 30000]"

definition CONFIG_FIELDS :: "jsstr list" where
  "CONFIG_FIELDS = [js ''host'', js ''port'', js ''cluster'', js ''loginNode'', js ''cols'', js ''rows'', js ''useRoot'',
     js ''path'', js ''startupCommand'']"

definition CERTIFICATE_ERRORS :: "string list" where
  "CERTIFICATE_ERRORS = [''CERT_HAS_EXPIRED'', ''CERT_NOT_YET_VALID'', ''CERT_REVOKED'',
     ''DEPTH_ZERO_SELF_SIGNED_CERT'', ''SELF_SIGNED_CERT_IN_CHAIN'', ''UNABLE_TO_VERIFY_LEAF_SIGNATURE'',
     ''UNABLE_TO_GET_ISSUER_CERT'', ''UNABLE_TO_GET_ISSUER_CERT_LOCALLY'', ''ERR_TLS_CERT_ALTNAME_INVALID'',
     ''ERR_TLS_CERT_SIGNATURE_ALGORITHM_UNSUPPORTED'', ''CERT_SIGNATURE_FAILURE'', ''INVALID_CA'']"

type_synonym scope = "string \<times> nat"
type_synonym transport_key = "scope \<times> nat option \<times> jsval list \<times> jsval \<times> jsstr"
type_synonym context_key = "transport_key \<times> bool \<times> string option"

record renv =
  e_scope :: scope
  e_desired :: bool
  e_stopped :: bool
  e_operation :: bool
  e_remote :: string
  e_storage :: "string option"
  e_code :: "string option"
  e_generation :: "nat option"
  e_config :: jsval
  e_cookie :: jsstr
  e_throws :: bool
  e_reconnect :: bool
  e_online :: "bool option"
  e_url_ok :: bool

record rcontext =
  c_env :: renv
  c_transport :: transport_key
  c_key :: context_key

definition key_value :: "jsval \<Rightarrow> jsval" where
  "key_value v = (if v = JUndef then JNull else v)"

definition context_of :: "renv \<Rightarrow> rcontext option" where
  "context_of e =
     (if e_throws e then None
      else
        (let tk = (e_scope e, e_generation e, map (\<lambda>f. key_value (getProp (e_config e) f)) CONFIG_FIELDS,
                   key_value (getProp (e_config e) (js ''wssUrl'')), e_cookie e) in
         Some \<lparr>c_env = e, c_transport = tk, c_key = (tk, e_desired e, e_storage e)\<rparr>))"

text \<open>\<open>buildWssOptions\<close>, as far as it can throw.\<close>

definition wss_options_ok :: "jsstr \<Rightarrow> bool" where
  "wss_options_ok cookie \<longleftrightarrow> byte_length cookie \<le> MAX_COOKIE_BYTES \<and> header_value_ok cookie"

definition validate_context :: "rcontext \<Rightarrow> string option" where
  "validate_context c =
     (let e = c_env c; config = e_config e in
      if e_storage e \<noteq> None then Some ''SETTINGS_LOCKED''
      else if nullish config \<or> (case validate_settings_patch (JObj ObjectProto (map (\<lambda>f. (f, getProp config f)) CONFIG_FIELDS))
                (APP_DEFAULTS @ PROFILE_DEFAULTS) of Rejected _ \<Rightarrow> True | Accepted _ \<Rightarrow> False) then Some ''SETTINGS_INVALID''
      else if \<not> e_url_ok e then Some ''SETTINGS_INVALID''
      else if e_cookie e = [] then Some ''AUTH_REQUIRED''
      else if \<not> wss_options_ok (e_cookie e) then Some ''AUTH_REQUIRED''
      else case e_code e of
        None \<Rightarrow> None
      | Some code \<Rightarrow>
          if code = ''EADDRINUSE'' then Some ''PORT_IN_USE''
          else if code \<in> {''PORT_IN_USE'', ''SSH_KEY_MISSING'', ''SSH_KEY_INVALID'', ''SSH_KEY_FINGERPRINT_MISMATCH'', ''SETTINGS_LOCKED''}
            then Some code
          else None)"

section \<open>The probe of one attempt\<close>

datatype probe_result = ProbeOk | ProbeCancelled | ProbeFailed string bool "nat option"

datatype probe_event =
    HandshakeTimeout | ReadyTimeout | SocketOpen | SocketMessage "jsval option" | SocketError string | SocketClose
  | UnexpectedResponse nat | ProbeAbort | CreateFailed

record probe =
  p_opened :: bool
  p_result :: "probe_result option"

definition new_probe :: probe where
  "new_probe = \<lparr>p_opened = False, p_result = None\<rparr>"

definition finish_probe :: "probe_result \<Rightarrow> probe \<Rightarrow> probe" where
  "finish_probe r p = (case p_result p of None \<Rightarrow> p\<lparr>p_result := Some r\<rparr> | Some _ \<Rightarrow> p)"

definition certificate_error :: "string \<Rightarrow> bool" where
  "certificate_error code \<longleftrightarrow> code \<in> set CERTIFICATE_ERRORS \<or> take 13 code = ''ERR_TLS_CERT_''"

definition data_message :: "jsval \<Rightarrow> bool" where
  "data_message m \<longleftrightarrow> getProp m (js ''$case'') = JStr (js ''data'')
     \<and> (case getProp (getProp m (js ''data'')) (js ''data'') of JStr _ \<Rightarrow> True | _ \<Rightarrow> False)"

fun probe_step :: "probe \<Rightarrow> probe_event \<Rightarrow> probe" where
  "probe_step p HandshakeTimeout = (if p_opened p then p else finish_probe (ProbeFailed ''TIMEOUT'' False None) p)"
| "probe_step p ReadyTimeout = (if p_opened p then finish_probe (ProbeFailed ''REMOTE_READY_TIMEOUT'' True None) p else p)"
| "probe_step p SocketOpen = (if p_result p = None then p\<lparr>p_opened := True\<rparr> else p)"
| "probe_step p (SocketMessage m) =
     (if \<not> p_opened p then p
      else case m of None \<Rightarrow> p | Some v \<Rightarrow> if data_message v then finish_probe ProbeOk p else p)"
| "probe_step p (SocketError code) =
     finish_probe (if certificate_error code then ProbeFailed ''TLS_FAILED'' True None
                   else ProbeFailed ''NETWORK_UNAVAILABLE'' False None) p"
| "probe_step p SocketClose = finish_probe (ProbeFailed ''WSS_FAILED'' False None) p"
| "probe_step p (UnexpectedResponse status) =
     finish_probe (if status = 401 \<or> status = 403 then ProbeFailed ''AUTH_REQUIRED'' True (Some status)
                   else ProbeFailed ''WSS_FAILED'' False None) p"
| "probe_step p ProbeAbort = finish_probe ProbeCancelled p"
| "probe_step p CreateFailed = finish_probe (ProbeFailed ''SETTINGS_INVALID'' True None) p"

section \<open>The controller\<close>

datatype round_result = RoundCancelled | RoundReachable | RoundError string

datatype round_phase = Waiting | Preflight | Probing probe | Starting | Finished

record round =
  r_context :: rcontext
  r_aborted :: bool
  r_timer :: "nat option"
  r_attempt :: nat
  r_phase :: round_phase
  r_result :: "round_result option"

datatype notice = RemoteState scope string "string option" | Recovered scope | AuthRequired scope nat jsstr | StartRequested nat

datatype reaction_call = CallUpdate | CallCancel string

record recovery =
  rounds :: "round list"
  active :: "nat option"
  hint_timer :: bool
  rdisposed :: bool
  suspended :: bool
  enabled :: bool
  observed :: "context_key option"
  observed_scope :: "scope option"
  blocked :: "context_key option"
  inhibited :: "transport_key option"
  last_online :: "bool option"
  unhealthy :: bool
  remote_state :: "(scope \<times> string \<times> string option) option"
  stable :: "(context_key \<times> string \<times> string option) option"
  cancelling :: bool
  paused :: bool
  rearm :: bool
  env :: renv
  reactions :: "(renv \<times> reaction_call list) list"
  rlog :: "(notice \<times> renv) list"

type_synonym observer = "notice \<Rightarrow> recovery \<Rightarrow> recovery"

definition tell :: "observer \<Rightarrow> notice \<Rightarrow> recovery \<Rightarrow> recovery" where
  "tell obs n s = obs n (s\<lparr>rlog := rlog s @ [(n, env s)]\<rparr>)"

definition round_update :: "nat \<Rightarrow> (round \<Rightarrow> round) \<Rightarrow> recovery \<Rightarrow> recovery" where
  "round_update i f s = (if i < length (rounds s) then s\<lparr>rounds := (rounds s)[i := f (rounds s ! i)]\<rparr> else s)"

definition current :: "nat \<Rightarrow> recovery \<Rightarrow> bool" where
  "current i s \<longleftrightarrow> \<not> rdisposed s \<and> \<not> suspended s \<and> active s = Some i \<and> i < length (rounds s) \<and> \<not> r_aborted (rounds s ! i)
     \<and> (case context_of (env s) of None \<Rightarrow> False | Some c \<Rightarrow> c_key c = c_key (r_context (rounds s ! i)))"

definition publish :: "observer \<Rightarrow> rcontext \<Rightarrow> string \<Rightarrow> string option \<Rightarrow> recovery \<Rightarrow> recovery" where
  "publish obs c status code s =
     (if rdisposed s then s
      else
        (let s = (if status \<noteq> ''checking'' then s\<lparr>stable := Some (c_key c, status, code)\<rparr> else s);
             key = (e_scope (c_env c), status, code) in
         if remote_state s = Some key then s
         else tell obs (RemoteState (e_scope (c_env c)) status code) (s\<lparr>remote_state := Some key\<rparr>)))"

definition settle :: "nat \<Rightarrow> round_result \<Rightarrow> recovery \<Rightarrow> recovery" where
  "settle i res s =
     (let s = round_update i (\<lambda>r. r\<lparr>r_timer := None, r_phase := Finished,
                r_result := (case r_result r of None \<Rightarrow> Some res | Some x \<Rightarrow> Some x)\<rparr>) s in
      if active s = Some i then s\<lparr>active := None\<rparr> else s)"

text \<open>The abort of a round's signal finishes its probe.\<close>

definition abort_round :: "nat \<Rightarrow> recovery \<Rightarrow> recovery" where
  "abort_round i = round_update i (\<lambda>r. r\<lparr>r_aborted := True,
     r_phase := (case r_phase r of Probing p \<Rightarrow> Probing (probe_step p ProbeAbort) | ph \<Rightarrow> ph)\<rparr>)"

definition cancel :: "observer \<Rightarrow> recovery \<Rightarrow> recovery" where
  "cancel obs s0 =
     (let s = s0\<lparr>paused := True\<rparr> in
      case active s of
        None \<Rightarrow> s
      | Some i \<Rightarrow>
          (let s = settle i RoundCancelled (abort_round i (s\<lparr>active := None, cancelling := True\<rparr>));
               s = (if rdisposed s then s
                    else case context_of (env s) of
                      None \<Rightarrow> s
                    | Some c \<Rightarrow>
                        if e_remote (env s) = ''checking'' then
                          (case stable s of
                             Some (key, status, code) \<Rightarrow>
                               if key = c_key c then publish obs c status code s else publish obs c ''unknown'' None s
                           | None \<Rightarrow> publish obs c ''unknown'' None s)
                        else s) in
           s\<lparr>cancelling := False\<rparr>))"

definition stop_hints :: "recovery \<Rightarrow> recovery" where
  "stop_hints s = s\<lparr>hint_timer := False\<rparr>"

definition schedule_hints :: "recovery \<Rightarrow> recovery" where
  "schedule_hints s =
     (if hint_timer s \<or> rdisposed s \<or> suspended s \<or> \<not> enabled s \<or> paused s \<or> \<not> e_desired (env s) then s
      else s\<lparr>hint_timer := True\<rparr>)"

text \<open>The delay of the next attempt, \<open>RETRY_DELAYS_MS[round.attempt++]\<close>, with which its timer is armed;
  past the end of the array it would be \<open>undefined\<close>, which \<open>setTimeout\<close> takes as one millisecond.\<close>

definition next_delay :: "round \<Rightarrow> nat" where
  "next_delay r = (if r_attempt r < length RETRY_DELAYS_MS then RETRY_DELAYS_MS ! r_attempt r else 1)"

definition schedule_attempt :: "nat \<Rightarrow> recovery \<Rightarrow> recovery" where
  "schedule_attempt i = round_update i (\<lambda>r. r\<lparr>r_attempt := r_attempt r + 1, r_timer := Some (next_delay r), r_phase := Waiting\<rparr>)"

datatype begin_answer = Answer round_result | RoundPromise nat

definition new_round :: "rcontext \<Rightarrow> round" where
  "new_round c = \<lparr>r_context = c, r_aborted = False, r_timer = None, r_attempt = 0, r_phase = Waiting, r_result = None\<rparr>"

definition start_round :: "observer \<Rightarrow> rcontext \<Rightarrow> bool \<Rightarrow> recovery \<Rightarrow> begin_answer \<times> recovery" where
  "start_round obs c manual s0 =
     (let s = s0\<lparr>paused := False, inhibited := (if manual then None else inhibited s0)\<rparr> in
      if \<not> manual \<and> inhibited s = Some (c_transport c) then (Answer (RoundError ''REMOTE_READY_TIMEOUT''), s)
      else if \<not> manual \<and> blocked s = Some (c_key c) then (Answer (RoundError ''RECOVERY_EXHAUSTED''), s)
      else case validate_context c of
        Some invalid \<Rightarrow>
          (Answer (RoundError invalid),
           publish obs c (if invalid = ''AUTH_REQUIRED'' then ''auth_required'' else ''error'') (Some invalid)
             (s\<lparr>blocked := Some (c_key c)\<rparr>))
      | None \<Rightarrow>
          (let i = length (rounds s) in
           (RoundPromise i, schedule_hints (schedule_attempt i
             (s\<lparr>blocked := (if manual then None else blocked s), rounds := rounds s @ [new_round c], active := Some i\<rparr>)))))"

definition begin_round :: "observer \<Rightarrow> rcontext \<Rightarrow> bool \<Rightarrow> recovery \<Rightarrow> begin_answer \<times> recovery" where
  "begin_round obs c manual s0 =
     (let s = s0\<lparr>observed := Some (c_key c), observed_scope := Some (e_scope (c_env c))\<rparr> in
      case active s of
        Some i \<Rightarrow>
          if c_key (r_context (rounds s ! i)) = c_key c then (RoundPromise i, s)
          else start_round obs c manual (cancel obs s)
      | None \<Rightarrow> start_round obs c manual (cancel obs s))"

definition automatic :: "observer \<Rightarrow> recovery \<Rightarrow> recovery" where
  "automatic obs s =
     (if rdisposed s \<or> suspended s \<or> \<not> enabled s \<or> paused s then s
      else case context_of (env s) of
        None \<Rightarrow> s
      | Some c \<Rightarrow> if \<not> e_desired (c_env c) then s else snd (begin_round obs c False s))"

definition retry_recovery :: "observer \<Rightarrow> scope \<Rightarrow> recovery \<Rightarrow> (string + begin_answer) \<times> recovery" where
  "retry_recovery obs sc s =
     (if rdisposed s then (Inl ''SHUTTING_DOWN'', s)
      else case context_of (env s) of
        None \<Rightarrow> (Inl ''PROFILE_CHANGED'', s)
      | Some c \<Rightarrow>
          if sc \<noteq> e_scope (c_env c) then (Inl ''PROFILE_CHANGED'', s)
          else if suspended s then (Inr (Answer RoundCancelled), s)
          else (case begin_round obs c True s of (b, t) \<Rightarrow> (Inr b, t)))"

text \<open>What \<open>update\<close> forgets when the scope, the context or the transport changed.\<close>

definition forget :: "rcontext \<Rightarrow> bool \<Rightarrow> bool \<Rightarrow> recovery \<Rightarrow> recovery" where
  "forget c is_changed scopeChanged s =
     s\<lparr>unhealthy := (if scopeChanged then False else unhealthy s),
       remote_state := (if scopeChanged then None else remote_state s),
       blocked := (if is_changed then None else blocked s),
       inhibited := (if inhibited s \<noteq> Some (c_transport c) then None else inhibited s)\<rparr>"

definition restart :: "observer \<Rightarrow> rcontext \<Rightarrow> bool \<Rightarrow> recovery \<Rightarrow> recovery" where
  "restart obs c trigger s =
     (let re = (rearm s \<and> \<not> e_operation (c_env c)); s = s\<lparr>rearm := (rearm s \<and> \<not> re)\<rparr> in
      schedule_hints (if trigger \<or> re then automatic obs (s\<lparr>paused := False\<rparr>) else s))"

definition update_recovery :: "observer \<Rightarrow> recovery \<Rightarrow> recovery" where
  "update_recovery obs s0 =
     (if rdisposed s0 \<or> cancelling s0 then s0
      else
        (let nextEnabled = e_reconnect (env s0) in
         case context_of (env s0) of
           None \<Rightarrow> stop_hints (cancel obs s0)
         | Some c \<Rightarrow>
             (let is_changed = (observed s0 \<noteq> Some (c_key c));
                  enabledNow = (\<not> enabled s0 \<and> nextEnabled);
                  scopeChanged = (observed s0 \<noteq> None \<and> observed_scope s0 \<noteq> Some (e_scope (c_env c)));
                  disabledNow = (enabled s0 \<and> \<not> nextEnabled);
                  s = s0\<lparr>observed := Some (c_key c), observed_scope := Some (e_scope (c_env c)), enabled := nextEnabled\<rparr>;
                  s = forget c is_changed scopeChanged (if is_changed \<or> disabledNow then cancel obs s else s) in
              if \<not> enabled s \<or> suspended s \<or> \<not> e_desired (c_env c) then stop_hints s
              else restart obs c (is_changed \<or> enabledNow) s)))"

definition cancel_recovery :: "observer \<Rightarrow> string \<Rightarrow> recovery \<Rightarrow> recovery" where
  "cancel_recovery obs reason s =
     stop_hints (cancel obs (s\<lparr>rearm := (reason = ''user_stop'' \<or> reason = ''USER_STOP'')\<rparr>))"

definition remote_not_ready :: "observer \<Rightarrow> scope \<Rightarrow> string \<Rightarrow> recovery \<Rightarrow> recovery" where
  "remote_not_ready obs sc code s0 =
     (if rdisposed s0 then s0
      else case context_of (env s0) of
        None \<Rightarrow> s0
      | Some c \<Rightarrow>
          if sc \<noteq> e_scope (c_env c) \<or> code \<noteq> ''REMOTE_READY_TIMEOUT'' then s0
          else publish obs c ''error'' (Some ''REMOTE_READY_TIMEOUT'')
                 (stop_hints (cancel obs (s0\<lparr>inhibited := Some (c_transport c), blocked := Some (c_key c), unhealthy := True\<rparr>))))"

definition resume :: "observer \<Rightarrow> recovery \<Rightarrow> recovery" where
  "resume obs s = (if rdisposed s then s else automatic obs (schedule_hints (s\<lparr>suspended := False, paused := False\<rparr>)))"

definition suspend :: "observer \<Rightarrow> recovery \<Rightarrow> recovery" where
  "suspend obs s = stop_hints (cancel obs (s\<lparr>suspended := True\<rparr>))"

definition online :: "observer \<Rightarrow> recovery \<Rightarrow> recovery" where
  "online obs s = (if \<not> rdisposed s \<and> enabled s \<and> \<not> suspended s then automatic obs (s\<lparr>last_online := Some True\<rparr>) else s)"

definition network_error :: "observer \<Rightarrow> scope option \<Rightarrow> recovery \<Rightarrow> recovery" where
  "network_error obs sc s =
     (if rdisposed s \<or> suspended s \<or> \<not> enabled s \<or> paused s then s
      else case context_of (env s) of
        None \<Rightarrow> s
      | Some c \<Rightarrow>
          if (sc \<noteq> None \<and> sc \<noteq> Some (e_scope (c_env c))) \<or> inhibited s = Some (c_transport c) \<or> blocked s = Some (c_key c) then s
          else automatic obs (publish obs c ''offline'' (Some ''NETWORK_UNAVAILABLE'') (s\<lparr>unhealthy := True\<rparr>)))"

definition dispose_recovery :: "observer \<Rightarrow> recovery \<Rightarrow> recovery" where
  "dispose_recovery obs s = stop_hints (cancel obs (s\<lparr>rdisposed := True\<rparr>))"

definition hint_fires :: "observer \<Rightarrow> recovery \<Rightarrow> recovery" where
  "hint_fires obs s0 =
     (if \<not> hint_timer s0 then s0
      else
        (let s = s0\<lparr>hint_timer := False\<rparr> in
         schedule_hints
           (case e_online (env s) of
              None \<Rightarrow> s
            | Some b \<Rightarrow>
                if Some b = last_online s then s
                else if \<not> b \<or> last_online s = Some False then automatic obs (s\<lparr>last_online := Some b\<rparr>)
                else s\<lparr>last_online := Some b\<rparr>)))"

section \<open>An attempt\<close>

definition set_phase :: "nat \<Rightarrow> round_phase \<Rightarrow> recovery \<Rightarrow> recovery" where
  "set_phase i ph = round_update i (\<lambda>r. r\<lparr>r_phase := ph\<rparr>)"

text \<open>\<open>if (!current(round)) \{ settle(round, cancelled); return; \}\<close>\<close>

definition if_current :: "nat \<Rightarrow> (recovery \<Rightarrow> recovery) \<Rightarrow> recovery \<Rightarrow> recovery" where
  "if_current i f s = (if current i s then f s else settle i RoundCancelled s)"

definition attempt_starts :: "observer \<Rightarrow> nat \<Rightarrow> recovery \<Rightarrow> recovery" where
  "attempt_starts obs i s0 =
     (if i < length (rounds s0) \<and> r_timer (rounds s0 ! i) \<noteq> None then
        if_current i (\<lambda>s. if_current i (\<lambda>s. s) (publish obs (r_context (rounds s ! i)) ''checking'' None s))
          (round_update i (\<lambda>r. r\<lparr>r_timer := None, r_phase := Preflight\<rparr>) s0)
      else s0)"

definition START_CODES :: "string list" where
  "START_CODES = [''PORT_IN_USE'', ''SETTINGS_INVALID'', ''SETTINGS_LOCKED'', ''AUTH_REQUIRED'', ''PORTAL_NETWORK'', ''PORTAL_TIMEOUT'',
     ''PORTAL_PERMISSION'', ''PORTAL_NOT_FOUND'', ''PORTAL_UNIMPLEMENTED'', ''PORTAL_QUOTA'', ''PORTAL_UNKNOWN'',
     ''SSH_KEY_MISSING'', ''SSH_KEY_INVALID'', ''SSH_KEY_FINGERPRINT_MISMATCH'']"

definition attempt_succeeded :: "observer \<Rightarrow> nat \<Rightarrow> recovery \<Rightarrow> recovery" where
  "attempt_succeeded obs i s0 =
     (let c = r_context (rounds s0 ! i); sc = e_scope (c_env c); recovered = unhealthy s0;
          s = publish obs c ''reachable'' None (s0\<lparr>unhealthy := False, blocked := None\<rparr>) in
      if_current i (\<lambda>s.
        if_current i (\<lambda>s.
          if e_stopped (env s) \<and> e_desired (env s) then tell obs (StartRequested i) (set_phase i Starting s)
          else settle i RoundReachable s)
        (if recovered then tell obs (Recovered sc) s else s)) s)"

definition attempt_failed :: "observer \<Rightarrow> nat \<Rightarrow> string \<Rightarrow> bool \<Rightarrow> nat option \<Rightarrow> recovery \<Rightarrow> recovery" where
  "attempt_failed obs i code terminal status s0 =
     (let c = r_context (rounds s0 ! i); sc = e_scope (c_env c); s = s0\<lparr>unhealthy := True\<rparr> in
      case status of
        Some st \<Rightarrow>
          (let s = publish obs c ''auth_required'' (Some ''AUTH_REQUIRED'') (s\<lparr>blocked := Some (c_key c)\<rparr>);
               s = (if current i s then tell obs (AuthRequired sc st (e_cookie (c_env c))) s else s) in
           settle i (RoundError ''AUTH_REQUIRED'') s)
      | None \<Rightarrow>
          if code = ''AUTH_REQUIRED'' then
            settle i (RoundError ''AUTH_REQUIRED'')
              (publish obs c ''auth_required'' (Some ''AUTH_REQUIRED'') (s\<lparr>blocked := Some (c_key c)\<rparr>))
          else
            (let s = (if code = ''REMOTE_READY_TIMEOUT'' then s\<lparr>inhibited := Some (c_transport c)\<rparr> else s);
                 s = publish obs c (if terminal then ''error'' else ''offline'') (Some code) s in
             if_current i (\<lambda>s.
               if terminal \<or> r_attempt (rounds s ! i) = length RETRY_DELAYS_MS then
                 settle i (RoundError code) (s\<lparr>blocked := Some (c_key c)\<rparr>)
               else schedule_attempt i s) s))"

definition attempt_result :: "observer \<Rightarrow> nat \<Rightarrow> probe_result \<Rightarrow> recovery \<Rightarrow> recovery" where
  "attempt_result obs i res =
     if_current i (\<lambda>s. case res of
        ProbeOk \<Rightarrow> attempt_succeeded obs i s
      | ProbeCancelled \<Rightarrow> settle i RoundCancelled s
      | ProbeFailed code terminal status \<Rightarrow> attempt_failed obs i code terminal status s)"

definition preflight_done :: "observer \<Rightarrow> nat \<Rightarrow> string option \<Rightarrow> recovery \<Rightarrow> recovery" where
  "preflight_done obs i outcome s =
     (if i < length (rounds s) \<and> r_phase (rounds s ! i) = Preflight then
        (case outcome of
           None \<Rightarrow> if_current i (set_phase i (Probing new_probe)) s
         | Some code \<Rightarrow>
             attempt_result obs i (ProbeFailed (if code = ''AUTH_REQUIRED'' then code else operational_code code)
               (code = ''AUTH_REQUIRED'') None) s)
      else s)"

definition probe_event_at :: "nat \<Rightarrow> probe_event \<Rightarrow> recovery \<Rightarrow> recovery" where
  "probe_event_at i ev = round_update i (\<lambda>r. case r_phase r of
     Probing p \<Rightarrow> r\<lparr>r_phase := Probing (probe_step p ev)\<rparr> | _ \<Rightarrow> r)"

definition probe_done :: "observer \<Rightarrow> nat \<Rightarrow> recovery \<Rightarrow> recovery" where
  "probe_done obs i s =
     (if i < length (rounds s) then
        (case r_phase (rounds s ! i) of
           Probing p \<Rightarrow> (case p_result p of None \<Rightarrow> s | Some res \<Rightarrow> attempt_result obs i res s)
         | _ \<Rightarrow> s)
      else s)"

definition start_code :: "string \<Rightarrow> string" where
  "start_code code = (if code \<in> set START_CODES then code else ''PROXY_START_FAILED'')"

definition start_done :: "observer \<Rightarrow> nat \<Rightarrow> string option \<Rightarrow> recovery \<Rightarrow> recovery" where
  "start_done obs i outcome s =
     (if i < length (rounds s) \<and> r_phase (rounds s ! i) = Starting then
        if_current i (\<lambda>s. case outcome of
           None \<Rightarrow> settle i RoundReachable s
         | Some code0 \<Rightarrow>
             (let c = r_context (rounds s ! i); code = start_code code0 in
              settle i (RoundError code)
                (publish obs c (if code = ''AUTH_REQUIRED'' then ''auth_required'' else ''error'') (Some code)
                  (s\<lparr>blocked := Some (c_key c)\<rparr>)))) s
      else s)"

section \<open>Runs\<close>

fun reaction_step :: "observer \<Rightarrow> recovery \<Rightarrow> reaction_call \<Rightarrow> recovery" where
  "reaction_step obs s CallUpdate = update_recovery obs s"
| "reaction_step obs s (CallCancel reason) = cancel_recovery obs reason s"

primrec observer_of :: "nat \<Rightarrow> observer" where
  "observer_of 0 = (\<lambda>n s. s)"
| "observer_of (Suc d) = (\<lambda>n s.
     (case reactions s of
        [] \<Rightarrow> s
      | (e, calls) # rest \<Rightarrow> foldl (reaction_step (observer_of d)) (s\<lparr>env := e, reactions := rest\<rparr>) calls))"

datatype recovery_event =
    RetryCall scope | UpdateCall | NotReady scope string | CancelCall string | ResumeCall | SuspendCall | OnlineCall
  | NetworkError "scope option" | DisposeCall | HintTimer | RoundTimer nat | PreflightDone nat "string option"
  | ProbeEvent nat probe_event | ProbeDone nat | StartDone nat "string option" | EnvChange renv "(renv \<times> reaction_call list) list"

fun recovery_step :: "observer \<Rightarrow> recovery \<Rightarrow> recovery_event \<Rightarrow> recovery" where
  "recovery_step obs s (RetryCall sc) = snd (retry_recovery obs sc s)"
| "recovery_step obs s UpdateCall = update_recovery obs s"
| "recovery_step obs s (NotReady sc code) = remote_not_ready obs sc code s"
| "recovery_step obs s (CancelCall reason) = cancel_recovery obs reason s"
| "recovery_step obs s ResumeCall = resume obs s"
| "recovery_step obs s SuspendCall = suspend obs s"
| "recovery_step obs s OnlineCall = online obs s"
| "recovery_step obs s (NetworkError sc) = network_error obs sc s"
| "recovery_step obs s DisposeCall = dispose_recovery obs s"
| "recovery_step obs s HintTimer = hint_fires obs s"
| "recovery_step obs s (RoundTimer i) = attempt_starts obs i s"
| "recovery_step obs s (PreflightDone i outcome) = preflight_done obs i outcome s"
| "recovery_step obs s (ProbeEvent i ev) = probe_event_at i ev s"
| "recovery_step obs s (ProbeDone i) = probe_done obs i s"
| "recovery_step obs s (StartDone i outcome) = start_done obs i outcome s"
| "recovery_step obs s (EnvChange e rs) = s\<lparr>env := e, reactions := rs\<rparr>"

definition create_recovery :: "renv \<Rightarrow> recovery" where
  "create_recovery e =
     \<lparr>rounds = [], active = None, hint_timer = False, rdisposed = False, suspended = False, enabled = e_reconnect e,
      observed = None, observed_scope = None, blocked = None, inhibited = None, last_online = None, unhealthy = False,
      remote_state = None, stable = None, cancelling = False, paused = False, rearm = False, env = e, reactions = [], rlog = []\<rparr>"

end
