(* ===== verification/RecoveryRuns.thy ===== *)
theory RecoveryRuns
  imports Recovery
begin

text \<open>
  What holds over every run of the recovery controller.  \<open>inv strict starts\<close> is the invariant: only
  the active round is unsettled or has a timer; the active round has work pending; nothing is active
  when the controller is disposed or suspended; every start that was requested is justified.
  \<open>strict\<close> adds that no hint timer is left then, which does not hold inside \<open>suspend\<close> while its
  observers run; \<open>starts\<close> is the list of rounds that have requested a start.
\<close>

section \<open>The invariant\<close>

definition in_flight :: "round \<Rightarrow> bool" where
  "in_flight r \<longleftrightarrow> (case r_phase r of Preflight \<Rightarrow> True | Probing _ \<Rightarrow> True | Starting \<Rightarrow> True | _ \<Rightarrow> False)"

abbreviation armed :: "round \<Rightarrow> bool" where
  "armed r \<equiv> r_timer r \<noteq> None"

text \<open>The attempts made are at most six, and an armed timer has the delay of its attempt.\<close>

definition timer_ok :: "round \<Rightarrow> bool" where
  "timer_ok r \<longleftrightarrow> r_attempt r \<le> length RETRY_DELAYS_MS
     \<and> (\<forall>ms. r_timer r = Some ms \<longrightarrow> 0 < r_attempt r \<and> ms = RETRY_DELAYS_MS ! (r_attempt r - 1))"

lemma timer_ok_frame [simp]:
  "timer_ok (r\<lparr>r_phase := ph\<rparr>) = timer_ok r" "timer_ok (r\<lparr>r_result := x\<rparr>) = timer_ok r" "timer_ok (r\<lparr>r_aborted := b\<rparr>) = timer_ok r"
  by (simp_all add: timer_ok_def)

lemma timer_ok_off [simp]: "timer_ok r \<Longrightarrow> timer_ok (r\<lparr>r_timer := None\<rparr>)"
  by (simp add: timer_ok_def)

definition active_ok :: "round list \<Rightarrow> nat option \<Rightarrow> bool" where
  "active_ok rs a \<longleftrightarrow> (\<forall>i<length rs. r_result (rs ! i) = None \<or> armed (rs ! i) \<longrightarrow> a = Some i)
     \<and> (\<forall>i<length rs. timer_ok (rs ! i))
     \<and> (\<forall>i. a = Some i \<longrightarrow> i < length rs \<and> r_result (rs ! i) = None \<and> \<not> r_aborted (rs ! i) \<and> (armed (rs ! i) \<or> in_flight (rs ! i)))"

definition justified :: "round list \<Rightarrow> notice \<times> renv \<Rightarrow> bool" where
  "justified rs entry = (case entry of
     (StartRequested i, e) \<Rightarrow> i < length rs \<and> e_stopped e \<and> e_desired e
       \<and> (\<exists>c. context_of e = Some c \<and> c_key c = c_key (r_context (rs ! i)))
   | _ \<Rightarrow> True)"

fun start_of :: "notice \<times> renv \<Rightarrow> nat list" where
  "start_of (StartRequested i, e) = [i]"
| "start_of (_, e) = []"

definition starts_of :: "(notice \<times> renv) list \<Rightarrow> nat list" where
  "starts_of log = concat (map start_of log)"

definition inv :: "bool \<Rightarrow> nat list \<Rightarrow> recovery \<Rightarrow> bool" where
  "inv strict starts s \<longleftrightarrow> active_ok (rounds s) (active s)
     \<and> (rdisposed s \<or> suspended s \<longrightarrow> active s = None)
     \<and> list_all (justified (rounds s)) (rlog s)
     \<and> (strict \<longrightarrow> rdisposed s \<or> suspended s \<longrightarrow> \<not> hint_timer s)
     \<and> starts_of (rlog s) = starts"

lemma inv_frame [simp]:
  "inv b L (s\<lparr>enabled := x1\<rparr>) = inv b L s" "inv b L (s\<lparr>observed := x2\<rparr>) = inv b L s"
  "inv b L (s\<lparr>observed_scope := x3\<rparr>) = inv b L s" "inv b L (s\<lparr>blocked := x4\<rparr>) = inv b L s"
  "inv b L (s\<lparr>inhibited := x5\<rparr>) = inv b L s" "inv b L (s\<lparr>last_online := x6\<rparr>) = inv b L s"
  "inv b L (s\<lparr>unhealthy := x7\<rparr>) = inv b L s" "inv b L (s\<lparr>remote_state := x8\<rparr>) = inv b L s"
  "inv b L (s\<lparr>stable := x9\<rparr>) = inv b L s" "inv b L (s\<lparr>cancelling := x10\<rparr>) = inv b L s"
  "inv b L (s\<lparr>paused := x11\<rparr>) = inv b L s" "inv b L (s\<lparr>rearm := x12\<rparr>) = inv b L s"
  "inv b L (s\<lparr>env := x13\<rparr>) = inv b L s" "inv b L (s\<lparr>reactions := x14\<rparr>) = inv b L s"
  by (simp_all add: inv_def)

lemma inv_stop_hints: "inv b L s \<Longrightarrow> inv c L (stop_hints s)"
  by (auto simp: inv_def stop_hints_def)

lemma inv_schedule_hints: "inv b L s \<Longrightarrow> inv b L (schedule_hints s)"
  by (auto simp: inv_def schedule_hints_def)

lemma inv_hint_off: "inv b L s \<Longrightarrow> inv b L (s\<lparr>hint_timer := False\<rparr>)"
  by (auto simp: inv_def)

lemma inv_weaken: "inv b L s \<Longrightarrow> inv False L s"
  by (simp add: inv_def)

text \<open>A change of one round that keeps its context keeps the entries of the log.\<close>

lemma justified_update:
  "justified rs entry \<Longrightarrow> r_context r = r_context (rs ! i) \<Longrightarrow> justified (rs[i := r]) entry"
  by (cases "i < length rs") (auto simp: justified_def nth_list_update split: prod.splits notice.splits)

lemma justified_append: "justified rs entry \<Longrightarrow> justified (rs @ [r]) entry"
  by (auto simp: justified_def nth_append split: prod.splits notice.splits)

lemma active_some:
  "active_ok rs (Some j) \<Longrightarrow> j < length rs \<and> r_result (rs ! j) = None \<and> \<not> r_aborted (rs ! j)
     \<and> (armed (rs ! j) \<or> in_flight (rs ! j))"
  unfolding active_ok_def by blast

lemma active_attempts:
  "active_ok rs a \<Longrightarrow> i < length rs \<Longrightarrow> timer_ok (rs ! i)"
  unfolding active_ok_def by blast

lemma active_pending: "active_ok rs a \<Longrightarrow> i < length rs \<Longrightarrow> r_result (rs ! i) = None \<or> armed (rs ! i) \<Longrightarrow> a = Some i"
  unfolding active_ok_def by blast

lemma active_ok_put:
  assumes ok: "active_ok rs a" and i: "i < length rs"
    and pending: "r_result r = None \<or> armed r \<Longrightarrow> a' = Some i"
    and attempts: "timer_ok r"
    and chosen: "a' = Some i \<Longrightarrow> a = Some i \<and> r_result r = None \<and> \<not> r_aborted r \<and> (armed r \<or> in_flight r)"
    and other: "a' \<noteq> Some i \<Longrightarrow> a' = (if a = Some i then None else a)"
  shows "active_ok (rs[i := r]) a'"
  unfolding active_ok_def
proof (intro conjI allI impI)
  fix j assume j: "j < length (rs[i := r])"
  show "timer_ok (rs[i := r] ! j)"
    using active_attempts [OF ok, of j] attempts i j by (cases "j = i") simp_all
  show "a' = Some j" if p: "r_result (rs[i := r] ! j) = None \<or> armed (rs[i := r] ! j)"
  proof (cases "j = i")
    case True
    then show ?thesis using pending p i by simp
  next
    case False
    then have "a = Some j" using active_pending [OF ok, of j] j p by simp
    then show ?thesis using chosen other False by (cases "a' = Some i") auto
  qed
next
  fix j assume a': "a' = Some j"
  have j: "j < length rs \<and> (j = i \<or> a = Some j)"
  proof (cases "j = i")
    case True
    then show ?thesis using i by simp
  next
    case False
    then have "a = Some j" using other a' by (cases "a = Some i") auto
    then show ?thesis using active_some [of rs j] ok by simp
  qed
  then show "j < length (rs[i := r])" by simp
  have "r_result (rs[i := r] ! j) = None \<and> \<not> r_aborted (rs[i := r] ! j) \<and> (armed (rs[i := r] ! j) \<or> in_flight (rs[i := r] ! j))"
  proof (cases "j = i")
    case True
    then show ?thesis using chosen a' i by simp
  next
    case False
    then have "active_ok rs (Some j)" using j ok by simp
    then show ?thesis using active_some [of rs j] False by simp
  qed
  then show "r_result (rs[i := r] ! j) = None" "\<not> r_aborted (rs[i := r] ! j)" "armed (rs[i := r] ! j) \<or> in_flight (rs[i := r] ! j)"
    by blast+
qed

lemma inv_settle:
  assumes "inv b L s"
  shows "inv b L (settle i res s)"
proof (cases "i < length (rounds s)")
  case False
  then have "active s \<noteq> Some i" using assms active_some [of "rounds s" i] by (auto simp: inv_def)
  then show ?thesis using assms False by (simp add: settle_def round_update_def)
next
  case True
  let ?f = "\<lambda>r. r\<lparr>r_timer := None, r_phase := Finished, r_result := (case r_result r of None \<Rightarrow> Some res | Some x \<Rightarrow> Some x)\<rparr>"
  have log: "list_all (justified ((rounds s)[i := ?f (rounds s ! i)])) (rlog s)"
    using assms by (auto simp: inv_def list_all_iff intro!: justified_update)
  have "r_result (?f (rounds s ! i)) \<noteq> None" by (simp split: option.split)
  then have "active_ok ((rounds s)[i := ?f (rounds s ! i)]) (if active s = Some i then None else active s)"
    using assms True active_attempts [of "rounds s" "active s" i]
    by (intro active_ok_put [of _ "active s"]) (auto simp: inv_def split: if_splits)
  then show ?thesis using assms True log by (auto simp: settle_def round_update_def Let_def inv_def)
qed

text \<open>Changing the active round to one that is still pending.\<close>

lemma inv_active_update:
  assumes "inv b L s" and "active s = Some i" and "r_context (f (rounds s ! i)) = r_context (rounds s ! i)"
    and "r_result (f (rounds s ! i)) = None" and "\<not> r_aborted (f (rounds s ! i))"
    and "armed (f (rounds s ! i)) \<or> in_flight (f (rounds s ! i))"
    and "timer_ok (f (rounds s ! i))"
  shows "inv b L (round_update i f s)"
proof -
  have i: "i < length (rounds s)" using assms(1,2) active_some [of "rounds s" i] by (simp add: inv_def)
  have log: "list_all (justified ((rounds s)[i := f (rounds s ! i)])) (rlog s)"
    using assms(1,3) by (auto simp: inv_def list_all_iff intro!: justified_update)
  have "active_ok ((rounds s)[i := f (rounds s ! i)]) (active s)"
    using assms i by (intro active_ok_put [of _ "active s"]) (auto simp: inv_def)
  then show ?thesis using assms(1) i log by (auto simp: round_update_def inv_def)
qed

lemma inv_log:
  "inv b L s \<Longrightarrow> start_of (n, env s) = [] \<Longrightarrow> inv b L (s\<lparr>rlog := rlog s @ [(n, env s)]\<rparr>)"
  by (cases n) (auto simp: inv_def starts_of_def justified_def)

text \<open>A start is requested only when a probe has succeeded.\<close>

definition probe_succeeded :: "nat \<Rightarrow> recovery \<Rightarrow> bool" where
  "probe_succeeded i s \<longleftrightarrow> i < length (rounds s) \<and> (\<exists>p. r_phase (rounds s ! i) = Probing p \<and> p_result p = Some ProbeOk)"

section \<open>The interface of an observer\<close>

text \<open>What the controller needs of whoever it notifies: the invariant survives the notification.\<close>

locale recovery_observer =
  fixes obs :: observer
  assumes obs_keeps: "inv b L s \<Longrightarrow> inv b L (obs n s)"
    and obs_flags: "rdisposed (obs n s) = rdisposed s" "suspended (obs n s) = suspended s"
    and obs_cancelling: "cancelling s \<Longrightarrow> active s = None \<Longrightarrow> active (obs n s) = None \<and> cancelling (obs n s)"
begin

lemma inv_tell: "inv b L s \<Longrightarrow> start_of (n, env s) = [] \<Longrightarrow> inv b L (tell obs n s)"
  unfolding tell_def by (intro obs_keeps inv_log)

lemma inv_publish: "inv b L s \<Longrightarrow> inv b L (publish obs c status code s)"
  by (auto simp: publish_def Let_def intro!: inv_tell)

lemma inv_cancel:
  assumes "active_ok (rounds s) (active s)" "list_all (justified (rounds s)) (rlog s)"
    "b \<longrightarrow> rdisposed s \<or> suspended s \<longrightarrow> \<not> hint_timer s" "starts_of (rlog s) = L"
  shows "inv b L (cancel obs s)"
proof (cases "active s")
  case None
  then show ?thesis using assms by (simp add: cancel_def inv_def)
next
  case (Some i)
  define u where "u = settle i RoundCancelled (abort_round i (s\<lparr>paused := True, active := None, cancelling := True\<rparr>))"
  let ?f = "\<lambda>r. r\<lparr>r_aborted := True, r_phase := (case r_phase r of Probing p \<Rightarrow> Probing (probe_step p ProbeAbort) | ph \<Rightarrow> ph)\<rparr>"
  let ?g = "\<lambda>r. r\<lparr>r_timer := None, r_phase := Finished, r_result := (case r_result r of None \<Rightarrow> Some RoundCancelled | Some x \<Rightarrow> Some x)\<rparr>"
  have i: "i < length (rounds s)" using active_some [of "rounds s" i] assms(1) Some by simp
  have rounds: "rounds u = (rounds s)[i := ?g (?f (rounds s ! i))]"
    using i by (simp add: u_def settle_def abort_round_def round_update_def Let_def)
  have rest: "active u = None" "rlog u = rlog s" "rdisposed u = rdisposed s" "suspended u = suspended s" "hint_timer u = hint_timer s"
    using i by (simp_all add: u_def settle_def abort_round_def round_update_def Let_def)
  have "r_result (?g (?f (rounds s ! i))) \<noteq> None" by (simp split: option.split)
  then have "active_ok (rounds u) None"
    unfolding rounds using assms(1) i Some active_attempts [OF assms(1) i]
    by (intro active_ok_put [of _ "active s"]) auto
  moreover have "list_all (justified (rounds u)) (rlog s)"
    using assms(2) unfolding rounds list_all_iff by (auto intro!: justified_update)
  ultimately have u: "inv b L u" using assms(3,4) rest by (simp add: inv_def)
  show ?thesis
    unfolding cancel_def Let_def using Some u inv_publish [OF u]
    by (auto simp: u_def [symmetric] split: option.splits if_splits)
qed

lemma inv_cancel': "inv b L s \<Longrightarrow> inv b L (cancel obs s)"
  by (rule inv_cancel) (simp_all add: inv_def)

lemma publish_flags [simp]:
  "rdisposed (publish obs c status code s) = rdisposed s" "suspended (publish obs c status code s) = suspended s"
  by (simp_all add: publish_def tell_def obs_flags Let_def)

lemma publish_cancelling: "cancelling s \<Longrightarrow> active s = None \<Longrightarrow> active (publish obs c status code s) = None"
  using obs_cancelling by (simp add: publish_def tell_def Let_def)

lemma settle_flags:
  "rdisposed (settle i res s) = rdisposed s" "suspended (settle i res s) = suspended s" "cancelling (settle i res s) = cancelling s"
  "active s = None \<Longrightarrow> active (settle i res s) = None"
  by (simp_all add: settle_def round_update_def Let_def)

lemma abort_flags:
  "rdisposed (abort_round i s) = rdisposed s" "suspended (abort_round i s) = suspended s" "cancelling (abort_round i s) = cancelling s"
  "active (abort_round i s) = active s"
  by (simp_all add: abort_round_def round_update_def)

lemma cancel_flags [simp]:
  "rdisposed (cancel obs s) = rdisposed s" "suspended (cancel obs s) = suspended s" "active (cancel obs s) = None"
  by (auto simp: cancel_def Let_def publish_cancelling settle_flags abort_flags split: option.split)

lemma inv_start_round:
  assumes s: "inv b L s" and idle: "active s = None" "\<not> rdisposed s" "\<not> suspended s"
  shows "inv b L (snd (start_round obs c manual s))"
proof -
  let ?i = "length (rounds s)"
  define u where "u = schedule_attempt ?i (s\<lparr>paused := False, inhibited := (if manual then None else inhibited s),
    blocked := (if manual then None else blocked s), rounds := rounds s @ [new_round c], active := Some ?i\<rparr>)"
  have ru: "rounds u = rounds s @ [(new_round c)\<lparr>r_attempt := 1, r_timer := Some 1000, r_phase := Waiting\<rparr>]"
    by (simp add: u_def schedule_attempt_def round_update_def nth_append new_round_def next_delay_def RETRY_DELAYS_MS_def)
  have rest: "active u = Some ?i" "rlog u = rlog s" "rdisposed u = rdisposed s" "suspended u = suspended s" "hint_timer u = hint_timer s"
    by (simp_all add: u_def schedule_attempt_def round_update_def)
  have ok: "active_ok (rounds s) None" using s idle by (simp add: inv_def)
  have "\<forall>i<length (rounds s). r_result (rounds s ! i) \<noteq> None \<and> \<not> armed (rounds s ! i)"
    by (auto dest: active_pending [OF ok])
  then have "active_ok (rounds u) (Some ?i)"
    unfolding active_ok_def ru using active_attempts [OF ok]
    by (auto simp: nth_append new_round_def timer_ok_def RETRY_DELAYS_MS_def in_flight_def less_Suc_eq)
  moreover have "list_all (justified (rounds u)) (rlog s)"
    using s unfolding ru inv_def list_all_iff by (auto intro: justified_append)
  ultimately have u: "inv b L u" using s idle rest by (simp add: inv_def)
  show ?thesis
    using s inv_schedule_hints [OF u, unfolded u_def]
    by (auto simp: start_round_def Let_def intro!: inv_publish split: option.split)
qed

lemma inv_begin: "inv b L s \<Longrightarrow> \<not> rdisposed s \<Longrightarrow> \<not> suspended s \<Longrightarrow> inv b L (snd (begin_round obs c manual s))"
  by (auto simp: begin_round_def Let_def intro!: inv_start_round inv_cancel' split: option.split)

lemma inv_automatic: "inv b L s \<Longrightarrow> inv b L (automatic obs s)"
  by (auto simp: automatic_def intro!: inv_begin split: option.split)

lemma inv_forget: "inv b L s \<Longrightarrow> inv b L (forget c x y s)"
  by (simp add: forget_def)

lemma inv_restart: "inv b L s \<Longrightarrow> inv b L (restart obs c x s)"
  by (auto simp: restart_def Let_def intro!: inv_schedule_hints inv_automatic)

lemma inv_update: "inv b L s \<Longrightarrow> inv b L (update_recovery obs s)"
  by (auto simp: update_recovery_def Let_def intro!: inv_stop_hints [where b = b] inv_restart inv_forget inv_cancel' split: option.split)

lemma inv_cancel_recovery: "inv b L s \<Longrightarrow> inv b L (cancel_recovery obs reason s)"
  unfolding cancel_recovery_def by (rule inv_stop_hints) (auto intro: inv_cancel')

lemma start_flags [simp]:
  "rdisposed (snd (start_round obs c m s)) = rdisposed s" "suspended (snd (start_round obs c m s)) = suspended s"
  by (auto simp: start_round_def Let_def schedule_hints_def schedule_attempt_def round_update_def split: option.split)

lemma begin_flags [simp]:
  "rdisposed (snd (begin_round obs c m s)) = rdisposed s" "suspended (snd (begin_round obs c m s)) = suspended s"
  by (auto simp: begin_round_def Let_def split: option.split)

lemma automatic_flags [simp]:
  "rdisposed (automatic obs s) = rdisposed s" "suspended (automatic obs s) = suspended s"
  by (auto simp: automatic_def split: option.split)

lemma hints_flags [simp]:
  "rdisposed (schedule_hints s) = rdisposed s" "suspended (schedule_hints s) = suspended s"
  "rdisposed (stop_hints s) = rdisposed s" "suspended (stop_hints s) = suspended s"
  by (simp_all add: stop_hints_def schedule_hints_def)

lemma forget_flags [simp]:
  "rdisposed (forget c x y s) = rdisposed s" "suspended (forget c x y s) = suspended s"
  by (simp_all add: forget_def)

lemma restart_flags [simp]:
  "rdisposed (restart obs c x s) = rdisposed s" "suspended (restart obs c x s) = suspended s"
  by (simp_all add: restart_def Let_def)

lemma update_flags:
  "rdisposed (update_recovery obs s) = rdisposed s" "suspended (update_recovery obs s) = suspended s"
  by (simp_all add: update_recovery_def Let_def split: option.split)

lemma cancel_recovery_flags:
  "rdisposed (cancel_recovery obs reason s) = rdisposed s" "suspended (cancel_recovery obs reason s) = suspended s"
  by (simp_all add: cancel_recovery_def)

text \<open>While a cancellation is notifying its observers, nothing can be started again.\<close>

lemma reaction_cancelling:
  "cancelling s \<Longrightarrow> active s = None \<Longrightarrow> active (reaction_step obs s r) = None \<and> cancelling (reaction_step obs s r)"
  by (cases r) (auto simp: update_recovery_def cancel_recovery_def cancel_def stop_hints_def)

lemma inv_reaction: "inv b L s \<Longrightarrow> inv b L (reaction_step obs s r)"
  by (cases r) (auto intro: inv_update inv_cancel_recovery)

lemma reaction_flags:
  "rdisposed (reaction_step obs s r) = rdisposed s" "suspended (reaction_step obs s r) = suspended s"
  by (cases r; simp add: update_flags cancel_recovery_flags)+

lemma inv_reactions: "inv b L s \<Longrightarrow> inv b L (foldl (reaction_step obs) s rs)"
  by (induction rs arbitrary: s) (auto intro: inv_reaction)

lemma reactions_flags:
  "rdisposed (foldl (reaction_step obs) s rs) = rdisposed s \<and> suspended (foldl (reaction_step obs) s rs) = suspended s"
  by (induction rs arbitrary: s) (auto simp: reaction_flags)

lemma reactions_cancelling:
  "cancelling s \<Longrightarrow> active s = None \<Longrightarrow>
     active (foldl (reaction_step obs) s rs) = None \<and> cancelling (foldl (reaction_step obs) s rs)"
  by (induction rs arbitrary: s) (simp_all add: reaction_cancelling)

section \<open>The steps of an attempt\<close>

lemma current_active: "current i s \<Longrightarrow> active s = Some i \<and> i < length (rounds s) \<and> \<not> rdisposed s \<and> \<not> suspended s"
  by (simp add: current_def)

lemma inv_if_current:
  "inv b L s \<Longrightarrow> (current i s \<Longrightarrow> inv b L (f s)) \<Longrightarrow> inv b L (if_current i f s)"
  by (simp add: if_current_def inv_settle)

lemma inv_set_phase:
  assumes "inv b L s" and "current i s" and "ph = Preflight \<or> ph = Starting \<or> (\<exists>p. ph = Probing p)"
  shows "inv b L (set_phase i ph s)"
proof -
  have act: "active s = Some i" using assms(2) by (simp add: current_active)
  then have ok: "active_ok (rounds s) (Some i)" using assms(1) by (simp add: inv_def)
  have "in_flight (r_phase_update (\<lambda>_. ph) r)" for r :: round using assms(3) by (auto simp: in_flight_def)
  then show ?thesis
    unfolding set_phase_def using ok [THEN active_some] active_attempts [OF ok, of i]
    by (intro inv_active_update [OF assms(1) act]) simp_all
qed

lemma inv_schedule_attempt:
  assumes "inv b L s" and "current i s" and "r_attempt (rounds s ! i) \<noteq> length RETRY_DELAYS_MS"
  shows "inv b L (schedule_attempt i s)"
proof -
  have act: "active s = Some i" using assms(2) by (simp add: current_active)
  then have ok: "active_ok (rounds s) (Some i)" using assms(1) by (simp add: inv_def)
  have "r_attempt (rounds s ! i) < length RETRY_DELAYS_MS"
    using active_attempts [OF ok, of i] current_active [OF assms(2)] assms(3) by (simp add: timer_ok_def)
  then have "timer_ok ((rounds s ! i)\<lparr>r_attempt := r_attempt (rounds s ! i) + 1, r_timer := Some (next_delay (rounds s ! i)), r_phase := Waiting\<rparr>)"
    by (simp add: timer_ok_def next_delay_def)
  then show ?thesis
    unfolding schedule_attempt_def using ok [THEN active_some]
    by (intro inv_active_update [OF assms(1) act]) simp_all
qed

lemma inv_attempt_starts: "inv b L s \<Longrightarrow> inv b L (attempt_starts obs i s)"
proof -
  assume s: "inv b L s"
  show ?thesis
  proof (cases "i < length (rounds s) \<and> armed (rounds s ! i)")
    case True
    then have act: "active s = Some i" using s active_pending [of "rounds s" "active s" i] by (simp add: inv_def)
    have ok: "active_ok (rounds s) (Some i)" using s act by (simp add: inv_def)
    have "inv b L (round_update i (\<lambda>r. r\<lparr>r_timer := None, r_phase := Preflight\<rparr>) s)"
      by (rule inv_active_update [OF s act])
        (use ok [THEN active_some] active_attempts [OF ok, of i] True in \<open>auto simp: in_flight_def\<close>)
    then show ?thesis using True by (auto simp: attempt_starts_def intro!: inv_if_current inv_publish)
  qed (use s in \<open>auto simp: attempt_starts_def\<close>)
qed

lemma inv_start_request:
  assumes "inv b L s" and "current i s" and "e_stopped (env s)" and "e_desired (env s)"
  shows "inv b (L @ [i]) (tell obs (StartRequested i) (set_phase i Starting s))"
proof -
  have v: "inv b L (set_phase i Starting s)" using assms(1,2) by (rule inv_set_phase) simp
  have "i < length (rounds s)" using assms(2) by (simp add: current_active)
  then have "justified (rounds (set_phase i Starting s)) (StartRequested i, env (set_phase i Starting s))"
    using assms(2,3,4) by (auto simp: justified_def set_phase_def round_update_def current_def split: option.splits)
  then show ?thesis using v unfolding tell_def
    by (intro obs_keeps) (auto simp: inv_def starts_of_def)
qed

lemma inv_attempt_succeeded:
  assumes "inv b L s" and "current i s"
  shows "\<exists>L'. inv b L' (attempt_succeeded obs i s) \<and> (L' = L \<or> L' = L @ [i])"
proof -
  define u where "u = publish obs (r_context (rounds s ! i)) ''reachable'' None (s\<lparr>unhealthy := False, blocked := None\<rparr>)"
  define v where "v = (if unhealthy s then tell obs (Recovered (e_scope (c_env (r_context (rounds s ! i))))) u else u)"
  have u: "inv b L u" using assms by (auto simp: u_def intro!: inv_publish)
  then have v: "inv b L v" by (auto simp: v_def intro: inv_tell)
  have eq: "attempt_succeeded obs i s = (if \<not> current i u \<or> \<not> current i v then settle i RoundCancelled (if current i u then v else u)
      else if e_stopped (env v) \<and> e_desired (env v) then tell obs (StartRequested i) (set_phase i Starting v)
      else settle i RoundReachable v)"
    unfolding attempt_succeeded_def Let_def if_current_def u_def [symmetric] v_def [symmetric] by simp
  consider "\<not> current i u \<or> \<not> current i v" | "current i u" "current i v" "e_stopped (env v) \<and> e_desired (env v)"
    | "current i u" "current i v" "\<not> (e_stopped (env v) \<and> e_desired (env v))" by blast
  then show ?thesis
  proof cases
    case 1
    then show ?thesis using u v by (auto simp: eq intro: inv_settle)
  next
    case 2
    then show ?thesis using inv_start_request [OF v] by (auto simp: eq)
  next
    case 3
    then show ?thesis using v by (auto simp: eq intro: inv_settle)
  qed
qed

lemma inv_attempt_failed:
  assumes "inv b L s"
  shows "inv b L (attempt_failed obs i code terminal status s)"
proof (cases status)
  case (Some st)
  then show ?thesis using assms
    by (auto simp: attempt_failed_def Let_def intro!: inv_settle inv_tell inv_publish)
next
  case None
  then show ?thesis using assms
    by (auto simp: attempt_failed_def Let_def intro!: inv_settle inv_publish inv_if_current inv_schedule_attempt)
qed

lemma inv_attempt_result:
  assumes "inv b L s"
  shows "\<exists>L'. inv b L' (attempt_result obs i res s) \<and> (L' = L \<or> res = ProbeOk \<and> L' = L @ [i])"
proof (cases "current i s")
  case False
  then show ?thesis using assms by (auto simp: attempt_result_def if_current_def intro: inv_settle)
next
  case True
  then show ?thesis using assms inv_attempt_succeeded [OF assms True]
    by (cases res) (auto simp: attempt_result_def if_current_def intro: inv_settle inv_attempt_failed)
qed

lemma inv_preflight_done: "inv b L s \<Longrightarrow> inv b L (preflight_done obs i outcome s)"
proof -
  assume s: "inv b L s"
  show ?thesis
  proof (cases outcome)
    case None
    then show ?thesis using s by (auto simp: preflight_done_def intro!: inv_if_current inv_set_phase)
  next
    case (Some code)
    have "inv b L (attempt_result obs i (ProbeFailed x y z) s)" for x y z
      using inv_attempt_result [OF s, of i "ProbeFailed x y z"] by auto
    then show ?thesis using s Some by (auto simp: preflight_done_def)
  qed
qed

lemma inv_probe_event: "inv b L s \<Longrightarrow> inv b L (probe_event_at i ev s)"
proof -
  assume s: "inv b L s"
  show ?thesis
  proof (cases "i < length (rounds s)")
    case True
    let ?r = "rounds s ! i"
    let ?f = "\<lambda>r. case r_phase r of Probing p \<Rightarrow> r\<lparr>r_phase := Probing (probe_step p ev)\<rparr> | _ \<Rightarrow> r"
    have eqs: "r_context (?f ?r) = r_context ?r" "r_result (?f ?r) = r_result ?r" "r_timer (?f ?r) = r_timer ?r"
      "r_attempt (?f ?r) = r_attempt ?r" "r_aborted (?f ?r) = r_aborted ?r" "in_flight (?f ?r) = in_flight ?r" "timer_ok (?f ?r) = timer_ok ?r"
      by (auto simp: in_flight_def timer_ok_def split: round_phase.split)
    have ok: "active_ok (rounds s) (active s)" using s by (simp add: inv_def)
    have "active_ok ((rounds s)[i := ?f ?r]) (active s)"
      by (rule active_ok_put [OF ok True])
        (use active_pending [OF ok True] active_attempts [OF ok True] active_some [of "rounds s" i] ok in \<open>auto simp: eqs\<close>)
    moreover have "list_all (justified ((rounds s)[i := ?f ?r])) (rlog s)"
      using s eqs(1) by (auto simp: inv_def list_all_iff intro!: justified_update)
    ultimately show ?thesis using s True by (auto simp: probe_event_at_def round_update_def inv_def)
  qed (use s in \<open>simp add: probe_event_at_def round_update_def\<close>)
qed

section \<open>Every event\<close>

lemma inv_resume:
  assumes "inv True L s"
  shows "inv True L (resume obs s)"
proof (cases "rdisposed s")
  case False
  have "inv True L (s\<lparr>suspended := False, paused := False\<rparr>)" using assms False by (auto simp: inv_def)
  then show ?thesis
    unfolding resume_def if_not_P [OF False] by (rule inv_automatic [OF inv_schedule_hints])
qed (use assms in \<open>simp add: resume_def\<close>)

lemma inv_suspend: "inv True L s \<Longrightarrow> inv True L (suspend obs s)"
  unfolding suspend_def by (rule inv_stop_hints [where b = False], rule inv_cancel) (simp_all add: inv_def)

lemma inv_dispose: "inv True L s \<Longrightarrow> inv True L (dispose_recovery obs s)"
  unfolding dispose_recovery_def by (rule inv_stop_hints [where b = False], rule inv_cancel) (simp_all add: inv_def)

lemma inv_online: "inv b L s \<Longrightarrow> inv b L (online obs s)"
  by (auto simp: online_def intro!: inv_automatic)

lemma inv_network_error: "inv b L s \<Longrightarrow> inv b L (network_error obs sc s)"
  by (auto simp: network_error_def intro!: inv_automatic inv_publish split: option.split)

lemma inv_not_ready: "inv b L s \<Longrightarrow> inv b L (remote_not_ready obs sc code s)"
  by (auto simp: remote_not_ready_def intro!: inv_publish inv_stop_hints [where b = b] inv_cancel' split: option.split)

lemma inv_retry: "inv b L s \<Longrightarrow> inv b L (snd (retry_recovery obs sc s))"
  using inv_begin [of b L s _ True] by (auto simp: retry_recovery_def case_prod_beta split: option.split)

lemma inv_hint_fires: "inv b L s \<Longrightarrow> inv b L (hint_fires obs s)"
  by (auto simp: hint_fires_def Let_def intro!: inv_schedule_hints inv_automatic inv_hint_off split: option.split)

lemma inv_start_done: "inv b L s \<Longrightarrow> inv b L (start_done obs i outcome s)"
  by (auto simp: start_done_def Let_def intro!: inv_if_current inv_settle inv_publish split: option.split)

lemma inv_probe_done:
  "inv b L s \<Longrightarrow> \<exists>L'. inv b L' (probe_done obs i s) \<and> (L' = L \<or> probe_succeeded i s \<and> L' = L @ [i])"
  using inv_attempt_result [of b L s i] by (auto simp: probe_done_def probe_succeeded_def split: round_phase.split option.split)

theorem step_inv:
  assumes "inv True L s"
  shows "\<exists>L'. inv True L' (recovery_step obs s ev) \<and> (L' = L \<or> (\<exists>i. ev = ProbeDone i \<and> probe_succeeded i s \<and> L' = L @ [i]))"
proof (cases ev)
  case (ProbeDone i)
  then show ?thesis using inv_probe_done [OF assms, of i] by auto
qed (use assms in \<open>auto intro: inv_resume inv_retry inv_update inv_not_ready inv_cancel_recovery inv_suspend inv_online inv_network_error
      inv_dispose inv_hint_fires inv_attempt_starts inv_preflight_done inv_probe_event inv_start_done\<close>)

end

section \<open>The controller's own observers\<close>

interpretation silent: recovery_observer "observer_of 0"
  by unfold_locales auto

lemma observer_contract: "recovery_observer (observer_of d)"
proof (induction d)
  case 0
  show ?case by (rule silent.recovery_observer_axioms)
next
  case (Suc d)
  note inner = recovery_observer.inv_reactions [OF Suc] recovery_observer.reactions_flags [OF Suc]
    recovery_observer.reactions_cancelling [OF Suc]
  show ?case
    by unfold_locales (auto simp: inner split: list.split)
qed

interpretation scripted: recovery_observer "observer_of d" for d
  by (rule observer_contract)

definition recovery_run :: "nat \<Rightarrow> renv \<Rightarrow> recovery_event list \<Rightarrow> recovery" where
  "recovery_run d e evs = foldl (recovery_step (observer_of d)) (create_recovery e) evs"

interpretation recovery_runs: event_machine "recovery_step (observer_of d)" "\<lambda>s. \<exists>L. inv True L s" for d
  using scripted.step_inv by unfold_locales blast

lemma run_inv: "\<exists>L. inv True L (recovery_run d e evs)"
  unfolding recovery_run_def
  by (rule recovery_runs.inv_run, rule exI [of _ "[]"])
    (simp add: create_recovery_def inv_def active_ok_def starts_of_def)

lemma run_active_ok: "active_ok (rounds (recovery_run d e evs)) (active (recovery_run d e evs))"
  using run_inv [of d e evs] by (auto simp: inv_def)

section \<open>Claims\<close>

text \<open>Claim C21: over every run of the recovery controller (any events in any order, any observers), a
  round that is not settled or has a timer is the active one; the active round always has a timer or
  an attempt in flight, so no round is lost; an armed timer is the one of the round's first to sixth attempt and has that
  attempt's delay (1, 2, 4, 8, 16, 30 seconds); and after
  \<open>dispose\<close>, or while suspended, no round is active and no timer of any kind is left.\<close>

theorem recovery_rounds_accounted:
  assumes "s = recovery_run d e evs"
  shows "(\<forall>i < length (rounds s). r_result (rounds s ! i) = None \<or> armed (rounds s ! i) \<longrightarrow> active s = Some i)
     \<and> (\<forall>i. active s = Some i \<longrightarrow> i < length (rounds s) \<and> r_result (rounds s ! i) = None
           \<and> (armed (rounds s ! i) \<or> r_phase (rounds s ! i) \<notin> {Waiting, Finished}))
     \<and> (\<forall>i < length (rounds s). \<forall>ms. r_timer (rounds s ! i) = Some ms \<longrightarrow> r_attempt (rounds s ! i) \<in> {1..6}
           \<and> ms = [1000, 2000, 4000, 8000, 16000, 30000] ! (r_attempt (rounds s ! i) - 1))
     \<and> (rdisposed s \<or> suspended s \<longrightarrow> active s = None \<and> \<not> hint_timer s \<and> \<not> list_ex armed (rounds s))"
proof -
  obtain L where L: "inv True L s" using run_inv [of d e evs] by (auto simp: assms)
  then have ok: "active_ok (rounds s) (active s)" by (simp add: inv_def)
  note pending = active_pending [OF ok] and chosen = active_some [of "rounds s"] and attempts = active_attempts [OF ok]
  have idle: "active s = None \<and> \<not> hint_timer s \<and> \<not> list_ex armed (rounds s)" if "rdisposed s \<or> suspended s"
  proof -
    have idle: "active s = None" "\<not> hint_timer s" using L that by (simp_all add: inv_def)
    then have "\<not> (\<exists>i. i < length (rounds s) \<and> armed (rounds s ! i))" using pending by fastforce
    then show ?thesis using idle by (auto simp: list_ex_iff in_set_conv_nth)
  qed
  have work: "r_phase r \<notin> {Waiting, Finished}" if "in_flight r" for r
    using that by (auto simp: in_flight_def split: round_phase.splits)
  have "i < length (rounds s) \<and> r_result (rounds s ! i) = None
      \<and> (armed (rounds s ! i) \<or> r_phase (rounds s ! i) \<notin> {Waiting, Finished})" if "active s = Some i" for i
    using chosen [of i] ok work that by auto
  moreover have "r_attempt (rounds s ! i) \<in> {1..6} \<and> ms = [1000, 2000, 4000, 8000, 16000, 30000] ! (r_attempt (rounds s ! i) - 1)"
    if "i < length (rounds s)" "r_timer (rounds s ! i) = Some ms" for i ms
    using attempts [of i] that by (simp add: timer_ok_def RETRY_DELAYS_MS_def)
  ultimately show ?thesis using pending idle by blast
qed

text \<open>Claim C22: the proxy is started again only by a round whose probe has just succeeded, at a moment
  when the proxy is stopped, the user wants it running, and the profile, configuration, Cookie and
  credential generation are the ones the probe was made with.\<close>

theorem recovery_start_justified:
  assumes "s = recovery_run d e evs" and "t = recovery_step (observer_of d) s ev"
  shows "(starts_of (rlog t) = starts_of (rlog s)
      \<or> (\<exists>i. ev = ProbeDone i \<and> probe_succeeded i s \<and> starts_of (rlog t) = starts_of (rlog s) @ [i]))
    \<and> list_all (justified (rounds t)) (rlog t)"
proof -
  obtain L where L: "inv True L s" using run_inv [of d e evs] by (auto simp: assms)
  from scripted.step_inv [OF this, of d ev] L show ?thesis by (auto simp: assms(2) inv_def)
qed











lemma silent_publish [simp]:
  "current i (publish (\<lambda>n s. s) c status code s) = current i s"
  "rounds (publish (\<lambda>n s. s) c status code s) = rounds s"
  "active (publish (\<lambda>n s. s) c status code s) = active s"
  "blocked (publish (\<lambda>n s. s) c status code s) = blocked s"
  by (simp_all add: publish_def tell_def current_def Let_def cong: option.case_cong)

lemma current_frame [simp]:
  "current i (s\<lparr>unhealthy := x\<rparr>) = current i s" "current i (s\<lparr>inhibited := y\<rparr>) = current i s"
  by (simp_all add: current_def cong: option.case_cong)














text \<open>A probe reports success only if the socket was open and then received a JSON message of the
  form \<open>{$case: 'data', data: {data: <string>}}\<close> before anything else had ended the probe; a verdict
  is never changed by a later event.\<close>

lemma probe_verdict_sound:
  assumes "p_result (foldl probe_step new_probe evs) = Some res"
  shows "p_result (foldl probe_step new_probe (evs @ more_evs)) = Some res
    \<and> (res = ProbeOk \<longrightarrow> (\<exists>pre m post. evs = pre @ SocketMessage (Some m) # post \<and> SocketOpen \<in> set pre \<and> data_message m
          \<and> p_result (foldl probe_step new_probe pre) = None))"
proof
  have final: "p_result (foldl probe_step p es) = Some res" if "p_result p = Some res" for p es
    using that
  proof (induction es arbitrary: p)
    case (Cons ev es)
    have "p_result (probe_step p ev) = Some res"
      using Cons.prems by (cases ev) (auto simp: finish_probe_def split: option.split)
    then show ?case using Cons.IH by simp
  qed simp
  then show "p_result (foldl probe_step new_probe (evs @ more_evs)) = Some res" using assms by simp
  have opened: "SocketOpen \<in> set es" if "p_opened (foldl probe_step new_probe es)" for es
    using that
  proof (induction es rule: rev_induct)
    case (snoc ev es)
    then show ?case by (cases ev) (auto simp: finish_probe_def split: option.splits if_splits)
  qed (simp add: new_probe_def)
  have "\<exists>pre m post. evs = pre @ SocketMessage (Some m) # post \<and> p_opened (foldl probe_step new_probe pre) \<and> data_message m
      \<and> p_result (foldl probe_step new_probe pre) = None" if "res = ProbeOk"
    using assms that
  proof (induction evs rule: rev_induct)
    case (snoc ev es)
    show ?case
    proof (cases "p_result (foldl probe_step new_probe es)")
      case None
      then have "\<exists>m. ev = SocketMessage (Some m) \<and> p_opened (foldl probe_step new_probe es) \<and> data_message m"
        using snoc.prems by (cases ev) (auto simp: finish_probe_def split: if_splits option.splits)
      then show ?thesis using None by blast
    next
      case (Some r)
      then have "r = ProbeOk"
        using snoc.prems by (cases ev) (auto simp: finish_probe_def split: if_splits option.splits)
      then obtain pre m post where "es = pre @ SocketMessage (Some m) # post" "p_opened (foldl probe_step new_probe pre)"
        "data_message m" "p_result (foldl probe_step new_probe pre) = None"
        using snoc.IH Some snoc.prems(2) by auto
      then have "es @ [ev] = pre @ SocketMessage (Some m) # (post @ [ev]) \<and> p_opened (foldl probe_step new_probe pre)
        \<and> data_message m \<and> p_result (foldl probe_step new_probe pre) = None" by simp
      then show ?thesis by blast
    qed
  qed (simp add: new_probe_def)
  then show "res = ProbeOk \<longrightarrow> (\<exists>pre m post. evs = pre @ SocketMessage (Some m) # post \<and> SocketOpen \<in> set pre \<and> data_message m
          \<and> p_result (foldl probe_step new_probe pre) = None)"
    using opened by blast
qed

section \<open>Witnesses\<close>

definition demo_env :: renv where
  "demo_env = \<lparr>e_scope = (''p'', 1), e_desired = True, e_stopped = True, e_operation = False, e_remote = ''unknown'',
     e_storage = None, e_code = None, e_generation = None, e_config = JObj ObjectProto (APP_DEFAULTS @ PROFILE_DEFAULTS),
     e_cookie = js ''c=1'', e_throws = False, e_reconnect = True, e_online = None, e_url_ok = True\<rparr>"

definition demo_events :: "recovery_event list" where
  "demo_events = [UpdateCall, RoundTimer 0, PreflightDone 0 None, ProbeEvent 0 SocketOpen, ProbeEvent 0 (SocketMessage (Some
     (JObj ObjectProto [(js ''$case'', JStr (js ''data'')), (js ''data'', JObj ObjectProto [(js ''data'', JStr [])])])))]"

lemma recovery_rounds_accounted_witness:
  "active (recovery_run 1 demo_env (demo_events @ [SuspendCall])) = None
     \<and> \<not> list_ex armed (rounds (recovery_run 1 demo_env (demo_events @ [SuspendCall])))
     \<and> length (rounds (recovery_run 1 demo_env (demo_events @ [SuspendCall]))) = 1"
proof -
  have "suspended (recovery_run 1 demo_env (demo_events @ [SuspendCall]))
    \<and> length (rounds (recovery_run 1 demo_env (demo_events @ [SuspendCall]))) = 1" by code_simp
  then show ?thesis using recovery_rounds_accounted [OF refl, of 1 demo_env "demo_events @ [SuspendCall]"] by blast
qed

lemma recovery_start_justified_witness:
  "probe_succeeded 0 (recovery_run 1 demo_env demo_events)
     \<and> starts_of (rlog (recovery_step (observer_of 1) (recovery_run 1 demo_env demo_events) (ProbeDone 0))) = [0]"
proof -
  have "starts_of (rlog (recovery_step (observer_of 1) (recovery_run 1 demo_env demo_events) (ProbeDone 0))) = [0]
      \<and> starts_of (rlog (recovery_run 1 demo_env demo_events)) = []" by code_simp
  then show ?thesis
    using recovery_start_justified [OF refl refl, of 1 demo_env demo_events "ProbeDone 0"] by auto
qed


lemma probe_verdict_sound_witness:
  "p_result (foldl probe_step new_probe ([HandshakeTimeout] @ [SocketOpen, SocketMessage (Some JNull)])) = Some (ProbeFailed ''TIMEOUT'' False None)"
  by (rule probe_verdict_sound [THEN conjunct1]) (simp add: new_probe_def finish_probe_def)

end
