(* ===== verification/Shutdown.thy ===== *)
theory Shutdown
  imports JsValue
begin

text \<open>
  \<^verbatim>\<open>electron/shutdown-coordinator.js\<close>: run the cleanup once, and exit exactly once, after the cleanup
  or when its time is over.

  \<^item> The phases of the promise chain \<open>Promise.resolve().then(stop).then(..).finally(..)\<close> are the
    constructors of \<open>stage\<close>; every microtask, the settling of \<open>stop\<close> and the timer are steps of their
    own, and a \<open>request\<close> can come between any two of them.
  \<^item> The callbacks \<open>onPrepare\<close> and \<open>onCleanupError\<close> can throw and can call \<open>request\<close> again: a step
    carries the requests they make (and, for \<open>onPrepare\<close>, whether it throws).
  \<^item> \<open>exits\<close> is the list of the codes \<open>exit\<close> was called with, \<open>stops\<close> and \<open>prepares\<close> count the calls
    of \<open>stop\<close> and \<open>onPrepare\<close>, \<open>cleanup_errors\<close> those of \<open>reportCleanupError\<close>.
\<close>

section \<open>The coordinator\<close>

datatype stage = NotRequested | Queued | Stopping | Reported | Finished

record shutdown =
  started :: bool
  stage :: stage
  exit_code :: int
  force_timer :: bool
  exit_requested :: bool
  exits :: "int list"
  stops :: nat
  prepares :: nat
  cleanup_errors :: nat

definition create_shutdown :: shutdown where
  "create_shutdown = \<lparr>started = False, stage = NotRequested, exit_code = 0, force_timer = False, exit_requested = False,
     exits = [], stops = 0, prepares = 0, cleanup_errors = 0\<rparr>"

definition normalized_exit_code :: "jsval \<Rightarrow> int" where
  "normalized_exit_code v = (case v of JNum n \<Rightarrow> if 0 < n then n else 0 | _ \<Rightarrow> 0)"

definition exit_once :: "int \<Rightarrow> shutdown \<Rightarrow> shutdown" where
  "exit_once code s = (if exit_requested s then s else s\<lparr>exit_requested := True, exits := exits s @ [code]\<rparr>)"

definition raise_code :: "jsval \<Rightarrow> shutdown \<Rightarrow> shutdown" where
  "raise_code v s = s\<lparr>exit_code := max (exit_code s) (normalized_exit_code v)\<rparr>"

text \<open>The rest of \<open>request\<close>, once \<open>onPrepare\<close> has run.\<close>

definition launch :: "shutdown \<Rightarrow> shutdown" where
  "launch s = (if stage s \<noteq> NotRequested then s else s\<lparr>force_timer := True, stage := Queued\<rparr>)"

definition request_again :: "shutdown \<Rightarrow> jsval \<Rightarrow> shutdown" where
  "request_again s v = launch (raise_code v s)"

definition report_cleanup_error :: "jsval list \<Rightarrow> shutdown \<Rightarrow> shutdown" where
  "report_cleanup_error calls s =
     foldl request_again (s\<lparr>exit_code := max (exit_code s) 1, cleanup_errors := cleanup_errors s + 1\<rparr>) calls"

definition prepare :: "jsval list \<Rightarrow> jsval list option \<Rightarrow> shutdown \<Rightarrow> shutdown" where
  "prepare calls throws s =
     (let s = foldl request_again (s\<lparr>started := True, prepares := prepares s + 1\<rparr>) calls in
      case throws of None \<Rightarrow> s | Some error_calls \<Rightarrow> report_cleanup_error error_calls s)"

definition request :: "jsval \<Rightarrow> jsval list \<Rightarrow> jsval list option \<Rightarrow> shutdown \<Rightarrow> shutdown" where
  "request v calls throws s0 =
     (let s = raise_code v s0 in launch (if \<not> started s then prepare calls throws s else s))"

datatype stop_outcome = Stopped | StopRefused "jsval list" | StopThrew "jsval list"

definition stop_settled :: "stop_outcome \<Rightarrow> shutdown \<Rightarrow> shutdown" where
  "stop_settled outcome s =
     (case outcome of Stopped \<Rightarrow> s | StopRefused calls \<Rightarrow> report_cleanup_error calls s
      | StopThrew calls \<Rightarrow> report_cleanup_error calls s)\<lparr>stage := Reported\<rparr>"

definition finish_shutdown :: "shutdown \<Rightarrow> shutdown" where
  "finish_shutdown s = exit_once (exit_code s) (s\<lparr>force_timer := False, stage := Finished\<rparr>)"

definition force_exit :: "shutdown \<Rightarrow> shutdown" where
  "force_exit s = exit_once (max (exit_code s) 1) (s\<lparr>force_timer := False\<rparr>)"

section \<open>Runs\<close>

datatype label = Request jsval | CallStop | StopSettles stop_outcome | Finally | ForceTimer

text \<open>A label carries what claims speak about; the callbacks of a request are chosen by the step.\<close>

inductive shutdown_step :: "shutdown \<Rightarrow> label \<Rightarrow> shutdown \<Rightarrow> bool" where
  step_request: "shutdown_step s (Request v) (request v calls throws s)"
| step_stop: "stage s = Queued \<Longrightarrow> shutdown_step s CallStop (s\<lparr>stage := Stopping, stops := stops s + 1\<rparr>)"
| step_settles: "stage s = Stopping \<Longrightarrow> shutdown_step s (StopSettles outcome) (stop_settled outcome s)"
| step_finally: "stage s = Reported \<Longrightarrow> shutdown_step s Finally (finish_shutdown s)"
| step_force: "force_timer s \<Longrightarrow> shutdown_step s ForceTimer (force_exit s)"

inductive_cases requestE: "shutdown_step s (Request v) t"
inductive_cases stopE: "shutdown_step s CallStop t"
inductive_cases settlesE: "shutdown_step s (StopSettles outcome) t"
inductive_cases finallyE: "shutdown_step s Finally t"
inductive_cases forceE: "shutdown_step s ForceTimer t"

inductive shutdown_run :: "shutdown \<Rightarrow> label list \<Rightarrow> shutdown \<Rightarrow> bool" where
  run_start: "shutdown_run s [] s"
| run_more: "shutdown_run s ls t \<Longrightarrow> shutdown_step t l u \<Longrightarrow> shutdown_run s (ls @ [l]) u"

section \<open>The invariant\<close>

text \<open>\<open>core\<close> also holds while \<open>onPrepare\<close> is running, \<open>shutdown_ok\<close> between two steps.\<close>

definition core :: "shutdown \<Rightarrow> bool" where
  "core s \<longleftrightarrow> 0 \<le> exit_code s \<and> (stage s \<noteq> NotRequested \<longrightarrow> started s)
     \<and> (exit_requested s \<longleftrightarrow> exits s \<noteq> []) \<and> length (exits s) \<le> 1
     \<and> (stage s = NotRequested \<longrightarrow> exits s = []) \<and> (stage s = Finished \<longrightarrow> exits s \<noteq> [])
     \<and> (stage s \<notin> {NotRequested, Finished} \<longrightarrow> force_timer s \<or> exits s \<noteq> [])
     \<and> (force_timer s \<longrightarrow> stage s \<notin> {NotRequested, Finished} \<and> exits s = [])
     \<and> stops s = (if stage s \<in> {NotRequested, Queued} then 0 else 1) \<and> prepares s = (if started s then 1 else 0)
     \<and> (0 < cleanup_errors s \<longrightarrow> 1 \<le> exit_code s)
     \<and> (\<forall>c\<in>set (exits s). 0 \<le> c \<and> (c = 0 \<longrightarrow> stage s = Finished \<and> cleanup_errors s = 0))"

definition shutdown_ok :: "shutdown \<Rightarrow> bool" where
  "shutdown_ok s \<longleftrightarrow> core s \<and> (started s \<longrightarrow> stage s \<noteq> NotRequested)"

lemma ok_bounds:
  assumes "shutdown_ok s"
  shows "stops s \<le> 1" "prepares s \<le> 1" "length (exits s) \<le> 1"
proof -
  have "stops s = (if stage s \<in> {NotRequested, Queued} then 0 else 1)" "prepares s = (if started s then 1 else 0)"
    using assms unfolding shutdown_ok_def core_def by blast+
  then show "stops s \<le> 1" "prepares s \<le> 1" by (simp_all split: if_splits)
  show "length (exits s) \<le> 1" using assms unfolding shutdown_ok_def core_def by blast
qed

lemma create_shutdown_ok: "shutdown_ok create_shutdown"
  by (simp add: shutdown_ok_def core_def create_shutdown_def)

lemma raise_core: "core s \<Longrightarrow> core (raise_code v s)"
  by (auto simp: core_def raise_code_def)

lemma raise_simps [simp]:
  "started (raise_code v s) = started s" "stage (raise_code v s) = stage s" "exits (raise_code v s) = exits s"
  "cleanup_errors (raise_code v s) = cleanup_errors s" "force_timer (raise_code v s) = force_timer s"
  by (simp_all add: raise_code_def)

lemma launch_core: "core s \<Longrightarrow> started s \<Longrightarrow> core (launch s) \<and> started (launch s) \<and> stage (launch s) \<noteq> NotRequested"
  by (auto simp: core_def launch_def)

lemma again_core: "core s \<Longrightarrow> started s \<Longrightarrow> core (request_again s v) \<and> started (request_again s v)"
  using launch_core [of "raise_code v s"] by (simp add: request_again_def raise_core)

lemma agains_core:
  "core s \<Longrightarrow> started s \<Longrightarrow> core (foldl request_again s calls) \<and> started (foldl request_again s calls)"
  by (induction calls arbitrary: s) (auto dest: again_core)

lemma report_core:
  assumes "core s" and "started s" and "stage s \<noteq> Finished"
  shows "core (report_cleanup_error calls s) \<and> started (report_cleanup_error calls s)"
  unfolding report_cleanup_error_def
  by (rule agains_core) (use assms in \<open>auto simp: core_def\<close>)

text \<open>What requests made by a callback do not change.\<close>

definition same_run :: "shutdown \<Rightarrow> shutdown \<Rightarrow> bool" where
  "same_run s t \<longleftrightarrow> exits t = exits s \<and> exit_code s \<le> exit_code t \<and> (stage s \<noteq> NotRequested \<longrightarrow> stage t = stage s)
     \<and> (stage t = Finished \<longleftrightarrow> stage s = Finished) \<and> (stage t = Reported \<longleftrightarrow> stage s = Reported) \<and> stops t = stops s \<and> cleanup_errors s \<le> cleanup_errors t"

lemma same_run_trans: "same_run s t \<Longrightarrow> same_run t u \<Longrightarrow> same_run s u"
  by (auto simp: same_run_def)

lemma again_same: "same_run s (request_again s v)"
  by (auto simp: same_run_def request_again_def launch_def raise_code_def)

lemma agains_same: "same_run s (foldl request_again s calls)"
proof (induction calls arbitrary: s)
  case (Cons v calls)
  show ?case using same_run_trans [OF again_same Cons.IH] by simp
qed (simp add: same_run_def)

lemma report_same: "same_run s (report_cleanup_error calls s)"
proof -
  have "same_run s (s\<lparr>exit_code := max (exit_code s) 1, cleanup_errors := cleanup_errors s + 1\<rparr>)" by (simp add: same_run_def)
  then show ?thesis unfolding report_cleanup_error_def using agains_same same_run_trans by blast
qed

lemma prepare_same: "same_run s (prepare calls throws s)"
proof -
  have "same_run s (s\<lparr>started := True, prepares := prepares s + 1\<rparr>)" by (simp add: same_run_def)
  then have "same_run s (foldl request_again (s\<lparr>started := True, prepares := prepares s + 1\<rparr>) calls)"
    using agains_same same_run_trans by blast
  then show ?thesis using report_same same_run_trans by (auto simp: prepare_def Let_def split: option.split)
qed

lemma request_same: "same_run s (request v calls throws s) \<and> normalized_exit_code v \<le> exit_code (request v calls throws s)"
proof -
  let ?r = "raise_code v s"
  have r: "same_run s ?r" "normalized_exit_code v \<le> exit_code ?r" by (simp_all add: same_run_def raise_code_def)
  have l: "same_run t (launch t)" for t by (auto simp: same_run_def launch_def)
  have "same_run ?r (request v calls throws s)"
    using l same_run_trans [OF prepare_same l] by (simp add: request_def Let_def)
  then show ?thesis using r same_run_trans by (auto simp: same_run_def)
qed

lemma request_ok:
  assumes "shutdown_ok s"
  shows "shutdown_ok (request v calls throws s)"
proof -
  define p where "p = (if \<not> started s then prepare calls throws (raise_code v s) else raise_code v s)"
  have "core p \<and> started p"
  proof (cases "started s")
    case True
    then show ?thesis using assms by (simp add: p_def shutdown_ok_def raise_core)
  next
    case False
    let ?q = "foldl request_again ((raise_code v s)\<lparr>started := True, prepares := prepares (raise_code v s) + 1\<rparr>) calls"
    have c: "core ((raise_code v s)\<lparr>started := True, prepares := prepares (raise_code v s) + 1\<rparr>)"
      using assms False raise_core [of s v] by (auto simp: shutdown_ok_def core_def)
    then have q: "core ?q" "started ?q" using agains_core [OF c] by auto
    have "stage ?q \<noteq> Finished"
      using agains_same [of "(raise_code v s)\<lparr>started := True, prepares := prepares (raise_code v s) + 1\<rparr>" calls] assms False
      by (auto simp: same_run_def shutdown_ok_def core_def)
    then show ?thesis using False q report_core [OF q] by (auto simp: p_def prepare_def Let_def split: option.split)
  qed
  then show ?thesis using launch_core [of p] by (simp add: request_def Let_def p_def shutdown_ok_def)
qed

lemma step_ok: "shutdown_step s l t \<Longrightarrow> shutdown_ok s \<Longrightarrow> shutdown_ok t"
proof (induction rule: shutdown_step.induct)
  case (step_request s v calls throws)
  then show ?case by (simp add: request_ok)
next
  case (step_settles s outcome)
  then have s: "core s" "started s" "stage s \<noteq> Finished" by (auto simp: shutdown_ok_def core_def)
  have "core t \<Longrightarrow> started t \<Longrightarrow> stage t = Stopping \<Longrightarrow> shutdown_ok (t\<lparr>stage := Reported\<rparr>)" for t
    by (auto simp: shutdown_ok_def core_def)
  moreover have "stage (report_cleanup_error calls s) = Stopping" for calls
    using report_same [of s calls] step_settles.hyps by (simp add: same_run_def)
  ultimately show ?case
    using report_core [OF s] s step_settles.hyps by (cases outcome) (auto simp: stop_settled_def)
qed (auto simp: shutdown_ok_def core_def finish_shutdown_def force_exit_def exit_once_def)

lemma run_ok: "shutdown_run s ls t \<Longrightarrow> shutdown_ok s \<Longrightarrow> shutdown_ok t"
  by (induction rule: shutdown_run.induct) (auto intro: step_ok)

section \<open>Termination\<close>

text \<open>What is left to happen, requests apart.\<close>

definition steps_left :: "shutdown \<Rightarrow> nat" where
  "steps_left s = (case stage s of Queued \<Rightarrow> 3 | Stopping \<Rightarrow> 2 | Reported \<Rightarrow> 1 | _ \<Rightarrow> 0) + (if force_timer s then 1 else 0)"

lemma report_keeps:
  assumes "stage s = Stopping"
  shows "stage (report_cleanup_error calls s) = Stopping \<and> force_timer (report_cleanup_error calls s) = force_timer s"
proof -
  have "stage (foldl request_again u calls) = Stopping \<and> force_timer (foldl request_again u calls) = force_timer u"
    if "stage u = Stopping" for u
    using that by (induction calls arbitrary: u) (auto simp: request_again_def launch_def)
  then show ?thesis using assms by (simp add: report_cleanup_error_def)
qed

lemma internal_decreases:
  assumes "shutdown_step s l t" and "\<forall>v. l \<noteq> Request v"
  shows "steps_left t < steps_left s"
  using assms
proof cases
  case (step_settles outcome)
  then show ?thesis using report_keeps [of s]
    by (cases outcome) (auto simp: steps_left_def stop_settled_def)
qed (auto simp: steps_left_def finish_shutdown_def force_exit_def exit_once_def)

lemma internal_bounded:
  "shutdown_run s ls t \<Longrightarrow> (\<forall>v. Request v \<notin> set ls) \<Longrightarrow> length ls + steps_left t \<le> steps_left s"
proof (induction rule: shutdown_run.induct)
  case (run_more s ls t l u)
  have "l \<noteq> Request v" for v using run_more.prems by auto
  then show ?case using internal_decreases [OF run_more.hyps(2)] run_more by simp
qed simp

lemma steps_left_le: "steps_left s \<le> 4"
  by (simp add: steps_left_def split: stage.split)

lemma run_append: "shutdown_run t ms u \<Longrightarrow> shutdown_run s ls t \<Longrightarrow> shutdown_run s (ls @ ms) u"
  by (induction rule: shutdown_run.induct) (auto simp: append_assoc [symmetric] simp del: append_assoc intro: run_more)

lemma run_started: "shutdown_run s ls t \<Longrightarrow> shutdown_ok s \<Longrightarrow> started s \<Longrightarrow> started t"
proof (induction rule: shutdown_run.induct)
  case (run_more s ls t l u)
  then have ok: "shutdown_ok t" "started t" using run_ok by blast+
  have "stage u \<noteq> NotRequested"
    using run_more.hyps(2) ok
  proof cases
    case (step_request v calls throws)
    then show ?thesis using request_same [of t v calls throws] ok by (auto simp: same_run_def shutdown_ok_def)
  qed (auto simp: stop_settled_def finish_shutdown_def force_exit_def exit_once_def shutdown_ok_def core_def)
  then show ?case using step_ok [OF run_more.hyps(2) ok(1)] by (simp add: shutdown_ok_def core_def)
qed

text \<open>Claim C24: once a shutdown has been requested the program exits, whatever the cleanup does: until the exit
  has happened the force timer is armed and its firing exits; apart from further requests at most four
  steps follow; and when none of them is possible any more \<open>exit\<close> has been called exactly once.\<close>

theorem shutdown_exits:
  assumes "shutdown_run create_shutdown ls s" and "started s" and "shutdown_run s ms t" and "\<forall>v. Request v \<notin> set ms"
  shows "length ms \<le> 4
    \<and> (exits t = [] \<longrightarrow> shutdown_step t ForceTimer (force_exit t) \<and> exits (force_exit t) = [max (exit_code t) 1])
    \<and> ((\<forall>l u. shutdown_step t l u \<longrightarrow> (\<exists>v. l = Request v)) \<longrightarrow> length (exits t) = 1)"
proof -
  have ok: "shutdown_ok s" by (rule run_ok [OF assms(1) create_shutdown_ok])
  then have okt: "shutdown_ok t" and st: "started t" using run_ok run_started assms(2,3) by blast+
  have len: "length ms \<le> 4" using internal_bounded [OF assms(3,4)] steps_left_le [of s] by linarith
  have armed: "exits t = [] \<Longrightarrow> force_timer t" using okt st by (auto simp: shutdown_ok_def core_def)
  then have forced: "exits t = [] \<Longrightarrow> shutdown_step t ForceTimer (force_exit t)" by (simp add: step_force)
  have "exits t = [] \<Longrightarrow> exits (force_exit t) = [max (exit_code t) 1]"
    using okt by (auto simp: force_exit_def exit_once_def shutdown_ok_def core_def)
  moreover have "length (exits t) = 1" if "\<forall>l u. shutdown_step t l u \<longrightarrow> (\<exists>v. l = Request v)"
  proof -
    have "exits t \<noteq> []" using forced that by blast
    then show ?thesis using ok_bounds(3) [OF okt] by (simp add: le_Suc_eq)
  qed
  ultimately show ?thesis using len forced by blast
qed

lemma requests_raise:
  "shutdown_run s ls t \<Longrightarrow> (\<forall>v. Request v \<in> set ls \<longrightarrow> normalized_exit_code v \<le> exit_code t) \<and> exit_code s \<le> exit_code t"
proof (induction rule: shutdown_run.induct)
  case (run_more s ls t l u)
  have "exit_code t \<le> exit_code u \<and> (\<forall>v. l = Request v \<longrightarrow> normalized_exit_code v \<le> exit_code u)"
    using run_more.hyps(2)
  proof cases
    case (step_request v calls throws)
    then show ?thesis using request_same [of t v calls throws] by (auto simp: same_run_def)
  next
    case (step_settles outcome)
    then show ?thesis using report_same [of t] by (cases outcome) (auto simp: stop_settled_def same_run_def)
  qed (auto simp: finish_shutdown_def force_exit_def exit_once_def)
  then show ?case using run_more.IH by force
qed simp

text \<open>How \<open>stop\<close> ended: a run that has left \<open>Stopping\<close> saw it settle, and a refusal or a throw has raised the exit code.\<close>

lemma report_raises: "1 \<le> exit_code (report_cleanup_error calls s)"
  using agains_same [of "s\<lparr>exit_code := max (exit_code s) 1, cleanup_errors := cleanup_errors s + 1\<rparr>" calls]
  by (simp add: report_cleanup_error_def same_run_def)

lemma step_exit_code: "shutdown_step s l t \<Longrightarrow> exit_code s \<le> exit_code t"
  using requests_raise [OF run_more [OF run_start]] by blast

lemma stop_outcomes:
  "shutdown_run s ls t \<Longrightarrow> stage s = NotRequested \<Longrightarrow>
     (stage t \<in> {Reported, Finished} \<longrightarrow> (\<exists>outcome. StopSettles outcome \<in> set ls))
     \<and> (\<forall>outcome. StopSettles outcome \<in> set ls \<and> outcome \<noteq> Stopped \<longrightarrow> 1 \<le> exit_code t)"
proof (induction rule: shutdown_run.induct)
  case (run_more s ls t l u)
  note IH = run_more.IH [OF run_more.prems] and code = step_exit_code [OF run_more.hyps(2)]
  show ?case
    using run_more.hyps(2)
  proof cases
    case (step_request v calls throws)
    then have "stage u \<in> {Reported, Finished} \<Longrightarrow> stage t \<in> {Reported, Finished}"
      using request_same [of t v calls throws] by (auto simp: same_run_def)
    moreover have "set (ls @ [l]) = insert (Request v) (set ls)" using step_request by simp
    ultimately show ?thesis using IH code by (metis insert_iff label.distinct(3) order_trans)
  next
    case (step_settles outcome)
    then have "outcome \<noteq> Stopped \<Longrightarrow> 1 \<le> exit_code u"
      using report_raises [of _ t] by (cases outcome) (simp_all add: stop_settled_def)
    then show ?thesis using IH code step_settles(1) by (auto intro: order_trans)
  next
    case step_stop
    then show ?thesis using IH by auto
  next
    case step_finally
    then show ?thesis using IH by (auto simp: finish_shutdown_def exit_once_def)
  next
    case step_force
    then show ?thesis using IH by (auto simp: force_exit_def exit_once_def)
  qed
qed simp

text \<open>Claim C25: \<open>stop\<close>, \<open>onPrepare\<close> and \<open>exit\<close> are each called at most once however often and whenever a
  shutdown is requested; and the step that exits passes a code that is at least every code requested
  so far and that is 0 only when \<open>stop\<close> has settled, neither with \<open>{ok: false}\<close> nor with an error, and no
  callback's error has been reported.\<close>

theorem shutdown_exit_code:
  assumes "shutdown_run create_shutdown ls s" and "shutdown_step s l t"
  shows "stops t \<le> 1 \<and> prepares t \<le> 1 \<and> length (exits t) \<le> 1
    \<and> (exits t \<noteq> exits s \<longrightarrow> (\<exists>c. exits s = [] \<and> exits t = [c]
        \<and> (\<forall>v. Request v \<in> set ls \<longrightarrow> normalized_exit_code v \<le> c)
        \<and> (c = 0 \<longrightarrow> l = Finally \<and> cleanup_errors t = 0 \<and> StopSettles Stopped \<in> set ls
             \<and> (\<forall>outcome. StopSettles outcome \<in> set ls \<longrightarrow> outcome = Stopped))))"
proof -
  have ok: "shutdown_ok s" by (rule run_ok [OF assms(1) create_shutdown_ok])
  then have okt: "shutdown_ok t" using step_ok assms(2) by blast
  have "stage create_shutdown = NotRequested" by (simp add: create_shutdown_def)
  note stop = stop_outcomes [OF assms(1) this]
  have "\<exists>c. exits s = [] \<and> exits t = [c] \<and> exit_code s \<le> c \<and> (c = 0 \<longrightarrow> l = Finally \<and> stage s = Reported \<and> cleanup_errors t = 0)"
    if changed: "exits t \<noteq> exits s"
    using assms(2)
  proof cases
    case (step_request v calls throws)
    then show ?thesis using request_same [of s v calls throws] changed by (simp add: same_run_def)
  next
    case (step_settles outcome)
    then show ?thesis using report_same [of s] changed by (cases outcome) (auto simp: stop_settled_def same_run_def)
  qed (use changed ok in \<open>auto simp: finish_shutdown_def force_exit_def exit_once_def shutdown_ok_def core_def split: if_splits\<close>)
  moreover have "StopSettles Stopped \<in> set ls \<and> (\<forall>outcome. StopSettles outcome \<in> set ls \<longrightarrow> outcome = Stopped)"
    if "stage s = Reported" "exit_code s \<le> 0"
    using stop that by (metis insertI1 not_one_le_zero order_trans)
  moreover have "normalized_exit_code v \<le> c" if "Request v \<in> set ls" "exit_code s \<le> c" for v c
    using requests_raise [OF assms(1)] that by force
  moreover have "stops t \<le> 1 \<and> prepares t \<le> 1 \<and> length (exits t) \<le> 1"
    using ok_bounds [OF okt] by blast
  ultimately show ?thesis by blast
qed

section \<open>Witnesses\<close>

definition demo_requested :: shutdown where
  "demo_requested = request (JNum 0) [] None create_shutdown"

definition demo_reported :: shutdown where
  "demo_reported = stop_settled (StopThrew []) (demo_requested\<lparr>stage := Stopping, stops := stops demo_requested + 1\<rparr>)"

lemmas demo_shutdown_defs = demo_requested_def demo_reported_def request_def raise_code_def prepare_def launch_def create_shutdown_def
  stop_settled_def report_cleanup_error_def finish_shutdown_def exit_once_def normalized_exit_code_def Let_def

lemma demo_request_run: "shutdown_run create_shutdown [Request (JNum 0)] demo_requested"
  using run_more [OF run_start step_request] by (simp add: demo_requested_def)

lemma demo_cleanup_run:
  "shutdown_run demo_requested [CallStop, StopSettles (StopThrew [])] demo_reported"
  "shutdown_step demo_reported Finally (finish_shutdown demo_reported)"
proof -
  have "stage demo_requested = Queued" by (simp add: demo_shutdown_defs)
  from run_more [OF run_start step_stop [OF this]]
  have "shutdown_run demo_requested [CallStop] (demo_requested\<lparr>stage := Stopping, stops := stops demo_requested + 1\<rparr>)" by simp
  from run_more [OF this step_settles [of _ "StopThrew []"]]
  show "shutdown_run demo_requested [CallStop, StopSettles (StopThrew [])] demo_reported"
    by (simp add: demo_reported_def)
  show "shutdown_step demo_reported Finally (finish_shutdown demo_reported)" by (rule step_finally) (simp add: demo_shutdown_defs)
qed

lemma shutdown_exits_witness: "length (exits (finish_shutdown demo_reported)) = 1"
proof -
  have run: "shutdown_run demo_requested [CallStop, StopSettles (StopThrew []), Finally] (finish_shutdown demo_reported)"
    using run_more [OF demo_cleanup_run] by simp
  have final: "stage (finish_shutdown demo_reported) = Finished" "\<not> force_timer (finish_shutdown demo_reported)"
    by (simp_all add: demo_shutdown_defs)
  have stuck: "\<forall>l u. shutdown_step (finish_shutdown demo_reported) l u \<longrightarrow> (\<exists>v. l = Request v)"
    using final by (auto elim!: shutdown_step.cases)
  have "started demo_requested" by (simp add: demo_shutdown_defs)
  from shutdown_exits [OF demo_request_run this run] stuck show ?thesis by simp
qed

lemma shutdown_exit_code_witness:
  "exits demo_reported = [] \<and> exits (finish_shutdown demo_reported) = [1] \<and> stops (finish_shutdown demo_reported) \<le> 1"
  using shutdown_exit_code [OF run_append [OF demo_cleanup_run(1) demo_request_run] demo_cleanup_run(2)] by (simp add: demo_shutdown_defs)

end
