(* ===== verification/Transfers.thy ===== *)
theory Transfers
  imports JsValue
begin

text \<open>
  \<^verbatim>\<open>electron/file-transfer/controller.js\<close>, the queue of file transfers, and the path checks of
  \<^verbatim>\<open>electron/file-transfer/orchestrator.js\<close> it uses.

  \<^item> A job is an object: \<open>objs\<close> holds every job ever created, \<open>table\<close> is the \<open>Map\<close> of the code from
    identifiers to jobs (indices of \<open>objs\<close>) in insertion order.  A job that was removed from the map
    can still be running, and its completion still writes to the object.
  \<^item> \<open>j_running\<close> marks the \<open>await\<close> of the transfer inside \<open>execute\<close>; the end of a transfer, its progress
    and the answers of the two native dialogs are events, and any other call can come in between.
  \<^item> What \<open>getContext\<close>, \<open>getWindow\<close> and \<open>createClient\<close> answer is the record \<open>xenv\<close>; the identifier of a
    new job is the argument of \<open>dialog_done\<close> and \<open>confirm_done\<close>; \<open>path.resolve\<close> and \<open>path.basename\<close>,
    which depend on the platform and the working directory, are fields of \<open>xenv\<close>.
  \<^item> \<open>pump\<close> of the code calls itself through \<open>execute\<close> when a job fails before its first \<open>await\<close>; the inner
    call then has already started whatever the outer one would, so the model runs one loop.
\<close>

section \<open>Paths\<close>

definition checked_path :: "jsval \<Rightarrow> string + jsstr" where
  "checked_path v = (case v of
     JStr s \<Rightarrow>
       if s = [] \<or> 4096 < byte_length s \<or> list_ex (\<lambda>u. u < 32 \<or> u = 127) s
         \<or> js ''..'' \<in> set (concat (map (split_on 92) (split_on 47 s))) then Inl ''TRANSFER_PATH'' else Inr s
   | _ \<Rightarrow> Inl ''TRANSFER_PATH'')"

text \<open>\<open>path.posix.normalize\<close> of an absolute path.\<close>

fun normalize_segments :: "jsstr list \<Rightarrow> jsstr list \<Rightarrow> jsstr list" where
  "normalize_segments segs [] = segs"
| "normalize_segments segs (p # ps) =
     normalize_segments (if p = [] \<or> p = js ''.'' then segs else if p = js ''..'' then butlast segs else segs @ [p]) ps"

definition normalize_absolute :: "jsstr \<Rightarrow> jsstr" where
  "normalize_absolute s =
     (let ps = normalize_segments [] (split_on 47 s) in
      if ps = [] then js ''/'' else js ''/'' @ join_with 47 ps @ (if ends_with s (js ''/'') then js ''/'' else []))"

definition remote_path :: "jsval \<Rightarrow> string + jsstr" where
  "remote_path v = bindR (checked_path v) (\<lambda>s.
     if \<not> starts_with s (js ''/'') \<or> 92 \<in> set s then Inl ''TRANSFER_PATH''
     else
       (let result = normalize_absolute s in
        if result = js ''/'' \<or> ends_with s (js ''/'') then Inl ''TRANSFER_PATH'' else Inr result))"

section \<open>The queue\<close>

definition MAX_INFLIGHT :: nat where "MAX_INFLIGHT = 2"
definition MAX_QUEUED :: nat where "MAX_QUEUED = 20"
definition MAX_HISTORY :: nat where "MAX_HISTORY = 50"
definition MAX_BYTES :: int where "MAX_BYTES = 64 * 1024 * 1024"

definition ERROR_CODES :: "string list" where
  "ERROR_CODES = [''AUTH_REQUIRED'', ''PROFILE_CHANGED'', ''INVALID_ARGUMENT'', ''OPERATION_IN_PROGRESS'',
     ''TRANSFER_PATH'', ''TRANSFER_LIMIT'', ''TRANSFER_EXISTS'', ''TRANSFER_CHANGED'', ''TRANSFER_METADATA'', ''TRANSFER_HASH'',
     ''TRANSFER_IO'', ''TRANSFER_DIRECTORY'', ''TRANSFER_UNSAFE_TYPE'', ''TRANSFER_TEMP_CONFLICT'', ''PORTAL_AUTH'',
     ''PORTAL_NETWORK'', ''PORTAL_TIMEOUT'', ''PORTAL_PERMISSION'', ''PORTAL_NOT_FOUND'', ''PORTAL_UNIMPLEMENTED'',
     ''PORTAL_QUOTA'', ''PORTAL_UNKNOWN'', ''PORTAL_CANCELLED'']"

definition safe_code :: "string \<Rightarrow> string" where
  "safe_code code = (if code \<in> set ERROR_CODES then code else ''TRANSFER_IO'')"

type_synonym xscope = "jsstr \<times> int"

record xvalue =
  v_scope :: "xscope option"
  v_cookie :: jsstr
  v_generation :: jsval
  v_cluster :: jsval
  v_tls :: "string option"

record xenv =
  x_value :: "xvalue option"
  x_window :: bool
  x_client :: "string option"
  x_resolve :: "jsstr \<Rightarrow> jsstr"
  x_basename :: "jsstr \<Rightarrow> jsstr"

type_synonym xkey = "xscope \<times> jsval \<times> jsstr \<times> jsval \<times> string option"

datatype job_status = Queued | Running | Completed | Cancelled | Failed

record job =
  j_id :: jsstr
  j_name :: jsstr
  j_upload :: bool
  j_local :: "jsstr option"
  j_remote :: "jsstr option"
  j_overwrite :: bool
  j_context :: "(xscope \<times> xkey) option"
  j_aborted :: bool
  j_bytes :: int
  j_total :: int
  j_phase :: string
  j_mode :: string
  j_status :: job_status
  j_retained :: bool
  j_settled :: bool
  j_error :: "string option"
  j_running :: bool

record pending =
  p_scope :: xscope
  p_key :: xkey
  p_upload :: bool
  p_remote :: jsstr
  p_overwrite :: bool
  p_local :: "jsstr option"

record dto =
  d_id :: jsstr
  d_name :: jsstr
  d_upload :: bool
  d_bytes :: int
  d_total :: int
  d_phase :: string
  d_status :: job_status
  d_mode :: string
  d_retained :: bool
  d_error :: "string option"

type_synonym snapshot = "xscope option \<times> dto list"

record xfer =
  objs :: "job list"
  table :: "(jsstr \<times> nat) list"
  current_key :: "xkey option"
  current_scope :: "xscope option"
  inflight :: nat
  dialog :: "pending option"
  xdisposed :: bool
  xenv :: xenv
  sent :: "(xkey option \<times> snapshot) list"

definition create_xfer :: "xenv \<Rightarrow> xfer" where
  "create_xfer e = \<lparr>objs = [], table = [], current_key = None, current_scope = None, inflight = 0, dialog = None,
     xdisposed = False, xenv = e, sent = []\<rparr>"

definition context_at :: "xscope option \<Rightarrow> xfer \<Rightarrow> string + (xscope \<times> xkey)" where
  "context_at scope s =
     (if xdisposed s then Inl ''PORTAL_CANCELLED''
      else case x_value (xenv s) of
        None \<Rightarrow> Inl ''PROFILE_CHANGED''
      | Some v \<Rightarrow>
          (case (scope, v_scope v) of
             (Some sc, Some vs) \<Rightarrow>
               if sc \<noteq> vs then Inl ''PROFILE_CHANGED''
               else if v_cookie v = [] then Inl ''AUTH_REQUIRED''
               else if \<not> is_safe_integer (v_generation v) \<or> \<not> in_range (v_generation v) 0 MAX_SAFE
                 \<or> (case v_cluster v of JStr c \<Rightarrow> c = [] \<or> 256 < length c \<or> list_ex (\<lambda>u. u < 32 \<or> u = 127) c | _ \<Rightarrow> True)
                 then Inl ''INVALID_ARGUMENT''
               else Inr (vs, (vs, v_generation v, v_cookie v, v_cluster v, v_tls v))
           | _ \<Rightarrow> Inl ''PROFILE_CHANGED''))"

definition assert_current :: "xscope \<times> xkey \<Rightarrow> xfer \<Rightarrow> string option" where
  "assert_current c s = (case context_at (Some (fst c)) s of
     Inl e \<Rightarrow> Some e | Inr c' \<Rightarrow> if snd c' \<noteq> snd c then Some ''PROFILE_CHANGED'' else None)"

text \<open>\<open>validate(payload, allowed)\<close>; on success the scope of the payload.\<close>

definition validate_payload :: "jsval \<Rightarrow> jsstr list \<Rightarrow> string + xscope" where
  "validate_payload payload allowed = (case payload of
     JObj _ ps \<Rightarrow>
       if \<not> list_all (\<lambda>(k, _). k \<in> set allowed) ps then Inl ''INVALID_ARGUMENT''
       else (case getProp payload (js ''scope'') of
         JObj pr sc \<Rightarrow>
           (case (getProp (JObj pr sc) (js ''profileId''), getProp (JObj pr sc) (js ''epoch'')) of
              (JStr p, JNum n) \<Rightarrow>
                if p = [] \<or> 128 < length p \<or> \<not> is_safe_integer (JNum n) \<or> n < 0
                  \<or> \<not> list_all (\<lambda>(k, _). k \<in> {js ''profileId'', js ''epoch''}) sc then Inl ''INVALID_ARGUMENT''
                else Inr (p, n)
            | _ \<Rightarrow> Inl ''INVALID_ARGUMENT'')
       | _ \<Rightarrow> Inl ''INVALID_ARGUMENT'')
   | _ \<Rightarrow> Inl ''INVALID_ARGUMENT'')"

definition dto_of :: "job \<Rightarrow> dto" where
  "dto_of j = \<lparr>d_id = j_id j, d_name = j_name j, d_upload = j_upload j, d_bytes = j_bytes j, d_total = j_total j,
     d_phase = j_phase j, d_status = j_status j, d_mode = j_mode j, d_retained = j_retained j, d_error = j_error j\<rparr>"

definition listed :: "xfer \<Rightarrow> nat list" where
  "listed s = map snd (table s)"

definition snapshot_of :: "xscope option \<Rightarrow> xfer \<Rightarrow> snapshot" where
  "snapshot_of scope s = (scope, map (\<lambda>i. dto_of (objs s ! i)) (listed s))"

definition emit :: "xfer \<Rightarrow> xfer" where
  "emit s =
     (case current_scope s of
        None \<Rightarrow> s
      | Some sc \<Rightarrow>
          if xdisposed s then s
          else case context_at (Some sc) s of
            Inl _ \<Rightarrow> s
          | Inr c \<Rightarrow> if Some (snd c) = current_key s then s\<lparr>sent := sent s @ [(current_key s, snapshot_of (Some sc) s)]\<rparr> else s)"

fun trim_loop :: "job list \<Rightarrow> nat \<Rightarrow> (jsstr \<times> nat) list \<Rightarrow> (jsstr \<times> nat) list" where
  "trim_loop os count [] = []"
| "trim_loop os count ((k, i) # rest) =
     (if count \<le> MAX_HISTORY then (k, i) # rest
      else if j_settled (os ! i) then trim_loop os (count - 1) rest
      else (k, i) # trim_loop os count rest)"

definition trim :: "xfer \<Rightarrow> xfer" where
  "trim s = s\<lparr>table := trim_loop (objs s) (length (filter (\<lambda>i. j_settled (objs s ! i)) (listed s))) (table s)\<rparr>"

definition job_update :: "nat \<Rightarrow> (job \<Rightarrow> job) \<Rightarrow> xfer \<Rightarrow> xfer" where
  "job_update i f s = (if i < length (objs s) then s\<lparr>objs := (objs s)[i := f (objs s ! i)]\<rparr> else s)"

definition clear :: "xfer \<Rightarrow> xfer" where
  "clear s = (foldl (\<lambda>s i. job_update i (\<lambda>j. j\<lparr>j_aborted := True\<rparr>) s) s (listed s))\<lparr>table := []\<rparr>"

definition adopt :: "xscope \<times> xkey \<Rightarrow> xfer \<Rightarrow> xfer" where
  "adopt c s = (if Some (snd c) \<noteq> current_key s then (clear s)\<lparr>current_key := Some (snd c), current_scope := Some (fst c)\<rparr> else s)"

definition is_listed :: "nat \<Rightarrow> xfer \<Rightarrow> bool" where
  "is_listed i s \<longleftrightarrow> map_of (table s) (j_id (objs s ! i)) = Some i"

definition job_current :: "nat \<Rightarrow> xfer \<Rightarrow> bool" where
  "job_current i s \<longleftrightarrow> \<not> xdisposed s \<and> is_listed i s \<and> \<not> j_aborted (objs s ! i)
     \<and> (case j_context (objs s ! i) of None \<Rightarrow> False | Some c \<Rightarrow> assert_current c s = None)"

section \<open>Executing a job\<close>

text \<open>The \<open>catch\<close> and the \<open>finally\<close> of \<open>execute\<close>, up to \<open>pump\<close>.\<close>

definition job_throws :: "nat \<Rightarrow> string \<Rightarrow> bool option \<Rightarrow> xfer \<Rightarrow> xfer" where
  "job_throws i code retained s =
     (if is_listed i s then
        job_update i (\<lambda>j. j\<lparr>j_error := Some (safe_code code),
          j_status := (if j_aborted j \<or> code = ''PORTAL_CANCELLED'' then Cancelled else Failed),
          j_retained := (case retained of None \<Rightarrow> j_retained j | Some b \<Rightarrow> b)\<rparr>) s
      else s)"

definition job_finally :: "nat \<Rightarrow> xfer \<Rightarrow> xfer" where
  "job_finally i s =
     (let s = job_update i (\<lambda>j. j\<lparr>j_local := None, j_remote := None, j_context := None, j_settled := True, j_running := False\<rparr>) s in
      emit (trim (s\<lparr>inflight := inflight s - 1\<rparr>)))"

text \<open>\<open>execute\<close> up to its first \<open>await\<close>; a throw before it ends the job at once.\<close>

definition execute :: "nat \<Rightarrow> xfer \<Rightarrow> xfer" where
  "execute i s0 =
     (let s = emit (job_update i (\<lambda>j. j\<lparr>j_status := Running, j_running := True\<rparr>) (s0\<lparr>inflight := inflight s0 + 1\<rparr>));
          failure = (case j_context (objs s ! i) of
             None \<Rightarrow> Some ''TRANSFER_IO''
           | Some c \<Rightarrow> (case assert_current c s of
               Some e \<Rightarrow> Some e
             | None \<Rightarrow> if j_aborted (objs s ! i) then Some ''PORTAL_CANCELLED'' else x_client (xenv s))) in
      case failure of None \<Rightarrow> s | Some code \<Rightarrow> job_finally i (job_throws i code None s))"

definition queued :: "xfer \<Rightarrow> nat list" where
  "queued s = filter (\<lambda>i. j_status (objs s ! i) = Queued) (listed s)"

text \<open>Each turn takes one job out of the queue, so as many turns as there are queued jobs are enough.\<close>

primrec pump_loop :: "nat \<Rightarrow> xfer \<Rightarrow> xfer" where
  "pump_loop 0 s = s"
| "pump_loop (Suc n) s =
     (if MAX_INFLIGHT \<le> inflight s then s
      else case queued s of [] \<Rightarrow> s | i # _ \<Rightarrow> pump_loop n (execute i s))"

definition pump :: "xfer \<Rightarrow> xfer" where
  "pump s = (if xdisposed s then s else pump_loop (length (queued s)) s)"

definition progress :: "nat \<Rightarrow> jsval \<Rightarrow> jsval \<Rightarrow> string \<Rightarrow> string \<Rightarrow> xfer \<Rightarrow> xfer" where
  "progress i bytes tot phase mode s =
     (if \<not> (i < length (objs s) \<and> job_current i s) then s
      else case (bytes, tot) of
        (JNum b, JNum t) \<Rightarrow>
          if \<not> is_safe_integer (JNum b) \<or> \<not> is_safe_integer (JNum t)
            \<or> b < j_bytes (objs s ! i) \<or> t < b \<or> MAX_BYTES < t then s
          else emit (job_update i (\<lambda>j. j\<lparr>j_bytes := b, j_total := t, j_phase := phase, j_mode := mode,
            j_retained := (j_retained j \<or> (j_upload j \<and> phase \<in> {''negotiating'', ''uploading'', ''verifying'', ''publishing''}))\<rparr>) s)
      | _ \<Rightarrow> s)"

datatype transfer_end = Succeeded int string bool | Threw string "bool option"

definition transfer_ends :: "nat \<Rightarrow> transfer_end \<Rightarrow> xfer \<Rightarrow> xfer" where
  "transfer_ends i outcome s =
     (if \<not> (i < length (objs s) \<and> j_running (objs s ! i)) then s
      else pump (job_finally i (case outcome of
        Succeeded bytes mode retained \<Rightarrow>
          if \<not> job_current i s then job_throws i ''PORTAL_CANCELLED'' None s
          else job_update i (\<lambda>j. j\<lparr>j_status := Completed, j_phase := ''completed'', j_bytes := bytes, j_total := bytes,
            j_mode := mode, j_retained := retained\<rparr>) s
      | Threw code retained \<Rightarrow> job_throws i code retained s)))"

section \<open>The calls\<close>

definition list_transfers :: "jsval \<Rightarrow> xfer \<Rightarrow> (string + snapshot) \<times> xfer" where
  "list_transfers payload s =
     (case validate_payload payload [js ''scope''] of
        Inl e \<Rightarrow> (Inl e, s)
      | Inr sc \<Rightarrow> (case context_at (Some sc) s of
          Inl e \<Rightarrow> (Inl e, s)
        | Inr c \<Rightarrow> (let s = adopt c s in (Inr (snapshot_of (Some (fst c)) s), s))))"

definition start_transfer :: "jsval \<Rightarrow> xfer \<Rightarrow> (string + unit) \<times> xfer" where
  "start_transfer payload s0 =
     (case validate_payload payload [js ''scope'', js ''direction'', js ''remotePath'', js ''overwrite''] of
        Inl e \<Rightarrow> (Inl e, s0)
      | Inr sc \<Rightarrow>
          (let dir = getProp payload (js ''direction''); overwrite = getProp payload (js ''overwrite'') in
           if dir \<notin> {JStr (js ''upload''), JStr (js ''download'')}
             \<or> (overwrite \<noteq> JUndef \<and> (case overwrite of JBool _ \<Rightarrow> False | _ \<Rightarrow> True)) then (Inl ''INVALID_ARGUMENT'', s0)
           else case remote_path (getProp payload (js ''remotePath'')) of
             Inl e \<Rightarrow> (Inl e, s0)
           | Inr remote \<Rightarrow> (case context_at (Some sc) s0 of
               Inl e \<Rightarrow> (Inl e, s0)
             | Inr c \<Rightarrow>
                 (let s = adopt c s0 in
                  if dialog s \<noteq> None \<or> MAX_QUEUED \<le> length (queued s) then (Inl ''OPERATION_IN_PROGRESS'', s)
                  else if \<not> x_window (xenv s) then (Inl (safe_code ''PORTAL_CANCELLED''), s)
                  else (Inr (), s\<lparr>dialog := Some \<lparr>p_scope = fst c, p_key = snd c, p_upload = (dir = JStr (js ''upload'')),
                    p_remote = remote, p_overwrite = (overwrite = JBool True), p_local = None\<rparr>\<rparr>)))))"

datatype start_answer = StartCancelled snapshot | Transfer snapshot jsstr | AskConfirmation

text \<open>\<open>jobs.set\<close>: an existing key keeps its place.\<close>

definition map_set :: "jsstr \<Rightarrow> nat \<Rightarrow> (jsstr \<times> nat) list \<Rightarrow> (jsstr \<times> nat) list" where
  "map_set k i ps = (if k \<in> fst ` set ps then map (\<lambda>(k', i'). if k' = k then (k, i) else (k', i')) ps else ps @ [(k, i)])"

definition new_job :: "pending \<Rightarrow> jsstr \<Rightarrow> jsstr \<Rightarrow> xfer \<Rightarrow> job" where
  "new_job p uuid local s =
     \<lparr>j_id = uuid, j_name = x_basename (xenv s) (if p_upload p then local else p_remote p), j_upload = p_upload p,
      j_local = Some local, j_remote = Some (p_remote p), j_overwrite = p_overwrite p, j_context = Some (p_scope p, p_key p),
      j_aborted = False, j_bytes = 0, j_total = 0, j_phase = ''hashing'', j_mode = ''single'', j_status = Queued,
      j_retained = False, j_settled = False, j_error = None, j_running = False\<rparr>"

definition enqueue_job :: "pending \<Rightarrow> jsstr \<Rightarrow> jsstr \<Rightarrow> xfer \<Rightarrow> (string + start_answer) \<times> xfer" where
  "enqueue_job p uuid local s0 =
     (if MAX_QUEUED \<le> length (queued s0) then (Inl ''OPERATION_IN_PROGRESS'', s0\<lparr>dialog := None\<rparr>)
      else
        (let i = length (objs s0);
             s = pump (emit (s0\<lparr>objs := objs s0 @ [new_job p uuid local s0], table := map_set uuid i (table s0)\<rparr>)) in
         (Inr (Transfer (snapshot_of (Some (p_scope p)) s) uuid), s\<lparr>dialog := None\<rparr>)))"

datatype dialog_outcome = DialogThrew string | Chosen jsval | DialogCancelled

definition dialog_done :: "dialog_outcome \<Rightarrow> jsstr \<Rightarrow> xfer \<Rightarrow> (string + start_answer) \<times> xfer" where
  "dialog_done outcome uuid s =
     (case dialog s of
        Some p \<Rightarrow>
          if p_local p \<noteq> None then (Inr AskConfirmation, s)
          else (case outcome of
            DialogThrew e \<Rightarrow> (Inl (safe_code e), s\<lparr>dialog := None\<rparr>)
          | _ \<Rightarrow>
            (case assert_current (p_scope p, p_key p) s of
               Some e \<Rightarrow> (Inl (safe_code e), s\<lparr>dialog := None\<rparr>)
             | None \<Rightarrow>
                (case outcome of
                   Chosen v \<Rightarrow>
                     (case checked_path v of
                        Inl e \<Rightarrow> (Inl (safe_code e), s\<lparr>dialog := None\<rparr>)
                      | Inr path \<Rightarrow>
                          (let local = x_resolve (xenv s) path in
                           if p_overwrite p then (Inr AskConfirmation, s\<lparr>dialog := Some (p\<lparr>p_local := Some local\<rparr>)\<rparr>)
                           else enqueue_job p uuid local s))
                 | _ \<Rightarrow> (Inr (StartCancelled (snapshot_of (Some (p_scope p)) s)), s\<lparr>dialog := None\<rparr>))))
      | None \<Rightarrow> (Inr AskConfirmation, s))"

definition confirm_done :: "(string + int) \<Rightarrow> jsstr \<Rightarrow> xfer \<Rightarrow> (string + start_answer) \<times> xfer" where
  "confirm_done response uuid s =
     (case dialog s of
        Some p \<Rightarrow>
          (case p_local p of
             None \<Rightarrow> (Inr AskConfirmation, s)
           | Some local \<Rightarrow>
               (case response of
                  Inl e \<Rightarrow> (Inl (safe_code e), s\<lparr>dialog := None\<rparr>)
                | Inr r \<Rightarrow>
                    (case assert_current (p_scope p, p_key p) s of
                       Some e \<Rightarrow> (Inl (safe_code e), s\<lparr>dialog := None\<rparr>)
                     | None \<Rightarrow>
                         if r \<noteq> 1 then (Inr (StartCancelled (snapshot_of (Some (p_scope p)) s)), s\<lparr>dialog := None\<rparr>)
                         else enqueue_job p uuid local s)))
      | None \<Rightarrow> (Inr AskConfirmation, s))"

definition transfer_id_ok :: "jsval \<Rightarrow> bool" where
  "transfer_id_ok v = (case v of
     JStr s \<Rightarrow> 1 \<le> length s \<and> length s \<le> 128 \<and> list_all (\<lambda>u. is_alnum u \<or> u = 95 \<or> u = 45) s | _ \<Rightarrow> False)"

text \<open>What \<open>cancel\<close> does to the job it finds.\<close>

definition cancelled_job :: "job \<Rightarrow> job" where
  "cancelled_job j =
     (if j_status j = Queued then j\<lparr>j_settled := True, j_local := None, j_remote := None, j_context := None\<rparr> else j)
       \<lparr>j_aborted := True, j_status := Cancelled, j_error := Some ''PORTAL_CANCELLED''\<rparr>"

definition cancel_job :: "jsstr \<Rightarrow> xfer \<Rightarrow> xfer" where
  "cancel_job jid s =
     (case map_of (table s) jid of
        None \<Rightarrow> s
      | Some i \<Rightarrow>
          if j_status (objs s ! i) \<in> {Queued, Running} then emit (trim (job_update i cancelled_job s)) else s)"

definition cancel_transfer :: "jsval \<Rightarrow> xfer \<Rightarrow> (string + snapshot) \<times> xfer" where
  "cancel_transfer payload s0 =
     (case validate_payload payload [js ''scope'', js ''id''] of
        Inl e \<Rightarrow> (Inl e, s0)
      | Inr sc \<Rightarrow>
          (case getProp payload (js ''id'') of
             JStr jid \<Rightarrow>
               if \<not> transfer_id_ok (JStr jid) then (Inl ''INVALID_ARGUMENT'', s0)
               else (case context_at (Some sc) s0 of
                 Inl e \<Rightarrow> (Inl e, s0)
               | Inr c \<Rightarrow>
                   (let s = cancel_job jid (adopt c s0) in
                    (Inr (snapshot_of (Some (fst c)) s), s)))
           | _ \<Rightarrow> (Inl ''INVALID_ARGUMENT'', s0)))"

definition forget_context :: "xfer \<Rightarrow> xfer" where
  "forget_context s = (clear s)\<lparr>current_key := None, current_scope := None\<rparr>"

definition update_transfers :: "xfer \<Rightarrow> xfer" where
  "update_transfers s =
     (if xdisposed s then s
      else case context_at (Option.bind (x_value (xenv s)) v_scope) s of
        Inr c \<Rightarrow> emit (adopt c s)
      | Inl _ \<Rightarrow> forget_context s)"

definition dispose_transfers :: "xfer \<Rightarrow> xfer" where
  "dispose_transfers s = forget_context (s\<lparr>xdisposed := True\<rparr>)"

section \<open>Runs\<close>

datatype xevent =
    ListCall jsval | StartCall jsval | CancelCall jsval | UpdateCall | DisposeCall
  | DialogDone dialog_outcome jsstr | ConfirmDone "string + int" jsstr
  | Progress nat jsval jsval string string | TransferEnds nat transfer_end | EnvChange xenv

fun xfer_step :: "xfer \<Rightarrow> xevent \<Rightarrow> xfer" where
  "xfer_step s (ListCall p) = snd (list_transfers p s)"
| "xfer_step s (StartCall p) = snd (start_transfer p s)"
| "xfer_step s (CancelCall p) = snd (cancel_transfer p s)"
| "xfer_step s UpdateCall = update_transfers s"
| "xfer_step s DisposeCall = dispose_transfers s"
| "xfer_step s (DialogDone outcome uuid) = snd (dialog_done outcome uuid s)"
| "xfer_step s (ConfirmDone response uuid) = snd (confirm_done response uuid s)"
| "xfer_step s (Progress i b t ph m) = progress i b t ph m s"
| "xfer_step s (TransferEnds i outcome) = transfer_ends i outcome s"
| "xfer_step s (EnvChange e) = s\<lparr>xenv := e\<rparr>"

end
