(* ===== verification/TransferRuns.thy ===== *)
theory TransferRuns
  imports Transfers
begin

text \<open>
  What holds over every run of the transfer controller: the jobs are well formed and the counters
  right (\<open>base\<close>), the queue, the running transfers and the history are bounded (\<open>xfer_limits\<close>), no queued
  job waits while a slot is free (\<open>served\<close>), and how a job may change (\<open>evolves\<close>).
\<close>

section \<open>Well-formed jobs and tables\<close>

definition job_ok :: "job \<Rightarrow> bool" where
  "job_ok j \<longleftrightarrow> (j_settled j \<longrightarrow> j_context j = None \<and> j_local j = None \<and> j_remote j = None \<and> \<not> j_running j \<and> j_status j \<noteq> Queued)
     \<and> (j_running j \<longrightarrow> j_status j \<noteq> Queued \<and> j_status j \<noteq> Completed)
     \<and> (j_status j = Cancelled \<longrightarrow> j_settled j \<or> j_aborted j)
     \<and> (j_status j \<noteq> Completed \<longrightarrow> 0 \<le> j_bytes j \<and> j_bytes j \<le> j_total j \<and> j_total j \<le> MAX_BYTES)"

definition listed_ok :: "job \<Rightarrow> bool" where
  "listed_ok j \<longleftrightarrow> (j_settled j \<or> j_running j \<or> j_status j = Queued) \<and> (j_settled j \<longrightarrow> j_status j \<noteq> Running)"

definition table_ok :: "job list \<Rightarrow> (jsstr \<times> nat) list \<Rightarrow> bool" where
  "table_ok os t \<longleftrightarrow> distinct (map fst t) \<and> (\<forall>(k, i) \<in> set t. i < length os \<and> j_id (os ! i) = k \<and> listed_ok (os ! i))"

definition running :: "job list \<Rightarrow> nat" where
  "running os = length (filter j_running os)"

definition base :: "xfer \<Rightarrow> bool" where
  "base s \<longleftrightarrow> list_all job_ok (objs s) \<and> table_ok (objs s) (table s) \<and> inflight s = running (objs s)
     \<and> (xdisposed s \<longrightarrow> table s = [])"

definition settled_count :: "xfer \<Rightarrow> nat" where
  "settled_count s = length (filter (\<lambda>i. j_settled (objs s ! i)) (listed s))"

definition xfer_limits :: "xfer \<Rightarrow> bool" where
  "xfer_limits s \<longleftrightarrow> inflight s \<le> MAX_INFLIGHT \<and> length (queued s) \<le> MAX_QUEUED \<and> settled_count s \<le> MAX_HISTORY"

definition served :: "xfer \<Rightarrow> bool" where
  "served s \<longleftrightarrow> xdisposed s \<or> queued s = [] \<or> MAX_INFLIGHT \<le> inflight s"

lemma running_update:
  assumes "i < length os"
  shows "running (os[i := j]) + (if j_running (os ! i) then 1 else 0) = running os + (if j_running j then 1 else 0)"
proof -
  have os: "os = take i os @ os ! i # drop (Suc i) os" using assms by (rule id_take_nth_drop)
  have "running (os[i := j]) = running (take i os) + (if j_running j then 1 else 0) + running (drop (Suc i) os)"
    unfolding running_def upd_conv_take_nth_drop [OF assms] by simp
  moreover have "running os = running (take i os) + (if j_running (os ! i) then 1 else 0) + running (drop (Suc i) os)"
    by (subst os) (simp add: running_def)
  ultimately show ?thesis by simp
qed

lemma list_all_update: "list_all P xs \<Longrightarrow> P x \<Longrightarrow> list_all P (xs[i := x])"
  unfolding list_all_iff using set_update_subset_insert by fastforce

lemma table_ok_update:
  assumes "table_ok os t" and "i < length os" and "j_id j = j_id (os ! i)" and "i \<in> snd ` set t \<longrightarrow> listed_ok j"
  shows "table_ok (os[i := j]) t"
  using assms unfolding table_ok_def by (force simp: nth_list_update)

lemma table_ok_subset: "table_ok os t \<Longrightarrow> distinct (map fst t') \<Longrightarrow> set t' \<subseteq> set t \<Longrightarrow> table_ok os t'"
  unfolding table_ok_def by blast

lemma table_lookup: "table_ok os t \<Longrightarrow> map_of t k = Some i \<Longrightarrow> i < length os \<and> j_id (os ! i) = k \<and> listed_ok (os ! i)"
  unfolding table_ok_def by (auto dest: map_of_SomeD)

lemma listed_distinct:
  assumes "table_ok os t"
  shows "distinct (map snd t)"
proof -
  have "fst p = j_id (os ! snd p)" if "p \<in> set t" for p using assms that unfolding table_ok_def by auto
  then have "inj_on snd (set t)" by (intro inj_onI prod_eqI) metis+
  moreover have "distinct t" using assms distinct_map unfolding table_ok_def by blast
  ultimately show ?thesis by (simp add: distinct_map)
qed

section \<open>What the helpers change\<close>

lemma emit_simps [simp]:
  "objs (emit s) = objs s" "table (emit s) = table s" "inflight (emit s) = inflight s" "dialog (emit s) = dialog s"
  "xdisposed (emit s) = xdisposed s" "xenv (emit s) = xenv s" "current_key (emit s) = current_key s" "current_scope (emit s) = current_scope s"
  by (simp_all add: emit_def split: option.split sum.split)

lemma listed_simps [simp]: "listed (emit s) = listed s" "queued (emit s) = queued s" "settled_count (emit s) = settled_count s"
  by (simp_all add: listed_def queued_def settled_count_def)

lemma base_emit [simp]: "base (emit s) = base s" "xfer_limits (emit s) = xfer_limits s" "served (emit s) = served s"
  by (simp_all add: base_def xfer_limits_def served_def)

lemma job_update_simps [simp]:
  "table (job_update i f s) = table s" "inflight (job_update i f s) = inflight s" "xdisposed (job_update i f s) = xdisposed s"
  "listed (job_update i f s) = listed s" "length (objs (job_update i f s)) = length (objs s)" "xenv (job_update i f s) = xenv s"
  "current_key (job_update i f s) = current_key s" "dialog (job_update i f s) = dialog s"
  by (simp_all add: job_update_def listed_def)

lemma job_update_objs: "i < length (objs s) \<Longrightarrow> objs (job_update i f s) = (objs s)[i := f (objs s ! i)]"
  by (simp add: job_update_def)

lemma trim_simps [simp]:
  "objs (trim s) = objs s" "inflight (trim s) = inflight s" "xdisposed (trim s) = xdisposed s" "xenv (trim s) = xenv s"
  by (simp_all add: trim_def)

lemma trim_loop_set: "set (trim_loop os n t) \<subseteq> set t \<and> (distinct (map fst t) \<longrightarrow> distinct (map fst (trim_loop os n t)))"
proof (induction os n t rule: trim_loop.induct)
  case (2 os count k i rest)
  then show ?case by (cases "count \<le> MAX_HISTORY"; cases "j_settled (os ! i)") auto
qed simp

lemma trim_loop_unsettled:
  "filter (\<lambda>i. \<not> j_settled (os ! i)) (map snd (trim_loop os n t)) = filter (\<lambda>i. \<not> j_settled (os ! i)) (map snd t)"
  by (induction os n t rule: trim_loop.induct) auto

lemma trim_loop_count:
  "n = length (filter (\<lambda>i. j_settled (os ! i)) (map snd t)) \<Longrightarrow>
     length (filter (\<lambda>i. j_settled (os ! i)) (map snd (trim_loop os n t))) = min n MAX_HISTORY"
proof (induction os n t rule: trim_loop.induct)
  case (2 os count k i rest)
  show ?case
  proof (cases "count \<le> MAX_HISTORY")
    case True
    then show ?thesis using "2.prems" by simp
  next
    case False
    then show ?thesis using 2 by (cases "j_settled (os ! i)") auto
  qed
qed simp

lemma base_trim: "base s \<Longrightarrow> base (trim s)"
  using trim_loop_set [of "objs s" "length (filter (\<lambda>i. j_settled (objs s ! i)) (listed s))" "table s"]
    table_ok_subset [of "objs s" "table s"]
  by (auto simp: base_def trim_def) (auto simp: table_ok_def)

lemma settled_trim: "settled_count (trim s) = min (settled_count s) MAX_HISTORY"
  using trim_loop_count [OF refl, of "objs s" "table s"] by (simp add: settled_count_def trim_def listed_def del: filter_map)

lemma queued_unsettled:
  "base s \<Longrightarrow> queued s = filter (\<lambda>i. j_status (objs s ! i) = Queued) (filter (\<lambda>i. \<not> j_settled (objs s ! i)) (listed s))"
proof -
  assume s: "base s"
  have "j_status (objs s ! i) = Queued \<longrightarrow> \<not> j_settled (objs s ! i)" if "i \<in> set (listed s)" for i
    using s that unfolding base_def table_ok_def listed_def job_ok_def by (fastforce simp: list_all_length)
  then show ?thesis unfolding queued_def filter_filter by (intro filter_cong) auto
qed

lemma queued_trim:
  assumes "base s"
  shows "queued (trim s) = queued s"
  unfolding queued_unsettled [OF assms] queued_unsettled [OF base_trim [OF assms]]
  by (simp add: trim_def listed_def trim_loop_unsettled)

section \<open>Changing one job\<close>

lemma base_job: "base s \<Longrightarrow> i < length (objs s) \<Longrightarrow> job_ok (objs s ! i)"
  by (simp add: base_def list_all_length)

lemma base_listed: "base s \<Longrightarrow> i \<in> set (listed s) \<Longrightarrow> i < length (objs s) \<and> listed_ok (objs s ! i)"
  unfolding base_def table_ok_def listed_def by auto

lemma listed_iff: "base s \<Longrightarrow> is_listed i s \<longleftrightarrow> i \<in> set (listed s)"
  unfolding base_def table_ok_def is_listed_def listed_def
  by (force dest: map_of_SomeD intro: map_of_is_SomeI)

lemma base_table: "base s \<Longrightarrow> table_ok (objs s) (table s)"
  by (simp add: base_def)

lemma base_job_update:
  assumes "base s" and i: "i < length (objs s)" and "job_ok (f (objs s ! i))" and "j_id (f (objs s ! i)) = j_id (objs s ! i)"
    and "i \<in> set (listed s) \<longrightarrow> listed_ok (f (objs s ! i))" and "j_running (f (objs s ! i)) = j_running (objs s ! i)"
  shows "base (job_update i f s)"
proof -
  have "running ((objs s)[i := f (objs s ! i)]) = running (objs s)" using running_update [OF i, of "f (objs s ! i)"] assms(6) by simp
  moreover have "table_ok ((objs s)[i := f (objs s ! i)]) (table s)"
    using table_ok_update [OF base_table [OF assms(1)] i assms(4)] assms(5) by (simp add: listed_def)
  moreover have "list_all job_ok ((objs s)[i := f (objs s ! i)])"
    using assms(1,3) by (intro list_all_update) (simp_all add: base_def)
  ultimately show ?thesis using assms(1) by (simp add: base_def job_update_objs i)
qed

lemma queued_job_update:
  assumes "i < length (objs s)" and "j_status (f (objs s ! i)) \<noteq> Queued"
  shows "queued (job_update i f s) = filter (\<lambda>k. k \<noteq> i) (queued s)"
  unfolding queued_def filter_filter by (intro filter_cong) (auto simp: job_update_objs assms nth_list_update)

lemma queued_job_same:
  assumes "i < length (objs s)" and "j_status (f (objs s ! i)) \<noteq> Queued" and "j_status (objs s ! i) \<noteq> Queued"
  shows "queued (job_update i f s) = queued s"
proof -
  have "k \<noteq> i" if "k \<in> set (queued s)" for k using that assms(3) by (auto simp: queued_def)
  then show ?thesis unfolding queued_job_update [OF assms(1), of f, OF assms(2)] by (intro filter_True) blast
qed

lemma settled_job_update:
  assumes "i < length (objs s)" and "j_settled (f (objs s ! i)) = j_settled (objs s ! i)"
  shows "settled_count (job_update i f s) = settled_count s"
  unfolding settled_count_def
  by (intro arg_cong [of _ _ length] filter_cong) (auto simp: job_update_objs assms nth_list_update)

lemma inflight_frame [simp]:
  "listed (s\<lparr>inflight := n\<rparr>) = listed s" "queued (s\<lparr>inflight := n\<rparr>) = queued s" "settled_count (s\<lparr>inflight := n\<rparr>) = settled_count s"
  "job_update i f (s\<lparr>inflight := n\<rparr>) = (job_update i f s)\<lparr>inflight := n\<rparr>"
  by (simp_all add: listed_def queued_def settled_count_def job_update_def)

text \<open>A running job ends: some last change \<open>g\<close>, then the \<open>finally\<close> block.\<close>

lemma end_ok:
  assumes "base s" and i: "i < length (objs s)" and r: "j_running (objs s ! i)"
    and g: "j_id (g (objs s ! i)) = j_id (objs s ! i)" "j_status (g (objs s ! i)) \<noteq> Queued" "j_running (g (objs s ! i))"
      "j_status (g (objs s ! i)) \<noteq> Completed \<Longrightarrow>
         0 \<le> j_bytes (g (objs s ! i)) \<and> j_bytes (g (objs s ! i)) \<le> j_total (g (objs s ! i)) \<and> j_total (g (objs s ! i)) \<le> MAX_BYTES"
      "i \<in> set (listed s) \<Longrightarrow> j_status (g (objs s ! i)) \<noteq> Running"
    and t: "t = job_finally i (job_update i g s)"
  shows "base t \<and> queued t = queued s \<and> settled_count t \<le> MAX_HISTORY \<and> inflight t = inflight s - 1 \<and> xdisposed t = xdisposed s"
proof -
  define f :: "job \<Rightarrow> job" where
    "f = (\<lambda>j. (g j)\<lparr>j_local := None, j_remote := None, j_context := None, j_settled := True, j_running := False\<rparr>)"
  define u where "u = (job_update i f s)\<lparr>inflight := inflight s - 1\<rparr>"
  have st: "j_status (objs s ! i) \<noteq> Queued" using base_job [OF assms(1) i] r by (simp add: job_ok_def)
  have fj: "job_ok (f (objs s ! i))" "j_id (f (objs s ! i)) = j_id (objs s ! i)"
      "i \<in> set (listed s) \<Longrightarrow> listed_ok (f (objs s ! i))"
    using g by (simp_all add: f_def job_ok_def listed_ok_def)
  have run: "running ((objs s)[i := f (objs s ! i)]) + 1 = running (objs s)"
    using running_update [OF i, of "f (objs s ! i)"] r by (simp add: f_def)
  have "table_ok ((objs s)[i := f (objs s ! i)]) (table s)"
    using table_ok_update [OF base_table [OF assms(1)] i fj(2)] fj(3) by (simp add: listed_def)
  moreover have "list_all job_ok ((objs s)[i := f (objs s ! i)])"
    using assms(1) fj(1) by (intro list_all_update) (simp_all add: base_def)
  ultimately have u: "base u" using assms(1) run by (auto simp: base_def u_def job_update_objs i)
  have "queued u = queued s" using queued_job_same [of i s f] i st g(2) by (simp add: u_def f_def)
  moreover have "t = emit (trim u)"
    using i by (simp add: t job_finally_def u_def f_def Let_def job_update_def)
  ultimately show ?thesis using u queued_trim [OF u] base_trim [OF u] settled_trim [of u] by (simp add: u_def)
qed

text \<open>The same when the transfer threw.\<close>

lemma throws_ok:
  assumes "base s" and i: "i < length (objs s)" and r: "j_running (objs s ! i)" and t: "t = job_finally i (job_throws i code b s)"
  shows "base t \<and> queued t = queued s \<and> settled_count t \<le> MAX_HISTORY \<and> inflight t = inflight s - 1 \<and> xdisposed t = xdisposed s"
proof -
  define g :: "job \<Rightarrow> job" where "g = (\<lambda>j. if is_listed i s then j\<lparr>j_error := Some (safe_code code),
    j_status := (if j_aborted j \<or> code = ''PORTAL_CANCELLED'' then Cancelled else Failed),
    j_retained := (case b of None \<Rightarrow> j_retained j | Some b \<Rightarrow> b)\<rparr> else j)"
  have "job_throws i code b s = job_update i g s" by (simp add: job_throws_def g_def job_update_def)
  then have t': "t = job_finally i (job_update i g s)" using t by simp
  show ?thesis
    by (rule end_ok [OF assms(1) i r _ _ _ _ _ t'])
      (use base_job [OF assms(1) i] r listed_iff [OF assms(1), of i] in \<open>auto simp: g_def job_ok_def\<close>)
qed

section \<open>How a job may change\<close>

definition later :: "job \<Rightarrow> job \<Rightarrow> bool" where
  "later j j' \<longleftrightarrow> (j_settled j \<longrightarrow> j_settled j' \<and> dto_of j' = dto_of j)
     \<and> (j_aborted j \<longrightarrow> j_aborted j' \<and> (j_status j \<noteq> Completed \<longrightarrow> j_status j' \<noteq> Completed))
     \<and> (j_status j = Cancelled \<longrightarrow> j_status j' = Cancelled)"

definition evolves :: "xfer \<Rightarrow> xfer \<Rightarrow> bool" where
  "evolves s t \<longleftrightarrow> length (objs s) \<le> length (objs t) \<and> (\<forall>i<length (objs s). later (objs s ! i) (objs t ! i))"

lemma evolves_objs: "objs t = objs s \<Longrightarrow> evolves s t"
  by (simp add: evolves_def later_def)

lemma later_trans: "later a b \<Longrightarrow> later b c \<Longrightarrow> later a c"
  by (auto simp: later_def)

lemma evolves_trans: "evolves s t \<Longrightarrow> evolves t u \<Longrightarrow> evolves s u"
  unfolding evolves_def using later_trans by (meson less_le_trans order_trans)

lemma evolves_update: "later (objs s ! i) (f (objs s ! i)) \<Longrightarrow> evolves s (job_update i f s)"
  by (auto simp: evolves_def job_update_def nth_list_update later_def)

lemma evolves_frame [simp]:
  "evolves s (emit t) = evolves s t" "evolves s (trim t) = evolves s t" "evolves s (t\<lparr>inflight := n\<rparr>) = evolves s t"
  "evolves s (t\<lparr>dialog := d\<rparr>) = evolves s t" "evolves s (t\<lparr>table := tb\<rparr>) = evolves s t"
  "evolves s (t\<lparr>current_key := k, current_scope := c\<rparr>) = evolves s t"
  by (simp_all add: evolves_def)

lemma evolves_clear: "evolves s (clear s)"
proof -
  have "evolves s (foldl (\<lambda>s i. job_update i (\<lambda>j. j\<lparr>j_aborted := True\<rparr>) s) s ids)" for ids
  proof (induction ids rule: rev_induct)
    case (snoc i ids)
    show ?case using evolves_trans [OF snoc evolves_update] by (simp add: later_def dto_of_def)
  qed (simp add: evolves_objs)
  then show ?thesis by (simp add: clear_def)
qed

lemma evolves_adopt: "evolves s (adopt c s)" and evolves_forget: "evolves s (forget_context s)"
  by (simp_all add: adopt_def forget_context_def evolves_clear evolves_objs)

text \<open>A running job is not settled, so its end may write to it.\<close>

lemma evolves_throws: "base s \<Longrightarrow> i < length (objs s) \<Longrightarrow> j_running (objs s ! i) \<Longrightarrow> evolves s (job_finally i (job_throws i code b s))"
proof -
  assume a: "base s" "i < length (objs s)" "j_running (objs s ! i)"
  then have "\<not> j_settled (objs s ! i)" "j_status (objs s ! i) = Cancelled \<Longrightarrow> j_aborted (objs s ! i)"
    using base_job [of s i] by (auto simp: job_ok_def)
  then have "evolves s (job_update i (\<lambda>j. j\<lparr>j_local := None, j_remote := None, j_context := None, j_settled := True, j_running := False\<rparr>)
      (job_throws i code b s))"
    using a(2) by (auto simp: job_throws_def evolves_def job_update_def nth_list_update later_def)
  then show ?thesis by (simp add: job_finally_def Let_def)
qed

section \<open>The queue\<close>

lemma execute_ok:
  assumes "base s" and "xfer_limits s" and slot: "inflight s < MAX_INFLIGHT" and q: "queued s = i # rest"
  shows "base (execute i s) \<and> xfer_limits (execute i s) \<and> queued (execute i s) = rest \<and> xdisposed (execute i s) = xdisposed s
    \<and> evolves s (execute i s)"
proof -
  let ?f = "\<lambda>j. j\<lparr>j_status := Running, j_running := True\<rparr>"
  have "i \<in> set (queued s)" using q by simp
  then have li: "i \<in> set (listed s)" and st: "j_status (objs s ! i) = Queued" by (auto simp: queued_def)
  have i: "i < length (objs s)" using base_listed [OF assms(1) li] by simp
  have ok: "job_ok (objs s ! i)" using assms(1) i by (rule base_job)
  then have nr: "\<not> j_running (objs s ! i)" "\<not> j_settled (objs s ! i)" using st by (auto simp: job_ok_def)
  define u where "u = emit (job_update i ?f (s\<lparr>inflight := inflight s + 1\<rparr>))"
  have ou: "objs u = (objs s)[i := ?f (objs s ! i)]" using i by (simp add: u_def job_update_objs)
  have "running (objs u) = inflight s + 1"
    using running_update [OF i, of "?f (objs s ! i)"] nr assms(1) by (simp add: ou base_def)
  moreover have "table_ok (objs u) (table s)"
    unfolding ou by (rule table_ok_update [OF base_table [OF assms(1)] i]) (simp_all add: listed_ok_def nr)
  moreover have "list_all job_ok (objs u)"
    unfolding ou using assms(1) nr ok st by (intro list_all_update) (simp_all add: base_def job_ok_def)
  ultimately have u: "base u" using assms(1) by (auto simp: base_def u_def)
  have "distinct (queued s)" using listed_distinct [OF base_table [OF assms(1)]] by (simp add: queued_def listed_def)
  then have "filter (\<lambda>k. k \<noteq> i) (queued s) = rest" using q by (auto intro: filter_True)
  then have qu: "queued u = rest" using queued_job_update [of i s ?f] i by (simp add: u_def)
  have su: "settled_count u = settled_count s" using settled_job_update [of i s ?f] i by (simp add: u_def)
  have iu: "i < length (objs u)" "j_running (objs u ! i)" using i by (simp_all add: ou)
  have fields: "inflight u = inflight s + 1" "xdisposed u = xdisposed s" by (simp_all add: u_def)
  have lim: "xfer_limits u" using assms(2) slot qu su q by (simp add: xfer_limits_def fields)
  have "\<exists>failure. execute i s = (case failure of None \<Rightarrow> u | Some code \<Rightarrow> job_finally i (job_throws i code None u))"
    unfolding execute_def Let_def u_def [symmetric] by (rule exI, rule refl)
  moreover have ev: "evolves s u"
    using evolves_update [of s i ?f] nr ok st by (simp add: u_def later_def)
  ultimately obtain failure where "execute i s = (case failure of None \<Rightarrow> u | Some code \<Rightarrow> job_finally i (job_throws i code None u))" by blast
  then show ?thesis
    using u lim qu fields throws_ok [OF u iu refl] assms(2) q ev evolves_trans [OF ev evolves_throws [OF u iu]]
    by (cases failure) (simp_all add: xfer_limits_def)
qed

lemma pump_loop_ok:
  "base s \<Longrightarrow> xfer_limits s \<Longrightarrow> length (queued s) \<le> n \<Longrightarrow>
     base (pump_loop n s) \<and> xfer_limits (pump_loop n s) \<and> served (pump_loop n s) \<and> xdisposed (pump_loop n s) = xdisposed s
       \<and> evolves s (pump_loop n s)"
proof (induction n arbitrary: s)
  case (Suc n)
  show ?case
  proof (cases "inflight s < MAX_INFLIGHT \<and> queued s \<noteq> []")
    case True
    then obtain i rest where q: "queued s = i # rest" by (cases "queued s") auto
    from execute_ok [OF Suc.prems(1,2) _ q] True Suc.IH [of "execute i s"] Suc.prems(3) show ?thesis
      by (auto simp: q intro: evolves_trans)
  next
    case False
    then show ?thesis using Suc.prems by (auto simp: served_def evolves_objs split: list.split)
  qed
qed (simp add: served_def evolves_objs)

lemma pump_ok: "base s \<Longrightarrow> xfer_limits s \<Longrightarrow> base (pump s) \<and> xfer_limits (pump s) \<and> served (pump s) \<and> xdisposed (pump s) = xdisposed s \<and> evolves s (pump s)"
  using pump_loop_ok [of s "length (queued s)"] by (auto simp: pump_def served_def evolves_objs)

section \<open>Every call keeps the invariant\<close>

definition xfer_ok :: "xfer \<Rightarrow> bool" where
  "xfer_ok s \<longleftrightarrow> base s \<and> xfer_limits s \<and> served s"

lemma frame [simp]:
  "base (s\<lparr>dialog := d\<rparr>) = base s" "xfer_limits (s\<lparr>dialog := d\<rparr>) = xfer_limits s" "served (s\<lparr>dialog := d\<rparr>) = served s"
  "base (s\<lparr>xenv := e\<rparr>) = base s" "xfer_limits (s\<lparr>xenv := e\<rparr>) = xfer_limits s" "served (s\<lparr>xenv := e\<rparr>) = served s"
  "base (s\<lparr>current_key := k, current_scope := c\<rparr>) = base s" "xfer_limits (s\<lparr>current_key := k, current_scope := c\<rparr>) = xfer_limits s"
  "served (s\<lparr>current_key := k, current_scope := c\<rparr>) = served s"
  by (simp_all add: base_def xfer_limits_def served_def listed_def queued_def settled_count_def)

lemma xfer_frame [simp]:
  "xfer_ok (s\<lparr>dialog := d\<rparr>) = xfer_ok s" "xfer_ok (s\<lparr>xenv := e\<rparr>) = xfer_ok s" "xfer_ok (emit s) = xfer_ok s"
  "xfer_ok (s\<lparr>current_key := k, current_scope := c\<rparr>) = xfer_ok s"
  by (simp_all add: xfer_ok_def)

lemma abort_ok:
  assumes "base s" and "i \<in> set (listed s)"
  shows "base (job_update i (\<lambda>j. j\<lparr>j_aborted := True\<rparr>) s)"
  using assms base_listed [OF assms] base_job [OF assms(1), of i]
  by (intro base_job_update) (auto simp: job_ok_def listed_ok_def)

lemma clear_ok:
  assumes "base s"
  shows "base (clear s) \<and> table (clear s) = [] \<and> inflight (clear s) = inflight s \<and> xdisposed (clear s) = xdisposed s"
proof -
  let ?abort = "\<lambda>s i. job_update i (\<lambda>j. j\<lparr>j_aborted := True\<rparr>) s"
  have "base (foldl ?abort s is) \<and> inflight (foldl ?abort s is) = inflight s \<and> xdisposed (foldl ?abort s is) = xdisposed s"
    if "set is \<subseteq> set (listed s)" for "is" using that assms
  proof (induction "is" arbitrary: s)
    case (Cons i "is")
    then have "base (?abort s i)" by (intro abort_ok) auto
    then show ?case using Cons.IH [of "?abort s i"] Cons.prems by simp
  qed simp
  from this [of "listed s"] show ?thesis by (simp add: clear_def base_def table_ok_def)
qed

lemma empty_ok: "base s \<Longrightarrow> table s = [] \<Longrightarrow> inflight s \<le> MAX_INFLIGHT \<Longrightarrow> xfer_ok s"
  by (simp add: xfer_ok_def xfer_limits_def served_def queued_def settled_count_def listed_def)

lemma xfer_clear: "xfer_ok s \<Longrightarrow> xfer_ok (clear s)"
  using clear_ok [of s] by (intro empty_ok) (simp_all add: xfer_ok_def xfer_limits_def)

lemma xfer_adopt: "xfer_ok s \<Longrightarrow> xfer_ok (adopt c s)"
  by (simp add: adopt_def xfer_clear)

lemma xfer_forget: "xfer_ok s \<Longrightarrow> xfer_ok (forget_context s)"
  by (simp add: forget_context_def xfer_clear)

lemma xfer_dispose:
  assumes "xfer_ok s"
  shows "xfer_ok (dispose_transfers s)"
proof -
  let ?u = "\<lambda>s. s\<lparr>xdisposed := True\<rparr>"
  have up: "job_update i f (?u s) = ?u (job_update i f s)" for i f s by (simp add: job_update_def)
  have "foldl (\<lambda>s i. job_update i f s) (?u s) ids = ?u (foldl (\<lambda>s i. job_update i f s) s ids)" for f ids
    by (induction ids arbitrary: s) (simp_all add: up)
  then have "clear (?u s) = ?u (clear s)" by (simp add: clear_def listed_def)
  then have eq: "dispose_transfers s = ?u (forget_context s)" by (simp add: dispose_transfers_def forget_context_def)
  have "xfer_ok (forget_context s)" "table (forget_context s) = []"
    using assms xfer_forget clear_ok [of s] by (auto simp: forget_context_def xfer_ok_def)
  then show ?thesis unfolding eq
    by (intro empty_ok) (auto simp: xfer_ok_def xfer_limits_def base_def)
qed

lemma xfer_update: "xfer_ok s \<Longrightarrow> xfer_ok (update_transfers s)"
  by (auto simp: update_transfers_def xfer_adopt xfer_forget split: sum.split)

lemma xfer_list: "xfer_ok s \<Longrightarrow> xfer_ok (snd (list_transfers p s))"
  by (auto simp: list_transfers_def Let_def xfer_adopt split: sum.split)

lemma xfer_start: "xfer_ok s \<Longrightarrow> xfer_ok (snd (start_transfer p s))"
  by (auto simp: start_transfer_def Let_def xfer_adopt split: sum.split)

lemma xfer_progress: "xfer_ok s \<Longrightarrow> xfer_ok (progress i b t ph m s)"
proof -
  assume s: "xfer_ok s"
  show ?thesis
  proof (cases "progress i b t ph m s = s")
    case False
    then obtain x y where xy: "b = JNum x" "t = JNum y" and i: "i < length (objs s)" "job_current i s"
      and ok: "\<not> x < j_bytes (objs s ! i)" "\<not> y < x" "\<not> MAX_BYTES < y"
      by (auto simp: progress_def split: jsval.splits if_splits)
    let ?f = "\<lambda>j. j\<lparr>j_bytes := x, j_total := y, j_phase := ph, j_mode := m,
      j_retained := (j_retained j \<or> (j_upload j \<and> ph \<in> {''negotiating'', ''uploading'', ''verifying'', ''publishing''}))\<rparr>"
    have eq: "progress i b t ph m s = emit (job_update i ?f s)"
      using False xy i ok by (auto simp: progress_def split: if_splits)
    have base: "base s" using s by (simp add: xfer_ok_def)
    have jok: "job_ok (objs s ! i)" using base i(1) by (rule base_job)
    have "is_listed i s" using i(2) by (simp add: job_current_def)
    then have li: "i \<in> set (listed s)" by (force simp: is_listed_def listed_def dest: map_of_SomeD)
    have jf: "j_status (?f (objs s ! i)) = j_status (objs s ! i)" by simp
    have "job_ok (?f (objs s ! i))" using jok ok
      by (auto simp: job_ok_def)
    then have "base (job_update i ?f s)"
      using base i(1) base_listed [OF base li] by (intro base_job_update) (auto simp: listed_ok_def)
    moreover have "queued (job_update i ?f s) = queued s"
      unfolding queued_def by (intro filter_cong) (auto simp: job_update_objs i(1) nth_list_update)
    ultimately show ?thesis using s settled_job_update [of i s ?f] i(1)
      by (simp add: eq xfer_ok_def xfer_limits_def served_def)
  qed (use s in simp)
qed

lemma xfer_cancel_job:
  assumes s: "xfer_ok s"
  shows "xfer_ok (cancel_job jid s)"
proof (cases "\<exists>i. map_of (table s) jid = Some i \<and> j_status (objs s ! i) \<in> {Queued, Running}")
  case True
  then obtain i where look: "map_of (table s) jid = Some i" and st: "j_status (objs s ! i) \<in> {Queued, Running}" by blast
  let ?f = cancelled_job
  have base: "base s" using s by (simp add: xfer_ok_def)
  note job = table_lookup [OF base_table [OF base] look]
  have jok: "job_ok (objs s ! i)" using base job by (simp add: base_job)
  have "job_ok (?f (objs s ! i))" "listed_ok (?f (objs s ! i))" "j_running (?f (objs s ! i)) = j_running (objs s ! i)"
    "j_id (?f (objs s ! i)) = j_id (objs s ! i)"
    using jok st job by (auto simp: cancelled_job_def job_ok_def listed_ok_def)
  then have u: "base (job_update i ?f s)" using base job by (intro base_job_update) simp_all
  have q: "queued (job_update i ?f s) = filter (\<lambda>k. k \<noteq> i) (queued s)"
    using job by (intro queued_job_update) (simp_all add: cancelled_job_def)
  have "length (filter (\<lambda>k. k \<noteq> i) (queued s)) \<le> MAX_QUEUED"
    using s length_filter_le [of "\<lambda>k. k \<noteq> i" "queued s"] unfolding xfer_ok_def xfer_limits_def by linarith
  then have "xfer_ok (emit (trim (job_update i ?f s)))"
    using s base_trim [OF u] queued_trim [OF u] settled_trim [of "job_update i ?f s"] q
    by (auto simp: xfer_ok_def xfer_limits_def served_def)
  then show ?thesis using look st by (simp add: cancel_job_def)
qed (use s in \<open>auto simp: cancel_job_def split: option.split\<close>)

text \<open>What a call of \<open>cancel\<close> does, if it does anything.\<close>

lemma cancel_shape:
  assumes "cancel_transfer p s = (r, u)"
  shows "(\<exists>e. r = Inl e) \<and> u = s \<or> (\<exists>c jid. getProp p (js ''id'') = JStr jid \<and> u = cancel_job jid (adopt c s) \<and> (\<exists>snap. r = Inr snap))"
  using assms
  by (auto simp: cancel_transfer_def Let_def simp del: js_simps split: sum.splits jsval.splits if_splits) blast+

lemma xfer_cancel: "xfer_ok s \<Longrightarrow> xfer_ok (snd (cancel_transfer p s))"
  using cancel_shape [of p s, OF surjective_pairing] xfer_cancel_job [OF xfer_adopt] by metis

lemma map_set_new:
  assumes t: "table_ok os t" and j: "j_id j = k" "listed_ok j"
  shows "table_ok (os @ [j]) (map_set k (length os) t)"
proof (cases "k \<in> fst ` set t")
  case False
  then show ?thesis using assms by (auto simp: map_set_def table_ok_def nth_append)
next
  case True
  have keys: "map fst (map_set k (length os) t) = map fst t"
    using True by (auto simp: map_set_def split_def)
  show ?thesis unfolding table_ok_def keys
    using assms True by (auto simp: map_set_def table_ok_def nth_append split: if_splits)
qed

lemma map_set_count:
  assumes "distinct (map fst t)"
  shows "length (filter P (map snd (map_set k i t))) \<le> length (filter P (map snd t)) + (if P i then 1 else 0)"
proof (cases "k \<in> fst ` set t")
  case False
  then show ?thesis by (simp add: map_set_def)
next
  case True
  let ?put = "map (\<lambda>(k', i'). if k' = k then (k, i) else (k', i'))"
  have same: "k \<notin> fst ` set t \<Longrightarrow> ?put t = t" for t :: "(jsstr \<times> nat) list"
    by (induction t) auto
  have "length (filter P (map snd (?put t))) \<le> length (filter P (map snd t)) + (if P i then 1 else 0)"
    using assms
  proof (induction t)
    case (Cons p t)
    show ?case
    proof (cases "fst p = k")
      case True
      then have "?put (p # t) = (k, i) # t" using same [of t] Cons.prems by (cases p) simp
      then show ?thesis by (simp only:) simp
    next
      case False
      then show ?thesis using Cons by (cases p) auto
    qed
  qed simp
  then show ?thesis using True by (simp add: map_set_def)
qed

lemma enqueue_count:
  assumes "base s"
  shows "length (filter (\<lambda>i. P ((objs s @ [j]) ! i)) (map snd (map_set k (length (objs s)) (table s))))
    \<le> length (filter (\<lambda>i. P (objs s ! i)) (listed s)) + (if P j then 1 else 0)"
proof -
  let ?Q = "\<lambda>i. P ((objs s @ [j]) ! i)"
  have "length (filter ?Q (map snd (map_set k (length (objs s)) (table s)))) \<le> length (filter ?Q (map snd (table s))) + (if P j then 1 else 0)"
    using map_set_count [of "table s" ?Q k "length (objs s)"] assms by (simp add: base_def table_ok_def)
  moreover have "filter ?Q (map snd (table s)) = filter (\<lambda>i. P (objs s ! i)) (listed s)"
    using base_listed [OF assms] unfolding listed_def by (intro filter_cong) (auto simp: nth_append)
  ultimately show ?thesis by simp
qed

lemma enqueue_ok:
  assumes "xfer_ok s" and live: "\<not> xdisposed s" and room: "\<not> MAX_QUEUED \<le> length (queued s)"
    and u_def: "u = s\<lparr>objs := objs s @ [new_job p uuid local s], table := map_set uuid (length (objs s)) (table s)\<rparr>"
  shows "base u \<and> xfer_limits u"
proof -
  let ?j = "new_job p uuid local s"
  have base: "base s" using assms by (simp add: xfer_ok_def)
  have j: "job_ok ?j" "listed_ok ?j" "j_id ?j = uuid" "\<not> j_running ?j" "\<not> j_settled ?j"
    by (simp_all add: new_job_def job_ok_def listed_ok_def MAX_BYTES_def)
  have "base u"
    using base live j map_set_new [OF base_table [OF base] j(3,2)] by (simp add: base_def u_def running_def)
  moreover have "length (queued u) \<le> length (queued s) + 1" "settled_count u \<le> settled_count s"
    using enqueue_count [OF base, of "\<lambda>j. j_status j = Queued" ?j uuid] enqueue_count [OF base, of j_settled ?j uuid] j
    unfolding u_def queued_def settled_count_def listed_def by (simp_all del: filter_map split: if_splits)
  ultimately show ?thesis using assms room by (simp add: xfer_limits_def xfer_ok_def)
qed

lemma xfer_enqueue:
  assumes "xfer_ok s" and live: "\<not> xdisposed s"
  shows "xfer_ok (snd (enqueue_job p uuid local s))"
proof (cases "MAX_QUEUED \<le> length (queued s)")
  case True
  then show ?thesis using assms by (simp add: enqueue_job_def)
next
  case False
  show ?thesis using False pump_ok [of "emit _"] enqueue_ok [OF assms False refl]
    by (simp add: enqueue_job_def Let_def xfer_ok_def)
qed

lemma current_live: "assert_current c s = None \<Longrightarrow> \<not> xdisposed s"
  by (auto simp: assert_current_def context_at_def)

lemma xfer_dialog: "xfer_ok s \<Longrightarrow> xfer_ok (snd (dialog_done outcome uuid s))"
  by (auto simp: dialog_done_def Let_def intro!: xfer_enqueue dest: current_live split: option.split sum.split dialog_outcome.split)

lemma xfer_confirm: "xfer_ok s \<Longrightarrow> xfer_ok (snd (confirm_done response uuid s))"
  by (auto simp: confirm_done_def intro!: xfer_enqueue dest: current_live split: option.split sum.split)

lemma xfer_ends:
  assumes "xfer_ok s"
  shows "xfer_ok (transfer_ends i outcome s)"
proof (cases "i < length (objs s) \<and> j_running (objs s ! i)")
  case True
  have base: "base s" and lim: "xfer_limits s" using assms by (simp_all add: xfer_ok_def)
  have fin: "xfer_ok (pump t)" if "base t \<and> queued t = queued s \<and> settled_count t \<le> MAX_HISTORY \<and> inflight t = inflight s - 1
      \<and> xdisposed t = xdisposed s" for t
    using pump_ok [of t] that lim by (auto simp: xfer_ok_def xfer_limits_def)
  show ?thesis
  proof (cases outcome)
    case (Threw code retained)
    then show ?thesis using True fin throws_ok [OF base _ _ refl] by (simp add: transfer_ends_def)
  next
    case (Succeeded b m r)
    let ?g = "\<lambda>j. j\<lparr>j_status := Completed, j_phase := ''completed'', j_bytes := b, j_total := b, j_mode := m, j_retained := r\<rparr>"
    have "xfer_ok (pump (job_finally i (job_update i ?g s)))"
      by (rule fin, rule end_ok [OF base _ _ _ _ _ _ _ refl]) (use True in auto)
    then show ?thesis using True Succeeded fin throws_ok [OF base _ _ refl] by (simp add: transfer_ends_def)
  qed
qed (use assms in \<open>auto simp: transfer_ends_def\<close>)

theorem xfer_step_ok: "xfer_ok s \<Longrightarrow> xfer_ok (xfer_step s ev)"
  by (cases ev) (simp_all add: xfer_list xfer_start xfer_cancel xfer_update xfer_dispose xfer_dialog xfer_confirm xfer_progress xfer_ends)

lemma create_xfer_ok: "xfer_ok (create_xfer e)"
  by (simp add: create_xfer_def xfer_ok_def base_def xfer_limits_def served_def table_ok_def running_def queued_def settled_count_def listed_def)

section \<open>Every event lets the jobs evolve\<close>

lemma evolves_list: "evolves s (snd (list_transfers p s))"
  by (auto simp: list_transfers_def Let_def evolves_adopt evolves_objs split: sum.split)

lemma evolves_start: "evolves s (snd (start_transfer p s))"
  by (auto simp: start_transfer_def Let_def evolves_adopt evolves_objs split: sum.split)

lemma evolves_update_call: "evolves s (update_transfers s)"
  by (auto simp: update_transfers_def evolves_adopt evolves_forget evolves_objs split: sum.split)

lemma evolves_dispose: "evolves s (dispose_transfers s)"
  using evolves_trans [OF evolves_objs evolves_forget, of "s\<lparr>xdisposed := True\<rparr>" s] by (simp add: dispose_transfers_def)

lemma evolves_progress: "xfer_ok s \<Longrightarrow> evolves s (progress i b t ph m s)"
proof (cases "i < length (objs s) \<and> job_current i s")
  case True
  assume "xfer_ok s"
  then have "\<not> j_settled (objs s ! i)"
    using True base_job [of s i] by (auto simp: xfer_ok_def job_current_def job_ok_def split: option.splits)
  then show ?thesis
    by (auto simp: progress_def evolves_objs later_def split: jsval.split intro!: evolves_update)
qed (auto simp: progress_def evolves_objs)

lemma evolves_cancel_job: "xfer_ok s \<Longrightarrow> evolves s (cancel_job jid s)"
proof -
  assume s: "xfer_ok s"
  then have a: "base s" by (simp add: xfer_ok_def)
  have "evolves s (job_update i cancelled_job s)"
    if look: "map_of (table s) jid = Some i" and st: "j_status (objs s ! i) \<in> {Queued, Running}" for i
  proof -
    note job = table_lookup [OF base_table [OF a] look]
    then have "\<not> j_settled (objs s ! i)" using base_job [OF a, of i] st by (auto simp: job_ok_def listed_ok_def)
    then show ?thesis by (intro evolves_update) (simp add: later_def cancelled_job_def)
  qed
  then show ?thesis by (auto simp: cancel_job_def evolves_objs split: option.split)
qed

lemma evolves_cancel: "xfer_ok s \<Longrightarrow> evolves s (snd (cancel_transfer p s))"
  using cancel_shape [of p s, OF surjective_pairing] evolves_trans [OF evolves_adopt evolves_cancel_job [OF xfer_adopt]] evolves_objs [OF refl]
  by metis

lemma evolves_enqueue:
  assumes "xfer_ok s" and live: "\<not> xdisposed s"
  shows "evolves s (snd (enqueue_job p uuid local s))"
proof (cases "MAX_QUEUED \<le> length (queued s)")
  case True
  then show ?thesis by (simp add: enqueue_job_def evolves_objs)
next
  case False
  define u where "u = s\<lparr>objs := objs s @ [new_job p uuid local s], table := map_set uuid (length (objs s)) (table s)\<rparr>"
  have "evolves s u" by (simp add: evolves_def u_def nth_append later_def)
  moreover have "base u \<and> xfer_limits u" using enqueue_ok [OF assms False u_def] .
  ultimately have "evolves s (pump (emit u))" using pump_ok [of "emit u"] evolves_trans [of s "emit u"] by auto
  then show ?thesis using False by (simp add: enqueue_job_def Let_def u_def)
qed

lemma evolves_dialog: "xfer_ok s \<Longrightarrow> evolves s (snd (dialog_done outcome uuid s))"
  by (auto simp: dialog_done_def Let_def evolves_objs intro!: evolves_enqueue dest: current_live split: option.split sum.split dialog_outcome.split)

lemma evolves_confirm: "xfer_ok s \<Longrightarrow> evolves s (snd (confirm_done response uuid s))"
  by (auto simp: confirm_done_def evolves_objs intro!: evolves_enqueue dest: current_live split: option.split sum.split)

lemma evolves_ends:
  assumes "xfer_ok s"
  shows "evolves s (transfer_ends i outcome s)"
proof (cases "i < length (objs s) \<and> j_running (objs s ! i)")
  case True
  have base: "base s" and lim: "xfer_limits s" using assms by (simp_all add: xfer_ok_def)
  have pump: "evolves s (pump t)" if "base t \<and> queued t = queued s \<and> settled_count t \<le> MAX_HISTORY \<and> inflight t = inflight s - 1
      \<and> xdisposed t = xdisposed s" "evolves s t" for t
    using pump_ok [of t] that lim evolves_trans by (auto simp: xfer_limits_def)
  have threw: "evolves s (pump (job_finally i (job_throws i code b s)))" for code b
    using True by (intro pump throws_ok [OF base _ _ refl] evolves_throws base) simp_all
  show ?thesis
  proof (cases outcome)
    case (Succeeded b m r)
    let ?g = "\<lambda>j. j\<lparr>j_status := Completed, j_phase := ''completed'', j_bytes := b, j_total := b, j_mode := m, j_retained := r\<rparr>"
    have "evolves s (pump (job_finally i (job_update i ?g s)))" if "job_current i s"
    proof (rule pump [OF end_ok [OF base _ _ _ _ _ _ _ refl]])
      have "later (objs s ! i) ((?g (objs s ! i))\<lparr>j_local := None, j_remote := None, j_context := None, j_settled := True, j_running := False\<rparr>)"
        using True that base_job [OF base, of i] by (auto simp: later_def job_current_def job_ok_def)
      then have "evolves s (job_update i (\<lambda>j. j\<lparr>j_local := None, j_remote := None, j_context := None, j_settled := True, j_running := False\<rparr>) (job_update i ?g s))"
        using True by (auto simp: evolves_def job_update_def nth_list_update later_def)
      then show "evolves s (job_finally i (job_update i ?g s))" by (simp add: job_finally_def Let_def)
    qed (use True in auto)
    then show ?thesis using True Succeeded threw by (simp add: transfer_ends_def)
  qed (use True threw in \<open>simp add: transfer_ends_def\<close>)
qed (auto simp: transfer_ends_def evolves_objs)

theorem step_evolves_jobs: "xfer_ok s \<Longrightarrow> evolves s (xfer_step s ev)"
  by (cases ev) (simp_all add: evolves_list evolves_start evolves_cancel evolves_update_call evolves_dispose evolves_dialog
    evolves_confirm evolves_progress evolves_ends evolves_objs)

interpretation transfers: event_machine xfer_step xfer_ok
  by unfold_locales (rule xfer_step_ok)

lemma run_evolves: "xfer_ok s \<Longrightarrow> evolves s (foldl xfer_step s evs)"
proof (induction evs rule: rev_induct)
  case (snoc ev evs)
  then show ?case using step_evolves_jobs [OF transfers.inv_run] evolves_trans by fastforce
qed (simp add: evolves_objs)

section \<open>Claims\<close>

text \<open>Claim C26: over every run of the transfer controller at most two transfers are in flight (and the counter
  is exact), at most twenty jobs are queued and at most fifty ended jobs are kept, so the list never
  has more than seventy-two entries; and while a slot is free no job is left waiting in the queue.\<close>

theorem transfer_queue_bounds:
  assumes "s = foldl xfer_step (create_xfer e) evs"
  shows "inflight s = running (objs s) \<and> inflight s \<le> 2
    \<and> length (queued s) \<le> 20
    \<and> length (filter (\<lambda>i. j_settled (objs s ! i)) (listed s)) \<le> 50
    \<and> length (table s) \<le> 72
    \<and> (queued s = [] \<or> inflight s = 2)"
proof -
  have ok: "xfer_ok s" unfolding assms by (rule transfers.inv_run [OF create_xfer_ok])
  then have base: "base s" and lim: "xfer_limits s" and srv: "served s" by (simp_all add: xfer_ok_def)
  let ?R = "\<lambda>i. j_running (objs s ! i)" and ?S = "\<lambda>i. j_settled (objs s ! i)" and ?Q = "\<lambda>i. j_status (objs s ! i) = Queued"
  have "set (listed s) \<subseteq> set (filter ?S (listed s)) \<union> set (filter ?Q (listed s)) \<union> set (filter ?R (listed s))"
    using base_listed [OF base] by (auto simp: listed_ok_def)
  then have "card (set (listed s)) \<le> card (set (filter ?S (listed s)) \<union> set (filter ?Q (listed s)) \<union> set (filter ?R (listed s)))"
    by (intro card_mono) auto
  also have "\<dots> \<le> card (set (filter ?S (listed s))) + card (set (filter ?Q (listed s))) + card (set (filter ?R (listed s)))"
    by (meson add_le_mono card_Un_le order.trans order_refl)
  also have "\<dots> \<le> settled_count s + length (queued s) + running (objs s)"
  proof -
    have "set (filter ?R (listed s)) \<subseteq> {i. i < length (objs s) \<and> ?R i}" using base_listed [OF base] by auto
    then have "card (set (filter ?R (listed s))) \<le> card {i. i < length (objs s) \<and> ?R i}" by (intro card_mono) auto
    then have "card (set (filter ?R (listed s))) \<le> running (objs s)" by (simp add: running_def length_filter_conv_card)
    moreover have "card (set (filter ?S (listed s))) \<le> settled_count s" by (simp only: settled_count_def card_length)
    moreover have "card (set (filter ?Q (listed s))) \<le> length (queued s)" by (simp only: queued_def card_length)
    ultimately show ?thesis by linarith
  qed
  finally have "length (table s) \<le> settled_count s + length (queued s) + running (objs s)"
    using distinct_card [OF listed_distinct [OF base_table [OF base]]] by (simp add: listed_def del: set_map)
  moreover have "inflight s = running (objs s)" using base by (simp add: base_def)
  moreover have "settled_count s = length (filter ?S (listed s))" by (simp add: settled_count_def)
  moreover have "queued s = [] \<or> inflight s = 2"
    using srv lim base by (auto simp: served_def xfer_limits_def base_def MAX_INFLIGHT_def queued_def listed_def)
  ultimately show ?thesis using lim by (simp add: xfer_limits_def MAX_INFLIGHT_def MAX_QUEUED_def MAX_HISTORY_def)
qed

section \<open>What cancelling does\<close>

text \<open>A change of the context aborts every job the table holds.\<close>

lemma clear_aborts: "i \<in> set (listed s) \<Longrightarrow> i < length (objs s) \<Longrightarrow> j_aborted (objs (clear s) ! i)"
proof -
  let ?abort = "\<lambda>s i. job_update i (\<lambda>j. j\<lparr>j_aborted := True\<rparr>) s"
  have keep: "j_aborted (objs s ! i) \<Longrightarrow> i < length (objs s) \<Longrightarrow> j_aborted (objs (foldl ?abort s ids) ! i)" for s ids
    by (induction ids arbitrary: s) (auto simp: job_update_def nth_list_update)
  have "i \<in> set ids \<Longrightarrow> i < length (objs s) \<Longrightarrow> j_aborted (objs (foldl ?abort s ids) ! i)" for ids
  proof (induction ids arbitrary: s)
    case (Cons k ids)
    then show ?case using keep [of "?abort s i" ids] by (cases "k = i") (auto simp: job_update_def)
  qed simp
  then show "i \<in> set (listed s) \<Longrightarrow> i < length (objs s) \<Longrightarrow> j_aborted (objs (clear s) ! i)" by (simp add: clear_def)
qed

definition key_kept :: "xfer \<Rightarrow> xfer \<Rightarrow> bool" where
  "key_kept s t \<longleftrightarrow> current_key t = current_key s \<or> (\<forall>i\<in>set (listed s). j_aborted (objs t ! i))"

lemma key_kept_same: "current_key t = current_key s \<Longrightarrow> key_kept s t"
  by (simp add: key_kept_def)

lemma key_frame [simp]:
  "current_key (emit s) = current_key s" "current_key (trim s) = current_key s" "current_key (job_update i f s) = current_key s"
  by (simp_all add: emit_def trim_def job_update_def split: option.split sum.split)

lemma key_finally [simp]: "current_key (job_finally i s) = current_key s" "current_key (job_throws i code b s) = current_key s"
  by (simp_all add: job_finally_def job_throws_def Let_def)

lemma key_execute [simp]: "current_key (execute i s) = current_key s"
  by (simp add: execute_def Let_def split: option.split)

lemma key_pump [simp]: "current_key (pump s) = current_key s"
proof -
  have "current_key (pump_loop n s) = current_key s" for n
    by (induction n arbitrary: s) (simp_all split: list.split)
  then show ?thesis by (simp add: pump_def)
qed

lemma key_enqueue [simp]: "current_key (snd (enqueue_job p uuid local s)) = current_key s"
  by (simp add: enqueue_job_def Let_def)

lemma aborts_forget: "xfer_ok s \<Longrightarrow> i \<in> set (listed s) \<Longrightarrow> j_aborted (objs (clear s) ! i)"
  using base_listed [of s i] by (intro clear_aborts) (simp_all add: xfer_ok_def)

lemma key_adopt: "xfer_ok s \<Longrightarrow> key_kept s (adopt c s)" and key_forget: "xfer_ok s \<Longrightarrow> key_kept s (forget_context s)"
  by (simp_all add: key_kept_def adopt_def forget_context_def aborts_forget)

lemma key_objs: "key_kept s t \<Longrightarrow> objs u = objs t \<Longrightarrow> current_key u = current_key t \<Longrightarrow> key_kept s u"
  by (simp add: key_kept_def)

lemma emit_objs: "objs (emit s) = objs s" "objs (trim s) = objs s"
  by simp_all

lemma key_dispose: "xfer_ok s \<Longrightarrow> key_kept s (dispose_transfers s)"
proof -
  assume s: "xfer_ok s"
  have "j_aborted (objs (clear (s\<lparr>xdisposed := True\<rparr>)) ! i)" if "i \<in> set (listed s)" for i
    using that base_listed [of s i] s by (intro clear_aborts) (simp_all add: xfer_ok_def listed_def)
  then show ?thesis by (simp add: key_kept_def dispose_transfers_def forget_context_def)
qed

lemma adopted_empty: "current_key (adopt c s) \<noteq> current_key s \<Longrightarrow> table (adopt c s) = []"
  by (auto simp: adopt_def clear_def)

lemma cancel_job_key [simp]: "current_key (cancel_job jid s) = current_key s"
  by (simp add: cancel_job_def split: option.split)

lemma key_cancel: "xfer_ok s \<Longrightarrow> key_kept s (snd (cancel_transfer p s))"
proof -
  assume s: "xfer_ok s"
  have "key_kept s (cancel_job jid (adopt c s))" for c jid
  proof (cases "current_key (adopt c s) = current_key s")
    case False
    then have "cancel_job jid (adopt c s) = adopt c s" by (simp add: adopted_empty cancel_job_def)
    then show ?thesis using key_adopt [OF s] by simp
  qed (simp add: key_kept_same)
  then show ?thesis using cancel_shape [of p s, OF surjective_pairing] key_kept_same [OF refl] by metis
qed

lemma key_step: "xfer_ok s \<Longrightarrow> key_kept s (xfer_step s ev)"
proof (cases ev)
  case (TransferEnds i outcome)
  then show ?thesis
    by (auto simp: transfer_ends_def intro!: key_kept_same split: transfer_end.split)
next
  case (DialogDone outcome uuid)
  then show ?thesis
    by (cases outcome) (auto simp: dialog_done_def Let_def intro!: key_kept_same split: option.split sum.split)
next
  case (ConfirmDone response uuid)
  then show ?thesis by (auto simp: confirm_done_def intro!: key_kept_same split: option.split sum.split)
next
  case (Progress i b t ph m)
  then show ?thesis by (auto simp: progress_def intro!: key_kept_same split: jsval.split)
next
  case (StartCall p)
  assume "xfer_ok s"
  note a = key_adopt [OF this]
  show ?thesis using a key_objs [OF a] StartCall
    by (auto simp: start_transfer_def Let_def key_kept_same split: sum.split)
next
  case (ListCall p)
  assume "xfer_ok s"
  then show ?thesis using key_adopt ListCall by (auto simp: list_transfers_def Let_def key_kept_same split: sum.split)
next
  case UpdateCall
  assume "xfer_ok s"
  note a = key_adopt [OF this] key_forget [OF this]
  show ?thesis using a key_objs [OF a(1) emit_objs(1)] UpdateCall
    by (auto simp: update_transfers_def key_kept_same split: sum.split)
qed (auto simp: key_cancel key_dispose key_kept_same)

text \<open>A call of \<open>cancel\<close> that finds the job and is in its context.\<close>

lemma cancel_cancels:
  assumes "cancel_transfer p s = (Inr snap, u)" and key: "current_key u = current_key s" and l: "is_listed i s"
    and jid: "getProp p (js ''id'') = JStr (j_id (objs s ! i))" and st: "j_status (objs s ! i) \<in> {Queued, Running}" and i: "i < length (objs s)"
  shows "j_status (objs u ! i) = Cancelled"
proof -
  obtain c where u: "u = cancel_job (j_id (objs s ! i)) (adopt c s)" using cancel_shape [OF assms(1)] jid by auto
  then have "adopt c s = s" using key by (auto simp: adopt_def)
  then show ?thesis using u l st i by (auto simp: cancel_job_def is_listed_def job_update_objs cancelled_job_def)
qed

text \<open>Claim C27: a transfer job that has ended shows the same entry for ever and holds neither the Cookie it ran with
  nor a path; a job that is shown as cancelled stays so, and one whose signal was aborted before it completed is never
  reported as completed, whatever the transfer itself returns later.  The user's \<open>cancel\<close> of a listed job that
  waits or runs makes it cancelled, and an event that changes the context aborts every listed job.\<close>

theorem ended_transfers_final:
  assumes "s = foldl xfer_step (create_xfer e) evs" and "t = foldl xfer_step s more_evs" and "i < length (objs s)"
  shows "(j_settled (objs s ! i) \<longrightarrow> j_settled (objs t ! i) \<and> dto_of (objs t ! i) = dto_of (objs s ! i)
        \<and> j_context (objs t ! i) = None \<and> j_local (objs t ! i) = None \<and> j_remote (objs t ! i) = None)
    \<and> (j_aborted (objs s ! i) \<and> j_status (objs s ! i) \<noteq> Completed \<longrightarrow> j_status (objs t ! i) \<noteq> Completed)
    \<and> (j_status (objs s ! i) = Cancelled \<longrightarrow> j_status (objs t ! i) = Cancelled)
    \<and> (\<forall>p u snap. cancel_transfer p s = (Inr snap, u) \<and> current_key u = current_key s \<and> is_listed i s
        \<and> getProp p (js ''id'') = JStr (j_id (objs s ! i)) \<and> j_status (objs s ! i) \<in> {Queued, Running}
        \<longrightarrow> j_status (objs u ! i) = Cancelled)
    \<and> (\<forall>ev. current_key (xfer_step s ev) \<noteq> current_key s \<and> i \<in> set (listed s) \<longrightarrow> j_aborted (objs (xfer_step s ev) ! i))"
proof -
  have s: "xfer_ok s" unfolding assms by (rule transfers.inv_run [OF create_xfer_ok])
  have ev: "evolves s t" unfolding assms(2) by (rule run_evolves [OF s])
  have t: "base t" using transfers.inv_run [OF s] by (simp add: assms(2) xfer_ok_def)
  have "i < length (objs t)" using ev assms(3) by (simp add: evolves_def)
  then have "job_ok (objs t ! i)" by (rule base_job [OF t])
  then have "(j_settled (objs s ! i) \<longrightarrow> j_settled (objs t ! i) \<and> dto_of (objs t ! i) = dto_of (objs s ! i)
        \<and> j_context (objs t ! i) = None \<and> j_local (objs t ! i) = None \<and> j_remote (objs t ! i) = None)
    \<and> (j_aborted (objs s ! i) \<and> j_status (objs s ! i) \<noteq> Completed \<longrightarrow> j_status (objs t ! i) \<noteq> Completed)
    \<and> (j_status (objs s ! i) = Cancelled \<longrightarrow> j_status (objs t ! i) = Cancelled)"
    using ev assms(3) by (auto simp: evolves_def later_def job_ok_def)
  moreover have "j_status (objs u ! i) = Cancelled"
    if "cancel_transfer p s = (Inr snap, u)" "current_key u = current_key s" "is_listed i s"
      "getProp p (js ''id'') = JStr (j_id (objs s ! i))" "j_status (objs s ! i) \<in> {Queued, Running}" for p u snap
    by (rule cancel_cancels [OF that assms(3)])
  moreover have "j_aborted (objs (xfer_step s ev) ! i)" if "current_key (xfer_step s ev) \<noteq> current_key s" "i \<in> set (listed s)" for ev
    using key_step [OF s, of ev] that by (simp add: key_kept_def)
  ultimately show ?thesis by blast
qed

text \<open>A path without \<open>..\<close> is normalized by dropping its empty and \<open>.\<close> segments.\<close>

lemma normalize_plain:
  "js ''..'' \<notin> set ps \<Longrightarrow> normalize_segments acc ps = acc @ filter (\<lambda>p. p \<noteq> [] \<and> p \<noteq> js ''.'') ps"
  by (induction acc ps rule: normalize_segments.induct) auto

lemma ends_with_slash: "ends_with s (js ''/'') \<longleftrightarrow> s \<noteq> [] \<and> last s = 47"
proof (cases s rule: rev_cases)
  case (snoc t u)
  then show ?thesis by (auto simp: ends_with_def js_def)
qed (simp add: ends_with_def js_def)

lemma last_join: "qs \<noteq> [] \<Longrightarrow> last qs \<noteq> [] \<Longrightarrow> join_with c qs \<noteq> [] \<and> last (join_with c qs) = last (last qs)"
proof (induction c qs rule: join_with.induct)
  case (3 c p q ps)
  then show ?case by (cases "join_with c (q # ps)") auto
qed auto

text \<open>A remote path the transfer code accepts is canonical: absolute, with at least one segment, no
  empty, \<open>.\<close> or \<open>..\<close> segment, no backslash and no control character; normalizing it again changes nothing.\<close>

theorem remote_path_canonical:
  assumes "remote_path v = Inr r"
  shows "\<exists>qs. r = 47 # join_with 47 qs \<and> qs \<noteq> [] \<and> normalize_absolute r = r
    \<and> (\<forall>q\<in>set qs. q \<noteq> [] \<and> q \<noteq> js ''.'' \<and> q \<noteq> js ''..'' \<and> 47 \<notin> set q \<and> 92 \<notin> set q \<and> (\<forall>u\<in>set q. 32 \<le> u \<and> u \<noteq> 127))"
proof -
  obtain s where v: "v = JStr s" and s: "checked_path v = Inr s" and start: "starts_with s (js ''/'')" "92 \<notin> set s"
    and fin: "\<not> ends_with s (js ''/'')" and r: "r = normalize_absolute s" "r \<noteq> js ''/''"
    using assms by (auto simp: remote_path_def checked_path_def Let_def split: jsval.splits if_splits)
  define qs where "qs = filter (\<lambda>p. p \<noteq> [] \<and> p \<noteq> js ''.'') (split_on 47 s)"
  have chars: "\<forall>u\<in>set s. 32 \<le> u \<and> u \<noteq> 127" and dots: "js ''..'' \<notin> set (concat (map (split_on 92) (split_on 47 s)))"
    using s v by (auto simp: checked_path_def list_ex_iff not_less split: if_splits)
  have single: "split_on 92 p = [p]" if "p \<in> set (split_on 47 s)" for p
    using that start(2) split_on_set [of p 47 s] by (intro split_on_notin) blast
  have nodots: "js ''..'' \<notin> set (split_on 47 s)" using dots single by fastforce
  have norm: "normalize_segments [] (split_on 47 s) = qs" using normalize_plain [OF nodots, of "[]"] by (simp add: qs_def)
  then have ne: "qs \<noteq> []" using r by (auto simp: normalize_absolute_def Let_def)
  have req: "r = 47 # join_with 47 qs" using r ne fin by (simp add: normalize_absolute_def norm Let_def js_def)
  have each: "q \<noteq> [] \<and> q \<noteq> js ''.'' \<and> q \<noteq> js ''..'' \<and> 47 \<notin> set q \<and> 92 \<notin> set q \<and> (\<forall>u\<in>set q. 32 \<le> u \<and> u \<noteq> 127)" if "q \<in> set qs" for q
    using that nodots split_on_no_sep [of q 47 s] split_on_set [of q 47 s] start(2) chars by (auto simp: qs_def)
  have split: "split_on 47 r = [] # qs"
  proof -
    have "\<forall>q\<in>set qs. 47 \<notin> set q" using each by blast
    from split_on_join [OF ne this] show ?thesis unfolding req by simp
  qed
  have lq: "last qs \<in> set qs" using ne by (rule last_in_set)
  then have "last qs \<noteq> []" using each by blast
  moreover have "last (last qs) \<noteq> 47" using each [OF lq] last_in_set [OF \<open>last qs \<noteq> []\<close>] by metis
  ultimately have "last r \<noteq> 47" using last_join [OF ne, of 47] by (simp add: req)
  moreover have "normalize_segments [] (split_on 47 r) = qs"
  proof -
    have "js ''..'' \<noteq> []" by (simp add: js_def)
    then have "js ''..'' \<notin> set ([] # qs)" using each by auto
    from normalize_plain [OF this, of "[]"] show ?thesis unfolding split using each by (auto intro!: filter_True)
  qed
  moreover from calculation have "\<not> ends_with r (js ''/'')" by (simp only: ends_with_slash) simp
  ultimately have "normalize_absolute r = js ''/'' @ join_with 47 qs"
    using ne by (simp only: normalize_absolute_def Let_def if_False append_Nil2)
  then have "normalize_absolute r = r" by (simp add: req js_def)
  then show ?thesis using req ne each by blast
qed

section \<open>Witnesses\<close>

definition demo_scope_value :: jsval where
  "demo_scope_value = JObj ObjectProto [(js ''profileId'', JStr (js ''p'')), (js ''epoch'', JNum 3)]"

definition demo_xenv :: xenv where
  "demo_xenv = \<lparr>x_value = Some \<lparr>v_scope = Some (js ''p'', 3), v_cookie = js ''c'', v_generation = JNum 0, v_cluster = JStr (js ''hpc''),
     v_tls = None\<rparr>, x_window = True, x_client = None, x_resolve = (\<lambda>s. s), x_basename = (\<lambda>s. s)\<rparr>"

definition demo_transfer_events :: "xevent list" where
  "demo_transfer_events =
     [StartCall (JObj ObjectProto [(js ''scope'', demo_scope_value), (js ''direction'', JStr (js ''upload'')), (js ''remotePath'', JStr (js ''/a/b''))]),
      DialogDone (Chosen (JStr (js ''/x''))) (js ''id1''),
      CancelCall (JObj ObjectProto [(js ''scope'', demo_scope_value), (js ''id'', JStr (js ''id1''))])]"

lemma transfer_queue_bounds_witness:
  "inflight (foldl xfer_step (create_xfer demo_xenv) demo_transfer_events) = 1
     \<and> length (table (foldl xfer_step (create_xfer demo_xenv) demo_transfer_events)) \<le> 72"
proof -
  have "inflight (foldl xfer_step (create_xfer demo_xenv) demo_transfer_events) = 1" by code_simp
  then show ?thesis using transfer_queue_bounds [OF refl, of demo_xenv demo_transfer_events] by blast
qed

lemma ended_transfers_final_witness:
  "j_status (objs (foldl xfer_step (foldl xfer_step (create_xfer demo_xenv) demo_transfer_events)
     [TransferEnds 0 (Succeeded 5 ''single'' False)]) ! 0) \<noteq> Completed"
proof -
  have "0 < length (objs (foldl xfer_step (create_xfer demo_xenv) demo_transfer_events))
    \<and> j_aborted (objs (foldl xfer_step (create_xfer demo_xenv) demo_transfer_events) ! 0)
    \<and> j_status (objs (foldl xfer_step (create_xfer demo_xenv) demo_transfer_events) ! 0) = Cancelled" by code_simp
  then show ?thesis
    using ended_transfers_final [OF refl refl, of 0 demo_xenv demo_transfer_events "[TransferEnds 0 (Succeeded 5 ''single'' False)]"] by auto
qed

lemma remote_path_canonical_witness: "normalize_absolute (js ''/a/b'') = js ''/a/b'' \<and> remote_path (JStr (js ''//a/./b'')) = Inr (js ''/a/b'')"
proof -
  have p: "remote_path (JStr (js ''//a/./b'')) = Inr (js ''/a/b'')" by code_simp
  from remote_path_canonical [OF p] p show ?thesis by blast
qed

end
