(* ===== verification/Orchestrator.thy ===== *)
theory Orchestrator
  imports Transfers
begin

text \<open>
  \<^verbatim>\<open>electron/file-transfer/orchestrator.js\<close>: one upload or one download, with every byte verified by
  reading it back before anything is published under the final name; and \<open>fileKind\<close> of
  \<^verbatim>\<open>electron/portal-api/file-api.js\<close>.

  \<^item> The code is one sequential function with many effects, written here in the state and error
    combinators of the prelude over the record \<open>world\<close>.  What the portal, the clock and abort signal,
    the local file system and the progress callback answer are scripts in it, one answer per call in
    the order of the calls; an empty script answers with the default (success, end of file).
  \<^item> The source of an upload may be changed by others while it is read, so its reads are a script; the
    temporary file of a download is private to the process and is a real file of the model, as are
    the names it is published under.
  \<^item> \<open>sha\<close> is \<open>crypto.createHash('sha256')\<close> with the hexadecimal digest, a parameter; blocks fed to a hash
    one after the other are their concatenation.
  \<^item> \<open>trace\<close> records the digests that were computed, the calls that change something on the portal, and
    (\<open>Session\<close>) that the portal has opened a multipart session for the upload.
\<close>

section \<open>The world\<close>

datatype lfile = Regular "byte list" | Unusual

record entry =
  n_name :: jsstr
  n_type :: jsstr
  n_mode :: jsval

record multipart =
  m_dir :: jsstr
  m_chunk :: jsval
  m_files :: "nat option"

datatype trace_event =
    SourceHash jsstr nat | Readback jsstr jsstr nat
  | Init jsstr jsstr | Session | Upload jsstr "byte list" bool jsstr | Merge jsstr jsstr nat | Move jsstr jsstr

record world =
  w_checks :: "(bool \<times> bool \<times> string option) list"
  w_progress :: "string option list"
  w_lists :: "(string + entry list option) list"
  w_streams :: "(string + jsval \<times> (string + byte list) list) list"
  w_inits :: "(string + multipart option) list"
  w_calls :: "(nat \<times> string \<times> string option) list"
  w_local :: "string option list"
  w_reads :: "(string + byte list) list"
  w_sizes :: "(string + nat) list"
  w_amounts :: "nat list"
  w_stat :: "bool \<times> jsval"
  files :: "jsstr \<Rightarrow> lfile option"
  temporary :: "jsstr option"
  handle_open :: bool
  retained :: bool
  maybe_changed :: bool
  trace :: "trace_event list"

type_synonym 'a io = "(world, string, 'a) act"

record xinput =
  i_remote :: jsval
  i_local :: jsval
  i_overwrite :: bool
  i_in_place :: bool
  i_max :: jsval
  i_timeout :: jsval
  i_uuid :: jsstr

record xresult =
  x_bytes :: nat
  x_sha :: jsstr
  x_mode :: string
  x_retained :: bool

text \<open>An error as it is thrown; one that \<open>safeError\<close> has not made has no flags.\<close>

record xerror =
  x_code :: string
  x_temps :: "bool option"
  x_changed :: "bool option"

definition SAFE_CODES :: "string list" where
  "SAFE_CODES = [''TRANSFER_PATH'', ''TRANSFER_LIMIT'', ''TRANSFER_EXISTS'', ''TRANSFER_CHANGED'',
     ''TRANSFER_METADATA'', ''TRANSFER_HASH'', ''TRANSFER_IO'', ''TRANSFER_DIRECTORY'', ''TRANSFER_TEMP_CONFLICT'', ''TRANSFER_UNSAFE_TYPE'',
     ''PROFILE_CHANGED'', ''PORTAL_AUTH'', ''PORTAL_NETWORK'', ''PORTAL_TIMEOUT'', ''PORTAL_PERMISSION'',
     ''PORTAL_NOT_FOUND'', ''PORTAL_UNIMPLEMENTED'', ''PORTAL_QUOTA'', ''PORTAL_UNKNOWN'', ''PORTAL_CANCELLED'']"

definition safe_error :: "string \<Rightarrow> bool \<Rightarrow> bool \<Rightarrow> xerror" where
  "safe_error code temps changed =
     \<lparr>x_code = (if code \<in> set SAFE_CODES then code else ''TRANSFER_IO''), x_temps = Some temps, x_changed = Some changed\<rparr>"

definition raw_error :: "string \<Rightarrow> xerror" where
  "raw_error code = \<lparr>x_code = code, x_temps = None, x_changed = None\<rparr>"

definition log_event :: "trace_event \<Rightarrow> unit io" where
  "log_event ev = modifyM (\<lambda>w. w\<lparr>trace := trace w @ [ev]\<rparr>)"

text \<open>\<open>maxBytes\<close> of the scope; a missing limit is the default.\<close>

definition scope_for :: "xinput \<Rightarrow> jsval \<Rightarrow> string + int" where
  "scope_for input allowed =
     (let m = (if nullish (i_max input) then JNum MAX_BYTES else i_max input);
          t = (if nullish (i_timeout input) then JNum (10 * 60 * 1000) else i_timeout input) in
      case (allowed, m) of
        (JNum a, JNum x) \<Rightarrow>
          if \<not> in_range allowed 1 (1024 * 1024 * 1024) \<or> \<not> in_range m 1 a \<or> \<not> in_range t 1 (60 * 60 * 1000) then Inl ''TRANSFER_LIMIT''
          else Inr x
      | _ \<Rightarrow> Inl ''TRANSFER_LIMIT'')"

definition check :: "unit io" where
  "check = bindM (readM w_checks) (\<lambda>cs. bindM (modifyM (\<lambda>w. w\<lparr>w_checks := tl cs\<rparr>)) (\<lambda>_.
     case cs of
       [] \<Rightarrow> retM ()
     | (user, late, stale) # _ \<Rightarrow>
         if user then throwM ''PORTAL_CANCELLED''
         else if late then throwM ''PORTAL_TIMEOUT''
         else (case stale of None \<Rightarrow> retM () | Some e \<Rightarrow> throwM e)))"

text \<open>\<open>scope.call\<close>, around the answer of one method of the API.\<close>

definition call :: "'a io \<Rightarrow> 'a io" where
  "call m = bindM check (\<lambda>_. tryM (bindM m (\<lambda>r. bindM check (\<lambda>_. retM r))) (\<lambda>e. bindM check (\<lambda>_. throwM e)))"

definition answer_list :: "entry list option io" where
  "answer_list = bindM (readM w_lists) (\<lambda>xs. bindM (modifyM (\<lambda>w. w\<lparr>w_lists := tl xs\<rparr>)) (\<lambda>_.
     case xs of [] \<Rightarrow> retM None | r # _ \<Rightarrow> liftR r))"

definition answer_stream :: "(jsval \<times> (string + byte list) list) io" where
  "answer_stream = bindM (readM w_streams) (\<lambda>xs. bindM (modifyM (\<lambda>w. w\<lparr>w_streams := tl xs\<rparr>)) (\<lambda>_.
     case xs of [] \<Rightarrow> retM (JNull, []) | r # _ \<Rightarrow> liftR r))"

definition answer_init :: "multipart option io" where
  "answer_init = bindM (readM w_inits) (\<lambda>xs. bindM (modifyM (\<lambda>w. w\<lparr>w_inits := tl xs\<rparr>)) (\<lambda>_.
     case xs of [] \<Rightarrow> retM None | r # _ \<Rightarrow> liftR r))"

text \<open>A call without a result: how much of a source the portal reads, the code when that source fails, its own answer.\<close>

definition answer_call :: "(nat \<times> string \<times> string option) io" where
  "answer_call = bindM (readM w_calls) (\<lambda>xs. bindM (modifyM (\<lambda>w. w\<lparr>w_calls := tl xs\<rparr>)) (\<lambda>_.
     case xs of [] \<Rightarrow> retM (0, ''PORTAL_NETWORK'', None) | r # _ \<Rightarrow> retM r))"

definition accept :: "unit io" where
  "accept = bindM answer_call (\<lambda>(_, _, r). case r of None \<Rightarrow> retM () | Some e \<Rightarrow> throwM e)"

definition local_step :: "unit io" where
  "local_step = bindM (readM w_local) (\<lambda>xs. bindM (modifyM (\<lambda>w. w\<lparr>w_local := tl xs\<rparr>)) (\<lambda>_.
     case xs of Some e # _ \<Rightarrow> throwM e | _ \<Rightarrow> retM ()))"

text \<open>The variable of the code that holds the open source or temporary file, and closing it in \<open>finally\<close>.\<close>

definition set_open :: "bool \<Rightarrow> unit io" where
  "set_open b = modifyM (\<lambda>w. w\<lparr>handle_open := b\<rparr>)"

definition close_handle :: "unit io" where
  "close_handle = bindM (readM handle_open) (\<lambda>b. if b then local_step else retM ())"

definition report_progress :: "unit io" where
  "report_progress = bindM (readM w_progress) (\<lambda>xs. bindM (modifyM (\<lambda>w. w\<lparr>w_progress := tl xs\<rparr>)) (\<lambda>_.
     case xs of Some e # _ \<Rightarrow> throwM e | _ \<Rightarrow> retM ()))"

section \<open>Reading and hashing\<close>

definition BLOCK :: nat where "BLOCK = 64 * 1024"

definition read_source :: "nat \<Rightarrow> nat \<Rightarrow> byte list io" where
  "read_source offset len = bindM (readM w_reads) (\<lambda>xs. bindM (modifyM (\<lambda>w. w\<lparr>w_reads := tl xs\<rparr>)) (\<lambda>_.
     case xs of [] \<Rightarrow> retM [] | Inl e # _ \<Rightarrow> throwM e | Inr bs # _ \<Rightarrow> retM (take len bs)))"

text \<open>\<open>(await handle.stat()).size\<close> of the source, which may throw.\<close>

definition size_of_source :: "nat io" where
  "size_of_source = bindM (readM w_sizes) (\<lambda>xs. bindM (modifyM (\<lambda>w. w\<lparr>w_sizes := tl xs\<rparr>)) (\<lambda>_.
     case xs of [] \<Rightarrow> retM 0 | r # _ \<Rightarrow> liftR r))"

definition content_of :: "jsstr \<Rightarrow> world \<Rightarrow> byte list" where
  "content_of name w = (case files w name of Some (Regular bs) \<Rightarrow> bs | _ \<Rightarrow> [])"

text \<open>How many bytes one \<open>read\<close> or \<open>write\<close> of the temporary file moves, at most \<open>len\<close>.\<close>

definition amount :: "nat \<Rightarrow> nat io" where
  "amount len = bindM (readM w_amounts) (\<lambda>xs. bindM (modifyM (\<lambda>w. w\<lparr>w_amounts := tl xs\<rparr>)) (\<lambda>_.
     retM (case xs of [] \<Rightarrow> len | n # _ \<Rightarrow> min n len)))"

definition read_temporary :: "jsstr \<Rightarrow> nat \<Rightarrow> nat \<Rightarrow> byte list io" where
  "read_temporary name offset len =
     bindM (amount len) (\<lambda>n. bindM (readM (content_of name)) (\<lambda>bs. retM (take n (drop offset bs))))"

text \<open>The loop of \<open>hashRange\<close>; every turn reads at least one byte, so \<open>len\<close> turns are enough.\<close>

primrec hash_loop :: "nat \<Rightarrow> (nat \<Rightarrow> nat \<Rightarrow> byte list io) \<Rightarrow> nat \<Rightarrow> nat \<Rightarrow> byte list \<Rightarrow> byte list io" where
  "hash_loop 0 rd start len acc = retM acc"
| "hash_loop (Suc n) rd start len acc =
     (if len \<le> length acc then retM acc
      else bindM check (\<lambda>_. bindM (rd (start + length acc) (min BLOCK (len - length acc))) (\<lambda>bs.
        if bs = [] then throwM ''TRANSFER_CHANGED'' else hash_loop n rd start len (acc @ bs))))"

definition hash_range :: "(byte list \<Rightarrow> jsstr) \<Rightarrow> (nat \<Rightarrow> nat \<Rightarrow> byte list io) \<Rightarrow> nat io \<Rightarrow> nat \<Rightarrow> nat \<Rightarrow> nat \<Rightarrow> jsstr io" where
  "hash_range sha rd stat_size start len expected =
     bindM (hash_loop len rd start len []) (\<lambda>bs.
     bindM stat_size (\<lambda>n. if n \<noteq> expected then throwM ''TRANSFER_CHANGED'' else retM (sha bs)))"

definition hash_source :: "(byte list \<Rightarrow> jsstr) \<Rightarrow> nat \<Rightarrow> nat \<Rightarrow> nat \<Rightarrow> jsstr io" where
  "hash_source sha start len total_size = hash_range sha read_source size_of_source start len total_size"

text \<open>A digest of the whole source.\<close>

definition hash_whole :: "(byte list \<Rightarrow> jsstr) \<Rightarrow> nat \<Rightarrow> jsstr io" where
  "hash_whole sha total_size = bindM (hash_source sha 0 total_size total_size) (\<lambda>h. bindM (log_event (SourceHash h total_size)) (\<lambda>_. retM h))"

text \<open>\<open>sourceRange\<close>, of which the portal reads at most \<open>turns\<close> blocks.\<close>

primrec source_range :: "nat \<Rightarrow> nat \<Rightarrow> nat \<Rightarrow> byte list \<Rightarrow> byte list io" where
  "source_range 0 start len acc = retM acc"
| "source_range (Suc n) start len acc =
     (if len \<le> length acc then retM acc
      else bindM check (\<lambda>_. bindM (read_source (start + length acc) (min BLOCK (len - length acc))) (\<lambda>bs.
        bindM check (\<lambda>_. if bs = [] then throwM ''TRANSFER_CHANGED'' else source_range n start len (acc @ bs)))))"

definition api_upload :: "jsstr \<Rightarrow> nat \<Rightarrow> nat \<Rightarrow> bool \<Rightarrow> jsstr \<Rightarrow> unit io" where
  "api_upload path start len chunk origin =
     bindM answer_call (\<lambda>(turns, source_failed, r).
     bindM (tryM (source_range turns start len []) (\<lambda>_. throwM source_failed)) (\<lambda>bs.
     bindM (log_event (Upload path bs chunk origin)) (\<lambda>_. case r of None \<Rightarrow> retM () | Some e \<Rightarrow> throwM e)))"

section \<open>Looking at the portal\<close>

definition file_kind :: "entry \<Rightarrow> string" where
  "file_kind e = (case n_mode e of
     JNum m \<Rightarrow>
       if m < 0 \<or> 4294967295 < m then ''other''
       else
         (let kind = (nat m div 4096) mod 16 in
          if kind = 10 then ''link''
          else if kind = 8 \<and> n_type e = js ''FILE'' then ''file''
          else if kind = 4 \<and> n_type e = js ''DIR'' then ''dir'' else ''other'')
   | _ \<Rightarrow> ''other'')"

definition posix_join :: "jsstr \<Rightarrow> jsstr \<Rightarrow> jsstr" where
  "posix_join d n = normalize_absolute (d @ js ''/'' @ n)"

definition posix_dirname :: "jsstr \<Rightarrow> jsstr" where
  "posix_dirname s = (let d = rev (tl (dropWhile (\<lambda>u. u \<noteq> 47) (rev s))) in if d = [] then js ''/'' else d)"

fun inspect_parts :: "bool \<Rightarrow> jsstr \<Rightarrow> jsstr list \<Rightarrow> string option io" where
  "inspect_parts missing_ok directory [] = throwM ''TRANSFER_PATH''"
| "inspect_parts missing_ok directory (p # ps) =
     bindM (call answer_list) (\<lambda>entries.
       case entries of
         None \<Rightarrow> throwM ''TRANSFER_METADATA''
       | Some es \<Rightarrow>
           (case List.find (\<lambda>e. n_name e = p) es of
              None \<Rightarrow> if missing_ok \<and> ps = [] then retM None else throwM ''PORTAL_NOT_FOUND''
            | Some e \<Rightarrow>
                (let kind = file_kind e in
                 if kind \<noteq> ''file'' \<and> kind \<noteq> ''dir'' then throwM ''TRANSFER_UNSAFE_TYPE''
                 else if ps \<noteq> [] \<and> kind \<noteq> ''dir'' then throwM ''TRANSFER_DIRECTORY''
                 else if ps = [] then retM (Some kind)
                 else inspect_parts missing_ok (posix_join directory p) ps)))"

definition inspect_remote :: "jsstr \<Rightarrow> bool \<Rightarrow> string option io" where
  "inspect_remote absolute missing_ok =
     (if absolute = js ''/'' then retM (Some ''dir'') else inspect_parts missing_ok (js ''/'') (split_on 47 (tl absolute)))"

definition require_remote_file :: "jsstr \<Rightarrow> unit io" where
  "require_remote_file path = bindM (inspect_remote path False) (\<lambda>kind. if kind \<noteq> Some ''file'' then throwM ''TRANSFER_DIRECTORY'' else retM ())"

definition target_preflight :: "jsstr \<Rightarrow> bool \<Rightarrow> bool io" where
  "target_preflight destination overwrite =
     bindM (inspect_remote destination True) (\<lambda>kind.
       case kind of
         None \<Rightarrow> retM False
       | Some k \<Rightarrow> if \<not> overwrite then throwM ''TRANSFER_EXISTS'' else if k \<noteq> ''file'' then throwM ''TRANSFER_DIRECTORY'' else retM True)"

definition put_at :: "nat \<Rightarrow> byte list \<Rightarrow> byte list \<Rightarrow> byte list" where
  "put_at position new old = take position old @ replicate (position - length old) 0 @ new @ drop (position + length new) old"

text \<open>The loop that writes one block at its position; every turn writes at least one byte.\<close>

primrec write_loop :: "nat \<Rightarrow> jsstr \<Rightarrow> nat \<Rightarrow> byte list \<Rightarrow> unit io" where
  "write_loop 0 name position block = retM ()"
| "write_loop (Suc n) name position block =
     (if block = [] then retM ()
      else bindM check (\<lambda>_. bindM (amount (length block)) (\<lambda>k.
        if k = 0 then throwM ''TRANSFER_IO''
        else bindM (modifyM (\<lambda>w. w\<lparr>files := (files w)(name := Some (Regular (put_at position (take k block) (content_of name w))))\<rparr>)) (\<lambda>_.
          write_loop n name (position + k) (drop k block)))))"

fun stream_loop :: "int \<Rightarrow> nat option \<Rightarrow> jsstr option \<Rightarrow> (string + byte list) list \<Rightarrow> byte list \<Rightarrow> byte list io" where
  "stream_loop max_bytes expected target [] acc = retM acc"
| "stream_loop max_bytes expected target (Inl e # rest) acc = throwM e"
| "stream_loop max_bytes expected target (Inr block # rest) acc =
     bindM check (\<lambda>_.
       if max_bytes < int (length acc + length block) then throwM ''TRANSFER_LIMIT''
       else if (case expected of None \<Rightarrow> False | Some n \<Rightarrow> n < length acc + length block) then throwM ''TRANSFER_CHANGED''
       else bindM (case target of
           None \<Rightarrow> retM ()
         | Some name \<Rightarrow> bindM (write_loop (length block) name (length acc) block) (\<lambda>_. report_progress)) (\<lambda>_.
         stream_loop max_bytes expected target rest (acc @ block)))"

definition remote_hash :: "(byte list \<Rightarrow> jsstr) \<Rightarrow> int \<Rightarrow> jsstr \<Rightarrow> jsstr option \<Rightarrow> nat option \<Rightarrow> (nat \<times> jsstr) io" where
  "remote_hash sha max_bytes source target expected =
     bindM (require_remote_file source) (\<lambda>_.
     bindM (call answer_stream) (\<lambda>(len, blocks).
     bindM (guardM (nullish len \<or> in_range len 0 max_bytes) ''TRANSFER_LIMIT'') (\<lambda>_.
     bindM (stream_loop max_bytes expected target blocks []) (\<lambda>bs.
     bindM check (\<lambda>_.
     bindM (guardM ((nullish len \<or> len = JNum (int (length bs))) \<and> (expected = None \<or> expected = Some (length bs))) ''TRANSFER_CHANGED'') (\<lambda>_.
     bindM (require_remote_file source) (\<lambda>_.
     bindM (log_event (Readback source (sha bs) (length bs))) (\<lambda>_.
     retM (length bs, sha bs)))))))))"

section \<open>Upload\<close>

definition multipart_valid :: "multipart option \<Rightarrow> unit io" where
  "multipart_valid m = (case m of
     None \<Rightarrow> retM ()
   | Some mp \<Rightarrow>
       (let d = m_dir mp; base = (if ends_with d (js ''/'') then butlast d else d) in
        case remote_path (JStr (base @ js ''/chunk'')) of
          Inl e \<Rightarrow> throwM e
        | Inr _ \<Rightarrow>
            if \<not> in_range (m_chunk mp) 1 MAX_SAFE \<or> m_files mp = None then throwM ''TRANSFER_METADATA''
            else if m_files mp \<noteq> Some 0 then throwM ''TRANSFER_TEMP_CONFLICT'' else retM ()))"

definition chunk_size :: "multipart \<Rightarrow> nat" where
  "chunk_size mp = (case m_chunk mp of JNum n \<Rightarrow> nat n | _ \<Rightarrow> 0)"

text \<open>The chunks of a multipart upload; every turn sends at least one byte.\<close>

primrec chunk_loop :: "nat \<Rightarrow> (byte list \<Rightarrow> jsstr) \<Rightarrow> multipart \<Rightarrow> jsstr \<Rightarrow> nat \<Rightarrow> nat \<Rightarrow> nat \<Rightarrow> unit io" where
  "chunk_loop 0 sha mp staging total_size offset index = retM ()"
| "chunk_loop (Suc n) sha mp staging total_size offset index =
     (if total_size \<le> offset then retM ()
      else
        (let size = min (chunk_size mp) (total_size - offset) in
         bindM check (\<lambda>_.
         bindM (hash_source sha offset size total_size) (\<lambda>h.
         let path = posix_join (m_dir mp) (h @ js ''_'' @ dec index @ js ''.scowuploadtemp'') in
         bindM (target_preflight path False) (\<lambda>_.
         bindM (target_preflight staging False) (\<lambda>_.
         bindM (call (api_upload path offset size True staging)) (\<lambda>_.
         bindM report_progress (\<lambda>_.
         chunk_loop n sha mp staging total_size (offset + size) (index + 1)))))))))"

definition publish_upload ::
  "(byte list \<Rightarrow> jsstr) \<Rightarrow> int \<Rightarrow> xinput \<Rightarrow> jsstr \<Rightarrow> jsstr \<Rightarrow> nat \<Rightarrow> jsstr \<Rightarrow> bool \<Rightarrow> unit io" where
  "publish_upload sha max_bytes input destination staging total_size first_hash with_parts =
     bindM (target_preflight destination (i_overwrite input)) (\<lambda>already.
     bindM (require_remote_file staging) (\<lambda>_.
     if already \<and> i_in_place input then
       bindM (modifyM (\<lambda>w. w\<lparr>maybe_changed := True\<rparr>)) (\<lambda>_.
       bindM (call (api_upload destination 0 total_size False [])) (\<lambda>_.
       bindM (remote_hash sha max_bytes destination None (Some total_size)) (\<lambda>(_, h).
       bindM (if h \<noteq> first_hash then throwM ''TRANSFER_HASH''
              else bindM (hash_whole sha total_size) (\<lambda>h'. guardM (h' = first_hash) ''TRANSFER_HASH'')) (\<lambda>_.
       modifyM (\<lambda>w. w\<lparr>maybe_changed := False, retained := True\<rparr>)))))
     else
       bindM (call (bindM (log_event (Move staging destination)) (\<lambda>_. accept))) (\<lambda>_.
       modifyM (\<lambda>w. w\<lparr>retained := with_parts\<rparr>))))"

text \<open>The answer of the initialization, noted in the trace.\<close>

definition note_session :: "multipart option \<Rightarrow> unit io" where
  "note_session mp = (if mp \<noteq> None then log_event Session else retM ())"

definition transfer_parts :: "(byte list \<Rightarrow> jsstr) \<Rightarrow> multipart option \<Rightarrow> jsstr \<Rightarrow> jsstr \<Rightarrow> jsstr \<Rightarrow> nat \<Rightarrow> string io" where
  "transfer_parts sha mp directory name staging total_size =
     (case mp of
        Some m \<Rightarrow>
          if chunk_size m \<le> total_size then
            bindM report_progress (\<lambda>_.
            bindM (chunk_loop total_size sha m staging total_size 0 1) (\<lambda>_.
            bindM (target_preflight staging False) (\<lambda>_.
            bindM (call (bindM (log_event (Merge directory name total_size)) (\<lambda>_. accept))) (\<lambda>_. retM ''multipart''))))
          else bindM report_progress (\<lambda>_. bindM (target_preflight staging False) (\<lambda>_.
            bindM (call (api_upload staging 0 total_size False [])) (\<lambda>_. bindM report_progress (\<lambda>_. retM ''single''))))
      | None \<Rightarrow> bindM report_progress (\<lambda>_. bindM (target_preflight staging False) (\<lambda>_.
            bindM (call (api_upload staging 0 total_size False [])) (\<lambda>_. bindM report_progress (\<lambda>_. retM ''single'')))))"

definition verify_upload :: "(byte list \<Rightarrow> jsstr) \<Rightarrow> int \<Rightarrow> jsstr \<Rightarrow> nat \<Rightarrow> jsstr \<Rightarrow> unit io" where
  "verify_upload sha max_bytes staging total_size first_hash =
     bindM (hash_whole sha total_size) (\<lambda>h1. bindM (guardM (h1 = first_hash) ''TRANSFER_CHANGED'') (\<lambda>_.
     bindM (remote_hash sha max_bytes staging None (Some total_size)) (\<lambda>(_, h2). bindM (guardM (h2 = first_hash) ''TRANSFER_HASH'') (\<lambda>_.
     bindM (hash_whole sha total_size) (\<lambda>h3. guardM (h3 = first_hash) ''TRANSFER_CHANGED'')))))"

definition upload_body :: "(byte list \<Rightarrow> jsstr) \<Rightarrow> int \<Rightarrow> xinput \<Rightarrow> xresult io" where
  "upload_body sha max_bytes input =
     bindM (liftR (remote_path (i_remote input))) (\<lambda>destination.
     bindM (liftR (checked_path (i_local input))) (\<lambda>_.
     bindM (bindM local_step (\<lambda>_. set_open True)) (\<lambda>_.
     bindM local_step (\<lambda>_.
     bindM (readM w_stat) (\<lambda>(regular, size).
     bindM (guardM regular ''TRANSFER_DIRECTORY'') (\<lambda>_.
     bindM (guardM (in_range size 0 max_bytes) ''TRANSFER_LIMIT'') (\<lambda>_.
     let total_size = (case size of JNum n \<Rightarrow> nat n | _ \<Rightarrow> 0) in
     bindM report_progress (\<lambda>_.
     bindM (hash_whole sha total_size) (\<lambda>first_hash.
     bindM (target_preflight destination (i_overwrite input)) (\<lambda>_.
     let directory = posix_dirname destination; name = js ''.usshtc107-'' @ i_uuid input @ js ''.part''; staging = posix_join directory name in
     bindM report_progress (\<lambda>_.
     bindM (modifyM (\<lambda>w. w\<lparr>retained := True\<rparr>)) (\<lambda>_.
     bindM (tryM (call (bindM (log_event (Init directory name)) (\<lambda>_. answer_init)))
              (\<lambda>e. if e \<noteq> ''PORTAL_UNIMPLEMENTED'' then throwM e else retM None)) (\<lambda>mp.
     bindM (note_session mp) (\<lambda>_.
     bindM (multipart_valid mp) (\<lambda>_.
     bindM (transfer_parts sha mp directory name staging total_size) (\<lambda>mode.
     bindM report_progress (\<lambda>_.
     bindM (verify_upload sha max_bytes staging total_size first_hash) (\<lambda>_.
     bindM report_progress (\<lambda>_.
     bindM (publish_upload sha max_bytes input destination staging total_size first_hash (mp \<noteq> None)) (\<lambda>_.
     bindM report_progress (\<lambda>_.
     bindM (readM retained) (\<lambda>kept.
     retM \<lparr>x_bytes = total_size, x_sha = first_hash, x_mode = mode, x_retained = kept\<rparr>))))))))))))))))))))))"

text \<open>The \<open>catch\<close> of both functions: an interruption found now takes the place of the error.\<close>

definition final_error :: "string \<Rightarrow> string io" where
  "final_error e = tryM (bindM check (\<lambda>_. retM e)) (\<lambda>interruption. retM interruption)"

definition upload_caught :: "(byte list \<Rightarrow> jsstr) \<Rightarrow> int \<Rightarrow> xinput \<Rightarrow> world \<Rightarrow> (xerror + xresult) \<times> world" where
  "upload_caught sha max_bytes input w0 =
     (case upload_body sha max_bytes input (w0\<lparr>retained := False, maybe_changed := False, handle_open := False\<rparr>) of
        (Inr r, w) \<Rightarrow> (Inr r, w)
      | (Inl e, w) \<Rightarrow>
          (case final_error e w of
             (Inr code, w) \<Rightarrow> (Inl (safe_error code (retained w) (maybe_changed w)), w)
           | (Inl code, w) \<Rightarrow> (Inl (safe_error code (retained w) (maybe_changed w)), w)))"

text \<open>An error of \<open>source.close()\<close> in \<open>finally\<close> is thrown as it is, without the two flags.\<close>

definition upload_file :: "(byte list \<Rightarrow> jsstr) \<Rightarrow> jsval \<Rightarrow> xinput \<Rightarrow> world \<Rightarrow> (xerror + xresult) \<times> world" where
  "upload_file sha allowed input w0 =
     (case scope_for input allowed of
        Inl e \<Rightarrow> (Inl (raw_error e), w0)
      | Inr max_bytes \<Rightarrow>
          (case upload_caught sha max_bytes input w0 of
             (r, w) \<Rightarrow>
               (case close_handle w of
                  (Inl e, w) \<Rightarrow> (Inl (raw_error e), w)
                | (Inr _, w) \<Rightarrow> (r, w))))"

section \<open>Download\<close>

definition local_preflight :: "jsstr \<Rightarrow> bool \<Rightarrow> unit io" where
  "local_preflight destination overwrite =
     bindM (tryM (bindM local_step (\<lambda>_. readM (\<lambda>w. files w destination))) (\<lambda>e. if e = ''ENOENT'' then retM None else throwM e)) (\<lambda>found.
       case found of
         None \<Rightarrow> retM ()
       | Some f \<Rightarrow> if \<not> overwrite then throwM ''TRANSFER_EXISTS'' else (case f of Regular _ \<Rightarrow> retM () | Unusual \<Rightarrow> throwM ''TRANSFER_DIRECTORY''))"

definition publish_download :: "xinput \<Rightarrow> jsstr \<Rightarrow> jsstr \<Rightarrow> unit io" where
  "publish_download input temp destination =
     (if i_overwrite input then
        bindM local_step (\<lambda>_. modifyM (\<lambda>w. w\<lparr>files := (files w)(destination := files w temp, temp := None)\<rparr>))
      else
        bindM (tryM local_step (\<lambda>e. throwM (if e = ''EEXIST'' then ''TRANSFER_EXISTS'' else e))) (\<lambda>_.
        bindM (readM files) (\<lambda>fs.
          if fs destination \<noteq> None then throwM ''TRANSFER_EXISTS''
          else modifyM (\<lambda>w. w\<lparr>files := (files w)(destination := files w temp)\<rparr>))))"

text \<open>The download up to the creation of its temporary file, and from there.\<close>

definition download_start :: "(byte list \<Rightarrow> jsstr) \<Rightarrow> int \<Rightarrow> xinput \<Rightarrow> jsstr \<Rightarrow> jsstr \<Rightarrow> (nat \<times> jsstr) io" where
  "download_start sha max_bytes input source destination =
     bindM (local_preflight destination (i_overwrite input)) (\<lambda>_.
     bindM report_progress (\<lambda>_. remote_hash sha max_bytes source None None))"

definition create_temporary :: "jsstr \<Rightarrow> unit io" where
  "create_temporary temp =
     bindM local_step (\<lambda>_. bindM (readM files) (\<lambda>fs.
       if fs temp \<noteq> None then throwM ''EEXIST''
       else bindM (modifyM (\<lambda>w. w\<lparr>files := (files w)(temp := Some (Regular []))\<rparr>)) (\<lambda>_. set_open True)))"

definition fill_temporary :: "(byte list \<Rightarrow> jsstr) \<Rightarrow> int \<Rightarrow> xinput \<Rightarrow> jsstr \<Rightarrow> jsstr \<Rightarrow> jsstr \<Rightarrow> nat \<Rightarrow> jsstr \<Rightarrow> unit io" where
  "fill_temporary sha max_bytes input source destination temp total_size first_hash =
     bindM report_progress (\<lambda>_.
     bindM (remote_hash sha max_bytes source (Some temp) (Some total_size)) (\<lambda>(_, h1).
     bindM (guardM (h1 = first_hash) ''TRANSFER_HASH'') (\<lambda>_.
     bindM report_progress (\<lambda>_.
     bindM (remote_hash sha max_bytes source None (Some total_size)) (\<lambda>(_, h2).
     bindM (guardM (h2 = first_hash) ''TRANSFER_HASH'') (\<lambda>_.
     bindM (hash_range sha (read_temporary temp) (readM (\<lambda>w. length (content_of temp w))) 0 total_size total_size) (\<lambda>h3.
     bindM (guardM (h3 = first_hash) ''TRANSFER_HASH'') (\<lambda>_.
     bindM local_step (\<lambda>_.
     bindM (bindM local_step (\<lambda>_. set_open False)) (\<lambda>_.
     bindM check (\<lambda>_.
     bindM report_progress (\<lambda>_.
     bindM (require_remote_file source) (\<lambda>_.
     bindM (publish_download input temp destination) (\<lambda>_.
     report_progress))))))))))))))"

definition download_body :: "(byte list \<Rightarrow> jsstr) \<Rightarrow> int \<Rightarrow> (jsstr \<Rightarrow> jsstr) \<Rightarrow> (jsstr \<Rightarrow> jsstr) \<Rightarrow> xinput \<Rightarrow> xresult io" where
  "download_body sha max_bytes resolve temporary_beside input =
     bindM (liftR (remote_path (i_remote input))) (\<lambda>source.
     bindM (liftR (checked_path (i_local input))) (\<lambda>path.
     let destination = resolve path; temp = temporary_beside destination in
     bindM (download_start sha max_bytes input source destination) (\<lambda>(total_size, first_hash).
     bindM (modifyM (\<lambda>w. w\<lparr>temporary := Some temp\<rparr>)) (\<lambda>_.
     bindM (create_temporary temp) (\<lambda>_.
     bindM (fill_temporary sha max_bytes input source destination temp total_size first_hash) (\<lambda>_.
     retM \<lparr>x_bytes = total_size, x_sha = first_hash, x_mode = ''single'', x_retained = False\<rparr>))))))"

text \<open>The \<open>finally\<close> block: the handle is closed, and the temporary file is removed whether it still has its name or not.\<close>

definition unlink_temporary :: "unit io" where
  "unlink_temporary = bindM (readM temporary) (\<lambda>t.
     case t of
       None \<Rightarrow> retM ()
     | Some name \<Rightarrow>
         bindM (tryM local_step (\<lambda>e. if e = ''ENOENT'' then retM () else throwM e)) (\<lambda>_.
           modifyM (\<lambda>w. w\<lparr>files := (files w)(name := None)\<rparr>)))"

definition clean_up :: "(xerror + xresult) \<Rightarrow> world \<Rightarrow> (xerror + xresult) \<times> world" where
  "clean_up r w =
     (case close_handle w of (closed, w) \<Rightarrow>
        (case unlink_temporary w of
           (Inl e, w) \<Rightarrow> (Inl (safe_error e False False), w)
         | (Inr _, w) \<Rightarrow>
             (case closed of Inl e \<Rightarrow> (Inl (raw_error e), w) | Inr _ \<Rightarrow> (r, w))))"

definition download_caught ::
  "(byte list \<Rightarrow> jsstr) \<Rightarrow> int \<Rightarrow> (jsstr \<Rightarrow> jsstr) \<Rightarrow> (jsstr \<Rightarrow> jsstr) \<Rightarrow> xinput \<Rightarrow> world \<Rightarrow> (xerror + xresult) \<times> world" where
  "download_caught sha max_bytes resolve temporary_beside input w0 =
     (case download_body sha max_bytes resolve temporary_beside input (w0\<lparr>temporary := None, handle_open := False\<rparr>) of
        (Inr r, w) \<Rightarrow> (Inr r, w)
      | (Inl e, w) \<Rightarrow>
          (case final_error e w of
             (Inr code, w) \<Rightarrow> (Inl (safe_error code False False), w)
           | (Inl code, w) \<Rightarrow> (Inl (safe_error code False False), w)))"

definition download_file ::
  "(byte list \<Rightarrow> jsstr) \<Rightarrow> (jsstr \<Rightarrow> jsstr) \<Rightarrow> (jsstr \<Rightarrow> jsstr) \<Rightarrow> xinput \<Rightarrow> world \<Rightarrow> (xerror + xresult) \<times> world" where
  "download_file sha resolve temporary_beside input w0 =
     (case scope_for input (JNum MAX_BYTES) of
        Inl e \<Rightarrow> (Inl (raw_error e), w0)
      | Inr max_bytes \<Rightarrow>
          (case download_caught sha max_bytes resolve temporary_beside input w0 of (r, w) \<Rightarrow> clean_up r w))"

end
