(* ===== verification/TransferVerified.thy ===== *)
theory TransferVerified
  imports Orchestrator
begin

text \<open>
  Nothing is published that was not verified.  \<open>core\<close> is what the steps of a transfer change on purpose
  (the local files, the trace, the flags of the code); a \<open>quiet\<close> step only consumes answers.  For the
  steps that are not quiet the invariants of the prelude (\<open>keeps\<close>, \<open>ensures\<close>) carry the argument.
\<close>

section \<open>Quiet steps\<close>

definition core :: "world \<Rightarrow> (jsstr \<Rightarrow> lfile option) \<times> trace_event list \<times> bool \<times> bool \<times> jsstr option" where
  "core w = (files w, trace w, retained w, maybe_changed w, temporary w)"

definition quiet :: "'a io \<Rightarrow> bool" where
  "quiet m \<longleftrightarrow> (\<forall>w. core (snd (m w)) = core w)"

named_theorems quiet_rules "closure rules of quiet"

lemma quiet_ret [quiet_rules]: "quiet (retM a)" and quiet_throw [quiet_rules]: "quiet (throwM e)"
  and quiet_read [quiet_rules]: "quiet (readM f)" and quiet_lift [quiet_rules]: "quiet (liftR r)"
  and quiet_guard [quiet_rules]: "quiet (guardM b e)"
  by (simp_all add: quiet_def act_combinators)

lemma quiet_bind [quiet_rules]: "quiet m \<Longrightarrow> (\<And>a. quiet (f a)) \<Longrightarrow> quiet (bindM m f)"
  unfolding quiet_def bindM_def by (auto split: prod.splits sum.splits) (metis snd_conv)+

lemma quiet_try [quiet_rules]: "quiet m \<Longrightarrow> (\<And>e. quiet (h e)) \<Longrightarrow> quiet (tryM m h)"
  unfolding quiet_def tryM_def by (auto split: prod.splits sum.splits) (metis snd_conv)+

lemma quiet_if [quiet_rules]: "(b \<Longrightarrow> quiet m) \<Longrightarrow> (\<not> b \<Longrightarrow> quiet n) \<Longrightarrow> quiet (if b then m else n)"
  by simp

lemma quiet_let [quiet_rules]: "(\<And>x. quiet (f x)) \<Longrightarrow> quiet (let x = t in f x)"
  by simp

lemma quiet_option [quiet_rules]: "quiet m \<Longrightarrow> (\<And>x. quiet (f x)) \<Longrightarrow> quiet (case v of None \<Rightarrow> m | Some x \<Rightarrow> f x)"
  by (cases v) auto

lemma quiet_list [quiet_rules]: "quiet m \<Longrightarrow> (\<And>x xs. quiet (f x xs)) \<Longrightarrow> quiet (case v of [] \<Rightarrow> m | x # xs \<Rightarrow> f x xs)"
  by (cases v) auto

lemma quiet_sum [quiet_rules]: "(\<And>x. quiet (f x)) \<Longrightarrow> (\<And>x. quiet (g x)) \<Longrightarrow> quiet (case v of Inl x \<Rightarrow> f x | Inr x \<Rightarrow> g x)"
  by (cases v) auto

lemma quiet_prod [quiet_rules]: "(\<And>x y. quiet (f x y)) \<Longrightarrow> quiet (case p of (x, y) \<Rightarrow> f x y)"
  by (cases p) auto

lemma quiet_scripts [quiet_rules]:
  "quiet (modifyM (\<lambda>w. w\<lparr>w_checks := a1\<rparr>))" "quiet (modifyM (\<lambda>w. w\<lparr>w_progress := a2\<rparr>))" "quiet (modifyM (\<lambda>w. w\<lparr>w_lists := a3\<rparr>))"
  "quiet (modifyM (\<lambda>w. w\<lparr>w_streams := a4\<rparr>))" "quiet (modifyM (\<lambda>w. w\<lparr>w_inits := a5\<rparr>))" "quiet (modifyM (\<lambda>w. w\<lparr>w_calls := a6\<rparr>))"
  "quiet (modifyM (\<lambda>w. w\<lparr>w_local := a7\<rparr>))" "quiet (modifyM (\<lambda>w. w\<lparr>w_reads := a8\<rparr>))" "quiet (modifyM (\<lambda>w. w\<lparr>w_sizes := a9\<rparr>))"
  "quiet (modifyM (\<lambda>w. w\<lparr>w_amounts := a10\<rparr>))" "quiet (modifyM (\<lambda>w. w\<lparr>handle_open := a11\<rparr>))"
  by (simp_all add: quiet_def modifyM_def core_def)

lemma quiet_check [quiet_rules]: "quiet check"
  unfolding check_def by (intro quiet_rules)

lemma quiet_call [quiet_rules]: "quiet m \<Longrightarrow> quiet (call m)"
  unfolding call_def by (intro quiet_rules)

lemma quiet_answers [quiet_rules]:
  "quiet answer_list" "quiet answer_stream" "quiet answer_init" "quiet answer_call" "quiet local_step" "quiet report_progress"
  "quiet (read_source i n)" "quiet size_of_source" "quiet (amount n)" "quiet (set_open b)"
  unfolding answer_list_def answer_stream_def answer_init_def answer_call_def local_step_def report_progress_def read_source_def
    size_of_source_def amount_def set_open_def
  by (intro quiet_rules)+

lemma quiet_more [quiet_rules]: "quiet accept" "quiet (read_temporary name i n)" "quiet close_handle" "quiet (final_error e)"
  unfolding accept_def read_temporary_def close_handle_def final_error_def by (intro quiet_rules)+

lemma quiet_hash_loop [quiet_rules]: "(\<And>i n. quiet (rd i n)) \<Longrightarrow> quiet (hash_loop n rd start len acc)"
  by (induction n arbitrary: acc) (auto intro!: quiet_rules)

lemma quiet_hash_range [quiet_rules]: "(\<And>i n. quiet (rd i n)) \<Longrightarrow> quiet sz \<Longrightarrow> quiet (hash_range sha rd sz start len expected)"
  unfolding hash_range_def by (intro quiet_rules)

lemma quiet_hash_source [quiet_rules]: "quiet (hash_source sha start len n)"
  unfolding hash_source_def by (intro quiet_rules)

lemma quiet_source_range [quiet_rules]: "quiet (source_range n start len acc)"
  by (induction n arbitrary: acc) (auto intro!: quiet_rules)

lemma quiet_inspect_parts [quiet_rules]: "quiet (inspect_parts b d ps)"
proof (induction ps arbitrary: d)
  case (Cons p ps)
  show ?case unfolding inspect_parts.simps by (intro quiet_rules Cons.IH)
qed (simp add: quiet_rules)

lemma quiet_inspect [quiet_rules]: "quiet (inspect_remote p b)" "quiet (require_remote_file p)" "quiet (target_preflight p b)"
  unfolding require_remote_file_def target_preflight_def inspect_remote_def by (intro quiet_rules)+

lemma quiet_stream_loop [quiet_rules]: "quiet (stream_loop m expected None blocks acc)"
proof (induction blocks arbitrary: acc)
  case (Cons b blocks)
  show ?case by (cases b) (auto intro!: quiet_rules Cons.IH)
qed (simp add: quiet_rules)

lemma quiet_multipart [quiet_rules]: "quiet (multipart_valid m)"
  unfolding multipart_valid_def by (intro quiet_rules)

lemma quiet_core: "quiet m \<Longrightarrow> m w = (r, v) \<Longrightarrow> core v = core w"
  by (auto simp: quiet_def dest: spec [where x = w])

lemma quiet_keeps: "quiet m \<Longrightarrow> keeps (\<lambda>w. I (core w)) m"
  by (simp add: quiet_def keeps_def)

section \<open>Visible predicates\<close>

text \<open>A call only adds quiet checks around what it calls.\<close>

definition visible :: "(world \<Rightarrow> bool) \<Rightarrow> bool" where
  "visible P \<longleftrightarrow> (\<forall>v w. core v = core w \<longrightarrow> P v = P w)"

lemma visible_quiet: "visible P \<Longrightarrow> quiet m \<Longrightarrow> keeps P m"
  unfolding visible_def quiet_def keeps_def by metis

lemma triple_quiet: "quiet m \<Longrightarrow> visible P \<Longrightarrow> (\<And>w. P w \<Longrightarrow> X w) \<Longrightarrow> triple P m (\<lambda>_. P) X"
  by (rule triple_keeps [OF visible_quiet])

lemma triple_call:
  assumes m: "triple P m Q X" and v: "visible P" "\<And>a. visible (Q a)" "visible X"
    and sub: "\<And>w. P w \<Longrightarrow> X w" "\<And>a w. Q a w \<Longrightarrow> X w"
  shows "triple P (call m) Q X"
proof -
  have checked: "triple P (bindM m (\<lambda>r. bindM check (\<lambda>_. retM r))) Q X"
  proof (rule triple_bind [OF m])
    fix a
    show "triple (Q a) (bindM check (\<lambda>_. retM a)) Q X"
      by (rule triple_bind [OF triple_quiet [OF quiet_check v(2) sub(2)]]) (simp_all add: triple_ret)
  qed
  have "triple X (bindM check (\<lambda>_. throwM e :: 'a io)) Q X" for e
    by (rule triple_bind [OF triple_quiet [OF quiet_check v(3)]]) (simp_all add: triple_def throwM_def)
  then have "triple P (tryM (bindM m (\<lambda>r. bindM check (\<lambda>_. retM r))) (\<lambda>e. bindM check (\<lambda>_. throwM e))) Q X"
    using checked unfolding triple_def tryM_def by (fastforce split: prod.splits sum.splits)
  moreover have "triple P check (\<lambda>_. P) X" by (rule triple_quiet [OF quiet_check v(1) sub(1)])
  ultimately show ?thesis unfolding call_def by (blast intro: triple_bind)
qed

section \<open>Uploads\<close>

definition publishes :: "jsstr \<Rightarrow> jsstr \<Rightarrow> trace_event \<Rightarrow> bool" where
  "publishes destination staging ev \<longleftrightarrow> ev = Move staging destination \<or> (\<exists>bs. ev = Upload destination bs False [])"

definition replaces :: "jsstr \<Rightarrow> trace_event \<Rightarrow> bool" where
  "replaces destination ev \<longleftrightarrow> (\<exists>bs. ev = Upload destination bs False [])"

definition verified_first :: "jsstr \<Rightarrow> jsstr \<Rightarrow> trace_event list \<Rightarrow> bool" where
  "verified_first destination staging tr \<longleftrightarrow> (\<forall>pre ev post. tr = pre @ ev # post \<longrightarrow> publishes destination staging ev \<longrightarrow>
     (\<exists>h n. SourceHash h n \<in> set pre \<and> Readback staging h n \<in> set pre))"

text \<open>What the two flags promise when they are not raised.\<close>

definition flags_ok :: "jsstr \<Rightarrow> jsstr \<Rightarrow> world \<Rightarrow> bool" where
  "flags_ok destination staging w \<longleftrightarrow>
     (\<not> retained w \<longrightarrow> (\<forall>d n. Init d n \<notin> set (trace w)) \<or> Move staging destination \<in> set (trace w) \<and> Session \<notin> set (trace w))
     \<and> (\<not> maybe_changed w \<longrightarrow> (\<forall>ev\<in>set (trace w). \<not> replaces destination ev)
         \<or> (\<exists>h n. Readback destination h n \<in> set (trace w) \<and> SourceHash h n \<in> set (trace w)))"

definition sound :: "jsstr \<Rightarrow> jsstr \<Rightarrow> world \<Rightarrow> bool" where
  "sound destination staging w \<longleftrightarrow> verified_first destination staging (trace w) \<and> flags_ok destination staging w"

definition safe :: "jsstr \<Rightarrow> jsstr \<Rightarrow> trace_event set \<Rightarrow> bool \<Rightarrow> bool \<Rightarrow> world \<Rightarrow> bool" where
  "safe destination staging E r c w \<longleftrightarrow> sound destination staging w \<and> E \<subseteq> set (trace w) \<and> (\<forall>ev\<in>{Session, Move staging destination}. ev \<in> set (trace w) \<longleftrightarrow> ev \<in> E)
     \<and> retained w = r \<and> maybe_changed w = c"

lemma verified_append:
  assumes "verified_first d s tr" and "publishes d s ev \<Longrightarrow> \<exists>h n. SourceHash h n \<in> set tr \<and> Readback s h n \<in> set tr"
  shows "verified_first d s (tr @ [ev])"
  unfolding verified_first_def
proof (intro allI impI)
  fix pre e post assume split: "tr @ [ev] = pre @ e # post" and pub: "publishes d s e"
  show "\<exists>h n. SourceHash h n \<in> set pre \<and> Readback s h n \<in> set pre"
  proof (cases post rule: rev_cases)
    case Nil
    then show ?thesis using split pub assms(2) by simp
  next
    case (snoc ys y)
    then have "tr = pre @ e # ys" using split by simp
    then show ?thesis using assms(1) pub unfolding verified_first_def by blast
  qed
qed

lemma visible_sound [simp]: "visible (sound d s)" and visible_safe [simp]: "visible (safe d s E r c)"
  by (auto simp: visible_def sound_def safe_def flags_ok_def core_def)

lemma safe_sound: "safe d s E r c w \<Longrightarrow> sound d s w"
  by (simp add: safe_def)

text \<open>Logging an event: what it may be, and what is known afterwards.\<close>

lemma triple_log:
  assumes "publishes d s ev \<Longrightarrow> \<exists>h n. SourceHash h n \<in> E \<and> Readback s h n \<in> E"
    and "\<And>a b. ev = Init a b \<or> ev = Session \<Longrightarrow> r" and "replaces d ev \<Longrightarrow> c"
  shows "triple (safe d s E r c) (log_event ev) (\<lambda>_. safe d s (insert ev E) r c) (sound d s)"
proof -
  have "safe d s (insert ev E) r c (w\<lparr>trace := trace w @ [ev]\<rparr>)" if "safe d s E r c w" for w
  proof -
    have "verified_first d s (trace w @ [ev])"
      using that assms(1) by (intro verified_append) (auto simp: safe_def sound_def)
    moreover have "flags_ok d s (w\<lparr>trace := trace w @ [ev]\<rparr>)"
      using that assms(2,3) unfolding safe_def sound_def flags_ok_def by (auto dest: assms(2))
    ultimately show ?thesis using that by (auto simp: safe_def sound_def)
  qed
  then show ?thesis unfolding log_event_def by (rule triple_modify)
qed

lemma triple_silent: "quiet m \<Longrightarrow> triple (safe d s E r c) m (\<lambda>_. safe d s E r c) (sound d s)"
  by (rule triple_quiet) (simp_all add: safe_sound)

lemma triple_log_keep:
  assumes "\<not> publishes d s ev" and "\<And>a b. ev \<noteq> Init a b" and "ev \<noteq> Session"
  shows "triple (safe d s E r c) (log_event ev) (\<lambda>_. safe d s E r c) (sound d s)"
  by (rule triple_weaken [OF triple_log [where d = d and s = s and E = E and r = r and c = c]])
    (use assms in \<open>auto simp: publishes_def replaces_def safe_def\<close>)

text \<open>Events that neither publish nor start anything.\<close>

lemma triple_log_ret:
  assumes "\<not> publishes d s ev" and "\<And>a b. ev \<noteq> Init a b" and "ev \<noteq> Session" and "safe d s (insert ev E) r c = F" and "\<And>w. F w \<Longrightarrow> Q a w"
  shows "triple (safe d s E r c) (bindM (log_event ev) (\<lambda>_. retM a)) Q (sound d s)"
proof (rule triple_bind [OF triple_log])
  fix x show "triple (safe d s (insert ev E) r c) (retM a) Q (sound d s)" using assms(4,5) by (simp add: triple_ret)
qed (use assms in \<open>auto simp: publishes_def replaces_def\<close>)

lemma triple_hash_whole:
  "triple (safe d s E r c) (hash_whole sha n) (\<lambda>h. safe d s (insert (SourceHash h n) E) r c) (sound d s)"
  unfolding hash_whole_def
proof (rule triple_bind [OF triple_silent [OF quiet_hash_source]])
  fix h
  show "triple (safe d s E r c) (bindM (log_event (SourceHash h n)) (\<lambda>_. retM h)) (\<lambda>h. safe d s (insert (SourceHash h n) E) r c) (sound d s)"
    by (rule triple_log_ret [OF _ _ _ refl]) (simp_all add: publishes_def)
qed

lemma visible_conj [simp]: "visible P \<Longrightarrow> visible (\<lambda>w. P w \<and> b)"
  unfolding visible_def by blast

lemma triple_remote_hash:
  "triple (safe d s E r c) (remote_hash sha m source None expected)
     (\<lambda>p w. safe d s (insert (Readback source (snd p) (fst p)) E) r c w \<and> (expected = None \<or> expected = Some (fst p))) (sound d s)"
proof -
  have guard: "triple (safe d s E r c) (guardM b e) (\<lambda>_ w. safe d s E r c w \<and> b) (sound d s)" for b e
    by (rule triple_guard) (simp_all add: safe_sound)
  have last: "triple (\<lambda>w. safe d s E r c w \<and> b \<and> (expected = None \<or> expected = Some (length bs)))
      (bindM (require_remote_file source) (\<lambda>_. bindM (log_event (Readback source (sha bs) (length bs))) (\<lambda>_. retM (length bs, sha bs))))
      (\<lambda>p w. safe d s (insert (Readback source (snd p) (fst p)) E) r c w \<and> (expected = None \<or> expected = Some (fst p))) (sound d s)" for b bs
  proof (cases "b \<and> (expected = None \<or> expected = Some (length bs))")
    case True
    have "triple (safe d s E r c)
      (bindM (require_remote_file source) (\<lambda>_. bindM (log_event (Readback source (sha bs) (length bs))) (\<lambda>_. retM (length bs, sha bs))))
      (\<lambda>p w. safe d s (insert (Readback source (snd p) (fst p)) E) r c w \<and> (expected = None \<or> expected = Some (fst p))) (sound d s)"
    proof (rule triple_bind [OF triple_silent [OF quiet_inspect(2)]])
      fix x
      show "triple (safe d s E r c) (bindM (log_event (Readback source (sha bs) (length bs))) (\<lambda>_. retM (length bs, sha bs)))
        (\<lambda>p w. safe d s (insert (Readback source (snd p) (fst p)) E) r c w \<and> (expected = None \<or> expected = Some (fst p))) (sound d s)"
        by (rule triple_log_ret [OF _ _ _ refl]) (use True in \<open>simp_all add: publishes_def\<close>)
    qed
    then show ?thesis by (rule triple_weaken) simp_all
  qed (auto simp: triple_def)
  show ?thesis
    unfolding remote_hash_def case_prod_beta
    by (intro triple_bind [OF triple_silent] triple_bind [OF guard] last quiet_rules)
qed

text \<open>The parts of an upload go to the staging name or to chunk files.\<close>

lemma triple_api_upload:
  assumes "path \<noteq> d \<or> chunk"
  shows "triple (safe d s E r c) (call (api_upload path i n chunk origin)) (\<lambda>_. safe d s E r c) (sound d s)"
proof (rule triple_call)
  have "triple (safe d s E r c) (log_event (Upload path bs chunk origin)) (\<lambda>_. safe d s E r c) (sound d s)" for bs
    by (rule triple_log_keep) (use assms in \<open>auto simp: publishes_def\<close>)
  then show "triple (safe d s E r c) (api_upload path i n chunk origin) (\<lambda>_. safe d s E r c) (sound d s)"
    unfolding api_upload_def case_prod_beta
    by (intro triple_bind [OF triple_silent] triple_bind [OF _ triple_silent] quiet_rules)
qed (simp_all add: safe_sound)

lemma triple_chunks:
  assumes "s \<noteq> d"
  shows "triple (safe d s E r c) (chunk_loop n sha mp s tot offset index) (\<lambda>_. safe d s E r c) (sound d s)"
proof (induction n arbitrary: offset index)
  case 0
  show ?case by (simp add: triple_ret)
next
  case (Suc n)
  show ?case
    unfolding chunk_loop.simps Let_def
    by (cases "tot \<le> offset")
      (auto intro!: triple_bind [OF triple_silent] triple_bind [OF triple_api_upload] Suc.IH quiet_rules triple_ret)
qed

lemma triple_accept:
  assumes "\<not> publishes d s ev" and "\<And>a b. ev \<noteq> Init a b" and "ev \<noteq> Session"
  shows "triple (safe d s E r c) (call (bindM (log_event ev) (\<lambda>_. accept))) (\<lambda>_. safe d s E r c) (sound d s)"
proof (rule triple_call)
  show "triple (safe d s E r c) (bindM (log_event ev) (\<lambda>_. accept)) (\<lambda>_. safe d s E r c) (sound d s)"
    using assms by (intro triple_bind [OF triple_log_keep] triple_silent quiet_rules)
qed (simp_all add: safe_sound)

lemma triple_parts:
  assumes "s \<noteq> d"
  shows "triple (safe d s E r c) (transfer_parts sha mp directory name s tot) (\<lambda>_. safe d s E r c) (sound d s)"
proof -
  have single: "triple (safe d s E r c) (bindM report_progress (\<lambda>_. bindM (target_preflight s False) (\<lambda>_.
      bindM (call (api_upload s 0 tot False [])) (\<lambda>_. bindM report_progress (\<lambda>_. retM ''single''))))) (\<lambda>_. safe d s E r c) (sound d s)"
    using assms by (intro triple_bind [OF triple_silent] triple_bind [OF triple_api_upload] triple_silent quiet_rules) simp
  have multi: "triple (safe d s E r c) (bindM report_progress (\<lambda>_. bindM (chunk_loop tot sha m s tot 0 1) (\<lambda>_.
      bindM (target_preflight s False) (\<lambda>_. bindM (call (bindM (log_event (Merge directory name tot)) (\<lambda>_. accept))) (\<lambda>_. retM ''multipart'')))))
      (\<lambda>_. safe d s E r c) (sound d s)" for m
    using assms
    by (intro triple_bind [OF triple_silent] triple_bind [OF triple_chunks] triple_bind [OF triple_accept] triple_silent quiet_rules)
      (simp_all add: publishes_def)
  show ?thesis using single multi by (cases mp) (simp_all add: transfer_parts_def)
qed

lemma triple_ensure:
  "triple (\<lambda>w. safe d s E r c w \<and> b) (guardM b' e) Q X \<Longrightarrow> b \<Longrightarrow> triple (safe d s E r c) (guardM b' e) Q X"
  by (simp add: triple_def)

lemma guard_safe: "triple (safe d s E r c) (guardM b e) (\<lambda>_ w. safe d s E r c w \<and> b) (sound d s)"
  by (rule triple_guard) (simp_all add: safe_sound)

lemma triple_verify:
  "triple (safe d s E r c) (verify_upload sha m s tot first_hash)
     (\<lambda>_. safe d s (insert (Readback s first_hash tot) (insert (SourceHash first_hash tot) E)) r c) (sound d s)"
  unfolding verify_upload_def case_prod_beta
proof (rule triple_bind [OF triple_hash_whole], rule triple_bind [OF guard_safe], rule triple_fact)
  fix h1 u assume h1: "h1 = first_hash"
  let ?E = "insert (SourceHash first_hash tot) E"
  show "triple (safe d s (insert (SourceHash h1 tot) E) r c)
      (bindM (remote_hash sha m s None (Some tot)) (\<lambda>p. bindM (guardM (snd p = first_hash) ''TRANSFER_HASH'') (\<lambda>_.
        bindM (hash_whole sha tot) (\<lambda>h3. guardM (h3 = first_hash) ''TRANSFER_CHANGED''))))
      (\<lambda>_. safe d s (insert (Readback s first_hash tot) ?E) r c) (sound d s)"
    unfolding h1
  proof (rule triple_bind [OF triple_remote_hash], rule triple_fact)
    fix p :: "nat \<times> jsstr" assume "Some tot = None \<or> Some tot = Some (fst p)"
    then have tot: "fst p = tot" by simp
    show "triple (safe d s (insert (Readback s (snd p) (fst p)) ?E) r c)
        (bindM (guardM (snd p = first_hash) ''TRANSFER_HASH'') (\<lambda>_. bindM (hash_whole sha tot) (\<lambda>h3. guardM (h3 = first_hash) ''TRANSFER_CHANGED'')))
        (\<lambda>_. safe d s (insert (Readback s first_hash tot) ?E) r c) (sound d s)"
      unfolding tot
    proof (rule triple_bind [OF guard_safe], rule triple_fact, rule triple_bind [OF triple_hash_whole], rule triple_weaken [OF guard_safe])
      fix w u x h3 assume "snd p = first_hash" "safe d s (insert (SourceHash h3 tot) (insert (Readback s (snd p) tot) ?E)) r c w \<and> h3 = first_hash"
      then show "safe d s (insert (Readback s first_hash tot) ?E) r c w" by (auto simp: safe_def)
    qed
  qed
qed

lemma visibleD: "visible P \<Longrightarrow> core v = core w \<Longrightarrow> P v = P w"
  unfolding visible_def by (drule spec, drule spec, erule mp)

lemma visible_ex [simp]: "(\<And>x. visible (P x)) \<Longrightarrow> visible (\<lambda>w. \<exists>x. P x w)"
  unfolding visible_def [of "\<lambda>w. \<exists>x. P x w"] by (intro allI impI ex_cong1 visibleD)

text \<open>The upload that replaces the destination itself.\<close>

lemma triple_replace:
  assumes known: "\<exists>h n. SourceHash h n \<in> E \<and> Readback s h n \<in> E"
  shows "triple (safe d s E True True) (call (api_upload d 0 tot False []))
     (\<lambda>_ w. \<exists>bs. safe d s (insert (Upload d bs False []) E) True True w) (sound d s)"
proof (rule triple_call)
  have log: "triple (safe d s E True True) (log_event (Upload d bs False [])) (\<lambda>_ w. \<exists>bs. safe d s (insert (Upload d bs False []) E) True True w) (sound d s)" for bs
    by (rule triple_weaken [OF triple_log [where d = d and s = s and E = E and r = True and c = True]]) (use known in auto)
  show "triple (safe d s E True True) (api_upload d 0 tot False []) (\<lambda>_ w. \<exists>bs. safe d s (insert (Upload d bs False []) E) True True w) (sound d s)"
    unfolding api_upload_def case_prod_beta
    by (intro triple_bind [OF triple_silent] triple_bind [OF log] quiet_rules triple_quiet) (auto simp: safe_sound)
qed (auto simp: safe_sound)

text \<open>A finished upload; its flag says whether anything of it is left beside the destination.\<close>

definition uploaded :: "jsstr \<Rightarrow> jsstr \<Rightarrow> trace_event set \<Rightarrow> world \<Rightarrow> bool" where
  "uploaded d s E w \<longleftrightarrow> sound d s w \<and> E \<subseteq> set (trace w) \<and> (\<exists>ev\<in>set (trace w). publishes d s ev)
     \<and> (retained w \<longleftrightarrow> Session \<in> set (trace w) \<or> Move s d \<notin> set (trace w))"

lemma visible_uploaded [simp]: "visible (uploaded d s E)"
  by (auto simp: visible_def uploaded_def sound_def flags_ok_def core_def)

lemma uploaded_sound: "uploaded d s E w \<Longrightarrow> sound d s w"
  by (simp add: uploaded_def)

text \<open>Publishing, once the digest of the source and of the staged file are known to agree.\<close>

lemma triple_publish:
  assumes E: "SourceHash first_hash tot \<in> E" "Readback s first_hash tot \<in> E" and parts: "parts \<longleftrightarrow> Session \<in> E" and unmoved: "Move s d \<notin> E"
  shows "triple (safe d s E True False) (publish_upload sha m input d s tot first_hash parts)
     (\<lambda>_. uploaded d s E) (sound d s)"
proof -
  have known: "\<exists>h n. SourceHash h n \<in> E \<and> Readback s h n \<in> E" using E by blast
  have move: "triple (safe d s E True False) (bindM (call (bindM (log_event (Move s d)) (\<lambda>_. accept))) (\<lambda>_. modifyM (\<lambda>w. w\<lparr>retained := parts\<rparr>)))
     (\<lambda>_. uploaded d s E) (sound d s)"
  proof (rule triple_bind [OF triple_call])
    show "triple (safe d s E True False) (bindM (log_event (Move s d)) (\<lambda>_. accept)) (\<lambda>_. safe d s (insert (Move s d) E) True False) (sound d s)"
      by (rule triple_bind [OF triple_log]) (auto simp: known replaces_def intro!: triple_silent quiet_rules)
    show "triple (safe d s (insert (Move s d) E) True False) (modifyM (\<lambda>w. w\<lparr>retained := parts\<rparr>))
       (\<lambda>_. uploaded d s E) (sound d s)"
      by (rule triple_modify) (use parts in \<open>auto simp: uploaded_def safe_def sound_def flags_ok_def publishes_def\<close>)
  qed (simp_all add: safe_sound)
  have replace: "triple (safe d s E True False)
      (bindM (modifyM (\<lambda>w. w\<lparr>maybe_changed := True\<rparr>)) (\<lambda>_. bindM (call (api_upload d 0 tot False [])) (\<lambda>_.
       bindM (remote_hash sha m d None (Some tot)) (\<lambda>p.
       bindM (if snd p \<noteq> first_hash then throwM ''TRANSFER_HASH'' else bindM (hash_whole sha tot) (\<lambda>h'. guardM (h' = first_hash) ''TRANSFER_HASH'')) (\<lambda>_.
       modifyM (\<lambda>w. w\<lparr>maybe_changed := False, retained := True\<rparr>))))))
     (\<lambda>_. uploaded d s E) (sound d s)"
  proof (rule triple_bind, rule triple_modify)
    show "\<And>w. safe d s E True False w \<Longrightarrow> safe d s E True True (w\<lparr>maybe_changed := True\<rparr>)"
      by (auto simp: safe_def sound_def flags_ok_def)
    have check: "triple (safe d s (insert (Readback d (snd p) (fst p)) F) True True)
        (bindM (if snd p \<noteq> first_hash then throwM ''TRANSFER_HASH'' else bindM (hash_whole sha tot) (\<lambda>h'. guardM (h' = first_hash) ''TRANSFER_HASH'')) (\<lambda>_.
          modifyM (\<lambda>w. w\<lparr>maybe_changed := False, retained := True\<rparr>)))
        (\<lambda>_. uploaded d s E) (sound d s)"
      if F: "F = insert (Upload d bs False []) E" and tot: "fst p = tot" for F bs and p :: "nat \<times> jsstr"
    proof (cases "snd p = first_hash")
      case True
      let ?G = "\<lambda>h. insert (SourceHash h tot) (insert (Readback d first_hash tot) F)"
      have "triple (safe d s (insert (Readback d first_hash tot) F) True True)
        (bindM (bindM (hash_whole sha tot) (\<lambda>h'. guardM (h' = first_hash) ''TRANSFER_HASH'')) (\<lambda>_.
          modifyM (\<lambda>w. w\<lparr>maybe_changed := False, retained := True\<rparr>)))
        (\<lambda>_. uploaded d s E) (sound d s)"
        unfolding bindM_assoc
      proof (rule triple_bind [OF triple_hash_whole], rule triple_bind [OF guard_safe], rule triple_fact, rule triple_modify)
        fix h' u w assume "h' = first_hash" "safe d s (?G h') True True w"
        then show "uploaded d s E (w\<lparr>maybe_changed := False, retained := True\<rparr>)"
          unfolding F using unmoved by (auto simp: uploaded_def safe_def sound_def flags_ok_def publishes_def)
      qed
      then show ?thesis using True tot by simp
    qed (auto simp: triple_def bindM_def throwM_def safe_sound)
    show "triple (safe d s E True True)
        (bindM (call (api_upload d 0 tot False [])) (\<lambda>_. bindM (remote_hash sha m d None (Some tot)) (\<lambda>p.
         bindM (if snd p \<noteq> first_hash then throwM ''TRANSFER_HASH'' else bindM (hash_whole sha tot) (\<lambda>h'. guardM (h' = first_hash) ''TRANSFER_HASH'')) (\<lambda>_.
         modifyM (\<lambda>w. w\<lparr>maybe_changed := False, retained := True\<rparr>)))))
       (\<lambda>_. uploaded d s E) (sound d s)" for x :: unit
    proof (rule triple_bind [OF triple_replace [OF known]], rule triple_ex, rule triple_bind [OF triple_remote_hash], rule triple_fact)
      fix u bs and p :: "nat \<times> jsstr" assume "Some tot = None \<or> Some tot = Some (fst p)"
      then show "triple (safe d s (insert (Readback d (snd p) (fst p)) (insert (Upload d bs False []) E)) True True)
        (bindM (if snd p \<noteq> first_hash then throwM ''TRANSFER_HASH'' else bindM (hash_whole sha tot) (\<lambda>h'. guardM (h' = first_hash) ''TRANSFER_HASH'')) (\<lambda>_.
          modifyM (\<lambda>w. w\<lparr>maybe_changed := False, retained := True\<rparr>)))
        (\<lambda>_. uploaded d s E) (sound d s)"
        by (intro check [OF refl]) simp
    qed
  qed
  show ?thesis
    unfolding publish_upload_def case_prod_beta
    by (intro triple_bind [OF triple_silent] quiet_rules) (use move replace in auto)
qed

lemma triple_init:
  "triple (safe d s E True c) (tryM (call (bindM (log_event (Init directory name)) (\<lambda>_. answer_init)))
       (\<lambda>e. if e \<noteq> ''PORTAL_UNIMPLEMENTED'' then throwM e else retM None))
     (\<lambda>_. safe d s E True c) (sound d s)"
proof -
  have log: "keeps (safe d s E True c) (log_event (Init directory name))"
    unfolding log_event_def
    by (rule keeps_modify) (auto simp: safe_def sound_def flags_ok_def publishes_def replaces_def intro!: verified_append)
  have "keeps (safe d s E True c) m" if "quiet m" for m :: "'a io"
    using visible_quiet [OF _ that] by simp
  note quiets = visible_quiet [OF visible_safe]
  have "keeps (safe d s E True c) (tryM (call (bindM (log_event (Init directory name)) (\<lambda>_. answer_init)))
       (\<lambda>e. if e \<noteq> ''PORTAL_UNIMPLEMENTED'' then throwM e else retM None))"
    unfolding call_def by (intro act_rules log quiets [OF quiet_check] quiets [OF quiet_answers(3)])
  then show ?thesis by (rule triple_keeps) (simp_all add: safe_sound)
qed

lemma triple_session:
  "triple (safe d s E True c) (note_session mp) (\<lambda>_. safe d s (E \<union> (if mp = None then {} else {Session})) True c) (sound d s)"
proof (cases mp)
  case (Some m)
  have "triple (safe d s E True c) (log_event Session) (\<lambda>_. safe d s (insert Session E) True c) (sound d s)"
    by (rule triple_log) (auto simp: publishes_def replaces_def)
  then show ?thesis using Some by (simp add: note_session_def)
qed (simp add: note_session_def triple_ret safe_sound)

lemma triple_upload:
  assumes d: "remote_path (i_remote input) = Inr d" and "s \<noteq> d"
    and s: "s = posix_join (posix_dirname d) (js ''.usshtc107-'' @ i_uuid input @ js ''.part'')"
  shows "triple (safe d s {} False False) (upload_body sha m input)
     (\<lambda>r w. uploaded d s {SourceHash (x_sha r) (x_bytes r), Readback s (x_sha r) (x_bytes r)} w \<and> x_retained r = retained w) (sound d s)"
proof -
  have retain: "triple (safe d s E False False) (modifyM (\<lambda>w. w\<lparr>retained := True\<rparr>)) (\<lambda>_. safe d s E True False) (sound d s)" for E
    by (rule triple_modify) (auto simp: safe_def sound_def flags_ok_def)
  have last: "triple (uploaded d s (insert (Readback s first_hash tot) (insert (SourceHash first_hash tot) E)))
      (bindM report_progress (\<lambda>_. bindM (readM retained) (\<lambda>kept. retM \<lparr>x_bytes = tot, x_sha = first_hash, x_mode = mode, x_retained = kept\<rparr>)))
      (\<lambda>r w. uploaded d s {SourceHash (x_sha r) (x_bytes r), Readback s (x_sha r) (x_bytes r)} w \<and> x_retained r = retained w) (sound d s)"
    for first_hash tot E mode
  proof (rule triple_bind [OF triple_quiet [OF quiet_answers(6)]])
    fix u :: unit
    let ?P = "uploaded d s (insert (Readback s first_hash tot) (insert (SourceHash first_hash tot) E))"
    show "triple ?P (bindM (readM retained) (\<lambda>kept. retM \<lparr>x_bytes = tot, x_sha = first_hash, x_mode = mode, x_retained = kept\<rparr>))
      (\<lambda>r w. uploaded d s {SourceHash (x_sha r) (x_bytes r), Readback s (x_sha r) (x_bytes r)} w \<and> x_retained r = retained w) (sound d s)"
      by (auto simp: triple_def bindM_def readM_def retM_def uploaded_def)
  qed (simp_all add: uploaded_sound)
  have tail: "triple (safe d s E True False)
      (bindM (note_session mp) (\<lambda>_. bindM (multipart_valid mp) (\<lambda>_. bindM (transfer_parts sha mp directory name s tot) (\<lambda>mode.
       bindM report_progress (\<lambda>_. bindM (verify_upload sha m s tot first_hash) (\<lambda>_. bindM report_progress (\<lambda>_.
       bindM (publish_upload sha m input d s tot first_hash (mp \<noteq> None)) (\<lambda>_.
       bindM report_progress (\<lambda>_. bindM (readM retained) (\<lambda>kept. retM \<lparr>x_bytes = tot, x_sha = first_hash, x_mode = mode, x_retained = kept\<rparr>))))))))))
      (\<lambda>r w. uploaded d s {SourceHash (x_sha r) (x_bytes r), Readback s (x_sha r) (x_bytes r)} w \<and> x_retained r = retained w) (sound d s)"
    if "Session \<notin> E" "Move s d \<notin> E" for E mp directory name tot first_hash
    by (intro triple_bind [OF triple_session] triple_bind [OF triple_silent] triple_bind [OF triple_parts [OF assms(2)]]
        triple_bind [OF triple_verify] triple_bind [OF triple_publish] last quiet_rules) (use that in auto)
  note steps = triple_bind [OF triple_silent] triple_bind [OF triple_hash_whole] triple_bind [OF retain] triple_bind [OF triple_init]
    tail quiet_rules
  show ?thesis
    unfolding upload_body_def d Let_def case_prod_beta
    by (rule triple_bind [where Q = "\<lambda>x w. safe d s {} False False w \<and> x = d"], simp add: triple_def liftR_def,
        rule triple_fact, hypsubst, fold s) (intro steps; simp)
qed

lemma upload_caught_sound:
  assumes "remote_path (i_remote input) = Inr d"
    and "s = posix_join (posix_dirname d) (js ''.usshtc107-'' @ i_uuid input @ js ''.part'')" and "s \<noteq> d"
    and "trace w0 = []" and "upload_caught sha max_bytes input w0 = (r, w)"
  shows "sound d s w"
    and "r = Inr x \<Longrightarrow> uploaded d s {SourceHash (x_sha x) (x_bytes x), Readback s (x_sha x) (x_bytes x)} w \<and> x_retained x = retained w"
    and "r = Inl e \<Longrightarrow> x_temps e = Some (retained w) \<and> x_changed e = Some (maybe_changed w)"
proof -
  let ?w = "w0\<lparr>retained := False, maybe_changed := False, handle_open := False\<rparr>"
  have start: "safe d s {} False False ?w"
    using assms(4) by (simp add: safe_def sound_def verified_first_def flags_ok_def)
  note upload = triple_upload [OF assms(1,3,2), unfolded triple_def, rule_format, OF start, of sha max_bytes]
  obtain r1 w1 where body: "upload_body sha max_bytes input ?w = (r1, w1)" by fastforce
  have *: "sound d s w \<and> (\<forall>x. r = Inr x \<longrightarrow> uploaded d s {SourceHash (x_sha x) (x_bytes x), Readback s (x_sha x) (x_bytes x)} w \<and> x_retained x = retained w)
      \<and> (\<forall>e. r = Inl e \<longrightarrow> x_temps e = Some (retained w) \<and> x_changed e = Some (maybe_changed w))"
  proof (cases r1)
    case (Inr x)
    then show ?thesis using upload body assms(5) by (auto simp: upload_caught_def uploaded_sound)
  next
    case (Inl e)
    obtain r2 w2 where fe: "final_error e w1 = (r2, w2)" by fastforce
    have core: "core w2 = core w1" by (rule quiet_core [OF quiet_more(4) fe])
    have "sound d s w1" using upload body Inl by simp
    then have "sound d s w2" using visible_sound core unfolding visible_def by blast
    moreover have "w = w2" "\<exists>code. r = Inl (safe_error code (retained w2) (maybe_changed w2))"
      using assms(5) body Inl fe by (auto simp: upload_caught_def split: sum.splits)
    ultimately show ?thesis by (auto simp: safe_error_def)
  qed
  then show "sound d s w"
    and "r = Inr x \<Longrightarrow> uploaded d s {SourceHash (x_sha x) (x_bytes x), Readback s (x_sha x) (x_bytes x)} w \<and> x_retained x = retained w"
    and "r = Inl e \<Longrightarrow> x_temps e = Some (retained w) \<and> x_changed e = Some (maybe_changed w)" by blast+
qed

text \<open>Claim C28: an upload changes the destination, by renaming the staged file or by replacing it in place, only after
  the staged file has been read back and its digest is the one of the local file.  A successful
  upload reports that digest and that size, and reports remote temporary files exactly when the portal
  had opened a multipart session or the staged file was not moved away.  An error that says that there are none
  comes from an upload that started none, or moved the staged file into place and had no session; one that says that
  the destination has not changed, from one that has not replaced it in place or has verified the
  replacement.  An error without these flags is thrown only for an invalid limit, before anything is done, or by
  closing the source at the end.\<close>

theorem upload_publishes_verified:
  assumes "remote_path (i_remote input) = Inr d"
    and "s = posix_join (posix_dirname d) (js ''.usshtc107-'' @ i_uuid input @ js ''.part'')" and "s \<noteq> d"
    and "trace w0 = []" and "upload_file sha allowed input w0 = (r, w)"
  shows "verified_first d s (trace w)
    \<and> (case r of
         Inr x \<Rightarrow> SourceHash (x_sha x) (x_bytes x) \<in> set (trace w) \<and> Readback s (x_sha x) (x_bytes x) \<in> set (trace w)
           \<and> (\<exists>ev\<in>set (trace w). publishes d s ev)
           \<and> (x_retained x \<longleftrightarrow> Session \<in> set (trace w) \<or> Move s d \<notin> set (trace w))
       | Inl e \<Rightarrow>
           (x_temps e = Some False \<longrightarrow> (\<forall>p n. Init p n \<notin> set (trace w)) \<or> Move s d \<in> set (trace w) \<and> Session \<notin> set (trace w))
           \<and> (x_changed e = Some False \<longrightarrow> (\<forall>ev\<in>set (trace w). \<not> replaces d ev)
                \<or> (\<exists>h n. Readback d h n \<in> set (trace w) \<and> SourceHash h n \<in> set (trace w)))
           \<and> (x_temps e = None \<or> x_changed e = None \<longrightarrow> w = w0 \<and> scope_for input allowed = Inl (x_code e)
                \<or> (\<exists>max_bytes v. snd (upload_caught sha max_bytes input w0) = v \<and> close_handle v = (Inl (x_code e), w))))"
proof (cases "scope_for input allowed")
  case (Inl e)
  then show ?thesis using assms(4,5) by (auto simp: upload_file_def raw_error_def verified_first_def)
next
  case (Inr m)
  obtain r1 w1 where caught: "upload_caught sha m input w0 = (r1, w1)" by fastforce
  note U = upload_caught_sound [OF assms(1-4) caught]
  obtain c w2 where closed: "close_handle w1 = (c, w2)" by fastforce
  have core: "core w2 = core w1" by (rule quiet_core [OF quiet_more(3) closed])
  have run: "w = w2" "r = (case c of Inl e \<Rightarrow> Inl (raw_error e) | Inr _ \<Rightarrow> r1)"
    using assms(5) Inr caught closed by (auto simp: upload_file_def split: sum.splits)
  have s: "sound d s w" using U(1) visibleD [OF visible_sound core] run(1) by simp
  show ?thesis
  proof (cases c)
    case (Inl e)
    then have "snd (upload_caught sha m input w0) = w1" "close_handle w1 = (Inl e, w)" using caught closed run(1) by simp_all
    then show ?thesis using s run(2) Inl by (auto simp: sound_def raw_error_def)
  next
    case (Inr u)
    have kept: "retained w = retained w1" "maybe_changed w = maybe_changed w1" "trace w = trace w1" using core run(1) by (simp_all add: core_def)
    show ?thesis
    proof (cases r1)
      case (Inl e)
      then show ?thesis using s U(3) [OF Inl] run(2) Inr kept by (auto simp: sound_def flags_ok_def)
    next
      case r1: (Inr x)
      then show ?thesis using s U(2) [OF r1] run(2) Inr kept by (auto simp: sound_def uploaded_def)
    qed
  qed
qed

section \<open>Downloads\<close>

text \<open>
  \<open>F\<close> are the local files before, \<open>d\<close> the destination, \<open>t\<close> the temporary file, \<open>src\<close> the remote path and \<open>keep\<close>
  whether an existing destination must stay.
\<close>

definition verified_content :: "(byte list \<Rightarrow> jsstr) \<Rightarrow> jsstr \<Rightarrow> world \<Rightarrow> byte list \<Rightarrow> bool" where
  "verified_content sha src w bs \<longleftrightarrow> Readback src (sha bs) (length bs) \<in> set (trace w)"

definition local_ok :: "(byte list \<Rightarrow> jsstr) \<Rightarrow> (jsstr \<Rightarrow> lfile option) \<Rightarrow> jsstr \<Rightarrow> jsstr \<Rightarrow> jsstr \<Rightarrow> bool \<Rightarrow> world \<Rightarrow> bool" where
  "local_ok sha F d t src keep w \<longleftrightarrow>
     (\<forall>n. n \<noteq> d \<and> n \<noteq> t \<longrightarrow> files w n = F n)
     \<and> (files w d = F d \<or> (\<exists>bs. files w d = Some (Regular bs) \<and> verified_content sha src w bs))
     \<and> (keep \<and> F d \<noteq> None \<longrightarrow> files w d = F d)
     \<and> (temporary w = None \<or> temporary w = Some t)"

lemma visible_local [simp]: "visible (local_ok sha F d t src keep)"
  by (auto simp: visible_def local_ok_def verified_content_def core_def)

text \<open>Writing to the temporary file and logging keep this.\<close>

definition has_temporary :: "jsstr \<Rightarrow> world \<Rightarrow> bool" where
  "has_temporary t w \<longleftrightarrow> temporary w = Some t \<and> (\<exists>bs. files w t = Some (Regular bs))"

definition filling :: "(byte list \<Rightarrow> jsstr) \<Rightarrow> (jsstr \<Rightarrow> lfile option) \<Rightarrow> jsstr \<Rightarrow> jsstr \<Rightarrow> jsstr \<Rightarrow> bool \<Rightarrow> world \<Rightarrow> bool" where
  "filling sha F d t src keep w \<longleftrightarrow> local_ok sha F d t src keep w \<and> has_temporary t w"

lemma visible_filling [simp]: "visible (filling sha F d t src keep)"
  by (auto simp: visible_def filling_def has_temporary_def local_ok_def verified_content_def core_def)

lemma keeps_log: "keeps (local_ok sha F d t src keep) (log_event ev)" "keeps (filling sha F d t src keep) (log_event ev)"
  unfolding log_event_def
  by (rule keeps_modify; auto simp: local_ok_def filling_def has_temporary_def verified_content_def)+

lemma keeps_put:
  assumes "t \<noteq> d"
  shows "keeps (filling sha F d t src keep) (modifyM (\<lambda>w. w\<lparr>files := (files w)(t := Some (Regular (put_at pos (take k block) (content_of t w))))\<rparr>))"
  using assms by (intro keeps_modify) (auto simp: filling_def has_temporary_def local_ok_def verified_content_def)

lemmas filling_quiet = visible_quiet [OF visible_filling]

lemma keeps_write:
  assumes "t \<noteq> d"
  shows "keeps (filling sha F d t src keep) (write_loop n t pos block)"
proof (induction n arbitrary: pos block)
  case (Suc n)
  then show ?case
    unfolding write_loop.simps
    by (intro keeps_if keeps_bind keeps_put [OF assms] filling_quiet [OF quiet_check] filling_quiet [OF quiet_answers(9)] act_rules Suc.IH)
qed (simp add: act_rules)

lemma keeps_stream:
  assumes "t \<noteq> d"
  shows "keeps (filling sha F d t src keep) (stream_loop m expected (Some t) blocks acc)"
proof (induction blocks arbitrary: acc)
  case (Cons b blocks)
  show ?case
  proof (cases b)
    case (Inr block)
    then show ?thesis
      by (simp, intro conjI impI keeps_bind keeps_if act_rules keeps_write [OF assms] Cons.IH filling_quiet [OF quiet_check] filling_quiet [OF quiet_answers(6)])
  qed (simp add: act_rules)
qed (simp add: act_rules)

lemma keeps_remote_hash:
  assumes "t \<noteq> d"
  shows "keeps (filling sha F d t src keep) (remote_hash sha m source (Some t) expected)"
  unfolding remote_hash_def case_prod_beta
  by (intro act_rules keeps_stream [OF assms] keeps_log(2) visible_quiet [OF visible_filling] quiet_rules)

text \<open>A pass that writes nothing leaves its digest and size in the trace.\<close>

lemma triple_readback:
  assumes v: "visible P" and logged: "\<And>w ev. P w \<Longrightarrow> P (w\<lparr>trace := trace w @ [ev]\<rparr>)" and sub: "\<And>w. P w \<Longrightarrow> X w"
  shows "triple P (remote_hash sha m source None expected)
     (\<lambda>p w. (P w \<and> Readback source (snd p) (fst p) \<in> set (trace w)) \<and> (expected = None \<or> expected = Some (fst p))) X"
proof -
  have guard: "triple P (guardM b e) (\<lambda>_ w. P w \<and> b) X" for b e
    by (rule triple_guard) (simp_all add: sub)
  have log: "triple P (bindM (log_event (Readback source h n)) (\<lambda>_. retM (n, h)))
      (\<lambda>p w. (P w \<and> Readback source (snd p) (fst p) \<in> set (trace w)) \<and> (expected = None \<or> expected = Some (fst p))) X"
    if "expected = None \<or> expected = Some n" for h n
    using logged that by (auto simp: triple_def log_event_def bindM_def modifyM_def retM_def)
  have last: "triple (\<lambda>w. P w \<and> b \<and> (expected = None \<or> expected = Some (length bs)))
      (bindM (require_remote_file source) (\<lambda>_. bindM (log_event (Readback source (sha bs) (length bs))) (\<lambda>_. retM (length bs, sha bs))))
      (\<lambda>p w. (P w \<and> Readback source (snd p) (fst p) \<in> set (trace w)) \<and> (expected = None \<or> expected = Some (fst p))) X" for b bs
    by (rule triple_fact, elim conjE, rule triple_bind [OF triple_quiet [OF quiet_inspect(2) v sub]], assumption, rule log)
  note silent = triple_quiet [OF _ v sub]
  show ?thesis
    unfolding remote_hash_def case_prod_beta
    by (intro triple_bind [OF silent] triple_bind [OF guard] last quiet_rules)
qed

text \<open>Hashing the temporary file reads exactly its content, and nothing but its content.\<close>

lemma hash_loop_reads:
  assumes v: "visible P" and c: "\<And>w. P w \<Longrightarrow> content_of t w = c"
  shows "acc = take (length acc) c \<Longrightarrow> length acc \<le> len \<Longrightarrow> len \<le> length acc + n \<Longrightarrow>
     triple P (hash_loop n (read_temporary t) 0 len acc) (\<lambda>bs w. P w \<and> bs = take len c \<and> length bs = len) P"
proof (induction n arbitrary: acc)
  case 0
  then show ?case by (simp add: triple_ret)
next
  case (Suc n)
  show ?case
  proof (cases "len \<le> length acc")
    case True
    then show ?thesis using Suc.prems by (simp add: triple_ret)
  next
    case False
    let ?m = "min BLOCK (len - length acc)"
    have rd: "triple P (read_temporary t (length acc) ?m) (\<lambda>bs w. P w \<and> (\<exists>k\<le>?m. bs = take k (drop (length acc) c))) P"
      unfolding read_temporary_def
    proof (rule triple_bind [where Q = "\<lambda>k w. P w \<and> k \<le> ?m"])
      have "quiet (amount ?m)" by (rule quiet_answers)
      then show "triple P (amount ?m) (\<lambda>k w. P w \<and> k \<le> ?m) P"
        using visible_quiet [OF v] by (fastforce simp: triple_def amount_def act_combinators split: list.splits dest: keepsD2)
      show "triple (\<lambda>w. P w \<and> k \<le> ?m) (bindM (readM (content_of t)) (\<lambda>bs. retM (take k (drop (length acc) bs))))
          (\<lambda>bs w. P w \<and> (\<exists>k\<le>?m. bs = take k (drop (length acc) c))) P" for k
        by (auto simp: triple_def bindM_def readM_def retM_def c)
    qed
    have next_block: "triple P (if bs = [] then throwM ''TRANSFER_CHANGED'' else hash_loop n (read_temporary t) 0 len (acc @ bs))
        (\<lambda>bs w. P w \<and> bs = take len c \<and> length bs = len) P" if "k \<le> ?m" "bs = take k (drop (length acc) c)" for bs k
    proof (cases "bs = []")
      case False
      have "acc @ bs = take (length acc + k) c" using Suc.prems(1) that(2) by (metis take_add)
      then have "acc @ bs = take (length (acc @ bs)) c" by (metis append_eq_conv_conj append_take_drop_id)
      moreover have "length (acc @ bs) \<le> len"
      proof -
        have "length bs \<le> k" "k \<le> len - length acc" using that by simp_all
        then show ?thesis using Suc.prems(2) by simp
      qed
      moreover have "len \<le> length (acc @ bs) + n" using Suc.prems(3) False by (cases bs) auto
      ultimately show ?thesis unfolding if_not_P [OF False] by (rule Suc.IH)
    qed (simp add: triple_def throwM_def)
    have rest: "triple (\<lambda>w. P w \<and> (\<exists>k\<le>?m. bs = take k (drop (length acc) c)))
        (if bs = [] then throwM ''TRANSFER_CHANGED'' else hash_loop n (read_temporary t) 0 len (acc @ bs))
        (\<lambda>bs w. P w \<and> bs = take len c \<and> length bs = len) P" for bs
      by (rule triple_fact, elim exE conjE, rule next_block)
    from False show ?thesis
      by (simp, intro triple_bind [OF triple_quiet [OF quiet_check v]] triple_bind [OF rd] rest)
  qed
qed

text \<open>The three stages: the temporary file is complete and verified, it is published, it is gone.\<close>

definition staged :: "(byte list \<Rightarrow> jsstr) \<Rightarrow> (jsstr \<Rightarrow> lfile option) \<Rightarrow> jsstr \<Rightarrow> jsstr \<Rightarrow> jsstr \<Rightarrow> bool \<Rightarrow> byte list \<Rightarrow> world \<Rightarrow> bool" where
  "staged sha F d t src keep c w \<longleftrightarrow>
     local_ok sha F d t src keep w \<and> temporary w = Some t \<and> files w t = Some (Regular c)"

definition published :: "(byte list \<Rightarrow> jsstr) \<Rightarrow> (jsstr \<Rightarrow> lfile option) \<Rightarrow> jsstr \<Rightarrow> jsstr \<Rightarrow> jsstr \<Rightarrow> bool \<Rightarrow> byte list \<Rightarrow> world \<Rightarrow> bool" where
  "published sha F d t src keep c w \<longleftrightarrow>
     local_ok sha F d t src keep w \<and> temporary w = Some t \<and> files w d = Some (Regular c)"

lemma filling_staged: "filling sha F d t src keep = (\<lambda>w. \<exists>c. staged sha F d t src keep c w)"
  by (rule ext) (auto simp: filling_def has_temporary_def staged_def)

lemma visible_and [intro]:
  assumes "visible P" "visible Q"
  shows "visible (\<lambda>w. P w \<and> Q w)"
  unfolding visible_def [of "\<lambda>w. P w \<and> Q w"]
proof (intro allI impI)
  fix v w assume "core v = core w"
  then show "(P v \<and> Q v) = (P w \<and> Q w)" using assms [THEN visibleD] by (intro arg_cong2 [where f = "(\<and>)"])
qed

lemma visible_observed [simp]:
  "visible (\<lambda>w. Q (files w) (temporary w))" "visible (\<lambda>w. ev \<in> set (trace w))"
  by (simp_all add: visible_def core_def)

lemma visible_stages [simp]: "visible (staged sha F d t src keep c)" "visible (published sha F d t src keep c)"
proof -
  have "visible (\<lambda>w. local_ok sha F d t src keep w \<and> temporary w = Some t \<and> files w n = Some (Regular c))" for n
    by (rule visible_and [OF visible_local visible_observed(1)])
  then show "visible (staged sha F d t src keep c)" "visible (published sha F d t src keep c)"
    unfolding staged_def [abs_def] published_def [abs_def] by this+
qed

lemma visible_trace [simp]: "visible P \<Longrightarrow> visible (\<lambda>w. P w \<and> ev \<in> set (trace w))"
  by (rule visible_and [OF _ visible_observed(2)])

lemma triple_publish_download:
  assumes "t \<noteq> d" and "keep = (\<not> i_overwrite input)"
  shows "triple (\<lambda>w. staged sha F d t src keep c w \<and> Readback src (sha c) (length c) \<in> set (trace w))
     (publish_download input t d) (\<lambda>_. published sha F d t src keep c) (local_ok sha F d t src keep)"
proof -
  let ?P = "\<lambda>w. staged sha F d t src keep c w \<and> Readback src (sha c) (length c) \<in> set (trace w)"
  have v: "visible ?P" by simp
  have sub: "local_ok sha F d t src keep w" if "?P w" for w using that by (simp add: staged_def)
  have quiet: "quiet (tryM local_step (\<lambda>e. throwM (if e = ''EEXIST'' then ''TRANSFER_EXISTS'' else e)))"
    by (intro quiet_rules)
  show ?thesis
  proof (cases "i_overwrite input")
    case True
    then show ?thesis
      unfolding publish_download_def if_P [OF True]
      by (intro triple_bind [OF triple_quiet [OF quiet_answers(5) v sub]] triple_modify)
        (use assms in \<open>auto simp: staged_def published_def local_ok_def verified_content_def\<close>)
  next
    case False
    then have "triple ?P (bindM (readM files) (\<lambda>fs. if fs d \<noteq> None then throwM ''TRANSFER_EXISTS''
        else modifyM (\<lambda>w. w\<lparr>files := (files w)(d := files w t)\<rparr>))) (\<lambda>_. published sha F d t src keep c) (local_ok sha F d t src keep)"
      using assms
      by (auto simp: triple_def act_combinators staged_def published_def local_ok_def verified_content_def)
    then show ?thesis
      unfolding publish_download_def if_not_P [OF False]
      by (intro triple_bind [OF triple_quiet [OF quiet v sub]])
  qed
qed

text \<open>What is hashed at the end is the file that will be published.\<close>

lemma triple_hash_temporary:
  "triple (\<lambda>w. staged sha F d t src keep c w \<and> Readback src first_hash tot \<in> set (trace w))
     (hash_range sha (read_temporary t) (readM (\<lambda>w. length (content_of t w))) 0 tot tot)
     (\<lambda>h w. (staged sha F d t src keep c w \<and> Readback src first_hash tot \<in> set (trace w)) \<and> (h = sha c \<and> length c = tot))
     (local_ok sha F d t src keep)"
proof -
  let ?S = "staged sha F d t src keep c" and ?X = "local_ok sha F d t src keep"
  let ?T = "\<lambda>w. ?S w \<and> Readback src first_hash tot \<in> set (trace w)"
  have sub: "?S w \<Longrightarrow> ?X w" for w by (simp add: staged_def)
  have content: "?T w \<Longrightarrow> content_of t w = c" for w by (simp add: content_of_def staged_def)
  show ?thesis
    unfolding hash_range_def
  proof (rule triple_bind)
    have "triple ?T (hash_loop tot (read_temporary t) 0 tot []) (\<lambda>bs w. ?T w \<and> bs = take tot c \<and> length bs = tot) ?T"
      by (rule hash_loop_reads [OF visible_trace [OF visible_stages(1)] content]) simp_all
    then show "triple ?T (hash_loop tot (read_temporary t) 0 tot []) (\<lambda>bs w. ?T w \<and> bs = take tot c \<and> length bs = tot) ?X"
      by (rule triple_except) (erule conjE, erule sub)
    show "triple (\<lambda>w. ?T w \<and> bs = take tot c \<and> length bs = tot)
        (bindM (readM (\<lambda>w. length (content_of t w))) (\<lambda>n. if n \<noteq> tot then throwM ''TRANSFER_CHANGED'' else retM (sha bs)))
        (\<lambda>h w. ?T w \<and> (h = sha c \<and> length c = tot)) ?X" for bs
      unfolding triple_def
    proof (intro allI impI, elim conjE)
      fix w assume w: "?S w" "Readback src first_hash tot \<in> set (trace w)" and bs: "bs = take tot c" "length bs = tot"
      have "content_of t w = c" using w by (intro content) simp
      then show "case bindM (readM (\<lambda>w. length (content_of t w))) (\<lambda>n. if n \<noteq> tot then throwM ''TRANSFER_CHANGED'' else retM (sha bs)) w of
          (Inl e, v) \<Rightarrow> ?X v | (Inr h, v) \<Rightarrow> ?T v \<and> (h = sha c \<and> length c = tot)"
        using w bs sub [OF w(1)] by (simp add: act_combinators)
    qed
  qed
qed

lemma triple_fill:
  assumes "t \<noteq> d" and keep: "keep = (\<not> i_overwrite input)"
  shows "triple (filling sha F d t src keep) (fill_temporary sha m input src d t tot first_hash)
     (\<lambda>_ w. \<exists>c. published sha F d t src keep c w \<and> (sha c = first_hash \<and> length c = tot)) (local_ok sha F d t src keep)"
proof -
  let ?X = "local_ok sha F d t src keep" and ?F = "filling sha F d t src keep" and ?S = "staged sha F d t src keep"
  let ?Q = "\<lambda>_ w. \<exists>c. published sha F d t src keep c w \<and> (sha c = first_hash \<and> length c = tot)"
  have sub: "?F w \<Longrightarrow> ?X w" "?S c w \<Longrightarrow> ?X w" "published sha F d t src keep c w \<Longrightarrow> ?X w" for c w
    by (simp_all add: filling_def staged_def published_def)
  have guard: "triple P (guardM b e) (\<lambda>_ w. P w \<and> b) ?X" if "\<And>w. P w \<Longrightarrow> ?X w" for P b e
    using that by (rule triple_guard) simp_all
  have logged: "?F w \<Longrightarrow> ?F (w\<lparr>trace := trace w @ [ev]\<rparr>)" for w ev
    by (auto simp: filling_def has_temporary_def local_ok_def verified_content_def)
  let ?R = "\<lambda>c w. ?S c w \<and> Readback src (sha c) (length c) \<in> set (trace w)"
  have publish: "triple (?R c) (publish_download input t d) (\<lambda>_. published sha F d t src keep c) ?X" for c
    by (rule triple_publish_download [OF assms])
  have finish: "triple (published sha F d t src keep c) report_progress ?Q ?X" if "sha c = first_hash \<and> length c = tot" for c
    by (rule triple_weaken [OF triple_quiet [OF quiet_answers(6) visible_stages(2) sub(3)]]) (use that in auto)
  have tail: "triple (?R c)
      (bindM local_step (\<lambda>_. bindM (bindM local_step (\<lambda>_. set_open False)) (\<lambda>_. bindM check (\<lambda>_. bindM report_progress (\<lambda>_.
       bindM (require_remote_file src) (\<lambda>_. bindM (publish_download input t d) (\<lambda>_. report_progress)))))))
      ?Q ?X" if "sha c = first_hash \<and> length c = tot" for c
  proof -
    note silent = triple_quiet [where P = "?R c" and X = ?X, OF _ visible_trace [OF visible_stages(1)]]
    show ?thesis
      by (intro triple_bind [OF silent] triple_bind [OF publish] finish [OF that] quiet_rules) (auto simp: sub)
  qed
  let ?T = "\<lambda>c w. ?S c w \<and> Readback src first_hash tot \<in> set (trace w)"
  have compare: "triple (?T c)
      (bindM (hash_range sha (read_temporary t) (readM (\<lambda>w. length (content_of t w))) 0 tot tot) (\<lambda>h3. bindM (guardM (h3 = first_hash) ''TRANSFER_HASH'') (\<lambda>_.
       bindM local_step (\<lambda>_. bindM (bindM local_step (\<lambda>_. set_open False)) (\<lambda>_. bindM check (\<lambda>_. bindM report_progress (\<lambda>_.
       bindM (require_remote_file src) (\<lambda>_. bindM (publish_download input t d) (\<lambda>_. report_progress)))))))))
      ?Q ?X" for c
  proof -
    note hash = triple_hash_temporary [where sha = sha and F = F and d = d and t = t and src = src and keep = keep and c = c and first_hash = first_hash and tot = tot]
    show ?thesis
    proof (rule triple_bind [OF hash], rule triple_fact, rule triple_bind [OF guard], erule conjE, erule sub(2), rule triple_fact)
      fix h u assume "h = sha c \<and> length c = tot" "h = first_hash"
      then have c: "sha c = first_hash \<and> length c = tot" by simp
      show "triple (?T c) (bindM local_step (\<lambda>_. bindM (bindM local_step (\<lambda>_. set_open False)) (\<lambda>_. bindM check (\<lambda>_. bindM report_progress (\<lambda>_.
         bindM (require_remote_file src) (\<lambda>_. bindM (publish_download input t d) (\<lambda>_. report_progress))))))) ?Q ?X"
        using tail [OF c] c by simp
    qed
  qed
  have known: "triple (\<lambda>w. ?F w \<and> Readback src first_hash tot \<in> set (trace w)) body ?Q ?X" if "\<And>c. triple (?T c) body ?Q ?X" for body :: "unit io"
  proof -
    have "(\<lambda>w. ?F w \<and> Readback src first_hash tot \<in> set (trace w)) = (\<lambda>w. \<exists>c. ?T c w)"
      by (rule ext) (simp add: filling_staged)
    then show ?thesis using triple_ex [OF that] by simp
  qed
  have second: "triple (\<lambda>w. ?F w \<and> Readback src (snd p) (fst p) \<in> set (trace w)) (bindM (guardM (snd p = first_hash) ''TRANSFER_HASH'') (\<lambda>_. body)) ?Q ?X"
    if "\<And>c. triple (?T c) body ?Q ?X" "Some tot = None \<or> Some tot = Some (fst p)" for body :: "unit io" and p :: "nat \<times> jsstr"
  proof (rule triple_bind [OF guard], simp add: sub, rule triple_fact)
    assume "snd p = first_hash"
    then show "triple (\<lambda>w. ?F w \<and> Readback src (snd p) (fst p) \<in> set (trace w)) body ?Q ?X"
      using known [OF that(1)] that(2) by simp
  qed
  have first: "triple ?F (remote_hash sha m src (Some t) (Some tot)) (\<lambda>_. ?F) ?X"
    by (rule triple_keeps [OF keeps_remote_hash [OF assms(1)]]) (simp_all add: sub)
  note silent = triple_quiet [OF _ visible_filling sub(1)]
  have again: "triple ?F (bindM (remote_hash sha m src None (Some tot)) (\<lambda>p. bindM (guardM (snd p = first_hash) ''TRANSFER_HASH'') (\<lambda>_. body))) ?Q ?X"
    if "\<And>c. triple (?T c) body ?Q ?X" for body :: "unit io"
    by (rule triple_bind [OF triple_readback [OF visible_filling logged sub(1)]], assumption, assumption, rule triple_fact, rule second [OF that])
  show ?thesis
    unfolding fill_temporary_def case_prod_beta
    by (rule triple_bind [OF silent], rule quiet_answers, assumption, rule triple_bind [OF first], rule triple_bind [OF triple_quiet [OF quiet_guard visible_filling sub(1)]], assumption,
        rule triple_bind [OF silent], rule quiet_answers, assumption, rule again, rule compare)
qed

text \<open>The whole body: a failure leaves the local invariant, a success the published file.\<close>

lemma triple_create:
  assumes "t \<noteq> d"
  shows "triple (\<lambda>w. local_ok sha F d t src keep w \<and> temporary w = Some t) (create_temporary t) (\<lambda>_. filling sha F d t src keep)
     (local_ok sha F d t src keep)"
proof -
  let ?P = "\<lambda>w. local_ok sha F d t src keep w \<and> temporary w = Some t"
  have v: "visible ?P" by (rule visible_and [OF visible_local visible_observed(1)])
  have "triple ?P (bindM (readM files) (\<lambda>fs. if fs t \<noteq> None then throwM ''EEXIST''
      else bindM (modifyM (\<lambda>w. w\<lparr>files := (files w)(t := Some (Regular []))\<rparr>)) (\<lambda>_. set_open True)))
      (\<lambda>_. filling sha F d t src keep) (local_ok sha F d t src keep)"
    using assms
    by (auto simp: triple_def act_combinators set_open_def filling_def has_temporary_def local_ok_def verified_content_def)
  then show ?thesis
    unfolding create_temporary_def
    by (intro triple_bind [OF triple_quiet [OF quiet_answers(5) v]]) simp
qed

lemma triple_start:
  "triple (local_ok sha F d t src keep) (download_start sha m input src d) (\<lambda>_. local_ok sha F d t src keep) (local_ok sha F d t src keep)"
proof -
  have pre: "quiet (local_preflight d overwrite)" for overwrite
  proof -
    have "quiet ((case f of Regular bs \<Rightarrow> retM () | Unusual \<Rightarrow> throwM ''TRANSFER_DIRECTORY'') :: unit io)" for f
      by (cases f) (simp_all add: quiet_rules)
    then show ?thesis unfolding local_preflight_def by (intro quiet_rules)
  qed
  have hash: "triple (local_ok sha F d t src keep) (remote_hash sha m src None None) (\<lambda>_. local_ok sha F d t src keep) (local_ok sha F d t src keep)"
    by (rule triple_weaken [OF triple_readback [where P = "local_ok sha F d t src keep"]]) (auto simp: local_ok_def verified_content_def)
  note silent = triple_quiet [where P = "local_ok sha F d t src keep", OF _ visible_local]
  show ?thesis
    unfolding download_start_def
    by (rule triple_bind [OF silent [OF pre]], assumption, rule triple_bind [OF silent [OF quiet_answers(6)]], assumption, rule hash)
qed

lemma triple_download:
  assumes "remote_path (i_remote input) = Inr src" and "checked_path (i_local input) = Inr p"
    and "d = resolve p" and "t = temporary_beside d" and "t \<noteq> d" and keep: "keep = (\<not> i_overwrite input)"
  shows "triple (local_ok sha F d t src keep) (download_body sha m resolve temporary_beside input)
     (\<lambda>x w. \<exists>c. published sha F d t src keep c w \<and> (sha c = x_sha x \<and> length c = x_bytes x)) (local_ok sha F d t src keep)"
proof -
  have last: "triple (filling sha F d t src keep)
      (bindM (fill_temporary sha m input src d t tot first_hash) (\<lambda>_. retM \<lparr>x_bytes = tot, x_sha = first_hash, x_mode = ''single'', x_retained = False\<rparr>))
      (\<lambda>x w. \<exists>c. published sha F d t src keep c w \<and> (sha c = x_sha x \<and> length c = x_bytes x)) (local_ok sha F d t src keep)" for tot first_hash
    by (rule triple_bind [OF triple_fill [OF assms(5) keep]]) (auto intro!: triple_ret)
  have note_name: "triple (local_ok sha F d t src keep) (modifyM (\<lambda>w. w\<lparr>temporary := Some t\<rparr>))
      (\<lambda>_ w. local_ok sha F d t src keep w \<and> temporary w = Some t) (local_ok sha F d t src keep)"
    by (rule triple_modify) (auto simp: local_ok_def verified_content_def)
  have lift: "bindM (liftR (Inr a)) f = f a" for a and f :: "'c \<Rightarrow> 'b io"
    by (rule ext) (simp add: bindM_def liftR_def)
  show ?thesis
    unfolding download_body_def assms(1,2) lift Let_def case_prod_beta assms(3,4) [symmetric]
    by (rule triple_bind [OF triple_start], rule triple_bind [OF note_name], rule triple_bind [OF triple_create [OF assms(5)]], rule last)
qed

text \<open>The \<open>finally\<close> block touches no name but that of the temporary file.\<close>

lemma clean_up_keeps:
  assumes "t \<noteq> d" and "local_ok sha F d t src keep w1" and "clean_up r w1 = (r', w)"
  shows "local_ok sha F d t src keep w" and "files w d = files w1 d"
    and "r' = Inr x \<Longrightarrow> r = Inr x \<and> (temporary w1 = Some t \<longrightarrow> files w t = None)"
proof -
  obtain c w2 where close: "close_handle w1 = (c, w2)" by fastforce
  have core: "core w2 = core w1" by (rule quiet_core [OF quiet_more(3) close])
  obtain u w3 where unlink: "unlink_temporary w2 = (u, w3)" by fastforce
  have out: "w = w3" "\<And>x. r' = Inr x \<Longrightarrow> r = Inr x \<and> (\<exists>y. u = Inr y)"
    using assms(3) close unlink by (auto simp: clean_up_def split: sum.splits)
  have ok: "local_ok sha F d t src keep w2" using assms(2) by (simp add: visibleD [OF visible_local core])
  have remove: "local_ok sha F d t src keep w3 \<and> files w3 d = files w2 d \<and> (\<forall>y. u = Inr y \<longrightarrow> temporary w2 = Some t \<longrightarrow> files w3 t = None)"
  proof (cases "temporary w2")
    case None
    then show ?thesis using unlink ok by (auto simp: unlink_temporary_def act_combinators)
  next
    case (Some name)
    then have name: "name = t" using ok by (simp add: local_ok_def)
    obtain q w4 where tried: "tryM local_step (\<lambda>e. if e = ''ENOENT'' then retM () else throwM e) w2 = (q, w4)" by fastforce
    have "quiet (tryM local_step (\<lambda>e. if e = ''ENOENT'' then retM () else throwM e))" by (intro quiet_rules)
    from quiet_core [OF this tried] have core4: "core w4 = core w2" .
    have ok4: "local_ok sha F d t src keep w4" using ok by (simp add: visibleD [OF visible_local core4])
    have "(u, w3) = (case q of Inl e \<Rightarrow> (Inl e, w4) | Inr _ \<Rightarrow> (Inr (), w4\<lparr>files := (files w4)(t := None)\<rparr>))"
      using unlink Some name tried by (cases q) (auto simp: unlink_temporary_def bindM_def readM_def modifyM_def)
    moreover have "local_ok sha F d t src keep (w4\<lparr>files := (files w4)(t := None)\<rparr>)"
      using ok4 assms(1) by (simp add: local_ok_def verified_content_def)
    moreover have "files w4 d = files w2 d" using core4 by (simp add: core_def)
    ultimately show ?thesis using ok4 assms(1) by (cases q) simp_all
  qed
  show "local_ok sha F d t src keep w" "files w d = files w1 d" using remove core out by (simp_all add: core_def)
  show "r' = Inr x \<Longrightarrow> r = Inr x \<and> (temporary w1 = Some t \<longrightarrow> files w t = None)"
    using remove core out by (auto simp: core_def)
qed

lemma download_caught_outcome:
  assumes "remote_path (i_remote input) = Inr src" and "checked_path (i_local input) = Inr p"
    and "d = resolve p" and "t = temporary_beside d" and "t \<noteq> d" and "trace w0 = []"
    and keep: "keep = (\<not> i_overwrite input)" and run: "download_caught sha m resolve temporary_beside input w0 = (r, w)"
  shows "local_ok sha (files w0) d t src keep w"
    and "r = Inr x \<Longrightarrow> \<exists>c. published sha (files w0) d t src keep c w \<and> sha c = x_sha x \<and> length c = x_bytes x"
proof -
  let ?w = "w0\<lparr>temporary := None, handle_open := False\<rparr>" and ?L = "local_ok sha (files w0) d t src keep"
  have "?L ?w" by (simp add: local_ok_def)
  note body = triple_download [where resolve = resolve and temporary_beside = temporary_beside and input = input, OF assms(1-5) keep, unfolded triple_def, THEN spec, THEN mp, OF this, of m]
  obtain r1 w1 where r1: "download_body sha m resolve temporary_beside input ?w = (r1, w1)" by fastforce
  have "?L w \<and> (r = Inr x \<longrightarrow> (\<exists>c. published sha (files w0) d t src keep c w \<and> sha c = x_sha x \<and> length c = x_bytes x))"
  proof (cases r1)
    case (Inr y)
    then show ?thesis using body r1 run by (auto simp: download_caught_def published_def)
  next
    case (Inl e)
    obtain r2 w2 where fe: "final_error e w1 = (r2, w2)" by fastforce
    have core: "core w2 = core w1" by (rule quiet_core [OF quiet_more(4) fe])
    have "?L w2" using body r1 Inl visibleD [OF visible_local core] by simp
    then show ?thesis using run r1 Inl fe by (auto simp: download_caught_def split: sum.splits)
  qed
  then show "?L w" "r = Inr x \<Longrightarrow> \<exists>c. published sha (files w0) d t src keep c w \<and> sha c = x_sha x \<and> length c = x_bytes x" by simp_all
qed

text \<open>Claim C29: a download changes no local file but the destination and its own temporary file.  The destination keeps
  its content or holds content whose digest and size a complete pass over the remote file has given,
  also when the download fails, is cancelled or times out; without permission to overwrite an existing
  destination keeps its content.  A successful download has put there content with the digest
  and size that it reports, and its temporary file is gone.\<close>

theorem download_publishes_verified:
  assumes "remote_path (i_remote input) = Inr src" and "checked_path (i_local input) = Inr p"
    and "d = resolve p" and "t = temporary_beside d" and "t \<noteq> d" and "trace w0 = []"
    and "download_file sha resolve temporary_beside input w0 = (r, w)"
  shows "(\<forall>n. n \<noteq> d \<and> n \<noteq> t \<longrightarrow> files w n = files w0 n)
    \<and> (files w d = files w0 d \<or> (\<exists>bs. files w d = Some (Regular bs) \<and> Readback src (sha bs) (length bs) \<in> set (trace w)))
    \<and> (\<not> i_overwrite input \<and> files w0 d \<noteq> None \<longrightarrow> files w d = files w0 d)
    \<and> (case r of
         Inr x \<Rightarrow> (\<exists>bs. files w d = Some (Regular bs) \<and> sha bs = x_sha x \<and> length bs = x_bytes x) \<and> files w t = None
       | Inl _ \<Rightarrow> True)"
proof (cases "scope_for input (JNum MAX_BYTES)")
  case (Inl e)
  then show ?thesis using assms(7) by (auto simp: download_file_def)
next
  case (Inr m)
  let ?L = "local_ok sha (files w0) d t src (\<not> i_overwrite input)"
  obtain r1 w1 where caught: "download_caught sha m resolve temporary_beside input w0 = (r1, w1)" by fastforce
  then have clean: "clean_up r1 w1 = (r, w)" using assms(7) Inr by (simp add: download_file_def)
  note outcome = download_caught_outcome [where resolve = resolve and temporary_beside = temporary_beside and input = input, OF assms(1-6) refl caught]
  note cleaned = clean_up_keeps [OF assms(5) outcome(1) clean]
  have "case r of Inr x \<Rightarrow> (\<exists>bs. files w d = Some (Regular bs) \<and> sha bs = x_sha x \<and> length bs = x_bytes x) \<and> files w t = None | Inl _ \<Rightarrow> True"
  proof (cases r)
    case (Inr x)
    then have "r1 = Inr x" using cleaned(3) by blast
    then obtain c where "published sha (files w0) d t src (\<not> i_overwrite input) c w1" "sha c = x_sha x" "length c = x_bytes x"
      using outcome(2) by blast
    then show ?thesis using Inr cleaned(2,3) by (auto simp: published_def)
  qed simp
  then show ?thesis using cleaned(1) unfolding local_ok_def verified_content_def by blast
qed

section \<open>Witnesses\<close>

definition example_sha :: "byte list \<Rightarrow> jsstr" where
  "example_sha bs = js ''h'' @ bs"

definition example_world :: world where
  "example_world = \<lparr>w_checks = [], w_progress = [], w_lists = [], w_streams = [], w_inits = [], w_calls = [], w_local = [], w_reads = [],
     w_sizes = [], w_amounts = [], w_stat = (True, JNum 1), files = (\<lambda>_. None), temporary = None, handle_open = False,
     retained = False, maybe_changed = False, trace = []\<rparr>"

definition example_entry :: "string \<Rightarrow> entry" where
  "example_entry name = \<lparr>n_name = js name, n_type = js ''FILE'', n_mode = JNum 33188\<rparr>"

definition example_input :: xinput where
  "example_input = \<lparr>i_remote = JStr (js ''/d''), i_local = JStr (js ''/l''), i_overwrite = False, i_in_place = False,
     i_max = JUndef, i_timeout = JUndef, i_uuid = js ''u''\<rparr>"

text \<open>One byte is uploaded, read back and moved into place.\<close>

definition upload_world :: world where
  "upload_world = example_world\<lparr>
     w_reads := [Inr [7], Inr [7], Inr [7], Inr [7]], w_sizes := [Inr 1, Inr 1, Inr 1],
     w_calls := [(1, ''PORTAL_NETWORK'', None), (0, ''PORTAL_NETWORK'', None)],
     w_streams := [Inr (JNum 1, [Inr [7]])],
     w_lists := [Inr (Some []), Inr (Some []), Inr (Some [example_entry ''.usshtc107-u.part'']), Inr (Some [example_entry ''.usshtc107-u.part'']),
       Inr (Some []), Inr (Some [example_entry ''.usshtc107-u.part''])]\<rparr>"

lemma upload_publishes_verified_witness:
  "verified_first (js ''/d'') (js ''/.usshtc107-u.part'') (trace (snd (upload_file example_sha (JNum MAX_BYTES) example_input upload_world)))
   \<and> Readback (js ''/.usshtc107-u.part'') (js ''h'' @ [7]) 1 \<in> set (trace (snd (upload_file example_sha (JNum MAX_BYTES) example_input upload_world)))"
proof -
  have inputs: "remote_path (i_remote example_input) = Inr (js ''/d'')"
    "js ''/.usshtc107-u.part'' = posix_join (posix_dirname (js ''/d'')) (js ''.usshtc107-'' @ i_uuid example_input @ js ''.part'')"
    "js ''/.usshtc107-u.part'' \<noteq> js ''/d''" "trace upload_world = []"
    by code_simp+
  have outcome: "(case fst (upload_file example_sha (JNum MAX_BYTES) example_input upload_world) of Inr x \<Rightarrow> x_sha x = js ''h'' @ [7] \<and> x_bytes x = 1 | _ \<Rightarrow> False)"
    by code_simp
  show ?thesis
    using upload_publishes_verified [where sha = example_sha and allowed = "JNum MAX_BYTES", OF inputs surjective_pairing] outcome by (auto split: sum.splits)
qed

text \<open>The same byte is downloaded.\<close>

definition download_world :: world where
  "download_world = example_world\<lparr>
     w_streams := [Inr (JNum 1, [Inr [7]]), Inr (JNum 1, [Inr [7]]), Inr (JNull, [Inr [], Inr [7]])],
     w_lists := replicate 7 (Inr (Some [example_entry ''d'']))\<rparr>"

lemma download_publishes_verified_witness:
  "\<exists>bs. files (snd (download_file example_sha (\<lambda>p. p) (\<lambda>d. d @ js ''.part'') example_input download_world)) (js ''/l'') = Some (Regular bs)
     \<and> example_sha bs = js ''h'' @ [7] \<and> length bs = 1"
proof -
  have inputs: "remote_path (i_remote example_input) = Inr (js ''/d'')" "checked_path (i_local example_input) = Inr (js ''/l'')"
    "js ''/l.part'' \<noteq> js ''/l''" "trace download_world = []" "js ''/l.part'' = js ''/l'' @ js ''.part''"
    by code_simp+
  have outcome: "(case fst (download_file example_sha (\<lambda>p. p) (\<lambda>d. d @ js ''.part'') example_input download_world) of
      Inr x \<Rightarrow> x_sha x = js ''h'' @ [7] \<and> x_bytes x = 1 | _ \<Rightarrow> False)"
    by code_simp
  show ?thesis
    using download_publishes_verified [where sha = example_sha and resolve = "\<lambda>p. p" and temporary_beside = "\<lambda>d. d @ js ''.part''",
      OF inputs(1,2) refl inputs(5,3,4) surjective_pairing] outcome by (auto split: sum.splits)
qed

end
