(* ===== verification/SshConfig.thy ===== *)
theory SshConfig
  imports SettingsSchema Json JsBuffer
begin

text \<open>
  \<^verbatim>\<open>electron/ssh-config-service.js\<close>: one managed block at the head of the user's OpenSSH client
  configuration.  The file is bytes; everything outside the block is the user's and is kept byte for
  byte.

  \<^item> \<open>raw_lines\<close> cuts the bytes after every line feed; the loop of \<open>unmanagedBytes\<close> runs over these
    lines with the offset of each.
  \<^item> The digest is a parameter, as in the other stores.
  \<^item> The file system is the entry of the configuration, the backup, the temporary file of the write that
    is under way, and a script with the outcome of every call in order (\<open>Some code\<close> is a throw, which
    leaves the entries as they were).  \<open>lstat\<close> and \<open>open\<close> of the configuration cannot answer \<open>ENOENT\<close> while
    it is there (\<open>sys_config\<close>); any other call can.  A file that is swapped between \<open>lstat\<close> and \<open>fstat\<close> is the answer \<open>SSH_CONFIG_INVALID\<close> of \<open>fstat\<close>.
\<close>

section \<open>The managed block\<close>

definition BEGIN_MARKER :: jsstr where "BEGIN_MARKER = js ''# BEGIN usshtc107 managed''"
definition END_MARKER :: jsstr where "END_MARKER = js ''# END usshtc107 managed''"
definition UTF8_BOM :: "byte list" where "UTF8_BOM = [239, 187, 191]"

definition quote_ssh_value :: "jsstr \<Rightarrow> jsstr" where
  "quote_ssh_value s = [34] @ concat (map (\<lambda>u. if u = 92 then [92, 92] else if u = 34 then [92, 34] else [u]) s) @ [34]"

record ssh_config =
  sc_alias :: jsval
  sc_host :: jsval
  sc_port :: jsval
  sc_key :: jsval

definition normalize_config :: "ssh_config \<Rightarrow> string + ssh_config" where
  "normalize_config c =
     bindR (parse_token (sc_alias c) 64) (\<lambda>a.
     bindR (parse_host (sc_host c)) (\<lambda>h.
     bindR (parse_integer (sc_port c) 1 65535) (\<lambda>p.
     case sc_key c of
       JStr k \<Rightarrow> if k = [] \<or> CONTROL_CHARACTERS k then Inl ''privateKeyPath is invalid''
                 else Inr \<lparr>sc_alias = a, sc_host = h, sc_port = p, sc_key = JStr k\<rparr>
     | _ \<Rightarrow> Inl ''privateKeyPath is invalid'')))"

text \<open>A template literal of an accepted value.\<close>

definition shown :: "jsval \<Rightarrow> jsstr" where
  "shown v = (case v of JStr s \<Rightarrow> s | JNum n \<Rightarrow> int_text n | _ \<Rightarrow> [])"

definition block_lines :: "ssh_config \<Rightarrow> jsstr list" where
  "block_lines c =
     [BEGIN_MARKER, js ''Host '' @ shown (sc_alias c), js ''  HostName '' @ shown (sc_host c), js ''  Port '' @ shown (sc_port c),
      js ''  User user'', js ''  IdentityFile '' @ quote_ssh_value (shown (sc_key c)), js ''  IdentitiesOnly yes'',
      js ''  StrictHostKeyChecking accept-new'', js ''Host *'', END_MARKER]"

fun join_lines :: "jsstr list \<Rightarrow> jsstr" where
  "join_lines [] = []"
| "join_lines [l] = l"
| "join_lines (l # m # ls) = l @ [10] @ join_lines (m # ls)"

definition build_managed_block :: "ssh_config \<Rightarrow> string + jsstr" where
  "build_managed_block options = bindR (normalize_config options) (\<lambda>c. Inr (join_lines (block_lines c)))"

section \<open>The lines of the user\<close>

definition blank :: "nat \<Rightarrow> bool" where
  "blank u \<longleftrightarrow> u = 9 \<or> u = 32"

definition either_case :: "nat \<Rightarrow> nat" where
  "either_case u = (if 65 \<le> u \<and> u \<le> 90 then u + 32 else u)"

text \<open>What follows \<open>/^[\t ]*Host(?:[\t ]+|[\t ]*=[\t ]*)/i\<close>.\<close>

definition host_arguments :: "jsstr \<Rightarrow> jsstr option" where
  "host_arguments line =
     (let s = dropWhile blank line in
      if map either_case (take 4 s) \<noteq> js ''host'' then None
      else (case drop 4 s of
              [] \<Rightarrow> None
            | u # r \<Rightarrow> if blank u then Some (dropWhile blank r) else if u = 61 then Some (dropWhile blank r) else None))"

fun host_tokens :: "jsstr \<Rightarrow> jsstr \<Rightarrow> bool \<Rightarrow> bool \<Rightarrow> jsstr list option" where
  "host_tokens [] token quoted escaped = (if quoted \<or> escaped then None else Some (if token = [] then [] else [token]))"
| "host_tokens (u # s) token quoted escaped =
     (if escaped then host_tokens s (token @ [u]) quoted False
      else if u = 92 then host_tokens s token quoted True
      else if u = 34 then host_tokens s token (\<not> quoted) False
      else if \<not> quoted \<and> u = 35 then Some (if token = [] then [] else [token])
      else if \<not> quoted \<and> (blank u \<or> u = 13) then
        map_option (\<lambda>ps. (if token = [] then [] else [token]) @ ps) (host_tokens s [] quoted False)
      else host_tokens s (token @ [u]) quoted False)"

definition host_patterns :: "jsstr \<Rightarrow> jsstr list option" where
  "host_patterns line = (case host_arguments line of None \<Rightarrow> Some [] | Some s \<Rightarrow> host_tokens s [] False False)"

text \<open>\<open>toLowerCase\<close>, as far as equality with an ASCII alias can tell: the Kelvin sign is the only other
  character whose lower case is ASCII.\<close>

definition lower_unit :: "nat \<Rightarrow> nat" where
  "lower_unit u = (if u = 8490 then 107 else either_case u)"

definition same_alias :: "jsstr \<Rightarrow> jsstr \<Rightarrow> bool" where
  "same_alias a b \<longleftrightarrow> map lower_unit a = map lower_unit b"

function raw_lines :: "byte list \<Rightarrow> byte list list" where
  "raw_lines [] = []"
| "raw_lines (b # bs) =
     (let line = takeWhile (\<lambda>u. u \<noteq> 10) (b # bs); rest = dropWhile (\<lambda>u. u \<noteq> 10) (b # bs) in
      case rest of [] \<Rightarrow> [line] | nl # r \<Rightarrow> (line @ [nl]) # raw_lines r)"
  by pat_completeness auto
termination raw_lines
proof (relation "measure length", simp)
  fix b :: nat and bs line rest nl r assume "rest = dropWhile (\<lambda>u. u \<noteq> 10) (b # bs)" "rest = nl # r"
  then have "length (nl # r) \<le> length (b # bs)" using length_dropWhile_le by metis
  then show "(r, b # bs) \<in> measure length" by simp
qed

definition line_text :: "byte list \<Rightarrow> jsstr" where
  "line_text raw = utf8_lossy (takeWhile (\<lambda>u. u \<noteq> 10) raw)"

primrec scan_lines :: "jsstr \<Rightarrow> nat \<Rightarrow> byte list list \<Rightarrow> nat option \<Rightarrow> (nat \<times> nat) option \<Rightarrow> string + (nat \<times> nat) option" where
  "scan_lines alias offset [] begun owned = (if begun \<noteq> None then Inl ''SSH_CONFIG_INVALID'' else Inr owned)"
| "scan_lines alias offset (raw # raws) begun owned =
     (let after = offset + length raw; line = line_text raw; marker = js_trim line in
      if marker = BEGIN_MARKER then
        if begun \<noteq> None \<or> owned \<noteq> None then Inl ''SSH_CONFIG_INVALID'' else scan_lines alias after raws (Some offset) owned
      else if marker = END_MARKER then
        (case begun of None \<Rightarrow> Inl ''SSH_CONFIG_INVALID'' | Some b \<Rightarrow> scan_lines alias after raws None (Some (b, after)))
      else if begun \<noteq> None then scan_lines alias after raws begun owned
      else (case host_patterns line of
              None \<Rightarrow> Inl ''SSH_CONFIG_INVALID''
            | Some ps \<Rightarrow> if list_ex (\<lambda>p. same_alias p alias) ps then Inl ''SSH_ALIAS_CONFLICT''
                         else scan_lines alias after raws begun owned))"

record unmanaged =
  um_bom :: "byte list"
  um_content :: "byte list"
  um_managed :: bool

definition unmanaged_bytes :: "byte list \<Rightarrow> jsstr \<Rightarrow> string + unmanaged" where
  "unmanaged_bytes source alias =
     (if utf8_decode source = None then Inl ''SSH_CONFIG_INVALID''
      else
        (let n = (if take 3 source = UTF8_BOM then 3 else 0) in
         bindR (scan_lines alias n (raw_lines (drop n source)) None None) (\<lambda>owned.
           Inr \<lparr>um_bom = take n source,
                um_content = (case owned of Some (a, b) \<Rightarrow> drop n (take a source) @ drop b source | None \<Rightarrow> drop n source),
                um_managed = (owned \<noteq> None)\<rparr>)))"

section \<open>The service\<close>

record preview =
  pv_block :: jsstr
  pv_content :: "byte list"
  pv_changed :: bool
  pv_source_hash :: jsstr
  pv_config_hash :: jsstr

text \<open>\<open>JSON.stringify\<close> of a flat array.\<close>

definition json_item :: "jsval \<Rightarrow> jsstr" where
  "json_item v = (case v of JStr s \<Rightarrow> json_quote s | JNum n \<Rightarrow> int_text n | _ \<Rightarrow> js ''null'')"

fun joined :: "jsstr list \<Rightarrow> jsstr" where
  "joined [] = []"
| "joined [x] = x"
| "joined (x # y # xs) = x @ [44] @ joined (y # xs)"

definition config_key :: "jsval \<Rightarrow> ssh_config \<Rightarrow> jsstr" where
  "config_key profile c = [91] @ joined (map json_item [profile, sc_alias c, sc_host c, sc_port c, sc_key c]) @ [93]"

definition preview_of :: "(byte list \<Rightarrow> jsstr) \<Rightarrow> jsval \<Rightarrow> jsval \<Rightarrow> byte list \<Rightarrow> string + preview" where
  "preview_of sha options key source =
     bindR (parse_token (getProp options (js ''profileId'')) 128) (\<lambda>profile.
     bindR (normalize_config \<lparr>sc_alias = getProp options (js ''alias''), sc_host = getProp options (js ''host''),
              sc_port = getProp options (js ''port''), sc_key = key\<rparr>) (\<lambda>c.
     bindR (build_managed_block c) (\<lambda>block.
     bindR (unmanaged_bytes source (shown (sc_alias c))) (\<lambda>u.
     let content = um_bom u @ utf8 (block @ [10]) @ um_content u in
     Inr \<lparr>pv_block = block, pv_content = content, pv_changed = (source \<noteq> content), pv_source_hash = sha source,
          pv_config_hash = sha (utf8 (config_key profile c))\<rparr>))))"

datatype entry_kind = Absent | Content "byte list" | OtherEntry

record ssh_dir =
  sd_config :: entry_kind
  sd_backup :: "byte list option"
  sd_temp :: "byte list option"
  sd_open :: bool
  sd_script :: "string option list"

type_synonym 'a sdio = "(ssh_dir, string, 'a) act"

text \<open>One call of the file system that changes nothing itself, and one that does when it succeeds.\<close>

definition sys :: "unit sdio" where
  "sys = bindM (readM sd_script) (\<lambda>xs. bindM (modifyM (\<lambda>d. d\<lparr>sd_script := tl xs\<rparr>)) (\<lambda>_.
     case xs of Some e # _ \<Rightarrow> throwM e | _ \<Rightarrow> retM ()))"

definition sys_do :: "(ssh_dir \<Rightarrow> ssh_dir) \<Rightarrow> unit sdio" where
  "sys_do f = bindM sys (\<lambda>_. modifyM f)"

definition ignoring :: "unit sdio \<Rightarrow> unit sdio" where
  "ignoring m = tryM m (\<lambda>_. retM ())"

definition unsafe_link :: "string \<Rightarrow> string" where
  "unsafe_link e = (if e = ''ELOOP'' then ''SSH_CONFIG_INVALID'' else e)"

text \<open>A call that looks the configuration up: \<open>ENOENT\<close> is not an outcome it has while the entry is there.\<close>

definition sys_config :: "unit sdio" where
  "sys_config = bindM (readM sd_config) (\<lambda>e.
     tryM sys (\<lambda>code. if code = ''ENOENT'' \<and> e \<noteq> Absent then retM () else throwM code))"

definition find_source :: "byte list option sdio" where
  "find_source =
     tryM (bindM sys_config (\<lambda>_. bindM (readM sd_config) (\<lambda>e.
             case e of
               Absent \<Rightarrow> throwM ''ENOENT''
             | OtherEntry \<Rightarrow> throwM ''SSH_CONFIG_INVALID''
             | Content bs \<Rightarrow> bindM sys_config (\<lambda>_. retM (Some bs)))))
          (\<lambda>e. if e = ''ENOENT'' then retM None else throwM (unsafe_link e))"

definition read_source_file :: "byte list option sdio" where
  "read_source_file = bindM find_source (\<lambda>found.
     case found of
       None \<Rightarrow> retM None
     | Some bs \<Rightarrow> finallyM (tryM (bindM sys (\<lambda>_. bindM sys (\<lambda>_. retM (Some bs)))) (\<lambda>e. throwM (unsafe_link e))) sys)"

definition write_temporary :: "byte list \<Rightarrow> unit sdio" where
  "write_temporary content =
     bindM (sys_do (\<lambda>d. d\<lparr>sd_temp := Some [], sd_open := True\<rparr>)) (\<lambda>_.
     bindM (sys_do (\<lambda>d. d\<lparr>sd_temp := Some content\<rparr>)) (\<lambda>_.
     bindM sys (\<lambda>_. bindM sys (\<lambda>_. sys_do (\<lambda>d. d\<lparr>sd_open := False\<rparr>)))))"

definition sync_parent :: "bool \<Rightarrow> unit sdio" where
  "sync_parent windows = (if windows then retM () else bindM sys (\<lambda>_. finallyM sys sys))"

definition atomic_write_bytes :: "bool \<Rightarrow> (byte list \<Rightarrow> ssh_dir \<Rightarrow> ssh_dir) \<Rightarrow> byte list \<Rightarrow> unit sdio" where
  "atomic_write_bytes windows put content =
     tryM (bindM (write_temporary content) (\<lambda>_.
           bindM (sys_do (\<lambda>d. put content (d\<lparr>sd_temp := None\<rparr>))) (\<lambda>_. sync_parent windows)))
          (\<lambda>e. bindM (readM sd_open) (\<lambda>b. bindM (if b then ignoring (sys_do (\<lambda>d. d\<lparr>sd_open := False\<rparr>)) else retM ()) (\<lambda>_.
               bindM (ignoring (sys_do (\<lambda>d. d\<lparr>sd_temp := None\<rparr>))) (\<lambda>_. throwM e))))"

definition put_config :: "byte list \<Rightarrow> ssh_dir \<Rightarrow> ssh_dir" where
  "put_config bs d = d\<lparr>sd_config := Content bs\<rparr>"

definition put_backup :: "byte list \<Rightarrow> ssh_dir \<Rightarrow> ssh_dir" where
  "put_backup bs d = d\<lparr>sd_backup := Some bs\<rparr>"

definition source_bytes :: "byte list option \<Rightarrow> byte list" where
  "source_bytes found = (case found of None \<Rightarrow> [] | Some bs \<Rightarrow> bs)"

definition preview_config :: "(byte list \<Rightarrow> jsstr) \<Rightarrow> jsval \<Rightarrow> jsval \<Rightarrow> preview sdio" where
  "preview_config sha options key = bindM read_source_file (\<lambda>found. liftR (preview_of sha options key (source_bytes found)))"

definition inspect_config :: "(byte list \<Rightarrow> jsstr) \<Rightarrow> jsval \<Rightarrow> jsval \<Rightarrow> string sdio" where
  "inspect_config sha options key =
     bindM read_source_file (\<lambda>found.
     bindM (liftR (preview_of sha options key (source_bytes found))) (\<lambda>p.
     bindM (liftR (normalize_config \<lparr>sc_alias = getProp options (js ''alias''), sc_host = getProp options (js ''host''),
              sc_port = getProp options (js ''port''), sc_key = key\<rparr>)) (\<lambda>c.
     bindM (liftR (unmanaged_bytes (source_bytes found) (shown (sc_alias c)))) (\<lambda>u.
     retM (if found = None \<or> \<not> um_managed u then ''SSH_CONFIG_MISSING''
           else if pv_changed p then ''SSH_CONFIG_MISMATCH'' else ''SSH_CONFIG_OK'')))))"

text \<open>The result of \<open>write\<close>: the preview and whether a backup was made.\<close>

definition write_config ::
  "(byte list \<Rightarrow> jsstr) \<Rightarrow> bool \<Rightarrow> jsval \<Rightarrow> jsval \<Rightarrow> jsval \<Rightarrow> jsval \<Rightarrow> (preview \<times> bool) sdio" where
  "write_config sha windows key options expected_source expected_config =
     (case (expected_source, expected_config) of
        (JStr es, JStr ec) \<Rightarrow>
          bindM read_source_file (\<lambda>found.
          bindM (liftR (preview_of sha options key (source_bytes found))) (\<lambda>p.
          bindM (guardM (pv_source_hash p = es \<and> pv_config_hash p = ec) ''SSH_CONFIG_CHANGED'') (\<lambda>_.
          if \<not> pv_changed p then retM (p, False)
          else
            bindM sys (\<lambda>_.
            bindM (if found = None then retM () else atomic_write_bytes windows put_backup (source_bytes found)) (\<lambda>_.
            bindM (atomic_write_bytes windows put_config (pv_content p)) (\<lambda>_.
            retM (p, found \<noteq> None)))))))
      | _ \<Rightarrow> throwM ''SSH_CONFIG_CHANGED'')"

end
