(* ===== verification/SshConfigStable.thy ===== *)
theory SshConfigStable
  imports SshConfig
begin

text \<open>
  What the rewriting of the OpenSSH configuration keeps: the bytes of the user survive, a second rewriting
  changes nothing, and a failing write leaves the old file or the new one.
\<close>

section \<open>Lines\<close>

definition whole_line :: "byte list \<Rightarrow> bool" where
  "whole_line l \<longleftrightarrow> (\<exists>b. l = b @ [10] \<and> 10 \<notin> set b)"

fun is_lines :: "byte list list \<Rightarrow> bool" where
  "is_lines [] = True"
| "is_lines [l] = (whole_line l \<or> l \<noteq> [] \<and> 10 \<notin> set l)"
| "is_lines (l # m # ls) = (whole_line l \<and> is_lines (m # ls))"

lemma before_feed: "10 \<notin> set b \<Longrightarrow> takeWhile (\<lambda>u. u \<noteq> (10::nat)) (b @ 10 # r) = b"
  "10 \<notin> set b \<Longrightarrow> dropWhile (\<lambda>u. u \<noteq> (10::nat)) (b @ 10 # r) = 10 # r"
  "10 \<notin> set b \<Longrightarrow> takeWhile (\<lambda>u. u \<noteq> (10::nat)) b = b" "10 \<notin> set b \<Longrightarrow> dropWhile (\<lambda>u. u \<noteq> (10::nat)) b = []"
  by (induction b) auto

lemma raw_lines_whole: "10 \<notin> set b \<Longrightarrow> raw_lines (b @ 10 # r) = (b @ [10]) # raw_lines r"
  by (cases b) (simp_all add: Let_def before_feed)

lemma raw_lines_last: "10 \<notin> set b \<Longrightarrow> b \<noteq> [] \<Longrightarrow> raw_lines b = [b]"
  by (cases b) (simp_all add: Let_def before_feed)

declare raw_lines.simps(2) [simp del]

lemma lines_induct [case_names Nil Last Whole]:
  assumes "P []" and "\<And>b. 10 \<notin> set b \<Longrightarrow> b \<noteq> [] \<Longrightarrow> P b" and "\<And>b r. 10 \<notin> set b \<Longrightarrow> P r \<Longrightarrow> P (b @ 10 # r)"
  shows "P (s :: nat list)"
proof (induction s rule: length_induct)
  case (1 s)
  show ?case
  proof (cases "10 \<in> set s")
    case True
    then obtain b r where "s = b @ 10 # r" "10 \<notin> set b" by (metis split_list_first)
    then show ?thesis using 1 assms(3) by simp
  next
    case False
    then show ?thesis using assms(1,2) by (cases "s = []") auto
  qed
qed

lemma concat_raw_lines [simp]: "concat (raw_lines s) = s"
  by (induction s rule: lines_induct) (simp_all add: raw_lines_whole raw_lines_last)

lemma is_lines_Cons: "whole_line l \<Longrightarrow> is_lines ls \<Longrightarrow> is_lines (l # ls)"
  by (cases ls) auto

lemma is_lines_raw [simp]: "is_lines (raw_lines s)"
  by (induction s rule: lines_induct) (auto simp: raw_lines_whole raw_lines_last whole_line_def intro!: is_lines_Cons)

lemma raw_lines_concat: "is_lines ls \<Longrightarrow> raw_lines (concat ls) = ls"
proof (induction ls rule: is_lines.induct)
  case (2 l)
  then show ?case by (auto simp: whole_line_def raw_lines_whole raw_lines_last)
next
  case (3 l m ls)
  then show ?case by (auto simp: whole_line_def raw_lines_whole)
qed simp

lemma is_lines_append: "is_lines (xs @ ys) \<Longrightarrow> is_lines xs \<and> is_lines ys"
proof (induction xs)
  case (Cons x xs)
  then show ?case by (cases xs; cases ys) auto
qed simp

lemma is_lines_whole: "is_lines (xs @ y # ys) \<Longrightarrow> list_all whole_line xs"
proof (induction xs)
  case (Cons x xs)
  then show ?case by (cases xs) auto
qed simp

lemma is_lines_glue: "list_all whole_line xs \<Longrightarrow> is_lines ys \<Longrightarrow> is_lines (xs @ ys)"
  by (induction xs) (auto intro: is_lines_Cons)

section \<open>Scanning\<close>

definition plain_line :: "jsstr \<Rightarrow> byte list \<Rightarrow> bool" where
  "plain_line alias raw \<longleftrightarrow> js_trim (line_text raw) \<noteq> BEGIN_MARKER \<and> js_trim (line_text raw) \<noteq> END_MARKER
     \<and> (case host_patterns (line_text raw) of None \<Rightarrow> False | Some ps \<Rightarrow> \<not> list_ex (\<lambda>p. same_alias p alias) ps)"

definition inner_line :: "byte list \<Rightarrow> bool" where
  "inner_line raw \<longleftrightarrow> js_trim (line_text raw) \<noteq> BEGIN_MARKER \<and> js_trim (line_text raw) \<noteq> END_MARKER"

lemma markers_differ [simp]: "BEGIN_MARKER \<noteq> END_MARKER" "END_MARKER \<noteq> BEGIN_MARKER"
  by (simp_all add: BEGIN_MARKER_def END_MARKER_def)

lemma scan_plain: "list_all (plain_line alias) ls \<Longrightarrow> scan_lines alias n (ls @ ls') None owned = scan_lines alias (n + length (concat ls)) ls' None owned"
  by (induction ls arbitrary: n) (auto simp: plain_line_def Let_def add.assoc split: option.splits)

lemma scan_inner: "list_all inner_line ls \<Longrightarrow> scan_lines alias n (ls @ ls') (Some b) owned = scan_lines alias (n + length (concat ls)) ls' (Some b) owned"
  by (induction ls arbitrary: n) (auto simp: inner_line_def Let_def add.assoc)

lemma scan_block:
  assumes "js_trim (line_text b) = BEGIN_MARKER" "list_all inner_line ms" "js_trim (line_text e) = END_MARKER" "list_all (plain_line alias) ls"
  shows "scan_lines alias n (b # ms @ e # ls) None None = Inr (Some (n, n + length b + length (concat ms) + length e))"
  using assms scan_plain [of "alias" ls "n + length b + length (concat ms) + length e" "[]"]
  by (simp add: Let_def scan_inner)

lemma scan_owned:
  "scan_lines alias n ls None (Some o') = Inr r \<Longrightarrow> r = Some o' \<and> list_all (plain_line alias) ls"
  by (induction ls arbitrary: n) (auto simp: Let_def plain_line_def split: if_splits option.splits)

lemma scan_open:
  "scan_lines alias n ls (Some b) None = Inr r \<Longrightarrow>
     \<exists>ms e rest. ls = ms @ e # rest \<and> list_all inner_line ms \<and> js_trim (line_text e) = END_MARKER
       \<and> r = Some (b, n + length (concat ms) + length e) \<and> list_all (plain_line alias) rest"
proof (induction ls arbitrary: n)
  case (Cons l ls)
  let ?m = "js_trim (line_text l)"
  show ?case
  proof (cases "?m = END_MARKER")
    case True
    then have "scan_lines alias (n + length l) ls None (Some (b, n + length l)) = Inr r" using Cons.prems by (simp add: Let_def)
    then have "r = Some (b, n + length l) \<and> list_all (plain_line alias) ls" by (rule scan_owned)
    then have "l # ls = [] @ l # ls \<and> list_all inner_line [] \<and> js_trim (line_text l) = END_MARKER
       \<and> r = Some (b, n + length (concat []) + length l) \<and> list_all (plain_line alias) ls"
      using True by simp
    then show ?thesis by blast
  next
    case False
    then have "?m \<noteq> BEGIN_MARKER" "scan_lines alias (n + length l) ls (Some b) None = Inr r"
      using Cons.prems by (auto simp: Let_def split: if_splits)
    then obtain ms e rest where "ls = ms @ e # rest" "list_all inner_line ms" "js_trim (line_text e) = END_MARKER"
      "r = Some (b, n + length l + length (concat ms) + length e)" "list_all (plain_line alias) rest"
      using Cons.IH by blast
    then have "l # ls = (l # ms) @ e # rest \<and> list_all inner_line (l # ms) \<and> js_trim (line_text e) = END_MARKER
       \<and> r = Some (b, n + length (concat (l # ms)) + length e) \<and> list_all (plain_line alias) rest"
      using False \<open>?m \<noteq> BEGIN_MARKER\<close> by (simp add: inner_line_def)
    then show ?thesis by blast
  qed
qed simp

text \<open>What an accepted file looks like: the user's lines and at most one block between them.\<close>

lemma scan_accepts:
  "scan_lines alias n ls None None = Inr r \<Longrightarrow>
     r = None \<and> list_all (plain_line alias) ls
   \<or> (\<exists>xs b ms e ys. ls = xs @ b # ms @ e # ys \<and> list_all (plain_line alias) xs \<and> list_all (plain_line alias) ys
        \<and> js_trim (line_text b) = BEGIN_MARKER \<and> list_all inner_line ms \<and> js_trim (line_text e) = END_MARKER
        \<and> r = Some (n + length (concat xs), n + length (concat xs) + length b + length (concat ms) + length e))"
proof (induction ls arbitrary: n)
  case (Cons l ls)
  let ?m = "js_trim (line_text l)"
  show ?case
  proof (cases "?m = BEGIN_MARKER")
    case True
    then have "scan_lines alias (n + length l) ls (Some n) None = Inr r" using Cons.prems by (simp add: Let_def)
    then obtain ms e rest where "ls = ms @ e # rest" "list_all inner_line ms" "js_trim (line_text e) = END_MARKER"
      "r = Some (n, n + length l + length (concat ms) + length e)" "list_all (plain_line alias) rest"
      using scan_open by blast
    then have "l # ls = [] @ l # ms @ e # rest \<and> list_all (plain_line alias) [] \<and> list_all (plain_line alias) rest
        \<and> js_trim (line_text l) = BEGIN_MARKER \<and> list_all inner_line ms \<and> js_trim (line_text e) = END_MARKER
        \<and> r = Some (n + length (concat []), n + length (concat []) + length l + length (concat ms) + length e)"
      using True by simp
    then show ?thesis by blast
  next
    case False
    then have l: "plain_line alias l" and rest: "scan_lines alias (n + length l) ls None None = Inr r"
      using Cons.prems by (auto simp: Let_def plain_line_def split: if_splits option.splits)
    from Cons.IH [OF rest] show ?thesis
    proof (elim disjE exE conjE)
      fix xs b ms e ys
      assume "ls = xs @ b # ms @ e # ys" "list_all (plain_line alias) xs" "list_all (plain_line alias) ys"
        "js_trim (line_text b) = BEGIN_MARKER" "list_all inner_line ms" "js_trim (line_text e) = END_MARKER"
        "r = Some (n + length l + length (concat xs), n + length l + length (concat xs) + length b + length (concat ms) + length e)"
      then have "l # ls = (l # xs) @ b # ms @ e # ys \<and> list_all (plain_line alias) (l # xs) \<and> list_all (plain_line alias) ys
        \<and> js_trim (line_text b) = BEGIN_MARKER \<and> list_all inner_line ms \<and> js_trim (line_text e) = END_MARKER
        \<and> r = Some (n + length (concat (l # xs)), n + length (concat (l # xs)) + length b + length (concat ms) + length e)"
        using l by (simp add: add.assoc)
      then show ?thesis by blast
    qed (use l in simp)
  qed
qed simp

section \<open>Bytes and text\<close>

definition valid :: "byte list \<Rightarrow> bool" where
  "valid bs \<longleftrightarrow> utf8_points bs \<noteq> None"

lemma decodes_iff: "utf8_decode bs = None \<longleftrightarrow> \<not> valid bs"
  by (simp add: utf8_decode_def valid_def)

lemma feed_not_cont [simp]: "\<not> is_cont 10"
  by (simp add: is_cont_def)

lemma valid_Cons:
  "valid (b0 # bs) \<longleftrightarrow>
     (if b0 < 128 then valid bs
      else if 194 \<le> b0 \<and> b0 < 224 then (case bs of b1 # r \<Rightarrow> is_cont b1 \<and> valid r | _ \<Rightarrow> False)
      else if 224 \<le> b0 \<and> b0 < 240 then
        (case bs of b1 # b2 # r \<Rightarrow> is_cont b1 \<and> is_cont b2 \<and> (b0 = 224 \<longrightarrow> 160 \<le> b1) \<and> (b0 = 237 \<longrightarrow> b1 < 160) \<and> valid r | _ \<Rightarrow> False)
      else if 240 \<le> b0 \<and> b0 < 245 then
        (case bs of b1 # b2 # b3 # r \<Rightarrow> is_cont b1 \<and> is_cont b2 \<and> is_cont b3 \<and> (b0 = 240 \<longrightarrow> 144 \<le> b1) \<and> (b0 = 244 \<longrightarrow> b1 < 144) \<and> valid r
         | _ \<Rightarrow> False)
      else False)"
proof -
  consider "bs = []" | b1 where "bs = [b1]" | b1 b2 where "bs = [b1, b2]" | b1 b2 b3 r where "bs = b1 # b2 # b3 # r"
    by (metis list.exhaust)
  then show ?thesis by cases (auto simp: valid_def)
qed

lemma valid_app: "valid a \<Longrightarrow> valid (a @ b) = valid b"
proof (induction a rule: length_induct)
  case (1 a)
  have IH: "valid (r @ b) = valid b" if "valid r" "length r < length a" for r using 1 that by blast
  show ?case
  proof (cases a)
    case (Cons b0 bs)
    have sub: "valid (b0 # bs)" using 1(2) Cons by simp
    consider "bs = []" | b1 where "bs = [b1]" | b1 b2 where "bs = [b1, b2]" | b1 b2 b3 r where "bs = b1 # b2 # b3 # r"
      by (metis list.exhaust)
    then show ?thesis
      using sub IH [of bs] IH [of "tl bs"] IH [of "tl (tl bs)"] IH [of "tl (tl (tl bs))"] Cons
      by cases (simp_all add: valid_Cons [of b0] split: if_splits)
  qed simp
qed

lemma valid_prefix: "valid (a @ 10 # b) \<Longrightarrow> valid (a @ [10])"
proof (induction a rule: length_induct)
  case (1 a)
  have IH: "valid (r @ [10])" if "valid (r @ 10 # b)" "length r < length a" for r using 1 that by blast
  show ?case
  proof (cases a)
    case (Cons b0 bs)
    have sub: "valid (b0 # bs @ 10 # b)" using 1(2) Cons by simp
    consider "bs = []" | b1 where "bs = [b1]" | b1 b2 where "bs = [b1, b2]" | b1 b2 b3 r where "bs = b1 # b2 # b3 # r"
      by (metis list.exhaust)
    then show ?thesis
    proof cases
      case 4
      then show ?thesis using sub Cons IH [of bs] IH [of "b2 # b3 # r"] IH [of "b3 # r"] IH [of r]
        unfolding Cons append.simps valid_Cons [of b0] by (simp split: if_splits)
    qed (use sub IH [of bs] IH [of "tl bs"] IH [of "tl (tl bs)"] Cons in \<open>simp_all add: valid_Cons [of b0] split: if_splits list.splits\<close>)
  qed (simp add: valid_def)
qed

lemma valid_split:
  assumes "valid (a @ b)" and "a = [] \<or> (\<exists>c. a = c @ [10])"
  shows "valid a" "valid b"
proof -
  show a: "valid a"
    using assms valid_prefix [of "butlast a" b] by (auto simp: valid_def [of "[]"])
  show "valid b" using valid_app [OF a] assms(1) by simp
qed

lemma valid_points: "\<forall>c\<in>set cs. c < 1114112 \<Longrightarrow> valid (concat (map utf8_point cs))"
proof (induction cs)
  case (Cons c cs)
  have head: "valid (utf8_point c)"
  proof (cases "is_surrogate c")
    case True
    then show ?thesis by (simp add: utf8_point_def valid_def is_cont_def)
  next
    case False
    then show ?thesis using utf8_points_step [of c "[]"] Cons.prems by (simp add: valid_def scalar_def)
  qed
  then show ?case using Cons head by (simp add: valid_app)
qed (simp add: valid_def)

lemma code_points_bound: "units s \<Longrightarrow> c \<in> set (code_points s) \<Longrightarrow> c < 1114112"
  by (induction s rule: code_points.induct) (auto simp: units_def is_hi_def is_lo_def split: if_splits)

lemma valid_utf8: "units s \<Longrightarrow> valid (utf8 s)"
  unfolding utf8_def by (rule valid_points) (simp add: code_points_bound)

lemma code_points_between: "\<not> is_surrogate u \<Longrightarrow> code_points (a @ u # b) = code_points a @ u # code_points b"
proof (induction a rule: code_points.induct)
  case 1
  then show ?case by (simp add: code_points_Cons_plain is_surrogate_def)
next
  case (2 v)
  then show ?case by (simp add: code_points_Cons_plain is_surrogate_def)
qed (auto simp: is_surrogate_def)

lemma utf8_feed: "utf8 (a @ 10 # b) = utf8 a @ 10 # utf8 b"
  using code_points_between [of 10 a b] by (simp add: utf8_def utf8_point_def is_surrogate_def is_hi_def is_lo_def)

lemma utf8_join: "ls \<noteq> [] \<Longrightarrow> utf8 (join_lines ls @ [10]) = concat (map (\<lambda>l. utf8 l @ [10]) ls)"
proof (induction ls rule: join_lines.induct)
  case (2 l)
  then show ?case using utf8_feed [of l "[]"] by (simp add: utf8_def)
next
  case (3 l m ls)
  then show ?case using utf8_feed [of l "join_lines (m # ls) @ [10]"] by simp
qed simp

lemma lossy_ascii: "\<forall>u\<in>set p. u < 128 \<Longrightarrow> utf8_lossy_run 0 128 191 0 (p @ r) = p @ utf8_lossy_run 0 128 191 0 r"
  by (induction p) auto

lemma lossy_prefix: "\<forall>u\<in>set p. u < 128 \<Longrightarrow> utf8_lossy (p @ r) = p @ utf8_lossy r"
proof -
  assume "\<forall>u\<in>set p. u < 128"
  moreover from this have "from_points (p @ cs) = p @ from_points cs" for cs
    by (induction p) (auto simp: units_of_def)
  ultimately show ?thesis by (simp add: utf8_lossy_def lossy_ascii)
qed

lemma trim_head:
  assumes "dropWhile is_space s = c # t"
  shows "\<exists>t'. js_trim s = c # t'"
proof -
  have "\<not> is_space c" using assms by (metis dropWhile_eq_Cons_conv)
  then have "dropWhile is_space (rev t @ [c]) = dropWhile is_space (rev t) @ [c]" by (induction "rev t") (auto simp: dropWhile_append)
  then show ?thesis using assms by (simp add: js_trim_def)
qed

section \<open>The managed block\<close>

definition tame :: "jsstr \<Rightarrow> bool" where
  "tame s \<longleftrightarrow> units s \<and> 10 \<notin> set s"

lemma tame_simps [simp]: "tame (a @ b) = (tame a \<and> tame b)" "tame []" "tame (u # s) = (u < 65536 \<and> u \<noteq> 10 \<and> tame s)"
  by (auto simp: tame_def units_def)

lemma tame_ascii: "list_all P s \<Longrightarrow> (\<And>u. P u \<Longrightarrow> u < 128 \<and> u \<noteq> 10) \<Longrightarrow> tame s"
  by (fastforce simp: tame_def units_def list_all_iff)

lemma tame_quote: "tame s \<Longrightarrow> tame (quote_ssh_value s)"
  by (auto simp: tame_def units_def quote_ssh_value_def split: if_splits)

lemma normalized_tame:
  assumes "normalize_config x = Inr c" and "\<And>k. sc_key x = JStr k \<Longrightarrow> units k"
  shows "tame (shown (sc_alias c))" "tame (shown (sc_host c))" "tame (shown (sc_port c))" "tame (shown (sc_key c))"
proof -
  obtain k where c: "parse_token (sc_alias x) 64 = Inr (sc_alias c)" "parse_host (sc_host x) = Inr (sc_host c)"
    "parse_integer (sc_port x) 1 65535 = Inr (sc_port c)" "sc_key x = JStr k" "\<not> CONTROL_CHARACTERS k" "sc_key c = JStr k"
    using assms(1) by (cases "sc_key x") (auto simp: normalize_config_def split: if_splits)
  obtain n where n: "sc_port c = JNum n" "1 \<le> n" using integer_result [OF c(3)] by blast
  obtain a where a: "sc_alias c = JStr a" "list_all token_char a" using token_chars [OF c(1)] by blast
  obtain h where h: "sc_host c = JStr h" "list_all host_char h" using host_chars [OF c(2)] by blast
  show "tame (shown (sc_alias c))" unfolding a(1) shown_def
    by (simp, rule tame_ascii [OF a(2)]) (auto simp: token_char_def is_alnum_def is_alpha_def is_digit_def)
  show "tame (shown (sc_host c))" unfolding h(1) shown_def
    by (simp, rule tame_ascii [OF h(2)]) (auto simp: host_char_def is_alnum_def is_alpha_def is_digit_def)
  have "list_all is_digit (dec (nat n))" by (simp add: list_all_iff dec_digits)
  then have "tame (dec (nat n))" by (rule tame_ascii) (simp add: is_digit_def)
  then show "tame (shown (sc_port c))" using n by (simp add: shown_def int_text_def)
  show "tame (shown (sc_key c))"
    using assms(2) [OF c(4)] c(5,6) by (auto simp: shown_def tame_def CONTROL_CHARACTERS_def list_ex_iff is_control_def)
qed

lemma block_lines_tame:
  assumes "normalize_config x = Inr c" and "\<And>k. sc_key x = JStr k \<Longrightarrow> units k"
  shows "list_all tame (block_lines c)"
  using normalized_tame [OF assms] tame_quote
  by (simp add: block_lines_def BEGIN_MARKER_def END_MARKER_def)

lemma tame_bytes: "tame l \<Longrightarrow> 10 \<notin> set (utf8 l)"
  using utf8_ascii_unit [of 10 l] by (auto simp: tame_def)

lemma line_text_utf8: "10 \<notin> set bs \<Longrightarrow> line_text (bs @ [10]) = utf8_lossy bs"
  by (simp add: line_text_def before_feed)

text \<open>A line whose text starts with white space and then a visible ASCII character other than \<open>#\<close> is no marker.\<close>

lemma inner_utf8:
  assumes "\<forall>u\<in>set p. u < 128" "dropWhile is_space p \<noteq> []" "hd (dropWhile is_space p) \<noteq> 35" "tame (p @ v)"
  shows "inner_line (utf8 (p @ v) @ [10])"
proof -
  obtain c t where ct: "dropWhile is_space p = c # t" "c \<noteq> 35" using assms(2,3) by (cases "dropWhile is_space p") auto
  have seen: "line_text (utf8 (p @ v) @ [10]) = p @ utf8_lossy (utf8 v)"
    using assms(1) line_text_utf8 [OF tame_bytes [OF assms(4)]] by (simp add: utf8_append_ascii lossy_prefix)
  have "dropWhile is_space (p @ w) = c # t @ w" for w
    using ct(1) by (induction p) (auto split: if_splits)
  from trim_head [OF this] obtain r where "js_trim (p @ utf8_lossy (utf8 v)) = c # r" by blast
  moreover have "hd BEGIN_MARKER = 35" "hd END_MARKER = 35" by code_simp+
  ultimately show ?thesis using ct(2) unfolding inner_line_def seen by (metis list.sel(1))
qed

text \<open>The bytes of the block, as lines.\<close>

definition block_bytes :: "ssh_config \<Rightarrow> byte list list" where
  "block_bytes c = map (\<lambda>l. utf8 l @ [10]) (block_lines c)"

lemma inner_all:
  "list_all (\<lambda>(p, v). tame (p @ v)) pvs \<Longrightarrow>
   list_all (\<lambda>(p, v). list_all (\<lambda>u. u < 128) p \<and> dropWhile is_space p \<noteq> [] \<and> hd (dropWhile is_space p) \<noteq> 35) pvs \<Longrightarrow>
   list_all inner_line (map (\<lambda>(p, v). utf8 (p @ v) @ [10]) pvs)"
proof (induction pvs)
  case (Cons pv pvs)
  then show ?case using inner_utf8 [of "fst pv" "snd pv"] by (cases pv) (simp add: list_all_iff)
qed simp

lemma block_shape:
  assumes "normalize_config x = Inr c" and "\<And>k. sc_key x = JStr k \<Longrightarrow> units k"
  obtains ms where "block_bytes c = (BEGIN_MARKER @ [10]) # ms @ [END_MARKER @ [10]]" "list_all inner_line ms"
proof -
  let ?pvs = "[(js ''Host '', shown (sc_alias c)), (js ''  HostName '', shown (sc_host c)), (js ''  Port '', shown (sc_port c)),
      (js ''  User user'', []), (js ''  IdentityFile '', quote_ssh_value (shown (sc_key c))), (js ''  IdentitiesOnly yes'', []),
      (js ''  StrictHostKeyChecking accept-new'', []), (js ''Host *'', [])]"
  have "list_all (\<lambda>(p, v). tame (p @ v)) ?pvs" using block_lines_tame [OF assms] by (simp add: block_lines_def)
  moreover have "list_all (\<lambda>(p, v). list_all (\<lambda>u. u < 128) p \<and> dropWhile is_space p \<noteq> [] \<and> hd (dropWhile is_space p) \<noteq> 35) ?pvs"
    by (simp add: is_space_def)
  ultimately have "list_all inner_line (map (\<lambda>(p, v). utf8 (p @ v) @ [10]) ?pvs)"
    by (rule inner_all)
  moreover have ascii: "utf8 BEGIN_MARKER = BEGIN_MARKER" "utf8 END_MARKER = END_MARKER"
    by (rule utf8_ascii, simp add: BEGIN_MARKER_def END_MARKER_def)+
  then have "block_bytes c = (BEGIN_MARKER @ [10]) # map (\<lambda>(p, v). utf8 (p @ v) @ [10]) ?pvs @ [END_MARKER @ [10]]"
    by (simp add: block_bytes_def block_lines_def)
  ultimately show thesis using that by blast
qed

section \<open>The user's bytes\<close>

definition managed_span :: "byte list \<Rightarrow> bool" where
  "managed_span span \<longleftrightarrow> (\<exists>b ms e. span = concat (b # ms @ [e]) \<and> js_trim (line_text b) = BEGIN_MARKER
     \<and> list_all inner_line ms \<and> js_trim (line_text e) = END_MARKER)"

definition user_text :: "jsstr \<Rightarrow> byte list \<Rightarrow> bool" where
  "user_text alias bs \<longleftrightarrow> (\<exists>ls. bs = concat ls \<and> is_lines ls \<and> list_all (plain_line alias) ls) \<and> valid bs"

lemma valid_lines:
  assumes "list_all whole_line xs" "valid (concat xs @ b)"
  shows "valid (concat xs)" "valid b"
proof -
  have "concat xs = [] \<or> (\<exists>c. concat xs = c @ [10])"
    using assms(1) by (induction xs rule: rev_induct) (auto simp: whole_line_def)
  from valid_split [OF assms(2) this] show "valid (concat xs)" "valid b" .
qed

lemma valid_bom: "valid (UTF8_BOM @ r) = valid r" "valid UTF8_BOM"
  by (simp_all add: UTF8_BOM_def valid_Cons is_cont_def) (simp add: valid_def)

lemma unmanaged_accepts:
  assumes "unmanaged_bytes source alias = Inr u"
  obtains bom pre span post where "source = bom @ pre @ span @ post" "um_bom u = bom" "um_content u = pre @ post"
    "bom = [] \<or> bom = UTF8_BOM" "span = [] \<or> managed_span span" "user_text alias (pre @ post)"
proof -
  define n where "n = (if take 3 source = UTF8_BOM then 3 else 0 :: nat)"
  define bom where "bom = take n source"
  have bom: "bom = [] \<or> bom = UTF8_BOM" by (simp add: bom_def n_def)
  have split: "source = bom @ drop n source" and len: "length bom = n"
    by (auto simp: bom_def n_def UTF8_BOM_def dest: arg_cong [of _ _ length])
  have "valid source" using assms by (auto simp: unmanaged_bytes_def decodes_iff split: if_splits)
  then have "valid (bom @ drop n source)" using split by simp
  then have v: "valid (drop n source)" using bom by (elim disjE) (simp_all add: valid_bom)
  obtain r where r: "scan_lines alias n (raw_lines (drop n source)) None None = Inr r"
    and u: "u = \<lparr>um_bom = bom, um_content = (case r of Some (a, b) \<Rightarrow> drop n (take a source) @ drop b source | None \<Rightarrow> drop n source),
                um_managed = (r \<noteq> None)\<rparr>"
    using assms unfolding unmanaged_bytes_def Let_def n_def [symmetric] bom_def by (auto split: if_splits)
  from scan_accepts [OF r] show thesis
  proof (elim disjE exE conjE)
    assume "r = None" "list_all (plain_line alias) (raw_lines (drop n source))"
    then have "user_text alias (drop n source)"
      using v unfolding user_text_def by (intro conjI exI [of _ "raw_lines (drop n source)"]) simp_all
    then show thesis
      using that [of bom "drop n source" "[]" "[]"] split u bom \<open>r = None\<close> by simp
  next
    fix xs b ms e ys
    assume ls: "raw_lines (drop n source) = xs @ b # ms @ e # ys" and plain: "list_all (plain_line alias) xs" "list_all (plain_line alias) ys"
      and span: "js_trim (line_text b) = BEGIN_MARKER" "list_all inner_line ms" "js_trim (line_text e) = END_MARKER"
      and r: "r = Some (n + length (concat xs), n + length (concat xs) + length b + length (concat ms) + length e)"
    let ?span = "concat (b # ms @ [e])"
    have rest: "drop n source = concat xs @ ?span @ concat ys"
      using ls concat_raw_lines [of "drop n source"] by simp
    have lines: "is_lines (xs @ b # ms @ e # ys)" using is_lines_raw [of "drop n source"] ls by simp
    then have "is_lines (e # ys)" using is_lines_append [of "xs @ b # ms" "e # ys"] by simp
    then have ys: "is_lines ys" by (cases ys) auto
    have whole: "list_all whole_line xs" using lines is_lines_whole by blast
    have "valid (concat ys)"
    proof (cases ys)
      case (Cons y ys')
      then have "list_all whole_line (xs @ b # ms @ [e])" using is_lines_whole [of "xs @ b # ms @ [e]" y ys'] lines by simp
      then show ?thesis using valid_lines [of "xs @ b # ms @ [e]" "concat ys"] v rest by simp
    qed (simp add: valid_def)
    moreover have "valid (concat xs)" using valid_lines [OF whole] v rest by simp
    ultimately have "user_text alias (concat xs @ concat ys)"
      using plain is_lines_glue [OF whole ys] valid_app unfolding user_text_def
      by (intro conjI exI [of _ "xs @ ys"]) auto
    moreover have "um_content u = concat xs @ concat ys"
    proof -
      have src: "source = bom @ concat xs @ ?span @ concat ys" using split rest by simp
      have "take (n + length (concat xs)) source = bom @ concat xs" by (subst src) (simp add: len)
      moreover have "drop (n + length (concat xs) + length b + length (concat ms) + length e) source = concat ys"
        by (subst src) (simp add: len)
      ultimately show ?thesis using u r len by simp
    qed
    moreover have "managed_span ?span" unfolding managed_span_def using span by blast
    ultimately show thesis
      using that [of bom "concat xs" ?span "concat ys"] split rest bom u by simp
  qed
qed

lemma unmanaged_block:
  assumes "normalize_config x = Inr c" and "\<And>k. sc_key x = JStr k \<Longrightarrow> units k"
    and bom: "bom = [] \<or> bom = UTF8_BOM" and rest: "user_text alias rest"
  shows "unmanaged_bytes (bom @ utf8 (join_lines (block_lines c) @ [10]) @ rest) alias
    = Inr \<lparr>um_bom = bom, um_content = rest, um_managed = True\<rparr>"
proof -
  have bytes: "utf8 (join_lines (block_lines c) @ [10]) = concat (block_bytes c)"
    unfolding block_bytes_def by (rule utf8_join) (simp add: block_lines_def)
  obtain ms where ms: "block_bytes c = (BEGIN_MARKER @ [10]) # ms @ [END_MARKER @ [10]]" "list_all inner_line ms"
    by (rule block_shape [OF assms(1,2)])
  have whole: "list_all whole_line (block_bytes c)"
    using block_lines_tame [OF assms(1,2)] tame_bytes
    by (auto simp: block_bytes_def list_all_iff whole_line_def)
  obtain ls where ls: "rest = concat ls" "is_lines ls" "list_all (plain_line alias) ls" and v: "valid rest"
    using rest unfolding user_text_def by blast
  define all where "all = concat (block_bytes c) @ rest"
  have raw: "raw_lines all = block_bytes c @ ls"
    unfolding all_def ls(1) using raw_lines_concat [OF is_lines_glue [OF whole ls(2)]] by simp
  have hash: "hd all = 35" "all \<noteq> []"
  proof -
    have "hd BEGIN_MARKER = 35" "BEGIN_MARKER \<noteq> []" by code_simp+
    then show "hd all = 35" "all \<noteq> []" unfolding all_def ms by simp_all
  qed
  define n where "n = (if take 3 (bom @ all) = UTF8_BOM then 3 else 0 :: nat)"
  have n: "n = length bom" using bom hash by (cases all) (auto simp: n_def UTF8_BOM_def)
  have "units (join_lines (block_lines c) @ [10])"
  proof -
    have "list_all tame ls' \<Longrightarrow> units (join_lines ls')" for ls'
      by (induction ls' rule: join_lines.induct) (auto simp: tame_def units_def)
    then show ?thesis using block_lines_tame [OF assms(1,2)] by (simp add: units_def)
  qed
  then have "valid (concat (block_bytes c))" using valid_utf8 bytes by metis
  then have "valid all" using v by (simp add: all_def valid_app)
  then have "valid (bom @ all)" using bom by (elim disjE) (simp_all add: valid_bom)
  moreover have "js_trim (line_text (BEGIN_MARKER @ [10])) = BEGIN_MARKER" "js_trim (line_text (END_MARKER @ [10])) = END_MARKER"
    by code_simp+
  from scan_block [OF this(1) ms(2) this(2) ls(3), of n]
  have "scan_lines alias n (raw_lines all) None None = Inr (Some (n, n + length (concat (block_bytes c))))"
    unfolding raw ms(1) by (simp del: scan_lines.simps add: add.assoc)
  ultimately show ?thesis
    unfolding bytes all_def [symmetric] unmanaged_bytes_def Let_def n_def [symmetric]
    by (simp add: decodes_iff n all_def)
qed

text \<open>
  Claim C30: rewriting the OpenSSH configuration keeps every byte of the user.  An accepted file is a byte order
  mark or nothing, the user's text and at most one managed block somewhere in it; the new file is the
  same mark, the new block on lines of its own and exactly the user's text.  Rewriting the new file
  with the same options changes nothing: the block is found again and the user's text with it.
\<close>

theorem ssh_config_rewrite_stable:
  assumes "preview_of sha options (JStr k) source = Inr p" and "units k"
  shows "(\<exists>bom pre span post. source = bom @ pre @ span @ post \<and> (bom = [] \<or> bom = UTF8_BOM) \<and> (span = [] \<or> managed_span span)
      \<and> pv_content p = bom @ utf8 (pv_block p) @ [10] @ pre @ post)
    \<and> preview_of sha options (JStr k) (pv_content p) = Inr (p\<lparr>pv_changed := False, pv_source_hash := sha (pv_content p)\<rparr>)"
proof -
  let ?x = "\<lparr>sc_alias = getProp options (js ''alias''), sc_host = getProp options (js ''host''), sc_port = getProp options (js ''port''), sc_key = JStr k\<rparr>"
  obtain profile c block u where step: "parse_token (getProp options (js ''profileId'')) 128 = Inr profile" "normalize_config ?x = Inr c"
    "build_managed_block c = Inr block" "unmanaged_bytes source (shown (sc_alias c)) = Inr u"
    and p: "p = \<lparr>pv_block = block, pv_content = um_bom u @ utf8 (block @ [10]) @ um_content u,
       pv_changed = (source \<noteq> um_bom u @ utf8 (block @ [10]) @ um_content u), pv_source_hash = sha source,
       pv_config_hash = sha (utf8 (config_key profile c))\<rparr>"
    using assms(1) unfolding preview_of_def Let_def by auto
  obtain c' where c': "normalize_config c = Inr c'" "block = join_lines (block_lines c')"
    using step(3) by (auto simp: build_managed_block_def)
  obtain bom pre span post where shape: "source = bom @ pre @ span @ post" "um_bom u = bom" "um_content u = pre @ post"
    "bom = [] \<or> bom = UTF8_BOM" "span = [] \<or> managed_span span" "user_text (shown (sc_alias c)) (pre @ post)"
    using unmanaged_accepts [OF step(4)] .
  have key: "sc_key c = JStr k" using step(2) by (auto simp: normalize_config_def split: if_splits)
  then have "units k'" if "sc_key c = JStr k'" for k' using that assms(2) by simp
  from unmanaged_block [OF c'(1) this shape(4,6)]
  have again: "unmanaged_bytes (pv_content p) (shown (sc_alias c)) = Inr \<lparr>um_bom = bom, um_content = pre @ post, um_managed = True\<rparr>"
    unfolding p by (simp add: shape(2,3) c'(2))
  have content: "pv_content p = bom @ utf8 (block @ [10]) @ pre @ post" by (simp add: p shape(2,3))
  have "preview_of sha options (JStr k) (pv_content p) = Inr (p\<lparr>pv_changed := False, pv_source_hash := sha (pv_content p)\<rparr>)"
    unfolding preview_of_def step(1,2,3) bindR_simps again Let_def by (simp add: content p shape(2,3))
  moreover have "utf8 (block @ [10]) = utf8 block @ [10]" by (rule utf8_snoc_ascii) simp
  then have "pv_content p = bom @ utf8 (pv_block p) @ [10] @ pre @ post" by (simp add: content) (simp add: p)
  ultimately show ?thesis using shape(1,4,5) by blast
qed

section \<open>Writing\<close>

text \<open>Calls that touch neither the configuration nor the backup.\<close>

definition settled :: "ssh_dir \<Rightarrow> entry_kind \<times> byte list option" where
  "settled d = (sd_config d, sd_backup d)"

lemma keeps_sys: "keeps (\<lambda>d. settled d = x) sys"
  unfolding sys_def settled_def
  by (intro act_rules keeps_modify) (auto intro: act_rules split: list.splits option.splits)

lemma keeps_sys_config: "keeps (\<lambda>d. settled d = x) sys_config"
  unfolding sys_config_def by (intro act_rules keeps_sys)

lemma keeps_sys_do: "(\<And>d. settled (f d) = settled d) \<Longrightarrow> keeps (\<lambda>d. settled d = x) (sys_do f)"
  unfolding sys_do_def by (intro act_rules keeps_sys keeps_modify) simp

lemma keeps_read_source: "keeps (\<lambda>d. settled d = x) read_source_file"
proof -
  have "keeps (\<lambda>d. settled d = x) (case e of Absent \<Rightarrow> throwM ''ENOENT'' | OtherEntry \<Rightarrow> throwM ''SSH_CONFIG_INVALID''
      | Content bs \<Rightarrow> bindM sys_config (\<lambda>_. retM (Some bs)))" for e
    by (cases e) (auto intro!: act_rules keeps_sys_config)
  then show ?thesis unfolding read_source_file_def find_source_def by (intro act_rules keeps_sys keeps_sys_config)
qed

lemma keeps_write_temporary: "keeps (\<lambda>d. settled d = x) (write_temporary bs)"
  unfolding write_temporary_def by (intro act_rules keeps_sys keeps_sys_do) (simp_all add: settled_def)

text \<open>An atomic write leaves the old entries or puts the new one, and has put it when it succeeds.\<close>

lemma triple_settled:
  assumes "\<And>z. keeps (\<lambda>d. settled d = z) m"
  shows "triple (\<lambda>d. settled d \<in> S) m (\<lambda>_ d. settled d \<in> S) (\<lambda>d. settled d \<in> S)"
proof (rule triple_keeps)
  show "keeps (\<lambda>d. settled d \<in> S) m"
    using assms unfolding keeps_def by metis
qed

lemma triple_atomic_write:
  assumes put: "\<And>d. settled d \<in> A \<Longrightarrow> settled (put bs (d\<lparr>sd_temp := None\<rparr>)) \<in> B"
  shows "triple (\<lambda>d. settled d \<in> A) (atomic_write_bytes windows put bs) (\<lambda>_ d. settled d \<in> B) (\<lambda>d. settled d \<in> A \<union> B)"
proof -
  have parent: "keeps (\<lambda>d. settled d = z) (sync_parent windows)" for z
    unfolding sync_parent_def by (intro act_rules keeps_sys)
  have rename: "triple (\<lambda>d. settled d \<in> A) (sys_do (\<lambda>d. put bs (d\<lparr>sd_temp := None\<rparr>))) (\<lambda>_ d. settled d \<in> B) (\<lambda>d. settled d \<in> A \<union> B)"
    unfolding sys_do_def
    by (rule triple_bind [OF triple_except [OF triple_settled [OF keeps_sys]]]) (auto intro: triple_modify put)
  have written: "triple (\<lambda>d. settled d \<in> A)
      (bindM (write_temporary bs) (\<lambda>_. bindM (sys_do (\<lambda>d. put bs (d\<lparr>sd_temp := None\<rparr>))) (\<lambda>_. sync_parent windows)))
      (\<lambda>_ d. settled d \<in> B) (\<lambda>d. settled d \<in> A \<union> B)"
    by (rule triple_bind [OF triple_except [OF triple_settled [OF keeps_write_temporary]]], simp,
        rule triple_bind [OF rename], rule triple_except [OF triple_settled [OF parent]], simp)
  have tidy: "keeps (\<lambda>d. settled d = z) (if b then ignoring (sys_do (\<lambda>d. d\<lparr>sd_open := False\<rparr>)) else retM ())"
    "keeps (\<lambda>d. settled d = z) (ignoring (sys_do (\<lambda>d. d\<lparr>sd_temp := None\<rparr>)))" for z b
    unfolding ignoring_def by (intro act_rules keeps_sys_do; simp add: settled_def)+
  have fails: "triple (\<lambda>d. settled d \<in> A \<union> B) (bindM (readM sd_open) (\<lambda>b. bindM (if b then ignoring (sys_do (\<lambda>d. d\<lparr>sd_open := False\<rparr>)) else retM ()) (\<lambda>_.
               bindM (ignoring (sys_do (\<lambda>d. d\<lparr>sd_temp := None\<rparr>))) (\<lambda>_. throwM e)))) (\<lambda>_ d. settled d \<in> B) (\<lambda>d. settled d \<in> A \<union> B)" for e
    by (rule triple_bind [OF triple_settled [OF keeps_read]], rule triple_bind [OF triple_settled [OF tidy(1)]],
        rule triple_bind [OF triple_settled [OF tidy(2)]], rule triple_throw)
  show ?thesis unfolding atomic_write_bytes_def by (rule triple_try [OF written fails])
qed

text \<open>Reading finds the entry that is there.\<close>

lemma sys_eq: "sys d = (case sd_script d of Some e # _ \<Rightarrow> Inl e | _ \<Rightarrow> Inr (), d\<lparr>sd_script := tl (sd_script d)\<rparr>)"
  by (auto simp: sys_def act_combinators split: list.splits option.splits)

lemma sys_config_eq:
  "sys_config d = (case sd_script d of Some e # _ \<Rightarrow> if e = ''ENOENT'' \<and> sd_config d \<noteq> Absent then Inr () else Inl e | _ \<Rightarrow> Inr (),
     d\<lparr>sd_script := tl (sd_script d)\<rparr>)"
  by (auto simp: sys_config_def act_combinators sys_eq split: list.splits option.splits)

lemma find_source_finds:
  assumes "find_source d = (Inr found, d')"
  shows "(found = None \<and> sd_config d = Absent) \<or> (\<exists>bs. found = Some bs \<and> sd_config d = Content bs)"
  using assms
  by (cases "sd_config d") (auto simp: find_source_def act_combinators sys_config_eq unsafe_link_def split: list.splits option.splits if_splits)

lemma read_source_finds:
  assumes "read_source_file d = (Inr found, d')"
  shows "(found = None \<and> sd_config d = Absent) \<or> (\<exists>bs. found = Some bs \<and> sd_config d = Content bs)"
proof -
  obtain r d1 where f: "find_source d = (r, d1)" by fastforce
  then obtain found1 where r: "r = Inr found1" using assms(1) by (cases r) (auto simp: read_source_file_def bindM_def)
  have "found1 = found"
    using assms(1) f r by (auto simp: read_source_file_def act_combinators split: option.splits prod.splits sum.splits)
  then show ?thesis using find_source_finds f r by blast
qed

definition backed_up :: "byte list option \<Rightarrow> entry_kind \<times> byte list option \<Rightarrow> entry_kind \<times> byte list option" where
  "backed_up found x = (case found of None \<Rightarrow> x | Some bs \<Rightarrow> (fst x, Some bs))"

lemma triple_replace_config:
  "triple (\<lambda>d. settled d \<in> {x})
     (bindM sys (\<lambda>_. bindM (if found = None then retM () else atomic_write_bytes windows put_backup (source_bytes found)) (\<lambda>_.
      bindM (atomic_write_bytes windows put_config new) (\<lambda>_. retM a))))
     (\<lambda>r d. r = a \<and> settled d = (Content new, snd (backed_up found x)))
     (\<lambda>d. settled d \<in> {x, backed_up found x, (Content new, snd (backed_up found x))})"
proof -
  let ?X = "\<lambda>d. settled d \<in> {x, backed_up found x, (Content new, snd (backed_up found x))}"
  have backup: "triple (\<lambda>d. settled d \<in> {x}) (if found = None then retM () else atomic_write_bytes windows put_backup (source_bytes found))
      (\<lambda>_ d. settled d \<in> {backed_up found x}) ?X"
  proof (cases found)
    case None
    then show ?thesis by (simp add: triple_ret backed_up_def)
  next
    case (Some bs)
    then have "triple (\<lambda>d. settled d \<in> {x}) (atomic_write_bytes windows put_backup bs) (\<lambda>_ d. settled d \<in> {backed_up found x})
        (\<lambda>d. settled d \<in> {x} \<union> {backed_up found x})"
      by (intro triple_atomic_write) (auto simp: settled_def put_backup_def backed_up_def)
    then have "triple (\<lambda>d. settled d \<in> {x}) (atomic_write_bytes windows put_backup bs) (\<lambda>_ d. settled d \<in> {backed_up found x}) ?X"
      by (rule triple_except) auto
    then show ?thesis using Some by (simp add: source_bytes_def)
  qed
  have replace: "triple (\<lambda>d. settled d \<in> {backed_up found x}) (atomic_write_bytes windows put_config new)
      (\<lambda>_ d. settled d \<in> {(Content new, snd (backed_up found x))}) ?X"
  proof (rule triple_except)
    show "triple (\<lambda>d. settled d \<in> {backed_up found x}) (atomic_write_bytes windows put_config new)
        (\<lambda>_ d. settled d \<in> {(Content new, snd (backed_up found x))})
        (\<lambda>d. settled d \<in> {backed_up found x} \<union> {(Content new, snd (backed_up found x))})"
    proof (rule triple_atomic_write)
      fix d assume "settled d \<in> {backed_up found x}"
      then have "snd (settled d) = snd (backed_up found x)" by simp
      then show "settled (put_config new (d\<lparr>sd_temp := None\<rparr>)) \<in> {(Content new, snd (backed_up found x))}"
        by (simp add: settled_def put_config_def)
    qed
  qed auto
  show ?thesis
    by (rule triple_bind [OF triple_except [OF triple_settled [OF keeps_sys]]], simp, rule triple_bind [OF backup],
        rule triple_bind [OF replace], rule triple_ret, simp)
qed

text \<open>
  Claim C31: writing the OpenSSH configuration is atomic and conditional.  Whichever calls of the file system fail, the
  configuration is afterwards as it was, or it is the rewriting of what it was, the caller having named the
  digests of exactly that text and of exactly these options, and the old text is in the backup.  The
  backup is as it was or holds the old text.  A call that returns has left the rewritten text there.
\<close>

theorem ssh_config_write_safe:
  assumes "write_config sha windows key options es ec d = (r, d')"
  shows "(sd_backup d' = sd_backup d \<or> (\<exists>bs. sd_config d = Content bs \<and> sd_backup d' = Some bs))
    \<and> (sd_config d' = sd_config d
       \<or> (\<exists>p source. (sd_config d = Content source \<and> sd_backup d' = Some source \<or> sd_config d = Absent \<and> source = [])
            \<and> preview_of sha options key source = Inr p \<and> es = JStr (sha source) \<and> ec = JStr (pv_config_hash p)
            \<and> sd_config d' = Content (pv_content p)))
    \<and> (case r of Inl _ \<Rightarrow> True
       | Inr (p, _) \<Rightarrow> sd_config d' = Content (pv_content p) \<and> es = JStr (pv_source_hash p) \<and> ec = JStr (pv_config_hash p))"
proof (cases "\<exists>s c. es = JStr s \<and> ec = JStr c")
  case False
  then have "r = Inl ''SSH_CONFIG_CHANGED'' \<and> d' = d" using assms(1) by (auto simp: write_config_def throwM_def split: jsval.splits)
  then show ?thesis by simp
next
  case True
  then obtain s c where e: "es = JStr s" "ec = JStr c" by blast
  obtain r0 d0 where rd: "read_source_file d = (r0, d0)" by fastforce
  have d0: "settled d0 = settled d" using keepsD2 [OF keeps_read_source [of "settled d"] refl rd] .
  show ?thesis
  proof (cases r0)
    case (Inl x)
    then show ?thesis using assms(1) rd d0 by (auto simp: write_config_def e bindM_def settled_def)
  next
    case (Inr found)
    note found = read_source_finds [OF rd [unfolded Inr]]
    show ?thesis
    proof (cases "preview_of sha options key (source_bytes found)")
      case (Inl x)
      then show ?thesis using assms(1) rd d0 Inr by (auto simp: write_config_def e bindM_def liftR_def settled_def)
    next
      case p: (Inr p)
      then have hash: "pv_source_hash p = sha (source_bytes found)" and changed: "pv_changed p = (source_bytes found \<noteq> pv_content p)"
        and filled: "pv_content p \<noteq> []"
        by (auto simp: preview_of_def Let_def utf8_snoc_ascii)
      show ?thesis
      proof (cases "pv_source_hash p = s \<and> pv_config_hash p = c \<and> pv_changed p")
        case False
        then have "d' = d0 \<and> (\<forall>q b. r = Inr (q, b) \<longrightarrow> q = p \<and> pv_source_hash p = s \<and> pv_config_hash p = c \<and> source_bytes found = pv_content p)"
          using assms(1) rd Inr p changed
          by (auto simp: write_config_def e bindM_def liftR_def guardM_def retM_def throwM_def split: if_splits)
        then show ?thesis using d0 found filled e by (auto simp: settled_def source_bytes_def split: sum.splits)
      next
        case True
        let ?x = "settled d" and ?new = "pv_content p"
        let ?m = "bindM sys (\<lambda>_. bindM (if found = None then retM () else atomic_write_bytes windows put_backup (source_bytes found)) (\<lambda>_.
          bindM (atomic_write_bytes windows put_config ?new) (\<lambda>_. retM (p, found \<noteq> None))))"
        have run: "?m d0 = (r, d')"
          using assms(1) rd Inr p True by (simp add: write_config_def e bindM_def [of read_source_file] bindM_def [of "liftR _"] liftR_def guardM_def)
        have "settled d0 \<in> {?x}" using d0 by simp
        note out = tripleD [OF triple_replace_config this run]
        show ?thesis
          using out found p hash True e
          by (cases r) (auto simp: settled_def backed_up_def source_bytes_def)
      qed
    qed
  qed
qed

section \<open>Witnesses\<close>

definition demo_options :: jsval where
  "demo_options = JObj ObjectProto [(js ''profileId'', JStr (js ''p'')), (js ''alias'', JStr (js ''work'')),
     (js ''host'', JStr (js ''127.0.0.1'')), (js ''port'', JNum 2222)]"

definition demo_ssh_source :: "byte list" where
  "demo_ssh_source = js ''Host other'' @ [10] @ BEGIN_MARKER @ [10] @ js ''Host work'' @ [10] @ END_MARKER @ [10] @ js ''  User me''"

definition demo_sha :: "byte list \<Rightarrow> jsstr" where
  "demo_sha bs = dec (length bs)"

definition demo_preview :: preview where
  "demo_preview = (case preview_of demo_sha demo_options (JStr (js ''/k'')) demo_ssh_source of Inr p \<Rightarrow> p | Inl _ \<Rightarrow> undefined)"

lemma demo_preview: "preview_of demo_sha demo_options (JStr (js ''/k'')) demo_ssh_source = Inr demo_preview"
proof -
  have "(case preview_of demo_sha demo_options (JStr (js ''/k'')) demo_ssh_source of Inr p \<Rightarrow> True | Inl _ \<Rightarrow> False)" by code_simp
  then show ?thesis by (auto simp: demo_preview_def split: sum.splits)
qed

lemma ssh_config_rewrite_stable_witness:
  "preview_of demo_sha demo_options (JStr (js ''/k'')) (pv_content demo_preview)
     = Inr (demo_preview\<lparr>pv_changed := False, pv_source_hash := demo_sha (pv_content demo_preview)\<rparr>)"
proof -
  have "units (js ''/k'')" by code_simp
  then show ?thesis using ssh_config_rewrite_stable [OF demo_preview] by blast
qed

definition demo_dir :: ssh_dir where
  "demo_dir = \<lparr>sd_config = Content demo_ssh_source, sd_backup = None, sd_temp = None, sd_open = False, sd_script = []\<rparr>"

lemma ssh_config_write_safe_witness:
  "sd_config (snd (write_config demo_sha False (JStr (js ''/k'')) demo_options (JStr (demo_sha demo_ssh_source))
      (JStr (pv_config_hash demo_preview)) demo_dir)) = Content (pv_content demo_preview)"
proof -
  let ?w = "write_config demo_sha False (JStr (js ''/k'')) demo_options (JStr (demo_sha demo_ssh_source)) (JStr (pv_config_hash demo_preview)) demo_dir"
  have "case fst ?w of Inl e \<Rightarrow> False | Inr (p, b) \<Rightarrow> p = demo_preview" by code_simp
  then show ?thesis
    using ssh_config_write_safe [OF surjective_pairing, of demo_sha False "JStr (js ''/k'')" demo_options "JStr (demo_sha demo_ssh_source)" "JStr (pv_config_hash demo_preview)" demo_dir]
    by (auto split: sum.splits)
qed

end
