(* ===== verification/ProxyController.thy ===== *)
theory ProxyController
  imports SettingsSchema "HOL-Library.AList"
begin

text \<open>
  \<^verbatim>\<open>electron/proxy-controller.js\<close>: the controller that owns the local proxy server.  It starts a server,
  replaces it, activates a candidate server once its key transaction is committed, stops it, relays
  its events and keeps the session history.

  \<^item> The calls of the public interface, the answers that an \<open>await\<close> is waiting for, the events of the servers and
    the timers are the events of one step function.  \<open>lifecycle\<close> runs its tasks one after the other:
    \<open>pc_tasks\<close> waits, \<open>pc_phase\<close> is where the running task waits.
  \<^item> A record of the code is an index into \<open>pc_recs\<close>, so that a late answer or event still reaches its own record.
    The server of a record is what the controller tells it (\<open>r_accepting\<close>) and whether its listeners are on.
  \<^item> What the servers answer to \<open>getSessions\<close> and \<open>getStats().sessions\<close> is \<open>pc_live\<close>, changed by an event; whether
    \<open>createServer\<close> throws is a script.  The clocks are state.
  \<^item> \<open>randomUUID\<close> gives every record an id of its own, here its index; the session key \<open>id:session\<close> is the pair.
  \<^item> \<open>pc_out\<close> lists the effects in order.  \<open>StopResolved\<close> notes the answer of a \<open>stop\<close>.
\<close>

section \<open>State\<close>

record pscope =
  ps_profile :: jsstr
  ps_epoch :: int

record live =
  lv_id :: jsstr
  lv_sent :: nat
  lv_received :: nat

record prec =
  r_config :: settings
  r_scope :: pscope
  r_candidate :: bool
  r_transaction :: jsstr
  r_cancelled :: bool
  r_started :: bool
  r_stop_requested :: bool
  r_history_closed :: bool
  r_owner :: pscope
  r_sessions :: "(jsstr \<times> nat \<times> nat) list"
  r_stop_reason :: string
  r_accepting :: bool
  r_listening :: bool

type_synonym patch = "(string \<times> jsval) list"

record close_data =
  cd_id :: jsstr
  cd_ended :: "int option"
  cd_sent :: "nat option"
  cd_received :: "nat option"
  cd_exit :: "int option"
  cd_reason :: string

datatype outcome = Failed string | Cancelled | AlreadyRunning | Finished

datatype pc_effect =
    Changed pscope "nat option" patch
  | Registered "nat \<times> jsstr" jsstr nat nat
  | Sampled "nat \<times> jsstr" nat nat
  | Finalized "nat \<times> jsstr" int nat nat "int option" string
  | StatsUpdate "nat option" nat
  | SessionOpened pscope nat jsstr | SessionClosed pscope nat jsstr
  | NewSession pscope | NetworkError pscope nat | AuthRequired pscope nat int
  | RemoteNotReady pscope nat jsstr settings
  | UpdateCookie nat jsstr | Disconnect nat jsstr
  | StartServer nat | StopServer nat "string option" | StopResolved nat
  | Logged string | Settled outcome | Activated outcome

record begin_spec =
  b_config :: settings
  b_cookie :: jsstr
  b_scope :: pscope
  b_candidate :: bool
  b_transaction :: jsstr
  b_keys :: bool
  b_generation :: nat

datatype task = BeginTask begin_spec | StopTask string

datatype phase =
    StopForReplace begin_spec nat
  | AwaitKeys begin_spec
  | AwaitStart begin_spec nat
  | StopCancelled begin_spec nat
  | StopFailed begin_spec nat bool
  | StopOnly nat

datatype creation = Created | CreateThrows "string option"

record pc =
  pc_scope :: pscope
  pc_recs :: "prec list"
  pc_current :: "nat option"
  pc_tasks :: "task list"
  pc_phase :: "phase option"
  pc_disposed :: bool
  pc_sequence :: nat
  pc_sample_timer :: "nat option"
  pc_traffic_timer :: "nat option"
  pc_generation :: nat
  pc_last_stats :: "int option"
  pc_activations :: "(nat \<times> nat \<times> pscope) list"
  pc_live :: "nat \<Rightarrow> live list"
  pc_creates :: "creation list"
  pc_now :: int
  pc_wall :: int
  pc_history :: bool
  pc_out :: "pc_effect list"

definition create_pc :: "bool \<Rightarrow> creation list \<Rightarrow> pc" where
  "create_pc with_history creates =
     \<lparr>pc_scope = \<lparr>ps_profile = js ''default'', ps_epoch = 0\<rparr>, pc_recs = [], pc_current = None, pc_tasks = [], pc_phase = None,
      pc_disposed = False, pc_sequence = 0, pc_sample_timer = None, pc_traffic_timer = None, pc_generation = 0,
      pc_last_stats = None, pc_activations = [], pc_live = (\<lambda>_. []), pc_creates = creates, pc_now = 0, pc_wall = 0,
      pc_history = with_history, pc_out = []\<rparr>"

definition effect :: "pc_effect \<Rightarrow> pc \<Rightarrow> pc" where
  "effect e s = s\<lparr>pc_out := pc_out s @ [e]\<rparr>"

definition prec_at :: "nat \<Rightarrow> pc \<Rightarrow> prec" where
  "prec_at i s = pc_recs s ! i"

definition change :: "nat \<Rightarrow> (prec \<Rightarrow> prec) \<Rightarrow> pc \<Rightarrow> pc" where
  "change i f s = s\<lparr>pc_recs := (pc_recs s)[i := f (pc_recs s ! i)]\<rparr>"

section \<open>Small steps\<close>

definition terminal_reason :: "string \<Rightarrow> string" where
  "terminal_reason reason =
     (if reason = ''app_exit'' \<or> reason = ''fatal'' then ''app_exit'' else if reason = ''auth_error'' then ''auth_error'' else ''proxy_stop'')"

definition owns :: "nat \<Rightarrow> pc \<Rightarrow> bool" where
  "owns i s \<longleftrightarrow> pc_current s = Some i"

definition shown_record :: "nat \<Rightarrow> pc \<Rightarrow> bool" where
  "shown_record i s \<longleftrightarrow> owns i s \<and> \<not> pc_disposed s \<and> \<not> r_candidate (prec_at i s)
     \<and> ps_profile (r_owner (prec_at i s)) = ps_profile (pc_scope s)"

definition notify :: "nat \<Rightarrow> patch \<Rightarrow> pc \<Rightarrow> pc" where
  "notify i patch s = (if shown_record i s then effect (Changed (r_scope (prec_at i s)) (Some i) patch) s else s)"

definition clear_timers :: "pc \<Rightarrow> pc" where
  "clear_timers s = s\<lparr>pc_sample_timer := None, pc_traffic_timer := None\<rparr>"

definition sample_one :: "nat \<Rightarrow> pc \<Rightarrow> live \<Rightarrow> pc" where
  "sample_one i s l =
     (case map_of (r_sessions (prec_at i s)) (lv_id l) of
        None \<Rightarrow> s
      | Some (a, b) \<Rightarrow>
          (let a' = max a (lv_sent l); b' = max b (lv_received l) in
           effect (Sampled (i, lv_id l) a' b') (change i (\<lambda>r. r\<lparr>r_sessions := AList.update (lv_id l) (a', b') (r_sessions r)\<rparr>) s)))"

definition sample_history :: "nat \<Rightarrow> live list \<Rightarrow> pc \<Rightarrow> pc" where
  "sample_history i lives s =
     (if \<not> pc_history s \<or> \<not> owns i s \<or> r_candidate (prec_at i s) then s else foldl (sample_one i) s lives)"

definition finalize_session :: "nat \<Rightarrow> close_data \<Rightarrow> pc \<Rightarrow> pc" where
  "finalize_session i d s =
     (case map_of (r_sessions (prec_at i s)) (cd_id d) of
        None \<Rightarrow> s
      | Some (a, b) \<Rightarrow>
          (let t = change i (\<lambda>r. r\<lparr>r_sessions := AList.delete (cd_id d) (r_sessions r)\<rparr>) s in
           if pc_history s then
             effect (Finalized (i, cd_id d) (case cd_ended d of Some e \<Rightarrow> e | None \<Rightarrow> pc_wall s)
               (case cd_sent d of Some x \<Rightarrow> x | None \<Rightarrow> a) (case cd_received d of Some x \<Rightarrow> x | None \<Rightarrow> b) (cd_exit d) (cd_reason d)) t
           else t))"

definition finalize_remaining :: "nat \<Rightarrow> string \<Rightarrow> pc \<Rightarrow> pc" where
  "finalize_remaining i reason s =
     (let s = sample_history i (pc_live s i) s in
      change i (\<lambda>r. r\<lparr>r_history_closed := True\<rparr>)
        (foldl (\<lambda>s sid. finalize_session i \<lparr>cd_id = sid, cd_ended = None, cd_sent = None, cd_received = None, cd_exit = None,
            cd_reason = terminal_reason reason\<rparr> s) s (map fst (r_sessions (prec_at i s)))))"

text \<open>\<open>sample\<close>: the record whose numbers are shown, if any, and the sequence number.\<close>

definition sample :: "pc \<Rightarrow> (nat option \<times> nat) \<times> pc" where
  "sample s =
     (let s = (case pc_current s of Some i \<Rightarrow> if r_candidate (prec_at i s) then s else sample_history i (pc_live s i) s | None \<Rightarrow> s);
          who = (case pc_current s of Some i \<Rightarrow> if shown_record i s then Some i else None | None \<Rightarrow> None);
          n = Suc (pc_sequence s) in
      ((who, n), s\<lparr>pc_sequence := n\<rparr>))"

definition send_stats :: "nat \<Rightarrow> pc \<Rightarrow> pc" where
  "send_stats i s =
     (if \<not> shown_record i s \<or> (case pc_last_stats s of None \<Rightarrow> False | Some t \<Rightarrow> pc_now s - t < 500) then s
      else (case sample (s\<lparr>pc_last_stats := Some (pc_now s)\<rparr>) of ((who, n), s) \<Rightarrow> effect (StatsUpdate who n) s))"

definition start_timers :: "nat \<Rightarrow> pc \<Rightarrow> pc" where
  "start_timers i s = (clear_timers s)\<lparr>pc_sample_timer := Some i\<rparr>"

definition release :: "nat \<Rightarrow> pc \<Rightarrow> pc" where
  "release i s = (if \<not> owns i s then s else (change i (\<lambda>r. r\<lparr>r_listening := False\<rparr>) (clear_timers s))\<lparr>pc_current := None\<rparr>)"

section \<open>Stopping\<close>

text \<open>\<open>stopRecord\<close> up to its \<open>await\<close>, and what follows the answer of the server.\<close>

definition stop_begin :: "nat \<Rightarrow> string \<Rightarrow> pc \<Rightarrow> pc" where
  "stop_begin i reason s =
     (let s = change i (\<lambda>r. r\<lparr>r_cancelled := True, r_accepting := False\<rparr>) s;
          s = clear_timers (notify i [(''proxyStatus'', JStr (js ''stopping''))] s);
          s = change i (\<lambda>r. r\<lparr>r_stop_reason := reason\<rparr>) (sample_history i (pc_live s i) s) in
      effect (StopServer i (Some reason)) s)"

definition stopped_patch :: patch where
  "stopped_patch = [(''proxyStatus'', JStr (js ''stopped'')), (''runningConfig'', JNull), (''connectionCount'', JNum 0)]"

definition stop_done :: "nat \<Rightarrow> string \<Rightarrow> pc \<Rightarrow> pc" where
  "stop_done i reason s =
     (let s = effect (StopResolved i) s in
      if \<not> owns i s then s
      else release i (notify i (stopped_patch @ [(''errorCode'', JNull)]) (finalize_remaining i reason s)))"

definition stop_failed :: "nat \<Rightarrow> pc \<Rightarrow> pc" where
  "stop_failed i s =
     effect (Logged ''Stop failed'') (if owns i s then notify i [(''proxyStatus'', JStr (js ''error'')), (''errorCode'', JStr (js ''PROXY_STOP_FAILED''))] s else s)"

definition finish :: "outcome \<Rightarrow> pc \<Rightarrow> pc" where
  "finish r s = effect (Settled r) (s\<lparr>pc_phase := None\<rparr>)"

definition wait :: "phase \<Rightarrow> pc \<Rightarrow> pc" where
  "wait p s = s\<lparr>pc_phase := Some p\<rparr>"

text \<open>Calling \<open>stopRecord\<close> and going on with \<open>k\<close> at once when the record is no longer owned.\<close>

definition stop_then :: "nat \<Rightarrow> string \<Rightarrow> phase \<Rightarrow> (pc \<Rightarrow> pc) \<Rightarrow> pc \<Rightarrow> pc" where
  "stop_then i reason p k s = (if owns i s then wait p (stop_begin i reason s) else k s)"

section \<open>Starting\<close>

definition stale :: "begin_spec \<Rightarrow> pc \<Rightarrow> bool" where
  "stale b s \<longleftrightarrow> pc_disposed s \<or> b_generation b \<noteq> pc_generation s"

definition create_failed :: "begin_spec \<Rightarrow> string option \<Rightarrow> pc \<Rightarrow> pc" where
  "create_failed b code s =
     (if stale b s then finish Cancelled s
      else
        (let c = (case code of Some c \<Rightarrow> c | None \<Rightarrow> ''PROXY_START_FAILED'') in
         finish (Failed c) (effect (Logged ''Initialization failed'')
           (effect (Changed (pc_scope s) None [(''proxyStatus'', JStr (js ''error'')), (''runningConfig'', JNull), (''errorCode'', JStr (js c))]) s))))"

definition new_record :: "begin_spec \<Rightarrow> prec" where
  "new_record b =
     \<lparr>r_config = b_config b, r_scope = b_scope b, r_candidate = b_candidate b, r_transaction = b_transaction b, r_cancelled = False,
      r_started = False, r_stop_requested = False, r_history_closed = False, r_owner = b_scope b, r_sessions = [],
      r_stop_reason = [], r_accepting = (\<not> b_candidate b), r_listening = True\<rparr>"

definition create_server :: "begin_spec \<Rightarrow> pc \<Rightarrow> pc" where
  "create_server b s =
     (if stale b s then finish Cancelled s
      else
        (let made = (case pc_creates s of [] \<Rightarrow> Created | c # _ \<Rightarrow> c); s = s\<lparr>pc_creates := tl (pc_creates s)\<rparr> in
         case made of
           CreateThrows code \<Rightarrow> create_failed b code s
         | Created \<Rightarrow>
             (let i = length (pc_recs s);
                  s = s\<lparr>pc_recs := pc_recs s @ [new_record b], pc_current := Some i, pc_last_stats := None\<rparr>;
                  s = notify i [(''proxyStatus'', JStr (js ''starting'')), (''runningConfig'', JNull), (''connectionCount'', JNum 0), (''errorCode'', JNull)] s in
              wait (AwaitStart b i) (effect (StartServer i) s))))"

definition begin_keys :: "begin_spec \<Rightarrow> pc \<Rightarrow> pc" where
  "begin_keys b s = (if b_keys b then create_server b s else wait (AwaitKeys b) s)"

definition begin_task :: "begin_spec \<Rightarrow> pc \<Rightarrow> pc" where
  "begin_task b s =
     (if pc_disposed s then finish (Failed ''SHUTTING_DOWN'') s
      else if b_generation b \<noteq> pc_generation s then finish Cancelled s
      else (case pc_current s of
              None \<Rightarrow> begin_keys b s
            | Some i \<Rightarrow>
                if r_started (prec_at i s) \<and> \<not> r_cancelled (prec_at i s) \<and> \<not> r_candidate (prec_at i s) \<and> \<not> b_candidate b
                then finish AlreadyRunning (effect (UpdateCookie i (b_cookie b)) s)
                else stop_then i ''replace'' (StopForReplace b i) (\<lambda>s. if stale b s then finish Cancelled s else begin_keys b s) s))"

definition after_replace :: "begin_spec \<Rightarrow> pc \<Rightarrow> pc" where
  "after_replace b s = (if stale b s then finish Cancelled s else begin_keys b s)"

definition running_config :: "prec \<Rightarrow> jsval" where
  "running_config r = JObj ObjectProto (r_config r)"

text \<open>The \<open>catch\<close> around \<open>server.start()\<close>, and its end.\<close>

definition after_failed_start :: "bool \<Rightarrow> pc \<Rightarrow> pc" where
  "after_failed_start cancelled s =
     (if cancelled then finish Cancelled s
      else finish (Failed ''PROXY_START_FAILED'') (effect (Logged ''Start failed'')
        (effect (Changed (pc_scope s) None [(''proxyStatus'', JStr (js ''error'')), (''runningConfig'', JNull), (''errorCode'', JStr (js ''PROXY_START_FAILED''))]) s)))"

definition start_failed :: "begin_spec \<Rightarrow> nat \<Rightarrow> pc \<Rightarrow> pc" where
  "start_failed b i s =
     (let cancelled = r_cancelled (prec_at i s) \<or> stale b s in
      stop_then i ''failed_start'' (StopFailed b i cancelled) (after_failed_start cancelled) s)"

definition start_returned :: "begin_spec \<Rightarrow> nat \<Rightarrow> bool \<Rightarrow> pc \<Rightarrow> pc" where
  "start_returned b i started s =
     (if r_cancelled (prec_at i s) \<or> stale b s \<or> \<not> started
      then stop_then i ''cancelled_start'' (StopCancelled b i) (finish Cancelled) s
      else
        (let s = (if r_started (prec_at i s) then s
                  else (let s = change i (\<lambda>r. r\<lparr>r_started := True\<rparr>) s in
                        notify i [(''proxyStatus'', JStr (js ''started'')), (''runningConfig'', running_config (prec_at i s)), (''errorCode'', JNull)] s)) in
         finish Finished (if b_candidate b then s else send_stats i (start_timers i s))))"

text \<open>\<open>enqueue\<close>, and the running task going on after an answer.\<close>

definition enqueue :: "task \<Rightarrow> pc \<Rightarrow> pc" where
  "enqueue t s = s\<lparr>pc_tasks := pc_tasks s @ [t]\<rparr>"

definition run_task :: "task \<Rightarrow> pc \<Rightarrow> pc" where
  "run_task t s =
     (case t of
        BeginTask b \<Rightarrow> begin_task b s
      | StopTask reason \<Rightarrow>
          (case pc_current s of None \<Rightarrow> finish Finished s | Some i \<Rightarrow> stop_then i reason (StopOnly i) (finish Finished) s))"

definition next_task :: "pc \<Rightarrow> pc" where
  "next_task s =
     (case pc_phase s of
        Some _ \<Rightarrow> s
      | None \<Rightarrow> (case pc_tasks s of [] \<Rightarrow> s | t # ts \<Rightarrow> run_task t (s\<lparr>pc_tasks := ts\<rparr>)))"

definition stop_answer :: "bool \<Rightarrow> pc \<Rightarrow> pc" where
  "stop_answer ok s =
     (case pc_phase s of
        Some (StopForReplace b i) \<Rightarrow>
          if ok then after_replace b (stop_done i ''replace'' s) else finish (Failed ''PROXY_STOP_FAILED'') (stop_failed i s)
      | Some (StopCancelled b i) \<Rightarrow>
          if ok then finish Cancelled (stop_done i ''cancelled_start'' s) else start_failed b i (stop_failed i s)
      | Some (StopFailed b i cancelled) \<Rightarrow>
          if ok then after_failed_start cancelled (stop_done i ''failed_start'' s) else finish (Failed ''PROXY_STOP_FAILED'') (stop_failed i s)
      | Some (StopOnly i) \<Rightarrow>
          if ok then finish Finished (stop_done i (r_stop_reason (prec_at i s)) s) else finish (Failed ''PROXY_STOP_FAILED'') (stop_failed i s)
      | _ \<Rightarrow> s)"

definition keys_answer :: "string option option \<Rightarrow> pc \<Rightarrow> pc" where
  "keys_answer rejected s =
     (case pc_phase s of
        Some (AwaitKeys b) \<Rightarrow> (case rejected of None \<Rightarrow> create_server b s | Some code \<Rightarrow> create_failed b code s)
      | _ \<Rightarrow> s)"

definition start_answer :: "bool option \<Rightarrow> pc \<Rightarrow> pc" where
  "start_answer r s =
     (case pc_phase s of
        Some (AwaitStart b i) \<Rightarrow> (case r of Some started \<Rightarrow> start_returned b i started s | None \<Rightarrow> start_failed b i s)
      | _ \<Rightarrow> s)"

section \<open>Server events\<close>

datatype from_server =
    ServerLog | ServerStarted int | ConnectionCount nat | ServerStopped | ServerError | AuthError int
  | NotReady jsstr jsstr jsval jsval | SessionOpen live | SessionClose close_data | Traffic

definition session_open :: "nat \<Rightarrow> live \<Rightarrow> pc \<Rightarrow> pc" where
  "session_open i l s =
     (if \<not> owns i s \<or> r_candidate (prec_at i s) \<or> r_cancelled (prec_at i s) \<or> r_history_closed (prec_at i s) then s
      else
        (let s = (if map_of (r_sessions (prec_at i s)) (lv_id l) \<noteq> None then s
                  else
                    (let s = change i (\<lambda>r. r\<lparr>r_sessions := r_sessions r @ [(lv_id l, lv_sent l, lv_received l)]\<rparr>) s in
                     if pc_history s then effect (Registered (i, lv_id l) (ps_profile (r_owner (prec_at i s))) (lv_sent l) (lv_received l)) s
                     else s)) in
         if \<not> shown_record i s then s
         else
           (let n = Suc (pc_sequence s); scope = r_scope (prec_at i s) in
            effect (NewSession scope) (effect (SessionOpened scope n (lv_id l)) (s\<lparr>pc_sequence := n\<rparr>)))))"

definition session_close :: "nat \<Rightarrow> close_data \<Rightarrow> pc \<Rightarrow> pc" where
  "session_close i d s =
     (if \<not> owns i s then s
      else
        (let s = finalize_session i d s in
         if \<not> shown_record i s then s
         else
           (let n = Suc (pc_sequence s); r = prec_at i s; s = effect (SessionClosed (r_scope r) n (cd_id d)) (s\<lparr>pc_sequence := n\<rparr>) in
            if \<not> r_cancelled r \<and> \<not> r_stop_requested r \<and> \<not> r_history_closed r \<and> cd_reason d = ''network_error''
            then effect (NetworkError (r_scope r) i) s else s)))"

definition server_event :: "nat \<Rightarrow> from_server \<Rightarrow> pc \<Rightarrow> pc" where
  "server_event i ev s =
     (if length (pc_recs s) \<le> i \<or> \<not> r_listening (prec_at i s) then s
      else (case ev of
        ServerLog \<Rightarrow> if owns i s \<and> \<not> pc_disposed s then effect (Logged ''proxy-log'') s else s
      | ServerStarted port \<Rightarrow>
          if \<not> owns i s then s
          else
            (let s = change i (\<lambda>r. r\<lparr>r_started := True, r_config := put_setting (js ''port'') (JNum port) (r_config r)\<rparr>) s in
             if r_cancelled (prec_at i s) then s
             else notify i [(''proxyStatus'', JStr (js ''started'')), (''runningConfig'', running_config (prec_at i s)),
                            (''connectionCount'', JNum 0), (''errorCode'', JNull)] s)
      | ConnectionCount n \<Rightarrow> notify i [(''connectionCount'', JNum (int n))] s
      | ServerStopped \<Rightarrow>
          if \<not> owns i s then s
          else notify i stopped_patch
            (change i (\<lambda>r. r\<lparr>r_started := False\<rparr>) (finalize_remaining i (r_stop_reason (prec_at i s)) (clear_timers s)))
      | ServerError \<Rightarrow>
          if \<not> owns i s then s
          else notify i [(''proxyStatus'', JStr (js ''error'')),
                 (''errorCode'', JStr (js (if r_cancelled (prec_at i s) then ''PROXY_STOP_FAILED'' else ''PROXY_START_FAILED'')))]
               (effect (Logged ''error'') s)
      | AuthError code \<Rightarrow>
          if shown_record i s \<and> (code = 401 \<or> code = 403) then effect (AuthRequired (r_scope (prec_at i s)) i code) s else s
      | NotReady code sid generation now_generation \<Rightarrow>
          if \<not> shown_record i s \<or> r_cancelled (prec_at i s) \<or> r_stop_requested (prec_at i s) \<or> r_history_closed (prec_at i s)
            \<or> code \<noteq> js ''REMOTE_READY_TIMEOUT'' \<or> map_of (r_sessions (prec_at i s)) sid = None
            \<or> \<not> is_safe_integer generation \<or> generation \<noteq> now_generation then s
          else effect (RemoteNotReady (r_scope (prec_at i s)) i sid (r_config (prec_at i s))) s
      | SessionOpen l \<Rightarrow> session_open i l s
      | SessionClose d \<Rightarrow> session_close i d s
      | Traffic \<Rightarrow> if \<not> shown_record i s \<or> pc_traffic_timer s \<noteq> None then s else s\<lparr>pc_traffic_timer := Some i\<rparr>))"

section \<open>The interface\<close>

definition cancel_listen :: "pc \<Rightarrow> pc" where
  "cancel_listen s =
     (case pc_current s of
        None \<Rightarrow> s
      | Some i \<Rightarrow>
          if r_started (prec_at i s) \<and> \<not> r_candidate (prec_at i s) then s
          else effect (StopServer i None) (change i (\<lambda>r. r\<lparr>r_cancelled := True, r_accepting := False\<rparr>) s))"

definition start_call :: "settings \<Rightarrow> jsstr \<Rightarrow> pscope \<Rightarrow> pc \<Rightarrow> pc" where
  "start_call config cookie scope s =
     enqueue (BeginTask \<lparr>b_config = config, b_cookie = cookie, b_scope = scope, b_candidate = False, b_transaction = [], b_keys = False,
       b_generation = pc_generation s\<rparr>) s"

definition candidate_call :: "settings \<Rightarrow> jsstr \<Rightarrow> pscope \<Rightarrow> jsval \<Rightarrow> bool \<Rightarrow> pc \<Rightarrow> pc" where
  "candidate_call config cookie scope transaction keys s =
     (case transaction of
        JStr t \<Rightarrow>
          if t = [] \<or> \<not> keys then effect (Settled (Failed ''INVALID_ARGUMENT'')) s
          else enqueue (BeginTask \<lparr>b_config = config, b_cookie = cookie, b_scope = scope, b_candidate = True, b_transaction = t, b_keys = True,
            b_generation = pc_generation s\<rparr>) s
      | _ \<Rightarrow> effect (Settled (Failed ''INVALID_ARGUMENT'')) s)"

definition activate_call :: "jsstr \<Rightarrow> pc \<Rightarrow> pc" where
  "activate_call transaction s =
     (case pc_current s of
        None \<Rightarrow> effect (Activated (Failed ''INVALID_ARGUMENT'')) s
      | Some i \<Rightarrow>
          (let r = prec_at i s in
           if \<not> r_candidate r \<or> r_transaction r \<noteq> transaction \<or> \<not> r_started r \<or> r_cancelled r \<or> pc_disposed s
           then effect (Activated (Failed ''INVALID_ARGUMENT'')) s
           else s\<lparr>pc_activations := pc_activations s @ [(i, pc_generation s, pc_scope s)]\<rparr>))"

text \<open>The answer of \<open>isTransactionCommitted\<close> to the pending activation \<open>k\<close>.\<close>

definition committed_answer :: "nat \<Rightarrow> string + bool \<Rightarrow> pc \<Rightarrow> pc" where
  "committed_answer k answer s =
     (if length (pc_activations s) \<le> k then s
      else (case pc_activations s ! k of (i, generation, scope) \<Rightarrow>
        (let s = s\<lparr>pc_activations := take k (pc_activations s) @ drop (Suc k) (pc_activations s)\<rparr> in
         case answer of
           Inl e \<Rightarrow> effect (Activated (Failed e)) s
         | Inr committed \<Rightarrow>
             if \<not> committed \<or> \<not> owns i s \<or> r_cancelled (prec_at i s) \<or> pc_disposed s \<or> generation \<noteq> pc_generation s
               \<or> ps_profile scope \<noteq> ps_profile (pc_scope s) \<or> ps_epoch scope \<noteq> ps_epoch (pc_scope s)
             then effect (Activated (Failed ''KEY_TRANSACTION_FAILED'')) s
             else
               (let s = change i (\<lambda>r. r\<lparr>r_accepting := True, r_candidate := False\<rparr>) s;
                    s = notify i [(''proxyStatus'', JStr (js ''started'')), (''runningConfig'', running_config (prec_at i s)), (''errorCode'', JNull)] s in
                effect (Activated Finished) (send_stats i (start_timers i s))))))"

definition cancel_pending :: "pc \<Rightarrow> pc" where
  "cancel_pending s = cancel_listen (s\<lparr>pc_generation := Suc (pc_generation s)\<rparr>)"

definition stop_call :: "string \<Rightarrow> pc \<Rightarrow> pc" where
  "stop_call reason s =
     (let s = s\<lparr>pc_generation := Suc (pc_generation s)\<rparr>;
          s = (case pc_current s of None \<Rightarrow> s | Some i \<Rightarrow> change i (\<lambda>r. r\<lparr>r_stop_requested := True, r_accepting := False\<rparr>) s) in
      enqueue (StopTask reason) (cancel_listen s))"

definition set_scope :: "pscope \<Rightarrow> pc \<Rightarrow> pc" where
  "set_scope scope s =
     (let s = s\<lparr>pc_scope := scope, pc_last_stats := None\<rparr> in
      case pc_current s of None \<Rightarrow> s | Some i \<Rightarrow> change i (\<lambda>r. r\<lparr>r_scope := scope\<rparr>) s)"

definition dispose_pc :: "pc \<Rightarrow> pc" where
  "dispose_pc s =
     enqueue (StopTask ''app_exit'') (cancel_listen (clear_timers (s\<lparr>pc_disposed := True, pc_generation := Suc (pc_generation s)\<rparr>)))"

datatype pc_event =
    StartCall settings jsstr pscope | CandidateCall settings jsstr pscope jsval bool | ActivateCall jsstr
  | CommittedAnswer nat "string + bool" | CancelPending | StopCall string | StatsCall | DisconnectCall jsstr
  | SetScope pscope | DisposeCall | TaskTurn | StopAnswer bool | KeysAnswer "string option option" | StartAnswer "bool option"
  | FromServer nat from_server | SampleTick | TrafficTick | LiveSessions nat "live list" | Clock int int

fun pc_step :: "pc \<Rightarrow> pc_event \<Rightarrow> pc" where
  "pc_step s (StartCall config cookie scope) = start_call config cookie scope s"
| "pc_step s (CandidateCall config cookie scope transaction keys) = candidate_call config cookie scope transaction keys s"
| "pc_step s (ActivateCall transaction) = activate_call transaction s"
| "pc_step s (CommittedAnswer k answer) = committed_answer k answer s"
| "pc_step s CancelPending = cancel_pending s"
| "pc_step s (StopCall reason) = stop_call reason s"
| "pc_step s StatsCall = (case sample s of ((who, n), s) \<Rightarrow> effect (StatsUpdate who n) s)"
| "pc_step s (DisconnectCall sid) = (case pc_current s of None \<Rightarrow> s | Some i \<Rightarrow> effect (Disconnect i sid) s)"
| "pc_step s (SetScope scope) = set_scope scope s"
| "pc_step s DisposeCall = dispose_pc s"
| "pc_step s TaskTurn = next_task s"
| "pc_step s (StopAnswer ok) = stop_answer ok s"
| "pc_step s (KeysAnswer rejected) = keys_answer rejected s"
| "pc_step s (StartAnswer r) = start_answer r s"
| "pc_step s (FromServer i ev) = server_event i ev s"
| "pc_step s SampleTick = (case pc_sample_timer s of None \<Rightarrow> s | Some i \<Rightarrow> send_stats i s)"
| "pc_step s TrafficTick = (case pc_traffic_timer s of None \<Rightarrow> s | Some i \<Rightarrow> send_stats i (s\<lparr>pc_traffic_timer := None\<rparr>))"
| "pc_step s (LiveSessions i ls) = s\<lparr>pc_live := (pc_live s)(i := ls)\<rparr>"
| "pc_step s (Clock t wall) = s\<lparr>pc_now := t, pc_wall := wall\<rparr>"

end
