(* ===== verification/ProxyRuns.thy ===== *)
theory ProxyRuns
  imports ProxyController
begin

text \<open>
  Runs of the proxy controller.  \<open>kern\<close> is what its guarantees rest on: who is current, the flags of every
  record, the pending activations and the log of registrations, finalizations and stopped servers.  Most
  steps leave it alone (\<open>kern_same\<close>); \<open>kern_inv\<close> is kept by the others.
\<close>

section \<open>The kernel of the state\<close>

record krec =
  kr_candidate :: bool
  kr_cancelled :: bool
  kr_stop :: bool
  kr_sids :: "jsstr list"
  kr_accepting :: bool
  kr_listening :: bool

record kern =
  k_current :: "nat option"
  k_recs :: "krec list"
  k_gen :: nat
  k_acts :: "(nat \<times> nat \<times> pscope) list"
  k_history :: bool
  k_log :: "pc_effect list"

definition krec_of :: "prec \<Rightarrow> krec" where
  "krec_of r = \<lparr>kr_candidate = r_candidate r, kr_cancelled = r_cancelled r, kr_stop = r_stop_requested r,
     kr_sids = map fst (r_sessions r), kr_accepting = r_accepting r, kr_listening = r_listening r\<rparr>"

fun logged :: "pc_effect \<Rightarrow> bool" where
  "logged (Registered _ _ _ _) = True"
| "logged (Finalized _ _ _ _ _ _) = True"
| "logged (StopResolved _) = True"
| "logged _ = False"

definition kern_of :: "pc \<Rightarrow> kern" where
  "kern_of s = \<lparr>k_current = pc_current s, k_recs = map krec_of (pc_recs s), k_gen = pc_generation s, k_acts = pc_activations s,
     k_history = pc_history s, k_log = filter logged (pc_out s)\<rparr>"

named_theorems kern_same "steps that leave the kernel and the phase alone"

lemma kern_effect [kern_same]: "\<not> logged e \<Longrightarrow> kern_of (effect e s) = kern_of s" "pc_phase (effect e s) = pc_phase s"
  by (simp_all add: kern_of_def effect_def)

lemma kern_change_same:
  assumes "krec_of (f (pc_recs s ! i)) = krec_of (pc_recs s ! i)"
  shows "kern_of (change i f s) = kern_of s"
proof (cases "i < length (pc_recs s)")
  case True
  then have "(map krec_of (pc_recs s))[i := krec_of (pc_recs s ! i)] = map krec_of (pc_recs s)"
    by (metis length_map list_update_id nth_map)
  then show ?thesis using assms by (simp add: kern_of_def change_def map_update)
qed (simp add: kern_of_def change_def list_update_beyond not_less)

lemma phase_change [kern_same]: "pc_phase (change i f s) = pc_phase s"
  by (simp add: change_def)

lemma kern_notify [kern_same]: "kern_of (notify i p s) = kern_of s" "pc_phase (notify i p s) = pc_phase s"
  by (simp_all add: notify_def kern_same)

lemma kern_timers [kern_same]: "kern_of (clear_timers s) = kern_of s" "pc_phase (clear_timers s) = pc_phase s"
  "kern_of (start_timers i s) = kern_of s" "pc_phase (start_timers i s) = pc_phase s"
  by (simp_all add: clear_timers_def start_timers_def kern_of_def)

lemma kern_sample_one [kern_same]: "kern_of (sample_one i s l) = kern_of s" "pc_phase (sample_one i s l) = pc_phase s"
proof -
  have "kern_of (change i (\<lambda>r. r\<lparr>r_sessions := AList.update (lv_id l) v (r_sessions r)\<rparr>) s) = kern_of s"
    if "map_of (r_sessions (pc_recs s ! i)) (lv_id l) = Some w" for v w
  proof (rule kern_change_same)
    have "lv_id l \<in> set (map fst (r_sessions (pc_recs s ! i)))" using that by (force dest: map_of_SomeD)
    then show "krec_of ((pc_recs s ! i)\<lparr>r_sessions := AList.update (lv_id l) v (r_sessions (pc_recs s ! i))\<rparr>) = krec_of (pc_recs s ! i)"
      by (simp add: krec_of_def update_keys)
  qed
  then show "kern_of (sample_one i s l) = kern_of s" "pc_phase (sample_one i s l) = pc_phase s"
    by (auto simp: sample_one_def prec_at_def Let_def kern_same split: option.splits)
qed

lemma kern_sample_history [kern_same]: "kern_of (sample_history i ls s) = kern_of s" "pc_phase (sample_history i ls s) = pc_phase s"
proof -
  have "kern_of (foldl (sample_one i) s ls) = kern_of s \<and> pc_phase (foldl (sample_one i) s ls) = pc_phase s"
    by (induction ls arbitrary: s) (simp_all add: kern_same)
  then show "kern_of (sample_history i ls s) = kern_of s" "pc_phase (sample_history i ls s) = pc_phase s"
    by (simp_all add: sample_history_def)
qed

lemma kern_sample [kern_same]: "kern_of (snd (sample s)) = kern_of s" "pc_phase (snd (sample s)) = pc_phase s"
proof -
  have "kern_of (s\<lparr>pc_sequence := n\<rparr>) = kern_of s" for s n by (simp add: kern_of_def)
  then show "kern_of (snd (sample s)) = kern_of s" "pc_phase (snd (sample s)) = pc_phase s"
    by (auto simp: sample_def Let_def kern_same split: option.splits)
qed

lemma kern_fields [kern_same]:
  "kern_of (s\<lparr>pc_last_stats := x1\<rparr>) = kern_of s" "kern_of (s\<lparr>pc_sequence := x2\<rparr>) = kern_of s" "kern_of (s\<lparr>pc_traffic_timer := x3\<rparr>) = kern_of s"
  "kern_of (s\<lparr>pc_live := x4\<rparr>) = kern_of s" "kern_of (s\<lparr>pc_now := x5, pc_wall := x6\<rparr>) = kern_of s" "kern_of (s\<lparr>pc_tasks := x7\<rparr>) = kern_of s"
  "kern_of (s\<lparr>pc_creates := x8\<rparr>) = kern_of s" "kern_of (s\<lparr>pc_phase := x9\<rparr>) = kern_of s" "kern_of (s\<lparr>pc_scope := x10\<rparr>) = kern_of s"
  "kern_of (s\<lparr>pc_disposed := x11\<rparr>) = kern_of s" "kern_of (enqueue t s) = kern_of s" "pc_phase (enqueue t s) = pc_phase s"
  by (simp_all add: kern_of_def enqueue_def)

lemma kern_send_stats [kern_same]: "kern_of (send_stats i s) = kern_of s" "pc_phase (send_stats i s) = pc_phase s"
  by (simp_all add: send_stats_def case_prod_beta kern_same)

lemma kern_change:
  assumes "krec_of (f (pc_recs s ! i)) = g (krec_of (pc_recs s ! i))"
  shows "kern_of (change i f s) = (kern_of s)\<lparr>k_recs := (k_recs (kern_of s))[i := g (k_recs (kern_of s) ! i)]\<rparr>"
  using assms by (cases "i < length (pc_recs s)") (simp_all add: kern_of_def change_def map_update list_update_beyond not_less)

section \<open>The invariant\<close>

definition registrations :: "nat \<times> jsstr \<Rightarrow> pc_effect list \<Rightarrow> nat" where
  "registrations k es = length (filter (\<lambda>e. case e of Registered k' _ _ _ \<Rightarrow> k' = k | _ \<Rightarrow> False) es)"

definition finalizations :: "nat \<times> jsstr \<Rightarrow> pc_effect list \<Rightarrow> nat" where
  "finalizations k es = length (filter (\<lambda>e. case e of Finalized k' _ _ _ _ _ \<Rightarrow> k' = k | _ \<Rightarrow> False) es)"

definition stopping :: "kern \<Rightarrow> nat \<Rightarrow> bool" where
  "stopping k i \<longleftrightarrow> k_current k = Some i \<and> kr_cancelled (k_recs k ! i)"

fun phase_ok :: "kern \<Rightarrow> phase option \<Rightarrow> bool" where
  "phase_ok k None = True"
| "phase_ok k (Some (AwaitKeys b)) = (k_current k = None)"
| "phase_ok k (Some (StopForReplace b i)) = stopping k i"
| "phase_ok k (Some (AwaitStart b i)) = (k_current k = Some i)"
| "phase_ok k (Some (StopCancelled b i)) = stopping k i"
| "phase_ok k (Some (StopFailed b i c)) = stopping k i"
| "phase_ok k (Some (StopOnly i)) = stopping k i"

definition krec_ok :: "krec \<Rightarrow> bool" where
  "krec_ok r \<longleftrightarrow> (kr_accepting r \<longrightarrow> \<not> kr_cancelled r \<and> \<not> kr_stop r \<and> \<not> kr_candidate r)
     \<and> (kr_stop r \<and> kr_candidate r \<longrightarrow> kr_cancelled r) \<and> distinct (kr_sids r)"

definition gone :: "nat \<Rightarrow> krec \<Rightarrow> pc_effect list \<Rightarrow> bool" where
  "gone i r es \<longleftrightarrow> StopResolved i \<in> set es \<and> kr_sids r = [] \<and> \<not> kr_accepting r \<and> \<not> kr_listening r"

definition balanced :: "kern \<Rightarrow> bool" where
  "balanced k \<longleftrightarrow> (\<forall>i sid. registrations (i, sid) (k_log k) = finalizations (i, sid) (k_log k)
     + (if k_history k \<and> i < length (k_recs k) \<and> sid \<in> set (kr_sids (k_recs k ! i)) then 1 else 0))"

definition acts_ok :: "kern \<Rightarrow> bool" where
  "acts_ok k \<longleftrightarrow> (\<forall>(i, g, sc)\<in>set (k_acts k). i < length (k_recs k) \<and> g \<le> k_gen k \<and> (g = k_gen k \<longrightarrow> \<not> kr_stop (k_recs k ! i)))"

definition kern_inv :: "kern \<Rightarrow> bool" where
  "kern_inv k \<longleftrightarrow> (\<forall>i<length (k_recs k). k_current k \<noteq> Some i \<longrightarrow> gone i (k_recs k ! i) (k_log k))
     \<and> (\<forall>i. k_current k = Some i \<longrightarrow> i < length (k_recs k)) \<and> (\<forall>r\<in>set (k_recs k). krec_ok r) \<and> acts_ok k \<and> balanced k"

definition pc_inv :: "pc \<Rightarrow> bool" where
  "pc_inv s \<longleftrightarrow> kern_inv (kern_of s) \<and> phase_ok (kern_of s) (pc_phase s)"

lemma pc_inv_same: "pc_inv s \<Longrightarrow> kern_of t = kern_of s \<Longrightarrow> pc_phase t = pc_phase s \<Longrightarrow> pc_inv t"
  by (simp add: pc_inv_def)

lemma current_kern: "pc_current s = k_current (kern_of s)"
  by (simp add: kern_of_def)

lemma kern_invD:
  assumes "kern_inv k"
  shows "i < length (k_recs k) \<Longrightarrow> k_current k \<noteq> Some i \<Longrightarrow> gone i (k_recs k ! i) (k_log k)"
    and "k_current k = Some i \<Longrightarrow> i < length (k_recs k)" and "i < length (k_recs k) \<Longrightarrow> krec_ok (k_recs k ! i)"
    and "acts_ok k" "balanced k"
  using assms by (simp_all add: kern_inv_def)

lemma acts_ok_stop:
  assumes "acts_ok k" and "k_acts k' = k_acts k" "k_gen k' = k_gen k" "length (k_recs k') = length (k_recs k)"
    and "\<And>j. j < length (k_recs k) \<Longrightarrow> kr_stop (k_recs k' ! j) = kr_stop (k_recs k ! j)"
  shows "acts_ok k'"
  using assms unfolding acts_ok_def by fastforce

section \<open>Closing sessions\<close>

definition kfin :: "nat \<Rightarrow> jsstr \<Rightarrow> pc_effect \<Rightarrow> kern \<Rightarrow> kern" where
  "kfin i sid e k =
     (if sid \<in> set (kr_sids (k_recs k ! i))
      then k\<lparr>k_recs := (k_recs k)[i := (k_recs k ! i)\<lparr>kr_sids := removeAll sid (kr_sids (k_recs k ! i))\<rparr>],
             k_log := k_log k @ (if k_history k then [e] else [])\<rparr>
      else k)"

lemma map_of_member: "map_of xs k = None \<longleftrightarrow> k \<notin> set (map fst xs)"
  by (simp add: map_of_eq_None_iff)

lemma kern_finalize:
  assumes "i < length (pc_recs s)"
  shows "\<exists>t a b. kern_of (finalize_session i d s) = kfin i (cd_id d) (Finalized (i, cd_id d) t a b (cd_exit d) (cd_reason d)) (kern_of s)"
    and "pc_phase (finalize_session i d s) = pc_phase s" "length (pc_recs (finalize_session i d s)) = length (pc_recs s)"
proof -
  have sids: "kr_sids (k_recs (kern_of s) ! i) = map fst (r_sessions (pc_recs s ! i))"
    using assms by (simp add: kern_of_def krec_of_def)
  show "\<exists>t a b. kern_of (finalize_session i d s) = kfin i (cd_id d) (Finalized (i, cd_id d) t a b (cd_exit d) (cd_reason d)) (kern_of s)"
  proof (cases "map_of (r_sessions (pc_recs s ! i)) (cd_id d)")
    case None
    then have "cd_id d \<notin> set (kr_sids (k_recs (kern_of s) ! i))" unfolding sids map_of_member .
    then show ?thesis unfolding finalize_session_def prec_at_def None by (simp add: kfin_def)
  next
    case (Some v)
    let ?c = "change i (\<lambda>r. r\<lparr>r_sessions := AList.delete (cd_id d) (r_sessions r)\<rparr>) s"
    have c: "kern_of ?c = (kern_of s)\<lparr>k_recs := (k_recs (kern_of s))[i := (k_recs (kern_of s) ! i)\<lparr>kr_sids := removeAll (cd_id d) (kr_sids (k_recs (kern_of s) ! i))\<rparr>]\<rparr>"
      by (rule kern_change) (simp add: krec_of_def delete_keys)
    have "cd_id d \<in> set (kr_sids (k_recs (kern_of s) ! i))" using Some sids by (force dest: map_of_SomeD)
    moreover have "kern_of (effect e ?c) = (kern_of ?c)\<lparr>k_log := k_log (kern_of ?c) @ [e]\<rparr>" if "logged e" for e
      using that by (simp add: kern_of_def effect_def)
    ultimately show ?thesis
      using Some c by (cases v) (auto simp: finalize_session_def prec_at_def kfin_def, auto simp: kern_of_def)
  qed
  show "pc_phase (finalize_session i d s) = pc_phase s" "length (pc_recs (finalize_session i d s)) = length (pc_recs s)"
    by (cases "map_of (r_sessions (pc_recs s ! i)) (cd_id d)"; auto simp: finalize_session_def prec_at_def Let_def change_def effect_def)+
qed

text \<open>What closing may change: session ids go, the log grows.\<close>

definition thinner :: "krec \<Rightarrow> krec \<Rightarrow> bool" where
  "thinner r r' \<longleftrightarrow> r'\<lparr>kr_sids := []\<rparr> = r\<lparr>kr_sids := []\<rparr> \<and> set (kr_sids r') \<subseteq> set (kr_sids r)"

lemma thinner_refl: "thinner r r"
  by (simp add: thinner_def)

lemma thinner_sids_trans: "thinner p q \<Longrightarrow> thinner q r \<Longrightarrow> thinner p r"
  unfolding thinner_def by (elim conjE, intro conjI) (simp, erule (1) subset_trans)

definition closing :: "kern \<Rightarrow> kern \<Rightarrow> bool" where
  "closing k k' \<longleftrightarrow> k_current k' = k_current k \<and> k_gen k' = k_gen k \<and> k_acts k' = k_acts k \<and> k_history k' = k_history k
     \<and> length (k_recs k') = length (k_recs k) \<and> set (k_log k) \<subseteq> set (k_log k')
     \<and> (\<forall>j<length (k_recs k). thinner (k_recs k ! j) (k_recs k' ! j))
     \<and> (kern_inv k \<longrightarrow> kern_inv k')"

lemma closing_refl: "closing k k"
  by (simp add: closing_def thinner_refl)

lemma closingD:
  assumes "closing k k'"
  shows "k_current k' = k_current k" "k_gen k' = k_gen k" "k_acts k' = k_acts k" "k_history k' = k_history k"
    "length (k_recs k') = length (k_recs k)" "set (k_log k) \<subseteq> set (k_log k')"
    "j < length (k_recs k) \<Longrightarrow> thinner (k_recs k ! j) (k_recs k' ! j)" "kern_inv k \<Longrightarrow> kern_inv k'"
  using assms by (simp_all add: closing_def)

lemma closing_trans:
  assumes "closing a b" and "closing b c"
  shows "closing a c"
  unfolding closing_def
proof (intro conjI allI impI)
  note ab = closingD [OF assms(1)] and bc = closingD [OF assms(2)]
  show "set (k_log a) \<subseteq> set (k_log c)" using ab(6) bc(6) by (rule subset_trans)
  show "thinner (k_recs a ! j) (k_recs c ! j)" if "j < length (k_recs a)" for j
    using that ab(5) by (intro thinner_sids_trans [OF ab(7) bc(7)]) simp_all
  show "kern_inv c" if "kern_inv a" by (rule bc(8) [OF ab(8) [OF that]])
qed (simp_all add: closingD(1-5) [OF assms(1)] closingD(1-5) [OF assms(2)])

lemma counts_append [simp]:
  "registrations k (a @ b) = registrations k a + registrations k b" "finalizations k (a @ b) = finalizations k a + finalizations k b"
  by (simp_all add: registrations_def finalizations_def)

lemma kfin_inv:
  assumes "kern_inv k" and "i < length (k_recs k)"
  shows "kern_inv (kfin i sid (Finalized (i, sid) t a b x y) k)"
proof (cases "sid \<in> set (kr_sids (k_recs k ! i))")
  case True
  note inv = kern_invD [OF assms(1)]
  let ?r = "(k_recs k ! i)\<lparr>kr_sids := removeAll sid (kr_sids (k_recs k ! i))\<rparr>"
  let ?k = "kfin i sid (Finalized (i, sid) t a b x y) k"
  have k: "?k = k\<lparr>k_recs := (k_recs k)[i := ?r], k_log := k_log k @ (if k_history k then [Finalized (i, sid) t a b x y] else [])\<rparr>"
    using True by (simp add: kfin_def)
  have cur: "k_current k = Some i" using inv(1) [OF assms(2)] True by (force simp: gone_def)
  have "\<forall>j<length (k_recs ?k). k_current ?k \<noteq> Some j \<longrightarrow> gone j (k_recs ?k ! j) (k_log ?k)"
    using inv(1) cur unfolding k by (auto simp: gone_def nth_list_update)
  moreover have "krec_ok ?r" using inv(3) [OF assms(2)] by (simp add: krec_ok_def distinct_removeAll)
  then have "\<forall>r\<in>set (k_recs ?k). krec_ok r" using assms(1) set_update_subset_insert [of "k_recs k" i ?r] unfolding k by (auto simp: kern_inv_def)
  moreover have "acts_ok ?k" using inv(4) by (rule acts_ok_stop) (use assms(2) in \<open>auto simp: k nth_list_update\<close>)
  moreover have "balanced ?k"
    unfolding balanced_def
  proof (intro allI)
    fix j sid'
    have "registrations (j, sid') (k_log k) = finalizations (j, sid') (k_log k)
        + (if k_history k \<and> j < length (k_recs k) \<and> sid' \<in> set (kr_sids (k_recs k ! j)) then 1 else 0)"
      using inv(5) by (simp add: balanced_def)
    then show "registrations (j, sid') (k_log ?k) = finalizations (j, sid') (k_log ?k)
        + (if k_history ?k \<and> j < length (k_recs ?k) \<and> sid' \<in> set (kr_sids (k_recs ?k ! j)) then 1 else 0)"
      using True assms(2) unfolding k
      by (cases "j = i"; cases "sid' = sid") (auto simp: registrations_def finalizations_def)
  qed
  ultimately show ?thesis using inv(2) unfolding kern_inv_def by (simp add: k)
qed (use assms in \<open>simp add: kfin_def\<close>)

lemma kfin_closing:
  assumes "i < length (k_recs k)"
  shows "closing k (kfin i sid (Finalized (i, sid) t a b x y) k)"
  using kfin_inv [OF _ assms] assms unfolding closing_def
  by (auto simp: kfin_def nth_list_update thinner_def)

lemma length_kern [simp]: "length (k_recs (kern_of s)) = length (pc_recs s)"
  by (simp add: kern_of_def)

lemma finalize_all:
  assumes "i < length (pc_recs s)" and "\<And>sid. cd_id (f sid) = sid" and t_def: "t = foldl (\<lambda>s sid. finalize_session i (f sid) s) s L"
  shows "closing (kern_of s) (kern_of t)" "pc_phase t = pc_phase s"
    "set (kr_sids (k_recs (kern_of t) ! i)) \<subseteq> set (kr_sids (k_recs (kern_of s) ! i)) - set L"
proof -
  have "closing (kern_of s) (kern_of (foldl (\<lambda>s sid. finalize_session i (f sid) s) s L))
    \<and> pc_phase (foldl (\<lambda>s sid. finalize_session i (f sid) s) s L) = pc_phase s
    \<and> set (kr_sids (k_recs (kern_of (foldl (\<lambda>s sid. finalize_session i (f sid) s) s L)) ! i)) \<subseteq> set (kr_sids (k_recs (kern_of s) ! i)) - set L"
    using assms(1)
  proof (induction L arbitrary: s)
    case Nil
    then show ?case by (simp add: closing_refl)
  next
    case (Cons sid L)
    let ?u = "finalize_session i (f sid) s"
    obtain x a b where u: "kern_of ?u = kfin i sid (Finalized (i, sid) x a b (cd_exit (f sid)) (cd_reason (f sid))) (kern_of s)"
      using kern_finalize(1) [OF Cons.prems, of "f sid"] assms(2) by auto
    have c: "closing (kern_of s) (kern_of ?u)" unfolding u using Cons.prems by (intro kfin_closing) simp
    have sids: "set (kr_sids (k_recs (kern_of ?u) ! i)) \<subseteq> set (kr_sids (k_recs (kern_of s) ! i)) - {sid}"
      unfolding u using Cons.prems by (auto simp: kfin_def)
    have len: "i < length (pc_recs ?u)" using Cons.prems kern_finalize(3) [OF Cons.prems] by simp
    show ?case using Cons.IH [OF len] closing_trans [OF c] sids kern_finalize(2) [OF Cons.prems, of "f sid"] by auto
  qed
  then show "closing (kern_of s) (kern_of t)" "pc_phase t = pc_phase s"
    "set (kr_sids (k_recs (kern_of t) ! i)) \<subseteq> set (kr_sids (k_recs (kern_of s) ! i)) - set L"
    unfolding t_def by blast+
qed

lemma finalize_remaining_closes:
  assumes "i < length (pc_recs s)"
  shows "closing (kern_of s) (kern_of (finalize_remaining i reason s))" "pc_phase (finalize_remaining i reason s) = pc_phase s"
    "kr_sids (k_recs (kern_of (finalize_remaining i reason s)) ! i) = []"
proof -
  let ?s = "sample_history i (pc_live s i) s"
  let ?f = "\<lambda>sid. \<lparr>cd_id = sid, cd_ended = None, cd_sent = None, cd_received = None, cd_exit = None, cd_reason = terminal_reason reason\<rparr>"
  let ?L = "map fst (r_sessions (prec_at i ?s))"
  let ?t = "foldl (\<lambda>s sid. finalize_session i (?f sid) s) ?s ?L"
  have same: "kern_of ?s = kern_of s" "pc_phase ?s = pc_phase s" by (simp_all add: kern_same)
  then have len: "i < length (pc_recs ?s)" using assms length_kern by metis
  note all = finalize_all [where f = ?f and L = ?L, OF len _ refl, simplified close_data.select_convs, OF refl]
  have "?L = kr_sids (k_recs (kern_of ?s) ! i)" using len by (simp add: kern_of_def krec_of_def prec_at_def)
  then have "kr_sids (k_recs (kern_of ?t) ! i) = []" using all(3) by (metis Diff_cancel set_empty subset_empty)
  moreover have "kern_of (finalize_remaining i reason s) = kern_of ?t"
    unfolding finalize_remaining_def Let_def by (rule kern_change_same) (simp add: krec_of_def)
  moreover have "pc_phase (finalize_remaining i reason s) = pc_phase ?t"
    by (simp add: finalize_remaining_def Let_def kern_same)
  ultimately show "closing (kern_of s) (kern_of (finalize_remaining i reason s))" "pc_phase (finalize_remaining i reason s) = pc_phase s"
    "kr_sids (k_recs (kern_of (finalize_remaining i reason s)) ! i) = []"
    using all same by simp_all
qed

section \<open>Changing one record\<close>

lemma kern_inv_update:
  assumes "kern_inv k" and "i < length (k_recs k)" and "krec_ok r" and "kr_sids r = kr_sids (k_recs k ! i)"
    and "k_current k \<noteq> Some i \<Longrightarrow> gone i r (k_log k)"
    and "k_gen' = k_gen k \<and> kr_stop r = kr_stop (k_recs k ! i) \<or> k_gen k < k_gen'"
  shows "kern_inv (k\<lparr>k_recs := (k_recs k)[i := r], k_gen := k_gen'\<rparr>)"
proof -
  note inv = kern_invD [OF assms(1)]
  let ?k = "k\<lparr>k_recs := (k_recs k)[i := r], k_gen := k_gen'\<rparr>"
  have "\<forall>j<length (k_recs ?k). k_current ?k \<noteq> Some j \<longrightarrow> gone j (k_recs ?k ! j) (k_log ?k)"
    using inv(1) assms(2,5) by (auto simp: nth_list_update)
  moreover have "\<forall>r\<in>set (k_recs ?k). krec_ok r"
    using assms(1,3) set_update_subset_insert [of "k_recs k" i r] by (auto simp: kern_inv_def)
  moreover have "acts_ok ?k"
    using assms(6)
  proof (elim disjE conjE)
    assume "k_gen' = k_gen k" "kr_stop r = kr_stop (k_recs k ! i)"
    with inv(4) show "acts_ok ?k" by (elim acts_ok_stop) (use assms(2) in \<open>auto simp: nth_list_update\<close>)
  next
    assume "k_gen k < k_gen'"
    then show "acts_ok ?k" using inv(4) unfolding acts_ok_def by fastforce
  qed
  moreover have "balanced ?k"
    using inv(5) assms(2,4) unfolding balanced_def by (auto simp: nth_list_update split: if_splits)
  ultimately show ?thesis using inv(2) unfolding kern_inv_def by simp
qed

section \<open>Every step keeps the invariant\<close>

definition kinv :: "pc \<Rightarrow> bool" where
  "kinv s \<longleftrightarrow> kern_inv (kern_of s)"

named_theorems kinv_rules "preservation of the kernel invariant"

lemma kinv_same: "kern_of t = kern_of s \<Longrightarrow> kinv s \<Longrightarrow> kinv t"
  by (simp add: kinv_def)

lemma owns_kern: "owns i s \<longleftrightarrow> k_current (kern_of s) = Some i"
  by (simp add: owns_def kern_of_def)

lemma owned_length: "kinv s \<Longrightarrow> owns i s \<Longrightarrow> i < length (pc_recs s)"
  using kern_invD(2) [of "kern_of s" i] by (simp add: kinv_def owns_kern)

lemma kern_wait [kern_same]: "kern_of (wait p s) = kern_of s" "kern_of (finish r s) = kern_of s"
  by (simp_all add: wait_def finish_def kern_same)

lemma phase_wait [simp]: "pc_phase (wait p s) = Some p" "pc_phase (finish r s) = None"
  by (simp_all add: wait_def finish_def kern_same)

lemma inv_finish: "kinv s \<Longrightarrow> pc_inv (finish r s)"
  by (simp add: pc_inv_def kinv_def kern_same)

lemma inv_wait: "kinv s \<Longrightarrow> phase_ok (kern_of s) (Some p) \<Longrightarrow> pc_inv (wait p s)"
  by (simp add: pc_inv_def kinv_def kern_same)

lemma pc_inv_kinv: "pc_inv s \<Longrightarrow> kinv s"
  by (simp add: pc_inv_def kinv_def)

lemma owned_record: "kinv s \<Longrightarrow> owns i s \<Longrightarrow> k_recs (kern_of s) ! i = krec_of (pc_recs s ! i)"
  using owned_length [of s i] by (simp add: kern_of_def)

definition silenced :: "krec \<Rightarrow> krec" where
  "silenced r = r\<lparr>kr_cancelled := True, kr_accepting := False\<rparr>"

lemma silenced_ok: "krec_ok r \<Longrightarrow> krec_ok (silenced r)"
  by (simp add: silenced_def krec_ok_def)

lemma kern_silence:
  "kern_of (change i (\<lambda>r. r\<lparr>r_cancelled := True, r_accepting := False\<rparr>) s)
     = (kern_of s)\<lparr>k_recs := (k_recs (kern_of s))[i := silenced (k_recs (kern_of s) ! i)]\<rparr>"
  by (rule kern_change) (simp add: krec_of_def silenced_def)

lemma kern_stop_begin: "kern_of (stop_begin i reason s) = (kern_of s)\<lparr>k_recs := (k_recs (kern_of s))[i := silenced (k_recs (kern_of s) ! i)]\<rparr>"
proof -
  have reason: "kern_of (change i (\<lambda>r. r\<lparr>r_stop_reason := reason\<rparr>) t) = kern_of t" for t
    by (rule kern_change_same) (simp add: krec_of_def)
  show ?thesis unfolding stop_begin_def Let_def by (simp add: kern_same reason kern_silence)
qed

lemma kern_inv_silence:
  assumes "kern_inv k" and "k_current k = Some i"
  shows "kern_inv (k\<lparr>k_recs := (k_recs k)[i := silenced (k_recs k ! i)]\<rparr>)"
  using kern_inv_update [OF assms(1) kern_invD(2) [OF assms] silenced_ok [OF kern_invD(3) [OF assms(1) kern_invD(2) [OF assms]]], of "k_gen k"] assms(2)
  by (simp add: silenced_def)

lemma inv_stop_begin:
  assumes "kinv s" and "owns i s" and p: "\<And>k. phase_ok k (Some p) = stopping k i"
  shows "pc_inv (wait p (stop_begin i reason s))"
proof (rule inv_wait)
  show "kinv (stop_begin i reason s)"
    using assms(1,2) kern_inv_silence [of "kern_of s" i] by (simp add: kinv_def owns_kern kern_stop_begin)
  show "phase_ok (kern_of (stop_begin i reason s)) (Some p)"
    using assms(2) owned_length [OF assms(1,2)] by (simp add: p stopping_def owns_kern kern_stop_begin silenced_def)
qed

lemma inv_stop_then:
  assumes "kinv s" and "\<not> owns i s \<Longrightarrow> pc_inv (k s)" and "\<And>k. phase_ok k (Some p) = stopping k i"
  shows "pc_inv (stop_then i reason p k s)"
  unfolding stop_then_def using assms inv_stop_begin [OF assms(1) _ assms(3)] by simp

text \<open>The answer of a stopped server.\<close>

lemma kern_inv_log: "kern_inv k \<Longrightarrow> kern_inv (k\<lparr>k_log := k_log k @ [StopResolved i]\<rparr>)"
  by (auto simp: kern_inv_def gone_def acts_ok_def balanced_def registrations_def finalizations_def)

lemma stop_done_inv:
  assumes "kinv s" and "stopping (kern_of s) i"
  shows "kinv (stop_done i reason s)" "k_current (kern_of (stop_done i reason s)) = None"
proof -
  let ?s1 = "effect (StopResolved i) s"
  have k1: "kern_of ?s1 = (kern_of s)\<lparr>k_log := k_log (kern_of s) @ [StopResolved i]\<rparr>" by (simp add: kern_of_def effect_def)
  then have inv1: "kern_inv (kern_of ?s1)" using assms(1) kern_inv_log by (simp add: kinv_def)
  have own1: "owns i ?s1" using assms(2) by (simp add: owns_kern k1 stopping_def)
  then have len1: "i < length (pc_recs ?s1)" using inv1 owned_length kinv_def by blast
  let ?s2 = "notify i (stopped_patch @ [(''errorCode'', JNull)]) (finalize_remaining i reason ?s1)"
  have k2: "kern_of ?s2 = kern_of (finalize_remaining i reason ?s1)" by (simp add: kern_same)
  note closes = finalize_remaining_closes [OF len1, of reason]
  note c = closingD [OF closes(1)]
  have inv2: "kern_inv (kern_of ?s2)" using c(8) inv1 k2 by simp
  have cur2: "k_current (kern_of ?s2) = Some i" using c(1) own1 k2 by (simp add: owns_kern)
  then have own2: "owns i ?s2" and len2: "i < length (k_recs (kern_of ?s2))" using kern_invD(2) [OF inv2] by (simp_all add: owns_kern)
  let ?r = "k_recs (kern_of ?s2) ! i"
  have "kr_cancelled (k_recs (kern_of ?s1) ! i)" using assms(2) by (simp add: k1 stopping_def)
  then have "kr_cancelled ?r" using c(7) [of i] len1 k2 by (simp add: thinner_def) (metis krec.select_convs(2) krec.surjective krec.update_convs(4))
  then have quiet: "\<not> kr_accepting ?r" using kern_invD(3) [OF inv2 len2] by (simp add: krec_ok_def)
  have sids: "kr_sids ?r = []" using closes(3) k2 by simp
  have log: "StopResolved i \<in> set (k_log (kern_of ?s2))" using c(6) k1 k2 by auto
  have k3: "kern_of (release i ?s2) = (kern_of ?s2)\<lparr>k_recs := (k_recs (kern_of ?s2))[i := ?r\<lparr>kr_listening := False\<rparr>], k_current := None\<rparr>"
  proof -
    have "kern_of (s\<lparr>pc_current := None\<rparr>) = (kern_of s)\<lparr>k_current := None\<rparr>" for s by (simp add: kern_of_def)
    moreover have "kern_of (change i (\<lambda>r. r\<lparr>r_listening := False\<rparr>) t) = (kern_of t)\<lparr>k_recs := (k_recs (kern_of t))[i := (k_recs (kern_of t) ! i)\<lparr>kr_listening := False\<rparr>]\<rparr>" for t
      by (rule kern_change) (simp add: krec_of_def)
    ultimately show ?thesis using own2 by (simp add: release_def kern_same)
  qed
  have "kern_inv ((kern_of ?s2)\<lparr>k_recs := (k_recs (kern_of ?s2))[i := ?r\<lparr>kr_listening := False\<rparr>], k_gen := k_gen (kern_of ?s2)\<rparr>)"
    by (rule kern_inv_update [OF inv2 len2]) (use kern_invD(3) [OF inv2 len2] cur2 in \<open>simp_all add: krec_ok_def\<close>)
  then have "kern_inv (kern_of (release i ?s2))"
    using cur2 len2 quiet sids log unfolding k3 kern_inv_def by (auto simp: gone_def acts_ok_def balanced_def nth_list_update)
  moreover have "stop_done i reason s = release i ?s2" using own1 by (simp add: stop_done_def Let_def)
  ultimately show "kinv (stop_done i reason s)" "k_current (kern_of (stop_done i reason s)) = None"
    by (simp_all add: kinv_def k3)
qed

lemma stop_failed_kern: "kern_of (stop_failed i s) = kern_of s" "pc_phase (stop_failed i s) = pc_phase s"
  by (simp_all add: stop_failed_def kern_same)

lemma kern_inv_new:
  assumes "kern_inv k" and "k_current k = None" and "krec_ok r" "kr_sids r = []"
  shows "kern_inv (k\<lparr>k_recs := k_recs k @ [r], k_current := Some (length (k_recs k))\<rparr>)"
proof -
  note inv = kern_invD [OF assms(1)]
  let ?k = "k\<lparr>k_recs := k_recs k @ [r], k_current := Some (length (k_recs k))\<rparr>"
  have "\<forall>i<length (k_recs ?k). k_current ?k \<noteq> Some i \<longrightarrow> gone i (k_recs ?k ! i) (k_log ?k)"
    using inv(1) assms(2) by (auto simp: nth_append less_Suc_eq)
  moreover have "acts_ok ?k" using inv(4) unfolding acts_ok_def by (auto simp: nth_append)
  moreover have "balanced ?k"
    unfolding balanced_def
  proof (intro allI)
    fix i sid
    show "registrations (i, sid) (k_log ?k) = finalizations (i, sid) (k_log ?k)
      + (if k_history ?k \<and> i < length (k_recs ?k) \<and> sid \<in> set (kr_sids (k_recs ?k ! i)) then 1 else 0)"
      using inv(5) assms(4) unfolding balanced_def by (cases "i = length (k_recs k)") (auto simp: nth_append)
  qed
  ultimately show ?thesis using assms(1,3) unfolding kern_inv_def by auto
qed

lemma inv_create_failed: "kinv s \<Longrightarrow> pc_inv (create_failed b code s)"
  by (auto simp: create_failed_def Let_def intro!: inv_finish elim: kinv_same [rotated] simp: kern_same)

lemma inv_create_server:
  assumes "kinv s" and none: "pc_current s = None"
  shows "pc_inv (create_server b s)"
proof (cases "stale b s")
  case True
  then show ?thesis using inv_finish [OF assms(1)] by (simp add: create_server_def)
next
  case False
  let ?s = "s\<lparr>pc_creates := tl (pc_creates s)\<rparr>"
  have k: "kern_of ?s = kern_of s" by (simp add: kern_same)
  show ?thesis
  proof (cases "case pc_creates s of [] \<Rightarrow> Created | c # _ \<Rightarrow> c")
    case (CreateThrows code)
    then show ?thesis using False inv_create_failed [OF kinv_same [OF k assms(1)]] by (simp add: create_server_def Let_def)
  next
    case Created
    let ?i = "length (pc_recs s)"
    let ?u = "?s\<lparr>pc_recs := pc_recs s @ [new_record b], pc_current := Some ?i, pc_last_stats := None\<rparr>"
    have u: "kern_of ?u = (kern_of s)\<lparr>k_recs := k_recs (kern_of s) @ [krec_of (new_record b)], k_current := Some (length (k_recs (kern_of s)))\<rparr>"
      by (simp add: kern_of_def)
    have "kern_inv (kern_of ?u)"
      unfolding u by (rule kern_inv_new) (use assms in \<open>simp_all add: kinv_def kern_of_def krec_of_def new_record_def krec_ok_def\<close>)
    then have "kinv ?u" by (simp add: kinv_def)
    then show ?thesis
      using False Created
      by (auto simp: create_server_def Let_def kern_same current_kern [symmetric] intro!: inv_wait elim!: kinv_same [rotated])
  qed
qed

lemma inv_begin_keys: "kinv s \<Longrightarrow> pc_current s = None \<Longrightarrow> pc_inv (begin_keys b s)"
  unfolding begin_keys_def using inv_create_server by (auto intro!: inv_wait simp: kern_of_def)

lemma inv_after_replace: "kinv s \<Longrightarrow> pc_current s = None \<Longrightarrow> pc_inv (after_replace b s)"
  unfolding after_replace_def using inv_begin_keys inv_finish by auto

lemma inv_begin_task:
  assumes "kinv s"
  shows "pc_inv (begin_task b s)"
proof (cases "pc_current s")
  case None
  then show ?thesis using inv_begin_keys [OF assms] inv_finish [OF assms] by (simp add: begin_task_def)
next
  case (Some i)
  have "kinv (effect (UpdateCookie i (b_cookie b)) s)" using assms by (elim kinv_same [rotated]) (simp add: kern_same)
  moreover have "owns i s" using Some by (simp add: owns_def)
  ultimately show ?thesis
    using Some inv_finish assms inv_stop_then [OF assms, of i _ "StopForReplace b i"] by (simp add: begin_task_def)
qed

lemma inv_after_failed_start: "kinv s \<Longrightarrow> pc_inv (after_failed_start c s)"
  by (auto simp: after_failed_start_def kern_same intro!: inv_finish elim!: kinv_same [rotated])

lemma inv_start_failed: "kinv s \<Longrightarrow> pc_inv (start_failed b i s)"
  unfolding start_failed_def Let_def by (rule inv_stop_then) (simp_all add: inv_after_failed_start)

lemma inv_start_returned:
  assumes "kinv s"
  shows "pc_inv (start_returned b i started s)"
proof -
  have "kern_of (change i (\<lambda>r. r\<lparr>r_started := True\<rparr>) s) = kern_of s" by (rule kern_change_same) (simp add: krec_of_def)
  then show ?thesis
    unfolding start_returned_def Let_def
    using inv_stop_then [OF assms, of i _ "StopCancelled b i"] inv_finish [OF assms]
    by (auto simp: kern_same intro!: inv_finish kinv_same [OF _ assms])
qed

lemma inv_run_task: "kinv s \<Longrightarrow> pc_inv (run_task t s)"
  unfolding run_task_def
  by (cases t) (auto simp: inv_begin_task inv_finish intro!: inv_stop_then split: option.splits)

lemma inv_next_task:
  assumes "pc_inv s"
  shows "pc_inv (next_task s)"
proof -
  have "kinv (s\<lparr>pc_tasks := ts\<rparr>)" for ts by (rule kinv_same [OF _ pc_inv_kinv [OF assms]]) (simp add: kern_same)
  then show ?thesis using assms unfolding next_task_def by (auto split: option.splits list.splits intro: inv_run_task)
qed

lemma inv_stop_answer:
  assumes "pc_inv s"
  shows "pc_inv (stop_answer ok s)"
proof (cases "pc_phase s")
  case (Some p)
  have k: "kinv s" and ph: "phase_ok (kern_of s) (Some p)" using assms Some by (simp_all add: pc_inv_def kinv_def)
  have failed: "kinv (stop_failed i s)" for i using k by (simp add: kinv_def stop_failed_kern)
  note settled = stop_done_inv [OF k]
  show ?thesis
    using Some ph inv_after_replace settled inv_finish failed inv_start_failed inv_after_failed_start assms
    by (cases p) (auto simp: stop_answer_def current_kern)
qed (use assms in \<open>simp add: stop_answer_def\<close>)

lemma inv_keys_answer: "pc_inv s \<Longrightarrow> pc_inv (keys_answer r s)"
  using inv_create_server [OF pc_inv_kinv] inv_create_failed [OF pc_inv_kinv]
  by (auto simp: keys_answer_def pc_inv_def [of s] current_kern split: option.splits phase.splits)

lemma inv_start_answer: "pc_inv s \<Longrightarrow> pc_inv (start_answer r s)"
  using inv_start_returned [OF pc_inv_kinv] inv_start_failed [OF pc_inv_kinv]
  by (simp add: start_answer_def split: option.splits phase.splits)

text \<open>Steps that keep the current record and its flag.\<close>

lemma phase_ok_mono:
  assumes "phase_ok k ph" and "k_current k' = k_current k"
    and "\<And>i. k_current k = Some i \<Longrightarrow> kr_cancelled (k_recs k ! i) \<Longrightarrow> kr_cancelled (k_recs k' ! i)"
  shows "phase_ok k' ph"
proof (cases ph)
  case (Some p)
  then show ?thesis using assms by (cases p) (auto simp: stopping_def)
qed simp

lemma pc_inv_step:
  assumes "pc_inv s" and "kern_inv (kern_of t)" and "pc_phase t = pc_phase s" and "k_current (kern_of t) = k_current (kern_of s)"
    and "\<And>i. k_current (kern_of s) = Some i \<Longrightarrow> kr_cancelled (k_recs (kern_of s) ! i) \<Longrightarrow> kr_cancelled (k_recs (kern_of t) ! i)"
  shows "pc_inv t"
  using assms phase_ok_mono unfolding pc_inv_def by metis

lemma closing_step:
  assumes "pc_inv s" and "closing (kern_of s) (kern_of t)" and "pc_phase t = pc_phase s"
  shows "pc_inv t"
proof (rule pc_inv_step [OF assms(1) _ assms(3)])
  note c = closingD [OF assms(2)]
  have inv: "kern_inv (kern_of s)" using assms(1) by (simp add: pc_inv_def)
  then show "kern_inv (kern_of t)" by (rule c(8))
  show "k_current (kern_of t) = k_current (kern_of s)" by (rule c(1))
  fix i assume "k_current (kern_of s) = Some i" "kr_cancelled (k_recs (kern_of s) ! i)"
  then show "kr_cancelled (k_recs (kern_of t) ! i)"
    using c(7) [of i] kern_invD(2) [OF inv, of i]
    by (simp add: thinner_def) (metis krec.select_convs(2) krec.surjective krec.update_convs(4))
qed

lemma kern_inv_register:
  assumes "kern_inv k" and "k_current k = Some i" and "sid \<notin> set (kr_sids (k_recs k ! i))"
  shows "kern_inv (k\<lparr>k_recs := (k_recs k)[i := (k_recs k ! i)\<lparr>kr_sids := kr_sids (k_recs k ! i) @ [sid]\<rparr>],
      k_log := k_log k @ (if k_history k then [Registered (i, sid) p a b] else [])\<rparr>)"
proof -
  note inv = kern_invD [OF assms(1)]
  note len = inv(2) [OF assms(2)]
  let ?r = "(k_recs k ! i)\<lparr>kr_sids := kr_sids (k_recs k ! i) @ [sid]\<rparr>"
  let ?k = "k\<lparr>k_recs := (k_recs k)[i := ?r], k_log := k_log k @ (if k_history k then [Registered (i, sid) p a b] else [])\<rparr>"
  have "\<forall>j<length (k_recs ?k). k_current ?k \<noteq> Some j \<longrightarrow> gone j (k_recs ?k ! j) (k_log ?k)"
    using inv(1) assms(2) len by (auto simp: gone_def nth_list_update)
  moreover have "krec_ok ?r" using inv(3) [OF len] assms(3) by (simp add: krec_ok_def)
  then have "\<forall>r\<in>set (k_recs ?k). krec_ok r" using assms(1) set_update_subset_insert [of "k_recs k" i ?r] by (auto simp: kern_inv_def)
  moreover have "acts_ok ?k" using inv(4) by (rule acts_ok_stop) (use len in \<open>auto simp: nth_list_update\<close>)
  moreover have "balanced ?k"
    unfolding balanced_def
  proof (intro allI)
    fix j sid'
    have "registrations (j, sid') (k_log k) = finalizations (j, sid') (k_log k)
        + (if k_history k \<and> j < length (k_recs k) \<and> sid' \<in> set (kr_sids (k_recs k ! j)) then 1 else 0)"
      using inv(5) by (simp add: balanced_def)
    then show "registrations (j, sid') (k_log ?k) = finalizations (j, sid') (k_log ?k)
        + (if k_history ?k \<and> j < length (k_recs ?k) \<and> sid' \<in> set (kr_sids (k_recs ?k ! j)) then 1 else 0)"
      using assms(3) len by (cases "j = i"; cases "sid' = sid") (auto simp: registrations_def finalizations_def)
  qed
  ultimately show ?thesis using inv(2) unfolding kern_inv_def by simp
qed

lemma inv_session_open:
  assumes "pc_inv s"
  shows "pc_inv (session_open i l s)"
proof (cases "owns i s \<and> map_of (r_sessions (prec_at i s)) (lv_id l) = None")
  case False
  then show ?thesis by (intro pc_inv_same [OF assms]) (auto simp: session_open_def Let_def kern_same)
next
  case True
  have k: "kinv s" by (rule pc_inv_kinv [OF assms])
  have i: "k_current (kern_of s) = Some i" and len: "i < length (pc_recs s)" using True owned_length [OF k] by (simp_all add: owns_kern)
  have sids: "kr_sids (k_recs (kern_of s) ! i) = map fst (r_sessions (prec_at i s))"
    using len by (simp add: kern_of_def krec_of_def prec_at_def)
  then have new: "lv_id l \<notin> set (kr_sids (k_recs (kern_of s) ! i))" using True unfolding sids map_of_member [symmetric] by simp
  let ?c = "change i (\<lambda>r. r\<lparr>r_sessions := r_sessions r @ [(lv_id l, lv_sent l, lv_received l)]\<rparr>) s"
  let ?e = "Registered (i, lv_id l) (ps_profile (r_owner (prec_at i ?c))) (lv_sent l) (lv_received l)"
  let ?u = "if pc_history ?c then effect ?e ?c else ?c"
  let ?r = "(k_recs (kern_of s) ! i)\<lparr>kr_sids := kr_sids (k_recs (kern_of s) ! i) @ [lv_id l]\<rparr>"
  have c: "kern_of ?c = (kern_of s)\<lparr>k_recs := (k_recs (kern_of s))[i := ?r]\<rparr>"
    by (rule kern_change) (simp add: krec_of_def)
  have u: "kern_of ?u = (kern_of s)\<lparr>k_recs := (k_recs (kern_of s))[i := ?r], k_log := k_log (kern_of s) @ (if k_history (kern_of s) then [?e] else [])\<rparr>"
  proof -
    have "kern_of (effect ?e ?c) = (kern_of ?c)\<lparr>k_log := k_log (kern_of ?c) @ [?e]\<rparr>" by (simp add: kern_of_def effect_def)
    moreover have "pc_history ?c = k_history (kern_of s)" by (simp add: kern_of_def change_def)
    ultimately show ?thesis using c by (simp add: kern_of_def)
  qed
  have "pc_inv ?u"
  proof (rule pc_inv_step [OF assms])
    show "kern_inv (kern_of ?u)" unfolding u using k by (intro kern_inv_register [OF _ i new]) (simp add: kinv_def)
    show "pc_phase ?u = pc_phase s" by (simp add: change_def effect_def)
  qed (use len in \<open>simp_all add: u nth_list_update\<close>)
  moreover have "session_open i l s = s \<or> session_open i l s =
      (if \<not> shown_record i ?u then ?u
       else effect (NewSession (r_scope (prec_at i ?u))) (effect (SessionOpened (r_scope (prec_at i ?u)) (Suc (pc_sequence ?u)) (lv_id l))
         (?u\<lparr>pc_sequence := Suc (pc_sequence ?u)\<rparr>)))"
    using True unfolding session_open_def Let_def by (cases "r_candidate (prec_at i s) \<or> r_cancelled (prec_at i s) \<or> r_history_closed (prec_at i s)") (simp_all only: simp_thms if_True if_False)
  ultimately show ?thesis using assms pc_inv_same [of ?u] by (elim disjE) (auto simp: kern_same)
qed

lemma inv_session_close:
  assumes "pc_inv s"
  shows "pc_inv (session_close i d s)"
proof (cases "owns i s")
  case True
  let ?t = "finalize_session i d s"
  have len: "i < length (pc_recs s)" using owned_length [OF pc_inv_kinv [OF assms] True] .
  obtain x a b where t: "kern_of ?t = kfin i (cd_id d) (Finalized (i, cd_id d) x a b (cd_exit d) (cd_reason d)) (kern_of s)"
    using kern_finalize(1) [OF len] by blast
  have "pc_inv ?t"
    by (rule closing_step [OF assms]) (use len kern_finalize(2) [OF len] in \<open>simp_all add: t kfin_closing\<close>)
  then show ?thesis using True by (elim pc_inv_same) (simp_all add: session_close_def Let_def kern_same)
qed (use assms in \<open>simp add: session_close_def\<close>)

lemma inv_server_stopped:
  assumes "pc_inv s" and "owns i s"
  shows "pc_inv (notify i stopped_patch (change i (\<lambda>r. r\<lparr>r_started := False\<rparr>) (finalize_remaining i reason (clear_timers s))))"
proof -
  let ?s = "clear_timers s"
  have "pc_inv ?s" by (rule pc_inv_same [OF assms(1)]) (simp_all add: kern_same)
  moreover have "i < length (pc_recs ?s)" using owned_length [OF pc_inv_kinv [OF assms(1)] assms(2)] by (simp add: clear_timers_def)
  note closes = finalize_remaining_closes [OF this, of reason]
  ultimately have "pc_inv (finalize_remaining i reason ?s)" using closing_step closes(1,2) by blast
  moreover have "kern_of (change i (\<lambda>r. r\<lparr>r_started := False\<rparr>) t) = kern_of t" for t by (rule kern_change_same) (simp add: krec_of_def)
  ultimately show ?thesis by (elim pc_inv_same) (simp_all add: kern_same)
qed

lemma inv_server_event:
  assumes "pc_inv s"
  shows "pc_inv (server_event i ev s)"
proof -
  have started: "kern_of (change i (\<lambda>r. r\<lparr>r_started := True, r_config := g r\<rparr>) s) = kern_of s" for g
    by (rule kern_change_same) (simp add: krec_of_def)
  have same: "kern_of t = kern_of s \<Longrightarrow> pc_phase t = pc_phase s \<Longrightarrow> pc_inv t" for t by (rule pc_inv_same [OF assms])
  show ?thesis
    using assms inv_session_open [OF assms] inv_session_close [OF assms] inv_server_stopped [OF assms]
    by (cases ev) (auto simp: server_event_def Let_def kern_same started intro!: same)
qed

lemma kern_gen: "kern_of (s\<lparr>pc_generation := n\<rparr>) = (kern_of s)\<lparr>k_gen := n\<rparr>" "pc_phase (s\<lparr>pc_generation := n\<rparr>) = pc_phase s"
  by (simp_all add: kern_of_def)

lemma kern_inv_gen: "kern_inv k \<Longrightarrow> k_gen k \<le> n \<Longrightarrow> kern_inv (k\<lparr>k_gen := n\<rparr>)"
  unfolding kern_inv_def acts_ok_def balanced_def by fastforce

lemma inv_gen: "pc_inv s \<Longrightarrow> pc_inv (s\<lparr>pc_generation := Suc (pc_generation s)\<rparr>)"
  by (rule pc_inv_step) (auto simp: kern_gen pc_inv_def intro!: kern_inv_gen, auto simp: kern_of_def)

lemma inv_cancel_listen:
  assumes "pc_inv s"
  shows "pc_inv (cancel_listen s)"
proof (cases "pc_current s")
  case (Some i)
  then have i: "k_current (kern_of s) = Some i" by (simp add: kern_of_def)
  have len: "i < length (k_recs (kern_of s))" using assms kern_invD(2) [of "kern_of s" i] i by (simp add: pc_inv_def)
  have "pc_inv (effect (StopServer i None) (change i (\<lambda>r. r\<lparr>r_cancelled := True, r_accepting := False\<rparr>) s))"
    by (rule pc_inv_step [OF assms])
      (use assms i len kern_inv_silence [of "kern_of s" i] in \<open>simp_all add: kern_same kern_silence pc_inv_def silenced_def nth_list_update\<close>)
  then show ?thesis using Some assms by (simp add: cancel_listen_def)
qed (use assms in \<open>simp add: cancel_listen_def\<close>)

lemma inv_record_change:
  assumes "pc_inv s" and i: "pc_current s = Some i" and n: "pc_generation s \<le> n"
    and k: "kern_of t = (kern_of s)\<lparr>k_recs := (k_recs (kern_of s))[i := r], k_gen := n\<rparr>" and "pc_phase t = pc_phase s"
    and r: "krec_ok r" "kr_sids r = kr_sids (k_recs (kern_of s) ! i)" "kr_cancelled (k_recs (kern_of s) ! i) \<Longrightarrow> kr_cancelled r"
    and stop: "n = pc_generation s \<Longrightarrow> kr_stop r = kr_stop (k_recs (kern_of s) ! i)"
  shows "pc_inv t"
proof (rule pc_inv_step [OF assms(1) _ assms(5)])
  have inv: "kern_inv (kern_of s)" using assms(1) by (simp add: pc_inv_def)
  have cur: "k_current (kern_of s) = Some i" using i by (simp add: kern_of_def)
  have gen: "k_gen (kern_of s) = pc_generation s" by (simp add: kern_of_def)
  note len = kern_invD(2) [OF inv cur]
  show "kern_inv (kern_of t)"
    unfolding k by (rule kern_inv_update [OF inv len r(1,2)]) (use cur n stop gen in auto)
  show "k_current (kern_of t) = k_current (kern_of s)" by (simp add: k)
  fix j assume "k_current (kern_of s) = Some j" "kr_cancelled (k_recs (kern_of s) ! j)"
  then show "kr_cancelled (k_recs (kern_of t) ! j)" using cur len r(3) by (simp add: k)
qed

lemma inv_stop_call:
  assumes "pc_inv s"
  shows "pc_inv (stop_call reason s)"
proof (cases "pc_current s")
  case None
  then have "stop_call reason s = enqueue (StopTask reason) (s\<lparr>pc_generation := Suc (pc_generation s)\<rparr>)"
    by (simp add: stop_call_def Let_def cancel_listen_def)
  then show ?thesis by (intro pc_inv_same [OF inv_gen [OF assms]]) (simp_all add: kern_same)
next
  case (Some i)
  have k: "kinv s" and own: "owns i s" using pc_inv_kinv [OF assms] Some by (simp_all add: owns_def)
  have ok: "krec_ok (k_recs (kern_of s) ! i)" using kern_invD(3) [of "kern_of s" i] k owned_length [OF k own] by (simp add: kinv_def)
  note rec = owned_record [OF k own]
  let ?g = "s\<lparr>pc_generation := Suc (pc_generation s)\<rparr>"
  let ?c = "change i (\<lambda>r. r\<lparr>r_stop_requested := True, r_accepting := False\<rparr>) ?g"
  let ?k = "(k_recs (kern_of s) ! i)\<lparr>kr_stop := True, kr_accepting := False\<rparr>"
  have c: "kern_of ?c = (kern_of s)\<lparr>k_recs := (k_recs (kern_of s))[i := ?k], k_gen := Suc (pc_generation s)\<rparr>"
    using kern_change [of "\<lambda>r. r\<lparr>r_stop_requested := True, r_accepting := False\<rparr>" ?g i "\<lambda>r. r\<lparr>kr_stop := True, kr_accepting := False\<rparr>"]
    by (simp add: krec_of_def kern_gen)
  have cur: "pc_current ?c = Some i" using Some by (simp add: change_def)
  have len: "i < length (k_recs (kern_of s))" using owned_length [OF k own] by simp
  let ?t = "cancel_listen ?c"
  have "pc_inv ?t"
  proof (cases "r_started (prec_at i ?c) \<and> \<not> r_candidate (prec_at i ?c)")
    case True
    have "r_candidate (prec_at i ?c) = kr_candidate (k_recs (kern_of s) ! i)"
      using rec len by (simp add: prec_at_def change_def krec_of_def)
    moreover have "?t = ?c" using True cur by (simp add: cancel_listen_def)
    ultimately show ?thesis
      using True ok
      by (intro inv_record_change [OF assms Some, of "Suc (pc_generation s)" _ ?k]) (simp_all add: c krec_ok_def kern_same kern_gen)
  next
    case False
    have t: "kern_of ?t = (kern_of s)\<lparr>k_recs := (k_recs (kern_of s))[i := silenced ?k], k_gen := Suc (pc_generation s)\<rparr>" "pc_phase ?t = pc_phase s"
      unfolding cancel_listen_def cur option.case if_not_P [OF False] using len by (simp_all add: kern_same kern_silence c kern_gen)
    show ?thesis
      using ok by (intro inv_record_change [OF assms Some, of "Suc (pc_generation s)" _ "silenced ?k"]) (simp_all add: t krec_ok_def silenced_def)
  qed
  moreover have "stop_call reason s = enqueue (StopTask reason) ?t" using Some by (simp add: stop_call_def Let_def)
  ultimately show ?thesis by (elim pc_inv_same) (simp_all add: kern_same)
qed

lemma inv_set_scope: "pc_inv s \<Longrightarrow> pc_inv (set_scope scope s)"
proof -
  assume inv: "pc_inv s"
  have "kern_of (change i (\<lambda>r. r\<lparr>r_scope := scope\<rparr>) t) = kern_of t" for i t by (rule kern_change_same) (simp add: krec_of_def)
  then show "pc_inv (set_scope scope s)"
    using pc_inv_same [OF inv] by (simp add: set_scope_def Let_def kern_same kern_fields(9) split: option.splits)
qed

lemma inv_dispose_pc:
  assumes "pc_inv s"
  shows "pc_inv (dispose_pc s)"
proof -
  have "pc_inv (s\<lparr>pc_disposed := True\<rparr>)" by (rule pc_inv_same [OF assms]) (simp_all add: kern_same)
  from inv_gen [OF this] have "pc_inv (clear_timers (s\<lparr>pc_disposed := True, pc_generation := Suc (pc_generation s)\<rparr>))"
    by (elim pc_inv_same) (simp_all add: kern_same)
  from inv_cancel_listen [OF this] show ?thesis
    unfolding dispose_pc_def by (elim pc_inv_same) (simp_all add: kern_same)
qed

lemma kern_inv_acts:
  assumes "kern_inv k" and "set acts \<subseteq> set (k_acts k)"
  shows "kern_inv (k\<lparr>k_acts := acts\<rparr>)"
proof -
  have "acts_ok (k\<lparr>k_acts := acts\<rparr>)" using kern_invD(4) [OF assms(1)] assms(2) unfolding acts_ok_def by auto
  then show ?thesis using assms(1) unfolding kern_inv_def balanced_def by simp
qed

lemma inv_activate:
  assumes "pc_inv s"
  shows "pc_inv (activate_call transaction s)"
proof -
  have refused: "pc_inv (effect (Activated r) s)" for r by (rule pc_inv_same [OF assms]) (simp_all add: kern_same)
  have pending: "pc_inv (s\<lparr>pc_activations := pc_activations s @ [(i, pc_generation s, sc)]\<rparr>)"
    if i: "pc_current s = Some i" and r: "r_candidate (prec_at i s)" "\<not> r_cancelled (prec_at i s)" for i sc
  proof (rule pc_inv_step [OF assms])
    have k: "kinv s" and own: "owns i s" using pc_inv_kinv [OF assms] i by (simp_all add: owns_def)
    have len: "i < length (k_recs (kern_of s))" using owned_length [OF k own] by simp
    have "krec_ok (k_recs (kern_of s) ! i)" using kern_invD(3) [of "kern_of s" i] k len by (simp add: kinv_def)
    then have "\<not> kr_stop (k_recs (kern_of s) ! i)"
      using r owned_record [OF k own] by (auto simp: krec_ok_def krec_of_def prec_at_def)
    then show "kern_inv (kern_of (s\<lparr>pc_activations := pc_activations s @ [(i, pc_generation s, sc)]\<rparr>))"
      using k len unfolding kinv_def kern_inv_def by (auto simp: kern_of_def acts_ok_def balanced_def)
  qed (simp_all add: kern_of_def)
  show ?thesis using refused pending by (auto simp: activate_call_def Let_def split: option.splits)
qed

lemma inv_committed:
  assumes "pc_inv s"
  shows "pc_inv (committed_answer k answer s)"
proof (cases "length (pc_activations s) \<le> k")
  case False
  obtain i g sc where act: "pc_activations s ! k = (i, g, sc)" by (metis prod_cases3)
  let ?s = "s\<lparr>pc_activations := take k (pc_activations s) @ drop (Suc k) (pc_activations s)\<rparr>"
  have inv: "pc_inv ?s"
  proof (rule pc_inv_step [OF assms])
    have "set (take k (pc_activations s) @ drop (Suc k) (pc_activations s)) \<subseteq> set (pc_activations s)"
      using set_take_subset set_drop_subset by fastforce
    moreover have "kern_of ?s = (kern_of s)\<lparr>k_acts := take k (pc_activations s) @ drop (Suc k) (pc_activations s)\<rparr>" by (simp add: kern_of_def)
    moreover have "k_acts (kern_of s) = pc_activations s" by (simp add: kern_of_def)
    ultimately show "kern_inv (kern_of ?s)" using assms kern_inv_acts unfolding pc_inv_def by metis
  qed (simp_all add: kern_of_def)
  have refused: "pc_inv (effect (Activated r) ?s)" for r by (rule pc_inv_same [OF inv]) (simp_all add: kern_same)
  have active: "pc_inv (change i (\<lambda>r. r\<lparr>r_accepting := True, r_candidate := False\<rparr>) ?s)" (is "pc_inv ?c")
    if own: "owns i ?s" and r: "\<not> r_cancelled (prec_at i ?s)" and g: "g = pc_generation ?s"
  proof -
    have k: "kinv ?s" by (rule pc_inv_kinv [OF inv])
    have len: "i < length (k_recs (kern_of ?s))" using owned_length [OF k own] by simp
    have ok: "krec_ok (k_recs (kern_of ?s) ! i)" using kern_invD(3) [of "kern_of ?s" i] k len by (simp add: kinv_def)
    have "(i, g, sc) \<in> set (k_acts (kern_of s))" using act False by (metis kern.select_convs(4) kern_of_def not_le nth_mem)
    then have "\<not> kr_stop (k_recs (kern_of s) ! i)"
      using assms g unfolding pc_inv_def kern_inv_def acts_ok_def by (fastforce simp: kern_of_def)
    then have "\<not> kr_stop (k_recs (kern_of ?s) ! i)" by (simp add: kern_of_def)
    moreover have "\<not> kr_cancelled (k_recs (kern_of ?s) ! i)" using r owned_record [OF k own] by (simp add: krec_of_def prec_at_def)
    moreover have after: "kern_of ?c = (kern_of ?s)\<lparr>k_recs := (k_recs (kern_of ?s))[i := (k_recs (kern_of ?s) ! i)\<lparr>kr_accepting := True, kr_candidate := False\<rparr>],
        k_gen := pc_generation ?s\<rparr>"
      using kern_change [of "\<lambda>r. r\<lparr>r_accepting := True, r_candidate := False\<rparr>" ?s i "\<lambda>r. r\<lparr>kr_accepting := True, kr_candidate := False\<rparr>"]
      by (simp add: krec_of_def) (simp add: kern_of_def)
    ultimately show ?thesis
      using own ok by (intro inv_record_change [OF inv _ _ after]) (simp_all add: owns_def krec_ok_def kern_same)
  qed
  have "pc_inv (effect (Activated Finished) (send_stats i (start_timers i (notify i p ?c))))"
    if "pc_inv ?c" for p and c :: "pc \<Rightarrow> pc"
    using that by (elim pc_inv_same) (simp_all add: kern_same)
  then show ?thesis
    using False act refused active unfolding committed_answer_def Let_def by (auto split: sum.splits)
qed (use assms in \<open>simp add: committed_answer_def\<close>)

section \<open>Runs\<close>

lemma pc_inv_event: "pc_inv s \<Longrightarrow> pc_inv (pc_step s e)"
proof -
  assume inv: "pc_inv s"
  note same = pc_inv_same [OF inv]
  show ?thesis
  proof (cases e)
    case (StartCall config cookie scope)
    then show ?thesis by (auto simp: start_call_def kern_same intro!: same)
  next
    case (CandidateCall config cookie scope transaction keys)
    then show ?thesis by (cases transaction) (auto simp: candidate_call_def kern_same intro!: same)
  next
    case CancelPending
    then show ?thesis using inv_cancel_listen [OF inv_gen [OF inv]] by (simp add: cancel_pending_def)
  next
    case StatsCall
    then show ?thesis by (auto simp: kern_same case_prod_beta intro!: same)
  qed (use inv in \<open>auto simp: inv_activate inv_committed inv_stop_call inv_set_scope inv_dispose_pc inv_next_task inv_stop_answer
      inv_keys_answer inv_start_answer inv_server_event kern_same split: option.splits intro!: same\<close>)
qed

lemma pc_inv_create: "pc_inv (create_pc h cs)"
  by (simp add: pc_inv_def kern_inv_def create_pc_def kern_of_def acts_ok_def balanced_def registrations_def finalizations_def)

interpretation proxy_runs: event_machine pc_step pc_inv
  by unfold_locales (rule pc_inv_event)

lemma pc_run_inv: "kern_inv (kern_of (foldl pc_step (create_pc h cs) evs))"
  using proxy_runs.inv_run [OF pc_inv_create] by (simp add: pc_inv_def)

lemma counts_logged: "registrations k (filter logged es) = registrations k es" "finalizations k (filter logged es) = finalizations k es"
proof -
  have "(case e of Registered k' a b c \<Rightarrow> k' = k | _ \<Rightarrow> False) \<Longrightarrow> logged e" "(case e of Finalized k' a b c d f \<Rightarrow> k' = k | _ \<Rightarrow> False) \<Longrightarrow> logged e" for e
    by (cases e; simp)+
  then show "registrations k (filter logged es) = registrations k es" "finalizations k (filter logged es) = finalizations k es"
    unfolding registrations_def finalizations_def by (induction es) auto
qed

section \<open>Who may start to accept\<close>

text \<open>No candidate is made an ordinary server, and no server starts to accept.\<close>

definition grows :: "pc \<Rightarrow> pc \<Rightarrow> bool" where
  "grows s t \<longleftrightarrow> length (pc_recs s) \<le> length (pc_recs t) \<and> (\<forall>j<length (pc_recs s).
     (r_candidate (pc_recs s ! j) \<longrightarrow> r_candidate (pc_recs t ! j)) \<and> (r_accepting (pc_recs t ! j) \<longrightarrow> r_accepting (pc_recs s ! j)))"

named_theorems grows_rules "steps that let no server start to accept"

lemma grows_refl [grows_rules]: "grows s s"
  by (simp add: grows_def)

lemma grows_fields [simp]:
  "grows s (t\<lparr>pc_scope := x1\<rparr>) = grows s t" "grows s (t\<lparr>pc_current := x2\<rparr>) = grows s t" "grows s (t\<lparr>pc_tasks := x3\<rparr>) = grows s t"
  "grows s (t\<lparr>pc_phase := x4\<rparr>) = grows s t" "grows s (t\<lparr>pc_disposed := x5\<rparr>) = grows s t" "grows s (t\<lparr>pc_sequence := x6\<rparr>) = grows s t"
  "grows s (t\<lparr>pc_sample_timer := x7\<rparr>) = grows s t" "grows s (t\<lparr>pc_traffic_timer := x8\<rparr>) = grows s t" "grows s (t\<lparr>pc_generation := x9\<rparr>) = grows s t"
  "grows s (t\<lparr>pc_last_stats := x10\<rparr>) = grows s t" "grows s (t\<lparr>pc_activations := x11\<rparr>) = grows s t" "grows s (t\<lparr>pc_live := x12\<rparr>) = grows s t"
  "grows s (t\<lparr>pc_creates := x13\<rparr>) = grows s t" "grows s (t\<lparr>pc_now := x14\<rparr>) = grows s t" "grows s (t\<lparr>pc_wall := x15\<rparr>) = grows s t"
  "grows s (t\<lparr>pc_out := x16\<rparr>) = grows s t" "grows s (effect e t) = grows s t" "grows s (clear_timers t) = grows s t"
  "grows s (start_timers i t) = grows s t" "grows s (notify i p t) = grows s t" "grows s (enqueue k t) = grows s t"
  "grows s (wait ph t) = grows s t" "grows s (finish r t) = grows s t"
  by (simp_all add: grows_def effect_def clear_timers_def start_timers_def notify_def enqueue_def wait_def finish_def)

lemma grows_change [grows_rules]:
  "grows s t \<Longrightarrow> (\<And>r. r_candidate r \<Longrightarrow> r_candidate (f r)) \<Longrightarrow> (\<And>r. r_accepting (f r) \<Longrightarrow> r_accepting r) \<Longrightarrow> grows s (change i f t)"
proof -
  assume a: "grows s t" "\<And>r. r_candidate r \<Longrightarrow> r_candidate (f r)" "\<And>r. r_accepting (f r) \<Longrightarrow> r_accepting r"
  have "pc_recs (change i f t) ! j = (if j = i \<and> i < length (pc_recs t) then f (pc_recs t ! j) else pc_recs t ! j)" for j
    by (cases "i < length (pc_recs t)") (auto simp: change_def nth_list_update list_update_beyond)
  moreover have "length (pc_recs (change i f t)) = length (pc_recs t)" by (simp add: change_def)
  ultimately show ?thesis using a by (auto simp: grows_def)
qed

lemma grows_fold: "(\<And>t x. grows s t \<Longrightarrow> grows s (f t x)) \<Longrightarrow> grows s t \<Longrightarrow> grows s (foldl f t xs)"
  by (induction xs arbitrary: t) auto

lemma grows_sessions [grows_rules]:
  "grows s t \<Longrightarrow> grows s (sample_one i t l)" "grows s t \<Longrightarrow> grows s (finalize_session i d t)"
  by (auto simp: sample_one_def finalize_session_def Let_def split: option.split intro!: grows_rules)

lemma grows_history [grows_rules]: "grows s t \<Longrightarrow> grows s (sample_history i ls t)"
  by (auto simp: sample_history_def intro!: grows_fold grows_rules)

lemma grows_remaining [grows_rules]: "grows s t \<Longrightarrow> grows s (finalize_remaining i reason t)"
  by (auto simp: finalize_remaining_def Let_def intro!: grows_fold grows_rules)

lemma grows_sample [grows_rules]: "grows s t \<Longrightarrow> grows s (snd (sample t))"
  by (auto simp: sample_def Let_def split: option.split intro!: grows_rules)

lemma grows_send [grows_rules]: "grows s t \<Longrightarrow> grows s (send_stats i t)"
  by (auto simp: send_stats_def case_prod_beta intro!: grows_rules)

lemma grows_stop [grows_rules]:
  "grows s t \<Longrightarrow> grows s (release i t)" "grows s t \<Longrightarrow> grows s (stop_begin i reason t)"
  by (auto simp: release_def stop_begin_def Let_def intro!: grows_rules)

lemma grows_stopped [grows_rules]: "grows s t \<Longrightarrow> grows s (stop_done i reason t)" "grows s t \<Longrightarrow> grows s (stop_failed i t)"
  by (auto simp: stop_done_def stop_failed_def Let_def intro!: grows_rules)

lemma grows_then [grows_rules]: "grows s t \<Longrightarrow> grows s (k t) \<Longrightarrow> grows s (stop_then i reason p k t)"
  by (auto simp: stop_then_def intro!: grows_rules)

lemma grows_new: "grows s t \<Longrightarrow> grows s (u\<lparr>pc_recs := pc_recs t @ [r]\<rparr>)"
  by (auto simp: grows_def nth_append)

lemma grows_create [grows_rules]: "grows s t \<Longrightarrow> grows s (create_failed b code t)" "grows s t \<Longrightarrow> grows s (create_server b t)"
  by (auto simp: create_failed_def create_server_def Let_def intro!: grows_rules grows_new split: creation.split)

lemma grows_begin [grows_rules]: "grows s t \<Longrightarrow> grows s (begin_keys b t)" "grows s t \<Longrightarrow> grows s (after_replace b t)"
  by (auto simp: begin_keys_def after_replace_def intro!: grows_rules)

lemma grows_begin_task [grows_rules]: "grows s t \<Longrightarrow> grows s (begin_task b t)"
  by (auto simp: begin_task_def intro!: grows_rules split: option.split)

lemma grows_started [grows_rules]: "grows s t \<Longrightarrow> grows s (after_failed_start c t)" "grows s t \<Longrightarrow> grows s (start_failed b i t)"
  by (auto simp: after_failed_start_def start_failed_def Let_def intro!: grows_rules)

lemma grows_returned [grows_rules]: "grows s t \<Longrightarrow> grows s (start_returned b i started t)"
  by (auto simp: start_returned_def Let_def intro!: grows_rules)

lemma grows_tasks [grows_rules]: "grows s t \<Longrightarrow> grows s (run_task k t)" "grows s t \<Longrightarrow> grows s (next_task t)"
proof -
  have run: "grows s t \<Longrightarrow> grows s (run_task k t)" for k t
    by (auto simp: run_task_def intro!: grows_rules split: task.split option.split)
  then show "grows s t \<Longrightarrow> grows s (run_task k t)" "grows s t \<Longrightarrow> grows s (next_task t)"
    by (auto simp: next_task_def split: option.split list.split)
qed

lemma grows_answers [grows_rules]:
  "grows s t \<Longrightarrow> grows s (stop_answer ok t)" "grows s t \<Longrightarrow> grows s (keys_answer r t)" "grows s t \<Longrightarrow> grows s (start_answer a t)"
  by (auto simp: stop_answer_def keys_answer_def start_answer_def intro!: grows_rules split: option.split phase.split)

lemma grows_session_events [grows_rules]: "grows s t \<Longrightarrow> grows s (session_open i l t)" "grows s t \<Longrightarrow> grows s (session_close i d t)"
  by (auto simp: session_open_def session_close_def Let_def intro!: grows_rules)

lemma grows_server_event [grows_rules]: "grows s t \<Longrightarrow> grows s (server_event i ev t)"
  by (cases ev) (auto simp: server_event_def Let_def intro!: grows_rules)

lemma grows_calls [grows_rules]:
  "grows s t \<Longrightarrow> grows s (cancel_listen t)" "grows s t \<Longrightarrow> grows s (activate_call tr t)" "grows s t \<Longrightarrow> grows s (set_scope sc t)"
  "grows s t \<Longrightarrow> grows s (start_call c ck sc t)" "grows s t \<Longrightarrow> grows s (candidate_call c ck sc x keys t)"
  by (auto simp: cancel_listen_def activate_call_def set_scope_def start_call_def candidate_call_def Let_def
      intro!: grows_rules split: option.split jsval.split)

lemma grows_ends [grows_rules]: "grows s t \<Longrightarrow> grows s (cancel_pending t)" "grows s t \<Longrightarrow> grows s (stop_call reason t)" "grows s t \<Longrightarrow> grows s (dispose_pc t)"
  by (auto simp: cancel_pending_def stop_call_def dispose_pc_def Let_def intro!: grows_rules split: option.split)

text \<open>The one answer that lets a server accept: its keys are committed, and nothing has changed since it was asked for.\<close>

definition commits :: "nat \<Rightarrow> pc_event \<Rightarrow> pc \<Rightarrow> bool" where
  "commits i ev s \<longleftrightarrow> (\<exists>k g sc. ev = CommittedAnswer k (Inr True) \<and> k < length (pc_activations s) \<and> pc_activations s ! k = (i, g, sc)
     \<and> g = pc_generation s \<and> ps_profile sc = ps_profile (pc_scope s) \<and> ps_epoch sc = ps_epoch (pc_scope s)
     \<and> pc_current s = Some i \<and> \<not> r_cancelled (pc_recs s ! i) \<and> \<not> pc_disposed s)"

lemma only_commits:
  assumes "i < length (pc_recs s)" and "\<not> commits i ev s"
  shows "(r_candidate (pc_recs s ! i) \<longrightarrow> r_candidate (pc_recs (pc_step s ev) ! i))
    \<and> (r_accepting (pc_recs (pc_step s ev) ! i) \<longrightarrow> r_accepting (pc_recs s ! i))"
proof (cases "\<exists>k answer. ev = CommittedAnswer k answer")
  case False
  then have "grows s (pc_step s ev)"
    by (cases ev) (auto simp: case_prod_beta intro!: grows_rules split: option.split)
  then show ?thesis using assms(1) by (simp add: grows_def)
next
  case True
  then obtain k answer where ev: "ev = CommittedAnswer k answer" by blast
  show ?thesis
  proof (cases "length (pc_activations s) \<le> k")
    case True
    then show ?thesis by (simp add: ev committed_answer_def)
  next
    case False
    obtain j g sc where act: "pc_activations s ! k = (j, g, sc)" by (metis prod_cases3)
    let ?t = "s\<lparr>pc_activations := take k (pc_activations s) @ drop (Suc k) (pc_activations s)\<rparr>"
    let ?c = "change j (\<lambda>r. r\<lparr>r_accepting := True, r_candidate := False\<rparr>) ?t"
    have other: "i \<noteq> j \<Longrightarrow> grows ?c u \<Longrightarrow> ?thesis" if "pc_step s ev = u" for u
      using assms(1) that by (auto simp: grows_def change_def nth_list_update)
    have refused: "grows s (pc_step s ev) \<Longrightarrow> ?thesis" using assms(1) by (simp add: grows_def)
    show ?thesis
    proof (cases "commits j ev s")
      case True
      then have "i \<noteq> j" using assms(2) by blast
      moreover have "grows ?c (pc_step s ev)"
        using False act True
        by (auto simp: ev committed_answer_def Let_def commits_def owns_def prec_at_def intro!: grows_rules)
      ultimately show ?thesis using other by blast
    next
      case False
      then have "grows s (pc_step s ev)"
        using act \<open>\<not> length (pc_activations s) \<le> k\<close>
        by (auto simp: ev committed_answer_def Let_def commits_def owns_def prec_at_def intro!: grows_rules split: sum.split)
      then show ?thesis by (rule refused)
    qed
  qed
qed

text \<open>
  Claim C32: the controller never leaks a server and never lets two accept.  Whatever is called, answered, emitted or
  timed out, in whatever order, every server but the current one has been stopped and confirmed it, and
  its listeners are removed; and a server accepts connections only while it is the current one, nobody
  has asked to stop it or to replace it, and it is not a candidate.  A candidate becomes an ordinary server, and a
  server that exists starts to accept, only by the answer that its keys are committed, while it is still the current
  one, not cancelled, and no other start, stop, profile or epoch has come since it was asked for.
\<close>

theorem proxy_servers_owned:
  assumes "s = foldl pc_step (create_pc h cs) evs" and "i < length (pc_recs s)" and "t = pc_step s ev"
  shows "(pc_current s = Some i \<or> StopResolved i \<in> set (pc_out s) \<and> \<not> r_listening (pc_recs s ! i))
    \<and> (r_accepting (pc_recs s ! i) \<longrightarrow> pc_current s = Some i \<and> \<not> r_cancelled (pc_recs s ! i)
         \<and> \<not> r_stop_requested (pc_recs s ! i) \<and> \<not> r_candidate (pc_recs s ! i))
    \<and> (r_candidate (pc_recs s ! i) \<and> \<not> r_candidate (pc_recs t ! i) \<or> \<not> r_accepting (pc_recs s ! i) \<and> r_accepting (pc_recs t ! i)
         \<longrightarrow> commits i ev s)"
proof -
  have inv: "kern_inv (kern_of s)" unfolding assms(1) by (rule pc_run_inv)
  have len: "i < length (k_recs (kern_of s))" and rec: "k_recs (kern_of s) ! i = krec_of (pc_recs s ! i)"
    using assms(2) by (simp_all add: kern_of_def)
  have "(pc_current s = Some i \<or> StopResolved i \<in> set (pc_out s) \<and> \<not> r_listening (pc_recs s ! i))
    \<and> (r_accepting (pc_recs s ! i) \<longrightarrow> pc_current s = Some i \<and> \<not> r_cancelled (pc_recs s ! i)
         \<and> \<not> r_stop_requested (pc_recs s ! i) \<and> \<not> r_candidate (pc_recs s ! i))"
    using kern_invD(1) [OF inv len] kern_invD(3) [OF inv len]
    by (auto simp: gone_def krec_ok_def rec krec_of_def current_kern) (auto simp: kern_of_def)
  then show ?thesis using only_commits [OF assms(2), of ev] assms(3) by blast
qed

text \<open>
  Claim C33: the session history balances.  Of every session of every server, the history has got as many
  finalizations as registrations, except one registration more while the session is open on the current
  server; once the server has been released, nothing is left open.
\<close>

theorem proxy_history_balanced:
  assumes "s = foldl pc_step (create_pc h cs) evs"
  shows "registrations (i, sid) (pc_out s) = finalizations (i, sid) (pc_out s)
      + (if pc_history s \<and> i < length (pc_recs s) \<and> sid \<in> fst ` set (r_sessions (pc_recs s ! i)) then 1 else 0)
    \<and> (i < length (pc_recs s) \<and> sid \<in> fst ` set (r_sessions (pc_recs s ! i)) \<longrightarrow> pc_current s = Some i)"
proof -
  have inv: "kern_inv (kern_of s)" unfolding assms(1) by (rule pc_run_inv)
  have sids: "i < length (pc_recs s) \<and> sid \<in> set (kr_sids (k_recs (kern_of s) ! i))
      \<longleftrightarrow> i < length (pc_recs s) \<and> sid \<in> fst ` set (r_sessions (pc_recs s ! i))"
    by (simp add: kern_of_def krec_of_def cong: conj_cong)
  have "registrations (i, sid) (k_log (kern_of s)) = finalizations (i, sid) (k_log (kern_of s))
     + (if k_history (kern_of s) \<and> i < length (pc_recs s) \<and> sid \<in> set (kr_sids (k_recs (kern_of s) ! i)) then 1 else 0)"
    using kern_invD(5) [OF inv] unfolding balanced_def by simp
  moreover have "i < length (pc_recs s) \<and> sid \<in> set (kr_sids (k_recs (kern_of s) ! i)) \<longrightarrow> pc_current s = Some i"
    using kern_invD(1) [OF inv, of i] by (force simp: gone_def current_kern)
  moreover have "k_history (kern_of s) = pc_history s" "k_log (kern_of s) = filter logged (pc_out s)" by (simp_all add: kern_of_def)
  ultimately show ?thesis by (simp add: sids counts_logged)
qed

section \<open>Witnesses\<close>

definition demo_proxy_events :: "pc_event list" where
  "demo_proxy_events =
     [StartCall [(js ''port'', JNum 0)] (js ''c'') \<lparr>ps_profile = js ''default'', ps_epoch = 1\<rparr>, TaskTurn, KeysAnswer None,
      FromServer 0 (ServerStarted 1080), StartAnswer (Some True), FromServer 0 (SessionOpen \<lparr>lv_id = js ''s1'', lv_sent = 0, lv_received = 0\<rparr>),
      LiveSessions 0 [\<lparr>lv_id = js ''s1'', lv_sent = 5, lv_received = 7\<rparr>], SampleTick,
      CandidateCall [(js ''port'', JNum 0)] (js ''c'') \<lparr>ps_profile = js ''default'', ps_epoch = 1\<rparr> (JStr (js ''t'')) True, TaskTurn, StopAnswer True,
      FromServer 1 (ServerStarted 1081), StartAnswer (Some True), ActivateCall (js ''t''), CommittedAnswer 0 (Inr True),
      FromServer 1 (SessionOpen \<lparr>lv_id = js ''s1'', lv_sent = 0, lv_received = 0\<rparr>)]"

lemma demo_proxy_run:
  "length (pc_recs (foldl pc_step (create_pc True []) demo_proxy_events)) = 2 \<and> pc_current (foldl pc_step (create_pc True []) demo_proxy_events) = Some 1
   \<and> pc_history (foldl pc_step (create_pc True []) demo_proxy_events)
   \<and> js ''s1'' \<in> fst ` set (r_sessions (pc_recs (foldl pc_step (create_pc True []) demo_proxy_events) ! 1))
   \<and> r_accepting (pc_recs (foldl pc_step (create_pc True []) demo_proxy_events) ! 1)"
  by code_simp

lemma proxy_servers_owned_witness:
  "StopResolved 0 \<in> set (pc_out (foldl pc_step (create_pc True []) demo_proxy_events))
   \<and> \<not> r_candidate (pc_recs (foldl pc_step (create_pc True []) demo_proxy_events) ! 1)"
  using proxy_servers_owned [where i = 0 and h = True and cs = "[]" and evs = demo_proxy_events and ev = TaskTurn, OF refl _ refl]
    proxy_servers_owned [where i = 1 and h = True and cs = "[]" and evs = demo_proxy_events and ev = TaskTurn, OF refl _ refl] demo_proxy_run
  by auto

lemma proxy_history_balanced_witness:
  "registrations (0, js ''s1'') (pc_out (foldl pc_step (create_pc True []) demo_proxy_events))
     = finalizations (0, js ''s1'') (pc_out (foldl pc_step (create_pc True []) demo_proxy_events))
   \<and> registrations (1, js ''s1'') (pc_out (foldl pc_step (create_pc True []) demo_proxy_events))
     = Suc (finalizations (1, js ''s1'') (pc_out (foldl pc_step (create_pc True []) demo_proxy_events)))"
  using proxy_history_balanced [where i = 0 and sid = "js ''s1''" and h = True and cs = "[]" and evs = demo_proxy_events, OF refl]
    proxy_history_balanced [where i = 1 and sid = "js ''s1''" and h = True and cs = "[]" and evs = demo_proxy_events, OF refl] demo_proxy_run
  by (auto split: if_splits)

end
