(* ===== verification/Monitors.thy ===== *)
theory Monitors
  imports SettingsSchema
begin

text \<open>
  What \<^verbatim>\<open>electron/health-probe-service.js\<close> and \<^verbatim>\<open>electron/token-validation-service.js\<close> share.  Both
  observe a snapshot of the application on a timer, at most one round at a time, and report to the
  application through a callback that runs inside the service and may call it back.

  \<^item> \<open>menv\<close> is everything the services read from their dependencies.  It changes between two events
    (\<open>EnvChange\<close>) and inside a callback.
  \<^item> The callbacks are answered from a script: every notice takes the next entry, an environment and the
    calls made before the callback returns; their own callbacks are answered down to a depth.
  \<^item> \<open>reentrant\<close> is the contract a service keeps with such callers: a callback that keeps the invariant
    lets every call keep it, so the scripted answers of any depth do.
\<close>

type_synonym mscope = "jsstr \<times> nat"

record menv =
  m_scope :: mscope
  m_desired :: bool
  m_proxy :: string
  m_remote :: string
  m_operation :: "string option"
  m_storage :: "string option"
  m_code :: "string option"
  m_cookie_valid :: bool
  m_running :: jsval
  m_config :: jsval
  m_cookie :: jsstr
  m_generation :: "nat option"
  m_preferences :: "(jsstr \<times> jsval) list"
  m_throws :: bool

text \<open>A value as \<open>JSON.stringify\<close> puts it into an array.\<close>

definition array_value :: "jsval \<Rightarrow> jsval" where
  "array_value v = (if v = JUndef then JNull else v)"

definition preference :: "menv \<Rightarrow> string \<Rightarrow> bool" where
  "preference e k \<longleftrightarrow> map_of (m_preferences e) (js k) = Some (JBool True)"

datatype service_call = CallUpdate | CallCancel | CallSuspend | CallResume | CallDispose

lemma nth_put: "xs[i := x] ! j = (if i = j \<and> j < length xs then x else xs ! j)"
  by (cases "i < length xs") (auto simp: nth_list_update list_update_beyond)

lemma concat_distinct_apart:
  assumes "distinct (concat (map f xs))" and "k < length xs" and "m < length xs" and "m \<noteq> k" and "i \<in> set (f (xs ! k))"
  shows "i \<notin> set (f (xs ! m))"
  using assms
proof (induction xs arbitrary: k m)
  case (Cons x xs)
  show ?case
  proof (cases k)
    case 0
    then obtain m' where m: "m = Suc m'" "m' < length xs" using Cons.prems by (cases m) auto
    then have "set (f (xs ! m')) \<subseteq> set (concat (map f xs))" using nth_mem by fastforce
    then show ?thesis using Cons.prems m 0 by auto
  next
    case (Suc k')
    then have k': "k' < length xs" "i \<in> set (f (xs ! k'))" using Cons.prems by auto
    then have "i \<in> set (concat (map f xs))" using nth_mem by fastforce
    then show ?thesis using Cons.prems Suc k' Cons.IH [of k' "m - 1"] by (cases m) auto
  qed
qed simp

section \<open>Callbacks that call back\<close>

primrec answered :: "(('n \<Rightarrow> 's \<Rightarrow> 's) \<Rightarrow> 's \<Rightarrow> 'c \<Rightarrow> 's) \<Rightarrow> ('s \<Rightarrow> ('s \<times> 'c list) option) \<Rightarrow> nat \<Rightarrow> 'n \<Rightarrow> 's \<Rightarrow> 's" where
  "answered call script 0 = (\<lambda>n s. s)"
| "answered call script (Suc d) = (\<lambda>n s.
     case script s of None \<Rightarrow> s | Some (t, cs) \<Rightarrow> foldl (call (answered call script d)) t cs)"

locale reentrant =
  fixes call :: "('n \<Rightarrow> 's \<Rightarrow> 's) \<Rightarrow> 's \<Rightarrow> 'c \<Rightarrow> 's"
    and script :: "'s \<Rightarrow> ('s \<times> 'c list) option"
    and kept :: "'s \<Rightarrow> bool"
  assumes kept_call: "(\<And>n t. kept t \<Longrightarrow> kept (obs n t)) \<Longrightarrow> kept s \<Longrightarrow> kept (call obs s c)"
    and kept_script: "kept s \<Longrightarrow> script s = Some (t, cs) \<Longrightarrow> kept t"
begin

lemma kept_answered: "kept s \<Longrightarrow> kept (answered call script d n s)"
proof (induction d arbitrary: n s)
  case (Suc d)
  show ?case
  proof (cases "script s")
    case (Some a)
    obtain t cs where a: "a = (t, cs)" by fastforce
    have t: "kept t" using kept_script Suc.prems Some a by simp
    have call: "kept (call (answered call script d) u c)" if u: "kept u" for u c
      by (rule kept_call [OF _ u]) (rule Suc.IH)
    have "kept (foldl (call (answered call script d)) t cs)" by (rule foldl_invariant [where I = kept, OF t call])
    then show ?thesis using Some a by simp
  qed (use Suc.prems in simp)
qed simp

end

end
