(* ===== verification/HealthProbe.thy ===== *)
theory HealthProbe
  imports Monitors
begin

text \<open>
  \<^verbatim>\<open>electron/health-probe-service.js\<close>: once a minute, while the proxy is up, run one harmless remote
  command through it and report whether the remote side is reachable.

  \<^item> Every round the service ever creates keeps its index in \<open>h_rounds\<close>.  The asynchronous \<open>execute\<close> is
    cut at its \<open>await\<close>s: \<open>hr_phase\<close> is what a round waits for, and each answer is an event.
  \<^item> \<open>h_poll\<close> is the context captured by the callback of the pending poll timer.
  \<^item> \<open>h_log\<close> records every call of \<open>onRemoteState\<close> with the environment it was made in, and every call
    of \<open>probeRemoteCommand\<close>.
\<close>

section \<open>Contexts\<close>

definition CONFIG_FIELDS :: "jsstr list" where
  "CONFIG_FIELDS = [js ''host'', js ''port'', js ''cluster'', js ''loginNode'', js ''cols'', js ''rows'', js ''useRoot'',
     js ''path'', js ''startupCommand'', js ''wssUrl'']"

definition KEY_CODES :: "string list" where
  "KEY_CODES = [''SSH_KEY_MISSING'', ''SSH_KEY_INVALID'', ''SSH_KEY_FINGERPRINT_MISMATCH'']"

type_synonym authority_key = "mscope \<times> jsstr \<times> jsval list \<times> jsval list"
type_synonym health_key = "authority_key \<times> bool \<times> bool \<times> string \<times> string option \<times> string option \<times> bool \<times> bool"

record hcontext =
  hc_env :: menv
  hc_running :: jsval
  hc_authority :: authority_key
  hc_key :: health_key
  hc_eligible :: bool
  hc_not_ready :: bool

definition context_of :: "menv \<Rightarrow> hcontext option" where
  "context_of e =
     (if m_throws e then None
      else
        (let config = m_config e;
             running = (if nullish (m_running e) then config else m_running e);
             enabled = preference e ''healthProbeEnabled'';
             not_ready = (m_code e = Some ''REMOTE_READY_TIMEOUT'');
             auth_required = (m_remote e = ''auth_required'');
             eligible = (enabled \<and> m_desired e \<and> m_proxy e = ''started'' \<and> m_operation e = None \<and> m_storage e = None
               \<and> \<not> not_ready \<and> \<not> auth_required \<and> m_cookie e \<noteq> []);
             authority = (m_scope e, m_cookie e, map (\<lambda>f. array_value (getProp config f)) CONFIG_FIELDS,
               map (\<lambda>f. array_value (getProp running f)) CONFIG_FIELDS) in
         Some \<lparr>hc_env = e, hc_running = running, hc_authority = authority,
           hc_key = (authority, enabled, m_desired e, m_proxy e, m_operation e, m_storage e, not_ready, auth_required),
           hc_eligible = eligible, hc_not_ready = not_ready\<rparr>))"

section \<open>State\<close>

datatype hphase = Created | AwaitKeys | AwaitIdentity jsval | Observing | Over

record hround =
  hr_context :: hcontext
  hr_aborted :: bool
  hr_timer :: bool
  hr_phase :: hphase
  hr_prev_status :: string
  hr_prev_code :: "string option"

text \<open>
  A report to the application: the round it stems from and why it is made.  The application sees the
  scope, the status and the code.
\<close>

datatype hcause = Checking | Verdict "string option" | Restored string "string option"

datatype hnotice = RemoteState nat mscope hcause | ProbeCommand nat jsval jsval

definition report_status :: "hcause \<Rightarrow> string \<times> string option" where
  "report_status c = (case c of Checking \<Rightarrow> (''checking'', None) | Verdict None \<Rightarrow> (''reachable'', None)
     | Verdict (Some code) \<Rightarrow> (''error'', Some code) | Restored status code \<Rightarrow> (status, code))"

record health =
  h_rounds :: "hround list"
  h_active :: "nat option"
  h_poll :: "hcontext option"
  h_observed :: "health_key option"
  h_suspended :: bool
  h_disposed :: bool
  h_paused :: bool
  h_env :: menv
  h_script :: "(menv \<times> service_call list) list"
  h_log :: "(hnotice \<times> menv) list"

type_synonym hobserver = "hnotice \<Rightarrow> health \<Rightarrow> health"

definition new_hround :: "hcontext \<Rightarrow> hround" where
  "new_hround c =
     \<lparr>hr_context = c, hr_aborted = False, hr_timer = False, hr_phase = Created,
      hr_prev_status = (if m_remote (hc_env c) = [] then ''unknown'' else m_remote (hc_env c)),
      hr_prev_code = m_code (hc_env c)\<rparr>"

definition hround_at :: "nat \<Rightarrow> health \<Rightarrow> hround" where
  "hround_at i s = h_rounds s ! i"

definition change_round :: "nat \<Rightarrow> (hround \<Rightarrow> hround) \<Rightarrow> health \<Rightarrow> health" where
  "change_round i f s = s\<lparr>h_rounds := (h_rounds s)[i := f (h_rounds s ! i)]\<rparr>"

definition current :: "nat \<Rightarrow> health \<Rightarrow> bool" where
  "current i s \<longleftrightarrow> \<not> h_disposed s \<and> \<not> h_suspended s \<and> \<not> h_paused s \<and> h_active s = Some i \<and> \<not> hr_aborted (hround_at i s)
     \<and> (case context_of (h_env s) of None \<Rightarrow> False | Some c \<Rightarrow> hc_eligible c \<and> hc_key c = hc_key (hr_context (hround_at i s)))"

section \<open>Operations\<close>

definition publish :: "hobserver \<Rightarrow> nat \<Rightarrow> hcontext \<Rightarrow> hcause \<Rightarrow> health \<Rightarrow> health" where
  "publish obs i c cause s =
     (if h_disposed s then s
      else (let n = RemoteState i (m_scope (hc_env c)) cause in obs n (s\<lparr>h_log := h_log s @ [(n, h_env s)]\<rparr>)))"

definition clear_timer :: "health \<Rightarrow> health" where
  "clear_timer s = s\<lparr>h_poll := None\<rparr>"

definition retire :: "nat \<Rightarrow> health \<Rightarrow> health" where
  "retire i s = change_round i (\<lambda>r. r\<lparr>hr_aborted := True, hr_timer := False\<rparr>) (s\<lparr>h_active := None\<rparr>)"

definition cancel :: "hobserver \<Rightarrow> bool \<Rightarrow> health \<Rightarrow> health" where
  "cancel obs restore s0 =
     (let s = clear_timer s0 in
      case h_active s of
        None \<Rightarrow> s
      | Some i \<Rightarrow>
          (let s = retire i s; r = hround_at i s in
           if \<not> restore \<or> h_disposed s then s
           else case context_of (h_env s) of
             None \<Rightarrow> s
           | Some c \<Rightarrow>
               if \<not> hc_not_ready c \<and> hc_authority c = hc_authority (hr_context r) \<and> m_remote (hc_env c) = ''checking''
               then publish obs i c (Restored (hr_prev_status r) (hr_prev_code r)) s else s))"

definition schedule :: "health \<Rightarrow> health" where
  "schedule s =
     (if h_poll s \<noteq> None \<or> h_active s \<noteq> None \<or> h_disposed s \<or> h_suspended s \<or> h_paused s then s
      else case context_of (h_env s) of
        None \<Rightarrow> s
      | Some c \<Rightarrow> if hc_eligible c then s\<lparr>h_poll := Some c\<rparr> else s)"

definition update :: "hobserver \<Rightarrow> health \<Rightarrow> health" where
  "update obs s =
     (if h_disposed s then s
      else case context_of (h_env s) of
        None \<Rightarrow> cancel obs False s
      | Some c \<Rightarrow>
          (let changed = (h_observed s \<noteq> Some (hc_key c));
               s = s\<lparr>h_observed := Some (hc_key c)\<rparr>;
               s = (if changed then cancel obs True (s\<lparr>h_paused := False\<rparr>) else s) in
           if \<not> hc_eligible c \<or> h_suspended s \<or> h_paused s then cancel obs True s else schedule s))"

definition finish :: "hobserver \<Rightarrow> nat \<Rightarrow> string option \<Rightarrow> health \<Rightarrow> health" where
  "finish obs i code s =
     (if h_active s \<noteq> Some i then s
      else
        (let valid = current i s; s = retire i s;
             s = (if valid then publish obs i (hr_context (hround_at i s)) (Verdict code) s else s) in
         update obs s))"

definition enter :: "nat \<Rightarrow> hphase \<Rightarrow> health \<Rightarrow> health" where
  "enter i ph = change_round i (\<lambda>r. r\<lparr>hr_phase := ph\<rparr>)"

definition begin_round :: "hobserver \<Rightarrow> hcontext \<Rightarrow> health \<Rightarrow> health" where
  "begin_round obs c s =
     (if h_active s \<noteq> None \<or> h_disposed s \<or> h_suspended s \<or> h_paused s then s
      else
        (let i = length (h_rounds s);
             s = s\<lparr>h_rounds := h_rounds s @ [(new_hround c)\<lparr>hr_timer := True\<rparr>], h_active := Some i\<rparr>;
             s = publish obs i c Checking s in
         if current i s then enter i AwaitKeys s else s))"

definition poll_fires :: "hobserver \<Rightarrow> health \<Rightarrow> health" where
  "poll_fires obs s0 =
     (case h_poll s0 of
        None \<Rightarrow> s0
      | Some c \<Rightarrow>
          (let s = s0\<lparr>h_poll := None\<rparr> in
           case context_of (h_env s) of
             None \<Rightarrow> s
           | Some latest \<Rightarrow>
               if \<not> hc_eligible latest \<or> hc_key latest \<noteq> hc_key c then update obs s else begin_round obs latest s))"

section \<open>The observation of a round\<close>

definition known_code :: "jsval \<Rightarrow> string option" where
  "known_code v = List.find (\<lambda>c. v = JStr (js c)) KEY_CODES"

fun key_problem :: "jsval \<Rightarrow> jsstr list \<Rightarrow> string option" where
  "key_problem keys [] = None"
| "key_problem keys (role # roles) =
     (let key = getProp keys role in
      if getProp key (js ''state'') = JStr (js ''ready'') then key_problem keys roles
      else case known_code (getProp key (js ''errorCode'')) of
        Some code \<Rightarrow> Some code
      | None \<Rightarrow> Some (if getProp key (js ''state'') = JStr (js ''missing'') then ''SSH_KEY_MISSING'' else ''SSH_KEY_INVALID''))"

definition failure_code :: "string \<Rightarrow> string" where
  "failure_code code = (if code = ''TIMEOUT'' \<or> code \<in> set KEY_CODES then code else ''REMOTE_COMMAND_FAILED'')"

definition execute_fails :: "hobserver \<Rightarrow> nat \<Rightarrow> string \<Rightarrow> health \<Rightarrow> health" where
  "execute_fails obs i code s0 =
     (let s = enter i Over s0 in if current i s then finish obs i (Some (failure_code code)) s else s)"

definition keys_answer :: "hobserver \<Rightarrow> nat \<Rightarrow> string + jsval \<Rightarrow> health \<Rightarrow> health" where
  "keys_answer obs i answer s =
     (if i < length (h_rounds s) \<and> hr_phase (hround_at i s) = AwaitKeys then
        (case answer of
           Inl code \<Rightarrow> execute_fails obs i code s
         | Inr keys \<Rightarrow>
             if \<not> current i s then enter i Over s
             else case key_problem keys [js ''client'', js ''host''] of
               Some code \<Rightarrow> finish obs i (Some code) (enter i Over s)
             | None \<Rightarrow> enter i (AwaitIdentity (getProp (getProp keys (js ''host'')) (js ''fingerprint''))) s)
      else s)"

definition identity_answer :: "hobserver \<Rightarrow> nat \<Rightarrow> string + unit \<Rightarrow> health \<Rightarrow> health" where
  "identity_answer obs i answer s =
     (if i < length (h_rounds s) then
        (case hr_phase (hround_at i s) of
           AwaitIdentity fingerprint \<Rightarrow>
             (case answer of
                Inl code \<Rightarrow> execute_fails obs i code s
              | Inr _ \<Rightarrow>
                  if \<not> current i s then enter i Over s
                  else (let s = enter i Observing s in
                        s\<lparr>h_log := h_log s @ [(ProbeCommand i (hc_running (hr_context (hround_at i s))) fingerprint, h_env s)]\<rparr>))
         | _ \<Rightarrow> s)
      else s)"

definition probe_answer :: "hobserver \<Rightarrow> nat \<Rightarrow> string + unit \<Rightarrow> health \<Rightarrow> health" where
  "probe_answer obs i answer s =
     (if i < length (h_rounds s) \<and> hr_phase (hround_at i s) = Observing then
        (case answer of
           Inl code \<Rightarrow> execute_fails obs i code s
         | Inr _ \<Rightarrow> finish obs i None (enter i Over s))
      else s)"

definition timeout_fires :: "hobserver \<Rightarrow> nat \<Rightarrow> health \<Rightarrow> health" where
  "timeout_fires obs i s =
     (if i < length (h_rounds s) \<and> hr_timer (hround_at i s)
      then finish obs i (Some ''TIMEOUT'') (change_round i (\<lambda>r. r\<lparr>hr_timer := False\<rparr>) s) else s)"

section \<open>The public interface\<close>

fun health_call :: "hobserver \<Rightarrow> health \<Rightarrow> service_call \<Rightarrow> health" where
  "health_call obs s CallUpdate = update obs s"
| "health_call obs s CallCancel = cancel obs True (s\<lparr>h_paused := True\<rparr>)"
| "health_call obs s CallSuspend = cancel obs True (s\<lparr>h_suspended := True\<rparr>)"
| "health_call obs s CallResume = (if h_disposed s then s else update obs (s\<lparr>h_suspended := False, h_paused := False\<rparr>))"
| "health_call obs s CallDispose = cancel obs False (s\<lparr>h_disposed := True\<rparr>)"

definition health_script :: "health \<Rightarrow> (health \<times> service_call list) option" where
  "health_script s = (case h_script s of [] \<Rightarrow> None | (e, cs) # rest \<Rightarrow> Some (s\<lparr>h_env := e, h_script := rest\<rparr>, cs))"

abbreviation health_observer :: "nat \<Rightarrow> hobserver" where
  "health_observer d \<equiv> answered health_call health_script d"

datatype health_event =
    ServiceCall service_call | PollTimer | RoundTimeout nat | KeysAnswer nat "string + jsval"
  | IdentityAnswer nat "string + unit" | ProbeAnswer nat "string + unit" | EnvChange menv "(menv \<times> service_call list) list"

fun health_step :: "hobserver \<Rightarrow> health \<Rightarrow> health_event \<Rightarrow> health" where
  "health_step obs s (ServiceCall c) = health_call obs s c"
| "health_step obs s PollTimer = poll_fires obs s"
| "health_step obs s (RoundTimeout i) = timeout_fires obs i s"
| "health_step obs s (KeysAnswer i a) = keys_answer obs i a s"
| "health_step obs s (IdentityAnswer i a) = identity_answer obs i a s"
| "health_step obs s (ProbeAnswer i a) = probe_answer obs i a s"
| "health_step obs s (EnvChange e rs) = s\<lparr>h_env := e, h_script := rs\<rparr>"

definition create_health :: "menv \<Rightarrow> health" where
  "create_health e =
     \<lparr>h_rounds = [], h_active = None, h_poll = None, h_observed = None, h_suspended = False, h_disposed = False,
      h_paused = False, h_env = e, h_script = [], h_log = []\<rparr>"

end
