(* ===== verification/HealthRuns.thy ===== *)
theory HealthRuns
  imports HealthProbe
begin

text \<open>
  What holds over every run of the health probe service, whatever its callers do inside its callbacks.
  \<open>shape\<close> ties the rounds to the active one, \<open>quiet\<close> says when nothing may be pending, \<open>log_ok\<close> justifies
  every entry of the log by the environment it was made in.
\<close>

section \<open>The invariant\<close>

definition well_formed :: "hround \<Rightarrow> bool" where
  "well_formed r \<longleftrightarrow> context_of (hc_env (hr_context r)) = Some (hr_context r)"

definition shape :: "hround list \<Rightarrow> nat option \<Rightarrow> bool" where
  "shape rs a \<longleftrightarrow> list_all well_formed rs
     \<and> (\<forall>i<length rs. a \<noteq> Some i \<longrightarrow> hr_aborted (rs ! i) \<and> \<not> hr_timer (rs ! i))
     \<and> (\<forall>i. a = Some i \<longrightarrow> i < length rs \<and> \<not> hr_aborted (rs ! i))"

definition timed :: "hround list \<Rightarrow> nat option \<Rightarrow> bool" where
  "timed rs a \<longleftrightarrow> (\<forall>i. a = Some i \<longrightarrow> hr_timer (rs ! i))"

fun entry_ok :: "hround list \<Rightarrow> hnotice \<times> menv \<Rightarrow> bool" where
  "entry_ok rs (RemoteState i sc cause, e) \<longleftrightarrow> i < length rs \<and> sc = m_scope e \<and>
     (\<exists>c. context_of e = Some c \<and>
       (case cause of
          Restored status code \<Rightarrow> \<not> hc_not_ready c \<and> hc_authority c = hc_authority (hr_context (rs ! i)) \<and> m_remote e = ''checking''
            \<and> status = hr_prev_status (rs ! i) \<and> code = hr_prev_code (rs ! i)
        | _ \<Rightarrow> hc_eligible c \<and> hc_key c = hc_key (hr_context (rs ! i))))"
| "entry_ok rs (ProbeCommand i running fingerprint, e) \<longleftrightarrow> i < length rs \<and> running = hc_running (hr_context (rs ! i)) \<and>
     (\<exists>c. context_of e = Some c \<and> hc_eligible c \<and> hc_key c = hc_key (hr_context (rs ! i)))"

fun verdict_of :: "hnotice \<times> menv \<Rightarrow> nat list" where
  "verdict_of (RemoteState i sc (Verdict code), e) = [i]"
| "verdict_of _ = []"

definition verdicts :: "(hnotice \<times> menv) list \<Rightarrow> nat list" where
  "verdicts log = concat (map verdict_of log)"

lemma verdicts_simps [simp]: "verdicts [] = []" "verdicts (log @ [x]) = verdicts log @ verdict_of x"
  by (simp_all add: verdicts_def)

definition log_ok :: "hround list \<Rightarrow> nat option \<Rightarrow> (hnotice \<times> menv) list \<Rightarrow> bool" where
  "log_ok rs a log \<longleftrightarrow> list_all (entry_ok rs) log \<and> distinct (verdicts log) \<and> (\<forall>i\<in>set (verdicts log). a \<noteq> Some i \<and> i < length rs)"

definition base :: "health \<Rightarrow> bool" where
  "base s \<longleftrightarrow> shape (h_rounds s) (h_active s) \<and> log_ok (h_rounds s) (h_active s) (h_log s)"

definition quiet :: "health \<Rightarrow> bool" where
  "quiet s \<longleftrightarrow> (h_active s \<noteq> None \<longrightarrow> h_poll s = None) \<and> timed (h_rounds s) (h_active s)
     \<and> (h_disposed s \<or> h_suspended s \<or> h_paused s \<longrightarrow> h_active s = None \<and> h_poll s = None)"

definition hinv :: "health \<Rightarrow> bool" where
  "hinv s \<longleftrightarrow> base s \<and> quiet s"

lemma hinvD: "hinv s \<Longrightarrow> base s" "hinv s \<Longrightarrow> quiet s"
  by (simp_all add: hinv_def)

lemma base_frame [simp]:
  "base (s\<lparr>h_poll := x1\<rparr>) = base s" "base (s\<lparr>h_observed := x2\<rparr>) = base s" "base (s\<lparr>h_suspended := x3\<rparr>) = base s"
  "base (s\<lparr>h_disposed := x4\<rparr>) = base s" "base (s\<lparr>h_paused := x5\<rparr>) = base s" "base (s\<lparr>h_env := x6\<rparr>) = base s"
  "base (s\<lparr>h_script := x7\<rparr>) = base s"
  by (simp_all add: base_def)

lemma hinv_frame [simp]:
  "hinv (s\<lparr>h_observed := x2\<rparr>) = hinv s" "hinv (s\<lparr>h_env := x6\<rparr>) = hinv s" "hinv (s\<lparr>h_script := x7\<rparr>) = hinv s"
  by (simp_all add: hinv_def quiet_def base_def)

lemma hinv_idle: "base s \<Longrightarrow> h_active s = None \<Longrightarrow> h_poll s = None \<Longrightarrow> hinv s"
  by (simp add: hinv_def quiet_def timed_def)

lemma context_keys:
  "context_of e = Some c \<Longrightarrow> hc_env c = e \<and> fst (hc_key c) = hc_authority c \<and> fst (hc_authority c) = m_scope e
     \<and> fst (snd (hc_authority c)) = m_cookie e"
  by (auto simp: context_of_def Let_def split: if_splits)

lemma eligible_facts:
  "context_of e = Some c \<Longrightarrow> hc_eligible c \<Longrightarrow> preference e ''healthProbeEnabled'' \<and> m_desired e \<and> m_proxy e = ''started''
     \<and> m_operation e = None \<and> m_cookie e \<noteq> []"
  by (auto simp: context_of_def Let_def split: if_splits)

lemma same_authority_scope:
  "context_of e = Some c \<Longrightarrow> context_of e' = Some c' \<Longrightarrow> hc_authority c = hc_authority c' \<Longrightarrow> m_scope e = m_scope e' \<and> m_cookie e = m_cookie e'"
  using context_keys by metis

lemma same_key_authority:
  "context_of e = Some c \<Longrightarrow> context_of e' = Some c' \<Longrightarrow> hc_key c = hc_key c' \<Longrightarrow> hc_authority c = hc_authority c'"
  using context_keys by metis

section \<open>Changing a round\<close>

lemma entry_ok_put:
  assumes "entry_ok rs x" and "hr_context r = hr_context (rs ! i)" and "hr_prev_status r = hr_prev_status (rs ! i)"
    and "hr_prev_code r = hr_prev_code (rs ! i)"
  shows "entry_ok (rs[i := r]) x"
proof -
  have same: "hr_context (rs[i := r] ! j) = hr_context (rs ! j)" "hr_prev_status (rs[i := r] ! j) = hr_prev_status (rs ! j)"
    "hr_prev_code (rs[i := r] ! j) = hr_prev_code (rs ! j)" for j
    using assms(2-4) by (simp_all add: nth_put)
  show ?thesis using assms(1) by (cases "(rs, x)" rule: entry_ok.cases) (simp_all add: same cong: hcause.case_cong)
qed

lemma entry_ok_append: "entry_ok rs x \<Longrightarrow> entry_ok (rs @ [r]) x"
  by (cases "(rs, x)" rule: entry_ok.cases) (auto simp: nth_append split: hcause.splits)

lemma log_ok_put:
  assumes "log_ok rs a log" and "hr_context r = hr_context (rs ! i)" and "hr_prev_status r = hr_prev_status (rs ! i)"
    and "hr_prev_code r = hr_prev_code (rs ! i)" and "a' = a \<or> a' = None"
  shows "log_ok (rs[i := r]) a' log"
  using assms entry_ok_put [OF _ assms(2-4)] by (auto simp: log_ok_def list_all_iff)

lemma well_formed_put:
  "list_all well_formed rs \<Longrightarrow> hr_context r = hr_context (rs ! i) \<Longrightarrow> list_all well_formed (rs[i := r])"
  by (auto simp: list_all_length nth_put well_formed_def)

lemma base_round: "base s \<Longrightarrow> h_active s = Some i \<Longrightarrow> i < length (h_rounds s) \<and> \<not> hr_aborted (hround_at i s)"
  by (auto simp: base_def shape_def hround_at_def)

text \<open>A round is changed while it stays active or retired, or is retired by the change.\<close>

lemma base_put:
  assumes "base s" and "hr_context r = hr_context (h_rounds s ! i)" and "hr_prev_status r = hr_prev_status (h_rounds s ! i)"
    and "hr_prev_code r = hr_prev_code (h_rounds s ! i)"
    and "h_active s \<noteq> Some i \<Longrightarrow> hr_aborted (h_rounds s ! i) \<longrightarrow> hr_aborted r"
    and "h_active s \<noteq> Some i \<Longrightarrow> hr_timer r \<longrightarrow> hr_timer (h_rounds s ! i)"
    and "h_active s = Some i \<Longrightarrow> if a = None then hr_aborted r \<and> \<not> hr_timer r else a = Some i \<and> \<not> hr_aborted r"
    and "h_active s \<noteq> Some i \<Longrightarrow> a = h_active s"
  shows "base (s\<lparr>h_rounds := (h_rounds s)[i := r], h_active := a\<rparr>)"
proof -
  have "shape ((h_rounds s)[i := r]) a"
  proof (cases "h_active s = Some i")
    case True
    then show ?thesis using assms(1,2,7) base_round [OF assms(1) True]
      by (auto simp: base_def shape_def nth_put well_formed_put split: if_splits)
  next
    case False
    then show ?thesis using assms(1,2,5,6,8) by (auto simp: base_def shape_def nth_put well_formed_put)
  qed
  moreover have "a = h_active s \<or> a = None" using assms(7,8) by (cases "h_active s = Some i") (auto split: if_splits)
  then have "log_ok ((h_rounds s)[i := r]) a (h_log s)" using assms(1) by (intro log_ok_put [OF _ assms(2-4)]) (simp_all add: base_def)
  ultimately show ?thesis by (simp add: base_def)
qed

lemma base_enter: "base s \<Longrightarrow> base (enter i ph s)"
proof -
  assume b: "base s"
  have "base (s\<lparr>h_rounds := (h_rounds s)[i := (h_rounds s ! i)\<lparr>hr_phase := ph\<rparr>], h_active := h_active s\<rparr>)"
    by (rule base_put [OF b]) (use base_round [OF b, of i] in \<open>simp_all add: hround_at_def\<close>)
  then show ?thesis by (simp add: enter_def change_round_def base_def)
qed

lemma hinv_enter: "hinv s \<Longrightarrow> hinv (enter i ph s)"
  unfolding hinv_def using base_enter [of s i ph]
  by (auto simp: quiet_def timed_def enter_def change_round_def nth_put)

lemma base_retire:
  assumes "base s" and "h_active s = Some i"
  shows "base (retire i s)"
proof -
  have "base (s\<lparr>h_rounds := (h_rounds s)[i := (h_rounds s ! i)\<lparr>hr_aborted := True, hr_timer := False\<rparr>], h_active := None\<rparr>)"
    by (rule base_put [OF assms(1)]) (use assms(2) in simp_all)
  then show ?thesis by (simp add: retire_def change_round_def base_def)
qed

lemma retire_simps [simp]:
  "h_active (retire i s) = None" "h_poll (retire i s) = h_poll s" "h_log (retire i s) = h_log s" "h_env (retire i s) = h_env s"
  "h_disposed (retire i s) = h_disposed s" "length (h_rounds (retire i s)) = length (h_rounds s)"
  "hr_context (hround_at j (retire i s)) = hr_context (hround_at j s)"
  "hr_prev_status (hround_at j (retire i s)) = hr_prev_status (hround_at j s)"
  "hr_prev_code (hround_at j (retire i s)) = hr_prev_code (hround_at j s)"
  by (simp_all add: retire_def change_round_def hround_at_def nth_put)

lemma base_context: "base s \<Longrightarrow> i < length (h_rounds s) \<Longrightarrow> context_of (hc_env (hr_context (hround_at i s))) = Some (hr_context (hround_at i s))"
  by (auto simp: base_def shape_def hround_at_def list_all_length well_formed_def)

lemma base_poll: "base s \<Longrightarrow> quiet s \<Longrightarrow> h_active s \<noteq> None \<Longrightarrow> h_poll s = None"
  by (simp add: quiet_def)

lemma base_log:
  assumes "base s" and "entry_ok (h_rounds s) x" and "\<And>i. verdict_of x = [i] \<Longrightarrow> i \<notin> set (verdicts (h_log s)) \<and> h_active s \<noteq> Some i"
  shows "base (s\<lparr>h_log := h_log s @ [x]\<rparr>)"
proof -
  have "verdict_of x = [] \<or> (\<exists>i. verdict_of x = [i] \<and> i < length (h_rounds s))"
    using assms(2) by (cases x rule: verdict_of.cases) auto
  then show ?thesis using assms by (auto simp: base_def log_ok_def)
qed

section \<open>Operations\<close>

text \<open>The obligations are stated for an observer that keeps the invariant.\<close>

definition good :: "hobserver \<Rightarrow> bool" where
  "good obs \<longleftrightarrow> (\<forall>n s. hinv s \<longrightarrow> hinv (obs n s))"

lemma goodD: "good obs \<Longrightarrow> hinv s \<Longrightarrow> hinv (obs n s)"
  by (simp add: good_def)

lemma hinv_log:
  assumes "hinv s" and "entry_ok (h_rounds s) x" and "\<And>i. verdict_of x = [i] \<Longrightarrow> i \<notin> set (verdicts (h_log s)) \<and> h_active s \<noteq> Some i"
  shows "hinv (s\<lparr>h_log := h_log s @ [x]\<rparr>)"
  using assms base_log [OF hinvD(1) [OF assms(1)] assms(2,3)] by (simp add: hinv_def quiet_def)

lemma hinv_publish:
  assumes "good obs" and "hinv s" and "entry_ok (h_rounds s) (RemoteState i (m_scope (hc_env c)) cause, h_env s)"
    and "\<And>code. cause = Verdict code \<Longrightarrow> i \<notin> set (verdicts (h_log s)) \<and> h_active s \<noteq> Some i"
  shows "hinv (publish obs i c cause s)"
proof -
  have "hinv (s\<lparr>h_log := h_log s @ [(RemoteState i (m_scope (hc_env c)) cause, h_env s)]\<rparr>)"
    by (rule hinv_log [OF assms(2,3)]) (use assms(4) in \<open>cases cause; auto\<close>)
  then show ?thesis using assms(2) by (simp add: publish_def Let_def goodD [OF assms(1)])
qed

lemma hinv_cancel:
  assumes "good obs" and "base s"
  shows "hinv (cancel obs restore s)"
proof (cases "h_active s")
  case None
  then show ?thesis using assms by (simp add: cancel_def clear_timer_def hinv_idle)
next
  case (Some i)
  let ?t = "retire i (clear_timer s)"
  have t: "hinv ?t" using assms Some by (intro hinv_idle base_retire) (simp_all add: clear_timer_def)
  have i: "i < length (h_rounds ?t)" using base_round [OF assms(2) Some] by (simp add: clear_timer_def)
  have ctx: "context_of (hc_env (hr_context (hround_at i ?t))) = Some (hr_context (hround_at i ?t))"
    by (rule base_context [OF hinvD(1) [OF t] i])
  have "hinv (publish obs i c (Restored (hr_prev_status (hround_at i ?t)) (hr_prev_code (hround_at i ?t))) ?t)"
    if c: "context_of (h_env ?t) = Some c" and ok: "\<not> hc_not_ready c" "hc_authority c = hc_authority (hr_context (hround_at i ?t))"
      "m_remote (hc_env c) = ''checking''" for c
    by (rule hinv_publish [OF assms(1) t]) (use that i context_keys [OF c] in \<open>simp_all add: hround_at_def\<close>)
  then show ?thesis using Some t by (simp add: cancel_def Let_def clear_timer_def split: option.split)
qed

lemma hinv_schedule: "hinv s \<Longrightarrow> hinv (schedule s)"
  by (auto simp: hinv_def schedule_def quiet_def split: option.splits)

lemma hinv_update:
  assumes "good obs" and "hinv s"
  shows "hinv (update obs s)"
proof -
  have b: "base (s\<lparr>h_observed := k, h_paused := False\<rparr>)" "base (s\<lparr>h_observed := k\<rparr>)" "base s" for k using assms(2) by (simp_all add: hinv_def)
  have c: "hinv (cancel obs True (s\<lparr>h_observed := k, h_paused := False\<rparr>))" for k by (rule hinv_cancel [OF assms(1) b(1)])
  show ?thesis using assms(2) by (simp add: update_def Let_def hinv_cancel [OF assms(1)] b c hinv_schedule hinvD(1) [OF c] split: option.split)
qed

lemma current_context:
  assumes "current i s" and "base s"
  obtains c where "context_of (h_env s) = Some c" and "hc_eligible c" and "hc_key c = hc_key (hr_context (hround_at i s))"
    and "m_scope (hc_env (hr_context (hround_at i s))) = m_scope (h_env s)" and "h_active s = Some i" and "i < length (h_rounds s)"
proof -
  obtain c where c: "context_of (h_env s) = Some c" "hc_eligible c" "hc_key c = hc_key (hr_context (hround_at i s))"
    using assms(1) by (auto simp: current_def split: option.splits)
  have a: "h_active s = Some i" using assms(1) by (simp add: current_def)
  have i: "i < length (h_rounds s)" using base_round [OF assms(2) a] ..
  have "m_scope (h_env s) = m_scope (hc_env (hr_context (hround_at i s)))"
    using same_authority_scope [OF c(1) base_context [OF assms(2) i] same_key_authority [OF c(1) base_context [OF assms(2) i] c(3)]] ..
  then show ?thesis using that c a i by simp
qed

lemma hinv_finish:
  assumes "good obs" and "base s" and "h_active s = Some i \<Longrightarrow> h_poll s = None" and "h_active s \<noteq> Some i \<Longrightarrow> hinv s"
  shows "hinv (finish obs i code s)"
proof (cases "h_active s = Some i")
  case True
  let ?t = "retire i s"
  have t: "hinv ?t" by (rule hinv_idle) (use assms(2,3) True base_retire in simp_all)
  have "hinv (publish obs i (hr_context (hround_at i ?t)) (Verdict code) ?t)" if "current i s"
  proof (rule current_context [OF that assms(2)])
    fix c assume c: "context_of (h_env s) = Some c" "hc_eligible c" "hc_key c = hc_key (hr_context (hround_at i s))"
      "m_scope (hc_env (hr_context (hround_at i s))) = m_scope (h_env s)" "i < length (h_rounds s)"
    have fresh: "i \<notin> set (verdicts (h_log s))" using assms(2) True by (auto simp: base_def log_ok_def)
    have "hr_context (h_rounds ?t ! i) = hr_context (hround_at i s)" using retire_simps(7) [of i i s] by (simp add: hround_at_def)
    then show ?thesis by (intro hinv_publish [OF assms(1) t]) (use c fresh in simp_all)
  qed
  then show ?thesis using True t assms(1) by (simp add: finish_def Let_def hinv_update)
qed (use assms(4) in \<open>simp add: finish_def\<close>)

lemma hinv_finish': "good obs \<Longrightarrow> hinv s \<Longrightarrow> hinv (finish obs i code s)"
  by (rule hinv_finish) (auto simp: hinv_def quiet_def)

lemma hinv_begin:
  assumes "good obs" and inv: "hinv s" and c: "context_of (h_env s) = Some c" "hc_eligible c" and p: "h_poll s = None"
  shows "hinv (begin_round obs c s)"
proof (cases "h_active s \<noteq> None \<or> h_disposed s \<or> h_suspended s \<or> h_paused s")
  case False
  let ?i = "length (h_rounds s)"
  let ?t = "s\<lparr>h_rounds := h_rounds s @ [(new_hround c)\<lparr>hr_timer := True\<rparr>], h_active := Some ?i\<rparr>"
  have old: "list_all (entry_ok (h_rounds s @ [r])) (h_log s)" for r
    using inv by (auto simp: hinv_def base_def log_ok_def list_all_iff entry_ok_append)
  have env: "hc_env c = h_env s" using context_keys [OF c(1)] ..
  have "shape (h_rounds ?t) (Some ?i)" using hinvD(1) [OF inv] False c(1) env
    by (simp add: base_def shape_def well_formed_def new_hround_def nth_append less_Suc_eq)
  moreover have "log_ok (h_rounds ?t) (Some ?i) (h_log s)" using hinvD(1) [OF inv] old by (auto simp: base_def log_ok_def)
  ultimately have "base ?t" by (simp add: base_def)
  then have t: "hinv ?t" using False p by (simp add: hinv_def quiet_def timed_def)
  have "hinv (publish obs ?i c Checking ?t)"
    by (rule hinv_publish [OF assms(1) t]) (use c env in \<open>simp_all add: new_hround_def\<close>)
  then show ?thesis using False by (simp add: begin_round_def Let_def hinv_enter)
qed (simp add: begin_round_def inv)

lemma hinv_poll:
  assumes "good obs" and "hinv s"
  shows "hinv (poll_fires obs s)"
proof -
  have t: "hinv (s\<lparr>h_poll := None\<rparr>)" using assms(2) by (simp add: hinv_def quiet_def)
  show ?thesis using assms(2) t
    by (auto simp: poll_fires_def Let_def intro: hinv_update [OF assms(1)] hinv_begin [OF assms(1) t] split: option.split)
qed

lemma hinv_execute_fails: "good obs \<Longrightarrow> hinv s \<Longrightarrow> hinv (execute_fails obs i code s)"
  by (simp add: execute_fails_def Let_def hinv_finish' hinv_enter)

lemma hinv_keys: "good obs \<Longrightarrow> hinv s \<Longrightarrow> hinv (keys_answer obs i answer s)"
  by (simp add: keys_answer_def hinv_execute_fails hinv_enter hinv_finish' split: sum.split option.split)

lemma enter_simps [simp]:
  "h_log (enter i ph s) = h_log s" "h_env (enter i ph s) = h_env s" "length (h_rounds (enter i ph s)) = length (h_rounds s)"
  "hr_context (h_rounds (enter i ph s) ! j) = hr_context (h_rounds s ! j)"
  by (simp_all add: enter_def change_round_def nth_put)

lemma hinv_identity:
  assumes "good obs" and "hinv s"
  shows "hinv (identity_answer obs i answer s)"
proof -
  let ?t = "enter i Observing s"
  have "hinv (?t\<lparr>h_log := h_log ?t @ [(ProbeCommand i (hc_running (hr_context (hround_at i ?t))) fingerprint, h_env ?t)]\<rparr>)"
    if "current i s" for fingerprint
  proof (rule current_context [OF that hinvD(1) [OF assms(2)]])
    fix c assume c: "context_of (h_env s) = Some c" "hc_eligible c" "hc_key c = hc_key (hr_context (hround_at i s))" "i < length (h_rounds s)"
    show ?thesis by (rule hinv_log) (use c assms(2) in \<open>simp_all add: hinv_enter hround_at_def\<close>)
  qed
  then show ?thesis using assms by (simp add: identity_answer_def Let_def hinv_execute_fails hinv_enter split: sum.split hphase.split)
qed

lemma hinv_probe: "good obs \<Longrightarrow> hinv s \<Longrightarrow> hinv (probe_answer obs i answer s)"
  by (simp add: probe_answer_def hinv_execute_fails hinv_enter hinv_finish' split: sum.split)

lemma hinv_timeout:
  assumes "good obs" and inv: "hinv s"
  shows "hinv (timeout_fires obs i s)"
proof (cases "i < length (h_rounds s) \<and> hr_timer (hround_at i s)")
  case True
  let ?t = "change_round i (\<lambda>r. r\<lparr>hr_timer := False\<rparr>) s"
  have a: "h_active s = Some i" using True hinvD(1) [OF inv] by (auto simp: base_def shape_def hround_at_def)
  have "base (s\<lparr>h_rounds := (h_rounds s)[i := (h_rounds s ! i)\<lparr>hr_timer := False\<rparr>], h_active := Some i\<rparr>)"
    by (rule base_put [OF hinvD(1) [OF inv]]) (use a base_round [OF hinvD(1) [OF inv] a] in \<open>simp_all add: hround_at_def\<close>)
  then have "base ?t" using a by (simp add: change_round_def base_def)
  moreover have "h_poll ?t = None" "h_active ?t = Some i" using inv a by (simp_all add: hinv_def quiet_def change_round_def)
  ultimately have "hinv (finish obs i (Some ''TIMEOUT'') ?t)" by (intro hinv_finish [OF assms(1)]) simp_all
  then show ?thesis using True by (simp add: timeout_fires_def)
qed (use inv in \<open>auto simp: timeout_fires_def\<close>)

lemma hinv_call: "good obs \<Longrightarrow> hinv s \<Longrightarrow> hinv (health_call obs s c)"
proof (cases c)
  case CallResume
  assume "good obs" "hinv s"
  moreover from \<open>hinv s\<close> have "\<not> h_disposed s \<Longrightarrow> hinv (s\<lparr>h_suspended := False, h_paused := False\<rparr>)"
    by (simp add: hinv_def quiet_def)
  ultimately show ?thesis using CallResume by (simp add: hinv_update)
qed (simp_all add: hinv_update hinv_cancel hinvD)

interpretation health_callers: reentrant health_call health_script hinv
proof unfold_locales
  fix obs :: hobserver and s c
  assume "\<And>n t. hinv t \<Longrightarrow> hinv (obs n t)" and "hinv s"
  then show "hinv (health_call obs s c)" by (intro hinv_call) (simp_all add: good_def)
next
  fix s t cs
  assume "hinv s" and "health_script s = Some (t, cs)"
  then show "hinv t" by (auto simp: health_script_def split: list.splits)
qed

lemma good_observer: "good (health_observer d)"
  using health_callers.kept_answered by (auto simp: good_def)

lemma hinv_step: "good obs \<Longrightarrow> hinv s \<Longrightarrow> hinv (health_step obs s ev)"
  by (cases ev) (simp_all add: hinv_call hinv_poll hinv_timeout hinv_keys hinv_identity hinv_probe)

interpretation health_runs: event_machine "health_step (health_observer d)" hinv for d
  by unfold_locales (rule hinv_step [OF good_observer])

lemma hinv_create: "hinv (create_health e)"
  by (simp add: create_health_def hinv_def base_def shape_def timed_def quiet_def log_ok_def)

lemmas hinv_run = health_runs.inv_run [OF hinv_create]

section \<open>Callers never start a round\<close>

definition restful :: "hobserver \<Rightarrow> bool" where
  "restful obs \<longleftrightarrow> (\<forall>n s. h_active s = None \<longrightarrow> h_active (obs n s) = None)"

lemma idle_cancel: "h_active s = None \<Longrightarrow> h_active (cancel obs b s) = None"
  by (simp add: cancel_def clear_timer_def)

lemma idle_update: "h_active s = None \<Longrightarrow> h_active (update obs s) = None"
  by (simp add: update_def Let_def idle_cancel schedule_def split: option.split)

lemma idle_call: "h_active s = None \<Longrightarrow> h_active (health_call obs s c) = None"
  by (cases c) (simp_all add: idle_cancel idle_update)

interpretation health_idle: reentrant health_call health_script "\<lambda>s. h_active s = None"
proof unfold_locales
  fix s t :: health and cs
  assume "h_active s = None" and "health_script s = Some (t, cs)"
  then show "h_active t = None" by (auto simp: health_script_def split: list.splits)
qed (rule idle_call)

lemma idle_publish: "h_active s = None \<Longrightarrow> h_active (publish (health_observer d) i c cause s) = None"
  by (simp add: publish_def Let_def health_idle.kept_answered)

lemma idle_finish: "h_active s = Some i \<Longrightarrow> h_active (finish (health_observer d) i code s) = None"
  by (simp add: finish_def Let_def idle_update idle_publish)

section \<open>The log only grows\<close>

definition recording :: "hnotice \<times> menv \<Rightarrow> hobserver \<Rightarrow> bool" where
  "recording x obs \<longleftrightarrow> (\<forall>n s. x \<in> set (h_log s) \<longrightarrow> x \<in> set (h_log (obs n s)))"

lemma log_cancel: "recording x obs \<Longrightarrow> x \<in> set (h_log s) \<Longrightarrow> x \<in> set (h_log (cancel obs b s))"
  by (auto simp: cancel_def clear_timer_def publish_def recording_def Let_def split: option.split)

lemma log_schedule [simp]: "h_log (schedule s) = h_log s"
  by (simp add: schedule_def split: option.split)

lemma log_update: "recording x obs \<Longrightarrow> x \<in> set (h_log s) \<Longrightarrow> x \<in> set (h_log (update obs s))"
  by (auto simp: update_def Let_def intro!: log_cancel split: option.split)

lemma log_call: "recording x obs \<Longrightarrow> x \<in> set (h_log s) \<Longrightarrow> x \<in> set (h_log (health_call obs s c))"
  by (cases c) (auto intro!: log_cancel log_update)

interpretation health_recorded: reentrant health_call health_script "\<lambda>s. x \<in> set (h_log s)" for x
proof unfold_locales
  fix obs :: hobserver and s :: health and c
  assume "\<And>n t. x \<in> set (h_log t) \<Longrightarrow> x \<in> set (h_log (obs n t))" and "x \<in> set (h_log s)"
  then show "x \<in> set (h_log (health_call obs s c))" by (intro log_call) (simp_all add: recording_def)
next
  fix s t :: health and cs
  assume "x \<in> set (h_log s)" and "health_script s = Some (t, cs)"
  then show "x \<in> set (h_log t)" by (auto simp: health_script_def split: list.splits)
qed

lemma recording_observer: "recording x (health_observer d)"
  using health_recorded.kept_answered by (auto simp: recording_def)

lemma finish_records:
  assumes "current i s" and "\<not> h_disposed s"
  shows "(RemoteState i (m_scope (hc_env (hr_context (hround_at i s)))) (Verdict code), h_env s) \<in> set (h_log (finish (health_observer d) i code s))"
proof -
  have "h_active s = Some i" using assms(1) by (simp add: current_def)
  then show ?thesis using assms
    by (simp add: finish_def Let_def publish_def) (intro log_update recording_observer health_recorded.kept_answered, simp)
qed

section \<open>Properties\<close>

text \<open>
  Claim C34: a verdict of the health probe is about the present.  When the service reports a round reachable or
  failed, the probe is enabled and wanted at that moment, the proxy is up and idle, and scope, Cookie and every
  observed setting are those the round began with; and each round gives at most one verdict, whatever the
  callers do inside the callbacks.
\<close>

theorem health_verdict_current:
  assumes "s = foldl (health_step (health_observer d)) (create_health e0) evs"
    and "k < length (h_log s)" and "h_log s ! k = (RemoteState i sc (Verdict code), e)"
  shows "i < length (h_rounds s) \<and> sc = m_scope e \<and> preference e ''healthProbeEnabled'' \<and> m_desired e \<and> m_proxy e = ''started''
    \<and> m_operation e = None \<and> m_cookie e \<noteq> [] \<and> m_cookie e = m_cookie (hc_env (hr_context (hround_at i s)))
    \<and> map_option hc_key (context_of e) = Some (hc_key (hr_context (hround_at i s)))
    \<and> (\<forall>m<length (h_log s). m \<noteq> k \<longrightarrow> i \<notin> set (verdict_of (h_log s ! m)))"
proof -
  have inv: "base s" unfolding assms(1) by (rule hinvD(1) [OF hinv_run])
  have "entry_ok (h_rounds s) (h_log s ! k)" using inv assms(2) by (simp add: base_def log_ok_def list_all_length)
  then obtain c where c: "i < length (h_rounds s)" "sc = m_scope e" "context_of e = Some c" "hc_eligible c"
    "hc_key c = hc_key (hr_context (hround_at i s))" unfolding assms(3) by (auto simp: hround_at_def)
  have "m_cookie e = m_cookie (hc_env (hr_context (hround_at i s)))"
    using same_authority_scope [OF c(3) base_context [OF inv c(1)] same_key_authority [OF c(3) base_context [OF inv c(1)] c(5)]] ..
  moreover have "i \<notin> set (verdict_of (h_log s ! m))" if "m < length (h_log s)" "m \<noteq> k" for m
    using inv that assms(2,3) by (intro concat_distinct_apart [of verdict_of "h_log s" k m]) (simp_all add: base_def log_ok_def verdicts_def)
  ultimately show ?thesis using c eligible_facts [OF c(3,4)] by simp
qed

text \<open>
  Claim C35: an observation is bounded.  While a round is active its timeout is armed and no poll is scheduled; when
  the timeout fires no round is active any more, and a round that is still current is reported as timed out.  A
  disposed, suspended or paused service has nothing pending.
\<close>

theorem health_round_bounded:
  assumes "s = foldl (health_step (health_observer d)) (create_health e0) evs"
    and "t = health_step (health_observer d) s (RoundTimeout i)"
  shows "(h_active s = Some i \<longrightarrow> hr_timer (hround_at i s) \<and> h_poll s = None \<and> h_active t = None
      \<and> (current i s \<longrightarrow> (RemoteState i (m_scope (h_env s)) (Verdict (Some ''TIMEOUT'')), h_env s) \<in> set (h_log t)))
    \<and> (h_disposed s \<or> h_suspended s \<or> h_paused s \<longrightarrow> h_active s = None \<and> h_poll s = None)"
proof -
  have inv: "hinv s" unfolding assms(1) by (rule hinv_run)
  have "h_active t = None \<and> (current i s \<longrightarrow> (RemoteState i (m_scope (h_env s)) (Verdict (Some ''TIMEOUT'')), h_env s) \<in> set (h_log t))"
    if a: "h_active s = Some i" and armed: "hr_timer (hround_at i s)"
  proof -
    let ?u = "change_round i (\<lambda>r. r\<lparr>hr_timer := False\<rparr>) s"
    have i: "i < length (h_rounds s)" using base_round [OF hinvD(1) [OF inv] a] ..
    have t: "t = finish (health_observer d) i (Some ''TIMEOUT'') ?u" using i armed assms(2) by (simp add: timeout_fires_def)
    have rest: "h_active ?u = Some i" "h_env ?u = h_env s" "hr_context (hround_at i ?u) = hr_context (hround_at i s)"
      "hr_aborted (hround_at i ?u) = hr_aborted (hround_at i s)" "h_disposed ?u = h_disposed s" "h_suspended ?u = h_suspended s"
      "h_paused ?u = h_paused s" using a i by (simp_all add: change_round_def hround_at_def)
    have same: "current i ?u = current i s" by (simp add: current_def rest a cong: option.case_cong)
    show ?thesis
    proof (intro conjI impI)
      show "h_active t = None" unfolding t by (rule idle_finish [OF rest(1)])
      assume c: "current i s"
      have "m_scope (hc_env (hr_context (hround_at i s))) = m_scope (h_env s)" by (rule current_context [OF c hinvD(1) [OF inv]])
      then show "(RemoteState i (m_scope (h_env s)) (Verdict (Some ''TIMEOUT'')), h_env s) \<in> set (h_log t)"
        using finish_records [of i ?u "Some ''TIMEOUT''" d] c by (simp add: t same rest) (simp add: current_def)
    qed
  qed
  then show ?thesis using hinvD(2) [OF inv] by (auto simp: quiet_def timed_def hround_at_def)
qed

section \<open>Witnesses\<close>

definition demo_health_env :: menv where
  "demo_health_env =
     \<lparr>m_scope = (js ''default'', 1), m_desired = True, m_proxy = ''started'', m_remote = ''unknown'', m_operation = None, m_storage = None,
      m_code = None, m_cookie_valid = True, m_running = JNull, m_config = JObj ObjectProto [(js ''port'', JNum 1080)], m_cookie = js ''c'',
      m_generation = None, m_preferences = [(js ''healthProbeEnabled'', JBool True)], m_throws = False\<rparr>"

definition demo_keys :: jsval where
  "demo_keys = JObj ObjectProto
     [(js ''client'', JObj ObjectProto [(js ''state'', JStr (js ''ready''))]),
      (js ''host'', JObj ObjectProto [(js ''state'', JStr (js ''ready'')), (js ''fingerprint'', JStr (js ''SHA256:x''))])]"

definition demo_health_events :: "health_event list" where
  "demo_health_events =
     [ServiceCall CallUpdate, EnvChange demo_health_env [(demo_health_env\<lparr>m_remote := ''checking''\<rparr>, [CallUpdate])], PollTimer,
      KeysAnswer 0 (Inr demo_keys), IdentityAnswer 0 (Inr ()), ProbeAnswer 0 (Inr ())]"

definition demo_health :: "nat \<Rightarrow> health" where
  "demo_health n = foldl (health_step (health_observer 1)) (create_health demo_health_env) (take n demo_health_events)"

lemma demo_health_verdict:
  "length (h_log (demo_health 6)) = 3
   \<and> h_log (demo_health 6) ! 2 = (RemoteState 0 (js ''default'', 1) (Verdict None), demo_health_env\<lparr>m_remote := ''checking''\<rparr>)"
  by code_simp

lemma demo_health_active: "h_active (demo_health 3) = Some 0 \<and> current 0 (demo_health 3) \<and> m_scope (h_env (demo_health 3)) = (js ''default'', 1)"
  by code_simp

lemma health_verdict_current_witness:
  "map_option hc_key (context_of (demo_health_env\<lparr>m_remote := ''checking''\<rparr>)) = Some (hc_key (hr_context (hround_at 0 (demo_health 6))))"
  using health_verdict_current [OF demo_health_def [of 6], of 2] demo_health_verdict by simp

lemma health_round_bounded_witness:
  "h_active (health_step (health_observer 1) (demo_health 3) (RoundTimeout 0)) = None
   \<and> (RemoteState 0 (js ''default'', 1) (Verdict (Some ''TIMEOUT'')), h_env (demo_health 3))
       \<in> set (h_log (health_step (health_observer 1) (demo_health 3) (RoundTimeout 0)))"
  using health_round_bounded [OF demo_health_def [of 3] refl, where i = 0] demo_health_active by simp

end
