(* ===== verification/TokenValidation.thy ===== *)
theory TokenValidation
  imports Monitors PortalAuth
begin

text \<open>
  \<^verbatim>\<open>electron/token-validation-service.js\<close>: every few minutes, ask the portal whether the token is still good.

  The parts are those of \<^verbatim>\<open>HealthProbe\<close>: rounds by index, the context captured by the pending timer,
  answers as events, observers that call back.  The answer to a round is what \<open>portalPreflight.validate\<close>
  returned or threw (\<^verbatim>\<open>PortalAuth.run_validate\<close>).  \<open>t_log\<close> records when a round starts and every call of
  \<open>onResult\<close>, with the environment and the inhibited credential at that moment; an observer that throws
  is an observer that answers (the code drops its error).
\<close>

definition MIN_TOKEN_VALIDATION_INTERVAL_MS :: nat where
  "MIN_TOKEN_VALIDATION_INTERVAL_MS = 5 * 60 * 1000"

definition interval_ms :: "jsval \<Rightarrow> int" where
  "interval_ms v = max (int MIN_TOKEN_VALIDATION_INTERVAL_MS) (case v of JNum n \<Rightarrow> n | _ \<Rightarrow> int MIN_TOKEN_VALIDATION_INTERVAL_MS)"

type_synonym credential_key = "jsstr \<times> nat option \<times> jsstr"
type_synonym token_key = "nat \<times> credential_key \<times> bool"

record tcontext =
  tc_env :: menv
  tc_credential :: credential_key
  tc_eligible :: bool
  tc_key :: token_key

definition context_of :: "menv \<Rightarrow> tcontext option" where
  "context_of e =
     (if m_throws e then None
      else
        (let credential = (fst (m_scope e), m_generation e, m_cookie e);
             enabled = preference e ''validateTokenPeriodically'';
             eligible = (enabled \<and> m_cookie e \<noteq> [] \<and> m_cookie_valid e \<and> m_storage e = None \<and> m_operation e = None) in
         Some \<lparr>tc_env = e, tc_credential = credential, tc_eligible = eligible, tc_key = (snd (m_scope e), credential, eligible)\<rparr>))"

record tround =
  tr_context :: tcontext
  tr_aborted :: bool
  tr_pending :: bool

datatype tnotice = Started nat | Result nat mscope "nat option" string "string option"

record tokens =
  t_rounds :: "tround list"
  t_active :: "nat option"
  t_timer :: "tcontext option"
  t_observed :: "token_key option"
  t_inhibited :: "credential_key option"
  t_suspended :: bool
  t_disposed :: bool
  t_env :: menv
  t_script :: "(menv \<times> service_call list) list"
  t_log :: "(tnotice \<times> menv \<times> credential_key option) list"

type_synonym tobserver = "tnotice \<Rightarrow> tokens \<Rightarrow> tokens"

definition tround_at :: "nat \<Rightarrow> tokens \<Rightarrow> tround" where
  "tround_at i s = t_rounds s ! i"

definition change_tround :: "nat \<Rightarrow> (tround \<Rightarrow> tround) \<Rightarrow> tokens \<Rightarrow> tokens" where
  "change_tround i f s = s\<lparr>t_rounds := (t_rounds s)[i := f (t_rounds s ! i)]\<rparr>"

definition stop_timer :: "tokens \<Rightarrow> tokens" where
  "stop_timer s = s\<lparr>t_timer := None\<rparr>"

definition cancel :: "tokens \<Rightarrow> tokens" where
  "cancel s =
     (case t_active s of
        None \<Rightarrow> stop_timer s
      | Some i \<Rightarrow> change_tround i (\<lambda>r. r\<lparr>tr_aborted := True\<rparr>) ((stop_timer s)\<lparr>t_active := None\<rparr>))"

definition current :: "nat \<Rightarrow> tokens \<Rightarrow> bool" where
  "current i s \<longleftrightarrow> \<not> t_disposed s \<and> \<not> t_suspended s \<and> t_active s = Some i \<and> \<not> tr_aborted (tround_at i s)
     \<and> map_option tc_key (context_of (t_env s)) = Some (tc_key (tr_context (tround_at i s)))"

definition schedule :: "tcontext \<Rightarrow> tokens \<Rightarrow> tokens" where
  "schedule c s =
     (if t_disposed s \<or> t_suspended s \<or> t_timer s \<noteq> None \<or> t_active s \<noteq> None \<or> \<not> tc_eligible c \<or> t_inhibited s = Some (tc_credential c)
      then s else s\<lparr>t_timer := Some c\<rparr>)"

definition update :: "tokens \<Rightarrow> tokens" where
  "update s =
     (if t_disposed s \<or> t_suspended s then s
      else case context_of (t_env s) of
        None \<Rightarrow> (cancel s)\<lparr>t_observed := None\<rparr>
      | Some c \<Rightarrow>
          (let s = (if t_observed s \<noteq> Some (tc_key c) \<or> \<not> tc_eligible c then cancel s else s);
               s = s\<lparr>t_observed := Some (tc_key c)\<rparr>;
               s = (if t_inhibited s \<noteq> Some (tc_credential c) then s\<lparr>t_inhibited := None\<rparr> else s) in
           schedule c s))"

definition tnote :: "tnotice \<Rightarrow> tokens \<Rightarrow> tokens" where
  "tnote n s = s\<lparr>t_log := t_log s @ [(n, t_env s, t_inhibited s)]\<rparr>"

definition timer_fires :: "tokens \<Rightarrow> tokens" where
  "timer_fires s0 =
     (case t_timer s0 of
        None \<Rightarrow> s0
      | Some c \<Rightarrow>
          (let s = s0\<lparr>t_timer := None\<rparr> in
           case context_of (t_env s) of
             None \<Rightarrow> s
           | Some latest \<Rightarrow>
               if tc_key latest \<noteq> tc_key c then update s
               else (let i = length (t_rounds s) in
                     tnote (Started i) (s\<lparr>t_rounds := t_rounds s @ [\<lparr>tr_context = latest, tr_aborted = False, tr_pending = True\<rparr>],
                       t_active := Some i\<rparr>))))"

definition result_status :: "token_status \<Rightarrow> string \<times> string option" where
  "result_status r = (case r of TokenValid \<Rightarrow> (''valid'', None) | TokenInvalid _ \<Rightarrow> (''invalid'', Some ''AUTH_REQUIRED'')
     | TokenUnknown code \<Rightarrow> (''network_error'', Some (operational_code code)))"

definition report :: "tobserver \<Rightarrow> nat \<Rightarrow> string \<times> string option \<Rightarrow> tokens \<Rightarrow> tokens" where
  "report obs i outcome s =
     (let c = tr_context (tround_at i s);
          n = Result i (m_scope (tc_env c)) (m_generation (tc_env c)) (fst outcome) (snd outcome) in
      obs n (tnote n s))"

definition settle :: "nat \<Rightarrow> tokens \<Rightarrow> tokens" where
  "settle i s = (if t_active s = Some i then update (s\<lparr>t_active := None\<rparr>) else s)"

definition token_answer :: "tobserver \<Rightarrow> nat \<Rightarrow> string + token_status \<Rightarrow> tokens \<Rightarrow> tokens" where
  "token_answer obs i answer s0 =
     (if i < length (t_rounds s0) \<and> tr_pending (tround_at i s0) then
        (let s = change_tround i (\<lambda>r. r\<lparr>tr_pending := False\<rparr>) s0;
             s = (if \<not> current i s then s
                  else case answer of
                    Inl code \<Rightarrow> report obs i (''network_error'', Some (operational_code code)) s
                  | Inr r \<Rightarrow>
                      report obs i (result_status r)
                        (case r of TokenInvalid _ \<Rightarrow> s\<lparr>t_inhibited := Some (tc_credential (tr_context (tround_at i s)))\<rparr> | _ \<Rightarrow> s)) in
         settle i s)
      else s0)"

fun tokens_call :: "tobserver \<Rightarrow> tokens \<Rightarrow> service_call \<Rightarrow> tokens" where
  "tokens_call obs s CallUpdate = update s"
| "tokens_call obs s CallCancel = cancel s"
| "tokens_call obs s CallSuspend = cancel (s\<lparr>t_suspended := True\<rparr>)"
| "tokens_call obs s CallResume = (if t_disposed s then s else update (s\<lparr>t_suspended := False\<rparr>))"
| "tokens_call obs s CallDispose = cancel (s\<lparr>t_disposed := True\<rparr>)"

definition tokens_script :: "tokens \<Rightarrow> (tokens \<times> service_call list) option" where
  "tokens_script s = (case t_script s of [] \<Rightarrow> None | (e, cs) # rest \<Rightarrow> Some (s\<lparr>t_env := e, t_script := rest\<rparr>, cs))"

abbreviation tokens_observer :: "nat \<Rightarrow> tobserver" where
  "tokens_observer d \<equiv> answered tokens_call tokens_script d"

datatype token_event =
    TokenCall service_call | TokenTimer | TokenAnswer nat "string + token_status" | TokenEnv menv "(menv \<times> service_call list) list"

fun tokens_step :: "tobserver \<Rightarrow> tokens \<Rightarrow> token_event \<Rightarrow> tokens" where
  "tokens_step obs s (TokenCall c) = tokens_call obs s c"
| "tokens_step obs s TokenTimer = timer_fires s"
| "tokens_step obs s (TokenAnswer i a) = token_answer obs i a s"
| "tokens_step obs s (TokenEnv e rs) = s\<lparr>t_env := e, t_script := rs\<rparr>"

definition create_tokens :: "menv \<Rightarrow> tokens" where
  "create_tokens e =
     \<lparr>t_rounds = [], t_active = None, t_timer = None, t_observed = None, t_inhibited = None, t_suspended = False, t_disposed = False,
      t_env = e, t_script = [], t_log = []\<rparr>"

end
