(* ===== verification/PortalFacts.thy ===== *)
theory PortalFacts
  imports PortalAuth
begin

text \<open>
  What a call of the portal client, and the token check made of it, guarantee.  The lemmas on single steps say
  what a normal return means; \<open>keeps\<close> carries the frame (the server's answer and the requests sent) through the
  combinators.
\<close>

section \<open>Steps that return\<close>

definition calm :: "pcall \<Rightarrow> bool" where
  "calm w \<longleftrightarrow> p_failure w = None \<and> \<not> p_disposed w \<and> \<not> p_aborted w \<and> \<not> p_stale w"

declare act_Inr [simp]

lemma throw_simps [simp]: "fst (throwM e w) = Inl e" "snd (throwM e w) = w"
  by (simp_all add: throwM_def)

lemma fail_Inr [simp]: "\<not> fail k w = (Inr b, v)"
  by (simp add: fail_def)

lemma raise_Inr [simp]: "raise_failure w = (Inr u, v) \<longleftrightarrow> v = w \<and> p_failure w = None"
  by (cases "p_failure w") (auto simp: raise_failure_def bindM_Inr_iff)

lemma check_Inr [simp]: "check w = (Inr u, v) \<longleftrightarrow> v = w \<and> calm w"
  by (auto simp: check_def bindM_Inr_iff calm_def)

lemma normalized_Inr [simp]: "\<not> normalized e w = (Inr b, v)"
  by (simp add: normalized_def bindM_Inr_iff split: option.split)

lemma try_normalized_Inr [simp]: "tryM m normalized w = (Inr b, v) \<longleftrightarrow> m w = (Inr b, v)"
  by (auto simp: tryM_def split: prod.splits sum.splits)

section \<open>The frame\<close>

text \<open>What the waiting and reading steps leave alone.\<close>

definition same_exchange :: "pcall \<Rightarrow> pcall \<Rightarrow> bool" where
  "same_exchange w v \<longleftrightarrow> p_answer v = p_answer w \<and> p_chunks v = p_chunks w \<and> p_requests v = p_requests w
     \<and> p_uploading v = p_uploading w \<and> p_uploaded v = p_uploaded w"

lemma same_refl [simp]: "same_exchange w w"
  by (simp add: same_exchange_def)

lemma same_trans: "same_exchange u v \<Longrightarrow> same_exchange v w \<Longrightarrow> same_exchange u w"
  by (simp add: same_exchange_def)

lemma interrupted_same: "same_exchange u w \<Longrightarrow> same_exchange u (interrupted w i)"
  by (cases i) (auto simp: same_exchange_def stop_def release_def Let_def)

lemma keeps_await [act_rules]: "keeps (same_exchange u) await"
proof (rule keepsI)
  fix w assume w: "same_exchange u w"
  show "same_exchange u (snd (await w))"
  proof (cases "p_waits w")
    case (Cons iss rest)
    have "same_exchange u (foldl interrupted (w\<lparr>p_waits := rest\<rparr>) iss)"
      by (rule foldl_invariant [where I = "same_exchange u"]) (use w interrupted_same in \<open>auto simp: same_exchange_def\<close>)
    then show ?thesis using Cons by (simp add: await_def)
  qed (use w in \<open>simp add: await_def\<close>)
qed

lemma keeps_steps [act_rules]:
  "keeps P raise_failure" "keeps P check" "keeps P (fail k)" "keeps P (normalized e)"
  unfolding raise_failure_def check_def fail_def normalized_def
  by (intro keeps_bind keeps_read keeps_throw keeps_guard keeps_ret keeps_case_option allI | simp)+

lemma keeps_receive [act_rules]: "keeps (same_exchange u) (receive_chunks r limit count cs)"
proof (induction cs arbitrary: count)
  case (Cons c cs)
  then show ?case by (cases c) (auto intro!: act_rules)
qed (auto intro!: act_rules)

lemma keeps_collect [act_rules]: "keeps (same_exchange u) (collect r limit)"
  unfolding collect_def by (intro act_rules)

lemma keeps_counted [act_rules]: "keeps (same_exchange u) (counted expected sent cs)"
proof (induction cs arbitrary: sent)
  case (Cons c cs)
  then show ?case by (cases c) (auto intro!: act_rules)
qed (auto intro!: act_rules)

lemma await_same: "await w = (r, v) \<Longrightarrow> same_exchange w v"
  using keepsD2 [OF keeps_await same_refl] .

lemma collect_same: "collect r limit w = (res, v) \<Longrightarrow> same_exchange w v"
  using keepsD2 [OF keeps_collect same_refl] .

section \<open>Bodies\<close>

lemma receive_Inr:
  assumes "receive_chunks r limit count cs w = (Inr bs, v)" and "count \<le> limit"
  shows "s_complete r \<and> (\<exists>bss. cs = map Some bss \<and> bs = concat bss) \<and> count + length bs \<le> limit \<and> calm v"
  using assms
proof (induction cs arbitrary: count w bs)
  case Nil
  then show ?case by (auto simp: bindM_Inr_iff split: if_splits)
next
  case (Cons c cs)
  obtain b where c: "c = Some b" using Cons.prems by (cases c) (auto simp: bindM_Inr_iff)
  obtain u rest where u: "receive_chunks r limit (count + length b) cs u = (Inr rest, v)" "bs = b @ rest" "count + length b \<le> limit"
    using Cons.prems c by (auto simp: bindM_Inr_iff split: if_splits)
  obtain bss where "s_complete r" "cs = map Some bss" "rest = concat bss" "count + length b + length rest \<le> limit" "calm v"
    using Cons.IH [OF u(1,3)] by blast
  then have "c # cs = map Some (b # bss) \<and> bs = concat (b # bss)" using c u(2) by simp
  then show ?case using \<open>s_complete r\<close> \<open>calm v\<close> \<open>count + length b + length rest \<le> limit\<close> u(2) by (metis add.assoc length_append)
qed

lemma collect_Inr:
  assumes "collect r limit w = (Inr bs, v)"
  shows "s_complete r \<and> (\<exists>bss. p_chunks w = map Some bss \<and> bs = concat bss) \<and> length bs \<le> limit \<and> calm v \<and> same_exchange w v"
  using assms receive_Inr [of r limit 0 "p_chunks w" w bs v] collect_same [OF assms] by (auto simp: collect_def bindM_Inr_iff)

lemma counted_Inr:
  assumes "counted expected sent cs w = (Inr bs, v)" and "sent \<le> expected"
  shows "(\<exists>bss. cs = map Some bss \<and> bs = concat bss) \<and> sent + length bs = expected"
  using assms
proof (induction cs arbitrary: sent w bs)
  case Nil
  then show ?case by (auto split: if_splits)
next
  case (Cons c cs)
  obtain b where c: "c = Some b" using Cons.prems by (cases c) (auto simp: bindM_Inr_iff)
  obtain u rest where u: "counted expected (sent + length b) cs u = (Inr rest, v)" "bs = b @ rest" "sent + length b \<le> expected"
    using Cons.prems c by (auto simp: bindM_Inr_iff split: if_splits)
  obtain bss where "cs = map Some bss" "rest = concat bss" "sent + length b + length rest = expected"
    using Cons.IH [OF u(1,3)] by blast
  then have "c # cs = map Some (b # bss) \<and> bs = concat (b # bss)" using c u(2) by simp
  then show ?case using \<open>sent + length b + length rest = expected\<close> u(2) by (metis add.assoc length_append)
qed

definition uploaded_exactly :: "pbody \<Rightarrow> nat \<Rightarrow> pcall \<Rightarrow> bool" where
  "uploaded_exactly body n w \<longleftrightarrow> (\<forall>cs. body = StreamBody cs \<longrightarrow>
     (\<exists>bss. cs = map Some bss \<and> p_uploaded w = Some (concat bss) \<and> length (concat bss) = n))"

lemma finish_upload_Inr:
  assumes "finish_upload body n w = (Inr u, v)"
  shows "uploaded_exactly body n v \<and> same_exchange (w\<lparr>p_uploaded := p_uploaded v\<rparr>) v"
proof (cases body)
  case (StreamBody cs)
  then obtain bs x where x: "counted n 0 cs w = (Inr bs, x)" "v = x\<lparr>p_uploaded := Some bs\<rparr>"
    using assms by (auto simp: finish_upload_def bindM_Inr_iff)
  have "same_exchange w x" by (rule keepsD2 [OF keeps_counted same_refl x(1)])
  then show ?thesis using counted_Inr [OF x(1)] x(2) StreamBody by (auto simp: uploaded_exactly_def same_exchange_def)
qed (use assms in \<open>simp_all add: finish_upload_def uploaded_exactly_def\<close>)

section \<open>A call that returns\<close>

lemma body_result_pure:
  "body_result parse mode status bs x = (Inr res, v) \<Longrightarrow> v = x \<and> (\<forall>y. body_result parse mode status bs y = (Inr res, y))"
  by (auto simp: body_result_def split: if_splits option.splits)

lemma stream_result_pure:
  "stream_result r maximum x = (Inr res, v) \<Longrightarrow> v = x \<and> (\<forall>y. stream_result r maximum y = (Inr res, y))"
  by (auto simp: stream_result_def Let_def split: if_splits option.splits)

lemma refuse_Inr: "\<not> refuse_status parse path r w = (Inr res, v)"
  by (simp add: refuse_status_def bindM_Inr_iff Let_def)

text \<open>What an accepted answer means for the result.\<close>

definition result_from :: "parser \<Rightarrow> pmode \<Rightarrow> nat \<Rightarrow> presponse \<Rightarrow> byte list option list \<Rightarrow> presult \<Rightarrow> bool" where
  "result_from parse mode maximum r chunks res \<longleftrightarrow>
     (if mode = ModeStream then \<forall>y. stream_result r maximum y = (Inr res, y)
      else s_complete r \<and> (\<exists>bss. chunks = map Some bss \<and> length (concat bss) \<le> min maximum MAX_JSON_BYTES
        \<and> (\<forall>y. body_result parse mode (s_status r) (concat bss) y = (Inr res, y))))"

lemma send_Inr:
  assumes "send b q w = (Inr r, v)"
  shows "p_answer w = Some r \<and> same_exchange (w\<lparr>p_requests := p_requests w @ [q], p_uploading := b\<rparr>) v"
proof -
  obtain x where x: "await (w\<lparr>p_requests := p_requests w @ [q], p_uploading := b\<rparr>) = (Inr (), x)" "p_answer x = Some r" "v = x"
    using assms by (auto simp: send_def bindM_Inr_iff split: option.splits)
  then show ?thesis using await_same [OF x(1)] by (simp add: same_exchange_def)
qed

lemma exchange_Inr:
  assumes "exchange parse mode opt l w = (Inr res, v)"
  obtains r where "p_answer w = Some r" and "success (s_status r)" and "s_encoding r \<in> {None, Some [], Some (js ''identity'')}"
    and "case o_expected opt of None \<Rightarrow> True | Some ss \<Rightarrow> s_status r \<in> set ss"
    and "uploaded_exactly (o_body opt) (l_announced l) v" and "calm v" and "p_requests v = p_requests w @ [l_request l]"
    and "result_from parse mode (l_maximum l) r (p_chunks w) res"
proof -
  let ?w = "w\<lparr>p_active := True, p_listening := True, p_timer := Some (l_duration l)\<rparr>"
  obtain r a b c where r: "send (is_stream_body (o_body opt)) (l_request l) ?w = (Inr r, a)" "calm a"
    "s_encoding r \<in> {None, Some [], Some (js ''identity'')}" "success (s_status r)"
    "case o_expected opt of None \<Rightarrow> True | Some ss \<Rightarrow> s_status r \<in> set ss"
    "finish_upload (o_body opt) (l_announced l) a = (Inr (), b)" "await b = (Inr (), c)" "calm c"
    "(if mode = ModeStream then stream_result r (l_maximum l)
      else bindM (collect r (min (l_maximum l) MAX_JSON_BYTES)) (body_result parse mode (s_status r))) c = (Inr res, v)"
    using assms by (auto simp: exchange_def bindM_Inr_iff refuse_Inr split: if_splits)
  have same: "same_exchange (?w\<lparr>p_requests := p_requests w @ [l_request l], p_uploading := is_stream_body (o_body opt)\<rparr>) a"
    "same_exchange (a\<lparr>p_uploaded := p_uploaded b\<rparr>) b" "same_exchange b c"
    using send_Inr [OF r(1)] finish_upload_Inr [OF r(6)] await_same [OF r(7)] by simp_all
  have final: "same_exchange c v \<and> calm v \<and> result_from parse mode (l_maximum l) r (p_chunks c) res"
  proof (cases "mode = ModeStream")
    case True
    then show ?thesis using r(8,9) stream_result_pure [of r "l_maximum l" c res v] by (simp add: result_from_def)
  next
    case False
    then obtain bs x where x: "collect r (min (l_maximum l) MAX_JSON_BYTES) c = (Inr bs, x)" "body_result parse mode (s_status r) bs x = (Inr res, v)"
      using r(9) by (auto simp: bindM_Inr_iff)
    show ?thesis using collect_Inr [OF x(1)] body_result_pure [OF x(2)] False by (auto simp: result_from_def)
  qed
  have "uploaded_exactly (o_body opt) (l_announced l) v"
    using finish_upload_Inr [OF r(6)] same(3) final by (auto simp: uploaded_exactly_def same_exchange_def)
  then show ?thesis using that [of r] r send_Inr [OF r(1)] same final by (simp add: same_exchange_def)
qed

section \<open>Errors\<close>

text \<open>
  Where the kind \<open>AUTH\<close> can come from.  \<open>auth_free a\<close> says that the server answers \<open>a\<close>, nothing has failed with
  that kind so far and no stream is being uploaded; \<open>not_auth a\<close> that a step keeps this and does not fail with it.
\<close>

definition auth_free :: "presponse option \<Rightarrow> pcall \<Rightarrow> bool" where
  "auth_free a w \<longleftrightarrow> p_answer w = a \<and> (\<forall>st. p_failure w \<noteq> Some (AUTH, st)) \<and> \<not> p_uploading w"

definition not_auth :: "presponse option \<Rightarrow> (pcall, portal_error, 'a) act \<Rightarrow> bool" where
  "not_auth a m \<longleftrightarrow> (\<forall>w. auth_free a w \<longrightarrow> auth_free a (snd (m w)) \<and> (\<forall>st. fst (m w) \<noteq> Inl (AUTH, st)))"

lemma not_authD: "not_auth a m \<Longrightarrow> auth_free a w \<Longrightarrow> m w = (r, v) \<Longrightarrow> auth_free a v \<and> (\<forall>st. r \<noteq> Inl (AUTH, st))"
  by (metis not_auth_def fst_conv snd_conv)

lemma not_auth_returns:
  assumes m: "not_auth a m" and f: "\<And>x w v. auth_free a w \<Longrightarrow> m w = (Inr x, v) \<Longrightarrow> not_auth a (f x)"
  shows "not_auth a (bindM m f)"
  unfolding not_auth_def
proof (intro allI impI)
  fix w assume w: "auth_free a w"
  obtain r v where v: "m w = (r, v)" by fastforce
  note d = not_authD [OF m w v]
  show "auth_free a (snd (bindM m f w)) \<and> (\<forall>st. fst (bindM m f w) \<noteq> Inl (AUTH, st))"
  proof (cases r)
    case (Inr x)
    obtain r2 v2 where "f x v = (r2, v2)" by fastforce
    then show ?thesis using not_authD [OF f [OF w v [unfolded Inr]], of v r2 v2] d v Inr by (simp add: bindM_def)
  qed (use d v in \<open>auto simp: bindM_def\<close>)
qed

lemma not_auth_bind: "not_auth a m \<Longrightarrow> (\<And>x. not_auth a (f x)) \<Longrightarrow> not_auth a (bindM m f)"
  by (rule not_auth_returns)

lemma not_auth_basic: "not_auth a (retM x)" "not_auth a (readM f)" "k \<noteq> AUTH \<Longrightarrow> not_auth a (fail k)" "k \<noteq> AUTH \<Longrightarrow> not_auth a (guardM b (k, st))"
  by (simp_all add: not_auth_def retM_def readM_def fail_def throwM_def guardM_def)

lemma not_auth_failure: "not_auth a raise_failure" "not_auth a check" "k \<noteq> AUTH \<Longrightarrow> not_auth a (normalized (k, st))"
  by (auto simp: not_auth_def raise_failure_def check_def normalized_def act_combinators auth_free_def split: option.splits)

lemma interrupted_auth: "auth_free a w \<Longrightarrow> auth_free a (interrupted w i)"
  by (cases i) (auto simp: auth_free_def stop_def release_def Let_def split: option.splits)

lemma not_auth_await: "not_auth a await"
  unfolding not_auth_def
proof (intro allI impI conjI)
  fix w st assume w: "auth_free a w"
  show "auth_free a (snd (await w))"
  proof (cases "p_waits w")
    case (Cons iss rest)
    have "auth_free a (foldl interrupted (w\<lparr>p_waits := rest\<rparr>) iss)"
      by (rule foldl_invariant [where I = "auth_free a"]) (use w interrupted_auth in \<open>auto simp: auth_free_def\<close>)
    then show ?thesis using Cons by (simp add: await_def)
  qed (use w in \<open>simp add: await_def\<close>)
  show "fst (await w) \<noteq> Inl (AUTH, st)" by (simp add: await_def)
qed

lemmas not_auth_rules = not_auth_bind not_auth_basic not_auth_failure not_auth_await

lemma not_auth_receive: "not_auth a (receive_chunks r limit count cs)"
proof (induction cs arbitrary: count)
  case (Cons c cs)
  then show ?case by (cases c) (auto intro!: not_auth_rules)
qed (auto intro!: not_auth_rules)

lemma not_auth_try: "not_auth a m \<Longrightarrow> not_auth a (tryM m normalized)"
  unfolding not_auth_def tryM_def normalized_def act_combinators
  by (fastforce simp: auth_free_def split: prod.splits sum.splits option.splits)

lemma not_auth_collect: "not_auth a (collect r limit)"
  unfolding collect_def by (intro not_auth_rules not_auth_try not_auth_receive)


lemma not_auth_modify: "(\<And>w. auth_free a w \<Longrightarrow> auth_free a (f w)) \<Longrightarrow> not_auth a (modifyM f)"
  by (simp add: not_auth_def modifyM_def)

lemma not_auth_send: "not_auth a (send False q)"
  unfolding send_def by (intro not_auth_rules not_auth_modify) (auto simp: auth_free_def intro!: not_auth_rules split: option.split)

lemma not_auth_if: "not_auth a m \<Longrightarrow> not_auth a n \<Longrightarrow> not_auth a (if b then m else n)"
  by simp

lemma classify_auth: "classify_status parse status body path ct = AUTH \<Longrightarrow> status = 401 \<or> status = 403 \<and> path = VALIDATE_PATH"
  by (auto simp: classify_status_def Let_def split: if_splits)

lemma not_auth_refuse:
  assumes "s_status r \<noteq> 401" and "s_status r \<noteq> 403 \<or> path \<noteq> VALIDATE_PATH"
  shows "not_auth a (refuse_status parse path r)"
proof -
  have fail: "not_auth a (bindM (modifyM (\<lambda>w. w\<lparr>p_failure := Some (k, st)\<rparr>)) (\<lambda>_. throwM (k, st)))" if "k \<noteq> AUTH" for k st
    using that by (auto simp: not_auth_def bindM_def modifyM_def throwM_def auth_free_def)
  have "classify_status parse (s_status r) body path (s_type r) \<noteq> AUTH" for body
    using classify_auth assms by blast
  then show ?thesis unfolding refuse_status_def Let_def by (intro not_auth_bind [OF not_auth_collect] fail)
qed

lemma not_auth_results: "not_auth a (stream_result r maximum)" "not_auth a (body_result parse mode status bs)"
  by (auto simp: stream_result_def body_result_def Let_def intro!: not_auth_rules split: option.split)

lemma not_auth_exchange:
  assumes "\<And>r. a = Some r \<Longrightarrow> s_status r \<noteq> 401 \<and> (s_status r \<noteq> 403 \<or> q_path (l_request l) \<noteq> VALIDATE_PATH)"
    and "\<not> is_stream_body (o_body opt)"
  shows "not_auth a (exchange parse mode opt l)"
proof -
  have refuse: "not_auth a (refuse_status parse (q_path (l_request l)) r)"
    if "auth_free a w" "send False (l_request l) w = (Inr r, v)" for r w v
    using that send_Inr [OF that(2)] assms(1) [of r] by (intro not_auth_refuse) (auto simp: auth_free_def)
  have up: "not_auth a (finish_upload (o_body opt) n)" for n
    using assms(2) by (cases "o_body opt") (auto simp: finish_upload_def is_stream_body_def intro: not_auth_rules)
  show ?thesis unfolding exchange_def
    apply (simp only: assms(2))
    apply (rule not_auth_bind [OF not_auth_failure(2)])
    apply (rule not_auth_bind [OF not_auth_modify], simp add: auth_free_def)
    apply (rule not_auth_bind [OF not_auth_failure(2)])
    apply (rule not_auth_returns [OF not_auth_send])
    subgoal for x y z r w v
      by (intro not_auth_bind not_auth_failure not_auth_if not_auth_basic not_auth_await not_auth_results not_auth_collect up
          refuse [of w r v]) simp_all
    done
qed

section \<open>The request of a call\<close>

lemma extra_headers_other:
  "extra_headers hs acc = Inr r \<Longrightarrow> k \<notin> set EXTRA_HEADERS \<Longrightarrow> map_of r k = map_of acc k"
proof (induction hs acc rule: extra_headers.induct)
  case (2 name v hs acc)
  then show ?case by (auto simp: Let_def AList.update_conv' split: if_splits)
qed simp

lemma js_other_headers: "js ''Cookie'' \<notin> set EXTRA_HEADERS" "js ''Cookie'' \<noteq> js ''content-type''" "js ''Cookie'' \<noteq> js ''content-length''"
  by (simp_all add: EXTRA_HEADERS_def js_def)

lemma body_headers_cookie: "body_headers body hs = Inr (r, n) \<Longrightarrow> map_of r (js ''Cookie'') = map_of hs (js ''Cookie'')"
  using js_other_headers by (auto simp: body_headers_def AList.update_conv' Let_def split: pbody.splits option.splits if_splits)

lemma body_headers_stream:
  "body_headers body hs = Inr (r, n) \<Longrightarrow> is_stream_body body \<Longrightarrow> length_text (header r ''content-length'') = Some n"
  by (auto simp: body_headers_def is_stream_body_def split: pbody.splits option.splits)

lemma base_headers_cookie: "map_of (base_headers mode) (js ''Cookie'') = None"
  by (simp add: base_headers_def js_def)

lemma plan_Inr:
  assumes "plan token timeout path opt mode = Inr l"
  shows "api_path path \<and> q_path (l_request l) = path \<and> q_query (l_request l) = query_pairs (o_query opt) []
    \<and> (o_authenticated opt = JBool False \<or> token \<noteq> None)
    \<and> map_of (q_headers (l_request l)) (js ''Cookie'') = (if o_authenticated opt = JBool False then None else map_option (\<lambda>t. token_name @ t) token)
    \<and> (is_stream_body (o_body opt) \<longrightarrow> length_text (header (q_headers (l_request l)) ''content-length'') = Some (l_announced l))"
proof -
  obtain h1 h2 hs n where h: "extra_headers (o_headers opt) (base_headers mode) = Inr h1"
    "(if o_authenticated opt = JBool False then Inr h1
      else case token of None \<Rightarrow> Inl AUTH | Some t \<Rightarrow> Inr (AList.update (js ''Cookie'') (token_name @ t) h1)) = Inr h2"
    "body_headers (o_body opt) h2 = Inr (hs, n)" "api_path path"
    "l_request l = \<lparr>q_method = (if o_method opt = [] then ''GET'' else o_method opt), q_path = path, q_query = query_pairs (o_query opt) [],
       q_headers = hs, q_body = body_bytes (o_body opt)\<rparr>" "l_announced l = n"
    using assms by (auto simp: plan_def Let_def split: if_splits option.splits)
  have "map_of h1 (js ''Cookie'') = None"
    using extra_headers_other [OF h(1) js_other_headers(1)] base_headers_cookie [of mode] by simp
  moreover from h(2) have "map_of h2 (js ''Cookie'') = (if o_authenticated opt = JBool False then map_of h1 (js ''Cookie'') else map_option (\<lambda>t. token_name @ t) token)"
    "o_authenticated opt = JBool False \<or> token \<noteq> None"
    by (auto simp: AList.update_conv' split: if_splits option.splits)
  ultimately show ?thesis using h body_headers_cookie [OF h(3)] body_headers_stream [OF h(3)] by simp
qed

lemma new_call_simps [simp]:
  "p_answer (new_call w) = p_answer w" "p_chunks (new_call w) = p_chunks w" "p_requests (new_call w) = p_requests w"
  "p_uploading (new_call w) = False" "p_failure (new_call w) = None"
  by (simp_all add: new_call_def)

lemma release_simps [simp]:
  "p_answer (release w) = p_answer w" "p_requests (release w) = p_requests w" "p_uploaded (release w) = p_uploaded w"
  "calm (release w) = calm w" "p_active (release w) = False" "p_timer (release w) = None" "p_listening (release w) = False"
  by (simp_all add: release_def calm_def)

lemma perform_Inr:
  assumes "perform parse timeout token path opt mode w = (Inr res, v)"
  obtains l x where "plan token timeout path opt mode = Inr l" and "exchange parse mode opt l (new_call w) = (Inr res, x)"
    and "v = (if is_stream res then x else release x)"
  using assms by (auto simp: perform_def bindM_Inr_iff unless_streamed_def split: if_splits sum.splits prod.splits)

lemma perform_auth:
  assumes "perform parse timeout token path opt mode w = (Inl (AUTH, st), v)" and "\<not> is_stream_body (o_body opt)"
    and "o_authenticated opt = JBool False"
  shows "\<exists>r. p_answer w = Some r \<and> (s_status r = 401 \<or> s_status r = 403 \<and> path = VALIDATE_PATH)"
proof (rule ccontr)
  assume none: "\<not> ?thesis"
  have extra: "extra_headers hs acc \<noteq> Inl AUTH" for hs acc
    by (induction hs acc rule: extra_headers.induct) (auto simp: Let_def)
  have body: "body_headers b hs \<noteq> Inl AUTH" for b hs
    by (auto simp: body_headers_def Let_def split: pbody.splits option.splits)
  have plan: "plan token timeout path opt mode \<noteq> Inl AUTH"
    using assms(3) extra body by (auto simp: plan_def Let_def bindR_def split: sum.splits option.splits if_splits)
  then obtain l x where l: "plan token timeout path opt mode = Inr l" "tryM (exchange parse mode opt l) normalized (new_call w) = (Inl (AUTH, st), x)"
    using assms(1) by (auto simp: perform_def bindM_def readM_def modifyM_def fail_def throwM_def unless_streamed_def split: if_splits sum.splits prod.splits)
  have "not_auth (p_answer w) (tryM (exchange parse mode opt l) normalized)"
    using none plan_Inr [OF l(1)] assms(2) by (intro not_auth_try not_auth_exchange) auto
  moreover have "auth_free (p_answer w) (new_call w)" by (simp add: auth_free_def)
  ultimately show False using not_authD l(2) by blast
qed

section \<open>What a returned result means\<close>

lemma perform_sound:
  assumes "perform parse timeout token path opt mode w = (Inr res, v)"
  shows "\<exists>q r. p_requests v = p_requests w @ [q] \<and> q_path q = path \<and> q_query q = query_pairs (o_query opt) [] \<and> api_path path
    \<and> map_of (q_headers q) (js ''Cookie'') = (if o_authenticated opt = JBool False then None else map_option (\<lambda>t. token_name @ t) token)
    \<and> p_answer w = Some r \<and> success (s_status r) \<and> (\<forall>ss. o_expected opt = Some ss \<longrightarrow> s_status r \<in> set ss) \<and> calm v
    \<and> (mode \<noteq> ModeStream \<longrightarrow> s_complete r \<and> (\<exists>bss. p_chunks w = map Some bss \<and> length (concat bss) \<le> MAX_JSON_BYTES
        \<and> (mode = ModeText \<longrightarrow> res = TextResult (utf8_lossy (concat bss)))
        \<and> (mode = ModeJson \<and> s_status r \<noteq> 204 \<longrightarrow> (\<exists>x. parse (utf8_lossy (concat bss)) = Some x \<and> res = JsonResult x))))
    \<and> (\<forall>cs. o_body opt = StreamBody cs \<longrightarrow> (\<exists>bss. cs = map Some bss \<and> p_uploaded v = Some (concat bss)
        \<and> length_text (header (q_headers q) ''content-length'') = Some (length (concat bss))))
    \<and> (\<not> is_stream res \<longrightarrow> \<not> p_active v \<and> p_timer v = None \<and> \<not> p_listening v)"
proof -
  obtain l x where l: "plan token timeout path opt mode = Inr l" "exchange parse mode opt l (new_call w) = (Inr res, x)"
    "v = (if is_stream res then x else release x)" by (rule perform_Inr [OF assms])
  obtain r where r: "p_answer w = Some r" "success (s_status r)" "case o_expected opt of None \<Rightarrow> True | Some ss \<Rightarrow> s_status r \<in> set ss"
    "uploaded_exactly (o_body opt) (l_announced l) x" "calm x" "p_requests x = p_requests w @ [l_request l]"
    "result_from parse mode (l_maximum l) r (p_chunks w) res"
    by (rule exchange_Inr [OF l(2)]) simp
  have v: "calm v" "p_requests v = p_requests x" "p_uploaded v = p_uploaded x" using l(3) r(5) by simp_all
  have body: "s_complete r \<and> (\<exists>bss. p_chunks w = map Some bss \<and> length (concat bss) \<le> MAX_JSON_BYTES
      \<and> (mode = ModeText \<longrightarrow> res = TextResult (utf8_lossy (concat bss)))
      \<and> (mode = ModeJson \<and> s_status r \<noteq> 204 \<longrightarrow> (\<exists>x. parse (utf8_lossy (concat bss)) = Some x \<and> res = JsonResult x)))"
    if "mode \<noteq> ModeStream"
    using r(7) that by (fastforce simp: result_from_def body_result_def split: option.splits)
  have upload: "\<exists>bss. cs = map Some bss \<and> p_uploaded v = Some (concat bss)
      \<and> length_text (header (q_headers (l_request l)) ''content-length'') = Some (length (concat bss))"
    if "o_body opt = StreamBody cs" for cs
    using r(4) plan_Inr [OF l(1)] that v(3) by (auto simp: uploaded_exactly_def is_stream_body_def)
  have expected: "\<forall>ss. o_expected opt = Some ss \<longrightarrow> s_status r \<in> set ss" using r(3) by auto
  show ?thesis
    using r(1,2,6) plan_Inr [OF l(1)] v body upload expected l(3) by (intro exI [of _ "l_request l"] exI [of _ r]) simp
qed

lemma strip_units: "u \<in> set s \<Longrightarrow> u \<noteq> 32 \<Longrightarrow> u \<in> set (strip_separators s)"
proof (induction s rule: strip_separators.induct)
  case (2 v s)
  have "u \<in> set s \<Longrightarrow> u \<in> set (dropWhile (\<lambda>v. v = 32) s)"
    using 2(4) set_takeWhileD [of u "\<lambda>v. v = 32" s] takeWhile_dropWhile_id [of "\<lambda>v. v = 32" s] by (metis UnE set_append)
  then show ?case using 2 by (cases "v = 59") auto
qed simp

lemma token_clean:
  assumes "extract_scow_token cookie = Inr (Some t)"
  shows "t \<noteq> [] \<and> \<not> list_ex token_text_bad t"
proof -
  obtain s m where s: "\<not> list_ex (\<lambda>u. u \<le> 32 \<or> 127 \<le> u \<and> u \<le> 159) (strip_separators s)"
    "filter (\<lambda>p. starts_with p token_name) (map js_trim (split_on 59 s)) = [m]" "t = drop (length token_name) m" "t \<noteq> []"
    "\<not> list_ex token_unit_bad t"
    using assms by (auto simp: extract_scow_token_def Let_def split: sum.splits if_splits list.splits)
  have "m \<in> set (filter (\<lambda>p. starts_with p token_name) (map js_trim (split_on 59 s)))" by (simp add: s(2))
  then obtain p where p: "p \<in> set (split_on 59 s)" "m = js_trim p" by auto
  have "set t \<subseteq> set p" using s(3) p(2) by (auto simp: js_trim_def dest!: in_set_dropD set_dropWhileD)
  then have "set t \<subseteq> set s" using split_on_set [OF p(1)] by (rule subset_trans)
  have "\<not> token_text_bad u" if u: "u \<in> set t" for u
  proof
    assume "token_text_bad u"
    moreover have "\<not> token_unit_bad u" using s(5) u by (auto simp: list_ex_iff)
    ultimately have c: "u \<le> 31 \<or> u = 127" by (simp add: token_text_bad_def)
    then have "u \<in> set (strip_separators s)" using \<open>set t \<subseteq> set s\<close> u by (intro strip_units) auto
    then show False using s(1) c by (auto simp: list_ex_iff)
  qed
  then show ?thesis using s(4) by (auto simp: list_ex_iff)
qed

lemma interrupted_answer [simp]: "p_answer (dispose_client w) = p_answer w" "p_requests (dispose_client w) = p_requests w"
  "p_aborted (dispose_client w) = p_aborted w" "p_stale (dispose_client w) = p_stale w"
  by (simp_all add: dispose_client_def Let_def stop_def release_def)

lemma assert_fresh_Inr [simp]: "assert_fresh stale w = (Inr u, v) \<longleftrightarrow> v = w \<and> \<not> p_aborted w \<and> \<not> p_stale w"
  by (auto simp: assert_fresh_def bindM_Inr_iff)

lemma finally_modify_Inr: "finallyM m (modifyM f) w = (Inr r, v) \<longleftrightarrow> (\<exists>x. m w = (Inr r, x) \<and> v = f x)"
  by (auto simp: finallyM_def modifyM_def split: prod.splits)

lemma call_portal_Inr:
  assumes "call_portal base_ok stale cookie ex w = (Inr r, v)"
  obtains own x where "extract_scow_token cookie = Inr own" and "ex own (w\<lparr>p_disposed := False\<rparr>) = (Inr r, x)" and "v = dispose_client x"
    and "\<not> p_aborted x" and "\<not> p_stale x"
  using assms by (auto simp: call_portal_def bindM_Inr_iff finally_modify_Inr split: sum.splits if_splits)

lemma query_token: "query_pairs (o_query (get_options\<lparr>o_query := [(js ''token'', JStr t)]\<rparr>)) [] = [(js ''token'', t)]"
  by (simp add: nullish_def)

lemma run_validate_Inr:
  assumes "run_validate parse base_ok stale cookie w = (Inr verdict, v)" and "verdict = TokenValid \<or> verdict = TokenInvalid c"
    and "extract_scow_token cookie = Inr (Some t)"
  obtains x where "validate_token parse (Some t) t (w\<lparr>p_disposed := False\<rparr>) = (Inr verdict, x)" and "v = dispose_client x"
    and "\<not> p_aborted x" and "\<not> p_stale x"
proof -
  have "call_portal base_ok stale cookie (\<lambda>own. validate_token parse own t) w = (Inr verdict, v)"
    using assms by (auto simp: run_validate_def tryM_def split: prod.splits sum.splits)
  then show ?thesis by (rule call_portal_Inr) (use assms(3) that in auto)
qed

section \<open>Properties\<close>

section \<open>Limits and streams\<close>

text \<open>The limit of a call: the caller's \<open>maxBytes\<close>, or the default of its mode.\<close>

definition caller_limit :: "pmode \<Rightarrow> poptions \<Rightarrow> nat \<Rightarrow> bool" where
  "caller_limit mode opt n \<longleftrightarrow> 1 \<le> n
     \<and> (if nullish (o_max opt) then n = (if mode = ModeStream then 64 * 1024 * 1024 else 1024 * 1024) else o_max opt = JNum (int n))"

lemma plan_limit:
  assumes "plan token timeout path opt mode = Inr l"
  shows "caller_limit mode opt (l_maximum l)"
proof -
  have "positive (default_to (if mode = ModeStream then DEFAULT_STREAM_BYTES else MAX_JSON_BYTES) (o_max opt)) = Some (l_maximum l)"
    using assms by (auto simp: plan_def Let_def split: if_splits option.splits)
  then show ?thesis
    by (auto simp: positive_def default_to_def caller_limit_def DEFAULT_STREAM_BYTES_def MAX_JSON_BYTES_def
        split: jsval.splits if_splits)
qed

lemma stream_result_Inr:
  assumes "stream_result r n x = (Inr res, v)"
  shows "\<exists>len ct. res = StreamResult r len ct n \<and> (len = None \<longleftrightarrow> s_length r = None)
    \<and> (\<forall>raw. s_length r = Some raw \<longrightarrow> len = length_text raw) \<and> (\<forall>k. len = Some k \<longrightarrow> k \<le> n)"
  using assms by (auto simp: stream_result_def Let_def split: option.splits if_splits)

lemma perform_limits:
  assumes "perform parse timeout token path opt mode w = (Inr res, v)"
  shows "\<exists>n r. caller_limit mode opt n \<and> p_answer w = Some r
    \<and> (mode \<noteq> ModeStream \<longrightarrow> (\<exists>bss. p_chunks w = map Some bss \<and> length (concat bss) \<le> min n MAX_JSON_BYTES))
    \<and> (mode = ModeStream \<longrightarrow> (\<exists>len ct. res = StreamResult r len ct n \<and> (len = None \<longleftrightarrow> s_length r = None)
        \<and> (\<forall>raw. s_length r = Some raw \<longrightarrow> len = length_text raw) \<and> (\<forall>k. len = Some k \<longrightarrow> k \<le> n)))"
proof -
  obtain l x where l: "plan token timeout path opt mode = Inr l" "exchange parse mode opt l (new_call w) = (Inr res, x)"
    by (rule perform_Inr [OF assms])
  obtain r where r: "p_answer w = Some r" "result_from parse mode (l_maximum l) r (p_chunks w) res"
    by (rule exchange_Inr [OF l(2)]) simp
  show ?thesis
    using r plan_limit [OF l(1)] stream_result_Inr
    by (intro exI [of _ "l_maximum l"] exI [of _ r]) (auto simp: result_from_def split: if_splits)
qed

text \<open>Reading the body of a stream, in whatever state the call then is.\<close>

lemma read_stream_sound:
  assumes "read_stream r n u = (out, v)"
  shows "\<not> p_active v \<and> p_timer v = None \<and> \<not> p_listening v
    \<and> (\<forall>bs. out = Inr bs \<longrightarrow> s_complete r \<and> (\<exists>bss. p_chunks u = map Some bss \<and> bs = concat bss) \<and> length bs \<le> n)"
proof -
  obtain res x where c: "collect r n u = (res, x)" by fastforce
  then have "v = release x" "out = res" using assms by (auto simp: read_stream_def released_def finallyM_def modifyM_def)
  then show ?thesis using c collect_Inr [of r n u _ x] by auto
qed

lemma cancel_stream_releases:
  "\<not> p_active (snd (cancel_stream u)) \<and> p_timer (snd (cancel_stream u)) = None \<and> \<not> p_listening (snd (cancel_stream u))"
  by (simp add: cancel_stream_def modifyM_def stop_def)

section \<open>The result of a call\<close>

text \<open>
  Claim C36: what a call of the portal client returns is the portal's answer to it.  Exactly one request was sent, to a
  path below \<open>/api/\<close>, with the Cookie of this session exactly when the call is authenticated; the status is a success
  the caller expects; the call was not cancelled, disposed, stale or failed up to its end; a body was received completely,
  within the caller's limit (or the default) and within one megabyte, and decoded as the mode says; an uploaded stream has
  sent exactly the announced number of bytes; and
  unless the result is a stream the call has released its timer and its listener.  A stream comes with the announced
  length, which is within the limit; what its reader gets when it ends is the complete body, within the limit, and when reading
  ends, fails or is cancelled the call is released.
\<close>

theorem portal_result_sound:
  assumes "perform parse timeout token path opt mode w = (Inr res, v)"
  shows "\<exists>q r n. p_requests v = p_requests w @ [q] \<and> q_path q = path \<and> api_path path
    \<and> map_of (q_headers q) (js ''Cookie'') = (if o_authenticated opt = JBool False then None else map_option (\<lambda>t. token_name @ t) token)
    \<and> p_answer w = Some r \<and> success (s_status r) \<and> (\<forall>ss. o_expected opt = Some ss \<longrightarrow> s_status r \<in> set ss) \<and> calm v
    \<and> caller_limit mode opt n
    \<and> (mode \<noteq> ModeStream \<longrightarrow> s_complete r \<and> (\<exists>bss. p_chunks w = map Some bss \<and> length (concat bss) \<le> min n (1024 * 1024)
        \<and> (mode = ModeText \<longrightarrow> res = TextResult (utf8_lossy (concat bss)))
        \<and> (mode = ModeJson \<and> s_status r \<noteq> 204 \<longrightarrow> (\<exists>x. parse (utf8_lossy (concat bss)) = Some x \<and> res = JsonResult x))))
    \<and> (\<forall>cs. o_body opt = StreamBody cs \<longrightarrow> (\<exists>bss. cs = map Some bss \<and> p_uploaded v = Some (concat bss)
        \<and> length_text (header (q_headers q) ''content-length'') = Some (length (concat bss))))
    \<and> (\<not> is_stream res \<longrightarrow> \<not> p_active v \<and> p_timer v = None \<and> \<not> p_listening v)
    \<and> (mode = ModeStream \<longrightarrow> (\<exists>len ct. res = StreamResult r len ct n \<and> (len = None \<longleftrightarrow> s_length r = None)
        \<and> (\<forall>raw. s_length r = Some raw \<longrightarrow> len = length_text raw) \<and> (\<forall>k. len = Some k \<longrightarrow> k \<le> n))
        \<and> (\<forall>u out u'. read_stream r n u = (out, u') \<or> cancel_stream u = (Inr (), u') \<longrightarrow> \<not> p_active u' \<and> p_timer u' = None \<and> \<not> p_listening u')
        \<and> (\<forall>u bs u'. read_stream r n u = (Inr bs, u') \<longrightarrow>
              s_complete r \<and> (\<exists>bss. p_chunks u = map Some bss \<and> bs = concat bss) \<and> length bs \<le> n))"
proof -
  obtain n r where lim: "caller_limit mode opt n \<and> p_answer w = Some r
    \<and> (mode \<noteq> ModeStream \<longrightarrow> (\<exists>bss. p_chunks w = map Some bss \<and> length (concat bss) \<le> min n MAX_JSON_BYTES))
    \<and> (mode = ModeStream \<longrightarrow> (\<exists>len ct. res = StreamResult r len ct n \<and> (len = None \<longleftrightarrow> s_length r = None)
        \<and> (\<forall>raw. s_length r = Some raw \<longrightarrow> len = length_text raw) \<and> (\<forall>k. len = Some k \<longrightarrow> k \<le> n)))"
    using perform_limits [OF assms] by (elim exE) (rule that)
  note n = lim [THEN conjunct1] lim [THEN conjunct2, THEN conjunct1]
    lim [THEN conjunct2, THEN conjunct2, THEN conjunct1, unfolded MAX_JSON_BYTES_def, rule_format]
    lim [THEN conjunct2, THEN conjunct2, THEN conjunct2]
  have same: "map Some bss = map Some css \<Longrightarrow> bss = css" for bss css :: "byte list list" by (metis inj_Some inj_map_eq_map)
  have reading: "\<not> p_active u' \<and> p_timer u' = None \<and> \<not> p_listening u'" if "read_stream r n u = (out, u') \<or> cancel_stream u = (Inr (), u')" for u out u'
    using that read_stream_sound [of r n u out u'] cancel_stream_releases [of u] by auto
  have read: "s_complete r \<and> (\<exists>bss. p_chunks u = map Some bss \<and> bs = concat bss) \<and> length bs \<le> n" if "read_stream r n u = (Inr bs, u')" for u bs u'
    using read_stream_sound [OF that] by blast
  obtain q r' where q: "p_requests v = p_requests w @ [q]" "q_path q = path" "api_path path"
    "map_of (q_headers q) (js ''Cookie'') = (if o_authenticated opt = JBool False then None else map_option (\<lambda>t. token_name @ t) token)"
    "p_answer w = Some r'" "success (s_status r')" "\<forall>ss. o_expected opt = Some ss \<longrightarrow> s_status r' \<in> set ss" "calm v"
    and body: "mode \<noteq> ModeStream \<longrightarrow> s_complete r' \<and> (\<exists>bss. p_chunks w = map Some bss \<and> length (concat bss) \<le> MAX_JSON_BYTES
        \<and> (mode = ModeText \<longrightarrow> res = TextResult (utf8_lossy (concat bss)))
        \<and> (mode = ModeJson \<and> s_status r' \<noteq> 204 \<longrightarrow> (\<exists>x. parse (utf8_lossy (concat bss)) = Some x \<and> res = JsonResult x)))"
    and up: "\<forall>cs. o_body opt = StreamBody cs \<longrightarrow> (\<exists>bss. cs = map Some bss \<and> p_uploaded v = Some (concat bss)
        \<and> length_text (header (q_headers q) ''content-length'') = Some (length (concat bss)))"
    and rel: "\<not> is_stream res \<longrightarrow> \<not> p_active v \<and> p_timer v = None \<and> \<not> p_listening v"
    using perform_sound [OF assms] by (elim exE conjE) (rule that; assumption)
  have r': "r' = r" using q(5) n(2) by simp
  have body': "mode \<noteq> ModeStream \<longrightarrow> s_complete r \<and> (\<exists>bss. p_chunks w = map Some bss \<and> length (concat bss) \<le> min n (1024 * 1024)
        \<and> (mode = ModeText \<longrightarrow> res = TextResult (utf8_lossy (concat bss)))
        \<and> (mode = ModeJson \<and> s_status r \<noteq> 204 \<longrightarrow> (\<exists>x. parse (utf8_lossy (concat bss)) = Some x \<and> res = JsonResult x)))"
    using body n(3) same unfolding r' by metis
  have stream: "mode = ModeStream \<longrightarrow> (\<exists>len ct. res = StreamResult r len ct n \<and> (len = None \<longleftrightarrow> s_length r = None)
        \<and> (\<forall>raw. s_length r = Some raw \<longrightarrow> len = length_text raw) \<and> (\<forall>k. len = Some k \<longrightarrow> k \<le> n))
        \<and> (\<forall>u out u'. read_stream r n u = (out, u') \<or> cancel_stream u = (Inr (), u') \<longrightarrow> \<not> p_active u' \<and> p_timer u' = None \<and> \<not> p_listening u')
        \<and> (\<forall>u bs u'. read_stream r n u = (Inr bs, u') \<longrightarrow>
              s_complete r \<and> (\<exists>bss. p_chunks u = map Some bss \<and> bs = concat bss) \<and> length bs \<le> n)"
    using n(4) reading read by (intro impI conjI) (erule (1) mp, blast+)
  show ?thesis
    by (intro exI [of _ q] exI [of _ r] exI [of _ n] conjI) (fact q [unfolded r'] n(1) body' up rel stream)+
qed

text \<open>
  Claim C37: the verdict on a token rests on evidence.  A Cookie is called invalid only when it carries no single well-formed
  token or the portal answered the check with 401 or 403; it is called valid only when the portal answered exactly
  one check of that token, sent without the Cookie, with status 200 and a complete body that names an identity, and the
  caller's scope was still current.  Everything else is an operational error, which says nothing about the token.
\<close>

theorem token_verdict_evidence:
  assumes "run_validate parse base_ok stale cookie w = (Inr verdict, v)"
  shows "(\<forall>c. verdict = TokenInvalid c \<longrightarrow> (\<forall>t. extract_scow_token cookie \<noteq> Inr (Some t))
      \<or> (\<exists>r. p_answer w = Some r \<and> (s_status r = 401 \<or> s_status r = 403)))
    \<and> (verdict = TokenValid \<longrightarrow> (\<exists>t q r x n bss. extract_scow_token cookie = Inr (Some t) \<and> p_requests v = p_requests w @ [q]
        \<and> q_path q = VALIDATE_PATH \<and> q_query q = [(js ''token'', t)] \<and> map_of (q_headers q) (js ''Cookie'') = None
        \<and> p_answer w = Some r \<and> s_status r = 200 \<and> s_complete r \<and> p_chunks w = map Some bss
        \<and> parse (utf8_lossy (concat bss)) = Some x \<and> getProp x (js ''identityId'') = JStr n \<and> n \<noteq> []
        \<and> \<not> p_aborted v \<and> \<not> p_stale v))"
proof (cases "\<exists>t. extract_scow_token cookie = Inr (Some t)")
  case False
  then show ?thesis using assms by (auto simp: run_validate_def split: sum.splits option.splits)
next
  case True
  then obtain t where t: "extract_scow_token cookie = Inr (Some t)" ..
  let ?o = "get_options\<lparr>o_query := [(js ''token'', JStr t)]\<rparr>" and ?w = "w\<lparr>p_disposed := False\<rparr>"
  have clean: "t \<noteq> []" "\<not> list_ex token_text_bad t" using token_clean [OF t] by simp_all
  show ?thesis
  proof (intro conjI allI impI disjI2)
    fix c assume c: "verdict = TokenInvalid c"
    obtain x where x: "validate_token parse (Some t) t ?w = (Inr verdict, x)" by (rule run_validate_Inr [OF assms _ t]) (use c in auto)
    then obtain st where "perform parse (JNum 10000) (Some t) VALIDATE_PATH ?o ModeJson ?w = (Inl (AUTH, st), x)"
      using clean c by (auto simp: validate_token_def validate_failure_def split: prod.splits sum.splits if_splits)
    then show "\<exists>r. p_answer w = Some r \<and> (s_status r = 401 \<or> s_status r = 403)"
      by (auto dest!: perform_auth simp: get_options_def is_stream_body_def)
  next
    assume valid: "verdict = TokenValid"
    obtain x where x: "validate_token parse (Some t) t ?w = (Inr verdict, x)" "v = dispose_client x" "\<not> p_aborted x" "\<not> p_stale x"
      by (rule run_validate_Inr [OF assms _ t]) (use valid in auto)
    obtain res where res: "perform parse (JNum 10000) (Some t) VALIDATE_PATH ?o ModeJson ?w = (Inr res, x)" "identity_answer_ok res"
      using x(1) clean valid by (auto simp: validate_token_def validate_failure_def split: prod.splits sum.splits if_splits)
    obtain q r where q: "p_requests x = p_requests w @ [q]" "q_path q = VALIDATE_PATH" "q_query q = query_pairs (o_query ?o) []"
      "map_of (q_headers q) (js ''Cookie'') = None" "p_answer w = Some r" "s_status r = 200" "s_complete r"
      and body: "\<exists>bss. p_chunks w = map Some bss \<and> (\<exists>x. parse (utf8_lossy (concat bss)) = Some x \<and> res = JsonResult x)"
      using perform_sound [OF res(1)] by (auto simp: get_options_def)
    obtain bss y where y: "p_chunks w = map Some bss" "parse (utf8_lossy (concat bss)) = Some y" "res = JsonResult y" using body by blast
    obtain n where "getProp y (js ''identityId'') = JStr n" "n \<noteq> []"
      using res(2) y(3) by (auto simp: identity_answer_ok_def split: jsval.splits)
    then show "\<exists>t q r x n bss. extract_scow_token cookie = Inr (Some t) \<and> p_requests v = p_requests w @ [q]
        \<and> q_path q = VALIDATE_PATH \<and> q_query q = [(js ''token'', t)] \<and> map_of (q_headers q) (js ''Cookie'') = None
        \<and> p_answer w = Some r \<and> s_status r = 200 \<and> s_complete r \<and> p_chunks w = map Some bss
        \<and> parse (utf8_lossy (concat bss)) = Some x \<and> getProp x (js ''identityId'') = JStr n \<and> n \<noteq> []
        \<and> \<not> p_aborted v \<and> \<not> p_stale v"
      using t q y x(2-4) query_token [of t] by (intro exI [of _ t] exI [of _ q] exI [of _ r] exI [of _ y] exI [of _ n] exI [of _ bss]) simp
  qed
qed

section \<open>Witnesses\<close>

definition demo_answer :: "nat \<Rightarrow> presponse" where
  "demo_answer status = \<lparr>s_status = status, s_encoding = None, s_type = None, s_length = None, s_complete = True\<rparr>"

definition demo_call :: "nat \<Rightarrow> pcall" where
  "demo_call status =
     \<lparr>p_failure = None, p_disposed = False, p_aborted = False, p_stale = False, p_active = False, p_listening = False, p_timer = None,
      p_waits = [[]], p_answer = Some (demo_answer status), p_chunks = [Some (js ''i''), Some (js ''d'')], p_requests = [],
      p_uploading = False, p_uploaded = None\<rparr>"

definition demo_identity :: jsval where
  "demo_identity = JObj ObjectProto [(js ''identityId'', JStr (js ''u''))]"

definition demo_parse :: parser where
  "demo_parse s = (if s = js ''id'' then Some demo_identity else None)"

definition demo_upload :: poptions where
  "demo_upload = get_options\<lparr>o_method := ''POST'', o_authenticated := JUndef, o_headers := [(js ''Content-Length'', JStr (js ''3''))],
     o_body := StreamBody [Some [1, 2], Some [3]]\<rparr>"

lemma demo_upload_returns: "fst (perform demo_parse (JNum 10000) (Some (js ''t'')) (js ''/api/x'') demo_upload ModeText (demo_call 200)) = Inr (TextResult (js ''id''))"
  by code_simp

lemma portal_result_sound_witness:
  "\<exists>v :: pcall. p_uploaded v = Some [1, 2, 3] \<and> \<not> p_active v \<and> length (p_requests v) = 1"
proof -
  let ?p = "perform demo_parse (JNum 10000) (Some (js ''t'')) (js ''/api/x'') demo_upload ModeText (demo_call 200)"
  have p: "?p = (Inr (TextResult (js ''id'')), snd ?p)" using demo_upload_returns by (simp add: prod_eq_iff)
  have body: "o_body demo_upload = StreamBody (map Some [[1, 2], [3]])" by (simp add: demo_upload_def)
  obtain q bss where q: "p_requests (snd ?p) = p_requests (demo_call 200) @ [q]" "map Some [[1, 2], [3]] = map Some bss"
    "p_uploaded (snd ?p) = Some (concat bss)" "\<not> p_active (snd ?p)"
    using portal_result_sound [OF p] body by (fastforce simp: is_stream_def)
  from q(2) have "bss = [[1, 2], [3]]" by (metis inj_Some inj_map_eq_map)
  then show ?thesis using q by (intro exI [of _ "snd ?p"]) (simp add: demo_call_def)
qed

definition demo_cookie :: jsval where
  "demo_cookie = JStr (js ''a=b; SCOW_USER=abc'')"

lemma demo_verdict: "fst (run_validate demo_parse True ''OPERATION_CANCELLED'' demo_cookie (demo_call 200)) = Inr TokenValid"
  by code_simp

lemma token_verdict_evidence_witness:
  "(\<exists>t. extract_scow_token demo_cookie = Inr (Some t))
   \<and> length (p_requests (snd (run_validate demo_parse True ''OPERATION_CANCELLED'' demo_cookie (demo_call 200)))) = 1"
proof -
  let ?p = "run_validate demo_parse True ''OPERATION_CANCELLED'' demo_cookie (demo_call 200)"
  have p: "?p = (Inr TokenValid, snd ?p)" using demo_verdict by (simp add: prod_eq_iff)
  show ?thesis using token_verdict_evidence [OF p] by (auto simp: demo_call_def)
qed

end
