(* ===== verification/TokenRuns.thy ===== *)
theory TokenRuns
  imports TokenValidation PortalFacts
begin

text \<open>
  What holds over every run of the token validation service, whatever its callers do inside the callback.
\<close>

section \<open>The invariant\<close>

fun tentry_ok :: "tround list \<Rightarrow> tnotice \<times> menv \<times> credential_key option \<Rightarrow> bool" where
  "tentry_ok rs (Started i, e, inhibited) \<longleftrightarrow> i < length rs
     \<and> (\<exists>c. context_of e = Some c \<and> c = tr_context (rs ! i) \<and> tc_eligible c \<and> inhibited \<noteq> Some (tc_credential c))"
| "tentry_ok rs (Result i sc generation status code, e, inhibited) \<longleftrightarrow> i < length rs \<and> \<not> tr_pending (rs ! i)
     \<and> map_option tc_key (context_of e) = Some (tc_key (tr_context (rs ! i))) \<and> sc = m_scope e \<and> generation = m_generation e
     \<and> (status = ''invalid'' \<longrightarrow> inhibited = Some (tc_credential (tr_context (rs ! i))))"

fun result_of :: "tnotice \<times> menv \<times> credential_key option \<Rightarrow> nat list" where
  "result_of (Result i sc generation status code, x) = [i]"
| "result_of _ = []"

definition results :: "(tnotice \<times> menv \<times> credential_key option) list \<Rightarrow> nat list" where
  "results log = concat (map result_of log)"

lemma results_simps [simp]: "results [] = []" "results (log @ [x]) = results log @ result_of x"
  by (simp_all add: results_def)

definition rounds_ok :: "tround list \<Rightarrow> nat option \<Rightarrow> bool" where
  "rounds_ok rs a \<longleftrightarrow> list_all (\<lambda>r. context_of (tc_env (tr_context r)) = Some (tr_context r)) rs
     \<and> (\<forall>i. a = Some i \<longrightarrow> i < length rs \<and> \<not> tr_aborted (rs ! i))"

definition tlog_ok :: "tround list \<Rightarrow> (tnotice \<times> menv \<times> credential_key option) list \<Rightarrow> bool" where
  "tlog_ok rs log \<longleftrightarrow> list_all (tentry_ok rs) log \<and> distinct (results log)"

definition still :: "tokens \<Rightarrow> bool" where
  "still s \<longleftrightarrow> (\<forall>c. t_timer s = Some c \<longrightarrow> t_active s = None \<and> context_of (tc_env c) = Some c \<and> tc_eligible c
       \<and> t_inhibited s \<noteq> Some (tc_credential c))
     \<and> (t_disposed s \<or> t_suspended s \<longrightarrow> t_active s = None \<and> t_timer s = None)"

definition tinv :: "tokens \<Rightarrow> bool" where
  "tinv s \<longleftrightarrow> rounds_ok (t_rounds s) (t_active s) \<and> tlog_ok (t_rounds s) (t_log s) \<and> still s"

lemma tinv_frame [simp]:
  "tinv (s\<lparr>t_observed := x1\<rparr>) = tinv s" "tinv (s\<lparr>t_env := x2\<rparr>) = tinv s" "tinv (s\<lparr>t_script := x3\<rparr>) = tinv s"
  by (simp_all add: tinv_def still_def)

lemma token_context:
  "context_of e = Some c \<Longrightarrow> tc_env c = e \<and> tc_key c = (snd (m_scope e), tc_credential c, tc_eligible c)
     \<and> tc_credential c = (fst (m_scope e), m_generation e, m_cookie e)"
  by (auto simp: context_of_def Let_def split: if_splits)

lemma eligible_check:
  "context_of e = Some c \<Longrightarrow> tc_eligible c \<Longrightarrow> preference e ''validateTokenPeriodically'' \<and> m_cookie e \<noteq> [] \<and> m_cookie_valid e \<and> m_operation e = None"
  by (auto simp: context_of_def Let_def split: if_splits)

lemma key_determines:
  assumes "context_of e = Some c" and "context_of e' = Some c'" and "tc_key c = tc_key c'"
  shows "m_scope e = m_scope e' \<and> m_generation e = m_generation e' \<and> m_cookie e = m_cookie e' \<and> tc_credential c = tc_credential c' \<and> tc_eligible c = tc_eligible c'"
  using token_context [OF assms(1)] token_context [OF assms(2)] assms(3) by (auto simp: prod_eq_iff)

section \<open>Changing a round\<close>

lemma tentry_ok_put:
  "tentry_ok rs x \<Longrightarrow> tr_context r = tr_context (rs ! i) \<Longrightarrow> (tr_pending r \<longrightarrow> tr_pending (rs ! i)) \<Longrightarrow> tentry_ok (rs[i := r]) x"
  by (cases "(rs, x)" rule: tentry_ok.cases) (auto simp: nth_put)

lemma tentry_ok_append: "tentry_ok rs x \<Longrightarrow> tentry_ok (rs @ [r]) x"
  by (cases "(rs, x)" rule: tentry_ok.cases) (auto simp: nth_append)

lemma rounds_ok_put:
  "rounds_ok rs a \<Longrightarrow> tr_context r = tr_context (rs ! i) \<Longrightarrow> b = a \<and> (a = Some i \<longrightarrow> \<not> tr_aborted r) \<or> b = None \<Longrightarrow> rounds_ok (rs[i := r]) b"
  by (auto simp: rounds_ok_def list_all_length nth_put)

lemma tlog_ok_put:
  "tlog_ok rs log \<Longrightarrow> tr_context r = tr_context (rs ! i) \<Longrightarrow> (tr_pending r \<longrightarrow> tr_pending (rs ! i)) \<Longrightarrow> tlog_ok (rs[i := r]) log"
  using tentry_ok_put by (auto simp: tlog_ok_def list_all_iff)

lemma tinv_active: "tinv s \<Longrightarrow> t_active s = Some i \<Longrightarrow> i < length (t_rounds s) \<and> \<not> tr_aborted (tround_at i s)"
  by (simp add: tinv_def rounds_ok_def tround_at_def)

lemma tinv_context: "tinv s \<Longrightarrow> i < length (t_rounds s) \<Longrightarrow> context_of (tc_env (tr_context (tround_at i s))) = Some (tr_context (tround_at i s))"
  by (simp add: tinv_def rounds_ok_def list_all_length tround_at_def)

section \<open>Operations\<close>

lemma cancel_simps [simp]:
  "t_active (cancel s) = None" "t_timer (cancel s) = None" "t_log (cancel s) = t_log s" "t_env (cancel s) = t_env s"
  "t_inhibited (cancel s) = t_inhibited s" "t_disposed (cancel s) = t_disposed s" "t_suspended (cancel s) = t_suspended s"
  by (simp_all add: cancel_def stop_timer_def change_tround_def split: option.split)

text \<open>\<open>cancel\<close> establishes what concerns pending work, so it may follow a change of the flags.\<close>

lemma tinv_cancel:
  assumes "rounds_ok (t_rounds s) (t_active s)" and "tlog_ok (t_rounds s) (t_log s)"
  shows "tinv (cancel s)"
  using assms by (cases "t_active s")
    (auto simp: tinv_def still_def cancel_def stop_timer_def change_tround_def intro!: rounds_ok_put [OF assms(1)] tlog_ok_put)

lemma tinvD: "tinv s \<Longrightarrow> rounds_ok (t_rounds s) (t_active s)" "tinv s \<Longrightarrow> tlog_ok (t_rounds s) (t_log s)"
  by (simp_all add: tinv_def)

lemma tinv_schedule: "tinv s \<Longrightarrow> context_of (tc_env c) = Some c \<Longrightarrow> tinv (schedule c s)"
  by (auto simp: tinv_def schedule_def still_def)

lemma tinv_update:
  assumes "tinv s"
  shows "tinv (update s)"
proof -
  have c: "tinv (cancel s)" by (intro tinv_cancel tinvD assms)
  have o: "tinv t \<Longrightarrow> tinv (t\<lparr>t_inhibited := None\<rparr>)" for t by (simp add: tinv_def still_def)
  have "tinv (schedule x t)" if "context_of (t_env s) = Some x" "tinv t" for x t
    by (rule tinv_schedule) (use that token_context [OF that(1)] in simp_all)
  then show ?thesis using assms c by (auto simp: update_def Let_def o split: option.split)
qed

lemma tinv_note:
  assumes "tinv s" and "tentry_ok (t_rounds s) (n, t_env s, t_inhibited s)" and "\<And>i. result_of (n, t_env s, t_inhibited s) = [i] \<Longrightarrow> i \<notin> set (results (t_log s))"
  shows "tinv (tnote n s)"
proof -
  have "result_of (n, t_env s, t_inhibited s) = [] \<or> (\<exists>i. result_of (n, t_env s, t_inhibited s) = [i])" by (cases n) simp_all
  then show ?thesis using assms by (auto simp: tinv_def tnote_def tlog_ok_def still_def)
qed

lemma results_done: "tlog_ok rs log \<Longrightarrow> i \<in> set (results log) \<Longrightarrow> i < length rs \<and> \<not> tr_pending (rs ! i)"
proof -
  assume ok: "tlog_ok rs log" and "i \<in> set (results log)"
  then obtain x where x: "x \<in> set log" "i \<in> set (result_of x)" by (auto simp: results_def)
  then have "tentry_ok rs x" using ok by (simp add: tlog_ok_def list_all_iff)
  then show ?thesis using x(2) by (cases x rule: result_of.cases) auto
qed

lemma tinv_timer:
  assumes "tinv s"
  shows "tinv (timer_fires s)"
proof (cases "t_timer s")
  case (Some c)
  let ?s = "s\<lparr>t_timer := None\<rparr>"
  have s: "tinv ?s" using assms by (simp add: tinv_def still_def)
  have start: "tinv (tnote (Started (length (t_rounds s))) (?s\<lparr>t_rounds := t_rounds s @ [\<lparr>tr_context = latest, tr_aborted = False, tr_pending = True\<rparr>],
      t_active := Some (length (t_rounds s))\<rparr>))" (is "tinv (tnote ?n ?t)")
    if latest: "context_of (t_env s) = Some latest" "tc_key latest = tc_key c" for latest
  proof -
    have c: "t_active s = None" "tc_eligible c" "t_inhibited s \<noteq> Some (tc_credential c)" "context_of (tc_env c) = Some c"
      "\<not> t_disposed s \<and> \<not> t_suspended s" using assms Some by (auto simp: tinv_def still_def)
    have same: "tc_credential latest = tc_credential c" "tc_eligible latest" using key_determines [OF latest(1) c(4) latest(2)] c(2) by simp_all
    have t: "tinv ?t" using s latest token_context [OF latest(1)] c
      by (auto simp: tinv_def rounds_ok_def tlog_ok_def still_def nth_append list_all_iff tentry_ok_append)
    show ?thesis by (rule tinv_note [OF t]) (use latest(1) same c in simp_all)
  qed
  show ?thesis using Some s start by (auto simp: timer_fires_def Let_def intro: tinv_update split: option.split)
qed (use assms in \<open>simp add: timer_fires_def\<close>)


definition tgood :: "tobserver \<Rightarrow> bool" where
  "tgood obs \<longleftrightarrow> (\<forall>n s. tinv s \<longrightarrow> tinv (obs n s))"

lemma tinv_call: "tinv s \<Longrightarrow> tinv (tokens_call obs s c)"
proof (cases c)
  case CallResume
  assume "tinv s"
  then have "\<not> t_disposed s \<Longrightarrow> tinv (s\<lparr>t_suspended := False\<rparr>)" by (auto simp: tinv_def still_def)
  with \<open>tinv s\<close> CallResume show ?thesis by (simp add: tinv_update)
qed (simp_all add: tinv_update tinv_cancel tinvD)

interpretation token_callers: reentrant tokens_call tokens_script tinv
proof unfold_locales
  fix s t :: tokens and cs
  assume "tinv s" and "tokens_script s = Some (t, cs)"
  then show "tinv t" by (auto simp: tokens_script_def split: list.splits)
qed (rule tinv_call)

lemma tgood_observer: "tgood (tokens_observer d)"
  using token_callers.kept_answered by (auto simp: tgood_def)

lemma tinv_settle: "tinv s \<Longrightarrow> tinv (settle i s)"
proof -
  assume s: "tinv s"
  then have "tinv (s\<lparr>t_active := None\<rparr>)" by (auto simp: tinv_def rounds_ok_def still_def)
  with s show ?thesis by (simp add: settle_def tinv_update)
qed

definition result_notice :: "nat \<Rightarrow> string \<times> string option \<Rightarrow> tokens \<Rightarrow> tnotice" where
  "result_notice i outcome s = Result i (m_scope (tc_env (tr_context (tround_at i s)))) (m_generation (tc_env (tr_context (tround_at i s)))) (fst outcome) (snd outcome)"

lemma report_notice: "report obs i outcome s = obs (result_notice i outcome s) (tnote (result_notice i outcome s) s)"
  by (simp add: report_def result_notice_def Let_def)

lemma tinv_noted:
  assumes s: "tinv s" and cur: "current i s" and over: "\<not> tr_pending (tround_at i s)" "i \<notin> set (results (t_log s))"
    and inh: "fst outcome = ''invalid'' \<Longrightarrow> t_inhibited s = Some (tc_credential (tr_context (tround_at i s)))"
  shows "tinv (tnote (result_notice i outcome s) s)"
proof -
  have i: "i < length (t_rounds s)" using cur tinv_active [OF s, of i] by (simp add: current_def)
  obtain c where c: "context_of (t_env s) = Some c" "tc_key c = tc_key (tr_context (tround_at i s))"
    using cur by (auto simp: current_def)
  have "m_scope (t_env s) = m_scope (tc_env (tr_context (tround_at i s)))" "m_generation (t_env s) = m_generation (tc_env (tr_context (tround_at i s)))"
    using key_determines [OF c(1) tinv_context [OF s i] c(2)] by simp_all
  then show ?thesis
    by (intro tinv_note [OF s]) (use c i over inh in \<open>simp_all add: tround_at_def result_notice_def\<close>)
qed

lemma tinv_report:
  assumes "tgood obs" and "tinv s" and "current i s" and "\<not> tr_pending (tround_at i s)" "i \<notin> set (results (t_log s))"
    and "fst outcome = ''invalid'' \<Longrightarrow> t_inhibited s = Some (tc_credential (tr_context (tround_at i s)))"
  shows "tinv (report obs i outcome s)"
  using assms(1) tinv_noted [OF assms(2-6)] by (simp add: report_notice tgood_def)

text \<open>An answer is taken off its round; if the round is still current nothing else was reported for it.\<close>

lemma answered_round:
  assumes "tinv s" and "i < length (t_rounds s)" and "tr_pending (tround_at i s)" and "t = change_tround i (\<lambda>r. r\<lparr>tr_pending := False\<rparr>) s"
  shows "tinv t" "\<not> tr_pending (tround_at i t)" "i \<notin> set (results (t_log t))" "tr_context (tround_at i t) = tr_context (tround_at i s)"
proof -
  show "i \<notin> set (results (t_log t))"
    using results_done [OF tinvD(2) [OF assms(1)], of i] assms(3,4) by (auto simp: change_tround_def tround_at_def)
  show "tinv t" using assms(1,4) tinv_active [OF assms(1), of i]
    by (auto simp: change_tround_def tinv_def still_def tround_at_def intro!: rounds_ok_put tlog_ok_put)
qed (use assms(2,4) in \<open>simp_all add: change_tround_def tround_at_def\<close>)

lemma tinv_inhibit: "tinv t \<Longrightarrow> current i t \<Longrightarrow> tinv (t\<lparr>t_inhibited := k\<rparr>)"
  by (auto simp: tinv_def still_def current_def)

lemma tinv_answer:
  assumes "tgood obs" and "tinv s"
  shows "tinv (token_answer obs i answer s)"
proof (cases "i < length (t_rounds s) \<and> tr_pending (tround_at i s)")
  case True
  let ?t = "change_tround i (\<lambda>r. r\<lparr>tr_pending := False\<rparr>) s"
  note t = answered_round [OF assms(2) True [THEN conjunct1] True [THEN conjunct2] refl]
  have report: "tinv (report obs i outcome u)"
    if "current i ?t" "u = ?t \<or> (\<exists>k. u = ?t\<lparr>t_inhibited := k\<rparr>)"
      "fst outcome = ''invalid'' \<Longrightarrow> t_inhibited u = Some (tc_credential (tr_context (tround_at i ?t)))" for outcome u
    by (rule tinv_report [OF assms(1)])
      (use that t(1-3) tinv_inhibit [OF t(1)] in \<open>auto simp: current_def tround_at_def\<close>)
  show ?thesis using True t(1) report
    by (auto simp: token_answer_def Let_def result_status_def intro!: tinv_settle report split: sum.split token_status.split)
qed (use assms(2) in \<open>auto simp: token_answer_def\<close>)

lemma tinv_step: "tgood obs \<Longrightarrow> tinv s \<Longrightarrow> tinv (tokens_step obs s ev)"
  by (cases ev) (simp_all add: tinv_call tinv_timer tinv_answer)

interpretation token_runs: event_machine "tokens_step (tokens_observer d)" tinv for d
  by unfold_locales (rule tinv_step [OF tgood_observer])

lemma tinv_create: "tinv (create_tokens e)"
  by (simp add: create_tokens_def tinv_def rounds_ok_def tlog_ok_def still_def)

lemmas tinv_run = token_runs.inv_run [OF tinv_create]

section \<open>A refused credential\<close>

text \<open>
  While the context keeps a credential (or cannot be read), \<open>update\<close> leaves the inhibition of that credential alone; another
  credential lifts it.  \<open>refused\<close> is what then stays true, whatever the callers do inside the callback.
\<close>

definition holds_credential :: "credential_key \<Rightarrow> menv \<Rightarrow> bool" where
  "holds_credential c e \<longleftrightarrow> m_throws e \<or> (fst (m_scope e), m_generation e, m_cookie e) = c"

fun keeps :: "credential_key \<Rightarrow> token_event \<Rightarrow> bool" where
  "keeps c (TokenEnv e rs) \<longleftrightarrow> holds_credential c e \<and> list_all (holds_credential c \<circ> fst) rs"
| "keeps c _ \<longleftrightarrow> True"

fun is_start :: "tnotice \<times> menv \<times> credential_key option \<Rightarrow> bool" where
  "is_start (Started i, x) \<longleftrightarrow> True"
| "is_start _ \<longleftrightarrow> False"

definition starts :: "tokens \<Rightarrow> nat" where
  "starts s = length (filter is_start (t_log s))"

definition refused :: "credential_key \<Rightarrow> nat \<Rightarrow> tokens \<Rightarrow> bool" where
  "refused c n s \<longleftrightarrow> tinv s \<and> t_inhibited s = Some c \<and> holds_credential c (t_env s) \<and> list_all (holds_credential c \<circ> fst) (t_script s) \<and> starts s = n"

lemma held_context: "holds_credential c e \<Longrightarrow> context_of e = Some x \<Longrightarrow> tc_credential x = c"
  by (auto simp: holds_credential_def context_of_def Let_def split: if_splits)

lemma schedule_frame [simp]: "t_log (schedule c s) = t_log s" "t_env (schedule c s) = t_env s" "t_script (schedule c s) = t_script s"
  "t_inhibited (schedule c s) = t_inhibited s"
  by (simp_all add: schedule_def)

lemma change_tround_frame [simp]: "t_log (change_tround i f s) = t_log s" "t_env (change_tround i f s) = t_env s"
  "t_script (change_tround i f s) = t_script s" "t_inhibited (change_tround i f s) = t_inhibited s" "t_active (change_tround i f s) = t_active s"
  by (simp_all add: change_tround_def)

lemma cancel_script [simp]: "t_script (cancel s) = t_script s"
  by (simp add: cancel_def stop_timer_def split: option.split)

lemma update_frame [simp]: "t_log (update s) = t_log s" "t_env (update s) = t_env s" "t_script (update s) = t_script s"
  by (simp_all add: update_def Let_def split: option.split)

lemma update_inhibited:
  "holds_credential c (t_env s) \<Longrightarrow> t_inhibited s = Some c \<Longrightarrow> t_inhibited (update s) = Some c"
  by (auto simp: update_def Let_def held_context split: option.split)

lemma refused_update: "refused c n s \<Longrightarrow> refused c n (update s)"
  by (simp add: refused_def tinv_update update_inhibited starts_def)

lemma refused_timer:
  assumes s: "refused c n s"
  shows "refused c n (timer_fires s)"
proof (cases "t_timer s")
  case (Some x)
  have inv: "tinv s" "t_inhibited s = Some c" "holds_credential c (t_env s)" using s by (simp_all add: refused_def)
  have x: "context_of (tc_env x) = Some x" "t_inhibited s \<noteq> Some (tc_credential x)" using inv(1) Some by (simp_all add: tinv_def still_def)
  have other: "tc_key latest \<noteq> tc_key x" if "context_of (t_env s) = Some latest" for latest
    using key_determines [OF that x(1)] held_context [OF inv(3) that] x(2) inv(2) by auto
  have t: "refused c n (s\<lparr>t_timer := None\<rparr>)" using s by (simp add: refused_def tinv_def still_def starts_def)
  then show ?thesis using Some other refused_update [OF t] by (auto simp: timer_fires_def Let_def split: option.split)
qed (use s in \<open>simp add: timer_fires_def\<close>)

lemma refused_call: "refused c n s \<Longrightarrow> refused c n (tokens_call obs s x)"
proof (cases x)
  case CallResume
  assume s: "refused c n s"
  then have "\<not> t_disposed s \<Longrightarrow> refused c n (s\<lparr>t_suspended := False\<rparr>)" by (auto simp: refused_def tinv_def still_def starts_def)
  with s CallResume show ?thesis by (simp add: refused_update)
qed (auto simp: refused_update, auto simp: refused_def starts_def tinv_cancel tinvD)

interpretation refused_callers: reentrant tokens_call tokens_script "refused c n" for c n
proof unfold_locales
  fix s t :: tokens and cs
  assume "refused c n s" and "tokens_script s = Some (t, cs)"
  then show "refused c n t" by (auto simp: refused_def tokens_script_def starts_def split: list.splits)
qed (rule refused_call)

lemma refused_settle: "refused c n s \<Longrightarrow> refused c n (settle i s)"
proof -
  assume s: "refused c n s"
  then have "refused c n (s\<lparr>t_active := None\<rparr>)" by (auto simp: refused_def tinv_def rounds_ok_def still_def starts_def)
  with s show ?thesis by (simp add: settle_def refused_update)
qed

lemma current_credential:
  assumes "tinv s" and "current i s" and "holds_credential c (t_env s)"
  shows "tc_credential (tr_context (tround_at i s)) = c"
proof -
  have i: "i < length (t_rounds s)" using assms(2) tinv_active [OF assms(1), of i] by (simp add: current_def)
  obtain x where x: "context_of (t_env s) = Some x" "tc_key x = tc_key (tr_context (tround_at i s))"
    using assms(2) by (auto simp: current_def)
  show ?thesis using key_determines [OF x(1) tinv_context [OF assms(1) i] x(2)] held_context [OF assms(3) x(1)] by simp
qed

lemma current_holds:
  assumes "tinv s" and "current i s"
  shows "holds_credential (tc_credential (tr_context (tround_at i s))) (t_env s)"
proof -
  have i: "i < length (t_rounds s)" using assms(2) tinv_active [OF assms(1), of i] by (simp add: current_def)
  obtain x where x: "context_of (t_env s) = Some x" "tc_key x = tc_key (tr_context (tround_at i s))"
    using assms(2) by (auto simp: current_def)
  have "tc_credential x = tc_credential (tr_context (tround_at i s))" using key_determines [OF x(1) tinv_context [OF assms(1) i] x(2)] by blast
  then show ?thesis using token_context [OF x(1)] by (simp add: holds_credential_def)
qed

lemma refused_report:
  assumes "refused c n s" and "current i s" and "\<not> tr_pending (tround_at i s)" "i \<notin> set (results (t_log s))"
  shows "refused c n (report (tokens_observer d) i outcome s)"
proof -
  have "tinv s" "holds_credential c (t_env s)" "t_inhibited s = Some c" using assms(1) by (simp_all add: refused_def)
  then have "tinv (tnote (result_notice i outcome s) s)"
    using current_credential [of s i c] assms(2) by (intro tinv_noted assms) simp_all
  then have "refused c n (tnote (result_notice i outcome s) s)"
    using assms(1) by (simp add: refused_def tnote_def starts_def result_notice_def)
  then show ?thesis unfolding report_notice by (rule refused_callers.kept_answered)
qed

lemma refused_answer:
  assumes "tinv s" and "holds_credential c (t_env s)" and "list_all (holds_credential c \<circ> fst) (t_script s)" and "starts s = n"
    and "t_inhibited s = Some c \<or> i < length (t_rounds s) \<and> tr_pending (tround_at i s) \<and> current i s \<and> answer = Inr (TokenInvalid code)"
  shows "refused c n (token_answer (tokens_observer d) i answer s)"
proof (cases "i < length (t_rounds s) \<and> tr_pending (tround_at i s)")
  case True
  let ?t = "change_tround i (\<lambda>r. r\<lparr>tr_pending := False\<rparr>) s"
  note t = answered_round [OF assms(1) True [THEN conjunct1] True [THEN conjunct2] refl]
  have same: "current i ?t = current i s" using True by (simp add: current_def change_tround_def tround_at_def)
  have kept: "refused c n ?t" if "t_inhibited s = Some c" using that t(1) assms by (simp add: refused_def starts_def)
  have credential: "tc_credential (tr_context (tround_at i ?t)) = c" if "current i ?t"
    by (rule current_credential [OF t(1) that]) (use assms in simp)
  have found: "refused c n (?t\<lparr>t_inhibited := Some c\<rparr>)" if "current i ?t"
    using that tinv_inhibit [OF t(1) that] assms by (simp add: refused_def starts_def)
  have report: "refused c n (report (tokens_observer d) i outcome u)"
    if "current i ?t" "u = ?t\<lparr>t_inhibited := Some c\<rparr> \<or> u = ?t \<and> t_inhibited s = Some c" for outcome u
    by (rule refused_report) (use that found kept t in \<open>auto simp: current_def tround_at_def\<close>)
  show ?thesis
  proof (cases "current i ?t")
    case cur: True
    have inhibited: "t_inhibited s = Some c" if "\<And>code'. answer \<noteq> Inr (TokenInvalid code')" using assms(5) that by blast
    have "refused c n (case answer of
        Inl code \<Rightarrow> report (tokens_observer d) i (''network_error'', Some (operational_code code)) ?t
      | Inr r \<Rightarrow> report (tokens_observer d) i (result_status r)
          (case r of TokenInvalid _ \<Rightarrow> ?t\<lparr>t_inhibited := Some (tc_credential (tr_context (tround_at i ?t)))\<rparr> | _ \<Rightarrow> ?t))"
      by (cases answer; (cases "projr answer")?; simp add: credential [OF cur]; intro report [OF cur] disjI1 disjI2 conjI refl inhibited; simp)
    then show ?thesis using True cur by (simp add: token_answer_def Let_def refused_settle)
  next
    case False
    then show ?thesis using True kept assms(5) same by (auto simp: token_answer_def Let_def intro: refused_settle)
  qed
qed (use assms in \<open>auto simp: token_answer_def refused_def\<close>)

lemma refused_step: "refused c n s \<Longrightarrow> keeps c ev \<Longrightarrow> refused c n (tokens_step (tokens_observer d) s ev)"
proof (cases ev)
  case (TokenAnswer i answer)
  assume "refused c n s"
  then show ?thesis using TokenAnswer by (auto simp: refused_def [of c n s] intro!: refused_answer)
qed (auto simp: refused_call refused_timer, auto simp: refused_def starts_def)

lemma refused_run: "refused c n s \<Longrightarrow> list_all (keeps c) evs \<Longrightarrow> refused c n (foldl (tokens_step (tokens_observer d)) s evs)"
  by (induction evs arbitrary: s) (auto intro: refused_step)

section \<open>Properties\<close>

text \<open>
  Claim C38: the token checks respect the present and a refusal.  A check starts only while it is enabled, a Cookie is there,
  nothing else is running, and never for the inhibited credential; a result is reported only for the scope, authorization generation
  and Cookie of that moment, which are those of its check, at most once per check, and an invalid one inhibits exactly this
  credential.  From then on, as long as no other credential is seen (the context may fail or lose its eligibility, the service may be
  updated, suspended and resumed, from inside the callback too), the credential stays inhibited and no check starts at all.
\<close>

theorem token_results_current:
  assumes "s = foldl (tokens_step (tokens_observer d)) (create_tokens e0) evs"
  shows "(\<forall>k i e inhibited. k < length (t_log s) \<and> t_log s ! k = (Started i, e, inhibited) \<longrightarrow>
        preference e ''validateTokenPeriodically'' \<and> m_cookie e \<noteq> [] \<and> m_cookie_valid e \<and> m_operation e = None
        \<and> inhibited \<noteq> Some (fst (m_scope e), m_generation e, m_cookie e))
    \<and> (\<forall>k i sc generation status code e inhibited.
        k < length (t_log s) \<and> t_log s ! k = (Result i sc generation status code, e, inhibited) \<longrightarrow>
        sc = m_scope e \<and> generation = m_generation e \<and> m_cookie e = m_cookie (tc_env (tr_context (tround_at i s)))
        \<and> (status = ''invalid'' \<longrightarrow> inhibited = Some (fst (m_scope e), m_generation e, m_cookie e))
        \<and> (\<forall>m<length (t_log s). m \<noteq> k \<longrightarrow> i \<notin> set (result_of (t_log s ! m))))
    \<and> (\<forall>i code c more t.
        i < length (t_rounds s) \<and> tr_pending (tround_at i s) \<and> current i s \<and> c = tc_credential (tr_context (tround_at i s))
        \<and> list_all (holds_credential c \<circ> fst) (t_script s) \<and> list_all (keeps c) more
        \<and> t = foldl (tokens_step (tokens_observer d)) s (TokenAnswer i (Inr (TokenInvalid code)) # more) \<longrightarrow>
        t_inhibited t = Some c \<and> starts t = starts s)"
proof -
  have inv: "tinv s" unfolding assms(1) by (rule tinv_run)
  have entries: "tentry_ok (t_rounds s) (t_log s ! k)" if "k < length (t_log s)" for k
    using inv that by (simp add: tinv_def tlog_ok_def list_all_length)
  have started: "preference e ''validateTokenPeriodically'' \<and> m_cookie e \<noteq> [] \<and> m_cookie_valid e \<and> m_operation e = None
        \<and> inhibited \<noteq> Some (fst (m_scope e), m_generation e, m_cookie e)"
    if k: "k < length (t_log s)" and x: "t_log s ! k = (Started i, e, inhibited)" for k i e inhibited
  proof -
    obtain c where c: "context_of e = Some c" "tc_eligible c" "inhibited \<noteq> Some (tc_credential c)" using entries [OF k] x by auto
    then show ?thesis using eligible_check [OF c(1,2)] token_context [OF c(1)] by simp
  qed
  have result: "sc = m_scope e \<and> generation = m_generation e \<and> m_cookie e = m_cookie (tc_env (tr_context (tround_at i s)))
        \<and> (status = ''invalid'' \<longrightarrow> inhibited = Some (fst (m_scope e), m_generation e, m_cookie e))
        \<and> (\<forall>m<length (t_log s). m \<noteq> k \<longrightarrow> i \<notin> set (result_of (t_log s ! m)))"
    if k: "k < length (t_log s)" and x: "t_log s ! k = (Result i sc generation status code, e, inhibited)"
    for k i sc generation status code e inhibited
  proof -
    obtain c where c: "context_of e = Some c" "tc_key c = tc_key (tr_context (tround_at i s))" "i < length (t_rounds s)" "sc = m_scope e"
      "generation = m_generation e" "status = ''invalid'' \<longrightarrow> inhibited = Some (tc_credential (tr_context (tround_at i s)))"
      using entries [OF k] x by (auto simp: tround_at_def)
    have "i \<notin> set (result_of (t_log s ! m))" if "m < length (t_log s)" "m \<noteq> k" for m
      using inv that k x by (intro concat_distinct_apart [of result_of "t_log s" k m]) (simp_all add: tinv_def tlog_ok_def results_def)
    moreover note same = key_determines [OF c(1) tinv_context [OF inv c(3)] c(2)]
    have "tc_credential (tr_context (tround_at i s)) = (fst (m_scope e), m_generation e, m_cookie e)"
      using same token_context [OF c(1)] by metis
    ultimately show ?thesis using c(4-6) same by auto
  qed
  have refusal: "t_inhibited t = Some c \<and> starts t = starts s"
    if i: "i < length (t_rounds s)" "tr_pending (tround_at i s)" "current i s" and c: "c = tc_credential (tr_context (tround_at i s))"
      and held: "list_all (holds_credential c \<circ> fst) (t_script s)" "list_all (keeps c) more"
      and t: "t = foldl (tokens_step (tokens_observer d)) s (TokenAnswer i (Inr (TokenInvalid code)) # more)" for i code c more t
  proof -
    have "refused c (starts s) (token_answer (tokens_observer d) i (Inr (TokenInvalid code)) s)"
      by (rule refused_answer) (use inv i c held current_holds [OF inv i(3)] in auto)
    then have "refused c (starts s) t" using held(2) by (simp add: t refused_run)
    then show ?thesis by (simp add: refused_def)
  qed
  show ?thesis using started result refusal by blast
qed

section \<open>Witness\<close>

definition demo_token_env :: menv where
  "demo_token_env =
     \<lparr>m_scope = (js ''default'', 1), m_desired = True, m_proxy = ''stopped'', m_remote = ''unknown'', m_operation = None, m_storage = None,
      m_code = None, m_cookie_valid = True, m_running = JNull, m_config = JNull, m_cookie = js ''c'', m_generation = Some 3,
      m_preferences = [(js ''validateTokenPeriodically'', JBool True)], m_throws = False\<rparr>"

definition demo_asked :: tokens where
  "demo_asked = foldl (tokens_step (tokens_observer 1)) (create_tokens demo_token_env)
     [TokenCall CallUpdate, TokenTimer, TokenEnv demo_token_env [(demo_token_env, [CallUpdate])]]"

definition demo_after :: "token_event list" where
  "demo_after = [TokenCall CallUpdate, TokenTimer, TokenEnv (demo_token_env\<lparr>m_throws := True\<rparr>) [], TokenCall CallUpdate,
     TokenEnv demo_token_env [], TokenCall CallUpdate, TokenTimer]"

lemma demo_asked_waits:
  "length (t_rounds demo_asked) = 1" "tr_pending (tround_at 0 demo_asked)" "current 0 demo_asked"
  "tc_credential (tr_context (tround_at 0 demo_asked)) = (js ''default'', Some 3, js ''c'')"
  "list_all (holds_credential (js ''default'', Some 3, js ''c'') \<circ> fst) (t_script demo_asked)" "starts demo_asked = 1"
  by code_simp+

lemma demo_after_keeps: "list_all (keeps (js ''default'', Some 3, js ''c'')) demo_after"
  by code_simp

lemma token_results_current_witness:
  "starts (foldl (tokens_step (tokens_observer 1)) demo_asked (TokenAnswer 0 (Inr (TokenInvalid ''AUTH_REQUIRED'')) # demo_after)) = 1"
proof -
  note all = token_results_current [OF demo_asked_def, THEN conjunct2, THEN conjunct2, rule_format,
    of 0 "(js ''default'', Some 3, js ''c'')" demo_after _ "''AUTH_REQUIRED''"]
  have "starts (foldl (tokens_step (tokens_observer 1)) demo_asked (TokenAnswer 0 (Inr (TokenInvalid ''AUTH_REQUIRED'')) # demo_after)) = starts demo_asked"
    by (rule all [THEN conjunct2]) (simp add: demo_asked_waits demo_after_keeps del: foldl_Cons js_simps)
  then show ?thesis by (simp add: demo_asked_waits)
qed

end
