(* ===== verification/FileApi.thy ===== *)
theory FileApi
  imports PortalFacts Orchestrator
begin

text \<open>
  \<^verbatim>\<open>electron/portal-api/file-api.js\<close>: the portal's file endpoints, each one call of the client of
  \<^verbatim>\<open>PortalClient\<close> and a check of its answer.  \<open>fileKind\<close> is \<open>file_kind\<close> of \<^verbatim>\<open>Orchestrator\<close>.  Whether
  \<open>Date.parse\<close> finds a time in a text of ISO form and the random part of a multipart boundary are
  parameters.
\<close>

section \<open>Checks\<close>

datatype file_error = Metadata | Portal portal_error

type_synonym 'a file_call = "(pcall, file_error, 'a) act"

definition invalid :: "'a file_call" where
  "invalid = throwM Metadata"

definition c0_control :: "nat \<Rightarrow> bool" where
  "c0_control u \<longleftrightarrow> u \<le> 31 \<or> u = 127"

definition text_value :: "jsval \<Rightarrow> file_error + jsstr" where
  "text_value v = (case v of JStr s \<Rightarrow> if s = [] \<or> list_ex c0_control s then Inl Metadata else Inr s | _ \<Rightarrow> Inl Metadata)"

definition absolute_path :: "jsval \<Rightarrow> file_error + jsstr" where
  "absolute_path v = bindR (text_value v) (\<lambda>s. if \<not> starts_with s (js ''/'') \<or> normalize_absolute s \<noteq> s then Inl Metadata else Inr s)"

text \<open>\<open>/^\d{4}-\d{2}-\d{2}T\d{2}:\d{2}:\d{2}(?:\.\d+)?(?:Z|[+-]\d{2}:\d{2})$/\<close>\<close>

definition digits_at :: "nat list \<Rightarrow> jsstr \<Rightarrow> bool" where
  "digits_at pattern s \<longleftrightarrow> length s = length pattern \<and> list_all2 (\<lambda>p u. if p = 48 then is_digit u else u = p) pattern s"

definition time_zone :: "jsstr \<Rightarrow> bool" where
  "time_zone s \<longleftrightarrow> s = js ''Z'' \<or> digits_at (js ''+00:00'') s \<or> digits_at (js ''-00:00'') s"

definition iso_text :: "jsstr \<Rightarrow> bool" where
  "iso_text s \<longleftrightarrow> digits_at (js ''0000-00-00T00:00:00'') (take 19 s) \<and>
     (let rest = drop 19 s in
      time_zone rest \<or> (take 1 rest = [46] \<and> takeWhile is_digit (drop 1 rest) \<noteq> [] \<and> time_zone (dropWhile is_digit (drop 1 rest))))"

record file_info =
  fi_name :: jsstr
  fi_type :: jsstr
  fi_kind :: string
  fi_mtime :: jsstr
  fi_mode :: int
  fi_size :: int

definition name_unit_bad :: "nat \<Rightarrow> bool" where
  "name_unit_bad u \<longleftrightarrow> u = 92 \<or> u = 47 \<or> c0_control u"

definition file_info_of :: "(jsstr \<Rightarrow> bool) \<Rightarrow> jsval \<Rightarrow> file_error + file_info" where
  "file_info_of date_parses item =
     (case (getProp item (js ''name''), getProp item (js ''type''), getProp item (js ''mtime''), getProp item (js ''mode''), getProp item (js ''size'')) of
        (JStr name, JStr type, JStr mtime, JNum mode, JNum n) \<Rightarrow>
          if name = [] \<or> name = js ''.'' \<or> name = js ''..'' \<or> list_ex name_unit_bad name \<or> type \<notin> {js ''FILE'', js ''DIR''}
             \<or> \<not> iso_text mtime \<or> \<not> date_parses mtime \<or> mode < 0 \<or> 4294967295 < mode \<or> n < 0 \<or> MAX_SAFE < n
          then Inl Metadata
          else Inr \<lparr>fi_name = name, fi_type = type, fi_kind = file_kind \<lparr>n_name = name, n_type = type, n_mode = JNum mode\<rparr>,
                 fi_mtime = mtime, fi_mode = mode, fi_size = n\<rparr>
      | _ \<Rightarrow> Inl Metadata)"

section \<open>Requests\<close>

text \<open>What the callers pass: the fields of \<open>input\<close>.\<close>

record finput =
  f_cluster :: jsval
  f_path :: jsval
  f_name :: jsval
  f_from :: jsval
  f_to :: jsval
  f_bytes :: jsval
  f_timeout :: jsval
  f_max :: jsval

definition call_options :: "finput \<Rightarrow> poptions" where
  "call_options i = \<lparr>o_method = [], o_query = [], o_headers = [], o_authenticated = JUndef, o_body = NoBody,
     o_max = f_max i, o_timeout = f_timeout i, o_expected = None\<rparr>"

definition query_of :: "finput \<Rightarrow> file_error + (jsstr \<times> jsval) list" where
  "query_of i = bindR (text_value (f_cluster i)) (\<lambda>c. bindR (text_value (f_path i)) (\<lambda>p.
     Inr [(js ''cluster'', JStr c), (js ''path'', JStr p)]))"

text \<open>The client the calls go through: its parser, default deadline and token.\<close>

record fclient =
  k_parse :: parser
  k_timeout :: jsval
  k_token :: "jsstr option"

definition portal_call :: "fclient \<Rightarrow> string \<Rightarrow> poptions \<Rightarrow> pmode \<Rightarrow> presult file_call" where
  "portal_call k endpoint opt mode w =
     (case perform (k_parse k) (k_timeout k) (k_token k) (js (''/api/file/'' @ endpoint)) opt mode w of
        (Inl e, w) \<Rightarrow> (Inl (Portal e), w) | (Inr r, w) \<Rightarrow> (Inr r, w))"

definition get_json :: "fclient \<Rightarrow> string \<Rightarrow> finput \<Rightarrow> (jsstr \<times> jsval) list \<Rightarrow> jsval file_call" where
  "get_json k endpoint i query =
     bindM (portal_call k endpoint ((call_options i)\<lparr>o_query := query, o_expected := Some [200]\<rparr>) ModeJson) (\<lambda>r.
       case r of JsonResult v \<Rightarrow> retM v | _ \<Rightarrow> invalid)"

definition post :: "fclient \<Rightarrow> string \<Rightarrow> finput \<Rightarrow> (jsstr \<times> jsval) list \<Rightarrow> unit file_call" where
  "post k endpoint i body =
     bindM (portal_call k endpoint ((call_options i)\<lparr>o_method := ''POST'', o_body := ValueBody (JObj ObjectProto body), o_expected := Some [204]\<rparr>) ModeEmpty)
       (\<lambda>_. retM ())"

definition query_call :: "finput \<Rightarrow> ((jsstr \<times> jsval) list \<Rightarrow> 'a file_call) \<Rightarrow> 'a file_call" where
  "query_call i f = bindM (liftR (query_of i)) f"

definition download :: "fclient \<Rightarrow> finput \<Rightarrow> presult file_call" where
  "download k i = query_call i (\<lambda>q.
     portal_call k ''download'' ((call_options i)\<lparr>o_query := q @ [(js ''download'', JBool True)], o_expected := Some [200]\<rparr>) ModeStream)"

section \<open>Uploads\<close>

definition boundary :: "jsstr \<Rightarrow> jsstr" where
  "boundary hex = js ''usshtc107-'' @ hex"

definition CRLF :: jsstr where
  "CRLF = [13, 10]"

definition part_prefix :: "jsstr \<Rightarrow> byte list" where
  "part_prefix b = utf8 (js ''--'' @ b @ CRLF @ js ''Content-Disposition: form-data; name='' @ [34] @ js ''file'' @ [34] @ js ''; filename='' @ [34]
     @ js ''file'' @ [34] @ CRLF @ js ''Content-Type: application/octet-stream'' @ CRLF @ CRLF)"

definition part_suffix :: "jsstr \<Rightarrow> byte list" where
  "part_suffix b = utf8 (CRLF @ js ''--'' @ b @ js ''--'' @ CRLF)"

text \<open>The body generator: the source between prefix and suffix, or a failure when it has not \<open>size\<close> bytes.\<close>

fun framed :: "byte list \<Rightarrow> nat \<Rightarrow> nat \<Rightarrow> byte list option list \<Rightarrow> byte list option list" where
  "framed suffix total_bytes so_far [] = (if so_far = total_bytes then [Some suffix] else [None])"
| "framed suffix total_bytes so_far (None # cs) = [None]"
| "framed suffix total_bytes so_far (Some b # cs) =
     (if total_bytes < so_far + length b then [None] else Some b # framed suffix total_bytes (so_far + length b) cs)"

definition upload_options :: "finput \<Rightarrow> (jsstr \<times> jsval) list \<Rightarrow> bool \<Rightarrow> jsstr \<Rightarrow> jsstr \<Rightarrow> nat \<Rightarrow> byte list option list \<Rightarrow> poptions" where
  "upload_options i q chunk origin b total_bytes source =
     (call_options i)\<lparr>o_method := ''POST'', o_expected := Some [204],
       o_query := q @ [(js ''chunk'', JBool chunk), (js ''originPath'', JStr origin)],
       o_body := StreamBody (Some (part_prefix b) # framed (part_suffix b) total_bytes 0 source),
       o_headers := [(js ''Content-Type'', JStr (js ''multipart/form-data; boundary='' @ b)),
         (js ''Content-Length'', JNum (int (length (part_prefix b) + total_bytes + length (part_suffix b))))]\<rparr>"

text \<open>\<open>source\<close> is \<open>None\<close> when it is not an iterable.\<close>

definition upload :: "fclient \<Rightarrow> jsstr \<Rightarrow> finput \<Rightarrow> byte list option list option \<Rightarrow> jsval \<Rightarrow> jsval \<Rightarrow> unit file_call" where
  "upload k hex i source chunk origin =
     (case (source, f_bytes i, if chunk = JUndef then JBool False else chunk, if origin = JUndef then JStr [] else origin) of
        (Some cs, JNum n, JBool c, JStr o') \<Rightarrow>
          if n < 0 \<or> MAX_SAFE < n then invalid
          else query_call i (\<lambda>q.
            bindM (portal_call k ''upload'' (upload_options i q c o' (boundary hex) (nat n) cs) ModeEmpty) (\<lambda>_. retM ()))
      | _ \<Rightarrow> invalid)"

section \<open>The other endpoints\<close>

definition init_multipart_upload :: "fclient \<Rightarrow> finput \<Rightarrow> (jsstr \<times> nat \<times> jsval list) file_call" where
  "init_multipart_upload k i =
     query_call i (\<lambda>q. bindM (liftR (text_value (f_name i))) (\<lambda>name.
     bindM (portal_call k ''initMultipartUpload''
       ((call_options i)\<lparr>o_method := ''POST'', o_expected := Some [200], o_body := ValueBody (JObj ObjectProto (q @ [(js ''name'', JStr name)]))\<rparr>) ModeJson) (\<lambda>r.
     case r of
       JsonResult v \<Rightarrow>
         (case (getProp v (js ''tempFileDir''), getProp v (js ''chunkSizeByte''), getProp v (js ''filesInfo'')) of
            (JStr dir, JNum n, JArr infos) \<Rightarrow>
              if \<not> starts_with dir (js ''/'') \<or> n < 1 \<or> MAX_SAFE < n then invalid else retM (dir, nat n, infos)
          | _ \<Rightarrow> invalid)
     | _ \<Rightarrow> invalid)))"

definition merge_file_chunks :: "fclient \<Rightarrow> finput \<Rightarrow> unit file_call" where
  "merge_file_chunks k i =
     (case f_bytes i of
        JNum n \<Rightarrow>
          if n < 0 \<or> MAX_SAFE < n then invalid
          else query_call i (\<lambda>q. bindM (liftR (text_value (f_name i))) (\<lambda>name.
            post k ''mergeFileChunks'' i (q @ [(js ''name'', JStr name), (js ''sizeByte'', JNum n)])))
      | _ \<Rightarrow> invalid)"

definition file_exist :: "fclient \<Rightarrow> finput \<Rightarrow> bool file_call" where
  "file_exist k i = query_call i (\<lambda>q. bindM (get_json k ''fileExist'' i q) (\<lambda>v.
     case getProp v (js ''result'') of JBool b \<Rightarrow> retM b | _ \<Rightarrow> invalid))"

definition get_file_type :: "fclient \<Rightarrow> finput \<Rightarrow> jsstr file_call" where
  "get_file_type k i = query_call i (\<lambda>q. bindM (get_json k ''getFileType'' i q) (\<lambda>v.
     case getProp v (js ''type'') of JStr t \<Rightarrow> if t \<in> {js ''file'', js ''dir''} then retM t else invalid | _ \<Rightarrow> invalid))"

fun list_items :: "(jsstr \<Rightarrow> bool) \<Rightarrow> jsstr list \<Rightarrow> jsval list \<Rightarrow> file_error + file_info list" where
  "list_items dp names [] = Inr []"
| "list_items dp names (item # items) =
     bindR (file_info_of dp item) (\<lambda>info.
       if fi_name info \<in> set names then Inl Metadata
       else bindR (list_items dp (fi_name info # names) items) (\<lambda>rest. Inr (info # rest)))"

definition list_directory :: "fclient \<Rightarrow> (jsstr \<Rightarrow> bool) \<Rightarrow> finput \<Rightarrow> file_info list file_call" where
  "list_directory k dp i = query_call i (\<lambda>q. bindM (get_json k ''list'' i (q @ [(js ''updateAccessTime'', JBool False)])) (\<lambda>v.
     case getProp v (js ''items'') of JArr items \<Rightarrow> liftR (list_items dp [] items) | _ \<Rightarrow> invalid))"

definition get_home :: "fclient \<Rightarrow> finput \<Rightarrow> jsstr file_call" where
  "get_home k i = bindM (liftR (text_value (f_cluster i))) (\<lambda>c.
     bindM (get_json k ''getHome'' i [(js ''cluster'', JStr c)]) (\<lambda>v. liftR (absolute_path (getProp v (js ''path'')))))"

definition mkdir :: "fclient \<Rightarrow> finput \<Rightarrow> unit file_call" where
  "mkdir k i = query_call i (post k ''mkdir'' i)"

definition move :: "fclient \<Rightarrow> finput \<Rightarrow> unit file_call" where
  "move k i =
     bindM (liftR (text_value (f_cluster i))) (\<lambda>c. bindM (liftR (text_value (f_from i))) (\<lambda>from. bindM (liftR (text_value (f_to i))) (\<lambda>to.
     bindM (portal_call k ''move'' ((call_options i)\<lparr>o_method := ''PATCH'', o_expected := Some [204],
       o_body := ValueBody (JObj ObjectProto [(js ''cluster'', JStr c), (js ''fromPath'', JStr from), (js ''toPath'', JStr to)])\<rparr>) ModeEmpty) (\<lambda>_. retM ()))))"

section \<open>Uploads carry the whole source\<close>

lemma empty_result:
  assumes "perform parse timeout token path opt ModeEmpty w = (Inr res, v)"
  shows "res = NoResult"
proof -
  obtain l x where "exchange parse ModeEmpty opt l (new_call w) = (Inr res, x)" by (rule perform_Inr [OF assms])
  then obtain r cs where "result_from parse ModeEmpty (l_maximum l) r cs res" by (rule exchange_Inr)
  then show ?thesis by (auto simp: result_from_def body_result_def)
qed

lemma framed_complete:
  assumes "framed suffix total_bytes so_far cs = map Some bss" and "so_far \<le> total_bytes"
  shows "\<exists>src. cs = map Some src \<and> so_far + length (concat src) = total_bytes \<and> bss = src @ [suffix]"
  using assms
proof (induction suffix total_bytes so_far cs arbitrary: bss rule: framed.induct)
  case (1 suffix total_bytes so_far)
  then show ?case by (auto simp: map_eq_Cons_conv dest: sym [of "[_]"] split: if_splits intro!: exI [of _ "[]"])
next
  case (2 suffix total_bytes so_far cs)
  then show ?case by (auto dest: sym [of "[_]"] simp: map_eq_Cons_conv)
next
  case (3 suffix total_bytes so_far b cs)
  then have fits: "\<not> total_bytes < so_far + length b" by (auto dest: sym [of "[_]"] simp: map_eq_Cons_conv split: if_splits)
  then obtain bss' where b: "bss = b # bss'" "framed suffix total_bytes (so_far + length b) cs = map Some bss'"
    using 3(2) by (cases bss) auto
  obtain src where "cs = map Some src" "so_far + length b + length (concat src) = total_bytes" "bss' = src @ [suffix]"
    using 3(1) [OF fits b(2)] fits by auto
  then show ?case using b(1) by (intro exI [of _ "b # src"]) simp
qed

text \<open>
  Claim C39: an upload that succeeds has sent the source, the whole source and nothing else.  The request of the portal client
  carried, with a matching \<open>Content-Length\<close>, exactly one form part: the prefix, all the bytes of the source, as many as
  announced, and the suffix; the portal answered 204, and the call was not cancelled.
\<close>

theorem upload_carries_source:
  assumes "upload k hex i (Some cs) chunk origin w = (Inr u, v)" and "f_bytes i = JNum n"
  shows "\<exists>src q r. cs = map Some src \<and> int (length (concat src)) = n \<and> p_requests v = p_requests w @ [q] \<and> q_path q = js ''/api/file/upload''
    \<and> p_uploaded v = Some (part_prefix (boundary hex) @ concat src @ part_suffix (boundary hex))
    \<and> length_text (header (q_headers q) ''content-length'') = Some (length (part_prefix (boundary hex) @ concat src @ part_suffix (boundary hex)))
    \<and> p_answer w = Some r \<and> s_status r = 204 \<and> calm v \<and> \<not> p_active v"
proof -
  obtain q c o' res where up: "0 \<le> n" "portal_call k ''upload'' (upload_options i q c o' (boundary hex) (nat n) cs) ModeEmpty w = (Inr res, v)"
    using assms by (auto simp: upload_def query_call_def bindM_Inr_iff invalid_def liftR_def split: jsval.splits if_splits)
  let ?o = "upload_options i q c o' (boundary hex) (nat n) cs"
  have p: "perform (k_parse k) (k_timeout k) (k_token k) (js ''/api/file/upload'') ?o ModeEmpty w = (Inr res, v)"
    using up(2) by (auto simp: portal_call_def split: prod.splits sum.splits)
  have body: "o_body ?o = StreamBody (Some (part_prefix (boundary hex)) # framed (part_suffix (boundary hex)) (nat n) 0 cs)"
    by (simp add: upload_options_def)
  have expected: "o_expected ?o = Some [204]" by (simp add: upload_options_def)
  obtain Q r where q: "p_requests v = p_requests w @ [Q]" "q_path Q = js ''/api/file/upload''" "p_answer w = Some r" "calm v"
    "\<forall>ss. o_expected ?o = Some ss \<longrightarrow> s_status r \<in> set ss" "\<not> is_stream res \<longrightarrow> \<not> p_active v"
    "\<forall>cs. o_body ?o = StreamBody cs \<longrightarrow> (\<exists>bss. cs = map Some bss \<and> p_uploaded v = Some (concat bss)
        \<and> length_text (header (q_headers Q) ''content-length'') = Some (length (concat bss)))"
    using perform_sound [OF p] by blast
  have status: "s_status r = 204" using q(5) expected by simp
  obtain bss where s: "Some (part_prefix (boundary hex)) # framed (part_suffix (boundary hex)) (nat n) 0 cs = map Some bss"
    "p_uploaded v = Some (concat bss)" "length_text (header (q_headers Q) ''content-length'') = Some (length (concat bss))"
    using q(7) [rule_format, OF body] by (elim exE conjE) (rule that)
  obtain bss' where b: "bss = part_prefix (boundary hex) # bss'" "framed (part_suffix (boundary hex)) (nat n) 0 cs = map Some bss'"
    using s(1) by (cases bss) auto
  obtain src where src: "cs = map Some src" "length (concat src) = nat n" "bss' = src @ [part_suffix (boundary hex)]"
    using framed_complete [OF b(2)] by auto
  have "\<not> is_stream res" using empty_result [OF p] by (simp add: is_stream_def)
  then show ?thesis using s q status src b up(1) by (intro exI [of _ src] exI [of _ Q] exI [of _ r]) simp
qed

section \<open>Listings are safe\<close>

text \<open>Every entry of a listing has a name of its own that is one path segment, and the kind its mode proves.\<close>

definition safe_info :: "file_info \<Rightarrow> bool" where
  "safe_info f \<longleftrightarrow> fi_name f \<noteq> [] \<and> fi_name f \<noteq> js ''.'' \<and> fi_name f \<noteq> js ''..'' \<and> 47 \<notin> set (fi_name f) \<and> 92 \<notin> set (fi_name f)
     \<and> (fi_kind f = ''file'' \<longrightarrow> fi_type f = js ''FILE'') \<and> (fi_kind f = ''dir'' \<longrightarrow> fi_type f = js ''DIR'') \<and> 0 \<le> fi_size f"

lemma file_kind_type: "file_kind e = ''file'' \<Longrightarrow> n_type e = js ''FILE''" "file_kind e = ''dir'' \<Longrightarrow> n_type e = js ''DIR''"
  by (auto simp: file_kind_def Let_def split: jsval.splits if_splits)

lemma file_info_safe:
  assumes "file_info_of dp item = Inr f"
  shows "safe_info f"
proof -
  obtain name ty mtime mode n where v: "getProp item (js ''name'') = JStr name" "getProp item (js ''type'') = JStr ty"
    "getProp item (js ''mtime'') = JStr mtime" "getProp item (js ''mode'') = JNum mode" "getProp item (js ''size'') = JNum n"
    using assms unfolding file_info_of_def by (auto split: jsval.splits)
  have checked: "name \<noteq> [] \<and> name \<noteq> js ''.'' \<and> name \<noteq> js ''..'' \<and> \<not> list_ex name_unit_bad name \<and> 0 \<le> n"
    and f: "f = \<lparr>fi_name = name, fi_type = ty, fi_kind = file_kind \<lparr>n_name = name, n_type = ty, n_mode = JNum mode\<rparr>,
      fi_mtime = mtime, fi_mode = mode, fi_size = n\<rparr>"
    using assms unfolding file_info_of_def v by (simp_all split: if_splits)
  have "47 \<notin> set name" "92 \<notin> set name" using checked by (auto simp: list_ex_iff name_unit_bad_def)
  then show ?thesis using checked f file_kind_type [of "\<lparr>n_name = name, n_type = ty, n_mode = JNum mode\<rparr>"] by (simp add: safe_info_def)
qed

lemma list_items_safe:
  assumes "list_items dp names items = Inr fs"
  shows "list_all safe_info fs \<and> distinct (map fi_name fs) \<and> set (map fi_name fs) \<inter> set names = {} \<and> length fs = length items"
  using assms
proof (induction dp names items arbitrary: fs rule: list_items.induct)
  case (2 dp names item items)
  then obtain f rest where f: "file_info_of dp item = Inr f" "fi_name f \<notin> set names" "list_items dp (fi_name f # names) items = Inr rest" "fs = f # rest"
    by (auto split: if_splits)
  show ?case using 2(1) [OF f(1,2,3)] file_info_safe [OF f(1)] f(2,4) by auto
qed simp

section \<open>Witness\<close>

definition demo_client :: fclient where
  "demo_client = \<lparr>k_parse = demo_parse, k_timeout = JNum 10000, k_token = Some (js ''t'')\<rparr>"

definition demo_input :: finput where
  "demo_input = \<lparr>f_cluster = JStr (js ''c''), f_path = JStr (js ''/a''), f_name = JUndef, f_from = JUndef, f_to = JUndef, f_bytes = JNum 3,
     f_timeout = JUndef, f_max = JUndef\<rparr>"

lemma demo_upload_done: "fst (upload demo_client (js ''ab'') demo_input (Some [Some [1, 2], Some [3]]) JUndef JUndef (demo_call 204)) = Inr ()"
  by code_simp

lemma upload_carries_source_witness:
  "\<exists>r. p_answer (demo_call 204) = Some r \<and> s_status r = 204
     \<and> p_uploaded (snd (upload demo_client (js ''ab'') demo_input (Some [Some [1, 2], Some [3]]) JUndef JUndef (demo_call 204))) \<noteq> None"
proof -
  let ?p = "upload demo_client (js ''ab'') demo_input (Some [Some [1, 2], Some [3]]) JUndef JUndef (demo_call 204)"
  have p: "?p = (Inr (), snd ?p)" using demo_upload_done by (simp add: prod_eq_iff)
  have "f_bytes demo_input = JNum 3" by (simp add: demo_input_def)
  then obtain r where "p_answer (demo_call 204) = Some r" "s_status r = 204" "p_uploaded (snd ?p) \<noteq> None"
    using upload_carries_source [OF p] by blast
  then show ?thesis by blast
qed

end
