(* ===== verification/UpdateSecurity.thy ===== *)
theory UpdateSecurity
  imports JsBuffer JsValue
begin

text \<open>
  \<^verbatim>\<open>electron/update-security.js\<close>: what an update must be before it is installed.  \<open>validate_update_info\<close>
  accepts the metadata of a release, \<open>verify_update_file\<close> the downloaded file, \<open>verify_windows_signature\<close> the
  signature of an installer.

  \<^item> Third-party code is a parameter: \<open>semver\<close> (record \<open>semver_lib\<close>), \<open>parseDn\<close> of builder-util-runtime, the SHA-512
    of a byte sequence, PowerShell's answer.  So are the results of \<open>Date.parse\<close>, \<open>JSON.parse\<close> and of Node's path
    normalisation; and the chain of replacements that turns release notes into plain text (\<open>clean\<close>).
  \<^item> \<open>verify_update_file\<close> runs over scripts of what the file system answers, one per call; at every \<open>await\<close>
    the next entry of \<open>u_aborts\<close> says whether the caller's signal fires.
\<close>

section \<open>Values\<close>

definition RELEASE_DOWNLOAD :: jsstr where
  "RELEASE_DOWNLOAD = js ''https://github.com/Enthusjast/usshtc-107/releases/download/''"

definition MAX_NOTES_BYTES :: nat where
  "MAX_NOTES_BYTES = 64 * 1024"

record semver_lib =
  sv_valid :: "jsstr \<Rightarrow> jsstr option"
  sv_prerelease :: "jsstr \<Rightarrow> bool"
  sv_gt :: "jsstr \<Rightarrow> jsstr \<Rightarrow> bool"

definition canonical_version :: "semver_lib \<Rightarrow> jsval \<Rightarrow> bool" where
  "canonical_version sv v = (case v of JStr s \<Rightarrow> sv_valid sv s = Some s \<and> \<not> sv_prerelease sv s | _ \<Rightarrow> False)"

definition digest_text :: "jsstr \<Rightarrow> bool" where
  "digest_text s \<longleftrightarrow> length s = 88 \<and> list_all is_b64 (take 86 s) \<and> drop 86 s = js ''==''
     \<and> length (from_base64 s) = 64 \<and> b64_encode (from_base64 s) = s"

definition valid_digest :: "jsval \<Rightarrow> bool" where
  "valid_digest v = (case v of JStr s \<Rightarrow> digest_text s | _ \<Rightarrow> False)"

definition valid_size :: "jsval \<Rightarrow> bool" where
  "valid_size v = (case v of JNum n \<Rightarrow> n \<le> MAX_SAFE \<and> 0 < n | _ \<Rightarrow> False)"

definition basename_unit :: "nat \<Rightarrow> bool" where
  "basename_unit u \<longleftrightarrow> is_alnum u \<or> u \<in> {46, 95, 43, 45}"

fun has_dots :: "jsstr \<Rightarrow> bool" where
  "has_dots (a # b # s) = (a = 46 \<and> b = 46 \<or> has_dots (b # s))"
| "has_dots _ = False"

definition metadata_error :: string where
  "metadata_error = ''UPDATE_INVALID_METADATA''"

definition asset_basename :: "jsval \<Rightarrow> jsstr \<Rightarrow> string + jsstr" where
  "asset_basename v version =
     (case v of
        JStr s \<Rightarrow>
          (let prefix = RELEASE_DOWNLOAD @ js ''v'' @ version @ js ''/'';
               name = (if starts_with s prefix then drop (length prefix) s else s) in
           if name = [] \<or> \<not> is_alnum (hd name) \<or> \<not> list_all basename_unit name \<or> has_dots name then Inl metadata_error else Inr name)
      | _ \<Rightarrow> Inl metadata_error)"

section \<open>Release notes\<close>

definition is_object :: "jsval \<Rightarrow> bool" where
  "is_object v = (case v of JObj _ _ \<Rightarrow> True | _ \<Rightarrow> False)"

definition note_ok :: "jsval \<Rightarrow> bool" where
  "note_ok item \<longleftrightarrow> is_object item \<and> (nullish (getProp item (js ''note'')) \<or> (case getProp item (js ''note'') of JStr _ \<Rightarrow> True | _ \<Rightarrow> False))"

definition note_text :: "jsval \<Rightarrow> jsstr" where
  "note_text item = (case getProp item (js ''note'') of JStr s \<Rightarrow> s | _ \<Rightarrow> [])"

fun joined_by :: "jsstr \<Rightarrow> jsstr list \<Rightarrow> jsstr" where
  "joined_by sep [] = []"
| "joined_by sep [x] = x"
| "joined_by sep (x # xs) = x @ sep @ joined_by sep xs"

fun within_bytes :: "nat \<Rightarrow> nat list \<Rightarrow> nat list" where
  "within_bytes budget [] = []"
| "within_bytes budget (p # ps) = (let n = length (utf8_point p) in if budget < n then [] else p # within_bytes (budget - n) ps)"

definition truncated_notes :: "jsstr \<Rightarrow> jsstr" where
  "truncated_notes s = from_points (within_bytes MAX_NOTES_BYTES (code_points s))"

definition plain_release_notes :: "(jsstr \<Rightarrow> jsstr) \<Rightarrow> jsval \<Rightarrow> string + jsstr" where
  "plain_release_notes clean notes =
     (case notes of
        JUndef \<Rightarrow> Inr []
      | JNull \<Rightarrow> Inr []
      | JStr s \<Rightarrow> Inr (truncated_notes (clean s))
      | JArr items \<Rightarrow>
          if list_all note_ok items then Inr (truncated_notes (clean (joined_by [10, 10] (map note_text items)))) else Inl metadata_error
      | _ \<Rightarrow> Inl metadata_error)"

section \<open>The metadata of a release\<close>

record candidate =
  c_version :: jsstr
  c_platform :: string
  c_arch :: string
  c_asset :: jsstr
  c_size :: nat
  c_sha512 :: jsstr

definition platform_target :: "string \<Rightarrow> (string \<times> string) option" where
  "platform_target p = (if p = ''win32'' then Some (''win'', ''exe'') else if p = ''darwin'' then Some (''mac'', ''zip'')
     else if p = ''linux'' then Some (''linux'', ''AppImage'') else None)"

definition expected_assets :: "jsstr \<Rightarrow> string \<Rightarrow> string \<Rightarrow> string \<times> string \<Rightarrow> jsstr list" where
  "expected_assets version platform arch target =
     map (\<lambda>a. js ''usshtc107-'' @ version @ js ''-'' @ js (fst target) @ js ''-'' @ js a @ js ''.'' @ js (snd target))
       (if platform = ''linux'' \<and> arch = ''x64'' then [''x64'', ''x86_64''] else [arch])"

text \<open>The loop over \<open>info.files\<close>: every file must be well-formed; those with an expected name are the matches.\<close>

fun matching_files :: "jsstr \<Rightarrow> jsstr list \<Rightarrow> jsstr list \<Rightarrow> jsval list \<Rightarrow> string + (jsstr \<times> jsval) list" where
  "matching_files version expected names [] = Inr []"
| "matching_files version expected names (file # files) =
     (if \<not> is_object file then Inl metadata_error
      else bindR (asset_basename (getProp file (js ''url'')) version) (\<lambda>name.
        if name \<in> set names \<or> \<not> valid_size (getProp file (js ''size'')) \<or> \<not> valid_digest (getProp file (js ''sha512'')) then Inl metadata_error
        else bindR (matching_files version expected (name # names) files) (\<lambda>rest.
          Inr (if name \<in> set expected then (name, file) # rest else rest))))"

definition release_date :: "(jsstr \<Rightarrow> jsstr option) \<Rightarrow> jsval \<Rightarrow> string + jsstr option" where
  "release_date iso_date v =
     (if nullish v then Inr None
      else case v of JStr s \<Rightarrow> (case iso_date s of None \<Rightarrow> Inl metadata_error | Some t \<Rightarrow> Inr (Some t)) | _ \<Rightarrow> Inl metadata_error)"

definition ARCHITECTURES :: "string list" where
  "ARCHITECTURES = [''x64'', ''arm64'', ''ia32'', ''armv7l'']"

definition candidate_of :: "jsstr \<Rightarrow> string \<Rightarrow> string \<Rightarrow> jsstr \<times> jsval \<Rightarrow> candidate" where
  "candidate_of version platform arch m =
     \<lparr>c_version = version, c_platform = platform, c_arch = arch, c_asset = fst m,
      c_size = (case getProp (snd m) (js ''size'') of JNum n \<Rightarrow> nat n | _ \<Rightarrow> 0),
      c_sha512 = (case getProp (snd m) (js ''sha512'') of JStr s \<Rightarrow> s | _ \<Rightarrow> [])\<rparr>"

definition only_match :: "'a list \<Rightarrow> string + 'a" where
  "only_match ms = (case ms of [m] \<Rightarrow> Inr m | _ \<Rightarrow> Inl metadata_error)"

definition validate_update_info ::
  "semver_lib \<Rightarrow> (jsstr \<Rightarrow> jsstr option) \<Rightarrow> (jsstr \<Rightarrow> jsstr) \<Rightarrow> jsval \<Rightarrow> jsval \<Rightarrow> string \<Rightarrow> string \<Rightarrow> string + candidate \<times> jsstr option \<times> jsstr" where
  "validate_update_info sv iso_date clean info current_version platform arch =
     (if \<not> is_object info then Inl metadata_error
      else
        (case (current_version, getProp info (js ''version'')) of
           (JStr old, JStr new) \<Rightarrow>
             if \<not> canonical_version sv (JStr old) \<or> \<not> canonical_version sv (JStr new) \<or> \<not> sv_gt sv new old then Inl ''UPDATE_VERSION_REJECTED''
             else
               (case platform_target platform of
                  None \<Rightarrow> Inl metadata_error
                | Some target \<Rightarrow>
                    if arch \<notin> set ARCHITECTURES then Inl metadata_error
                    else
                      (case getProp info (js ''files'') of
                         JArr files \<Rightarrow>
                           if files = [] then Inl metadata_error
                           else bindR (matching_files new (expected_assets new platform arch target) [] files) (\<lambda>matches.
                             bindR (only_match matches) (\<lambda>m.
                             bindR (release_date iso_date (getProp info (js ''releaseDate''))) (\<lambda>date.
                             bindR (plain_release_notes clean (getProp info (js ''releaseNotes''))) (\<lambda>notes.
                             Inr (candidate_of new platform arch m, date, notes)))))
                       | _ \<Rightarrow> Inl metadata_error))
         | _ \<Rightarrow> Inl ''UPDATE_VERSION_REJECTED''))"

section \<open>The downloaded file\<close>

record fstat =
  st_file :: bool
  st_link :: bool
  st_dev :: int
  st_ino :: int
  st_bytes :: int
  st_mtime :: int
  st_ctime :: int

definition same_file :: "fstat \<Rightarrow> fstat \<Rightarrow> bool" where
  "same_file a b \<longleftrightarrow> st_dev a = st_dev b \<and> st_ino a = st_ino b \<and> st_bytes a = st_bytes b \<and> st_mtime a = st_mtime b \<and> st_ctime a = st_ctime b"

record uworld =
  u_aborts :: "bool list"
  u_aborted :: bool
  u_realpaths :: "(string + jsstr) list"
  u_lstats :: "(string + fstat) list"
  u_opens :: "string option"
  u_stats :: "(string + fstat) list"
  u_chunks :: "(string + byte list) list"
  u_handle :: bool
  u_step :: string

type_synonym 'a verify = "(uworld, string, 'a) act"

definition at_step :: "string \<Rightarrow> unit verify" where
  "at_step s = modifyM (\<lambda>w. w\<lparr>u_step := s\<rparr>)"

definition mismatch :: "'a verify" where
  "mismatch = throwM ''UPDATE_CHECKSUM_MISMATCH''"

definition needs :: "bool \<Rightarrow> unit verify" where
  "needs b = guardM b ''UPDATE_CHECKSUM_MISMATCH''"

definition assert_active :: "unit verify" where
  "assert_active = bindM (readM u_aborted) (\<lambda>a. if a then bindM (at_step ''abort'') (\<lambda>_. throwM ''UPDATE_PREPARATION_FAILED'') else retM ())"

definition pause :: "unit verify" where
  "pause = modifyM (\<lambda>w. w\<lparr>u_aborted := u_aborted w \<or> (u_aborts w \<noteq> [] \<and> hd (u_aborts w)), u_aborts := tl (u_aborts w)\<rparr>)"

definition realpath :: "jsstr verify" where
  "realpath = bindM pause (\<lambda>_. bindM (readM u_realpaths) (\<lambda>xs. bindM (modifyM (\<lambda>w. w\<lparr>u_realpaths := tl xs\<rparr>)) (\<lambda>_.
     case xs of [] \<Rightarrow> throwM ''ENOENT'' | r # _ \<Rightarrow> liftR r)))"

definition lstat :: "fstat verify" where
  "lstat = bindM pause (\<lambda>_. bindM (readM u_lstats) (\<lambda>xs. bindM (modifyM (\<lambda>w. w\<lparr>u_lstats := tl xs\<rparr>)) (\<lambda>_.
     case xs of [] \<Rightarrow> throwM ''ENOENT'' | r # _ \<Rightarrow> liftR r)))"

definition handle_stat :: "fstat verify" where
  "handle_stat = bindM pause (\<lambda>_. bindM (readM u_stats) (\<lambda>xs. bindM (modifyM (\<lambda>w. w\<lparr>u_stats := tl xs\<rparr>)) (\<lambda>_.
     case xs of [] \<Rightarrow> throwM ''EBADF'' | r # _ \<Rightarrow> liftR r)))"

definition open_file :: "unit verify" where
  "open_file = bindM pause (\<lambda>_. bindM (readM u_opens) (\<lambda>r.
     case r of Some e \<Rightarrow> throwM e | None \<Rightarrow> modifyM (\<lambda>w. w\<lparr>u_handle := True\<rparr>)))"

text \<open>\<open>for await (const chunk of stream)\<close>; the bytes are those given to the hash.\<close>

primrec read_chunks :: "nat \<Rightarrow> nat \<Rightarrow> (string + byte list) list \<Rightarrow> byte list verify" where
  "read_chunks limit so_far [] = bindM pause (\<lambda>_. retM [])"
| "read_chunks limit so_far (c # cs) =
     bindM pause (\<lambda>_. bindM (liftR c) (\<lambda>bs. bindM assert_active (\<lambda>_.
       if limit < so_far + length bs then bindM (at_step ''size'') (\<lambda>_. mismatch)
       else bindM (read_chunks limit (so_far + length bs) cs) (\<lambda>rest. retM (bs @ rest)))))"

definition stable_path :: "string \<Rightarrow> jsstr \<Rightarrow> unit verify" where
  "stable_path step path = bindM (at_step step) (\<lambda>_. bindM realpath (\<lambda>p. needs (p = path)))"

definition regular_file :: "string \<Rightarrow> fstat verify" where
  "regular_file step = bindM (at_step step) (\<lambda>_. bindM lstat (\<lambda>s. bindM (needs (st_file s \<and> \<not> st_link s)) (\<lambda>_. retM s)))"

definition opened_file :: "candidate \<Rightarrow> fstat \<Rightarrow> fstat verify" where
  "opened_file c initial =
     bindM (at_step ''size'') (\<lambda>_. bindM (needs (st_bytes initial = int (c_size c))) (\<lambda>_.
     bindM (at_step ''open'') (\<lambda>_. bindM open_file (\<lambda>_.
     bindM (at_step ''stat'') (\<lambda>_. bindM handle_stat (\<lambda>opened. bindM (needs (st_file opened)) (\<lambda>_.
     bindM (at_step ''sameFile'') (\<lambda>_. bindM (needs (same_file initial opened)) (\<lambda>_. bindM assert_active (\<lambda>_. retM opened))))))))))"

definition hashed_file :: "(byte list \<Rightarrow> byte list) \<Rightarrow> candidate \<Rightarrow> (byte list \<times> nat) verify" where
  "hashed_file sha512 c =
     bindM (at_step ''stream'') (\<lambda>_. bindM assert_active (\<lambda>_. bindM (readM u_chunks) (\<lambda>cs.
     bindM (read_chunks (c_size c) 0 cs) (\<lambda>bs. bindM assert_active (\<lambda>_. retM (sha512 bs, length bs))))))"

definition unchanged_file :: "(byte list \<Rightarrow> byte list) \<Rightarrow> jsstr \<Rightarrow> candidate \<Rightarrow> fstat \<Rightarrow> byte list \<times> nat \<Rightarrow> unit verify" where
  "unchanged_file sha512 path c opened hashed =
     bindM (at_step ''statAfter'') (\<lambda>_. bindM handle_stat (\<lambda>after.
     bindM (at_step ''lstatAfter'') (\<lambda>_. bindM lstat (\<lambda>final. bindM (needs (st_file final \<and> \<not> st_link final)) (\<lambda>_.
     bindM (at_step ''size'') (\<lambda>_. bindM (needs (snd hashed = c_size c)) (\<lambda>_.
     bindM (at_step ''sameFileAfter'') (\<lambda>_. bindM (needs (same_file opened after)) (\<lambda>_.
     bindM (at_step ''sameFileFinal'') (\<lambda>_. bindM (needs (same_file after final)) (\<lambda>_.
     bindM (stable_path ''realpathAfter'' path) (\<lambda>_.
     bindM (at_step ''digest'') (\<lambda>_. bindM (needs (fst hashed = from_base64 (c_sha512 c))) (\<lambda>_. assert_active))))))))))))))"

definition verify_steps :: "(byte list \<Rightarrow> byte list) \<Rightarrow> (jsstr \<Rightarrow> bool) \<Rightarrow> jsstr \<Rightarrow> candidate \<Rightarrow> unit verify" where
  "verify_steps sha512 canonical path c =
     bindM assert_active (\<lambda>_.
     bindM (needs (canonical path \<and> \<not> has_control path \<and> valid_size (JNum (int (c_size c))) \<and> digest_text (c_sha512 c))) (\<lambda>_.
     bindM (stable_path ''realpath'' path) (\<lambda>_.
     bindM (regular_file ''lstat'') (\<lambda>initial.
     bindM (opened_file c initial) (\<lambda>opened.
     bindM (hashed_file sha512 c) (\<lambda>hashed.
     unchanged_file sha512 path c opened hashed))))))"

text \<open>The public code of a failure, and the internal step kept for diagnostics.\<close>

definition verify_failure :: "uworld \<Rightarrow> string \<Rightarrow> string" where
  "verify_failure w e =
     (if u_aborted w \<or> e = ''UPDATE_PREPARATION_FAILED'' then ''UPDATE_PREPARATION_FAILED''
      else if e = ''EACCES'' \<or> e = ''EPERM'' then ''UPDATE_PERMISSION_DENIED'' else ''UPDATE_CHECKSUM_MISMATCH'')"

definition verify_update_file :: "(byte list \<Rightarrow> byte list) \<Rightarrow> (jsstr \<Rightarrow> bool) \<Rightarrow> jsstr \<Rightarrow> candidate \<Rightarrow> unit verify" where
  "verify_update_file sha512 canonical path c =
     finallyM
       (bindM (at_step ''input'') (\<lambda>_. tryM (verify_steps sha512 canonical path c)
         (\<lambda>e. bindM getM (\<lambda>w. bindM (at_step (if u_aborted w then ''abort'' else u_step w)) (\<lambda>_. throwM (verify_failure w e))))))
       (modifyM (\<lambda>w. w\<lparr>u_handle := False\<rparr>))"

section \<open>Publishers\<close>

definition publisher_name_ok :: "jsval \<Rightarrow> bool" where
  "publisher_name_ok v = (case v of JStr s \<Rightarrow> s \<noteq> [] \<and> s = js_trim s \<and> length s \<le> 4096 \<and> \<not> has_control s | _ \<Rightarrow> False)"

definition valid_publisher_names :: "jsval \<Rightarrow> bool" where
  "valid_publisher_names v = (case v of JArr names \<Rightarrow> names \<noteq> [] \<and> list_all publisher_name_ok names | _ \<Rightarrow> False)"

text \<open>\<open>/^\s*[A-Za-z][A-Za-z0-9.]*\s*=\s*\S[\s\S]*$/\<close>\<close>

definition dn_attribute :: "jsstr \<Rightarrow> bool" where
  "dn_attribute s \<longleftrightarrow>
     (case dropWhile is_space s of
        [] \<Rightarrow> False
      | u # r \<Rightarrow> is_alpha u \<and>
          (let after_name = dropWhile is_space (dropWhile (\<lambda>v. is_alnum v \<or> v = 46) r) in
           take 1 after_name = [61] \<and> list_ex (\<lambda>v. \<not> is_space v) (drop 1 after_name)))"

record dn_state =
  dn_quote :: bool
  dn_escaped :: bool
  dn_segment :: jsstr
  dn_attributes :: "jsstr list"

definition dn_append :: "dn_state \<Rightarrow> dn_state option" where
  "dn_append s = (if dn_attribute (dn_segment s) then Some (s\<lparr>dn_attributes := dn_attributes s @ [dn_segment s], dn_segment := []\<rparr>) else None)"

definition dn_step :: "dn_state \<Rightarrow> nat \<Rightarrow> dn_state option" where
  "dn_step s u =
     (let kept = s\<lparr>dn_segment := dn_segment s @ [u]\<rparr> in
      if dn_escaped s then Some (kept\<lparr>dn_escaped := False\<rparr>)
      else if u = 92 then Some (kept\<lparr>dn_escaped := True\<rparr>)
      else if u = 34 then Some (kept\<lparr>dn_quote := \<not> dn_quote s\<rparr>)
      else if \<not> dn_quote s \<and> u \<in> {44, 59, 43} then dn_append s else Some kept)"

fun dn_scan :: "dn_state \<Rightarrow> jsstr \<Rightarrow> dn_state option" where
  "dn_scan s [] = (if dn_quote s \<or> dn_escaped s then None else dn_append s)"
| "dn_scan s (u # us) = (case dn_step s u of None \<Rightarrow> None | Some t \<Rightarrow> dn_scan t us)"

definition complete_dn :: "(jsstr \<Rightarrow> (jsstr \<times> jsstr) list) \<Rightarrow> jsval \<Rightarrow> (jsstr \<times> jsstr) list option" where
  "complete_dn parse_dn v =
     (case v of
        JStr s \<Rightarrow>
          if s = [] \<or> 16 * 1024 < length s \<or> has_control s then None
          else
            (case dn_scan \<lparr>dn_quote = False, dn_escaped = False, dn_segment = [], dn_attributes = []\<rparr> s of
               None \<Rightarrow> None
             | Some t \<Rightarrow>
                 (let result = parse_dn s in
                  if length result \<noteq> length (dn_attributes t) \<or> list_ex (\<lambda>(k, x). k = [] \<or> x = [] \<or> has_control x) result
                  then None else Some result))
      | _ \<Rightarrow> None)"

definition canonical_windows_path :: "(jsstr \<Rightarrow> jsstr) \<Rightarrow> jsval \<Rightarrow> bool" where
  "canonical_windows_path wnorm v =
     (case v of
        JStr s \<Rightarrow> \<not> has_control s \<and> 3 \<le> length s \<and> is_alpha (s ! 0) \<and> s ! 1 = 58 \<and> s ! 2 = 92 \<and> 58 \<notin> set (drop 2 s) \<and> wnorm s = s
      | _ \<Rightarrow> False)"

text \<open>A configured publisher: its distinguished name if it is one, else a common name.\<close>

fun publishers_of :: "(jsstr \<Rightarrow> (jsstr \<times> jsstr) list) \<Rightarrow> jsval list \<Rightarrow> (jsstr \<times> (jsstr \<times> jsstr) list option) list option" where
  "publishers_of parse_dn [] = Some []"
| "publishers_of parse_dn (v # vs) =
     (let dn = complete_dn parse_dn v; name = (case v of JStr s \<Rightarrow> s | _ \<Rightarrow> []) in
      if 61 \<in> set name \<and> dn = None then None
      else case publishers_of parse_dn vs of None \<Rightarrow> None | Some ps \<Rightarrow> Some ((name, dn) # ps))"

definition publisher_matches :: "(jsstr \<times> jsstr) list \<Rightarrow> jsstr \<times> (jsstr \<times> jsstr) list option \<Rightarrow> bool" where
  "publisher_matches subject p =
     (case snd p of
        Some dn \<Rightarrow> list_all (\<lambda>(k, x). map_of subject k = Some x) dn
      | None \<Rightarrow> map_of subject (js ''CN'') = Some (fst p))"

text \<open>What PowerShell answers: whether it failed, its output, and whether it wrote to the error stream.\<close>

type_synonym shell_answer = "bool \<times> jsval \<times> bool"

definition signature_verdict ::
  "(jsstr \<Rightarrow> jsval option) \<Rightarrow> (jsstr \<Rightarrow> jsstr) \<Rightarrow> (jsstr \<Rightarrow> (jsstr \<times> jsstr) list) \<Rightarrow> (jsstr \<times> (jsstr \<times> jsstr) list option) list
     \<Rightarrow> jsstr \<Rightarrow> shell_answer \<Rightarrow> bool" where
  "signature_verdict parse wnorm parse_dn publishers path answer =
     (case answer of (crashed, stdout, noisy) \<Rightarrow>
        (case stdout of
           JStr out \<Rightarrow>
             \<not> crashed \<and> \<not> noisy \<and> byte_length out \<le> 64 * 1024 \<and>
             (case parse out of
                Some data \<Rightarrow>
                  is_object data \<and> getProp data (js ''Status'') = JStr (js ''Valid'') \<and> canonical_windows_path wnorm (getProp data (js ''Path''))
                  \<and> getProp data (js ''Path'') = JStr path \<and> is_object (getProp data (js ''SignerCertificate'')) \<and>
                  (case complete_dn parse_dn (getProp (getProp data (js ''SignerCertificate'')) (js ''Subject'')) of
                     Some subject \<Rightarrow> (case map_of subject (js ''CN'') of Some cn \<Rightarrow> cn \<noteq> [] | None \<Rightarrow> False) \<and> list_ex (publisher_matches subject) publishers
                   | None \<Rightarrow> False)
              | None \<Rightarrow> False)
         | _ \<Rightarrow> False))"

text \<open>\<open>True\<close> is the result \<open>null\<close> (accepted), \<open>False\<close> is \<open>UPDATE_SIGNATURE_INVALID\<close>.  \<open>shell root path\<close> is PowerShell under the system root.\<close>

definition verify_windows_signature ::
  "(jsstr \<Rightarrow> jsval option) \<Rightarrow> (jsstr \<Rightarrow> jsstr) \<Rightarrow> (jsstr \<Rightarrow> (jsstr \<times> jsstr) list) \<Rightarrow> (jsstr \<Rightarrow> jsstr \<Rightarrow> shell_answer) \<Rightarrow> jsval \<Rightarrow> jsval \<Rightarrow> jsval \<Rightarrow> bool" where
  "verify_windows_signature parse wnorm parse_dn shell system_root names path =
     (valid_publisher_names names \<and> canonical_windows_path wnorm path \<and>
      (case (names, path, system_root) of
         (JArr vs, JStr p, JStr root) \<Rightarrow>
           (case publishers_of parse_dn vs of
              None \<Rightarrow> False
            | Some publishers \<Rightarrow>
                canonical_windows_path wnorm (JStr root) \<and> \<not> ends_with root [92]
                \<and> signature_verdict parse wnorm parse_dn publishers p (shell root p))
       | _ \<Rightarrow> False))"

end
