(* ===== verification/UpdateVerified.thy ===== *)
theory UpdateVerified
  imports UpdateSecurity
begin

text \<open>
  What an accepted update has been checked to be.  \<open>remaining\<close> is what the file system's scripts still hold; each
  step that returns consumes what it names.
\<close>

declare act_Inr [simp]

section \<open>Steps of the file check\<close>

definition remaining :: "uworld \<Rightarrow> (string + jsstr) list \<times> (string + fstat) list \<times> (string + fstat) list \<times> (string + byte list) list" where
  "remaining w = (u_realpaths w, u_lstats w, u_stats w, u_chunks w)"

lemma at_step_Inr [simp]: "at_step st w = (Inr u, v) \<longleftrightarrow> v = w\<lparr>u_step := st\<rparr>"
  by (simp add: at_step_def)

lemma remaining_frame [simp]:
  "remaining (w\<lparr>u_step := st\<rparr>) = remaining w" "remaining (w\<lparr>u_handle := b\<rparr>) = remaining w"
  "remaining (w\<lparr>u_aborted := b, u_aborts := as\<rparr>) = remaining w"
  by (simp_all add: remaining_def)

lemma needs_Inr [simp]: "needs b w = (Inr u, v) \<longleftrightarrow> b \<and> v = w"
  by (simp add: needs_def)

lemma active_Inr [simp]: "assert_active w = (Inr u, v) \<longleftrightarrow> \<not> u_aborted w \<and> v = w"
  by (auto simp: assert_active_def bindM_Inr_iff)

lemma pause_remaining: "pause w = (r, v) \<Longrightarrow> remaining v = remaining w"
  by (auto simp: pause_def remaining_def)

lemma realpath_Inr: "realpath w = (Inr p, v) \<Longrightarrow> \<exists>rs ls ss cs. remaining w = (Inr p # rs, ls, ss, cs) \<and> remaining v = (rs, ls, ss, cs)"
  by (auto simp: realpath_def pause_def remaining_def bindM_Inr_iff split: list.splits)

lemma lstat_Inr: "lstat w = (Inr x, v) \<Longrightarrow> \<exists>rs ls ss cs. remaining w = (rs, Inr x # ls, ss, cs) \<and> remaining v = (rs, ls, ss, cs)"
  by (auto simp: lstat_def pause_def remaining_def bindM_Inr_iff split: list.splits)

lemma handle_stat_Inr: "handle_stat w = (Inr x, v) \<Longrightarrow> \<exists>rs ls ss cs. remaining w = (rs, ls, Inr x # ss, cs) \<and> remaining v = (rs, ls, ss, cs)"
  by (auto simp: handle_stat_def pause_def remaining_def bindM_Inr_iff split: list.splits)

lemma open_file_Inr: "open_file w = (Inr x, v) \<Longrightarrow> remaining v = remaining w"
  by (auto simp: open_file_def pause_def remaining_def bindM_Inr_iff split: option.splits)

lemma read_chunks_Inr:
  assumes "read_chunks limit n cs w = (Inr bs, v)"
  shows "(\<exists>bss. cs = map Inr bss \<and> bs = concat bss) \<and> remaining v = remaining w"
  using assms
proof (induction cs arbitrary: n w bs)
  case Nil
  then show ?case by (auto simp: bindM_Inr_iff dest: pause_remaining)
next
  case (Cons c cs)
  obtain b x y rest where b: "c = Inr b" "pause w = (Inr x, y)" "read_chunks limit (n + length b) cs y = (Inr rest, v)" "bs = b @ rest"
    using Cons.prems by (auto simp: bindM_Inr_iff mismatch_def split: if_splits)
  obtain bss where "cs = map Inr bss" "rest = concat bss" "remaining v = remaining y" using Cons.IH [OF b(3)] by blast
  then have "c # cs = map Inr (b # bss) \<and> bs = concat (b # bss)" using b(1,4) by simp
  then show ?case using \<open>remaining v = remaining y\<close> pause_remaining [OF b(2)] by metis
qed

lemma stable_path_Inr:
  "stable_path st path w = (Inr u, v) \<Longrightarrow> \<exists>rs ls ss cs. remaining w = (Inr path # rs, ls, ss, cs) \<and> remaining v = (rs, ls, ss, cs)"
  by (auto simp: stable_path_def bindM_Inr_iff dest!: realpath_Inr)

lemma regular_file_Inr:
  "regular_file st w = (Inr x, v) \<Longrightarrow> st_file x \<and> \<not> st_link x \<and> (\<exists>rs ls ss cs. remaining w = (rs, Inr x # ls, ss, cs) \<and> remaining v = (rs, ls, ss, cs))"
  by (auto simp: regular_file_def bindM_Inr_iff dest!: lstat_Inr)

lemma opened_file_Inr:
  assumes "opened_file c x w = (Inr y, v)"
  shows "st_bytes x = int (c_size c) \<and> st_file y \<and> same_file x y \<and> (\<exists>rs ls ss cs. remaining w = (rs, ls, Inr y # ss, cs) \<and> remaining v = (rs, ls, ss, cs))"
proof -
  obtain a b where ab: "st_bytes x = int (c_size c)" "open_file (w\<lparr>u_step := ''open''\<rparr>) = (Inr (), a)"
    "handle_stat (a\<lparr>u_step := ''stat''\<rparr>) = (Inr y, b)" "st_file y" "same_file x y" "v = b\<lparr>u_step := ''sameFile''\<rparr>"
    using assms by (auto simp: opened_file_def bindM_Inr_iff)
  then show ?thesis using open_file_Inr [OF ab(2)] handle_stat_Inr [OF ab(3)] by simp
qed

lemma hashed_file_Inr:
  assumes "hashed_file sha512 c w = (Inr h, v)"
  shows "\<exists>bss. u_chunks w = map Inr bss \<and> h = (sha512 (concat bss), length (concat bss)) \<and> remaining v = remaining w"
proof -
  obtain bs where bs: "read_chunks (c_size c) 0 (u_chunks w) (w\<lparr>u_step := ''stream''\<rparr>) = (Inr bs, v)" "h = (sha512 bs, length bs)"
    using assms by (auto simp: hashed_file_def bindM_Inr_iff)
  then show ?thesis using read_chunks_Inr [OF bs(1)] by auto
qed

lemma unchanged_file_Inr:
  assumes "unchanged_file sha512 path c y h w = (Inr u, v)"
  obtains a b rs ls ss cs where "remaining w = (Inr path # rs, Inr b # ls, Inr a # ss, cs)" and "st_file b \<and> \<not> st_link b" and "same_file y a"
    and "same_file a b" and "snd h = c_size c" and "fst h = from_base64 (c_sha512 c)" and "\<not> u_aborted v"
proof -
  obtain a b t1 t2 t3 where t: "handle_stat (w\<lparr>u_step := ''statAfter''\<rparr>) = (Inr a, t1)" "lstat (t1\<lparr>u_step := ''lstatAfter''\<rparr>) = (Inr b, t2)"
    "st_file b \<and> \<not> st_link b" "snd h = c_size c" "same_file y a" "same_file a b"
    "stable_path ''realpathAfter'' path (t2\<lparr>u_step := ''sameFileFinal''\<rparr>) = (Inr (), t3)" "fst h = from_base64 (c_sha512 c)" "\<not> u_aborted v"
    using assms by (auto simp: unchanged_file_def bindM_Inr_iff)
  show ?thesis using that [of _ b _ a] t handle_stat_Inr [OF t(1)] lstat_Inr [OF t(2)] stable_path_Inr [OF t(7)] by fastforce
qed

section \<open>Properties\<close>

text \<open>
  Claim C40: an accepted update file is the released one.  When the check returns, the bytes read from the opened file
  have the released SHA-512 and size; the path was its own real path before and after; what was opened, what was there
  before and what is there after is one regular file, no link, with the same device, inode, size and times; and the
  caller had not cancelled.  However the check ends, the file is closed, and a failure has one of three codes.
\<close>

theorem update_file_verified:
  assumes "verify_update_file sha512 canonical path c w = (res, v)"
  shows "(res = Inr () \<longrightarrow> (\<exists>bss s0 s1 s2 s3 rs ls ss. u_chunks w = map Inr bss \<and> sha512 (concat bss) = from_base64 (c_sha512 c)
      \<and> length (concat bss) = c_size c \<and> length (from_base64 (c_sha512 c)) = 64
      \<and> u_realpaths w = Inr path # Inr path # rs \<and> u_lstats w = Inr s0 # Inr s3 # ls \<and> u_stats w = Inr s1 # Inr s2 # ss
      \<and> st_file s0 \<and> \<not> st_link s0 \<and> st_file s3 \<and> \<not> st_link s3 \<and> same_file s0 s1 \<and> same_file s1 s2 \<and> same_file s2 s3
      \<and> canonical path \<and> \<not> u_aborted v))
    \<and> (\<forall>e. res = Inl e \<longrightarrow> e \<in> {''UPDATE_PREPARATION_FAILED'', ''UPDATE_PERMISSION_DENIED'', ''UPDATE_CHECKSUM_MISMATCH''})
    \<and> \<not> u_handle v"
proof -
  let ?handler = "\<lambda>e. bindM getM (\<lambda>w. bindM (at_step (if u_aborted w then ''abort'' else u_step w)) (\<lambda>_. throwM (verify_failure w e)))"
  obtain x where x: "tryM (verify_steps sha512 canonical path c) ?handler (w\<lparr>u_step := ''input''\<rparr>) = (res, x)" "v = x\<lparr>u_handle := False\<rparr>"
    using assms by (auto simp: verify_update_file_def finallyM_def bindM_def at_step_def modifyM_def split: prod.splits)
  have codes: "e \<in> {''UPDATE_PREPARATION_FAILED'', ''UPDATE_PERMISSION_DENIED'', ''UPDATE_CHECKSUM_MISMATCH''}" if "res = Inl e" for e
    using x(1) that by (auto simp: tryM_def bindM_def getM_def at_step_def modifyM_def throwM_def verify_failure_def split: prod.splits sum.splits if_splits)
  have ok: "\<exists>bss s0 s1 s2 s3 rs ls ss. u_chunks w = map Inr bss \<and> sha512 (concat bss) = from_base64 (c_sha512 c)
      \<and> length (concat bss) = c_size c \<and> length (from_base64 (c_sha512 c)) = 64
      \<and> u_realpaths w = Inr path # Inr path # rs \<and> u_lstats w = Inr s0 # Inr s3 # ls \<and> u_stats w = Inr s1 # Inr s2 # ss
      \<and> st_file s0 \<and> \<not> st_link s0 \<and> st_file s3 \<and> \<not> st_link s3 \<and> same_file s0 s1 \<and> same_file s1 s2 \<and> same_file s2 s3
      \<and> canonical path \<and> \<not> u_aborted v" if "res = Inr ()"
  proof -
    have "verify_steps sha512 canonical path c (w\<lparr>u_step := ''input''\<rparr>) = (Inr (), x)"
      using x(1) that by (auto simp: tryM_def bindM_def getM_def at_step_def modifyM_def throwM_def split: prod.splits sum.splits)
    then obtain a b d e s0 s1 h where s: "canonical path" "digest_text (c_sha512 c)" "stable_path ''realpath'' path (w\<lparr>u_step := ''input''\<rparr>) = (Inr (), a)"
      "regular_file ''lstat'' a = (Inr s0, b)" "opened_file c s0 b = (Inr s1, d)" "hashed_file sha512 c d = (Inr h, e)"
      "unchanged_file sha512 path c s1 h e = (Inr (), x)"
      by (auto simp: verify_steps_def bindM_Inr_iff)
    obtain bss where bss: "u_chunks d = map Inr bss" "h = (sha512 (concat bss), length (concat bss))" "remaining e = remaining d"
      using hashed_file_Inr [OF s(6)] by blast
    obtain s2 s3 rs ls ss cs where f: "remaining e = (Inr path # rs, Inr s3 # ls, Inr s2 # ss, cs)" "st_file s3 \<and> \<not> st_link s3" "same_file s1 s2"
      "same_file s2 s3" "snd h = c_size c" "fst h = from_base64 (c_sha512 c)" "\<not> u_aborted x" by (rule unchanged_file_Inr [OF s(7)])
    have d: "remaining d = (Inr path # rs, Inr s3 # ls, Inr s2 # ss, map Inr bss)" using f(1) bss(1,3) by (simp add: remaining_def)
    have "remaining b = (Inr path # rs, Inr s3 # ls, Inr s1 # Inr s2 # ss, map Inr bss)" using opened_file_Inr [OF s(5)] d by auto
    then have "remaining a = (Inr path # rs, Inr s0 # Inr s3 # ls, Inr s1 # Inr s2 # ss, map Inr bss)" using regular_file_Inr [OF s(4)] by auto
    then have "remaining w = (Inr path # Inr path # rs, Inr s0 # Inr s3 # ls, Inr s1 # Inr s2 # ss, map Inr bss)" using stable_path_Inr [OF s(3)] by auto
    then show ?thesis using s(1,2) regular_file_Inr [OF s(4)] opened_file_Inr [OF s(5)] f bss(2) x(2)
      by (intro exI [of _ bss] exI [of _ s0] exI [of _ s1] exI [of _ s2] exI [of _ s3] exI [of _ rs] exI [of _ ls] exI [of _ ss])
        (simp add: remaining_def digest_text_def)
  qed
  show ?thesis using ok codes x(2) by simp
qed

section \<open>Candidates\<close>

lemma asset_basename_plain:
  assumes "asset_basename v version = Inr name"
  shows "name \<noteq> [] \<and> 47 \<notin> set name \<and> 92 \<notin> set name \<and> \<not> has_dots name"
proof -
  have "list_all basename_unit name" "name \<noteq> []" "\<not> has_dots name" using assms by (auto simp: asset_basename_def Let_def split: jsval.splits if_splits)
  moreover have "\<not> basename_unit 47" "\<not> basename_unit 92" by (simp_all add: basename_unit_def is_alnum_def is_alpha_def is_digit_def)
  ultimately show ?thesis by (auto simp: list_all_iff)
qed

lemma matching_files_ok:
  assumes "matching_files version expected names files = Inr ms" and "(name, file) \<in> set ms"
  shows "name \<in> set expected \<and> file \<in> set files \<and> asset_basename (getProp file (js ''url'')) version = Inr name
    \<and> valid_size (getProp file (js ''size'')) \<and> valid_digest (getProp file (js ''sha512''))"
  using assms
proof (induction files arbitrary: names ms)
  case (Cons f files)
  then obtain n rest where n: "asset_basename (getProp f (js ''url'')) version = Inr n" "valid_size (getProp f (js ''size''))"
    "valid_digest (getProp f (js ''sha512''))" "matching_files version expected (n # names) files = Inr rest"
    "ms = (if n \<in> set expected then (n, f) # rest else rest)"
    by (auto split: if_splits)
  show ?case
  proof (cases "(name, file) \<in> set rest")
    case True
    then show ?thesis using Cons.IH [OF n(4)] by simp
  next
    case False
    then show ?thesis using Cons.prems(2) n by (auto split: if_splits)
  qed
qed simp

lemma only_match_Inr [simp]: "only_match ms = Inr m \<longleftrightarrow> ms = [m]"
  by (auto simp: only_match_def split: list.splits)

text \<open>
  The candidate of accepted metadata is a newer canonical version, names a plain file expected for this platform, and passes
  the input checks of the file verification.
\<close>

lemma candidate_sound:
  assumes "validate_update_info sv iso_date clean info (JStr old) platform arch = Inr (c, date, notes)"
  shows "sv_gt sv (c_version c) old \<and> canonical_version sv (JStr (c_version c))
    \<and> (\<exists>target. platform_target platform = Some target \<and> c_asset c \<in> set (expected_assets (c_version c) platform arch target))
    \<and> 47 \<notin> set (c_asset c) \<and> 92 \<notin> set (c_asset c) \<and> valid_size (JNum (int (c_size c))) \<and> digest_text (c_sha512 c)"
proof -
  obtain new target files m where v: "canonical_version sv (JStr new)" "sv_gt sv new old" "platform_target platform = Some target"
    "matching_files new (expected_assets new platform arch target) [] files = Inr [m]" "c = candidate_of new platform arch m"
    using assms by (auto simp: validate_update_info_def split: if_splits jsval.splits option.splits)
  obtain name asset where m: "m = (name, asset)" by fastforce
  have ok: "name \<in> set (expected_assets new platform arch target)" "asset_basename (getProp asset (js ''url'')) new = Inr name"
    "valid_size (getProp asset (js ''size''))" "valid_digest (getProp asset (js ''sha512''))"
    using matching_files_ok [OF v(4), of name asset] m by simp_all
  have "valid_size (JNum (int (c_size c))) \<and> digest_text (c_sha512 c)"
    using ok(3,4) v(5) m by (auto simp: candidate_of_def valid_size_def valid_digest_def split: jsval.splits)
  then show ?thesis using v ok(1) asset_basename_plain [OF ok(2)] m by (auto simp: candidate_of_def)
qed

section \<open>Witness\<close>

definition demo_digest :: "byte list" where
  "demo_digest = replicate 64 0"

definition demo_candidate :: candidate where
  "demo_candidate = \<lparr>c_version = js ''1.2.3'', c_platform = ''linux'', c_arch = ''x64'', c_asset = js ''a'', c_size = 3, c_sha512 = b64_encode demo_digest\<rparr>"

definition demo_stat :: fstat where
  "demo_stat = \<lparr>st_file = True, st_link = False, st_dev = 1, st_ino = 2, st_bytes = 3, st_mtime = 4, st_ctime = 5\<rparr>"

definition demo_world :: uworld where
  "demo_world = \<lparr>u_aborts = [], u_aborted = False, u_realpaths = [Inr (js ''/u''), Inr (js ''/u'')], u_lstats = [Inr demo_stat, Inr demo_stat],
     u_opens = None, u_stats = [Inr demo_stat, Inr demo_stat], u_chunks = [Inr [1, 2], Inr [3]], u_handle = False, u_step = []\<rparr>"

lemma demo_verified: "fst (verify_update_file (\<lambda>_. demo_digest) (\<lambda>_. True) (js ''/u'') demo_candidate demo_world) = Inr ()"
  by code_simp

lemma update_file_verified_witness:
  "\<exists>bss. u_chunks demo_world = map Inr bss \<and> length (concat bss) = c_size demo_candidate \<and> demo_digest = from_base64 (c_sha512 demo_candidate)"
proof -
  let ?v = "verify_update_file (\<lambda>_. demo_digest) (\<lambda>_. True) (js ''/u'') demo_candidate demo_world"
  have "?v = (Inr (), snd ?v)" using demo_verified by (simp add: prod_eq_iff)
  from update_file_verified [OF this] show ?thesis by blast
qed

end
