(* ===== verification/Spec2Isabelle.thy ===== *)
theory Spec2Isabelle
  imports ScpCommand ScpGlob ExecTranscript ScpWire SettingsSchema HistoryRuns SettingsStore RecoveryRuns Shutdown TransferRuns TransferVerified SshConfigStable ProxyRuns HealthRuns TokenRuns FileApi UpdateVerified
begin

text \<open>
  \<^bold>\<open>A verification library for usshtc107.\<close>

  usshtc107 is an Electron program (and a command line) that gives ordinary SSH tools access to a computing
  platform that is only reachable through an authenticated web socket.  A local SSH server bridges every
  channel to the platform's web terminal; around it, the main process keeps settings, secrets and a history,
  starts, replaces and recovers the proxy, watches the remote side and the user's token, transfers files
  through the platform's HTTP API, manages a block of the user's OpenSSH configuration and checks updates.
  This library models the parts that carry that logic, function by function from the sources under
  \<^verbatim>\<open>src/\<close>, and proves what makes them correct.

  \<^bold>\<open>Parts, and how they interact.\<close>

  \<^item> \<open>The remote command.\<close>  A command an SSH client asks for is either recognised as \<^verbatim>\<open>scp\<close>
    (\<^verbatim>\<open>electron/scp/command-parser.js\<close>) and then spoken to in the SCP protocol (\<^verbatim>\<open>protocol.js\<close>, names
    expanded by \<^verbatim>\<open>glob.js\<close>), or wrapped by \<^verbatim>\<open>electron/exec-codec.js\<close> into a script for the remote shell
    whose framed answer is parsed back into output and an exit code.
  \<^item> \<open>What is kept on disk.\<close>  \<^verbatim>\<open>shared/settings-schema.mjs\<close> says which settings are valid,
    \<^verbatim>\<open>electron/settings-store.js\<close> keeps the settings document, \<^verbatim>\<open>electron/credential-store.js\<close> the secrets in
    it (with \<^verbatim>\<open>electron/auth-state.js\<close> for the login state), \<^verbatim>\<open>electron/session-history-store.js\<close> the history.
    The stores share \<open>atomicWriteJson\<close>.
  \<^item> \<open>The life of the proxy.\<close>  \<^verbatim>\<open>electron/proxy-controller.js\<close> owns the server and registers its sessions in
    the history; \<^verbatim>\<open>electron/recovery-controller.js\<close> probes and restarts after a failure;
    \<^verbatim>\<open>electron/health-probe-service.js\<close> and \<^verbatim>\<open>electron/token-validation-service.js\<close> watch the remote side and
    the token; \<^verbatim>\<open>electron/shutdown-coordinator.js\<close> ends the program.
  \<^item> \<open>The portal.\<close>  \<^verbatim>\<open>electron/portal-api/client.js\<close> sends one HTTPS request per call; \<^verbatim>\<open>auth-api.js\<close> and
    \<^verbatim>\<open>electron/portal-preflight.js\<close> validate a token over it (used by the recovery and the token service),
    \<^verbatim>\<open>file-api.js\<close> are the file endpoints.  \<^verbatim>\<open>electron/file-transfer/controller.js\<close> queues transfers, each run
    by \<^verbatim>\<open>orchestrator.js\<close> over those endpoints.
  \<^item> \<open>The user's machine.\<close>  \<^verbatim>\<open>electron/ssh-config-service.js\<close> rewrites one block of the OpenSSH configuration,
    \<^verbatim>\<open>electron/update-security.js\<close> decides whether a downloaded update may be installed.

  \<^bold>\<open>How code becomes definitions.\<close>

  \<^item> \<open>Values.\<close>  A JavaScript string is its list of UTF-16 code units (\<open>jsstr\<close>), bytes are naturals below 256,
    an unchecked value is a \<open>jsval\<close> (\<^verbatim>\<open>JsString\<close>, \<^verbatim>\<open>JsValue\<close>, \<^verbatim>\<open>JsBuffer\<close>, \<^verbatim>\<open>Json\<close>).  Numbers are
    \<open>int\<close> and \<open>nat\<close>: the code tests \<open>Number.isSafeInteger\<close> and the model keeps that test, so nothing rounds.
  \<^item> \<open>Errors\<close> are \<open>Inl\<close> of the code's error (mostly its \<^verbatim>\<open>code\<close> property), normal results \<open>Inr\<close>.
  \<^item> \<open>State\<close> is a record per object or closure.  Sequential code with effects is written in the combinators of
    \<^verbatim>\<open>Prelude\<close> (\<open>bindM\<close>, \<open>tryM\<close>, \<open>finallyM\<close>; the state survives a throw).  An event-driven controller is a step
    function over a datatype of events: public calls, timers, the answers each \<open>await\<close> waits for; a run is
    \<open>foldl step\<close> over any list of events, so every interleaving is covered.  \<^verbatim>\<open>Shutdown\<close> is an inductive step
    relation over the microtasks of its promise chain.
  \<^item> \<open>Callbacks\<close> run inside their caller and may call it back.  An observer takes the next entry of a script of
    environments and calls; its own callbacks are answered down to a depth \<open>d\<close>, over which every property is
    quantified.
  \<^item> \<open>The outside\<close> (the file system, the peer of a channel, the portal, native dialogs) answers from scripts
    that are part of the state: one answer per call, arbitrary, failures included.  A call that can fail after
    it took effect has such an outcome (a rename reported late).  Functions of libraries the sources only
    call (SHA-256, the key ring, \<open>JSON.parse\<close>, \<open>new URL\<close>, the platform's path functions) are parameters.
    Of SHA-256, the key ring and the other parameters nothing is assumed; where a property depends on its
    input or on the state it starts from (a peer that sends within the channel's window, a clock that is a safe
    integer, a transcript that the bootstrap script produces), its hypotheses say so.

  \<^bold>\<open>Theories.\<close>

  \<^item> \<^verbatim>\<open>Prelude\<close>: results, stateful code, \<open>keeps\<close> and \<open>ensures\<close> with their rules (\<open>act_rules\<close>), facts on lists and maps,
    and \<open>event_machine\<close>, the interface of every controller, interpreted in \<^verbatim>\<open>Credentials\<close>, \<^verbatim>\<open>HistoryRuns\<close>,
    \<^verbatim>\<open>RecoveryRuns\<close>, \<^verbatim>\<open>TransferRuns\<close>, \<^verbatim>\<open>ProxyRuns\<close>, \<^verbatim>\<open>HealthRuns\<close>, \<^verbatim>\<open>TokenRuns\<close>, \<^verbatim>\<open>ScpWire\<close> and \<^verbatim>\<open>ExecTranscript\<close>.
    \<^verbatim>\<open>MarkerSearch\<close>: finding a marker in a stream that arrives in pieces.
  \<^item> \<^verbatim>\<open>ExecCodec\<close> models \<^verbatim>\<open>exec-codec.js\<close>.  \<^verbatim>\<open>ExecStream\<close> (locale \<open>splittable\<close>) shows that the cut of the text into
    writes does not matter, \<^verbatim>\<open>ExecCorrect\<close> and \<^verbatim>\<open>ExecTranscript\<close> that a transcript is decoded exactly and that
    arbitrary input stays within the limits.
  \<^item> \<^verbatim>\<open>ScpCommand\<close>, \<^verbatim>\<open>ScpGlob\<close>, \<^verbatim>\<open>ScpProtocol\<close> model the three files.  \<^verbatim>\<open>ScpGlob\<close> proves the dynamic program
    equivalent to a declarative language; \<^verbatim>\<open>ScpReader\<close> refines the buffering reader to a parser of the flat byte
    sequence; \<^verbatim>\<open>ScpWire\<close> has the round trip, the exact payload (locale \<open>reader_part\<close>), the writer's
    chunks, and bounds and final failures over every run of records, acknowledgements, payloads and events.
  \<^item> \<^verbatim>\<open>SettingsSchema\<close> (patches are atomic, valid settings safe), \<^verbatim>\<open>SettingsDocument\<close> (what an accepted
    document is), \<^verbatim>\<open>SettingsStore\<close> (load, save, locks: what each answer says about the file), \<^verbatim>\<open>Credentials\<close>
    (secrets only sealed, revocation first in memory), \<^verbatim>\<open>SessionHistory\<close> and \<^verbatim>\<open>HistoryRuns\<close> (the
    history's invariant, finished sessions, exact pruning).
  \<^item> \<^verbatim>\<open>Recovery\<close> and \<^verbatim>\<open>RecoveryRuns\<close> (locale \<open>recovery_observer\<close>): rounds and their timers with the source's
    delays, justified starts, and the end of retrying for failures of the preflight and of the probe alike.
    \<^verbatim>\<open>Shutdown\<close>: exactly one exit, bounded, with 0 only after a stop that succeeded.
    \<^verbatim>\<open>ProxyController\<close> and \<^verbatim>\<open>ProxyRuns\<close>: no server is leaked, no candidate accepts before its keys are
    committed, the history balances.  \<open>kern\<close> abstracts the state to what these facts depend on.
  \<^item> \<^verbatim>\<open>Monitors\<close> is what the two observing services share: their environment and the contract \<open>reentrant\<close> with
    callers that call back.  \<^verbatim>\<open>HealthProbe\<close> and \<^verbatim>\<open>HealthRuns\<close>, \<^verbatim>\<open>TokenValidation\<close> and \<^verbatim>\<open>TokenRuns\<close>: results are
    about the present, rounds are bounded, and a credential found invalid is not checked again while it is the current one.
  \<^item> \<^verbatim>\<open>PortalClient\<close>, \<^verbatim>\<open>PortalAuth\<close>, \<^verbatim>\<open>FileApi\<close> and \<^verbatim>\<open>PortalFacts\<close>: what a result of a call proves about the
    request and the answer.  \<^verbatim>\<open>Transfers\<close> and \<^verbatim>\<open>TransferRuns\<close>: the queue's bounds and the end of a job.
    \<^verbatim>\<open>Orchestrator\<close> and \<^verbatim>\<open>TransferVerified\<close>: nothing is published that was not read back.
  \<^item> \<^verbatim>\<open>SshConfig\<close> and \<^verbatim>\<open>SshConfigStable\<close>: the user's bytes survive, the write is conditional and atomic.
    \<^verbatim>\<open>UpdateSecurity\<close> and \<^verbatim>\<open>UpdateVerified\<close>: an accepted update is the released file.

  \<^bold>\<open>Termination.\<close>  No definition has fuel.  Loops over data are structural or have a measure (\<open>fill\<close>,
  \<open>line_loop\<close>, \<open>payload_loop\<close> and \<open>await_write\<close>: the script of events still to come and the bytes missing;
  \<open>prune_loop\<close>: the records left; \<open>read_blocks\<close>: the bytes left).  A wait for an event that never comes is the
  value \<open>Unsettled\<close> or a state in which nothing happens, never a missing result.  The depth of
  callbacks inside callbacks is a parameter.

  \<^bold>\<open>Not modelled.\<close>  \<^verbatim>\<open>electron/proxy-server.js\<close> and the SCP sessions (\<^verbatim>\<open>session.js\<close>, \<^verbatim>\<open>upload-session.js\<close>,
  \<^verbatim>\<open>download-session.js\<close>, \<^verbatim>\<open>temp-file.js\<close>) are driven by the libraries \<^verbatim>\<open>ssh2\<close> and \<^verbatim>\<open>ws\<close> and by file descriptors;
  \<^verbatim>\<open>electron/ssh-key-service.js\<close> by cryptography and access-control tools; \<^verbatim>\<open>main.js\<close>,
  \<^verbatim>\<open>app-controller.js\<close>, \<^verbatim>\<open>preload.js\<close>, the login window, the tray, autostart, diagnostics and the update service
  wire Electron's objects to the parts above; \<^verbatim>\<open>cli/\<close> is a front end to the same services and
  \<^verbatim>\<open>src/src/\<close> the user interface.  Of \<^verbatim>\<open>electron/portal-api/client.js\<close> the choice of the host and TLS goes through
  Node's \<open>URL\<close> and \<open>https\<close>, of \<^verbatim>\<open>electron/update-security.js\<close> reading a YAML file and cleaning release notes by
  regular expressions are left to parameters.
\<close>

end
